(* ===== verification/Prelude.thy ===== *)
theory Prelude
  imports "HOL-Library.Word" "HOL-Library.Monad_Syntax"
begin

text \<open>
  Shared material of the development: the machine-integer conversions of C, byte buffers with
  checked reads and writes (\<open>None\<close> is an access outside the buffer, which C leaves undefined),
  big-endian numbers as the on-disk format stores them, and the generic lemmas on lists the
  components use.
\<close>

unbundle bit_operations_syntax

type_synonym u8 = "8 word"
type_synonym u16 = "16 word"
type_synonym u32 = "32 word"
type_synonym u64 = "64 word"
type_synonym bytes = "u8 list"

named_theorems buf_simps \<open>rewrite rules for checked accesses to byte buffers\<close>
named_theorems geom_simps \<open>unfolding rules for the address arithmetic macros\<close>

section \<open>Conversions between C integer types\<close>

text \<open>The value an integer keeps when it is stored in a signed or unsigned C type.\<close>

definition to_s32 :: "int \<Rightarrow> int" where
  "to_s32 x = signed_take_bit 31 x"

definition to_s64 :: "int \<Rightarrow> int" where
  "to_s64 x = signed_take_bit 63 x"

definition to_u32 :: "int \<Rightarrow> int" where
  "to_u32 x = x mod 2 ^ 32"

definition to_u64 :: "int \<Rightarrow> int" where
  "to_u64 x = x mod 2 ^ 64"

lemma to_s32_id [simp]: "- (2 ^ 31) \<le> x \<Longrightarrow> x < 2 ^ 31 \<Longrightarrow> to_s32 x = x"
  by (simp add: to_s32_def signed_take_bit_int_eq_self)

lemma to_s64_id [simp]: "- (2 ^ 63) \<le> x \<Longrightarrow> x < 2 ^ 63 \<Longrightarrow> to_s64 x = x"
  by (simp add: to_s64_def signed_take_bit_int_eq_self)

lemma to_s64_nonneg [simp]: "0 \<le> x \<Longrightarrow> x < 2 ^ 63 \<Longrightarrow> to_s64 x = x"
  by simp

lemma to_s32_nonneg [simp]: "0 \<le> x \<Longrightarrow> x < 2 ^ 31 \<Longrightarrow> to_s32 x = x"
  by simp

lemma uint_unat_less: "unat w < n \<Longrightarrow> uint w < int n"
proof -
  assume "unat w < n"
  moreover have "int (unat w) = uint w" by simp
  ultimately show ?thesis by linarith
qed

lemma to_u32_id [simp]: "0 \<le> x \<Longrightarrow> x < 2 ^ 32 \<Longrightarrow> to_u32 x = x"
  by (simp add: to_u32_def)

lemma to_u64_id [simp]: "0 \<le> x \<Longrightarrow> x < 2 ^ 64 \<Longrightarrow> to_u64 x = x"
  by (simp add: to_u64_def)

section \<open>Byte buffers\<close>

definition chunk :: "nat \<Rightarrow> nat \<Rightarrow> 'a list \<Rightarrow> 'a list" where
  "chunk off n xs = take n (drop off xs)"

lemma length_chunk [simp]: "off + n \<le> length xs \<Longrightarrow> length (chunk off n xs) = n"
  by (simp add: chunk_def)

lemma nth_chunk [simp]: "off + n \<le> length xs \<Longrightarrow> i < n \<Longrightarrow> chunk off n xs ! i = xs ! (off + i)"
  by (simp add: chunk_def)

lemma chunk_append_left [simp]:
  "off + n \<le> length xs \<Longrightarrow> chunk off n (xs @ ys) = chunk off n xs"
  by (simp add: chunk_def)

lemma chunk_append_right [simp]:
  "length xs \<le> off \<Longrightarrow> chunk off n (xs @ ys) = chunk (off - length xs) n ys"
  by (simp add: chunk_def)

lemma chunk_all: "length xs = n \<Longrightarrow> chunk 0 n xs = xs"
  by (simp add: chunk_def)

lemma chunk_zero [simp]: "chunk off 0 xs = []"
  by (simp add: chunk_def)

text \<open>\<open>memcpy\<close> out of and into a buffer; \<open>None\<close> when the range leaves the buffer.\<close>

definition rd_bytes :: "nat \<Rightarrow> nat \<Rightarrow> bytes \<Rightarrow> bytes option" where
  "rd_bytes off n mem = (if off + n \<le> length mem then Some (chunk off n mem) else None)"

definition wr_bytes :: "nat \<Rightarrow> bytes \<Rightarrow> bytes \<Rightarrow> bytes option" where
  "wr_bytes off bs mem =
     (if off + length bs \<le> length mem
      then Some (take off mem @ bs @ drop (off + length bs) mem) else None)"

lemma wr_bytes_length: "wr_bytes off bs mem = Some mem' \<Longrightarrow> length mem' = length mem"
  by (auto simp: wr_bytes_def split: if_splits)

lemma wr_bytes_nth:
  assumes "wr_bytes off bs mem = Some mem'" and "i < length mem"
  shows "mem' ! i = (if off \<le> i \<and> i < off + length bs then bs ! (i - off) else mem ! i)"
  using assms by (auto simp: wr_bytes_def nth_append min_def split: if_splits)

lemma wr_bytes_Some_iff: "(\<exists>mem'. wr_bytes off bs mem = Some mem') \<longleftrightarrow> off + length bs \<le> length mem"
  by (simp add: wr_bytes_def)

lemma rd_wr_same: "wr_bytes off bs mem = Some mem' \<Longrightarrow> rd_bytes off (length bs) mem' = Some bs"
  by (auto simp: wr_bytes_def rd_bytes_def chunk_def split: if_splits)

lemma rd_wr_other:
  assumes w: "wr_bytes off bs mem = Some mem'"
    and sep: "off' + n \<le> off \<or> off + length bs \<le> off'"
  shows "rd_bytes off' n mem' = rd_bytes off' n mem"
proof (cases "off' + n \<le> length mem")
  case True
  have l: "length mem' = length mem" using w by (rule wr_bytes_length)
  have "chunk off' n mem' = chunk off' n mem"
  proof (rule nth_equalityI)
    show "length (chunk off' n mem') = length (chunk off' n mem)"
      using True l by simp
  next
    fix i assume "i < length (chunk off' n mem')"
    then have "i < n" using True l by simp
    then show "chunk off' n mem' ! i = chunk off' n mem ! i"
      using True l sep wr_bytes_nth [OF w, of "off' + i"] by auto
  qed
  then show ?thesis using True l by (simp add: rd_bytes_def)
next
  case False
  then show ?thesis using wr_bytes_length [OF w] by (simp add: rd_bytes_def)
qed

text \<open>\<open>memcpy\<close> between two buffers, positions and length as the signed numbers C computes.\<close>

definition memcpy :: "bytes \<Rightarrow> int \<Rightarrow> bytes \<Rightarrow> int \<Rightarrow> int \<Rightarrow> bytes option" where
  "memcpy dst dpos src spos n =
     (if 0 \<le> dpos \<and> 0 \<le> spos \<and> 0 \<le> n
      then do { x \<leftarrow> rd_bytes (nat spos) (nat n) src; wr_bytes (nat dpos) x dst } else None)"

lemma memcpy_Some:
  assumes "0 \<le> dpos" "0 \<le> spos" "0 \<le> n" "spos + n \<le> int (length src)" "dpos + n \<le> int (length dst)"
  shows "\<exists>dst'. memcpy dst dpos src spos n = Some dst' \<and> length dst' = length dst \<and>
    (\<forall>i < length dst. dst' ! i = (if dpos \<le> int i \<and> int i < dpos + n
       then src ! (nat spos + (i - nat dpos)) else dst ! i))"
proof -
  have r: "rd_bytes (nat spos) (nat n) src = Some (chunk (nat spos) (nat n) src)"
    using assms by (simp add: rd_bytes_def nat_add_distrib [symmetric] nat_le_iff)
  have l: "length (chunk (nat spos) (nat n) src) = nat n"
    using assms by (simp add: nat_add_distrib [symmetric] nat_le_iff)
  obtain dst' where w: "wr_bytes (nat dpos) (chunk (nat spos) (nat n) src) dst = Some dst'"
    using assms l by (auto simp: wr_bytes_def nat_add_distrib [symmetric] nat_le_iff)
  have "dst' ! i = (if dpos \<le> int i \<and> int i < dpos + n
       then src ! (nat spos + (i - nat dpos)) else dst ! i)" if "i < length dst" for i
  proof -
    have c: "nat dpos \<le> i \<and> i < nat dpos + nat n \<longleftrightarrow> dpos \<le> int i \<and> int i < dpos + n"
      using assms by linarith
    have "i - nat dpos < nat n" if "dpos \<le> int i \<and> int i < dpos + n" using that assms by linarith
    moreover have "nat spos + nat n \<le> length src" using assms by linarith
    ultimately show ?thesis
      using wr_bytes_nth [OF w that] by (simp add: l c)
  qed
  then show ?thesis
    using r w wr_bytes_length [OF w] assms by (simp add: memcpy_def)
qed

section \<open>Big-endian numbers\<close>

text \<open>The value of a big-endian byte string, and the \<open>n\<close> bytes that store a value.\<close>

fun be_val_acc :: "nat \<Rightarrow> bytes \<Rightarrow> nat" where
  "be_val_acc acc [] = acc"
| "be_val_acc acc (b # bs) = be_val_acc (256 * acc + unat b) bs"

definition be_val :: "bytes \<Rightarrow> nat" where
  "be_val bs = be_val_acc 0 bs"

fun be_bytes :: "nat \<Rightarrow> nat \<Rightarrow> bytes" where
  "be_bytes 0 v = []"
| "be_bytes (Suc n) v = be_bytes n (v div 256) @ [word_of_nat v]"

lemma length_be_bytes [simp]: "length (be_bytes n v) = n"
  by (induction n arbitrary: v) auto

lemma be_val_acc_append: "be_val_acc acc (xs @ ys) = be_val_acc (be_val_acc acc xs) ys"
  by (induction xs arbitrary: acc) auto

lemma be_val_acc_be_bytes:
  "be_val_acc acc (be_bytes n v) = acc * 256 ^ n + v mod 256 ^ n"
proof (induction n arbitrary: acc v)
  case 0
  then show ?case by simp
next
  case (Suc n)
  have u: "unat (word_of_nat v :: u8) = v mod 256"
    by (simp add: unat_of_nat)
  have "v mod 256 ^ Suc n = 256 * (v div 256 mod 256 ^ n) + v mod 256"
    by (simp add: mod_mult2_eq)
  then show ?case
    using Suc [of acc "v div 256"] u by (simp add: be_val_acc_append algebra_simps)
qed

lemma be_val_be_bytes: "be_val (be_bytes n v) = v mod 256 ^ n"
  by (simp add: be_val_def be_val_acc_be_bytes)

lemma be_val_acc_bound: "be_val_acc acc bs < (acc + 1) * 256 ^ length bs"
proof (induction bs arbitrary: acc)
  case Nil
  then show ?case by simp
next
  case (Cons b bs)
  have "unat b < 256" using unsigned_less [of b] by simp
  then have le: "256 * acc + unat b + 1 \<le> (acc + 1) * 256" by simp
  have "be_val_acc (256 * acc + unat b) bs < (256 * acc + unat b + 1) * 256 ^ length bs"
    by (rule Cons)
  also have "\<dots> \<le> (acc + 1) * 256 * 256 ^ length bs"
    using le by (rule mult_right_mono) simp
  also have "\<dots> = (acc + 1) * 256 ^ length (b # bs)" by (simp add: algebra_simps)
  finally show ?case by simp
qed

lemma be_val_bound: "be_val bs < 256 ^ length bs"
  using be_val_acc_bound [of 0 bs] by (simp add: be_val_def)

lemma be_bytes_be_val_acc: "be_bytes (length bs) (be_val_acc acc bs) = bs"
proof (induction bs arbitrary: acc rule: rev_induct)
  case Nil
  then show ?case by simp
next
  case (snoc b bs)
  have b: "unat b < 256" using unsigned_less [of b] by simp
  have d: "(256 * be_val_acc acc bs + unat b) div 256 = be_val_acc acc bs"
    using b by simp
  have w: "(word_of_nat (256 * be_val_acc acc bs + unat b) :: u8) = b"
  proof -
    have "(256 :: u8) = 0" by simp
    then show ?thesis
      by (simp only: of_nat_add of_nat_mult of_nat_numeral mult_zero_left add_0
          of_nat_unat ucast_id)
  qed
  show ?case using snoc [of acc] d w by (simp add: be_val_acc_append)
qed

lemma be_bytes_be_val: "be_bytes (length bs) (be_val bs) = bs"
  by (simp add: be_val_def be_bytes_be_val_acc)

definition rd_be :: "nat \<Rightarrow> nat \<Rightarrow> bytes \<Rightarrow> nat option" where
  "rd_be n off mem = map_option be_val (rd_bytes off n mem)"

definition wr_be :: "nat \<Rightarrow> nat \<Rightarrow> nat \<Rightarrow> bytes \<Rightarrow> bytes option" where
  "wr_be n v off mem = wr_bytes off (be_bytes n v) mem"

abbreviation rd8 :: "nat \<Rightarrow> bytes \<Rightarrow> nat option" where
  "rd8 \<equiv> rd_be 1"

abbreviation rd_be16 :: "nat \<Rightarrow> bytes \<Rightarrow> nat option" where
  "rd_be16 \<equiv> rd_be 2"

abbreviation rd_be32 :: "nat \<Rightarrow> bytes \<Rightarrow> nat option" where
  "rd_be32 \<equiv> rd_be 4"

abbreviation rd_be64 :: "nat \<Rightarrow> bytes \<Rightarrow> nat option" where
  "rd_be64 \<equiv> rd_be 8"

lemma rd_be_bound: "rd_be n off mem = Some v \<Longrightarrow> v < 256 ^ n"
  using be_val_bound [of "chunk off n mem"] by (auto simp: rd_be_def rd_bytes_def split: if_splits)

lemma rd_be_wr_same: "wr_be n v off mem = Some mem' \<Longrightarrow> rd_be n off mem' = Some (v mod 256 ^ n)"
  using rd_wr_same [of off "be_bytes n v" mem mem'] by (simp add: rd_be_def wr_be_def be_val_be_bytes)

lemma rd_be_wr_other:
  "wr_be n v off mem = Some mem' \<Longrightarrow> off' + k \<le> off \<or> off + n \<le> off' \<Longrightarrow>
   rd_be k off' mem' = rd_be k off' mem"
  by (simp add: rd_be_def wr_be_def rd_wr_other)

lemma rd_bytes_wr_be_other:
  "wr_be n v off mem = Some mem' \<Longrightarrow> off' + k \<le> off \<or> off + n \<le> off' \<Longrightarrow>
   rd_bytes off' k mem' = rd_bytes off' k mem"
  by (simp add: wr_be_def rd_wr_other)

lemma wr_be_length: "wr_be n v off mem = Some mem' \<Longrightarrow> length mem' = length mem"
  by (simp add: wr_be_def wr_bytes_length)

lemma wr_be_Some_iff: "(\<exists>mem'. wr_be n v off mem = Some mem') \<longleftrightarrow> off + n \<le> length mem"
  by (simp add: wr_be_def wr_bytes_Some_iff)

text \<open>A number or a byte string that a concatenation stores at the expected place.\<close>

lemma rd_be_append [buf_simps]:
  "length pre = off \<Longrightarrow> rd_be n off (pre @ be_bytes n v @ post) = Some (v mod 256 ^ n)"
  by (simp add: rd_be_def rd_bytes_def chunk_def be_val_be_bytes)

lemma rd_bytes_append [buf_simps]:
  "length pre = off \<Longrightarrow> length bs = n \<Longrightarrow> rd_bytes off n (pre @ bs @ post) = Some bs"
  by (simp add: rd_bytes_def chunk_def)

lemma rd_be_at:
  "d = pre @ be_bytes n v @ post \<Longrightarrow> length pre = off \<Longrightarrow> v < 256 ^ n \<Longrightarrow> rd_be n off d = Some v"
  by (simp add: rd_be_append)

lemma rd_bytes_at:
  "d = pre @ bs @ post \<Longrightarrow> length pre = off \<Longrightarrow> length bs = n \<Longrightarrow> rd_bytes off n d = Some bs"
  by (simp add: rd_bytes_append)

lemma rd_be_prefix: "off + n \<le> length xs \<Longrightarrow> rd_be n off (xs @ ys) = rd_be n off xs"
  by (simp add: rd_be_def rd_bytes_def)

declare be_bytes.simps [simp del]

end
