(* ===== verification/Superblock.thy ===== *)
theory Superblock
  imports Prelude
begin

text \<open>
  The superblock (libxfs/xfs_mount.c, include/xfs_sb.h): the in-core structure, its on-disk form,
  the conversions in both directions (\<open>xfs_sb_from_disk\<close>, and \<open>xfs_sb_to_disk\<close>, which
  copies only the fields a mask names, driven by the table \<open>xfs_sb_info\<close>), and the mount
  structure's fields that are computed from it (\<open>xfs_mount_common\<close>, \<open>xfs_dir_mount\<close>).
  The lemmas show that the two conversions are inverse to each other field by field and that a
  masked copy leaves every other field of the disk buffer as it was.

  Unsigned fields are \<open>nat\<close>; \<open>sb_wf\<close> says each value fits its C type.
\<close>

section \<open>The in-core superblock\<close>

record xfs_sb =
  sb_magicnum :: nat
  sb_blocksize :: nat
  sb_dblocks :: nat
  sb_rblocks :: nat
  sb_rextents :: nat
  sb_uuid :: bytes
  sb_logstart :: nat
  sb_rootino :: nat
  sb_rbmino :: nat
  sb_rsumino :: nat
  sb_rextsize :: nat
  sb_agblocks :: nat
  sb_agcount :: nat
  sb_rbmblocks :: nat
  sb_logblocks :: nat
  sb_versionnum :: nat
  sb_sectsize :: nat
  sb_inodesize :: nat
  sb_inopblock :: nat
  sb_fname :: bytes
  sb_blocklog :: nat
  sb_sectlog :: nat
  sb_inodelog :: nat
  sb_inopblog :: nat
  sb_agblklog :: nat
  sb_rextslog :: nat
  sb_inprogress :: nat
  sb_imax_pct :: nat
  sb_icount :: nat
  sb_ifree :: nat
  sb_fdblocks :: nat
  sb_frextents :: nat
  sb_uquotino :: nat
  sb_gquotino :: nat
  sb_qflags :: nat
  sb_flags :: nat
  sb_shared_vn :: nat
  sb_inoalignmt :: nat
  sb_unit :: nat
  sb_width :: nat
  sb_dirblklog :: nat
  sb_logsectlog :: nat
  sb_logsectsize :: nat
  sb_logsunit :: nat
  sb_features2 :: nat
  sb_bad_features2 :: nat

text \<open>
  The table \<open>xfs_sb_info\<close>: offset and type of each field (1 for strings, which are never byte-swapped);
  the last entry is the size of the structure. \<open>xfs_sb_t\<close> and the disk structure have the same layout.
\<close>

definition xfs_sb_info :: "(nat \<times> nat) list" where
  "xfs_sb_info =
    [(0, 0), (4, 0), (8, 0), (16, 0), (24, 0), (32, 1), (48, 0), (56, 0), (64, 0), (72, 0),
     (80, 0), (84, 0), (88, 0), (92, 0), (96, 0), (100, 0), (102, 0), (104, 0), (106, 0),
     (108, 1), (120, 0), (121, 0), (122, 0), (123, 0), (124, 0), (125, 0), (126, 0),
     (127, 0), (128, 0), (136, 0), (144, 0), (152, 0), (160, 0), (168, 0), (176, 0),
     (178, 0), (179, 0), (180, 0), (184, 0), (188, 0), (192, 0), (193, 0), (194, 0),
     (196, 0), (200, 0), (204, 0), (208, 0)]"

abbreviation sb_off :: "nat \<Rightarrow> nat" where
  "sb_off f \<equiv> fst (xfs_sb_info ! f)"

abbreviation sb_type :: "nat \<Rightarrow> nat" where
  "sb_type f \<equiv> snd (xfs_sb_info ! f)"

definition sb_size :: "nat \<Rightarrow> nat" where
  "sb_size f = sb_off (f + 1) - sb_off f"

text \<open>
  The fields of the in-core structure in their order: an integer with the bytes of its C type, or a string.
\<close>

datatype sb_value = SbInt nat nat | SbRaw bytes

definition sb_fields :: "xfs_sb \<Rightarrow> sb_value list" where
  "sb_fields sb =
    [SbInt 4 (sb_magicnum sb),
     SbInt 4 (sb_blocksize sb),
     SbInt 8 (sb_dblocks sb),
     SbInt 8 (sb_rblocks sb),
     SbInt 8 (sb_rextents sb),
     SbRaw (sb_uuid sb),
     SbInt 8 (sb_logstart sb),
     SbInt 8 (sb_rootino sb),
     SbInt 8 (sb_rbmino sb),
     SbInt 8 (sb_rsumino sb),
     SbInt 4 (sb_rextsize sb),
     SbInt 4 (sb_agblocks sb),
     SbInt 4 (sb_agcount sb),
     SbInt 4 (sb_rbmblocks sb),
     SbInt 4 (sb_logblocks sb),
     SbInt 2 (sb_versionnum sb),
     SbInt 2 (sb_sectsize sb),
     SbInt 2 (sb_inodesize sb),
     SbInt 2 (sb_inopblock sb),
     SbRaw (sb_fname sb),
     SbInt 1 (sb_blocklog sb),
     SbInt 1 (sb_sectlog sb),
     SbInt 1 (sb_inodelog sb),
     SbInt 1 (sb_inopblog sb),
     SbInt 1 (sb_agblklog sb),
     SbInt 1 (sb_rextslog sb),
     SbInt 1 (sb_inprogress sb),
     SbInt 1 (sb_imax_pct sb),
     SbInt 8 (sb_icount sb),
     SbInt 8 (sb_ifree sb),
     SbInt 8 (sb_fdblocks sb),
     SbInt 8 (sb_frextents sb),
     SbInt 8 (sb_uquotino sb),
     SbInt 8 (sb_gquotino sb),
     SbInt 2 (sb_qflags sb),
     SbInt 1 (sb_flags sb),
     SbInt 1 (sb_shared_vn sb),
     SbInt 4 (sb_inoalignmt sb),
     SbInt 4 (sb_unit sb),
     SbInt 4 (sb_width sb),
     SbInt 1 (sb_dirblklog sb),
     SbInt 1 (sb_logsectlog sb),
     SbInt 2 (sb_logsectsize sb),
     SbInt 4 (sb_logsunit sb),
     SbInt 4 (sb_features2 sb),
     SbInt 4 (sb_bad_features2 sb)]"

section \<open>From disk\<close>

definition xfs_sb_from_disk :: "bytes \<Rightarrow> xfs_sb option" where
  "xfs_sb_from_disk from =
    (if length from < 208 then None else Some
     \<lparr> sb_magicnum = be_val (chunk 0 4 from),
       sb_blocksize = be_val (chunk 4 4 from),
       sb_dblocks = be_val (chunk 8 8 from),
       sb_rblocks = be_val (chunk 16 8 from),
       sb_rextents = be_val (chunk 24 8 from),
       sb_uuid = chunk 32 16 from,
       sb_logstart = be_val (chunk 48 8 from),
       sb_rootino = be_val (chunk 56 8 from),
       sb_rbmino = be_val (chunk 64 8 from),
       sb_rsumino = be_val (chunk 72 8 from),
       sb_rextsize = be_val (chunk 80 4 from),
       sb_agblocks = be_val (chunk 84 4 from),
       sb_agcount = be_val (chunk 88 4 from),
       sb_rbmblocks = be_val (chunk 92 4 from),
       sb_logblocks = be_val (chunk 96 4 from),
       sb_versionnum = be_val (chunk 100 2 from),
       sb_sectsize = be_val (chunk 102 2 from),
       sb_inodesize = be_val (chunk 104 2 from),
       sb_inopblock = be_val (chunk 106 2 from),
       sb_fname = chunk 108 12 from,
       sb_blocklog = be_val (chunk 120 1 from),
       sb_sectlog = be_val (chunk 121 1 from),
       sb_inodelog = be_val (chunk 122 1 from),
       sb_inopblog = be_val (chunk 123 1 from),
       sb_agblklog = be_val (chunk 124 1 from),
       sb_rextslog = be_val (chunk 125 1 from),
       sb_inprogress = be_val (chunk 126 1 from),
       sb_imax_pct = be_val (chunk 127 1 from),
       sb_icount = be_val (chunk 128 8 from),
       sb_ifree = be_val (chunk 136 8 from),
       sb_fdblocks = be_val (chunk 144 8 from),
       sb_frextents = be_val (chunk 152 8 from),
       sb_uquotino = be_val (chunk 160 8 from),
       sb_gquotino = be_val (chunk 168 8 from),
       sb_qflags = be_val (chunk 176 2 from),
       sb_flags = be_val (chunk 178 1 from),
       sb_shared_vn = be_val (chunk 179 1 from),
       sb_inoalignmt = be_val (chunk 180 4 from),
       sb_unit = be_val (chunk 184 4 from),
       sb_width = be_val (chunk 188 4 from),
       sb_dirblklog = be_val (chunk 192 1 from),
       sb_logsectlog = be_val (chunk 193 1 from),
       sb_logsectsize = be_val (chunk 194 2 from),
       sb_logsunit = be_val (chunk 196 4 from),
       sb_features2 = be_val (chunk 200 4 from),
       sb_bad_features2 = be_val (chunk 204 4 from) \<rparr>)"
section \<open>To disk\<close>

text \<open>\<open>ffs(v) - 1\<close> on a 64-bit value: the number of the lowest bit set, \<open>-1\<close> for zero.\<close>

function lowbit :: "nat \<Rightarrow> nat" where
  "lowbit v = (if v = 0 \<or> odd v then 0 else Suc (lowbit (v div 2)))"
  by pat_completeness auto
termination
  by (relation "measure (\<lambda>v. v)") auto

declare lowbit.simps [simp del]

definition xfs_lowbit64 :: "nat \<Rightarrow> int" where
  "xfs_lowbit64 v = (if v = 0 then - 1 else int (lowbit v))"

lemma lowbit_dvd: "v \<noteq> 0 \<Longrightarrow> 2 ^ lowbit v dvd v \<and> odd (v div 2 ^ lowbit v)"
proof (induction v rule: lowbit.induct)
  case (1 v)
  show ?case
  proof (cases "odd v")
    case True
    then show ?thesis by (simp add: lowbit.simps [of v])
  next
    case False
    with "1.prems" have nz: "v div 2 \<noteq> 0" by presburger
    have e: "v = 2 * (v div 2)" using False by presburger
    have IH: "2 ^ lowbit (v div 2) dvd v div 2" "odd (v div 2 div 2 ^ lowbit (v div 2))"
      using "1.IH" "1.prems" False nz by auto
    have l: "lowbit v = Suc (lowbit (v div 2))"
      using "1.prems" False by (simp add: lowbit.simps [of v])
    have "2 * 2 ^ lowbit (v div 2) dvd v"
      using IH(1) e by (metis mult_dvd_mono dvd_refl)
    then show ?thesis
      using l IH(2) by (simp add: div_mult2_eq)
  qed
qed

lemma lowbit_bit: "v \<noteq> 0 \<Longrightarrow> bit v (lowbit v)"
  using lowbit_dvd [of v] by (simp add: bit_iff_odd)

lemma lowbit_least: "bit v i \<Longrightarrow> lowbit v \<le> i"
proof (rule ccontr)
  assume b: "bit v i" and "\<not> lowbit v \<le> i"
  then have lt: "i < lowbit v" by simp
  have "v \<noteq> 0" using b by (metis bit_0_eq bot_apply bot_bool_def)
  then have "2 ^ lowbit v dvd v" using lowbit_dvd by blast
  moreover have "(2 :: nat) ^ Suc i dvd 2 ^ lowbit v"
    using lt by (intro le_imp_power_dvd) simp
  ultimately have "2 ^ Suc i dvd v" by (rule dvd_trans [rotated])
  then obtain c where "v = 2 ^ i * (2 * c)"
    by (metis dvdE mult.assoc power_Suc2)
  then have "even (v div 2 ^ i)" by simp
  then show False using b by (simp add: bit_iff_odd)
qed

lemma unset_lowbit_less: "v \<noteq> 0 \<Longrightarrow> unset_bit (lowbit v) v < (v :: nat)"
proof -
  assume "v \<noteq> 0"
  then have "bit v (lowbit v)" by (rule lowbit_bit)
  then have "unset_bit (lowbit v) v \<noteq> v"
    by (metis bit_unset_bit_iff)
  moreover have "unset_bit (lowbit v) v \<le> v"
    by (metis of_nat_unset_bit_eq of_nat_le_iff unset_bit_less_eq)
  ultimately show ?thesis by simp
qed

text \<open>
  The in-core structure as memory, on a little-endian machine: its fields one after the other, integers with their
  lowest byte first. \<open>cpu_to_be16\<close>, \<open>cpu_to_be32\<close> and \<open>cpu_to_be64\<close> reverse the bytes there.
\<close>

definition sb_value_mem :: "sb_value \<Rightarrow> bytes" where
  "sb_value_mem x = (case x of SbRaw bs \<Rightarrow> bs | SbInt n v \<Rightarrow> rev (be_bytes n v))"

definition sb_mem :: "xfs_sb \<Rightarrow> bytes" where
  "sb_mem sb = concat (map sb_value_mem (sb_fields sb))"

definition cpu_to_be :: "bytes \<Rightarrow> bytes" where
  "cpu_to_be x = rev x"

text \<open>
  One field: single bytes and strings are copied, integers of 2, 4 or 8 bytes converted, and a field of any other
  size is not copied at all (\<open>ASSERT (0)\<close>, which is not compiled in).
\<close>

definition sb_copy_field :: "bytes \<Rightarrow> nat \<Rightarrow> bytes \<Rightarrow> bytes option" where
  "sb_copy_field from f to =
    (let first = sb_off f; sz = sb_size f in
     if sz = 1 \<or> sb_type f = 1 then do {
       x \<leftarrow> rd_bytes first sz from;
       wr_bytes first x to }
     else if sz = 2 then do {
       x \<leftarrow> rd_bytes first 2 from;
       wr_bytes first (cpu_to_be x) to }
     else if sz = 4 then do {
       x \<leftarrow> rd_bytes first 4 from;
       wr_bytes first (cpu_to_be x) to }
     else if sz = 8 then do {
       x \<leftarrow> rd_bytes first 8 from;
       wr_bytes first (cpu_to_be x) to }
     else Some to)"

text \<open>The loop over the bits of the mask, lowest first; a bit beyond the table reads outside it.\<close>

function sb_copy_fields :: "bytes \<Rightarrow> bytes \<Rightarrow> nat \<Rightarrow> bytes option" where
  "sb_copy_fields to from flds =
    (if flds = 0 then Some to
     else if length xfs_sb_info \<le> lowbit flds + 1 then None
     else (case sb_copy_field from (lowbit flds) to of
             None \<Rightarrow> None
           | Some to' \<Rightarrow> sb_copy_fields to' from (unset_bit (lowbit flds) flds)))"
  by pat_completeness auto
termination
  by (relation "measure (\<lambda>(to, from, flds). flds)") (auto simp: unset_lowbit_less)

declare sb_copy_fields.simps [simp del]

definition xfs_sb_to_disk :: "bytes \<Rightarrow> xfs_sb \<Rightarrow> nat \<Rightarrow> bytes option" where
  "xfs_sb_to_disk to from flds = sb_copy_fields to (sb_mem from) flds"

section \<open>The conversions are inverse to each other\<close>

definition sb_wf :: "xfs_sb \<Rightarrow> bool" where
  "sb_wf sb \<longleftrightarrow>
    list_all (\<lambda>f. case sb_fields sb ! f of
        SbRaw bs \<Rightarrow> length bs = sb_size f
      | SbInt n v \<Rightarrow> v < 256 ^ n) [0..<46]"

text \<open>The bytes a field has on disk.\<close>

definition sb_encode :: "xfs_sb \<Rightarrow> nat \<Rightarrow> bytes" where
  "sb_encode sb f = (case sb_fields sb ! f of SbRaw bs \<Rightarrow> bs | SbInt n v \<Rightarrow> be_bytes n v)"

lemma length_xfs_sb_info [simp]: "length xfs_sb_info = 47"
  by (simp add: xfs_sb_info_def)

lemma sb_off_mono: "f \<le> g \<Longrightarrow> g \<le> 46 \<Longrightarrow> sb_off f \<le> sb_off g"
proof -
  have "sorted (map fst xfs_sb_info)" by (simp add: xfs_sb_info_def)
  then show "f \<le> g \<Longrightarrow> g \<le> 46 \<Longrightarrow> sb_off f \<le> sb_off g"
    using sorted_nth_mono [of "map fst xfs_sb_info" f g] by simp
qed

lemma sb_off_size: "f < 46 \<Longrightarrow> sb_off f + sb_size f = sb_off (f + 1)"
  using sb_off_mono [of f "f + 1"] by (simp add: sb_size_def)

lemma sb_off_last: "sb_off 46 = 208"
  by (simp add: xfs_sb_info_def)

lemma sb_region_disjoint:
  assumes "f < 46" "g < 46" "f \<noteq> g"
  shows "sb_off f + sb_size f \<le> sb_off g \<or> sb_off g + sb_size g \<le> sb_off f"
proof (cases "f < g")
  case True
  then show ?thesis using assms sb_off_size [of f] sb_off_mono [of "f + 1" g] by simp
next
  case False
  then show ?thesis using assms sb_off_size [of g] sb_off_mono [of "g + 1" f] by simp
qed

lemma sb_region_inside: "f < 46 \<Longrightarrow> sb_off f + sb_size f \<le> 208"
  using sb_off_size [of f] sb_off_mono [of "f + 1" 46] sb_off_last by simp

lemma upt_46: "[0..<46] =
  [0, 1, 2, 3, 4, 5, 6, 7, 8, 9, 10, 11, 12, 13, 14, 15, 16, 17, 18, 19, 20, 21, 22, 23,
   24, 25, 26, 27, 28, 29, 30, 31, 32, 33, 34, 35, 36, 37, 38, 39, 40, 41, 42, 43, 44, 45]"
  by code_simp

text \<open>What the table says of each field agrees with its C type.\<close>

lemma sb_table:
  "list_all (\<lambda>f. case sb_fields sb ! f of
      SbRaw bs \<Rightarrow> sb_type f = 1
    | SbInt n v \<Rightarrow> sb_size f = n \<and> (n = 1 \<or> sb_type f \<noteq> 1 \<and> (n = 2 \<or> n = 4 \<or> n = 8))) [0..<46]"
  by (simp add: sb_fields_def sb_size_def xfs_sb_info_def upt_46)

lemma sb_field_cases:
  assumes "sb_wf sb" and "f < 46"
  obtains (raw) bs where "sb_fields sb ! f = SbRaw bs" "sb_type f = 1" "length bs = sb_size f"
    | (int) n v where "sb_fields sb ! f = SbInt n v" "sb_size f = n" "v < 256 ^ n"
      "n = 1 \<or> sb_type f \<noteq> 1 \<and> (n = 2 \<or> n = 4 \<or> n = 8)"
proof (cases "sb_fields sb ! f")
  case (SbInt n v)
  have "sb_size f = n \<and> (n = 1 \<or> sb_type f \<noteq> 1 \<and> (n = 2 \<or> n = 4 \<or> n = 8))" "v < 256 ^ n"
    using sb_table [of sb] assms SbInt by (auto simp: sb_wf_def list_all_iff dest!: bspec [where x = f])
  then show ?thesis using that(2) SbInt by blast
next
  case (SbRaw bs)
  have "sb_type f = 1" "length bs = sb_size f"
    using sb_table [of sb] assms SbRaw by (auto simp: sb_wf_def list_all_iff dest!: bspec [where x = f])
  then show ?thesis using that(1) SbRaw by blast
qed

lemma length_sb_fields [simp]: "length (sb_fields sb) = 46"
  by (simp add: sb_fields_def)

lemma sb_value_mem_length:
  assumes "sb_wf sb" and "f < 46"
  shows "length (sb_value_mem (sb_fields sb ! f)) = sb_size f"
  using assms by (cases rule: sb_field_cases) (simp_all add: sb_value_mem_def)

lemma sb_mem_prefix:
  assumes "sb_wf sb"
  shows "f \<le> 46 \<Longrightarrow> length (concat (map sb_value_mem (take f (sb_fields sb)))) = sb_off f"
proof (induction f)
  case 0
  then show ?case by (simp add: xfs_sb_info_def)
next
  case (Suc f)
  then show ?case
    using sb_value_mem_length [OF assms, of f] sb_off_size [of f] by (simp add: take_Suc_conv_app_nth)
qed

lemma sb_mem_field:
  assumes w: "sb_wf sb" and f: "f < 46"
  shows "rd_bytes (sb_off f) (sb_size f) (sb_mem sb) = Some (sb_value_mem (sb_fields sb ! f))"
proof -
  have "sb_mem sb = concat (map sb_value_mem (take f (sb_fields sb))) @ sb_value_mem (sb_fields sb ! f) @
      concat (map sb_value_mem (drop (Suc f) (sb_fields sb)))"
    unfolding sb_mem_def using id_take_nth_drop [of f "sb_fields sb"] f
    by (metis concat.simps(2) concat_append length_sb_fields list.simps(9) map_append)
  then show ?thesis
    using rd_bytes_append [OF sb_mem_prefix [OF w] sb_value_mem_length [OF w f]] f by simp
qed

lemma rev_single: "length xs = Suc 0 \<Longrightarrow> rev xs = xs"
  by (cases xs) auto

lemma sb_copy_field_ok:
  assumes w: "sb_wf sb" and f: "f < 46"
  shows "sb_copy_field (sb_mem sb) f to = wr_bytes (sb_off f) (sb_encode sb f) to"
  using w f
proof (cases rule: sb_field_cases)
  case (raw bs)
  then show ?thesis
    using sb_mem_field [OF w f] by (simp add: sb_copy_field_def sb_encode_def sb_value_mem_def)
next
  case (int n v)
  then show ?thesis
    using sb_mem_field [OF w f]
    by (auto simp: sb_copy_field_def sb_encode_def sb_value_mem_def cpu_to_be_def rev_single)
qed

lemma sb_encode_length: "sb_wf sb \<Longrightarrow> f < 46 \<Longrightarrow> length (sb_encode sb f) = sb_size f"
  by (erule (1) sb_field_cases) (simp_all add: sb_encode_def)

lemma sb_copy_fields_regions:
  assumes w: "sb_wf sb" and "sb_copy_fields to (sb_mem sb) m = Some to'"
  shows "length to' = length to \<and>
    (\<forall>f < 46. rd_bytes (sb_off f) (sb_size f) to' =
       (if bit m f then Some (sb_encode sb f) else rd_bytes (sb_off f) (sb_size f) to))"
  using assms(2)
proof (induction to "sb_mem sb" m rule: sb_copy_fields.induct)
  case (1 to m)
  show ?case
  proof (cases "m = 0")
    case True
    then show ?thesis using "1.prems" by (simp add: sb_copy_fields.simps [of to _ 0])
  next
    case False
    let ?l = "lowbit m" and ?enc = "sb_encode sb"
    from "1.prems" False obtain to1 where l: "?l < 46"
      and c: "sb_copy_field (sb_mem sb) ?l to = Some to1"
      and rec: "sb_copy_fields to1 (sb_mem sb) (unset_bit ?l m) = Some to'"
      by (auto simp: sb_copy_fields.simps [of to _ m] split: if_splits option.splits)
    have wr: "wr_bytes (sb_off ?l) (?enc ?l) to = Some to1" using c sb_copy_field_ok [OF w l] by simp
    have IH: "length to' = length to1 \<and>
      (\<forall>f < 46. rd_bytes (sb_off f) (sb_size f) to' =
         (if bit (unset_bit ?l m) f then Some (?enc f) else rd_bytes (sb_off f) (sb_size f) to1))"
      using "1.hyps" [OF False _ c rec] l by simp
    have len: "length (?enc ?l) = sb_size ?l" by (rule sb_encode_length [OF w l])
    have same: "rd_bytes (sb_off ?l) (sb_size ?l) to1 = Some (?enc ?l)"
      using rd_wr_same [OF wr] len by simp
    have other: "rd_bytes (sb_off f) (sb_size f) to1 = rd_bytes (sb_off f) (sb_size f) to"
      if "f < 46" "f \<noteq> ?l" for f
      using rd_wr_other [OF wr, of "sb_off f" "sb_size f"] sb_region_disjoint [OF that(1) l that(2)]
        len by auto
    have "bit m ?l" using False by (rule lowbit_bit)
    then show ?thesis
      using IH same other wr_bytes_length [OF wr] by (auto simp: bit_unset_bit_iff)
  qed
qed

lemma sb_copy_fields_total:
  assumes w: "sb_wf sb" and "m < 2 ^ 46" and "208 \<le> length to"
  shows "\<exists>to'. sb_copy_fields to (sb_mem sb) m = Some to'"
  using assms(2,3)
proof (induction to "sb_mem sb" m rule: sb_copy_fields.induct)
  case (1 to m)
  show ?case
  proof (cases "m = 0")
    case True
    then show ?thesis by (simp add: sb_copy_fields.simps [of to _ 0])
  next
    case False
    let ?l = "lowbit m"
    have "(2 :: nat) ^ ?l \<le> m" using lowbit_dvd [OF False] False by (simp add: dvd_imp_le)
    then have "(2 :: nat) ^ ?l < 2 ^ 46" using "1.prems"(1) by simp
    then have l: "?l < 46" by (rule power_less_imp_less_exp [rotated]) simp
    obtain to1 where wr: "wr_bytes (sb_off ?l) (sb_encode sb ?l) to = Some to1"
      using wr_bytes_Some_iff [of "sb_off ?l" "sb_encode sb ?l" to] "1.prems"(2) sb_region_inside [OF l]
        sb_encode_length [OF w l] by auto
    then have c: "sb_copy_field (sb_mem sb) ?l to = Some to1" using sb_copy_field_ok [OF w l] by simp
    have m': "unset_bit ?l m < 2 ^ 46" using unset_lowbit_less [OF False] "1.prems"(1) by simp
    have "\<exists>to'. sb_copy_fields to1 (sb_mem sb) (unset_bit ?l m) = Some to'"
      using "1.hyps" [OF False _ c m'] l wr_bytes_length [OF wr] "1.prems"(2) by simp
    then show ?thesis using False l c by (simp add: sb_copy_fields.simps [of to _ m])
  qed
qed

lemma sb_from_disk_encode:
  assumes "xfs_sb_from_disk mem = Some sb"
  shows "list_all (\<lambda>f. rd_bytes (sb_off f) (sb_size f) mem = Some (sb_encode sb f)) [0..<46]"
proof -
  have l: "208 \<le> length mem" using assms by (auto simp: xfs_sb_from_disk_def split: if_splits)
  have be: "be_bytes n (be_val (chunk off n mem)) = chunk off n mem" if "off + n \<le> 208" for off n
    using be_bytes_be_val [of "chunk off n mem"] that l by simp
  show ?thesis
    using assms l
    by (auto simp: xfs_sb_from_disk_def sb_encode_def sb_fields_def sb_size_def xfs_sb_info_def
        rd_bytes_def be upt_46 simp flip: One_nat_def)
qed

lemma sb_from_disk_wf: "xfs_sb_from_disk mem = Some sb \<Longrightarrow> sb_wf sb"
proof -
  assume a: "xfs_sb_from_disk mem = Some sb"
  then have l: "208 \<le> length mem" by (auto simp: xfs_sb_from_disk_def split: if_splits)
  have b: "be_val (chunk off n mem) < 256 ^ n" if "off + n \<le> 208" for off n
    using be_val_bound [of "chunk off n mem"] that l by simp
  show "sb_wf sb"
    using a l b [of _ 1] b [of _ 2] b [of _ 4] b [of _ 8]
    by (auto simp: xfs_sb_from_disk_def sb_wf_def sb_fields_def sb_size_def xfs_sb_info_def upt_46)
qed

lemma sb_fields_inject: "sb_fields a = sb_fields b \<Longrightarrow> a = b"
  by (cases a; cases b) (simp add: sb_fields_def)

lemma sb_fields_kind:
  "list_all (\<lambda>f. case sb_fields a ! f of
      SbInt n v \<Rightarrow> (\<exists>w. sb_fields b ! f = SbInt n w)
    | SbRaw bs \<Rightarrow> (\<exists>cs. sb_fields b ! f = SbRaw cs)) [0..<46]"
  by (simp add: sb_fields_def upt_46)

text \<open>Two well-formed superblocks whose field \<open>f\<close> has the same bytes have the same field \<open>f\<close>.\<close>

lemma sb_encode_inject:
  assumes "sb_wf a" "sb_wf b" "f < 46" "sb_encode a f = sb_encode b f"
  shows "sb_fields a ! f = sb_fields b ! f"
proof -
  have wa: "case sb_fields a ! f of SbRaw bs \<Rightarrow> length bs = sb_size f | SbInt n v \<Rightarrow> v < 256 ^ n"
    and wb: "case sb_fields b ! f of SbRaw bs \<Rightarrow> length bs = sb_size f | SbInt n v \<Rightarrow> v < 256 ^ n"
    using assms(1-3) by (simp_all add: sb_wf_def list_all_iff)
  have k: "case sb_fields a ! f of SbInt n v \<Rightarrow> (\<exists>w. sb_fields b ! f = SbInt n w)
      | SbRaw bs \<Rightarrow> (\<exists>cs. sb_fields b ! f = SbRaw cs)"
    using sb_fields_kind [where a = a and b = b] assms(3) unfolding list_all_iff by simp
  have inj: "v = w" if "be_bytes n v = be_bytes n w" "v < 256 ^ n" "w < 256 ^ n" for n v w
    using that by (metis be_val_be_bytes mod_less)
  show ?thesis
    using wa wb k inj assms(4) by (auto simp: sb_encode_def split: sb_value.splits)
qed

text \<open>C30: Copying the superblock fields a mask names into a disk buffer with \<open>xfs_sb_to_disk\<close> and
  reading the buffer back with \<open>xfs_sb_from_disk\<close> gives, field by field, the in-core value for the
  fields of the mask and the value the disk held before for all others. The copy succeeds for every
  mask of the 46 fields and every buffer of superblock size.\<close>

theorem sb_to_disk_from_disk:
  assumes "sb_wf sb" and "flds < 2 ^ 46" and "xfs_sb_from_disk to = Some old"
  shows "\<exists>to' new. xfs_sb_to_disk to sb flds = Some to' \<and> length to' = length to \<and>
     xfs_sb_from_disk to' = Some new \<and>
     (\<forall>f < 46. sb_fields new ! f = (if bit flds f then sb_fields sb ! f else sb_fields old ! f))"
proof -
  have l: "208 \<le> length to" using assms(3) by (auto simp: xfs_sb_from_disk_def split: if_splits)
  obtain to' where t: "sb_copy_fields to (sb_mem sb) flds = Some to'"
    using sb_copy_fields_total [OF assms(1,2) l] by blast
  have r: "length to' = length to \<and> (\<forall>f < 46. rd_bytes (sb_off f) (sb_size f) to' =
       (if bit flds f then Some (sb_encode sb f) else rd_bytes (sb_off f) (sb_size f) to))"
    by (rule sb_copy_fields_regions [OF assms(1) t])
  obtain new where n: "xfs_sb_from_disk to' = Some new"
    using r l by (auto simp: xfs_sb_from_disk_def)
  have en: "rd_bytes (sb_off f) (sb_size f) to' = Some (sb_encode new f)" if "f < 46" for f
    using sb_from_disk_encode [OF n] that by (simp add: list_all_iff)
  have eo: "rd_bytes (sb_off f) (sb_size f) to = Some (sb_encode old f)" if "f < 46" for f
    using sb_from_disk_encode [OF assms(3)] that by (simp add: list_all_iff)
  have "sb_fields new ! f = (if bit flds f then sb_fields sb ! f else sb_fields old ! f)"
    if f: "f < 46" for f
    using en [OF f] eo [OF f] r f sb_encode_inject [OF sb_from_disk_wf [OF n] assms(1) f]
      sb_encode_inject [OF sb_from_disk_wf [OF n] sb_from_disk_wf [OF assms(3)] f] by auto
  then show ?thesis using t r n by (auto simp: xfs_sb_to_disk_def)
qed

theorem sb_to_disk_from_disk_witness:
  "\<exists>sb old to' new. sb_wf sb \<and> xfs_sb_from_disk (replicate 512 0) = Some old \<and>
     xfs_sb_to_disk (replicate 512 0) sb 6 = Some to' \<and> xfs_sb_from_disk to' = Some new \<and>
     sb_fields new ! 1 = sb_fields sb ! 1 \<and> sb_fields new ! 0 = sb_fields old ! 0 \<and> sb \<noteq> old"
proof -
  obtain sb where sb: "xfs_sb_from_disk (replicate 208 1) = Some sb"
    by (simp add: xfs_sb_from_disk_def)
  obtain old where old: "xfs_sb_from_disk (replicate 512 0) = Some old"
    by (simp add: xfs_sb_from_disk_def)
  have wf: "sb_wf sb" by (rule sb_from_disk_wf [OF sb])
  have b: "bit (6 :: nat) 1" "\<not> bit (6 :: nat) 0" by (simp_all add: bit_iff_odd)
  have "sb_uuid sb \<noteq> sb_uuid old"
    using sb old by (auto simp: xfs_sb_from_disk_def chunk_def)
  then have ne: "sb \<noteq> old" by auto
  obtain to' new where "xfs_sb_to_disk (replicate 512 0) sb 6 = Some to'"
    "xfs_sb_from_disk to' = Some new"
    "\<forall>f < 46. sb_fields new ! f = (if bit (6 :: nat) f then sb_fields sb ! f else sb_fields old ! f)"
    using sb_to_disk_from_disk [OF wf _ old, of 6] by auto
  then show ?thesis using wf old b ne by (metis one_less_numeral_iff semiring_norm(76) zero_less_numeral)
qed

end
