(* ===== verification/Mount.thy ===== *)
theory Mount
  imports Superblock
begin

text \<open>
  The mount structure and the address arithmetic that hangs on it: file-system blocks to bytes and
  disk addresses (include/xfs_sb.h, include/xfs_ag.h), directory offsets, data pointers and
  directory blocks (include/xfs_dir2_leaf.h). Every macro is the C expression on integers, with
  the conversion to its C type written out (\<open>to_u32\<close>, \<open>to_s64\<close>, ...). The lemmas say when
  the conversions lose nothing and that data pointers and byte offsets determine each other.
\<close>

section \<open>The mount structure\<close>

text \<open>The fields of \<open>struct xfs_mount\<close> this development uses.\<close>

record xfs_mount =
  m_sb :: xfs_sb
  m_maxagi :: nat
  m_blkbit_log :: nat
  m_blkbb_log :: nat
  m_sectbb_log :: nat
  m_agino_log :: nat
  m_litino :: int
  m_blockmask :: nat
  m_blockwsize :: nat
  m_blockwmask :: nat
  m_bsize :: int
  m_agno_log :: nat
  m_attroffset :: int
  m_alloc_mxr :: "int \<times> int"
  m_alloc_mnr :: "int \<times> int"
  m_inobt_mxr :: "int \<times> int"
  m_inobt_mnr :: "int \<times> int"
  m_bmap_dmxr :: "int \<times> int"
  m_bmap_dmnr :: "int \<times> int"
  m_ialloc_inos :: nat
  m_ialloc_blks :: nat
  m_inode_cluster_size :: nat
  m_inoalign_mask :: int
  m_dalign :: nat
  m_swidth :: nat
  m_sinoalign :: nat
  m_maxicount :: nat
  m_dir_node_ents :: nat
  m_attr_node_ents :: nat
  m_dir_magicpct :: nat
  m_dirblksize :: nat
  m_dirblkfsbs :: nat
  m_dirdatablk :: int
  m_dirleafblk :: int
  m_dirfreeblk :: int

definition BBSHIFT :: nat where
  "BBSHIFT = 9"

definition XFS_NBBYLOG :: nat where
  "XFS_NBBYLOG = 3"

definition XFS_WORDLOG :: nat where
  "XFS_WORDLOG = 2"

text \<open>The size of an on-disk inode without its forks, and what is left for them.\<close>

definition xfs_dinode_size :: "nat \<Rightarrow> nat" where
  "xfs_dinode_size version = (if version = 3 then 176 else 100)"

definition XFS_LITINO :: "xfs_mount \<Rightarrow> nat \<Rightarrow> int" where
  "XFS_LITINO mp version = int (sb_inodesize (m_sb mp)) - int (xfs_dinode_size version)"

text \<open>
  The records and the pointers that fit a B-tree block: the quotient is one of unsigned 64-bit numbers, the
  result an \<open>int\<close>. Block headers have 16 bytes (free space, inodes) or 24 (file extents).
\<close>

definition xfs_allocbt_maxrecs :: "int \<Rightarrow> bool \<Rightarrow> int" where
  "xfs_allocbt_maxrecs blocklen leaf = to_s32 (to_u64 (blocklen - 16) div (if leaf then 8 else 12))"

definition xfs_inobt_maxrecs :: "int \<Rightarrow> bool \<Rightarrow> int" where
  "xfs_inobt_maxrecs blocklen leaf = to_s32 (to_u64 (blocklen - 16) div (if leaf then 16 else 8))"

definition xfs_bmbt_maxrecs :: "int \<Rightarrow> bool \<Rightarrow> int" where
  "xfs_bmbt_maxrecs blocklen leaf = to_s32 (to_u64 (blocklen - 24) div 16)"

definition XFS_BMDR_SPACE_CALC :: "int \<Rightarrow> int" where
  "XFS_BMDR_SPACE_CALC nrecs = 4 + nrecs * 16"

text \<open>\<open>fls\<close>: the number of the highest set bit, counted from 1.\<close>

fun fls :: "nat \<Rightarrow> nat" where
  "fls v = (if v = 0 then 0 else Suc (fls (v div 2)))"

declare fls.simps [simp del]

text \<open>
  \<open>xfs_mount_common\<close>; 96 and 4 are the sizes of \<open>xfs_dinode_core_t\<close> and \<open>xfs_agino_t\<close>, and the logarithms
  are stored in bytes. An unexpected inode size leaves \<open>m_attroffset\<close> as it was.
\<close>

definition xfs_mount_common :: "xfs_mount \<Rightarrow> xfs_sb \<Rightarrow> xfs_mount" where
  "xfs_mount_common mp sbp =
    (let bsize = int (sb_blocksize sbp);
       ialloc_inos = max 64 (sb_inopblock sbp);
       half = (\<lambda>(a, b). (to_u32 a div 2, to_u32 b div 2));
       alloc = (to_u32 (xfs_allocbt_maxrecs bsize True), to_u32 (xfs_allocbt_maxrecs bsize False));
       inobt = (to_u32 (xfs_inobt_maxrecs bsize True), to_u32 (xfs_inobt_maxrecs bsize False));
       bmbt = (to_u32 (xfs_bmbt_maxrecs bsize True), to_u32 (xfs_bmbt_maxrecs bsize False)) in
     mp \<lparr> m_maxagi := sb_agcount (m_sb mp),
      m_blkbit_log := (sb_blocklog sbp + XFS_NBBYLOG) mod 256,
      m_blkbb_log := (sb_blocklog sbp + 256 - BBSHIFT) mod 256,
      m_sectbb_log := (sb_sectlog sbp + 256 - BBSHIFT) mod 256,
      m_agno_log := fls ((sb_agcount sbp + 2 ^ 32 - 1) mod 2 ^ 32) mod 256,
      m_agino_log := (sb_inopblog sbp + sb_agblklog sbp) mod 256,
      m_litino := int (sb_inodesize sbp) - (96 + 4),
      m_blockmask := (sb_blocksize sbp + 2 ^ 32 - 1) mod 2 ^ 32,
      m_blockwsize := sb_blocksize sbp div 2 ^ XFS_WORDLOG,
      m_blockwmask := (sb_blocksize sbp div 2 ^ XFS_WORDLOG + 2 ^ 32 - 1) mod 2 ^ 32,
      m_attroffset :=
        (if sb_inodesize sbp = 256 then to_u32 (XFS_LITINO mp (sb_versionnum sbp) - XFS_BMDR_SPACE_CALC 2)
         else if sb_inodesize sbp \<in> {512, 1024, 2048} then XFS_BMDR_SPACE_CALC (6 * 2)
         else m_attroffset mp),
      m_alloc_mxr := alloc, m_alloc_mnr := half alloc,
      m_inobt_mxr := inobt, m_inobt_mnr := half inobt,
      m_bmap_dmxr := bmbt, m_bmap_dmnr := half bmbt,
      m_bsize := 2 ^ ((sb_blocklog sbp + 256 - BBSHIFT) mod 256),
      m_ialloc_inos := ialloc_inos,
      m_ialloc_blks := ialloc_inos div 2 ^ sb_inopblog sbp \<rparr>)"

section \<open>File-system blocks, bytes and disk addresses\<close>

definition XFS_FSB_TO_B :: "xfs_mount \<Rightarrow> int \<Rightarrow> int" where
  "XFS_FSB_TO_B mp fsbno = to_s64 (to_s64 fsbno * 2 ^ sb_blocklog (m_sb mp))"

definition XFS_B_TO_FSBT :: "xfs_mount \<Rightarrow> int \<Rightarrow> int" where
  "XFS_B_TO_FSBT mp b = to_u64 b div 2 ^ sb_blocklog (m_sb mp)"

definition XFS_FSB_TO_BB :: "xfs_mount \<Rightarrow> int \<Rightarrow> int" where
  "XFS_FSB_TO_BB mp fsbno = fsbno * 2 ^ m_blkbb_log mp"

definition XFS_FSB_TO_AGNO :: "xfs_mount \<Rightarrow> int \<Rightarrow> int" where
  "XFS_FSB_TO_AGNO mp fsbno = to_u32 (fsbno div 2 ^ sb_agblklog (m_sb mp))"

definition XFS_FSB_TO_AGBNO :: "xfs_mount \<Rightarrow> int \<Rightarrow> int" where
  "XFS_FSB_TO_AGBNO mp fsbno = to_u32 (fsbno mod 2 ^ sb_agblklog (m_sb mp))"

definition XFS_AGB_TO_DADDR :: "xfs_mount \<Rightarrow> int \<Rightarrow> int \<Rightarrow> int" where
  "XFS_AGB_TO_DADDR mp agno agbno =
     to_s64 (to_u64 (XFS_FSB_TO_BB mp (to_u64 (agno * int (sb_agblocks (m_sb mp)) + agbno))))"

definition XFS_FSB_TO_DADDR :: "xfs_mount \<Rightarrow> int \<Rightarrow> int" where
  "XFS_FSB_TO_DADDR mp fsbno =
     XFS_AGB_TO_DADDR mp (XFS_FSB_TO_AGNO mp fsbno) (XFS_FSB_TO_AGBNO mp fsbno)"

definition XFS_BB_TO_FSBT :: "xfs_mount \<Rightarrow> int \<Rightarrow> int" where
  "XFS_BB_TO_FSBT mp bb = bb div 2 ^ m_blkbb_log mp"

definition XFS_DADDR_TO_AGNO :: "xfs_mount \<Rightarrow> int \<Rightarrow> int" where
  "XFS_DADDR_TO_AGNO mp d = to_u32 (XFS_BB_TO_FSBT mp d div int (sb_agblocks (m_sb mp)))"

definition XFS_DADDR_TO_AGBNO :: "xfs_mount \<Rightarrow> int \<Rightarrow> int" where
  "XFS_DADDR_TO_AGBNO mp d = to_u32 (XFS_BB_TO_FSBT mp d mod int (sb_agblocks (m_sb mp)))"

definition XFS_AGB_TO_FSB :: "xfs_mount \<Rightarrow> int \<Rightarrow> int \<Rightarrow> int" where
  "XFS_AGB_TO_FSB mp agno agbno = to_u64 (agno * 2 ^ sb_agblklog (m_sb mp)) OR agbno"

definition XFS_DADDR_TO_FSB :: "xfs_mount \<Rightarrow> int \<Rightarrow> int" where
  "XFS_DADDR_TO_FSB mp d = XFS_AGB_TO_FSB mp (XFS_DADDR_TO_AGNO mp d) (XFS_DADDR_TO_AGBNO mp d)"

section \<open>Versions\<close>

definition XFS_SB_VERSION_NUM :: "xfs_sb \<Rightarrow> nat" where
  "XFS_SB_VERSION_NUM sb = sb_versionnum sb AND 0x000f"

definition xfs_sb_version_hasalign :: "xfs_sb \<Rightarrow> bool" where
  "xfs_sb_version_hasalign sbp \<longleftrightarrow> XFS_SB_VERSION_NUM sbp = 5 \<or>
     XFS_SB_VERSION_NUM sbp = 4 \<and> sb_versionnum sbp AND 0x0080 \<noteq> 0"

definition xfs_sb_version_hasdalign :: "xfs_sb \<Rightarrow> bool" where
  "xfs_sb_version_hasdalign sbp \<longleftrightarrow>
     (if XFS_SB_VERSION_NUM sbp = 5 then sb_versionnum sbp AND 0x0100 \<noteq> 0
      else XFS_SB_VERSION_NUM sbp = 4 \<and> sb_versionnum sbp AND 0x0100 \<noteq> 0)"

definition xfs_sb_version_hasextflgbit :: "xfs_sb \<Rightarrow> bool" where
  "xfs_sb_version_hasextflgbit sbp \<longleftrightarrow> XFS_SB_VERSION_NUM sbp = 5 \<or>
     XFS_SB_VERSION_NUM sbp = 4 \<and> sb_versionnum sbp AND 0x1000 \<noteq> 0"

section \<open>The geometry of a mount\<close>

text \<open>
  What \<open>libxfs_mount\<close> computes from the superblock between \<open>xfs_mount_common\<close> and the checks of the device
  size: the largest number of inodes and the alignment of inode chunks. Dividing by \<open>m_ialloc_blks = 0\<close> ends
  the program.
\<close>

definition libxfs_mount_geom :: "xfs_mount \<Rightarrow> xfs_sb \<Rightarrow> xfs_mount option" where
  "libxfs_mount_geom mp sb =
    (let mp = xfs_mount_common (mp\<lparr>m_sb := sb\<rparr>) sb;
       blks = m_ialloc_blks mp;
       pct = (sb_dblocks sb * sb_imax_pct sb) mod 2 ^ 64 div 100;
       dalign = (if xfs_sb_version_hasdalign sb then sb_unit sb else m_dalign mp);
       mask = (if xfs_sb_version_hasalign sb \<and> int (sb_inoalignmt sb) \<ge> XFS_B_TO_FSBT mp 8192
         then int (sb_inoalignmt sb) - 1 else 0) in
     if sb_imax_pct sb \<noteq> 0 \<and> blks = 0 then None
     else Some (mp \<lparr> m_maxicount := (if sb_imax_pct sb \<noteq> 0
           then (pct div blks * blks) * 2 ^ sb_inopblog sb mod 2 ^ 64 else 0),
         m_inode_cluster_size := 8192, m_dalign := dalign,
         m_swidth := (if xfs_sb_version_hasdalign sb then sb_width sb else m_swidth mp),
         m_inoalign_mask := to_s32 mask,
         m_sinoalign := (if dalign \<noteq> 0 \<and> mask \<noteq> 0 \<and> int dalign AND mask = 0 then dalign else 0) \<rparr>))"

section \<open>Directory addresses\<close>

definition XFS_DIR2_DATA_ALIGN_LOG :: nat where
  "XFS_DIR2_DATA_ALIGN_LOG = 3"

definition XFS_DIR2_SPACE_SIZE :: int where
  "XFS_DIR2_SPACE_SIZE = 2 ^ (32 + XFS_DIR2_DATA_ALIGN_LOG)"

definition XFS_DIR2_LEAF_OFFSET :: int where
  "XFS_DIR2_LEAF_OFFSET = 1 * XFS_DIR2_SPACE_SIZE"

definition XFS_DIR2_MAX_DATAPTR :: int where
  "XFS_DIR2_MAX_DATAPTR = 0xffffffff"

abbreviation dir_log :: "xfs_mount \<Rightarrow> nat" where
  "dir_log mp \<equiv> sb_blocklog (m_sb mp) + sb_dirblklog (m_sb mp)"

definition xfs_dir2_dataptr_to_byte :: "xfs_mount \<Rightarrow> int \<Rightarrow> int" where
  "xfs_dir2_dataptr_to_byte mp dp = to_u32 dp * 2 ^ XFS_DIR2_DATA_ALIGN_LOG"

definition xfs_dir2_byte_to_dataptr :: "xfs_mount \<Rightarrow> int \<Rightarrow> int" where
  "xfs_dir2_byte_to_dataptr mp by = to_u32 (by div 2 ^ XFS_DIR2_DATA_ALIGN_LOG)"

definition xfs_dir2_byte_to_db :: "xfs_mount \<Rightarrow> int \<Rightarrow> int" where
  "xfs_dir2_byte_to_db mp by = to_u32 (by div 2 ^ dir_log mp)"

definition xfs_dir2_dataptr_to_db :: "xfs_mount \<Rightarrow> int \<Rightarrow> int" where
  "xfs_dir2_dataptr_to_db mp dp = xfs_dir2_byte_to_db mp (xfs_dir2_dataptr_to_byte mp dp)"

definition xfs_dir2_byte_to_off :: "xfs_mount \<Rightarrow> int \<Rightarrow> int" where
  "xfs_dir2_byte_to_off mp by = to_u32 (by mod 2 ^ dir_log mp)"

definition xfs_dir2_dataptr_to_off :: "xfs_mount \<Rightarrow> int \<Rightarrow> int" where
  "xfs_dir2_dataptr_to_off mp dp = xfs_dir2_byte_to_off mp (xfs_dir2_dataptr_to_byte mp dp)"

definition xfs_dir2_db_off_to_byte :: "xfs_mount \<Rightarrow> int \<Rightarrow> int \<Rightarrow> int" where
  "xfs_dir2_db_off_to_byte mp db off = to_s64 (to_u32 db * 2 ^ dir_log mp + to_u32 off)"

definition xfs_dir2_db_to_da :: "xfs_mount \<Rightarrow> int \<Rightarrow> int" where
  "xfs_dir2_db_to_da mp db = to_u32 (to_u32 db * 2 ^ sb_dirblklog (m_sb mp))"

definition xfs_dir2_byte_to_da :: "xfs_mount \<Rightarrow> int \<Rightarrow> int" where
  "xfs_dir2_byte_to_da mp by = xfs_dir2_db_to_da mp (xfs_dir2_byte_to_db mp by)"

definition xfs_dir2_db_off_to_dataptr :: "xfs_mount \<Rightarrow> int \<Rightarrow> int \<Rightarrow> int" where
  "xfs_dir2_db_off_to_dataptr mp db off =
     xfs_dir2_byte_to_dataptr mp (xfs_dir2_db_off_to_byte mp db off)"

definition xfs_dir2_da_to_db :: "xfs_mount \<Rightarrow> int \<Rightarrow> int" where
  "xfs_dir2_da_to_db mp da = to_u32 da div 2 ^ sb_dirblklog (m_sb mp)"

definition xfs_dir2_da_to_byte :: "xfs_mount \<Rightarrow> int \<Rightarrow> int" where
  "xfs_dir2_da_to_byte mp da = xfs_dir2_db_off_to_byte mp (xfs_dir2_da_to_db mp da) 0"

lemmas dir2_addr_defs [geom_simps] =
  xfs_dir2_dataptr_to_byte_def xfs_dir2_byte_to_dataptr_def xfs_dir2_byte_to_db_def
  xfs_dir2_dataptr_to_db_def xfs_dir2_byte_to_off_def xfs_dir2_dataptr_to_off_def
  xfs_dir2_db_off_to_byte_def xfs_dir2_db_to_da_def xfs_dir2_byte_to_da_def
  xfs_dir2_db_off_to_dataptr_def xfs_dir2_da_to_db_def xfs_dir2_da_to_byte_def
  XFS_DIR2_DATA_ALIGN_LOG_def XFS_DIR2_SPACE_SIZE_def XFS_DIR2_LEAF_OFFSET_def

text \<open>
  The directory part of the mount (\<open>xfs_dir_mount\<close>). The data, leaf and free spaces start at
  byte 0, 32 GB and 64 GB; 16 and 8 are the sizes of a node header and a node entry.
\<close>

definition xfs_dir_mount :: "xfs_mount \<Rightarrow> xfs_mount" where
  "xfs_dir_mount mp =
    (let dirblksize = 2 ^ dir_log mp in mp
     \<lparr> m_dirblksize := dirblksize,
       m_dirblkfsbs := 2 ^ sb_dirblklog (m_sb mp),
       m_dirdatablk := xfs_dir2_db_to_da mp (xfs_dir2_byte_to_db mp 0),
       m_dirleafblk := xfs_dir2_db_to_da mp (xfs_dir2_byte_to_db mp XFS_DIR2_LEAF_OFFSET),
       m_dirfreeblk := xfs_dir2_db_to_da mp (xfs_dir2_byte_to_db mp (2 * XFS_DIR2_SPACE_SIZE)),
       m_attr_node_ents := (sb_blocksize (m_sb mp) - 16) div 8,
       m_dir_node_ents := (dirblksize - 16) div 8,
       m_dir_magicpct := (dirblksize * 37) div 100 \<rparr>)"

section \<open>Geometry a mounted file system has\<close>

text \<open>What mkfs and the kernel guarantee of the sizes: blocks of 512 bytes to 64 KB, directory
  blocks of at most 64 KB.\<close>

definition geom_ok :: "xfs_mount \<Rightarrow> bool" where
  "geom_ok mp \<longleftrightarrow>
     9 \<le> sb_blocklog (m_sb mp) \<and> dir_log mp \<le> 16 \<and>
     m_dirblksize mp = 2 ^ dir_log mp \<and> m_dirdatablk mp = 0"

lemma xfs_dir_mount_geom:
  "9 \<le> sb_blocklog (m_sb mp) \<Longrightarrow> dir_log mp \<le> 16 \<Longrightarrow> geom_ok (xfs_dir_mount mp)"
  by (simp add: geom_ok_def xfs_dir_mount_def Let_def geom_simps)

lemma dir_log_bounds:
  assumes "geom_ok mp"
  shows "2 ^ dir_log mp \<le> (65536 :: int)" and "512 \<le> (2 :: int) ^ dir_log mp"
proof -
  have a: "dir_log mp \<le> 16" and b: "9 \<le> dir_log mp" using assms by (auto simp: geom_ok_def)
  have "(2 :: int) ^ dir_log mp \<le> 2 ^ 16" using a by (rule power_increasing) simp
  then show "2 ^ dir_log mp \<le> (65536 :: int)" by simp
  have "(2 :: int) ^ 9 \<le> 2 ^ dir_log mp" using b by (rule power_increasing) simp
  then show "512 \<le> (2 :: int) ^ dir_log mp" by simp
qed

lemma dir_log_div8: "geom_ok mp \<Longrightarrow> (8 :: int) dvd 2 ^ dir_log mp"
  using le_imp_power_dvd [of 3 "dir_log mp" "2 :: int"] by (simp add: geom_ok_def)

text \<open>A position in the first directory block, as a data pointer and back.\<close>

lemma dataptr_of_off:
  assumes "geom_ok mp" and "0 \<le> off" and "off < 2 ^ dir_log mp"
  shows "xfs_dir2_db_off_to_dataptr mp (m_dirdatablk mp) off = off div 8"
proof -
  have "off < 65536" using assms dir_log_bounds(1) [OF assms(1)] by linarith
  then have "0 \<le> off div 8 \<and> off div 8 < 65536" using assms(2) by auto
  then show ?thesis using assms \<open>off < 65536\<close> by (simp add: geom_simps geom_ok_def)
qed

lemma dataptr_roundtrip:
  assumes "geom_ok mp" and "0 \<le> off" and "off < 2 ^ dir_log mp" and "8 dvd off"
  shows "xfs_dir2_dataptr_to_off mp (xfs_dir2_db_off_to_dataptr mp (m_dirdatablk mp) off) = off"
proof -
  have b: "off < 65536" using assms dir_log_bounds(1) [OF assms(1)] by linarith
  have "xfs_dir2_db_off_to_dataptr mp (m_dirdatablk mp) off = off div 8"
    by (rule dataptr_of_off [OF assms(1-3)])
  moreover have "off div 8 < 65536" "0 \<le> off div 8" using b assms(2) by auto
  ultimately show ?thesis using assms b by (simp add: geom_simps)
qed

lemma dataptr_db_zero:
  assumes "geom_ok mp" and "0 \<le> off" and "off < 2 ^ dir_log mp"
  shows "xfs_dir2_dataptr_to_db mp (off div 8) = 0"
proof -
  have b: "off < 65536" using assms dir_log_bounds(1) [OF assms(1)] by linarith
  then have "off div 8 < 65536" "0 \<le> off div 8" using assms(2) by auto
  moreover have "off div 8 * 8 < 2 ^ dir_log mp" using assms(2,3) by linarith
  ultimately show ?thesis using assms(2) by (simp add: geom_simps)
qed

text \<open>The end-of-directory cookie: the first byte after the only data block.\<close>

lemma dataptr_end:
  assumes "geom_ok mp"
  shows "xfs_dir2_db_off_to_dataptr mp (m_dirdatablk mp + 1) 0 = 2 ^ dir_log mp div 8"
    and "xfs_dir2_dataptr_to_db mp (2 ^ dir_log mp div 8) = 1"
proof -
  have b: "2 ^ dir_log mp \<le> (65536 :: int)" "512 \<le> (2 :: int) ^ dir_log mp"
    using dir_log_bounds [OF assms] by auto
  then have c: "2 ^ dir_log mp div 8 < (65536 :: int)" "0 \<le> (2 :: int) ^ dir_log mp div 8" by auto
  show "xfs_dir2_db_off_to_dataptr mp (m_dirdatablk mp + 1) 0 = 2 ^ dir_log mp div 8"
    using assms b c by (simp add: geom_simps geom_ok_def)
  have "2 ^ dir_log mp div 8 * 8 = (2 :: int) ^ dir_log mp"
    using dir_log_div8 [OF assms] by simp
  then show "xfs_dir2_dataptr_to_db mp (2 ^ dir_log mp div 8) = 1"
    using b c by (simp add: geom_simps)
qed

section \<open>A sample file system\<close>

text \<open>A version 4 file system of one allocation group with 4 KB blocks, for concrete evaluations.\<close>

definition sample_sb :: xfs_sb where
  "sample_sb = \<lparr>
     sb_magicnum = 1481003842, sb_blocksize = 4096, sb_dblocks = 1000, sb_rblocks = 0,
     sb_rextents = 0, sb_uuid = replicate 16 0, sb_logstart = 516, sb_rootino = 128,
     sb_rbmino = 129, sb_rsumino = 130, sb_rextsize = 1, sb_agblocks = 1000, sb_agcount = 1,
     sb_rbmblocks = 0, sb_logblocks = 100, sb_versionnum = 4, sb_sectsize = 512,
     sb_inodesize = 256, sb_inopblock = 16, sb_fname = replicate 12 0, sb_blocklog = 12,
     sb_sectlog = 9, sb_inodelog = 8, sb_inopblog = 4, sb_agblklog = 10, sb_rextslog = 0,
     sb_inprogress = 0, sb_imax_pct = 25, sb_icount = 64, sb_ifree = 60, sb_fdblocks = 800,
     sb_frextents = 0, sb_uquotino = 0, sb_gquotino = 0, sb_qflags = 0, sb_flags = 0,
     sb_shared_vn = 0, sb_inoalignmt = 0, sb_unit = 0, sb_width = 0, sb_dirblklog = 0,
     sb_logsectlog = 0, sb_logsectsize = 0, sb_logsunit = 0, sb_features2 = 0,
     sb_bad_features2 = 0 \<rparr>"

definition sample_mount :: "xfs_sb \<Rightarrow> xfs_mount" where
  "sample_mount sb = xfs_dir_mount (xfs_mount_common
     \<lparr> m_sb = sb, m_maxagi = 0, m_blkbit_log = 0, m_blkbb_log = 0, m_sectbb_log = 0,
       m_agino_log = 0, m_litino = 0, m_blockmask = 0, m_blockwsize = 0, m_blockwmask = 0,
       m_bsize = 0, m_agno_log = 0, m_attroffset = 0, m_alloc_mxr = (0, 0), m_alloc_mnr = (0, 0),
       m_inobt_mxr = (0, 0), m_inobt_mnr = (0, 0), m_bmap_dmxr = (0, 0), m_bmap_dmnr = (0, 0),
       m_ialloc_inos = 0, m_ialloc_blks = 0, m_inode_cluster_size = 8192, m_inoalign_mask = 0,
       m_dalign = 0, m_swidth = 0, m_sinoalign = 0, m_maxicount = 0,
       m_dir_node_ents = 0, m_attr_node_ents = 0, m_dir_magicpct = 0,
       m_dirblksize = 0, m_dirblkfsbs = 0, m_dirdatablk = 0, m_dirleafblk = 0,
       m_dirfreeblk = 0 \<rparr> sb)"

definition sample_mp :: xfs_mount where
  "sample_mp = sample_mount sample_sb"

lemma sample_mount_sb [simp]: "m_sb (sample_mount sb) = sb"
  by (simp add: sample_mount_def xfs_dir_mount_def xfs_mount_common_def Let_def)

lemma sample_sb_simps [simp]:
  "sb_blocksize sample_sb = 4096"
  "sb_dblocks sample_sb = 1000"
  "sb_rextents sample_sb = 0"
  "sb_rootino sample_sb = 128"
  "sb_agblocks sample_sb = 1000"
  "sb_agcount sample_sb = 1"
  "sb_versionnum sample_sb = 4"
  "sb_inodesize sample_sb = 256"
  "sb_blocklog sample_sb = 12"
  "sb_sectlog sample_sb = 9"
  "sb_inopblog sample_sb = 4"
  "sb_agblklog sample_sb = 10"
  "sb_dirblklog sample_sb = 0"
  by (simp_all add: sample_sb_def)

lemma sample_mp_simps [simp]:
  "m_sb sample_mp = sample_sb"
  "m_blkbb_log sample_mp = 3"
  "m_dirblksize sample_mp = 4096"
  "m_dirblkfsbs sample_mp = 1"
  "m_dirdatablk sample_mp = 0"
  "m_agino_log sample_mp = 14"
  "m_bsize sample_mp = 8"
  "m_bmap_dmxr sample_mp = (254, 254)"
  "m_inode_cluster_size sample_mp = 8192"
  "m_inoalign_mask sample_mp = 0"
  by (simp_all add: sample_mp_def sample_mount_def xfs_dir_mount_def xfs_mount_common_def Let_def
      BBSHIFT_def geom_simps xfs_bmbt_maxrecs_def)

lemma sample_litino [simp]: "XFS_LITINO sample_mp 2 = 156"
  by (simp add: XFS_LITINO_def xfs_dinode_size_def)

lemma sample_geom: "geom_ok sample_mp"
  by (simp add: geom_ok_def)

end
