(* ===== verification/Inode.thy ===== *)
theory Inode
  imports Mount
begin

text \<open>
  The in-core inode (include/xfs_inode.h, include/libxfs.h) and the errors the operations return.
  The data fork keeps its inline data either in the 32-byte buffer embedded in the fork or in a
  heap buffer; \<open>xfs_idata_realloc\<close> moves it between the two as its size changes. The contents of
  fresh heap memory are an argument (\<open>junk n\<close> is what an allocation of \<open>n\<close> bytes holds), so that
  no result can depend on them unnoticed.
\<close>

section \<open>Error codes\<close>

datatype errno =
    ENOENT | EIO | EEXIST | ENOTDIR | EINVAL | ENOMEM | ENOSPC | ENOSYS | ENOTSUP | ENOATTR
  | EOTHER nat

text \<open>Their numbers (FreeBSD's \<open>errno.h\<close>; \<open>EOTHER\<close> stands for the remaining ones).\<close>

fun errno_code :: "errno \<Rightarrow> int" where
  "errno_code ENOENT = 2"
| "errno_code EIO = 5"
| "errno_code ENOMEM = 12"
| "errno_code EEXIST = 17"
| "errno_code ENOTDIR = 20"
| "errno_code EINVAL = 22"
| "errno_code ENOSPC = 28"
| "errno_code ENOTSUP = 45"
| "errno_code ENOSYS = 78"
| "errno_code ENOATTR = 87"
| "errno_code (EOTHER n) = int n"

definition EFSCORRUPTED :: errno where "EFSCORRUPTED = EOTHER 990"

section \<open>The inode\<close>

text \<open>\<open>di_format\<close> and \<open>di_aformat\<close>; \<open>FMT_OTHER\<close> is a byte that is none of the formats.\<close>

datatype dinode_fmt = FMT_DEV | FMT_LOCAL | FMT_EXTENTS | FMT_BTREE | FMT_UUID | FMT_OTHER nat

text \<open>Where \<open>if_u1.if_data\<close> points: nowhere, at the embedded buffer, or at a heap buffer.\<close>

datatype data_ptr = DNull | DInline | DHeap bytes

text \<open>A packed extent record of two 64-bit words (\<open>xfs_bmbt_rec_host_t\<close>).\<close>

record bmbt_rec =
  l0 :: u64
  l1 :: u64

record timestamp =
  t_sec :: int
  t_nsec :: int

text \<open>A version is compared with 1 and 3 only, so it is kept as the byte.\<close>

record xfs_icdinode =
  di_magic :: nat
  di_mode :: nat
  di_version :: nat
  di_format :: dinode_fmt
  di_onlink :: nat
  di_uid :: nat
  di_gid :: nat
  di_nlink :: nat
  di_projid_lo :: nat
  di_projid_hi :: nat
  di_pad :: bytes
  di_flushiter :: nat
  di_atime :: timestamp
  di_mtime :: timestamp
  di_ctime :: timestamp
  di_size :: int
  di_nblocks :: nat
  di_extsize :: nat
  di_nextents :: int
  di_anextents :: int
  di_forkoff :: nat
  di_aformat :: dinode_fmt
  di_dmevmask :: nat
  di_dmstate :: nat
  di_flags :: nat
  di_gen :: nat

text \<open>
  A fork. The flags \<open>XFS_IFINLINE\<close>, \<open>XFS_IFEXTENTS\<close> and \<open>XFS_IFBROOT\<close> are booleans; the extent list is a
  list, whether it is kept in the fork, in one block of memory or in several.
\<close>

record xfs_ifork =
  if_bytes :: int
  if_real_bytes :: int
  if_broot :: "bytes option"
  if_broot_bytes :: int
  if_extents_read :: bool
  if_inline :: bool
  if_has_broot :: bool
  if_ext_max :: nat
  if_data_ptr :: data_ptr
  if_inline_data :: bytes
  if_extents :: "bmbt_rec list"
  if_rdev :: nat

record xfs_inode =
  i_ino :: nat
  i_blkno :: int
  i_len :: int
  i_boffset :: int
  i_afp :: "xfs_ifork option"
  i_df :: xfs_ifork
  i_d :: xfs_icdinode
  i_size :: int
  ili_fields :: nat

text \<open>
  A routine that brings more of an inode into memory, like \<open>xfs_iread_extents\<close>: error, inode and state of the
  caches; \<open>None\<close> when it does not return.
\<close>

type_synonym 's inode_reader = "xfs_inode \<Rightarrow> 's \<Rightarrow> (int \<times> xfs_inode \<times> 's) option"

text \<open>The bytes \<open>if_u1.if_data\<close> points at: the whole buffer, used or not.\<close>

definition if_data :: "xfs_ifork \<Rightarrow> bytes" where
  "if_data ifp = (case if_data_ptr ifp of
      DNull \<Rightarrow> [] | DInline \<Rightarrow> if_inline_data ifp | DHeap h \<Rightarrow> h)"

text \<open>A store through \<open>if_u1.if_data\<close>.\<close>

definition set_if_data :: "bytes \<Rightarrow> xfs_ifork \<Rightarrow> xfs_ifork" where
  "set_if_data b ifp = (case if_data_ptr ifp of
      DNull \<Rightarrow> ifp
    | DInline \<Rightarrow> ifp\<lparr>if_inline_data := b\<rparr>
    | DHeap h \<Rightarrow> ifp\<lparr>if_data_ptr := DHeap b\<rparr>)"

lemma if_data_set: "if_data_ptr ifp \<noteq> DNull \<Longrightarrow> if_data (set_if_data b ifp) = b"
  by (cases "if_data_ptr ifp") (auto simp: if_data_def set_if_data_def)

lemma set_if_data_frame [simp]:
  "if_bytes (set_if_data b ifp) = if_bytes ifp"
  "if_real_bytes (set_if_data b ifp) = if_real_bytes ifp"
  by (auto simp: set_if_data_def split: data_ptr.splits)

section \<open>Mode tests\<close>

definition S_IFMT :: nat where "S_IFMT = 0xF000"
definition S_IFDIR :: nat where "S_IFDIR = 0x4000"
definition S_IFREG :: nat where "S_IFREG = 0x8000"
definition S_IFLNK :: nat where "S_IFLNK = 0xA000"

definition S_ISDIR :: "nat \<Rightarrow> bool" where
  "S_ISDIR m \<longleftrightarrow> m AND S_IFMT = S_IFDIR"

definition S_ISREG :: "nat \<Rightarrow> bool" where
  "S_ISREG m \<longleftrightarrow> m AND S_IFMT = S_IFREG"

definition S_ISLNK :: "nat \<Rightarrow> bool" where
  "S_ISLNK m \<longleftrightarrow> m AND S_IFMT = S_IFLNK"

section \<open>Logging the inode\<close>

definition XFS_ILOG_CORE :: nat where "XFS_ILOG_CORE = 1"
definition XFS_ILOG_DDATA :: nat where "XFS_ILOG_DDATA = 2"

definition xfs_trans_log_inode :: "xfs_inode \<Rightarrow> nat \<Rightarrow> xfs_inode" where
  "xfs_trans_log_inode ip flg = ip\<lparr>ili_fields := ili_fields ip OR flg\<rparr>"

section \<open>The data area of the fork\<close>

text \<open>\<open>XFS_IFORK_DSIZE\<close>: up to the attribute fork when there is one.\<close>

definition XFS_IFORK_DSIZE :: "xfs_mount \<Rightarrow> xfs_inode \<Rightarrow> int" where
  "XFS_IFORK_DSIZE mp ip =
     (if di_forkoff (i_d ip) \<noteq> 0 then int (di_forkoff (i_d ip)) * 8
      else XFS_LITINO mp (di_version (i_d ip)))"

text \<open>\<open>kmem_realloc\<close>: the old contents as far as they fit, then fresh memory.\<close>

definition kmem_realloc :: "(nat \<Rightarrow> bytes) \<Rightarrow> bytes \<Rightarrow> nat \<Rightarrow> bytes" where
  "kmem_realloc junk old n = take n (old @ drop (length old) (junk n))"

text \<open>
  \<open>xfs_idata_realloc\<close>. A negative new size is an error of the caller that the code only asserts
  against (assertions are compiled out); \<open>None\<close> stands for what follows then.
\<close>

definition xfs_idata_realloc :: "(nat \<Rightarrow> bytes) \<Rightarrow> xfs_ifork \<Rightarrow> int \<Rightarrow> xfs_ifork option" where
  "xfs_idata_realloc junk ifp byte_diff =
    (if byte_diff = 0 then Some ifp
     else let new_size = if_bytes ifp + byte_diff in
       if new_size < 0 then None
       else if new_size = 0 then
         Some (ifp\<lparr>if_data_ptr := DNull, if_real_bytes := 0, if_bytes := new_size\<rparr>)
       else if new_size \<le> 32 then
         (case if_data_ptr ifp of
            DNull \<Rightarrow> Some (ifp\<lparr>if_data_ptr := DInline, if_real_bytes := 0, if_bytes := new_size\<rparr>)
          | DInline \<Rightarrow> Some (ifp\<lparr>if_real_bytes := 0, if_bytes := new_size\<rparr>)
          | DHeap h \<Rightarrow> do {
              src \<leftarrow> rd_bytes 0 (nat new_size) h;
              inl \<leftarrow> wr_bytes 0 src (if_inline_data ifp);
              Some (ifp\<lparr>if_inline_data := inl, if_data_ptr := DInline, if_real_bytes := 0,
                        if_bytes := new_size\<rparr>) })
       else let real_size = ((new_size + 3) div 4) * 4 in
         (case if_data_ptr ifp of
            DNull \<Rightarrow> Some (ifp\<lparr>if_data_ptr := DHeap (junk (nat real_size)),
                               if_real_bytes := real_size, if_bytes := new_size\<rparr>)
          | DHeap h \<Rightarrow>
              Some (ifp\<lparr>if_data_ptr := (if if_real_bytes ifp \<noteq> real_size
                            then DHeap (kmem_realloc junk h (nat real_size)) else DHeap h),
                        if_real_bytes := real_size, if_bytes := new_size\<rparr>)
          | DInline \<Rightarrow> do {
              src \<leftarrow> rd_bytes 0 (nat (if_bytes ifp)) (if_inline_data ifp);
              h \<leftarrow> wr_bytes 0 src (junk (nat real_size));
              Some (ifp\<lparr>if_data_ptr := DHeap h, if_real_bytes := real_size,
                        if_bytes := new_size\<rparr>) }))"

text \<open>
  A fork in a consistent state: the used part fits the buffer it points at, the embedded buffer
  has its 32 bytes, and a heap buffer is as long as \<open>if_real_bytes\<close> records.
\<close>

definition ifork_ok :: "xfs_ifork \<Rightarrow> bool" where
  "ifork_ok ifp \<longleftrightarrow>
     0 \<le> if_bytes ifp \<and> length (if_inline_data ifp) = 32 \<and>
     nat (if_bytes ifp) \<le> length (if_data ifp) \<and>
     (\<forall>h. if_data_ptr ifp = DHeap h \<longrightarrow>
        if_real_bytes ifp = int (length h) \<and> 32 < length h) \<and>
     (if_bytes ifp = 0 \<longrightarrow> if_data_ptr ifp = DNull) \<and>
     (if_data_ptr ifp = DInline \<longrightarrow> if_bytes ifp \<le> 32)"

definition junk_ok :: "(nat \<Rightarrow> bytes) \<Rightarrow> bool" where
  "junk_ok junk \<longleftrightarrow> (\<forall>n. length (junk n) = n)"

lemma junk_ok_length [simp]: "junk_ok junk \<Longrightarrow> length (junk n) = n"
  by (simp add: junk_ok_def)

lemma kmem_realloc_length [simp]: "junk_ok junk \<Longrightarrow> length (kmem_realloc junk old n) = n"
  by (simp add: kmem_realloc_def)

lemma kmem_realloc_prefix:
  "m \<le> n \<Longrightarrow> m \<le> length old \<Longrightarrow> take m (kmem_realloc junk old n) = take m old"
  by (simp add: kmem_realloc_def min_def)

text \<open>Emptying the area and allocating it afresh, as the format conversions do.\<close>

lemma xfs_idata_realloc_empty:
  assumes "ifork_ok ifp"
  shows "\<exists>e. xfs_idata_realloc junk ifp (- if_bytes ifp) = Some e \<and> if_data_ptr e = DNull \<and>
    if_bytes e = 0 \<and> if_inline_data e = if_inline_data ifp"
  using assms by (auto simp: xfs_idata_realloc_def ifork_ok_def Let_def)

lemma xfs_idata_realloc_fresh:
  assumes "if_data_ptr e = DNull" "if_bytes e = 0" "0 < n" "length (if_inline_data e) = 32"
    "junk_ok junk"
  shows "\<exists>f. xfs_idata_realloc junk e n = Some f \<and> if_bytes f = n \<and> if_data_ptr f \<noteq> DNull \<and>
    ifork_ok f \<and> nat n \<le> length (if_data f)"
proof (cases "n \<le> 32")
  case True
  then show ?thesis
    using assms by (auto simp: xfs_idata_realloc_def Let_def ifork_ok_def if_data_def)
next
  case False
  have r: "n \<le> ((n + 3) div 4) * 4" by presburger
  then show ?thesis
    using assms False
    by (auto simp: xfs_idata_realloc_def Let_def ifork_ok_def if_data_def)
qed

text \<open>A size change keeps the bytes both sizes have in common, and consistency.\<close>

lemma xfs_idata_realloc_ok:
  assumes ok: "ifork_ok ifp" and j: "junk_ok junk" and n: "0 < if_bytes ifp + d"
    and nn: "if_data_ptr ifp \<noteq> DNull"
  shows "\<exists>f. xfs_idata_realloc junk ifp d = Some f \<and> if_bytes f = if_bytes ifp + d \<and> ifork_ok f \<and>
     if_data_ptr f \<noteq> DNull \<and>
     take (nat (min (if_bytes ifp) (if_bytes ifp + d))) (if_data f) =
     take (nat (min (if_bytes ifp) (if_bytes ifp + d))) (if_data ifp)"
proof (cases "d = 0")
  case True
  then show ?thesis using assms by (simp add: xfs_idata_realloc_def)
next
  case d: False
  let ?n = "if_bytes ifp + d" and ?r = "((if_bytes ifp + d + 3) div 4) * 4"
  have r: "?n \<le> ?r" by presburger
  show ?thesis
  proof (cases "if_data_ptr ifp")
    case DNull
    then show ?thesis using nn by simp
  next
    case DInline
    show ?thesis
    proof (cases "?n \<le> 32")
      case True
      then show ?thesis using DInline ok n d
        by (auto simp: xfs_idata_realloc_def Let_def ifork_ok_def if_data_def)
    next
      case False
      have b: "nat (if_bytes ifp) \<le> 32" using ok DInline by (auto simp: ifork_ok_def)
      have l: "length (if_inline_data ifp) = 32" using ok by (simp add: ifork_ok_def)
      have le: "nat (if_bytes ifp) \<le> nat ?r" using False b r by simp
      show ?thesis using DInline ok n d False b l le r j
        by (auto simp: xfs_idata_realloc_def Let_def ifork_ok_def if_data_def rd_bytes_def
            wr_bytes_def chunk_def min_def)
    qed
  next
    case (DHeap h)
    have hl: "nat (if_bytes ifp) \<le> length h" and hr: "if_real_bytes ifp = int (length h)"
      and l: "length (if_inline_data ifp) = 32" and z: "0 \<le> if_bytes ifp" and g: "32 < length h"
      using ok DHeap by (auto simp: ifork_ok_def if_data_def)
    show ?thesis
    proof (cases "?n \<le> 32")
      case True
      have "nat ?n \<le> length h" using True g by simp
      then show ?thesis using DHeap n d True hl hr l z
        by (auto simp: xfs_idata_realloc_def Let_def ifork_ok_def if_data_def rd_bytes_def
            wr_bytes_def chunk_def min_def take_all_iff)
    next
      case False
      have p: "take (nat (min (if_bytes ifp) ?n)) (kmem_realloc junk h (nat ?r)) =
          take (nat (min (if_bytes ifp) ?n)) h"
        using r hl by (intro kmem_realloc_prefix) auto
      show ?thesis using DHeap n d False hl hr l z g r j p
        by (auto simp: xfs_idata_realloc_def Let_def ifork_ok_def if_data_def)
    qed
  qed
qed

section \<open>A sample inode\<close>

text \<open>An inode of the given mode, format and inline data, for concrete evaluations.\<close>

definition sample_inode :: "nat \<Rightarrow> dinode_fmt \<Rightarrow> bytes \<Rightarrow> xfs_inode" where
  "sample_inode mode fmt d =
    (let t0 = \<lparr> t_sec = 0, t_nsec = 0 \<rparr> in
     \<lparr> i_ino = 128, i_blkno = 0, i_len = 0, i_boffset = 0, i_afp = None,
       i_df = \<lparr> if_bytes = int (length d),
         if_real_bytes = (if length d > 32 then int (length d) else 0), if_broot = None,
         if_broot_bytes = 0, if_extents_read = False, if_inline = True, if_has_broot = False,
         if_ext_max = 9,
         if_data_ptr = (if d = [] then DNull else if length d > 32 then DHeap d else DInline),
         if_inline_data = take 32 (d @ replicate 32 0), if_extents = [], if_rdev = 0 \<rparr>,
       i_d = \<lparr> di_magic = 0x494e, di_mode = mode, di_version = 2, di_format = fmt, di_onlink = 0,
         di_uid = 0, di_gid = 0, di_nlink = 1, di_projid_lo = 0, di_projid_hi = 0,
         di_pad = replicate 6 0, di_flushiter = 0,
         di_atime = t0, di_mtime = t0, di_ctime = t0, di_size = int (length d), di_nblocks = 0,
         di_extsize = 0, di_nextents = 0, di_anextents = 0, di_forkoff = 0, di_aformat = FMT_EXTENTS,
         di_dmevmask = 0, di_dmstate = 0, di_flags = 0, di_gen = 0 \<rparr>,
       i_size = int (length d), ili_fields = 0 \<rparr>)"

lemma sample_inode_simps [simp]:
  "i_ino (sample_inode mode fmt d) = 128"
  "di_mode (i_d (sample_inode mode fmt d)) = mode"
  "di_format (i_d (sample_inode mode fmt d)) = fmt"
  "di_size (i_d (sample_inode mode fmt d)) = int (length d)"
  "di_nextents (i_d (sample_inode mode fmt d)) = 0"
  "di_forkoff (i_d (sample_inode mode fmt d)) = 0"
  "di_version (i_d (sample_inode mode fmt d)) = 2"
  "if_bytes (i_df (sample_inode mode fmt d)) = int (length d)"
  by (simp_all add: sample_inode_def Let_def)

lemma sample_inode_fork: "ifork_ok (i_df (sample_inode mode fmt d))"
  by (auto simp: sample_inode_def Let_def ifork_ok_def if_data_def)

lemma sample_inode_data: "\<exists>rest. if_data (i_df (sample_inode mode fmt d)) = d @ rest"
  by (auto simp: sample_inode_def Let_def if_data_def)

end
