(* ===== verification/Dir2_Sf.thy ===== *)
theory Dir2_Sf
  imports Inode
begin

text \<open>
  Short-form directories (libxfs/xfs_dir2_sf.c, include/xfs_dir2_sf.h): directories small enough to
  be packed into the inode. Pointers into the packed data are byte offsets, every access is checked
  against the buffer (\<open>None\<close> is an access outside it). The abstract directory \<open>sf_dir\<close> and its
  encoding \<open>sf_encode\<close> say what the bytes stand for; the lemmas show that the accessors read the
  encoding entry by entry, and that lookup and the two inode-number conversions compute what they
  should on it.
\<close>

section \<open>Arguments and names\<close>

datatype xfs_dacmp = XFS_CMP_DIFFERENT | XFS_CMP_EXACT | XFS_CMP_CASE

record da_args =
  a_name :: bytes
  a_inumber :: nat
  a_cmpresult :: xfs_dacmp
  a_cilookup :: bool
  a_justcheck :: bool
  a_total :: nat
  a_value :: "bytes option"

text \<open>\<open>tolower\<close> in the C locale.\<close>

definition c_tolower :: "u8 \<Rightarrow> u8" where
  "c_tolower c = (if 65 \<le> unat c \<and> unat c \<le> 90 then c + 32 else c)"

definition xfs_da_compname :: "da_args \<Rightarrow> bytes \<Rightarrow> xfs_dacmp" where
  "xfs_da_compname args name =
     (if length (a_name args) = length name \<and> a_name args = name
      then XFS_CMP_EXACT else XFS_CMP_DIFFERENT)"

text \<open>The loop of \<open>xfs_ascii_ci_compname\<close> over both names.\<close>

fun ascii_ci_loop :: "bytes \<Rightarrow> bytes \<Rightarrow> xfs_dacmp \<Rightarrow> xfs_dacmp" where
  "ascii_ci_loop (a # as) (b # bs) result =
     (if a = b then ascii_ci_loop as bs result
      else if c_tolower a \<noteq> c_tolower b then XFS_CMP_DIFFERENT
      else ascii_ci_loop as bs XFS_CMP_CASE)"
| "ascii_ci_loop _ _ result = result"

definition xfs_ascii_ci_compname :: "da_args \<Rightarrow> bytes \<Rightarrow> xfs_dacmp" where
  "xfs_ascii_ci_compname args name =
     (if length (a_name args) \<noteq> length name then XFS_CMP_DIFFERENT
      else ascii_ci_loop (a_name args) name XFS_CMP_EXACT)"

text \<open>The name comparison \<open>xfs_dir_mount\<close> chooses; \<open>0x4000\<close> is the feature bit of
  case-insensitive names (\<open>XFS_SB_VERSION_BORGBIT\<close>).\<close>

definition xfs_sb_version_hasasciici :: "xfs_sb \<Rightarrow> bool" where
  "xfs_sb_version_hasasciici sbp \<longleftrightarrow>
     (if XFS_SB_VERSION_NUM sbp = 5 then sb_versionnum sbp AND 0x4000 \<noteq> 0
      else XFS_SB_VERSION_NUM sbp = 4 \<and> sb_versionnum sbp AND 0x4000 \<noteq> 0)"

definition compname :: "xfs_mount \<Rightarrow> da_args \<Rightarrow> bytes \<Rightarrow> xfs_dacmp" where
  "compname mp = (if xfs_sb_version_hasasciici (m_sb mp) then xfs_ascii_ci_compname
                  else xfs_da_compname)"

section \<open>Accessors of the packed form\<close>

definition XFS_DIR2_MAX_SHORT_INUM :: nat where
  "XFS_DIR2_MAX_SHORT_INUM = 0xffffffff"

definition xfs_dir2_sf_hdr_size :: "nat \<Rightarrow> nat" where
  "xfs_dir2_sf_hdr_size i8count = 10 - (if i8count = 0 then 1 else 0) * (8 - 4)"

definition sf_count :: "bytes \<Rightarrow> nat option" where
  "sf_count d = rd8 0 d"

definition sf_i8count :: "bytes \<Rightarrow> nat option" where
  "sf_i8count d = rd8 1 d"

text \<open>\<open>XFS_GET_DIR_INO8\<close> ignores the first of the eight bytes, \<open>XFS_PUT_DIR_INO8\<close> clears it.\<close>

definition XFS_GET_DIR_INO4 :: "nat \<Rightarrow> bytes \<Rightarrow> nat option" where
  "XFS_GET_DIR_INO4 off d = rd_be32 off d"

definition XFS_GET_DIR_INO8 :: "nat \<Rightarrow> bytes \<Rightarrow> nat option" where
  "XFS_GET_DIR_INO8 off d = map_option (\<lambda>v. v mod 256 ^ 7) (rd_be64 off d)"

definition XFS_PUT_DIR_INO4 :: "nat \<Rightarrow> nat \<Rightarrow> bytes \<Rightarrow> bytes option" where
  "XFS_PUT_DIR_INO4 ino off d = wr_be 4 ino off d"

definition XFS_PUT_DIR_INO8 :: "nat \<Rightarrow> nat \<Rightarrow> bytes \<Rightarrow> bytes option" where
  "XFS_PUT_DIR_INO8 ino off d = wr_be 8 (ino mod 256 ^ 7) off d"

definition xfs_dir2_sf_get_inumber :: "bytes \<Rightarrow> nat \<Rightarrow> nat option" where
  "xfs_dir2_sf_get_inumber d from = do {
     i8 \<leftarrow> sf_i8count d;
     if i8 = 0 then XFS_GET_DIR_INO4 from d else XFS_GET_DIR_INO8 from d }"

definition xfs_dir2_sf_put_inumber :: "bytes \<Rightarrow> nat \<Rightarrow> nat \<Rightarrow> bytes option" where
  "xfs_dir2_sf_put_inumber d ino off = do {
     i8 \<leftarrow> sf_i8count d;
     if i8 = 0 then XFS_PUT_DIR_INO4 ino off d else XFS_PUT_DIR_INO8 ino off d }"

definition sf_namelen :: "bytes \<Rightarrow> nat \<Rightarrow> nat option" where
  "sf_namelen d sfep = rd8 sfep d"

definition xfs_dir2_sf_get_offset :: "bytes \<Rightarrow> nat \<Rightarrow> nat option" where
  "xfs_dir2_sf_get_offset d sfep = rd_be16 (sfep + 1) d"

definition xfs_dir2_sf_put_offset :: "bytes \<Rightarrow> nat \<Rightarrow> nat \<Rightarrow> bytes option" where
  "xfs_dir2_sf_put_offset d sfep off = wr_be 2 off (sfep + 1) d"

definition sf_name :: "bytes \<Rightarrow> nat \<Rightarrow> bytes option" where
  "sf_name d sfep = do { n \<leftarrow> sf_namelen d sfep; rd_bytes (sfep + 3) n d }"

definition xfs_dir2_sf_inumberp :: "bytes \<Rightarrow> nat \<Rightarrow> nat option" where
  "xfs_dir2_sf_inumberp d sfep = map_option (\<lambda>n. sfep + 3 + n) (sf_namelen d sfep)"

definition xfs_dir3_sf_inumberp :: "bytes \<Rightarrow> nat \<Rightarrow> nat option" where
  "xfs_dir3_sf_inumberp d sfep = map_option (\<lambda>n. sfep + 3 + (n + 1)) (sf_namelen d sfep)"

text \<open>
  The size of an entry, computed two ways. \<open>xfs_dir2_sf_entsize_byname\<close> subtracts one byte and, for
  short inode numbers, four more from the size of the entry structure in unsigned arithmetic;
  since the structure ends at its flexible \<open>name\<close> member, that size is 3.
\<close>

definition xfs_dir2_sf_entsize_byname :: "nat \<Rightarrow> nat \<Rightarrow> int" where
  "xfs_dir2_sf_entsize_byname i8count len =
     to_s32 (to_u32 (3 - 1 + int len - (if i8count = 0 then 1 else 0) * (8 - 4)))"

definition xfs_dir2_sf_entsize :: "nat \<Rightarrow> nat \<Rightarrow> nat" where
  "xfs_dir2_sf_entsize i8count len = 3 + len + (if i8count \<noteq> 0 then 8 else 4)"

definition xfs_dir3_sf_entsize :: "nat \<Rightarrow> nat \<Rightarrow> nat" where
  "xfs_dir3_sf_entsize i8count len = xfs_dir2_sf_entsize i8count len + 1"

definition xfs_dir2_sf_firstentry :: "bytes \<Rightarrow> nat option" where
  "xfs_dir2_sf_firstentry d = map_option xfs_dir2_sf_hdr_size (sf_i8count d)"

definition xfs_dir2_sf_nextentry :: "bytes \<Rightarrow> nat \<Rightarrow> nat option" where
  "xfs_dir2_sf_nextentry d sfep = do {
     i8 \<leftarrow> sf_i8count d; n \<leftarrow> sf_namelen d sfep; Some (sfep + xfs_dir2_sf_entsize i8 n) }"

definition xfs_dir3_sf_nextentry :: "bytes \<Rightarrow> nat \<Rightarrow> nat option" where
  "xfs_dir3_sf_nextentry d sfep = do {
     i8 \<leftarrow> sf_i8count d; n \<leftarrow> sf_namelen d sfep; Some (sfep + xfs_dir3_sf_entsize i8 n) }"

text \<open>The choice between the two layouts that the callers repeat: version 5 file systems store a
  file-type byte between the name and the inode number.\<close>

definition sf_v5 :: "xfs_mount \<Rightarrow> bool" where
  "sf_v5 mp \<longleftrightarrow> XFS_SB_VERSION_NUM (m_sb mp) = 5"

definition sf_inumberp :: "xfs_mount \<Rightarrow> bytes \<Rightarrow> nat \<Rightarrow> nat option" where
  "sf_inumberp mp d sfep =
     (if sf_v5 mp then xfs_dir3_sf_inumberp d sfep else xfs_dir2_sf_inumberp d sfep)"

definition sf_nextentry :: "xfs_mount \<Rightarrow> bytes \<Rightarrow> nat \<Rightarrow> nat option" where
  "sf_nextentry mp d sfep =
     (if sf_v5 mp then xfs_dir3_sf_nextentry d sfep else xfs_dir2_sf_nextentry d sfep)"

section \<open>The abstract directory and its encoding\<close>

record sf_entry =
  se_name :: bytes
  se_offset :: nat
  se_ftype :: u8
  se_ino :: nat

record sf_dir =
  sd_i8 :: nat
  sd_parent :: nat
  sd_entries :: "sf_entry list"

definition sf_enc_ino :: "nat \<Rightarrow> nat \<Rightarrow> bytes" where
  "sf_enc_ino i8 ino = (if i8 = 0 then be_bytes 4 ino else be_bytes 8 ino)"

definition sf_enc_entry :: "bool \<Rightarrow> nat \<Rightarrow> sf_entry \<Rightarrow> bytes" where
  "sf_enc_entry v5 i8 e =
     be_bytes 1 (length (se_name e)) @ be_bytes 2 (se_offset e) @ se_name e @
     (if v5 then [se_ftype e] else []) @ sf_enc_ino i8 (se_ino e)"

definition sf_enc_entries :: "bool \<Rightarrow> nat \<Rightarrow> sf_entry list \<Rightarrow> bytes" where
  "sf_enc_entries v5 i8 es = concat (map (sf_enc_entry v5 i8) es)"

definition sf_encode :: "bool \<Rightarrow> sf_dir \<Rightarrow> bytes" where
  "sf_encode v5 sd =
     be_bytes 1 (length (sd_entries sd)) @ be_bytes 1 (sd_i8 sd) @
     sf_enc_ino (sd_i8 sd) (sd_parent sd) @ sf_enc_entries v5 (sd_i8 sd) (sd_entries sd)"

definition ino_fits :: "nat \<Rightarrow> nat \<Rightarrow> bool" where
  "ino_fits i8 ino \<longleftrightarrow> ino < (if i8 = 0 then 256 ^ 4 else 256 ^ 7)"

definition sf_entry_ok :: "nat \<Rightarrow> sf_entry \<Rightarrow> bool" where
  "sf_entry_ok i8 e \<longleftrightarrow>
     length (se_name e) < 256 \<and> se_offset e < 65536 \<and> ino_fits i8 (se_ino e)"

definition sf_dir_ok :: "sf_dir \<Rightarrow> bool" where
  "sf_dir_ok sd \<longleftrightarrow>
     length (sd_entries sd) < 256 \<and> sd_i8 sd < 256 \<and> ino_fits (sd_i8 sd) (sd_parent sd) \<and>
     list_all (sf_entry_ok (sd_i8 sd)) (sd_entries sd)"

text \<open>The data fork of an inode holds the encoding, possibly followed by unused buffer.\<close>

definition sf_holds :: "xfs_mount \<Rightarrow> xfs_inode \<Rightarrow> sf_dir \<Rightarrow> bool" where
  "sf_holds mp dp sd \<longleftrightarrow> sf_dir_ok sd \<and> ifork_ok (i_df dp) \<and>
     (\<exists>rest. if_data (i_df dp) = sf_encode (sf_v5 mp) sd @ rest) \<and>
     if_bytes (i_df dp) = int (length (sf_encode (sf_v5 mp) sd)) \<and>
     di_size (i_d dp) = if_bytes (i_df dp)"

lemma length_sf_enc_ino [simp]: "length (sf_enc_ino i8 ino) = (if i8 = 0 then 4 else 8)"
  by (simp add: sf_enc_ino_def)

lemma length_sf_enc_entry [simp]:
  "length (sf_enc_entry v5 i8 e) =
     (if v5 then xfs_dir3_sf_entsize i8 (length (se_name e))
      else xfs_dir2_sf_entsize i8 (length (se_name e)))"
  by (simp add: sf_enc_entry_def xfs_dir3_sf_entsize_def xfs_dir2_sf_entsize_def)

lemma sf_enc_entries_simps [simp]:
  "sf_enc_entries v5 i8 [] = []"
  "sf_enc_entries v5 i8 (e # es) = sf_enc_entry v5 i8 e @ sf_enc_entries v5 i8 es"
  "sf_enc_entries v5 i8 (es @ fs) = sf_enc_entries v5 i8 es @ sf_enc_entries v5 i8 fs"
  by (simp_all add: sf_enc_entries_def)

text \<open>The fixed part of the header of a buffer.\<close>

definition sf_hdr :: "nat \<Rightarrow> nat \<Rightarrow> bytes \<Rightarrow> bool" where
  "sf_hdr n i8 d \<longleftrightarrow> sf_count d = Some n \<and> sf_i8count d = Some i8"

lemma sf_hdr_append:
  "n < 256 \<Longrightarrow> i8 < 256 \<Longrightarrow> sf_hdr n i8 (be_bytes 1 n @ be_bytes 1 i8 @ rest)"
  using rd_be_append [of "[]" 0 1 n "be_bytes 1 i8 @ rest"]
    rd_be_append [of "be_bytes 1 n" 1 1 i8 rest]
  by (simp add: sf_hdr_def sf_count_def sf_i8count_def)

text \<open>An inode number where the encoding puts it.\<close>

lemma sf_get_inumber_at:
  assumes "sf_i8count d = Some i8" and "d = pre @ sf_enc_ino i8 ino @ post" and "ino_fits i8 ino"
    and "off = length pre"
  shows "xfs_dir2_sf_get_inumber d off = Some ino"
proof -
  have b: "ino < 256 ^ 7 \<Longrightarrow> ino < 256 ^ 8" by simp
  show ?thesis
    using assms rd_be_append [of pre "length pre" 4 ino post] rd_be_append [of pre "length pre" 8 ino post] b
    by (auto simp: xfs_dir2_sf_get_inumber_def sf_enc_ino_def XFS_GET_DIR_INO4_def
        XFS_GET_DIR_INO8_def ino_fits_def split: if_splits)
qed

text \<open>An entry where the encoding puts it: every accessor reads its field.\<close>

definition sf_entry_at ::
    "xfs_mount \<Rightarrow> bytes \<Rightarrow> bytes \<Rightarrow> nat \<Rightarrow> sf_entry \<Rightarrow> bytes \<Rightarrow> bool" where
  "sf_entry_at mp d pre i8 e post \<longleftrightarrow>
     sf_i8count d = Some i8 \<and> d = pre @ sf_enc_entry (sf_v5 mp) i8 e @ post \<and> sf_entry_ok i8 e"

lemma sf_entry_atD:
  assumes "sf_entry_at mp d pre i8 e post"
  shows "sf_i8count d = Some i8" and "sf_entry_ok i8 e"
    and "length (se_name e) < 256" and "se_offset e < 65536" and "ino_fits i8 (se_ino e)"
  using assms unfolding sf_entry_at_def sf_entry_ok_def by blast+

lemma sf_entry_at_bytes:
  assumes "sf_entry_at mp d pre i8 e post"
  shows "d = pre @ be_bytes 1 (length (se_name e)) @ be_bytes 2 (se_offset e) @ se_name e @
      (if sf_v5 mp then [se_ftype e] else []) @ sf_enc_ino i8 (se_ino e) @ post"
proof -
  have "d = pre @ sf_enc_entry (sf_v5 mp) i8 e @ post"
    using assms unfolding sf_entry_at_def by blast
  then show ?thesis unfolding sf_enc_entry_def append_assoc .
qed

lemma sf_at_namelen:
  assumes at: "sf_entry_at mp d pre i8 e post"
  shows "sf_namelen d (length pre) = Some (length (se_name e))"
  unfolding sf_namelen_def
  by (rule rd_be_at [OF sf_entry_at_bytes [OF at] refl]) (simp add: sf_entry_atD [OF at])

lemma sf_at_name:
  assumes at: "sf_entry_at mp d pre i8 e post"
  shows "sf_name d (length pre) = Some (se_name e)"
proof -
  have "d = (pre @ be_bytes 1 (length (se_name e)) @ be_bytes 2 (se_offset e)) @ se_name e @
      ((if sf_v5 mp then [se_ftype e] else []) @ sf_enc_ino i8 (se_ino e) @ post)"
    unfolding append_assoc by (rule sf_entry_at_bytes [OF at])
  then have "rd_bytes (length pre + 3) (length (se_name e)) d = Some (se_name e)"
    by (rule rd_bytes_at) simp_all
  then show ?thesis by (simp add: sf_name_def sf_at_namelen [OF at])
qed

lemma sf_at_offset:
  assumes at: "sf_entry_at mp d pre i8 e post"
  shows "xfs_dir2_sf_get_offset d (length pre) = Some (se_offset e)"
proof -
  have "d = (pre @ be_bytes 1 (length (se_name e))) @ be_bytes 2 (se_offset e) @
      (se_name e @ (if sf_v5 mp then [se_ftype e] else []) @ sf_enc_ino i8 (se_ino e) @ post)"
    unfolding append_assoc by (rule sf_entry_at_bytes [OF at])
  then have "rd_be16 (length pre + 1) d = Some (se_offset e)"
    by (rule rd_be_at) (simp_all add: sf_entry_atD [OF at])
  then show ?thesis by (simp add: xfs_dir2_sf_get_offset_def)
qed

text \<open>The offset of the inode number of the entry after \<open>pre\<close>.\<close>

definition sf_ino_pos :: "xfs_mount \<Rightarrow> bytes \<Rightarrow> sf_entry \<Rightarrow> nat" where
  "sf_ino_pos mp pre e = length pre + 3 + length (se_name e) + of_bool (sf_v5 mp)"

lemma sf_at_inumberp:
  "sf_entry_at mp d pre i8 e post \<Longrightarrow> sf_inumberp mp d (length pre) = Some (sf_ino_pos mp pre e)"
  by (simp add: sf_inumberp_def xfs_dir3_sf_inumberp_def xfs_dir2_sf_inumberp_def sf_at_namelen
      sf_ino_pos_def)

lemma sf_at_inumber:
  assumes at: "sf_entry_at mp d pre i8 e post"
  shows "xfs_dir2_sf_get_inumber d (sf_ino_pos mp pre e) = Some (se_ino e)"
proof -
  have "d = (pre @ be_bytes 1 (length (se_name e)) @ be_bytes 2 (se_offset e) @ se_name e @
      (if sf_v5 mp then [se_ftype e] else [])) @ sf_enc_ino i8 (se_ino e) @ post"
    unfolding append_assoc by (rule sf_entry_at_bytes [OF at])
  then show ?thesis
    by (rule sf_get_inumber_at [OF sf_entry_atD(1) [OF at]])
      (simp_all add: sf_entry_atD [OF at] sf_ino_pos_def)
qed

lemma sf_at_nextentry:
  assumes at: "sf_entry_at mp d pre i8 e post"
  shows "sf_nextentry mp d (length pre) = Some (length (pre @ sf_enc_entry (sf_v5 mp) i8 e))"
  by (simp add: sf_nextentry_def xfs_dir3_sf_nextentry_def xfs_dir2_sf_nextentry_def
        sf_at_namelen [OF at] sf_entry_atD [OF at])

lemmas sf_at_simps = sf_at_namelen sf_at_name sf_at_offset sf_at_inumberp sf_at_inumber
  sf_at_nextentry

text \<open>On version 4 the two layouts agree.\<close>

lemma sf_at_v4:
  assumes "sf_entry_at mp d pre i8 e post" and "\<not> sf_v5 mp"
  shows "xfs_dir2_sf_inumberp d (length pre) = Some (sf_ino_pos mp pre e)"
    and "xfs_dir2_sf_nextentry d (length pre) = Some (length (pre @ sf_enc_entry (sf_v5 mp) i8 e))"
  using sf_at_inumberp [OF assms(1)] sf_at_nextentry [OF assms(1)] assms(2)
  by (simp_all add: sf_inumberp_def sf_nextentry_def)

text \<open>A directory the fork holds, opened at its header.\<close>

lemma sf_holds_hdr:
  assumes "sf_holds mp dp sd"
  shows "sf_hdr (length (sd_entries sd)) (sd_i8 sd) (if_data (i_df dp))"
proof -
  obtain rest where "if_data (i_df dp) = sf_encode (sf_v5 mp) sd @ rest"
    using assms by (auto simp: sf_holds_def)
  then have "if_data (i_df dp) = be_bytes 1 (length (sd_entries sd)) @ be_bytes 1 (sd_i8 sd) @
     (sf_enc_ino (sd_i8 sd) (sd_parent sd) @ sf_enc_entries (sf_v5 mp) (sd_i8 sd) (sd_entries sd) @ rest)"
    unfolding sf_encode_def append_assoc .
  then show ?thesis
    using assms sf_hdr_append by (simp add: sf_holds_def sf_dir_ok_def)
qed

lemma sf_holds_layout:
  assumes "sf_holds mp dp sd"
  shows "\<exists>hdr rest. if_data (i_df dp) = hdr @ sf_enc_entries (sf_v5 mp) (sd_i8 sd) (sd_entries sd) @ rest
     \<and> length hdr = xfs_dir2_sf_hdr_size (sd_i8 sd)"
proof -
  obtain rest where "if_data (i_df dp) = sf_encode (sf_v5 mp) sd @ rest"
    using assms by (auto simp: sf_holds_def)
  then have "if_data (i_df dp) = (be_bytes 1 (length (sd_entries sd)) @ be_bytes 1 (sd_i8 sd) @
     sf_enc_ino (sd_i8 sd) (sd_parent sd)) @ sf_enc_entries (sf_v5 mp) (sd_i8 sd) (sd_entries sd) @ rest"
    by (simp add: sf_encode_def)
  moreover have "length (be_bytes 1 (length (sd_entries sd)) @ be_bytes 1 (sd_i8 sd) @
     sf_enc_ino (sd_i8 sd) (sd_parent sd)) = xfs_dir2_sf_hdr_size (sd_i8 sd)"
    by (simp add: xfs_dir2_sf_hdr_size_def)
  ultimately show ?thesis by blast
qed

lemma sf_holds_firstentry:
  "sf_holds mp dp sd \<Longrightarrow>
   xfs_dir2_sf_firstentry (if_data (i_df dp)) = Some (xfs_dir2_sf_hdr_size (sd_i8 sd))"
  using sf_holds_hdr by (simp add: xfs_dir2_sf_firstentry_def sf_hdr_def)

lemma sf_holds_parent:
  assumes "sf_holds mp dp sd"
  shows "xfs_dir2_sf_get_inumber (if_data (i_df dp)) 2 = Some (sd_parent sd)"
proof -
  obtain rest where "if_data (i_df dp) = sf_encode (sf_v5 mp) sd @ rest"
    using assms by (auto simp: sf_holds_def)
  then have "if_data (i_df dp) = (be_bytes 1 (length (sd_entries sd)) @ be_bytes 1 (sd_i8 sd)) @
     sf_enc_ino (sd_i8 sd) (sd_parent sd) @ (sf_enc_entries (sf_v5 mp) (sd_i8 sd) (sd_entries sd) @ rest)"
    by (simp add: sf_encode_def)
  then show ?thesis
    by (rule sf_get_inumber_at [rotated])
      (use assms sf_holds_hdr [OF assms] in \<open>simp_all add: sf_holds_def sf_dir_ok_def sf_hdr_def\<close>)
qed

lemma sf_holds_size: "sf_holds mp dp sd \<Longrightarrow> 6 \<le> di_size (i_d dp)"
  by (auto simp: sf_holds_def sf_encode_def)

section \<open>Lookup\<close>

text \<open>
  \<open>xfs_dir_cilookup_result\<close> (xfs_dir2.c); the copy of the actual name can fail only for want of
  memory, which \<open>alloc_ok\<close> decides.
\<close>

definition xfs_dir_cilookup_result :: "bool \<Rightarrow> da_args \<Rightarrow> bytes \<Rightarrow> errno \<times> da_args" where
  "xfs_dir_cilookup_result alloc_ok args name =
    (if a_cmpresult args = XFS_CMP_DIFFERENT then (ENOENT, args)
     else if a_cmpresult args \<noteq> XFS_CMP_CASE \<or> \<not> a_cilookup args then (EEXIST, args)
     else if \<not> alloc_ok then (ENOMEM, args\<lparr>a_value := None\<rparr>)
     else (EEXIST, args\<lparr>a_value := Some name\<rparr>))"

text \<open>
  The loop over the entries: \<open>n\<close> entries are left, \<open>ci\<close> is the entry of the first match that
  differs in case. The flag of the result tells whether an exact match ended the loop.
\<close>

fun sf_lookup_loop ::
    "xfs_mount \<Rightarrow> bytes \<Rightarrow> nat \<Rightarrow> nat \<Rightarrow> da_args \<Rightarrow> nat option \<Rightarrow> (bool \<times> nat option \<times> da_args) option"
where
  "sf_lookup_loop mp d 0 sfep args ci = Some (False, ci, args)"
| "sf_lookup_loop mp d (Suc n) sfep args ci = do {
     nm \<leftarrow> sf_name d sfep;
     let cmp = compname mp args nm;
     if cmp \<noteq> XFS_CMP_DIFFERENT \<and> cmp \<noteq> a_cmpresult args then do {
       p \<leftarrow> sf_inumberp mp d sfep;
       ino \<leftarrow> xfs_dir2_sf_get_inumber d p;
       let args' = args\<lparr>a_cmpresult := cmp, a_inumber := ino\<rparr>;
       if cmp = XFS_CMP_EXACT then Some (True, ci, args')
       else do {
         sfep' \<leftarrow> sf_nextentry mp d sfep;
         sf_lookup_loop mp d n sfep' args' (Some sfep) } }
     else do {
       sfep' \<leftarrow> sf_nextentry mp d sfep;
       sf_lookup_loop mp d n sfep' args ci } }"

definition xfs_dir2_sf_lookup ::
    "bool \<Rightarrow> xfs_mount \<Rightarrow> xfs_inode \<Rightarrow> da_args \<Rightarrow> (errno \<times> da_args) option" where
  "xfs_dir2_sf_lookup alloc_ok mp dp args =
    (if di_size (i_d dp) < 2 then Some (EIO, args)
     else let d = if_data (i_df dp) in
       if a_name args = [46] then
         Some (EEXIST, args\<lparr>a_inumber := i_ino dp, a_cmpresult := XFS_CMP_EXACT\<rparr>)
       else if a_name args = [46, 46] then do {
         ino \<leftarrow> xfs_dir2_sf_get_inumber d 2;
         Some (EEXIST, args\<lparr>a_inumber := ino, a_cmpresult := XFS_CMP_EXACT\<rparr>) }
       else do {
         cnt \<leftarrow> sf_count d;
         first \<leftarrow> xfs_dir2_sf_firstentry d;
         (found, ci, args') \<leftarrow> sf_lookup_loop mp d cnt first args None;
         if found then Some (EEXIST, args')
         else (case ci of
             None \<Rightarrow> Some (ENOENT, args')
           | Some sfep \<Rightarrow> do {
               nm \<leftarrow> sf_name d sfep;
               Some (xfs_dir_cilookup_result alloc_ok args' nm) }) })"

text \<open>
  What a lookup must return: the first entry that matches exactly; with none, the first that
  matches up to case, together with its actual name when the caller asked for it.
\<close>

definition sf_lookup_spec ::
    "bool \<Rightarrow> xfs_mount \<Rightarrow> sf_entry list \<Rightarrow> da_args \<Rightarrow> errno \<times> da_args" where
  "sf_lookup_spec alloc_ok mp es args =
    (case find (\<lambda>e. compname mp args (se_name e) = XFS_CMP_EXACT) es of
       Some e \<Rightarrow> (EEXIST, args\<lparr>a_cmpresult := XFS_CMP_EXACT, a_inumber := se_ino e\<rparr>)
     | None \<Rightarrow> (case find (\<lambda>e. compname mp args (se_name e) = XFS_CMP_CASE) es of
         None \<Rightarrow> (ENOENT, args)
       | Some e \<Rightarrow> xfs_dir_cilookup_result alloc_ok
                     (args\<lparr>a_cmpresult := XFS_CMP_CASE, a_inumber := se_ino e\<rparr>) (se_name e)))"

lemma compname_cong [simp]:
  "compname mp (args\<lparr>a_cmpresult := c, a_inumber := i\<rparr>) = compname mp args"
  by (simp add: compname_def xfs_da_compname_def xfs_ascii_ci_compname_def fun_eq_iff)

definition sf_entries_at ::
    "xfs_mount \<Rightarrow> bytes \<Rightarrow> bytes \<Rightarrow> nat \<Rightarrow> sf_entry list \<Rightarrow> bytes \<Rightarrow> bool" where
  "sf_entries_at mp d pre i8 es post \<longleftrightarrow>
     sf_i8count d = Some i8 \<and> d = pre @ sf_enc_entries (sf_v5 mp) i8 es @ post \<and>
     list_all (sf_entry_ok i8) es"

lemma sf_entries_at_Cons:
  assumes "sf_entries_at mp d pre i8 (e # es) post"
  shows "sf_entry_at mp d pre i8 e (sf_enc_entries (sf_v5 mp) i8 es @ post)"
    and "sf_entries_at mp d (pre @ sf_enc_entry (sf_v5 mp) i8 e) i8 es post"
proof -
  have d: "d = pre @ sf_enc_entries (sf_v5 mp) i8 (e # es) @ post" and i: "sf_i8count d = Some i8"
    and ok: "sf_entry_ok i8 e" "list_all (sf_entry_ok i8) es"
    using assms unfolding sf_entries_at_def list.pred_inject by blast+
  have "d = pre @ sf_enc_entry (sf_v5 mp) i8 e @ sf_enc_entries (sf_v5 mp) i8 es @ post"
    using d unfolding sf_enc_entries_simps append_assoc .
  then show "sf_entry_at mp d pre i8 e (sf_enc_entries (sf_v5 mp) i8 es @ post)"
    and "sf_entries_at mp d (pre @ sf_enc_entry (sf_v5 mp) i8 e) i8 es post"
    using i ok unfolding sf_entries_at_def sf_entry_at_def append_assoc by blast+
qed

lemma sf_loop_exact:
  assumes "sf_entries_at mp d pre i8 es post"
    and "find (\<lambda>e. compname mp args (se_name e) = XFS_CMP_EXACT) es = Some e"
    and "a_cmpresult args \<noteq> XFS_CMP_EXACT"
  shows "\<exists>ci'. sf_lookup_loop mp d (length es) (length pre) args ci =
    Some (True, ci', args\<lparr>a_cmpresult := XFS_CMP_EXACT, a_inumber := se_ino e\<rparr>)"
  using assms
proof (induction es arbitrary: pre args ci)
  case Nil
  then show ?case by simp
next
  case (Cons f es)
  note at = sf_entries_at_Cons [OF Cons.prems(1)]
  note s = sf_at_simps [OF at(1)]
  show ?case
  proof (cases "compname mp args (se_name f) = XFS_CMP_EXACT")
    case True
    then have e: "e = f" using Cons.prems(2) by simp
    show ?thesis unfolding e using True Cons.prems(3) by (simp add: s Let_def)
  next
    case False
    then show ?thesis
    using Cons.IH [OF at(2), of "args\<lparr>a_cmpresult := XFS_CMP_CASE, a_inumber := se_ino f\<rparr>"]
      Cons.IH [OF at(2), of args] Cons.prems
    by (cases "compname mp args (se_name f)") (auto simp: s Let_def)
  qed
qed

lemma sf_loop_seen:
  assumes "sf_entries_at mp d pre i8 es post"
    and "find (\<lambda>e. compname mp args (se_name e) = XFS_CMP_EXACT) es = None"
    and "a_cmpresult args = XFS_CMP_CASE"
  shows "sf_lookup_loop mp d (length es) (length pre) args ci = Some (False, ci, args)"
  using assms
proof (induction es arbitrary: pre)
  case Nil
  then show ?case by simp
next
  case (Cons f es)
  note at = sf_entries_at_Cons [OF Cons.prems(1)]
  note s = sf_at_simps [OF at(1)]
  show ?case
    using Cons.IH [OF at(2)] Cons.prems
    by (cases "compname mp args (se_name f)") (auto simp: s Let_def split: if_splits)
qed

lemma sf_loop_case:
  assumes "sf_entries_at mp d pre i8 es post"
    and "find (\<lambda>e. compname mp args (se_name e) = XFS_CMP_EXACT) es = None"
    and "a_cmpresult args = XFS_CMP_DIFFERENT"
  shows "(case find (\<lambda>e. compname mp args (se_name e) = XFS_CMP_CASE) es of
      None \<Rightarrow> sf_lookup_loop mp d (length es) (length pre) args ci = Some (False, ci, args)
    | Some e \<Rightarrow> (\<exists>pos. sf_name d pos = Some (se_name e) \<and>
        sf_lookup_loop mp d (length es) (length pre) args ci =
          Some (False, Some pos, args\<lparr>a_cmpresult := XFS_CMP_CASE, a_inumber := se_ino e\<rparr>)))"
  using assms
proof (induction es arbitrary: pre)
  case Nil
  then show ?case by simp
next
  case (Cons f es)
  note at = sf_entries_at_Cons [OF Cons.prems(1)]
  note s = sf_at_simps [OF at(1)]
  show ?case
    using Cons.IH [OF at(2)] Cons.prems
      sf_loop_seen [OF at(2), of "args\<lparr>a_cmpresult := XFS_CMP_CASE, a_inumber := se_ino f\<rparr>"]
    by (cases "compname mp args (se_name f)") (auto simp: s Let_def split: if_splits option.splits)
qed

lemma sf_holds_entries_at:
  assumes "sf_holds mp dp sd"
  shows "\<exists>pre post. length pre = xfs_dir2_sf_hdr_size (sd_i8 sd) \<and>
    sf_entries_at mp (if_data (i_df dp)) pre (sd_i8 sd) (sd_entries sd) post"
proof -
  obtain pre post where "if_data (i_df dp) =
       pre @ sf_enc_entries (sf_v5 mp) (sd_i8 sd) (sd_entries sd) @ post"
     and "length pre = xfs_dir2_sf_hdr_size (sd_i8 sd)"
    using sf_holds_layout [OF assms] by blast
  moreover have "sf_i8count (if_data (i_df dp)) = Some (sd_i8 sd)"
    and "list_all (sf_entry_ok (sd_i8 sd)) (sd_entries sd)"
    using sf_holds_hdr [OF assms] assms by (simp_all add: sf_hdr_def sf_holds_def sf_dir_ok_def)
  ultimately show ?thesis unfolding sf_entries_at_def by blast
qed

lemma sf_lookup_ok:
  assumes "sf_holds mp dp sd" and "a_cmpresult args = XFS_CMP_DIFFERENT"
  shows "xfs_dir2_sf_lookup alloc_ok mp dp args = Some
    (if a_name args = [46] then (EEXIST, args\<lparr>a_inumber := i_ino dp, a_cmpresult := XFS_CMP_EXACT\<rparr>)
     else if a_name args = [46, 46]
       then (EEXIST, args\<lparr>a_inumber := sd_parent sd, a_cmpresult := XFS_CMP_EXACT\<rparr>)
     else sf_lookup_spec alloc_ok mp (sd_entries sd) args)"
proof -
  obtain pre post where pre: "length pre = xfs_dir2_sf_hdr_size (sd_i8 sd)"
    and at: "sf_entries_at mp (if_data (i_df dp)) pre (sd_i8 sd) (sd_entries sd) post"
    using sf_holds_entries_at [OF assms(1)] by blast
  have hdr: "sf_count (if_data (i_df dp)) = Some (length (sd_entries sd))"
    using sf_holds_hdr [OF assms(1)] by (simp add: sf_hdr_def)
  note io = sf_holds_size [OF assms(1)] sf_holds_parent [OF assms(1)]
    sf_holds_firstentry [OF assms(1)] hdr
  show ?thesis
  proof (cases "find (\<lambda>e. compname mp args (se_name e) = XFS_CMP_EXACT) (sd_entries sd)")
    case (Some e)
    then show ?thesis
      using sf_loop_exact [OF at Some, of None] io pre assms(2)
      by (auto simp: xfs_dir2_sf_lookup_def sf_lookup_spec_def Let_def)
  next
    case None
    then show ?thesis
      using sf_loop_case [OF at None assms(2), of None] io pre
      by (auto simp: xfs_dir2_sf_lookup_def sf_lookup_spec_def Let_def split: option.splits)
  qed
qed

text \<open>
  C18: On every short-form directory the lookup terminates without leaving the buffer and returns
  the specified entry: the first exact match, else the first match up to case, else \<open>ENOENT\<close>; the
  names \<open>.\<close> and \<open>..\<close> give the directory itself and its recorded parent.
\<close>

theorem sf_lookup_correct:
  assumes "sf_holds mp dp sd" and "a_cmpresult args = XFS_CMP_DIFFERENT"
  shows "xfs_dir2_sf_lookup alloc_ok mp dp args = Some
    (if a_name args = [46] then (EEXIST, args\<lparr>a_inumber := i_ino dp, a_cmpresult := XFS_CMP_EXACT\<rparr>)
     else if a_name args = [46, 46]
       then (EEXIST, args\<lparr>a_inumber := sd_parent sd, a_cmpresult := XFS_CMP_EXACT\<rparr>)
     else sf_lookup_spec alloc_ok mp (sd_entries sd) args)"
  by (rule sf_lookup_ok [OF assms])

text \<open>Sample directories for concrete evaluations.\<close>

definition sample_sf_inode :: "xfs_mount \<Rightarrow> sf_dir \<Rightarrow> xfs_inode" where
  "sample_sf_inode mp sd = sample_inode 0x41ED FMT_LOCAL (sf_encode (sf_v5 mp) sd)"

lemma sample_sf_holds: "sf_dir_ok sd \<Longrightarrow> sf_holds mp (sample_sf_inode mp sd) sd"
  using sample_inode_data [where d = "sf_encode (sf_v5 mp) sd" and mode = "0x41ED" and fmt = FMT_LOCAL]
  by (simp add: sf_holds_def sample_sf_inode_def sample_inode_fork)

definition sample_args :: "bytes \<Rightarrow> da_args" where
  "sample_args nm = \<lparr> a_name = nm, a_inumber = 0, a_cmpresult = XFS_CMP_DIFFERENT,
     a_cilookup = True, a_justcheck = False, a_total = 0, a_value = None \<rparr>"

definition sample_sd :: sf_dir where
  "sample_sd = \<lparr> sd_i8 = 0, sd_parent = 128, sd_entries =
     [\<lparr> se_name = [97, 98], se_offset = 48, se_ftype = 1, se_ino = 131 \<rparr>,
      \<lparr> se_name = [99], se_offset = 64, se_ftype = 2, se_ino = 132 \<rparr>] \<rparr>"

lemma sample_sd_ok: "sf_dir_ok sample_sd"
  by (simp add: sf_dir_ok_def sample_sd_def sf_entry_ok_def ino_fits_def)

definition sample_v5_mp :: xfs_mount where
  "sample_v5_mp = sample_mount (sample_sb\<lparr>sb_versionnum := 5\<rparr>)"

lemma sample_v5_geom: "geom_ok sample_v5_mp"
  unfolding sample_v5_mp_def sample_mount_def
  by (rule xfs_dir_mount_geom) (simp_all add: xfs_mount_common_def Let_def)

definition sample_sd1 :: sf_dir where
  "sample_sd1 = sample_sd\<lparr>sd_entries := [hd (sd_entries sample_sd)]\<rparr>"

lemma sample_v5: "sf_v5 sample_v5_mp"
  by (simp add: sf_v5_def sample_v5_mp_def XFS_SB_VERSION_NUM_def)

lemma sample_sd1_ok: "sf_dir_ok sample_sd1"
  by (simp add: sample_sd1_def sample_sd_def sf_dir_ok_def sf_entry_ok_def ino_fits_def)

lemma sample_v4 [simp]: "\<not> sf_v5 sample_mp"
  by (simp add: sf_v5_def XFS_SB_VERSION_NUM_def)

theorem sf_lookup_correct_witness:
  "sf_holds sample_mp (sample_sf_inode sample_mp sample_sd) sample_sd \<and>
   map_option (\<lambda>r. (fst r, a_inumber (snd r))) (xfs_dir2_sf_lookup True sample_mp
     (sample_sf_inode sample_mp sample_sd) (sample_args [99])) = Some (EEXIST, 132)"
  using sf_lookup_correct [OF sample_sf_holds [OF sample_sd_ok], where args = "sample_args [99]"
      and alloc_ok = True and mp = sample_mp] sample_sf_holds [OF sample_sd_ok, where mp = sample_mp]
  by (simp add: sample_args_def sf_lookup_spec_def sample_sd_def compname_def
      xfs_sb_version_hasasciici_def XFS_SB_VERSION_NUM_def xfs_da_compname_def)

end
