(* ===== verification/Dir2_Data.thy ===== *)
theory Dir2_Data
  imports Dir2_Sf
begin

text \<open>
  Directory data blocks (include/xfs_dir2_data.h, include/xfs_dir2_block.h): entries and unused
  stretches one after the other behind a header of 16 bytes; in a directory of one block, the leaf
  entries and a tail of 8 bytes stand at its end. Pointers into a block are byte offsets.
\<close>

section \<open>Sizes of data entries\<close>

text \<open>\<open>xfs_dir2_data_entsize\<close>: inode number, name length, name and tag, rounded up to 8 bytes.\<close>

definition xfs_dir2_data_entsize :: "int \<Rightarrow> int" where
  "xfs_dir2_data_entsize n = ((9 + n + 2 + 7) div 8) * 8"

definition xfs_dir3_data_entsize :: "int \<Rightarrow> int" where
  "xfs_dir3_data_entsize n = ((9 + n + 2 + 1 + 7) div 8) * 8"

definition XFS_DIR2_DATA_DOT_OFFSET :: int where
  "XFS_DIR2_DATA_DOT_OFFSET = 16"

definition XFS_DIR2_DATA_DOTDOT_OFFSET :: int where
  "XFS_DIR2_DATA_DOTDOT_OFFSET = XFS_DIR2_DATA_DOT_OFFSET + xfs_dir2_data_entsize 1"

definition XFS_DIR2_DATA_FIRST_OFFSET :: int where
  "XFS_DIR2_DATA_FIRST_OFFSET = XFS_DIR2_DATA_DOTDOT_OFFSET + xfs_dir2_data_entsize 2"

lemmas data_offset_defs = XFS_DIR2_DATA_DOT_OFFSET_def XFS_DIR2_DATA_DOTDOT_OFFSET_def
  XFS_DIR2_DATA_FIRST_OFFSET_def xfs_dir2_data_entsize_def

lemma entsize_bounds: "0 \<le> n \<Longrightarrow> n + 11 \<le> xfs_dir2_data_entsize n \<and> xfs_dir2_data_entsize n < n + 19"
  unfolding xfs_dir2_data_entsize_def by presburger

lemma entsize_dvd: "8 dvd xfs_dir2_data_entsize n"
  by (simp add: xfs_dir2_data_entsize_def)

section \<open>Reading a block\<close>

definition XFS_DIR2_DATA_FREE_TAG :: nat where
  "XFS_DIR2_DATA_FREE_TAG = 0xffff"

definition data_freetag :: "bytes \<Rightarrow> nat \<Rightarrow> nat option" where
  "data_freetag d p = rd_be16 p d"

definition data_unused_length :: "bytes \<Rightarrow> nat \<Rightarrow> nat option" where
  "data_unused_length d p = rd_be16 (p + 2) d"

definition data_inumber :: "bytes \<Rightarrow> nat \<Rightarrow> nat option" where
  "data_inumber d p = rd_be64 p d"

definition data_namelen :: "bytes \<Rightarrow> nat \<Rightarrow> nat option" where
  "data_namelen d p = rd8 (p + 8) d"

definition data_name :: "bytes \<Rightarrow> nat \<Rightarrow> bytes option" where
  "data_name d p = do { n \<leftarrow> data_namelen d p; rd_bytes (p + 9) n d }"

text \<open>The tail and the leaf entries of a one-block directory.\<close>

definition xfs_dir2_block_tail_p :: "xfs_mount \<Rightarrow> int" where
  "xfs_dir2_block_tail_p mp = int (m_dirblksize mp) - 8"

definition tail_count :: "xfs_mount \<Rightarrow> bytes \<Rightarrow> nat option" where
  "tail_count mp d = (let t = xfs_dir2_block_tail_p mp in if t < 0 then None else rd_be32 (nat t) d)"

definition xfs_dir2_block_leaf_p :: "xfs_mount \<Rightarrow> bytes \<Rightarrow> int option" where
  "xfs_dir2_block_leaf_p mp d =
     map_option (\<lambda>n. xfs_dir2_block_tail_p mp - 8 * int n) (tail_count mp d)"

text \<open>Field reads of leaf entry \<open>i\<close> behind pointer \<open>blp\<close>.\<close>

definition leaf_hashval :: "bytes \<Rightarrow> int \<Rightarrow> int \<Rightarrow> nat option" where
  "leaf_hashval d blp i = (let p = blp + 8 * i in if p < 0 then None else rd_be32 (nat p) d)"

definition leaf_address :: "bytes \<Rightarrow> int \<Rightarrow> int \<Rightarrow> nat option" where
  "leaf_address d blp i = (let p = blp + 8 * i + 4 in if p < 0 then None else rd_be32 (nat p) d)"

section \<open>The contents of a block\<close>

datatype data_item = DEntry (di_name: bytes) (di_ino: nat) | DFree nat

text \<open>The items between two positions of a block, as the accessors see them.\<close>

fun item_size :: "data_item \<Rightarrow> nat" where
  "item_size (DEntry nm ino) = nat (xfs_dir2_data_entsize (int (length nm)))"
| "item_size (DFree n) = n"

definition item_at :: "bytes \<Rightarrow> nat \<Rightarrow> data_item \<Rightarrow> bool" where
  "item_at d p it \<longleftrightarrow> (case it of
      DFree n \<Rightarrow> data_freetag d p = Some 0xffff \<and> data_unused_length d p = Some n \<and> 0 < n
    | DEntry nm ino \<Rightarrow> (\<exists>t. data_freetag d p = Some t \<and> t \<noteq> 0xffff) \<and> data_inumber d p = Some ino \<and>
        data_namelen d p = Some (length nm) \<and> data_name d p = Some nm)"

fun items_at :: "bytes \<Rightarrow> nat \<Rightarrow> data_item list \<Rightarrow> nat \<Rightarrow> bool" where
  "items_at d p [] e \<longleftrightarrow> p = e"
| "items_at d p (it # its) e \<longleftrightarrow> item_at d p it \<and> items_at d (p + item_size it) its e"

lemma item_size_pos: "item_at d p it \<Longrightarrow> 0 < item_size it"
  using entsize_bounds [of "int (length (di_name it))"] by (cases it) (auto simp: item_at_def)

lemma items_at_le: "items_at d p its e \<Longrightarrow> p \<le> e"
proof (induction its arbitrary: p)
  case (Cons it its)
  then have "p + item_size it \<le> e" by simp
  then show ?case by linarith
qed simp

text \<open>The live entries of a block with their positions.\<close>

fun live_from :: "nat \<Rightarrow> data_item list \<Rightarrow> (nat \<times> bytes \<times> nat) list" where
  "live_from p [] = []"
| "live_from p (DFree n # its) = live_from (p + n) its"
| "live_from p (DEntry nm ino # its) =
     (p, nm, ino) # live_from (p + item_size (DEntry nm ino)) its"

lemma live_from_bounds:
  "items_at d p its e \<Longrightarrow> (q, nm, ino) \<in> set (live_from p its) \<Longrightarrow> p \<le> q \<and> q < e"
proof (induction its arbitrary: p)
  case Nil
  then show ?case by simp
next
  case (Cons it its)
  then show ?case
    using item_size_pos [of d p it] items_at_le [of d "p + item_size it" its e]
    by (cases it) force+
qed

lemma live_from_sorted:
  "items_at d p its e \<Longrightarrow> sorted_wrt (\<lambda>a b. fst a < fst b) (live_from p its)"
proof (induction its arbitrary: p)
  case Nil
  then show ?case by simp
next
  case (Cons it its)
  then show ?case
    using item_size_pos [of d p it] live_from_bounds [of d "p + item_size it" its e]
    by (cases it) fastforce+
qed

end
