(* ===== verification/Dir2_Sf_Ops.thy ===== *)
theory Dir2_Sf_Ops
  imports Dir2_Data
begin

text \<open>
  The operations that change short-form directories (libxfs/xfs_dir2_sf.c): creation, conversion
  between 4- and 8-byte inode numbers, replacement, insertion and removal. A result \<open>None\<close> is an
  access outside the buffers; the errors are values of \<open>errno option\<close>. Fresh memory is the argument
  \<open>junk\<close> of \<open>xfs_idata_realloc\<close>.
\<close>

section \<open>Writing one entry\<close>

text \<open>
  The statements that fill in an entry at \<open>sfep\<close> (in \<open>xfs_dir2_sf_addname_easy\<close>,
  \<open>xfs_dir2_sf_addname_hard\<close>, \<open>xfs_dir2_block_to_sf\<close> and the conversion loops). They never store the
  file-type byte of version 5.
\<close>

definition sf_fill_entry ::
    "xfs_mount \<Rightarrow> bytes \<Rightarrow> nat \<Rightarrow> bytes \<Rightarrow> nat \<Rightarrow> nat \<Rightarrow> bytes option" where
  "sf_fill_entry mp d sfep nm off ino = do {
     d \<leftarrow> wr_be 1 (length nm) sfep d;
     d \<leftarrow> xfs_dir2_sf_put_offset d sfep off;
     d \<leftarrow> wr_bytes (sfep + 3) nm d;
     p \<leftarrow> sf_inumberp mp d sfep;
     xfs_dir2_sf_put_inumber d ino p }"

lemma wr_bytes_append:
  "length pre = off \<Longrightarrow> length bs \<le> length r \<Longrightarrow>
   wr_bytes off bs (pre @ r) = Some (pre @ bs @ drop (length bs) r)"
  by (simp add: wr_bytes_def)

lemma wr_be_append:
  "length pre = off \<Longrightarrow> n \<le> length r \<Longrightarrow>
   wr_be n v off (pre @ r) = Some (pre @ be_bytes n v @ drop n r)"
  by (simp add: wr_be_def wr_bytes_append)

lemma sf_i8count_prefix: "2 \<le> length pre \<Longrightarrow> sf_i8count (pre @ r) = sf_i8count pre"
  by (simp add: sf_i8count_def rd_be_prefix)

lemma sf_put_inumber_append:
  assumes "sf_i8count (pre @ r) = Some i8" and "length pre = off"
    and "length (sf_enc_ino i8 ino) \<le> length r" and "ino_fits i8 ino"
  shows "xfs_dir2_sf_put_inumber (pre @ r) ino off =
    Some (pre @ sf_enc_ino i8 ino @ drop (length (sf_enc_ino i8 ino)) r)"
  using assms
  by (auto simp: xfs_dir2_sf_put_inumber_def XFS_PUT_DIR_INO4_def XFS_PUT_DIR_INO8_def
      sf_enc_ino_def ino_fits_def wr_be_append split: if_splits)

text \<open>The entry written, and what becomes of the file-type byte: it keeps the byte found there.\<close>

lemma sf_fill_entry_ok:
  assumes i8: "sf_i8count pre = Some i8" and pre: "length pre = sfep" "2 \<le> length pre"
    and ok: "sf_entry_ok i8 e" and room: "length (sf_enc_entry (sf_v5 mp) i8 e) \<le> length r"
  shows "sf_fill_entry mp (pre @ r) sfep (se_name e) (se_offset e) (se_ino e) =
    Some (pre @ sf_enc_entry (sf_v5 mp) i8 (e\<lparr>se_ftype := r ! (3 + length (se_name e))\<rparr>) @
      drop (length (sf_enc_entry (sf_v5 mp) i8 e)) r)"
proof -
  let ?n = "length (se_name e)" and ?r = "drop (3 + length (se_name e)) r"
  let ?ft = "if sf_v5 mp then [r ! (3 + length (se_name e))] else []"
  let ?h = "pre @ be_bytes 1 ?n @ be_bytes 2 (se_offset e) @ se_name e"
  have n: "?n < 256" and i: "ino_fits i8 (se_ino e)" using ok by (simp_all add: sf_entry_ok_def)
  have len: "3 + ?n + length ?ft + length (sf_enc_ino i8 (se_ino e)) \<le> length r"
    using room by (auto simp: xfs_dir3_sf_entsize_def xfs_dir2_sf_entsize_def split: if_splits)
  have a: "wr_be 1 ?n sfep (pre @ r) = Some (pre @ be_bytes 1 ?n @ drop 1 r)"
    using len pre by (intro wr_be_append) auto
  have b: "wr_be 2 (se_offset e) (sfep + 1) (pre @ be_bytes 1 ?n @ drop 1 r) =
      Some ((pre @ be_bytes 1 ?n) @ be_bytes 2 (se_offset e) @ drop 3 r)"
    using wr_be_append [of "pre @ be_bytes 1 ?n" "sfep + 1" 2 "drop 1 r"] len pre
    by (simp add: numeral_eq_Suc)
  have c: "wr_bytes (sfep + 3) (se_name e)
        ((pre @ be_bytes 1 ?n) @ be_bytes 2 (se_offset e) @ drop 3 r) = Some (?h @ ?r)"
    using wr_bytes_append [of "pre @ be_bytes 1 ?n @ be_bytes 2 (se_offset e)" "sfep + 3" "se_name e"
        "drop 3 r"] len pre by (simp add: add.commute)
  have nl: "sf_namelen (?h @ ?r) sfep = Some ?n"
    using n rd_be_append [of pre sfep 1 ?n] pre by (simp add: sf_namelen_def)
  have d: "?h @ ?r = (?h @ ?ft) @ drop (length ?ft) ?r"
    using len Cons_nth_drop_Suc [of "3 + ?n" r] by (auto split: if_splits)
  have p: "sf_inumberp mp (?h @ ?r) sfep = Some (length (?h @ ?ft))"
    using nl pre
    by (simp add: sf_inumberp_def xfs_dir3_sf_inumberp_def xfs_dir2_sf_inumberp_def)
  have i8': "sf_i8count (?h @ ?r) = Some i8"
    using i8 pre sf_i8count_prefix [of pre] by simp
  have e: "xfs_dir2_sf_put_inumber (?h @ ?r) (se_ino e) (length (?h @ ?ft)) =
     Some ((?h @ ?ft) @ sf_enc_ino i8 (se_ino e) @
       drop (length (sf_enc_ino i8 (se_ino e))) (drop (length ?ft) ?r))"
    unfolding d by (rule sf_put_inumber_append) (use i8' [unfolded d] i len in auto)
  have "sf_fill_entry mp (pre @ r) sfep (se_name e) (se_offset e) (se_ino e) =
     Some ((?h @ ?ft) @ sf_enc_ino i8 (se_ino e) @
       drop (length (sf_enc_ino i8 (se_ino e))) (drop (length ?ft) ?r))"
    by (simp only: sf_fill_entry_def xfs_dir2_sf_put_offset_def a b c p e Option.bind.bind_lunit)
  moreover have "length (sf_enc_entry (sf_v5 mp) i8 e) =
      3 + ?n + length ?ft + length (sf_enc_ino i8 (se_ino e))"
    by (simp add: xfs_dir3_sf_entsize_def xfs_dir2_sf_entsize_def)
  ultimately show ?thesis
    by (simp add: sf_enc_entry_def add.commute add.left_commute)
qed

section \<open>Conversion between 4- and 8-byte inode numbers\<close>

text \<open>The loop that \<open>xfs_dir2_sf_toino4\<close> and \<open>xfs_dir2_sf_toino8\<close> share: \<open>n\<close> entries are left.\<close>

fun sf_copy_entries ::
    "xfs_mount \<Rightarrow> bytes \<Rightarrow> nat \<Rightarrow> bytes \<Rightarrow> nat \<Rightarrow> nat \<Rightarrow> bytes option" where
  "sf_copy_entries mp old 0 d sfep oldsfep = Some d"
| "sf_copy_entries mp old (Suc n) d sfep oldsfep = do {
     off \<leftarrow> xfs_dir2_sf_get_offset old oldsfep;
     nm \<leftarrow> sf_name old oldsfep;
     p \<leftarrow> sf_inumberp mp old oldsfep;
     ino \<leftarrow> xfs_dir2_sf_get_inumber old p;
     d \<leftarrow> sf_fill_entry mp d sfep nm off ino;
     sfep' \<leftarrow> sf_nextentry mp d sfep;
     oldsfep' \<leftarrow> sf_nextentry mp old oldsfep;
     sf_copy_entries mp old n d sfep' oldsfep' }"

text \<open>
  Both conversions: \<open>new_i8\<close> is the new count of 8-byte numbers, \<open>per\<close> the change in size of one
  number.
\<close>

definition sf_convert ::
    "(nat \<Rightarrow> bytes) \<Rightarrow> xfs_mount \<Rightarrow> nat \<Rightarrow> int \<Rightarrow> xfs_inode \<Rightarrow> xfs_inode option" where
  "sf_convert junk mp new_i8 per dp = do {
     let oldsize = if_bytes (i_df dp);
     old \<leftarrow> rd_bytes 0 (nat oldsize) (if_data (i_df dp));
     cnt \<leftarrow> sf_count old;
     let newsize = oldsize + (int cnt + 1) * per;
     f \<leftarrow> xfs_idata_realloc junk (i_df dp) (- oldsize);
     f \<leftarrow> xfs_idata_realloc junk f newsize;
     d \<leftarrow> wr_be 1 cnt 0 (if_data f);
     d \<leftarrow> wr_be 1 new_i8 1 d;
     ino \<leftarrow> xfs_dir2_sf_get_inumber old 2;
     d \<leftarrow> xfs_dir2_sf_put_inumber d ino 2;
     sfep \<leftarrow> xfs_dir2_sf_firstentry d;
     oldsfep \<leftarrow> xfs_dir2_sf_firstentry old;
     d \<leftarrow> sf_copy_entries mp old cnt d sfep oldsfep;
     Some (xfs_trans_log_inode
       (dp\<lparr>i_df := set_if_data d f, i_d := (i_d dp)\<lparr>di_size := newsize\<rparr>\<rparr>)
       (XFS_ILOG_CORE OR XFS_ILOG_DDATA)) }"

definition xfs_dir2_sf_toino4 ::
    "(nat \<Rightarrow> bytes) \<Rightarrow> xfs_mount \<Rightarrow> xfs_inode \<Rightarrow> xfs_inode option" where
  "xfs_dir2_sf_toino4 junk mp dp = sf_convert junk mp 0 (- (8 - 4)) dp"

definition xfs_dir2_sf_toino8 ::
    "(nat \<Rightarrow> bytes) \<Rightarrow> xfs_mount \<Rightarrow> xfs_inode \<Rightarrow> xfs_inode option" where
  "xfs_dir2_sf_toino8 junk mp dp = sf_convert junk mp 1 (8 - 4) dp"

text \<open>Two entries that agree in everything but the file type.\<close>

definition sf_same :: "sf_entry \<Rightarrow> sf_entry \<Rightarrow> bool" where
  "sf_same a b \<longleftrightarrow> se_name a = se_name b \<and> se_offset a = se_offset b \<and> se_ino a = se_ino b"

lemma sf_same_ok: "sf_same a b \<Longrightarrow> sf_entry_ok i8 a \<longleftrightarrow> sf_entry_ok i8 b"
  by (simp add: sf_same_def sf_entry_ok_def)

lemma sf_same_enc_v4: "sf_same a b \<Longrightarrow> sf_enc_entry False i8 a = sf_enc_entry False i8 b"
  by (simp add: sf_same_def sf_enc_entry_def)

lemma sf_same_list_ok:
  "list_all2 sf_same es fs \<Longrightarrow> list_all (sf_entry_ok i8) es \<longleftrightarrow> list_all (sf_entry_ok i8) fs"
  by (induction rule: list_all2_induct) (auto simp: sf_same_ok)

lemma sf_same_enc_entries_v4:
  "list_all2 sf_same es fs \<Longrightarrow> sf_enc_entries False i8 es = sf_enc_entries False i8 fs"
  by (induction rule: list_all2_induct) (auto simp: sf_same_enc_v4)

lemma length_enc_entries_same:
  "list_all2 sf_same es fs \<Longrightarrow> length (sf_enc_entries v5 i8 es) = length (sf_enc_entries v5 i8 fs)"
  by (induction rule: list_all2_induct) (auto simp: sf_same_def)

lemma sf_copy_entries_ok:
  assumes "sf_entries_at mp old opre oi8 es opost" and "sf_i8count pre = Some i8" and "2 \<le> length pre"
    and "list_all (sf_entry_ok i8) es" and "length (sf_enc_entries (sf_v5 mp) i8 es) \<le> length r"
  shows "\<exists>es'. list_all2 sf_same es es' \<and> se_ftype ` set es' \<subseteq> set r \<and>
    sf_copy_entries mp old (length es) (pre @ r) (length pre) (length opre) =
      Some (pre @ sf_enc_entries (sf_v5 mp) i8 es' @ drop (length (sf_enc_entries (sf_v5 mp) i8 es)) r)"
  using assms
proof (induction es arbitrary: opre pre r)
  case Nil
  then show ?case by simp
next
  case (Cons e es)
  note at = sf_entries_at_Cons [OF Cons.prems(1)]
  note s = sf_at_simps [OF at(1)]
  let ?e = "e\<lparr>se_ftype := r ! (3 + length (se_name e))\<rparr>"
  let ?x = "sf_enc_entry (sf_v5 mp) i8 ?e" and ?n = "length (sf_enc_entry (sf_v5 mp) i8 e)"
  have ok: "sf_entry_ok i8 e" and oks: "list_all (sf_entry_ok i8) es" using Cons.prems(4) by auto
  have room: "?n \<le> length r"
    "length (sf_enc_entries (sf_v5 mp) i8 es) \<le> length (drop ?n r)"
    using Cons.prems(5) by auto
  have lx: "length ?x = ?n" by simp
  have fill: "sf_fill_entry mp (pre @ r) (length pre) (se_name e) (se_offset e) (se_ino e) =
    Some (pre @ ?x @ drop ?n r)"
    by (rule sf_fill_entry_ok [OF Cons.prems(2) refl Cons.prems(3) ok room(1)])
  have i8: "sf_i8count (pre @ ?x) = Some i8"
    using Cons.prems(2,3) by (simp add: sf_i8count_prefix)
  have at': "sf_entry_at mp (pre @ ?x @ drop ?n r) pre i8 ?e (drop ?n r)"
    using Cons.prems(2,3) ok by (simp add: sf_entry_at_def sf_i8count_prefix sf_entry_ok_def)
  have ft: "se_ftype ?e \<in> set r"
    using room(1) by (auto simp: xfs_dir3_sf_entsize_def xfs_dir2_sf_entsize_def split: if_splits)
  obtain es' where es': "list_all2 sf_same es es'" "se_ftype ` set es' \<subseteq> set (drop ?n r)"
    "sf_copy_entries mp old (length es) ((pre @ ?x) @ drop ?n r) (length (pre @ ?x))
      (length (opre @ sf_enc_entry (sf_v5 mp) oi8 e)) =
     Some ((pre @ ?x) @ sf_enc_entries (sf_v5 mp) i8 es' @
       drop (length (sf_enc_entries (sf_v5 mp) i8 es)) (drop ?n r))"
    using Cons.IH [OF at(2) i8 _ oks room(2)] Cons.prems(3) by auto
  have "list_all2 sf_same (e # es) (?e # es')" using es'(1) by (simp add: sf_same_def)
  moreover have "se_ftype ` set (?e # es') \<subseteq> set r"
    using ft es'(2) set_drop_subset [of ?n r] by auto
  moreover have "sf_copy_entries mp old (length (e # es)) (pre @ r) (length pre) (length opre) =
     Some ((pre @ ?x) @ sf_enc_entries (sf_v5 mp) i8 es' @
       drop (length (sf_enc_entries (sf_v5 mp) i8 es)) (drop ?n r))"
    using es'(3) sf_at_nextentry [OF at'] by (simp del: length_append add: s fill)
  ultimately show ?case
    by (intro exI [of _ "?e # es'"]) (simp add: add.commute)
qed

definition ino_size :: "nat \<Rightarrow> int" where
  "ino_size i8 = (if i8 = 0 then 4 else 8)"

lemma length_enc_entries_i8:
  "int (length (sf_enc_entries v5 j es)) =
   int (length (sf_enc_entries v5 i es)) + int (length es) * (ino_size j - ino_size i)"
  by (induction es)
    (auto simp: xfs_dir3_sf_entsize_def xfs_dir2_sf_entsize_def ino_size_def algebra_simps)

lemma length_encode:
  "int (length (sf_encode v5 sd)) =
   2 + ino_size (sd_i8 sd) + int (length (sf_enc_entries v5 (sd_i8 sd) (sd_entries sd)))"
  by (simp add: sf_encode_def ino_size_def)

text \<open>What the operations keep of an inode: everything but size, data fork and log flags.\<close>

definition same_inode :: "xfs_inode \<Rightarrow> xfs_inode \<Rightarrow> bool" where
  "same_inode dp dp' \<longleftrightarrow> i_ino dp' = i_ino dp \<and>
     (\<exists>sz. i_d dp' = (i_d dp)\<lparr>di_size := sz\<rparr>)"

lemma same_inode_refl [simp]: "same_inode dp dp"
  by (auto simp: same_inode_def intro: exI [of _ "di_size (i_d dp)"])

lemma same_inode_trans: "same_inode a b \<Longrightarrow> same_inode b c \<Longrightarrow> same_inode a c"
  by (auto simp: same_inode_def)

lemma sf_holds_if_bytes: "sf_holds mp dp sd \<Longrightarrow> 0 < if_bytes (i_df dp)"
  by (auto simp: sf_holds_def sf_encode_def)

text \<open>The used bytes of the fork, as the conversion copies them.\<close>

lemma sf_holds_copy:
  assumes "sf_holds mp dp sd"
  shows "rd_bytes 0 (nat (if_bytes (i_df dp))) (if_data (i_df dp)) = Some (sf_encode (sf_v5 mp) sd)"
  using assms by (auto simp: sf_holds_def rd_bytes_def chunk_def)

text \<open>A fork whose data starts with an encoding.\<close>

lemma sf_holds_set:
  assumes f: "ifork_ok f" "if_data_ptr f \<noteq> DNull" and d: "length d = length (if_data f)"
    and enc: "d = sf_encode (sf_v5 mp) sd @ rest"
    and bytes: "if_bytes f = int (length (sf_encode (sf_v5 mp) sd))" and ok: "sf_dir_ok sd"
    and dp': "i_df dp' = set_if_data d f" "di_size (i_d dp') = if_bytes f"
  shows "sf_holds mp dp' sd"
proof -
  have "ifork_ok (set_if_data d f)"
    using f d by (cases "if_data_ptr f") (auto simp: ifork_ok_def set_if_data_def if_data_def)
  then show ?thesis
    using assms by (simp add: sf_holds_def if_data_set)
qed

lemma sf_encode_accessors:
  assumes "sf_dir_ok sd"
  shows "sf_count (sf_encode v5 sd @ rest) = Some (length (sd_entries sd))"
    and "sf_i8count (sf_encode v5 sd @ rest) = Some (sd_i8 sd)"
    and "xfs_dir2_sf_get_inumber (sf_encode v5 sd @ rest) 2 = Some (sd_parent sd)"
    and "xfs_dir2_sf_firstentry (sf_encode v5 sd @ rest) = Some (xfs_dir2_sf_hdr_size (sd_i8 sd))"
proof -
  have h: "sf_hdr (length (sd_entries sd)) (sd_i8 sd) (sf_encode v5 sd @ rest)"
    using assms unfolding sf_encode_def append_assoc
    by (intro sf_hdr_append) (simp_all add: sf_dir_ok_def)
  then show "sf_count (sf_encode v5 sd @ rest) = Some (length (sd_entries sd))"
    and i8: "sf_i8count (sf_encode v5 sd @ rest) = Some (sd_i8 sd)"
    by (simp_all add: sf_hdr_def)
  show "xfs_dir2_sf_get_inumber (sf_encode v5 sd @ rest) 2 = Some (sd_parent sd)"
    by (rule sf_get_inumber_at [OF i8, where pre = "be_bytes 1 (length (sd_entries sd)) @
          be_bytes 1 (sd_i8 sd)" and post = "sf_enc_entries v5 (sd_i8 sd) (sd_entries sd) @ rest"])
      (use assms in \<open>simp_all add: sf_encode_def sf_dir_ok_def\<close>)
  show "xfs_dir2_sf_firstentry (sf_encode v5 sd @ rest) = Some (xfs_dir2_sf_hdr_size (sd_i8 sd))"
    using i8 by (simp add: xfs_dir2_sf_firstentry_def)
qed

lemma sf_encode_entries_at:
  assumes "sf_dir_ok sd"
  shows "sf_entries_at mp (sf_encode (sf_v5 mp) sd)
    (be_bytes 1 (length (sd_entries sd)) @ be_bytes 1 (sd_i8 sd) @ sf_enc_ino (sd_i8 sd) (sd_parent sd))
    (sd_i8 sd) (sd_entries sd) []"
  using assms sf_encode_accessors(2) [OF assms, of "sf_v5 mp" "[]"]
  by (simp add: sf_entries_at_def sf_encode_def sf_dir_ok_def)

text \<open>The header the conversion writes.\<close>

lemma sf_write_header:
  assumes "cnt < 256" "i8 < 256" "ino_fits i8 parent" "2 + ino_size i8 \<le> int (length d)"
  shows "do { d \<leftarrow> wr_be 1 cnt 0 d; d \<leftarrow> wr_be 1 i8 1 d; xfs_dir2_sf_put_inumber d parent 2 } =
    Some ((be_bytes 1 cnt @ be_bytes 1 i8 @ sf_enc_ino i8 parent) @ drop (2 + nat (ino_size i8)) d)"
proof -
  have l: "length (sf_enc_ino i8 parent) = nat (ino_size i8)" by (simp add: ino_size_def)
  have len: "2 + nat (ino_size i8) \<le> length d" using assms(4) by (simp add: ino_size_def split: if_splits)
  have a: "wr_be 1 cnt 0 d = Some (be_bytes 1 cnt @ drop 1 d)"
    using wr_be_append [of "[]" 0 1 d cnt] len by simp
  have b: "wr_be 1 i8 1 (be_bytes 1 cnt @ drop 1 d) =
      Some ((be_bytes 1 cnt @ be_bytes 1 i8) @ drop 2 d)"
    using wr_be_append [of "be_bytes 1 cnt" 1 1 "drop 1 d" i8] len by (simp add: numeral_eq_Suc)
  have i8: "sf_i8count ((be_bytes 1 cnt @ be_bytes 1 i8) @ drop 2 d) = Some i8"
    using sf_hdr_append [OF assms(1,2), of "drop 2 d"] by (simp add: sf_hdr_def)
  have c: "xfs_dir2_sf_put_inumber ((be_bytes 1 cnt @ be_bytes 1 i8) @ drop 2 d) parent 2 =
      Some ((be_bytes 1 cnt @ be_bytes 1 i8) @ sf_enc_ino i8 parent @
        drop (length (sf_enc_ino i8 parent)) (drop 2 d))"
    by (rule sf_put_inumber_append [OF i8]) (use assms len l in auto)
  then show ?thesis by (simp only: a b Option.bind.bind_lunit l append_assoc drop_drop add.commute)
qed

lemma sf_convert_ok:
  assumes h: "sf_holds mp dp sd" and j: "junk_ok junk" and i8: "i8 < 256"
    and fit: "ino_fits i8 (sd_parent sd)" "list_all (sf_entry_ok i8) (sd_entries sd)"
    and per: "per = ino_size i8 - ino_size (sd_i8 sd)"
  shows "\<exists>dp' es'. sf_convert junk mp i8 per dp = Some dp' \<and> list_all2 sf_same (sd_entries sd) es' \<and>
    sf_holds mp dp' (sd\<lparr>sd_i8 := i8, sd_entries := es'\<rparr>) \<and> same_inode dp dp' \<and>
    (32 < di_size (i_d dp') \<longrightarrow> (\<exists>n. se_ftype ` set es' \<subseteq> set (junk n)))"
proof -
  let ?old = "sf_encode (sf_v5 mp) sd" and ?es = "sd_entries sd"
  let ?v = "sf_v5 mp" and ?n = "int (length (sd_entries sd))"
  let ?new = "if_bytes (i_df dp) + (?n + 1) * per"
  let ?h = "be_bytes 1 (length ?es) @ be_bytes 1 i8 @ sf_enc_ino i8 (sd_parent sd)"
  have ok: "sf_dir_ok sd" and fk: "ifork_ok (i_df dp)"
    and sz: "if_bytes (i_df dp) = int (length ?old)"
    using h by (simp_all add: sf_holds_def)
  have cnt: "length ?es < 256" using ok by (simp add: sf_dir_ok_def)
  have new: "?new = 2 + ino_size i8 + int (length (sf_enc_entries ?v i8 ?es))"
    using length_enc_entries_i8 [of ?v i8 ?es "sd_i8 sd"]
    by (simp add: sz length_encode per algebra_simps)
  then have pos: "0 < ?new" by (simp add: ino_size_def)
  obtain e where e: "xfs_idata_realloc junk (i_df dp) (- if_bytes (i_df dp)) = Some e"
    "if_data_ptr e = DNull" "if_bytes e = 0" "if_inline_data e = if_inline_data (i_df dp)"
    using xfs_idata_realloc_empty [OF fk] by blast
  have "length (if_inline_data e) = 32" using e(4) fk by (simp add: ifork_ok_def)
  then obtain f where f: "xfs_idata_realloc junk e ?new = Some f" "if_bytes f = ?new"
    "if_data_ptr f \<noteq> DNull" "ifork_ok f" "nat ?new \<le> length (if_data f)"
    using xfs_idata_realloc_fresh [OF e(2,3) pos _ j] by blast
  let ?r = "drop (2 + nat (ino_size i8)) (if_data f)"
  have room: "length (sf_enc_entries ?v i8 ?es) \<le> length ?r" "2 + ino_size i8 \<le> int (length (if_data f))"
    using f(5) new by (simp_all add: ino_size_def split: if_splits)
  have hdr: "do { d \<leftarrow> wr_be 1 (length ?es) 0 (if_data f); d \<leftarrow> wr_be 1 i8 1 d;
      xfs_dir2_sf_put_inumber d (sd_parent sd) 2 } = Some (?h @ ?r)"
    by (rule sf_write_header [OF cnt i8 fit(1) room(2)])
  note old = sf_encode_accessors [OF ok, of ?v "[]", unfolded append_Nil2]
  have h8: "sf_i8count ?h = Some i8"
    using sf_hdr_append [OF cnt i8] by (simp add: sf_hdr_def)
  have lh: "length ?h = xfs_dir2_sf_hdr_size i8"
    by (simp add: xfs_dir2_sf_hdr_size_def)
  have first: "xfs_dir2_sf_firstentry (?h @ ?r) = Some (length ?h)"
    using h8 sf_i8count_prefix [of ?h] lh by (simp add: xfs_dir2_sf_firstentry_def)
  have h2: "2 \<le> length ?h" by simp
  have lo: "length (be_bytes 1 (length ?es) @ be_bytes 1 (sd_i8 sd) @
      sf_enc_ino (sd_i8 sd) (sd_parent sd)) = xfs_dir2_sf_hdr_size (sd_i8 sd)"
    by (simp add: xfs_dir2_sf_hdr_size_def)
  obtain es' where es': "list_all2 sf_same ?es es'" "se_ftype ` set es' \<subseteq> set ?r"
    "sf_copy_entries mp ?old (length ?es) (?h @ ?r) (length ?h) (xfs_dir2_sf_hdr_size (sd_i8 sd)) =
       Some (?h @ sf_enc_entries ?v i8 es' @ drop (length (sf_enc_entries ?v i8 ?es)) ?r)"
    using sf_copy_entries_ok [OF sf_encode_entries_at [OF ok] h8 h2 fit(2) room(1), unfolded lo] by blast
  let ?d = "?h @ sf_enc_entries ?v i8 es' @ drop (length (sf_enc_entries ?v i8 ?es)) ?r"
  let ?dp = "xfs_trans_log_inode (dp\<lparr>i_df := set_if_data ?d f, i_d := (i_d dp)\<lparr>di_size := ?new\<rparr>\<rparr>)
      (XFS_ILOG_CORE OR XFS_ILOG_DDATA)"
  let ?sd = "sd\<lparr>sd_i8 := i8, sd_entries := es'\<rparr>"
  have "sf_convert junk mp i8 per dp = Some ?dp"
  proof -
    obtain d1 d2 where d: "wr_be 1 (length ?es) 0 (if_data f) = Some d1" "wr_be 1 i8 1 d1 = Some d2"
      "xfs_dir2_sf_put_inumber d2 (sd_parent sd) 2 = Some (?h @ ?r)"
      using hdr by (auto simp: bind_eq_Some_conv)
    show ?thesis
      by (simp only: sf_convert_def Let_def sf_holds_copy [OF h] old e(1) f(1) d first es'(3)
          Option.bind.bind_lunit)
  qed
  moreover have "sf_holds mp ?dp ?sd"
  proof (rule sf_holds_set [OF f(4,3)])
    have len: "length (sf_enc_entries ?v i8 es') = length (sf_enc_entries ?v i8 ?es)"
      by (rule length_enc_entries_same [OF es'(1), symmetric])
    show "length ?d = length (if_data f)"
      using room len by (simp add: ino_size_def split: if_splits)
    show "?d = sf_encode ?v ?sd @ drop (length (sf_enc_entries ?v i8 ?es)) ?r"
      using list_all2_lengthD [OF es'(1)] by (simp add: sf_encode_def)
    show "if_bytes f = int (length (sf_encode ?v ?sd))"
      by (simp add: length_encode f(2) new len)
    show "sf_dir_ok ?sd"
      using ok i8 fit list_all2_lengthD [OF es'(1)] sf_same_list_ok [OF es'(1)]
      by (simp add: sf_dir_ok_def)
    show "i_df ?dp = set_if_data ?d f" "di_size (i_d ?dp) = if_bytes f"
      by (simp_all add: xfs_trans_log_inode_def f(2))
  qed
  moreover have "same_inode dp ?dp"
    by (auto simp: same_inode_def xfs_trans_log_inode_def)
  moreover have sz: "di_size (i_d ?dp) = ?new" by (simp add: xfs_trans_log_inode_def)
  moreover have "\<exists>n. se_ftype ` set es' \<subseteq> set (junk n)" if "32 < di_size (i_d ?dp)"
  proof -
    have "if_data f = junk (nat (((?new + 3) div 4) * 4))"
      using f(1) e(2,3) that unfolding sz by (auto simp: xfs_idata_realloc_def if_data_def Let_def)
    then show ?thesis using es'(2) set_drop_subset [of "2 + nat (ino_size i8)" "if_data f"] by auto
  qed
  ultimately show ?thesis using es'(1) by blast
qed

text \<open>On version 4 the file types do not matter, so the converted directory is the old one.\<close>

lemma sf_holds_same_v4:
  assumes "sf_holds mp dp (sd\<lparr>sd_entries := es'\<rparr>)" "list_all2 sf_same (sd_entries sd) es'" "\<not> sf_v5 mp"
  shows "sf_holds mp dp sd"
  using assms sf_same_enc_entries_v4 [OF assms(2), of "sd_i8 sd"] list_all2_lengthD [OF assms(2)]
    sf_same_list_ok [OF assms(2)]
  by (simp add: sf_holds_def sf_encode_def sf_dir_ok_def)

lemma short_fits: "ino_fits 0 ino \<Longrightarrow> ino_fits j ino"
  by (simp add: ino_fits_def)

lemma sf_toino8_ok:
  assumes h: "sf_holds mp dp sd" and j: "junk_ok junk" and z: "sd_i8 sd = 0"
  shows "\<exists>dp' es'. xfs_dir2_sf_toino8 junk mp dp = Some dp' \<and> list_all2 sf_same (sd_entries sd) es' \<and>
    sf_holds mp dp' (sd\<lparr>sd_i8 := 1, sd_entries := es'\<rparr>) \<and> same_inode dp dp' \<and>
    (32 < di_size (i_d dp') \<longrightarrow> (\<exists>n. se_ftype ` set es' \<subseteq> set (junk n)))"
proof -
  have "ino_fits 1 (sd_parent sd)" "list_all (sf_entry_ok 1) (sd_entries sd)"
    using h z by (auto simp: sf_holds_def sf_dir_ok_def list_all_iff sf_entry_ok_def
        intro: short_fits)
  then show ?thesis
    unfolding xfs_dir2_sf_toino8_def
    by (intro sf_convert_ok [OF h j]) (simp_all add: z ino_size_def)
qed

lemma sf_toino8_v4:
  assumes "sf_holds mp dp sd" "junk_ok junk" "sd_i8 sd = 0" "\<not> sf_v5 mp"
  shows "\<exists>dp'. xfs_dir2_sf_toino8 junk mp dp = Some dp' \<and> sf_holds mp dp' (sd\<lparr>sd_i8 := 1\<rparr>) \<and>
    same_inode dp dp'"
  using sf_toino8_ok [OF assms(1-3)] sf_holds_same_v4 [where sd = "sd\<lparr>sd_i8 := 1\<rparr>"] assms(4) by fastforce

lemma sf_toino4_v4:
  assumes h: "sf_holds mp dp sd" and j: "junk_ok junk" and nz: "sd_i8 sd \<noteq> 0"
    and fit: "ino_fits 0 (sd_parent sd)" "list_all (sf_entry_ok 0) (sd_entries sd)" and v4: "\<not> sf_v5 mp"
  shows "\<exists>dp'. xfs_dir2_sf_toino4 junk mp dp = Some dp' \<and> sf_holds mp dp' (sd\<lparr>sd_i8 := 0\<rparr>) \<and>
    same_inode dp dp'"
proof -
  have "- (8 - 4) = ino_size 0 - ino_size (sd_i8 sd)" using nz by (simp add: ino_size_def)
  from sf_convert_ok [OF h j _ fit this]
  obtain dp' es' where "xfs_dir2_sf_toino4 junk mp dp = Some dp'" "list_all2 sf_same (sd_entries sd) es'"
    "sf_holds mp dp' (sd\<lparr>sd_i8 := 0, sd_entries := es'\<rparr>)" "same_inode dp dp'"
    unfolding xfs_dir2_sf_toino4_def by auto
  then show ?thesis using sf_holds_same_v4 [where sd = "sd\<lparr>sd_i8 := 0\<rparr>"] v4 by auto
qed

text \<open>
  C26: Widening the inode numbers of a version 4 short-form directory and narrowing them again gives
  back a directory with the same parent and entries; both conversions stay within their buffers and
  change nothing else of the inode.
\<close>

theorem sf_toino_roundtrip:
  assumes "sf_holds mp dp sd" and "junk_ok junk" and "sd_i8 sd = 0" and "\<not> sf_v5 mp"
  shows "\<exists>dp8 dp4. xfs_dir2_sf_toino8 junk mp dp = Some dp8 \<and> sf_holds mp dp8 (sd\<lparr>sd_i8 := 1\<rparr>) \<and>
    xfs_dir2_sf_toino4 junk mp dp8 = Some dp4 \<and> sf_holds mp dp4 sd \<and> same_inode dp dp4"
proof -
  obtain dp8 where a: "xfs_dir2_sf_toino8 junk mp dp = Some dp8" "sf_holds mp dp8 (sd\<lparr>sd_i8 := 1\<rparr>)"
    "same_inode dp dp8"
    using sf_toino8_v4 [OF assms] by blast
  have "ino_fits 0 (sd_parent sd)" "list_all (sf_entry_ok 0) (sd_entries sd)"
    using assms(1,3) by (simp_all add: sf_holds_def sf_dir_ok_def)
  then obtain dp4 where b: "xfs_dir2_sf_toino4 junk mp dp8 = Some dp4"
    "sf_holds mp dp4 (sd\<lparr>sd_i8 := 1, sd_i8 := 0\<rparr>)" "same_inode dp8 dp4"
    using sf_toino4_v4 [OF a(2) assms(2) _ _ _ assms(4)] by auto
  have "sd\<lparr>sd_i8 := 1, sd_i8 := 0\<rparr> = sd" using assms(3) by simp
  then show ?thesis using a b same_inode_trans by metis
qed

definition sample_junk :: "u8 \<Rightarrow> nat \<Rightarrow> bytes" where
  "sample_junk b n = replicate n b"

lemma sample_junk_ok [simp]: "junk_ok (sample_junk b)"
  by (simp add: junk_ok_def sample_junk_def)

theorem sf_toino_roundtrip_witness:
  "sf_holds sample_mp (sample_sf_inode sample_mp sample_sd) sample_sd \<and>
   (\<exists>dp8 dp4. xfs_dir2_sf_toino8 (sample_junk 7) sample_mp (sample_sf_inode sample_mp sample_sd) = Some dp8 \<and>
     xfs_dir2_sf_toino4 (sample_junk 7) sample_mp dp8 = Some dp4 \<and> sf_holds sample_mp dp4 sample_sd)"
proof -
  have h: "sf_holds sample_mp (sample_sf_inode sample_mp sample_sd) sample_sd"
    by (rule sample_sf_holds [OF sample_sd_ok])
  have "sd_i8 sample_sd = 0" by (simp add: sample_sd_def)
  then show ?thesis using sf_toino_roundtrip [OF h sample_junk_ok _ sample_v4] h by blast
qed

text \<open>
  C38: On a version 5 directory whose widened form no longer fits the embedded buffer, the conversion
  replaces every file type by whatever the fresh memory held.
\<close>

theorem sf_toino8_v5_loses_ftype:
  assumes "sf_holds mp dp sd" and "sd_i8 sd = 0" and "sf_v5 mp"
    and "28 < if_bytes (i_df dp) + 4 * int (length (sd_entries sd))"
  shows "\<exists>dp' es'. xfs_dir2_sf_toino8 (\<lambda>n. replicate n b) mp dp = Some dp' \<and>
    sf_holds mp dp' (sd\<lparr>sd_i8 := 1, sd_entries := es'\<rparr>) \<and>
    map se_name es' = map se_name (sd_entries sd) \<and> map se_ftype es' = map (\<lambda>e. b) (sd_entries sd)"
proof -
  have j: "junk_ok (\<lambda>n. replicate n b)" by (simp add: junk_ok_def)
  obtain dp' es' where r: "xfs_dir2_sf_toino8 (\<lambda>n. replicate n b) mp dp = Some dp'"
    "list_all2 sf_same (sd_entries sd) es'" "sf_holds mp dp' (sd\<lparr>sd_i8 := 1, sd_entries := es'\<rparr>)"
    "32 < di_size (i_d dp') \<longrightarrow> (\<exists>n. se_ftype ` set es' \<subseteq> set (replicate n b))"
    using sf_toino8_ok [OF assms(1) j assms(2)] by blast
  have "if_bytes (i_df dp) = int (length (sf_encode (sf_v5 mp) sd))"
    using assms(1) by (simp add: sf_holds_def)
  moreover have "di_size (i_d dp') = int (length (sf_encode (sf_v5 mp) (sd\<lparr>sd_i8 := 1, sd_entries := es'\<rparr>)))"
    using r(3) by (simp add: sf_holds_def)
  ultimately have "32 < di_size (i_d dp')"
    using assms(2,4) length_enc_entries_i8 [of "sf_v5 mp" 1 es' 0] length_enc_entries_same [OF r(2)]
      list_all2_lengthD [OF r(2)] by (simp add: length_encode ino_size_def)
  then have b: "\<forall>e \<in> set es'. se_ftype e = b" using r(4) by (auto split: if_splits)
  have "map se_name es' = map se_name (sd_entries sd)"
    using r(2) by (induction rule: list_all2_induct) (simp_all add: sf_same_def)
  moreover have "map se_ftype es' = map (\<lambda>e. b) (sd_entries sd)"
    using b list_all2_lengthD [OF r(2)] by (simp add: list_eq_iff_nth_eq)
  ultimately show ?thesis using r(1,3) by blast
qed

theorem sf_toino8_v5_loses_ftype_witness:
  "\<exists>dp' es'. xfs_dir2_sf_toino8 (\<lambda>n. replicate n 0) sample_v5_mp
       (sample_sf_inode sample_v5_mp sample_sd) = Some dp' \<and>
     sf_holds sample_v5_mp dp' (sample_sd\<lparr>sd_i8 := 1, sd_entries := es'\<rparr>) \<and>
     map se_ftype es' = [0, 0] \<and> map se_ftype (sd_entries sample_sd) = [1, 2]"
proof -
  have "sd_i8 sample_sd = 0" by (simp add: sample_sd_def)
  moreover have "28 < if_bytes (i_df (sample_sf_inode sample_v5_mp sample_sd)) +
      4 * int (length (sd_entries sample_sd))"
    using sample_v5 by (simp add: sample_sf_inode_def length_encode sample_sd_def ino_size_def
        xfs_dir3_sf_entsize_def xfs_dir2_sf_entsize_def)
  ultimately show ?thesis
    using sf_toino8_v5_loses_ftype [OF sample_sf_holds [OF sample_sd_ok] _ sample_v5, where b = 0]
    by (fastforce simp: sample_sd_def)
qed

section \<open>Creation\<close>

definition xfs_dir2_sf_create :: "(nat \<Rightarrow> bytes) \<Rightarrow> xfs_inode \<Rightarrow> nat \<Rightarrow> xfs_inode option" where
  "xfs_dir2_sf_create junk dp pino =
    (let dp = (if di_format (i_d dp) = FMT_EXTENTS
        then (xfs_trans_log_inode (dp\<lparr>i_d := (i_d dp)\<lparr>di_format := FMT_LOCAL\<rparr>,
               i_df := (i_df dp)\<lparr>if_extents_read := False, if_inline := True\<rparr>\<rparr>) XFS_ILOG_CORE)
        else dp);
      i8count = (if pino > XFS_DIR2_MAX_SHORT_INUM then 1 else 0);
      size = int (xfs_dir2_sf_hdr_size i8count) in do {
        f \<leftarrow> xfs_idata_realloc junk (i_df dp) size;
        d \<leftarrow> wr_be 1 i8count 1 (if_data f);
        d \<leftarrow> xfs_dir2_sf_put_inumber d pino 2;
        d \<leftarrow> wr_be 1 0 0 d;
        Some (xfs_trans_log_inode
          (dp\<lparr>i_df := set_if_data d f, i_d := (i_d dp)\<lparr>di_size := size\<rparr>\<rparr>)
          (XFS_ILOG_CORE OR XFS_ILOG_DDATA)) })"

text \<open>The number of inode numbers that need 8 bytes, which \<open>i8count\<close> records.\<close>

definition big_ino :: "nat \<Rightarrow> bool" where
  "big_ino ino \<longleftrightarrow> XFS_DIR2_MAX_SHORT_INUM < ino"

definition i8_count :: "sf_dir \<Rightarrow> nat" where
  "i8_count sd = length (filter big_ino (sd_parent sd # map se_ino (sd_entries sd)))"

definition sf_i8_ok :: "sf_dir \<Rightarrow> bool" where
  "sf_i8_ok sd \<longleftrightarrow> sd_i8 sd = i8_count sd"

lemma sf_create_header:
  assumes "i8 < 256" "ino_fits i8 pino" "2 + ino_size i8 \<le> int (length x)"
  shows "do { d \<leftarrow> wr_be 1 i8 1 x; d \<leftarrow> xfs_dir2_sf_put_inumber d pino 2; wr_be 1 0 0 d } =
    Some ((be_bytes 1 0 @ be_bytes 1 i8 @ sf_enc_ino i8 pino) @ drop (2 + nat (ino_size i8)) x)"
proof -
  obtain a y where x: "x = [a] @ y" using assms(3) by (cases x) (auto simp: ino_size_def split: if_splits)
  have l: "length (sf_enc_ino i8 pino) = nat (ino_size i8)" by (simp add: ino_size_def)
  have len: "1 + nat (ino_size i8) \<le> length y"
    using assms(3) x by (simp add: ino_size_def split: if_splits)
  have a: "wr_be 1 i8 1 x = Some (([a] @ be_bytes 1 i8) @ drop 1 y)"
    using wr_be_append [of "[a]" 1 1 y i8] len x by simp
  have i8: "sf_i8count (([a] @ be_bytes 1 i8) @ drop 1 y) = Some i8"
    using rd_be_append [of "[a]" 1 1 i8 "drop 1 y"] assms(1) by (simp add: sf_i8count_def)
  have b: "xfs_dir2_sf_put_inumber (([a] @ be_bytes 1 i8) @ drop 1 y) pino 2 =
      Some (([a] @ be_bytes 1 i8) @ sf_enc_ino i8 pino @ drop (length (sf_enc_ino i8 pino)) (drop 1 y))"
    by (rule sf_put_inumber_append [OF i8]) (use assms len l in auto)
  have c: "wr_be 1 0 0 ([] @ [a] @ z) = Some (be_bytes 1 0 @ z)" for z
    using wr_be_append [of "[]" 0 1 "[a] @ z" 0] by simp
  have d: "drop (2 + nat (ino_size i8)) x = drop (nat (ino_size i8)) (drop 1 y)"
    unfolding x drop_drop by (simp add: add.commute)
  show ?thesis
    using b c [of "be_bytes 1 i8 @ sf_enc_ino i8 pino @ drop (length (sf_enc_ino i8 pino)) (drop 1 y)"]
    by (simp only: a d Option.bind.bind_lunit append_assoc append_Nil l)
qed

lemma idata_realloc_flags:
  "xfs_idata_realloc junk f n = Some f' \<Longrightarrow> if_inline f' = if_inline f \<and> if_extents_read f' = if_extents_read f"
  by (auto simp: xfs_idata_realloc_def Let_def bind_eq_Some_conv split: if_splits data_ptr.splits)

lemma set_if_data_flags [simp]:
  "if_inline (set_if_data d f) = if_inline f" "if_extents_read (set_if_data d f) = if_extents_read f"
  by (auto simp: set_if_data_def split: data_ptr.splits)



end
