(* ===== verification/Dir2_Sf_Replace.thy ===== *)
theory Dir2_Sf_Replace
  imports Dir2_Sf_Ops
begin

text \<open>
  Replacing the inode number of an entry of a short-form directory (\<open>xfs_dir2_sf_replace\<close>), with the
  changes between 4- and 8-byte numbers it entails. A directory that would outgrow the inode is
  handed to the block form; that outcome is the constructor \<open>SfToBlock\<close>.
\<close>

datatype sf_outcome = SfReturn "errno option" xfs_inode | SfToBlock xfs_inode

section \<open>The operation\<close>

text \<open>The loop that looks for an exactly matching name, also of \<open>xfs_dir2_sf_removename\<close>.\<close>

fun sf_find :: "xfs_mount \<Rightarrow> bytes \<Rightarrow> nat \<Rightarrow> nat \<Rightarrow> da_args \<Rightarrow> nat option option" where
  "sf_find mp d 0 sfep args = Some None"
| "sf_find mp d (Suc n) sfep args = do {
     nm \<leftarrow> sf_name d sfep;
     if xfs_da_compname args nm = XFS_CMP_EXACT then Some (Some sfep)
     else do { sfep' \<leftarrow> sf_nextentry mp d sfep; sf_find mp d n sfep' args } }"

definition sf_set_data :: "bytes \<Rightarrow> xfs_inode \<Rightarrow> xfs_inode" where
  "sf_set_data d dp = dp\<lparr>i_df := set_if_data d (i_df dp)\<rparr>"

text \<open>The end of the function: adjusting \<open>i8count\<close>, an 8-bit number.\<close>

definition sf_replace_finish ::
    "(nat \<Rightarrow> bytes) \<Rightarrow> xfs_mount \<Rightarrow> xfs_inode \<Rightarrow> da_args \<Rightarrow> nat \<Rightarrow> bool \<Rightarrow> sf_outcome option" where
  "sf_replace_finish junk mp dp args ino elevated = do {
     dp \<leftarrow> (if ino > XFS_DIR2_MAX_SHORT_INUM \<and> a_inumber args \<le> XFS_DIR2_MAX_SHORT_INUM then do {
              i8 \<leftarrow> sf_i8count (if_data (i_df dp));
              if i8 = 1 then xfs_dir2_sf_toino4 junk mp dp
              else do { d \<leftarrow> wr_be 1 (i8 + 255) 1 (if_data (i_df dp)); Some (sf_set_data d dp) } }
            else Some dp);
     dp \<leftarrow> (if ino \<le> XFS_DIR2_MAX_SHORT_INUM \<and> a_inumber args > XFS_DIR2_MAX_SHORT_INUM \<and> \<not> elevated
            then do {
              i8 \<leftarrow> sf_i8count (if_data (i_df dp));
              d \<leftarrow> wr_be 1 (i8 + 1) 1 (if_data (i_df dp));
              Some (sf_set_data d dp) }
            else Some dp);
     Some (SfReturn None (xfs_trans_log_inode dp XFS_ILOG_DDATA)) }"

definition sf_replace_entry ::
    "(nat \<Rightarrow> bytes) \<Rightarrow> xfs_mount \<Rightarrow> xfs_inode \<Rightarrow> da_args \<Rightarrow> bool \<Rightarrow> sf_outcome option" where
  "sf_replace_entry junk mp dp args elevated =
    (let d = if_data (i_df dp) in
     if a_name args = [46, 46] then do {
       ino \<leftarrow> xfs_dir2_sf_get_inumber d 2;
       d \<leftarrow> xfs_dir2_sf_put_inumber d (a_inumber args) 2;
       sf_replace_finish junk mp (sf_set_data d dp) args ino elevated }
     else do {
       cnt \<leftarrow> sf_count d;
       first \<leftarrow> xfs_dir2_sf_firstentry d;
       found \<leftarrow> sf_find mp d cnt first args;
       case found of
         None \<Rightarrow> do {
           dp \<leftarrow> (if elevated then xfs_dir2_sf_toino4 junk mp dp else Some dp);
           Some (SfReturn (Some ENOENT) dp) }
       | Some sfep \<Rightarrow> do {
           p2 \<leftarrow> xfs_dir2_sf_inumberp d sfep;
           ino \<leftarrow> xfs_dir2_sf_get_inumber d p2;
           p \<leftarrow> sf_inumberp mp d sfep;
           d \<leftarrow> xfs_dir2_sf_put_inumber d (a_inumber args) p;
           sf_replace_finish junk mp (sf_set_data d dp) args ino elevated } })"

definition xfs_dir2_sf_replace ::
    "(nat \<Rightarrow> bytes) \<Rightarrow> xfs_mount \<Rightarrow> xfs_inode \<Rightarrow> da_args \<Rightarrow> sf_outcome option" where
  "xfs_dir2_sf_replace junk mp dp args =
    (if di_size (i_d dp) < 2 then Some (SfReturn (Some EIO) dp)
     else do {
       i8 \<leftarrow> sf_i8count (if_data (i_df dp));
       if a_inumber args > XFS_DIR2_MAX_SHORT_INUM \<and> i8 = 0 then do {
         cnt \<leftarrow> sf_count (if_data (i_df dp));
         let newsize = if_bytes (i_df dp) + (int cnt + 1) * (8 - 4);
         if newsize > XFS_IFORK_DSIZE mp dp then Some (SfToBlock dp)
         else do {
           dp \<leftarrow> xfs_dir2_sf_toino8 junk mp dp;
           sf_replace_entry junk mp dp args True } }
       else sf_replace_entry junk mp dp args False })"

section \<open>Changing a stored directory in place\<close>

lemma sf_holds_data: "sf_holds mp dp sd \<Longrightarrow> \<exists>rest. if_data (i_df dp) = sf_encode (sf_v5 mp) sd @ rest"
  by (simp add: sf_holds_def)

lemma sf_holds_nonnull: "sf_holds mp dp sd \<Longrightarrow> if_data_ptr (i_df dp) \<noteq> DNull"
  using sf_holds_if_bytes [of mp dp sd] by (auto simp: sf_holds_def ifork_ok_def if_data_def)

lemma sf_holds_update:
  assumes h: "sf_holds mp dp sd" and d: "if_data (i_df dp) = sf_encode (sf_v5 mp) sd @ rest"
    and len: "length (sf_encode (sf_v5 mp) sd') = length (sf_encode (sf_v5 mp) sd)" and ok: "sf_dir_ok sd'"
  shows "sf_holds mp (sf_set_data (sf_encode (sf_v5 mp) sd' @ rest) dp) sd'"
  by (rule sf_holds_set [where f = "i_df dp", OF _ sf_holds_nonnull [OF h] _ refl])
    (use h d len ok in \<open>simp_all add: sf_holds_def sf_set_data_def\<close>)

lemma same_inode_set_data [simp]: "same_inode dp (sf_set_data d dp)"
  by (auto simp: same_inode_def sf_set_data_def intro: exI [of _ "di_size (i_d dp)"])

lemma sf_holds_log [simp]: "sf_holds mp (xfs_trans_log_inode dp flg) sd \<longleftrightarrow> sf_holds mp dp sd"
  by (simp add: sf_holds_def xfs_trans_log_inode_def)

lemma same_inode_log [simp]: "same_inode dp (xfs_trans_log_inode dp' flg) \<longleftrightarrow> same_inode dp dp'"
  by (simp add: same_inode_def xfs_trans_log_inode_def)

lemma sf_put_inumber_over:
  assumes "sf_i8count d = Some i8" and "d = pre @ sf_enc_ino i8 old @ post" and "off = length pre"
    and "ino_fits i8 ino"
  shows "xfs_dir2_sf_put_inumber d ino off = Some (pre @ sf_enc_ino i8 ino @ post)"
  using sf_put_inumber_append [of pre "sf_enc_ino i8 old @ post" i8 off ino] assms by simp

lemma sf_put_parent:
  assumes "sf_dir_ok sd" and "ino_fits (sd_i8 sd) ino"
  shows "xfs_dir2_sf_put_inumber (sf_encode v5 sd @ rest) ino 2 =
    Some (sf_encode v5 (sd\<lparr>sd_parent := ino\<rparr>) @ rest)"
  using sf_put_inumber_over [OF sf_encode_accessors(2) [OF assms(1)], of v5 rest
      "be_bytes 1 (length (sd_entries sd)) @ be_bytes 1 (sd_i8 sd)" "sd_parent sd"
      "sf_enc_entries v5 (sd_i8 sd) (sd_entries sd) @ rest" 2 ino] assms(2)
  by (simp add: sf_encode_def)

lemma sf_put_entry:
  assumes ok: "sf_dir_ok sd" and es: "sd_entries sd = as @ e # bs" and fit: "ino_fits (sd_i8 sd) ino"
    and off: "off = xfs_dir2_sf_hdr_size (sd_i8 sd) + length (sf_enc_entries v5 (sd_i8 sd) as) + 3 +
      length (se_name e) + of_bool v5"
  shows "xfs_dir2_sf_put_inumber (sf_encode v5 sd @ rest) ino off =
    Some (sf_encode v5 (sd\<lparr>sd_entries := as @ e\<lparr>se_ino := ino\<rparr> # bs\<rparr>) @ rest)"
proof -
  let ?pre = "be_bytes 1 (length (sd_entries sd)) @ be_bytes 1 (sd_i8 sd) @
        sf_enc_ino (sd_i8 sd) (sd_parent sd) @ sf_enc_entries v5 (sd_i8 sd) as @
        be_bytes 1 (length (se_name e)) @ be_bytes 2 (se_offset e) @ se_name e @
        (if v5 then [se_ftype e] else [])"
  have "sf_encode v5 sd @ rest =
      ?pre @ sf_enc_ino (sd_i8 sd) (se_ino e) @ sf_enc_entries v5 (sd_i8 sd) bs @ rest"
    by (simp add: sf_encode_def es sf_enc_entry_def)
  moreover have "off = length ?pre" by (auto simp: off xfs_dir2_sf_hdr_size_def)
  ultimately have "xfs_dir2_sf_put_inumber (sf_encode v5 sd @ rest) ino off =
      Some (?pre @ sf_enc_ino (sd_i8 sd) ino @ sf_enc_entries v5 (sd_i8 sd) bs @ rest)"
    using fit by (rule sf_put_inumber_over [OF sf_encode_accessors(2) [OF ok]])
  then show ?thesis by (simp add: sf_encode_def es sf_enc_entry_def)
qed

lemma sf_enc_wide: "i \<noteq> 0 \<Longrightarrow> j \<noteq> 0 \<Longrightarrow> sf_enc_entries v5 i es = sf_enc_entries v5 j es"
  by (induction es) (simp_all add: sf_enc_entry_def sf_enc_ino_def)

lemma sf_put_i8:
  assumes "sd_i8 sd \<noteq> 0" and "j mod 256 \<noteq> 0"
  shows "wr_be 1 j 1 (sf_encode v5 sd @ rest) = Some (sf_encode v5 (sd\<lparr>sd_i8 := j mod 256\<rparr>) @ rest)"
proof -
  have w: "wr_be 1 j 1 (be_bytes 1 n @ be_bytes 1 i @ x) = Some (be_bytes 1 n @ be_bytes 1 j @ x)" for n i x
    using wr_be_append [of "be_bytes 1 n" 1 1 "be_bytes 1 i @ x" j] by simp
  have b: "be_bytes 1 j = be_bytes 1 (j mod 256)"
  proof -
    have "be_bytes (Suc 0) j = [word_of_nat j]" "be_bytes (Suc 0) (j mod 256) = [word_of_nat (j mod 256)]"
      by (simp_all add: be_bytes.simps)
    moreover have "(word_of_nat (j mod 256) :: u8) = word_of_nat j"
      by (rule word_of_nat_eq_iff [THEN iffD2]) (simp add: take_bit_eq_mod)
    ultimately show ?thesis by simp
  qed
  show ?thesis
    using sf_enc_wide [OF assms, of v5 "sd_entries sd"] assms
    unfolding sf_encode_def append_assoc w b by (simp add: sf_enc_ino_def)
qed

lemma sf_find_ok:
  assumes "sf_entries_at mp d pre i8 es post"
  shows "(\<forall>e \<in> set es. se_name e \<noteq> a_name args) \<Longrightarrow>
      sf_find mp d (length es) (length pre) args = Some None"
    and "es = as @ e # bs \<Longrightarrow> se_name e = a_name args \<Longrightarrow> (\<forall>e \<in> set as. se_name e \<noteq> a_name args) \<Longrightarrow>
      sf_find mp d (length es) (length pre) args =
        Some (Some (length pre + length (sf_enc_entries (sf_v5 mp) i8 as)))"
  using assms
proof (induction es arbitrary: pre as)
  case Nil
  { case 1 then show ?case by simp }
  { case 2 then show ?case by simp }
next
  case (Cons f es)
  { case 1
    note at = sf_entries_at_Cons [OF 1(2)]
    show ?case using 1 Cons.IH(1) [OF _ at(2)]
      by (auto simp: sf_at_simps [OF at(1)] xfs_da_compname_def) }
  { case 2
    note at = sf_entries_at_Cons [OF 2(4)]
    show ?case
    proof (cases as)
      case Nil
      then show ?thesis using 2
        by (simp add: sf_at_simps [OF at(1)] xfs_da_compname_def)
    next
      case (Cons g as')
      then show ?thesis using 2 Cons.IH(2) [OF _ _ _ at(2), of as']
        by (auto simp: sf_at_simps [OF at(1)] xfs_da_compname_def)
    qed }
qed

section \<open>What a replacement does\<close>

text \<open>The directory with the inode number of a name replaced, if the name is there.\<close>

fun replace_first :: "bytes \<Rightarrow> nat \<Rightarrow> sf_entry list \<Rightarrow> sf_entry list option" where
  "replace_first nm ino [] = None"
| "replace_first nm ino (e # es) =
     (if se_name e = nm then Some (e\<lparr>se_ino := ino\<rparr> # es)
      else map_option ((#) e) (replace_first nm ino es))"

definition sf_replace_spec :: "bytes \<Rightarrow> nat \<Rightarrow> sf_dir \<Rightarrow> sf_dir option" where
  "sf_replace_spec nm ino sd =
     map_option (\<lambda>sd'. sd'\<lparr>sd_i8 := i8_count sd'\<rparr>)
       (if nm = [46, 46] then Some (sd\<lparr>sd_parent := ino\<rparr>)
        else map_option (\<lambda>es. sd\<lparr>sd_entries := es\<rparr>) (replace_first nm ino (sd_entries sd)))"

lemma replace_first_split:
  "replace_first nm ino es = (if \<forall>e \<in> set es. se_name e \<noteq> nm then None
     else Some (takeWhile (\<lambda>e. se_name e \<noteq> nm) es @
       (hd (dropWhile (\<lambda>e. se_name e \<noteq> nm) es))\<lparr>se_ino := ino\<rparr> #
        tl (dropWhile (\<lambda>e. se_name e \<noteq> nm) es)))"
  by (induction es) auto

lemma split_first:
  assumes "\<exists>e \<in> set es. se_name e = nm"
  obtains as e bs where "es = as @ e # bs" "se_name e = nm" "\<forall>e \<in> set as. se_name e \<noteq> nm"
    "\<And>ino. replace_first nm ino es = Some (as @ e\<lparr>se_ino := ino\<rparr> # bs)"
proof -
  obtain as e bs where s: "es = as @ e # bs" "se_name e = nm" "\<forall>e \<in> set as. se_name e \<noteq> nm"
    using split_list_first_prop [of es "\<lambda>e. se_name e = nm"] assms by blast
  moreover have "replace_first nm ino es = Some (as @ e\<lparr>se_ino := ino\<rparr> # bs)" for ino
    using s(2,3) unfolding s(1) by (induction as) auto
  ultimately show thesis using that by blast
qed

text \<open>A directory whose inode numbers are all below 2^56.\<close>

definition inos_ok :: "sf_dir \<Rightarrow> bool" where
  "inos_ok sd \<longleftrightarrow> sd_parent sd < 256 ^ 7 \<and> list_all (\<lambda>e. se_ino e < 256 ^ 7) (sd_entries sd)"

definition names_ok :: "sf_dir \<Rightarrow> bool" where
  "names_ok sd \<longleftrightarrow> length (sd_entries sd) < 255 \<and>
     list_all (\<lambda>e. length (se_name e) < 256 \<and> se_offset e < 65536) (sd_entries sd)"

lemma sf_dir_ok_wide: "sd_i8 sd \<noteq> 0 \<Longrightarrow> sd_i8 sd < 256 \<Longrightarrow> names_ok sd \<Longrightarrow> inos_ok sd \<Longrightarrow> sf_dir_ok sd"
  by (auto simp: sf_dir_ok_def names_ok_def inos_ok_def list_all_iff sf_entry_ok_def ino_fits_def)

lemma sf_dir_okD: "sf_dir_ok sd \<Longrightarrow> inos_ok sd"
  by (auto simp: sf_dir_ok_def inos_ok_def list_all_iff sf_entry_ok_def ino_fits_def split: if_splits)

lemma i8_count_bound: "names_ok sd \<Longrightarrow> i8_count sd < 256"
  using length_filter_le [of big_ino "sd_parent sd # map se_ino (sd_entries sd)"]
  by (simp add: i8_count_def names_ok_def)

lemma not_big: "\<not> big_ino ino \<longleftrightarrow> ino < 256 ^ 4"
  by (auto simp: big_ino_def XFS_DIR2_MAX_SHORT_INUM_def)

lemma i8_count_zero_fits:
  assumes "i8_count sd = 0"
  shows "ino_fits 0 (sd_parent sd)" and "names_ok sd \<Longrightarrow> list_all (sf_entry_ok 0) (sd_entries sd)"
  using assms
  by (auto simp: i8_count_def ino_fits_def not_big names_ok_def list_all_iff sf_entry_ok_def
      filter_empty_conv split: if_splits)

text \<open>
  The end of a replacement: the new number \<open>a_inumber args\<close> is in place (\<open>sd'\<close>, stored wide when any
  number is wide) and the recorded count is still the one from before, or 1 after a widening.
\<close>

lemma sf_replace_finish_ok:
  assumes h: "sf_holds mp dp sd'" and v4: "\<not> sf_v5 mp" and j: "junk_ok junk" and n: "names_ok sd'"
    and cnt: "sd_i8 sd' + of_bool (big_ino (a_inumber args)) =
      i8_count sd' + of_bool (big_ino ino) + of_bool elevated"
    and el: "elevated \<Longrightarrow> big_ino (a_inumber args) \<and> \<not> big_ino ino"
    and nz: "sd_i8 sd' = 0 \<Longrightarrow> \<not> big_ino (a_inumber args)"
  shows "\<exists>dp'. sf_replace_finish junk mp dp args ino elevated = Some (SfReturn None dp') \<and>
    sf_holds mp dp' (sd'\<lparr>sd_i8 := i8_count sd'\<rparr>) \<and> same_inode dp dp'"
proof -
  have ok: "sf_dir_ok sd'" using h by (simp add: sf_holds_def)
  obtain rest where d: "if_data (i_df dp) = sf_encode (sf_v5 mp) sd' @ rest"
    using sf_holds_data [OF h] by blast
  have i8: "sf_i8count (if_data (i_df dp)) = Some (sd_i8 sd')"
    unfolding d by (rule sf_encode_accessors(2) [OF ok])
  have b: "i8_count sd' < 256" by (rule i8_count_bound [OF n])
  have put: "wr_be 1 k 1 (if_data (i_df dp)) =
        Some (sf_encode (sf_v5 mp) (sd'\<lparr>sd_i8 := k mod 256\<rparr>) @ rest)"
      "sf_holds mp (sf_set_data (sf_encode (sf_v5 mp) (sd'\<lparr>sd_i8 := k mod 256\<rparr>) @ rest) dp)
        (sd'\<lparr>sd_i8 := k mod 256\<rparr>)"
    if k: "k mod 256 \<noteq> 0" "sd_i8 sd' \<noteq> 0" for k
  proof -
    show "wr_be 1 k 1 (if_data (i_df dp)) = Some (sf_encode (sf_v5 mp) (sd'\<lparr>sd_i8 := k mod 256\<rparr>) @ rest)"
      unfolding d by (rule sf_put_i8 [OF k(2,1)])
    have "sf_dir_ok (sd'\<lparr>sd_i8 := k mod 256\<rparr>)"
      using k sf_dir_okD [OF ok] n by (intro sf_dir_ok_wide) (simp_all add: names_ok_def inos_ok_def)
    then show "sf_holds mp (sf_set_data (sf_encode (sf_v5 mp) (sd'\<lparr>sd_i8 := k mod 256\<rparr>) @ rest) dp)
        (sd'\<lparr>sd_i8 := k mod 256\<rparr>)"
      using k by (intro sf_holds_update [OF h d])
        (simp_all add: sf_encode_def sf_enc_wide [of "sd_i8 sd'" "k mod 256"])
  qed
  consider (narrow) "big_ino ino" "\<not> big_ino (a_inumber args)" "sd_i8 sd' = 1"
    | (less) "big_ino ino" "\<not> big_ino (a_inumber args)" "sd_i8 sd' \<noteq> 1"
    | (more) "\<not> big_ino ino" "big_ino (a_inumber args)" "\<not> elevated"
    | (same) "big_ino ino = big_ino (a_inumber args) \<or> elevated"
    by blast
  then show ?thesis
  proof cases
    case narrow
    then have z: "i8_count sd' = 0" using cnt el by (auto split: if_splits)
    have nz': "sd_i8 sd' \<noteq> 0" using narrow(3) by simp
    obtain dp' where "xfs_dir2_sf_toino4 junk mp dp = Some dp'" "sf_holds mp dp' (sd'\<lparr>sd_i8 := 0\<rparr>)"
      "same_inode dp dp'"
      using sf_toino4_v4 [OF h j nz' i8_count_zero_fits(1) [OF z] i8_count_zero_fits(2) [OF z n] v4]
      by blast
    then show ?thesis
      using narrow i8 z by (simp add: sf_replace_finish_def big_ino_def not_less)
  next
    case less
    then have c: "sd_i8 sd' = i8_count sd' + 1" "sd_i8 sd' \<noteq> 0" "i8_count sd' \<noteq> 0" using cnt el by auto
    have m: "(sd_i8 sd' + 255) mod 256 = i8_count sd'" using c(1) b by (simp add: mod_add_eq)
    show ?thesis
      using put [of "sd_i8 sd' + 255"] less c(2,3) i8 unfolding m
      by (simp add: sf_replace_finish_def big_ino_def not_less)
  next
    case more
    then have c: "sd_i8 sd' + 1 = i8_count sd'" "sd_i8 sd' \<noteq> 0" using cnt nz by auto
    have m: "(sd_i8 sd' + 1) mod 256 = i8_count sd'" using c(1) b by simp
    show ?thesis
      using put [of "sd_i8 sd' + 1"] more c i8 unfolding m
      by (simp add: sf_replace_finish_def big_ino_def not_less)
  next
    case same
    then have c: "sd_i8 sd' = i8_count sd'" using cnt el by (auto split: if_splits)
    show ?thesis
      using same el h unfolding sf_replace_finish_def
      by (auto simp: big_ino_def not_less c [symmetric] not_le)
  qed
qed

lemma i8_count_parent:
  "i8_count (sd\<lparr>sd_parent := ino\<rparr>) + of_bool (big_ino (sd_parent sd)) = i8_count sd + of_bool (big_ino ino)"
  by (simp add: i8_count_def)

lemma i8_count_entry:
  "sd_entries sd = as @ e # bs \<Longrightarrow>
   i8_count (sd\<lparr>sd_entries := as @ e\<lparr>se_ino := ino\<rparr> # bs\<rparr>) + of_bool (big_ino (se_ino e)) =
   i8_count sd + of_bool (big_ino ino)"
  by (simp add: i8_count_def)

lemma i8_count_member: "i8_count sd = 0 \<Longrightarrow> \<not> big_ino (sd_parent sd)"
  "i8_count sd = 0 \<Longrightarrow> e \<in> set (sd_entries sd) \<Longrightarrow> \<not> big_ino (se_ino e)"
  by (auto simp: i8_count_def filter_empty_conv split: if_splits)

lemma sf_put_back_ok:
  assumes h: "sf_holds mp dp sd" and d: "if_data (i_df dp) = sf_encode (sf_v5 mp) sd @ rest"
    and p: "sd' = sd\<lparr>sd_parent := ino\<rparr> \<or>
      (\<exists>as e bs. sd_entries sd = as @ e # bs \<and> sd' = sd\<lparr>sd_entries := as @ e\<lparr>se_ino := ino\<rparr> # bs\<rparr>)"
    and fit: "ino_fits (sd_i8 sd) ino"
  shows "sf_holds mp (sf_set_data (sf_encode (sf_v5 mp) sd' @ rest) dp) sd'"
    and "names_ok sd \<Longrightarrow> names_ok sd'" and "sd_i8 sd' = sd_i8 sd"
proof -
  have ok: "sf_dir_ok sd" using h by (simp add: sf_holds_def)
  have "length (sf_encode (sf_v5 mp) sd') = length (sf_encode (sf_v5 mp) sd)"
    using p by (auto simp: sf_encode_def)
  moreover have "sf_dir_ok sd'"
    using p ok fit by (auto simp: sf_dir_ok_def sf_entry_ok_def)
  ultimately show "sf_holds mp (sf_set_data (sf_encode (sf_v5 mp) sd' @ rest) dp) sd'"
    by (rule sf_holds_update [OF h d])
  show "names_ok sd \<Longrightarrow> names_ok sd'" "sd_i8 sd' = sd_i8 sd"
    using p by (auto simp: names_ok_def)
qed

definition sf_replace_post ::
    "xfs_mount \<Rightarrow> xfs_inode \<Rightarrow> da_args \<Rightarrow> sf_dir \<Rightarrow> sf_outcome option \<Rightarrow> bool" where
  "sf_replace_post mp dp args sd r \<longleftrightarrow>
     (case sf_replace_spec (a_name args) (a_inumber args) sd of
        Some sd' \<Rightarrow> (\<exists>dp'. r = Some (SfReturn None dp') \<and> sf_holds mp dp' sd' \<and> sf_i8_ok sd' \<and>
           same_inode dp dp')
      | None \<Rightarrow> (\<exists>dp'. r = Some (SfReturn (Some ENOENT) dp') \<and> sf_holds mp dp' sd \<and> same_inode dp dp'))"

lemma sf_i8_ok_set: "sf_i8_ok (sd\<lparr>sd_i8 := i8_count sd\<rparr>)"
  by (simp add: sf_i8_ok_def i8_count_def)

lemma i8_count_i8 [simp]: "i8_count (sd\<lparr>sd_i8 := k\<rparr>) = i8_count sd"
  "i8_count (sd\<lparr>sd_i8 := k, sd_parent := p\<rparr>) = i8_count (sd\<lparr>sd_parent := p\<rparr>)"
  "i8_count (sd\<lparr>sd_i8 := k, sd_entries := es\<rparr>) = i8_count (sd\<lparr>sd_entries := es\<rparr>)"
  by (simp_all add: i8_count_def)

lemma sf_replace_entry_ok:
  assumes h: "sf_holds mp dp (sd\<lparr>sd_i8 := i8_count sd + of_bool elevated\<rparr>)" (is "sf_holds mp dp ?sd")
    and v4: "\<not> sf_v5 mp" and j: "junk_ok junk" and n: "names_ok sd" and i8: "sf_i8_ok sd"
    and small: "a_inumber args < 256 ^ 7"
    and el: "elevated \<Longrightarrow> big_ino (a_inumber args) \<and> i8_count sd = 0"
    and nz: "i8_count sd = 0 \<Longrightarrow> \<not> elevated \<Longrightarrow> \<not> big_ino (a_inumber args)"
  shows "sf_replace_post mp dp args sd (sf_replace_entry junk mp dp args elevated)"
proof -
  let ?ino = "a_inumber args" and ?nm = "a_name args"
  have ok: "sf_dir_ok ?sd" using h by (simp add: sf_holds_def)
  have n': "names_ok ?sd" using n by (simp add: names_ok_def)
  have fit: "ino_fits (sd_i8 ?sd) ?ino"
    using small nz el by (cases elevated) (auto simp: ino_fits_def not_big)
  obtain rest where d: "if_data (i_df dp) = sf_encode (sf_v5 mp) ?sd @ rest"
    using sf_holds_data [OF h] by blast
  note acc = sf_encode_accessors [OF ok, of "sf_v5 mp" rest, folded d]
  have fin: "\<exists>dp'. sf_replace_finish junk mp (sf_set_data (sf_encode (sf_v5 mp) sd' @ rest) dp) args old elevated =
      Some (SfReturn None dp') \<and> sf_holds mp dp' (sd'\<lparr>sd_i8 := i8_count sd'\<rparr>) \<and> same_inode dp dp'"
    if p: "sd' = ?sd\<lparr>sd_parent := ?ino\<rparr> \<and> old = sd_parent sd \<or>
      (\<exists>as e bs. sd_entries ?sd = as @ e # bs \<and> old = se_ino e \<and>
        sd' = ?sd\<lparr>sd_entries := as @ e\<lparr>se_ino := ?ino\<rparr> # bs\<rparr>)" for sd' old
  proof -
    have p': "sd' = ?sd\<lparr>sd_parent := ?ino\<rparr> \<or>
      (\<exists>as e bs. sd_entries ?sd = as @ e # bs \<and> sd' = ?sd\<lparr>sd_entries := as @ e\<lparr>se_ino := ?ino\<rparr> # bs\<rparr>)"
      using p by blast
    note pb = sf_put_back_ok [OF h d p' fit]
    have c: "i8_count sd' + of_bool (big_ino old) = i8_count sd + of_bool (big_ino ?ino)"
      using p
    proof (elim disjE exE conjE)
      assume "sd' = ?sd\<lparr>sd_parent := ?ino\<rparr>" "old = sd_parent sd"
      then show ?thesis using i8_count_parent [where sd = ?sd and ino = ?ino] by simp
    next
      fix as e bs assume "sd_entries ?sd = as @ e # bs" "old = se_ino e"
        "sd' = ?sd\<lparr>sd_entries := as @ e\<lparr>se_ino := ?ino\<rparr> # bs\<rparr>"
      then show ?thesis using i8_count_entry [where sd = ?sd and ino = ?ino] by simp
    qed
    have e: "big_ino ?ino \<and> \<not> big_ino old" if elevated
      using el [OF that] p i8_count_member [of sd] by auto
    show ?thesis
      using sf_replace_finish_ok [OF pb(1) v4 j pb(2) [OF n'], of args old elevated] c e nz pb(3)
        same_inode_trans [OF same_inode_set_data] by fastforce
  qed
  show ?thesis
  proof (cases "?nm = [46, 46]")
    case True
    have "sf_replace_entry junk mp dp args elevated = sf_replace_finish junk mp
        (sf_set_data (sf_encode (sf_v5 mp) (?sd\<lparr>sd_parent := ?ino\<rparr>) @ rest) dp) args (sd_parent sd) elevated"
      using True acc(3) sf_put_parent [OF ok fit, of "sf_v5 mp" rest, folded d]
      by (simp add: sf_replace_entry_def Let_def)
    then show ?thesis
      using fin [of "?sd\<lparr>sd_parent := ?ino\<rparr>" "sd_parent sd"] True
        sf_i8_ok_set [of "?sd\<lparr>sd_parent := ?ino\<rparr>"]
      by (simp add: sf_replace_post_def sf_replace_spec_def)
  next
    case dots: False
    obtain pre post where pre: "length pre = xfs_dir2_sf_hdr_size (sd_i8 ?sd)"
      and at: "sf_entries_at mp (if_data (i_df dp)) pre (sd_i8 ?sd) (sd_entries ?sd) post"
      using sf_holds_entries_at [OF h] by blast
    note find = sf_find_ok [OF at, where args = args, unfolded pre]
    show ?thesis
    proof (cases "\<exists>e \<in> set (sd_entries sd). se_name e = ?nm")
      case False
      have r: "replace_first ?nm ?ino (sd_entries sd) = None"
        using False by (auto simp: replace_first_split)
      have f: "sf_find mp (if_data (i_df dp)) (length (sd_entries ?sd))
          (xfs_dir2_sf_hdr_size (sd_i8 ?sd)) args = Some None"
        using find(1) False by auto
      have nf: "sf_replace_spec ?nm ?ino sd = None" using r dots by (simp add: sf_replace_spec_def)
      show ?thesis
      proof (cases elevated)
        case True
        then have z: "i8_count sd = 0" using el by blast
        have "sd_i8 ?sd \<noteq> 0" using True by simp
        moreover have "ino_fits 0 (sd_parent ?sd)" "list_all (sf_entry_ok 0) (sd_entries ?sd)"
          using i8_count_zero_fits [of ?sd] z n' by auto
        ultimately obtain dp' where "xfs_dir2_sf_toino4 junk mp dp = Some dp'"
          "sf_holds mp dp' (?sd\<lparr>sd_i8 := 0\<rparr>)" "same_inode dp dp'"
          using sf_toino4_v4 [OF h j _ _ _ v4] by blast
        moreover have "?sd\<lparr>sd_i8 := 0\<rparr> = sd" using i8 z by (simp add: sf_i8_ok_def)
        ultimately show ?thesis
          using dots True f acc nf by (simp add: sf_replace_post_def sf_replace_entry_def Let_def)
      next
        case nel: False
        have "?sd = sd" using i8 nel by (simp add: sf_i8_ok_def)
        then show ?thesis
          using dots nel f acc nf h by (simp add: sf_replace_post_def sf_replace_entry_def Let_def)
      qed
    next
      case True
      obtain as e bs where s: "sd_entries sd = as @ e # bs" "se_name e = ?nm"
        "\<forall>e \<in> set as. se_name e \<noteq> ?nm"
        "\<And>ino. replace_first ?nm ino (sd_entries sd) = Some (as @ e\<lparr>se_ino := ino\<rparr> # bs)"
        using split_first [OF True] by blast
      let ?pos = "xfs_dir2_sf_hdr_size (sd_i8 ?sd) + length (sf_enc_entries (sf_v5 mp) (sd_i8 ?sd) as)"
      have f: "sf_find mp (if_data (i_df dp)) (length (sd_entries ?sd))
          (xfs_dir2_sf_hdr_size (sd_i8 ?sd)) args = Some (Some ?pos)"
        using find(2) [where as = as and e = e and bs = bs] s by simp
      let ?pre = "pre @ sf_enc_entries (sf_v5 mp) (sd_i8 ?sd) as"
      have le: "length ?pre = ?pos" using pre by simp
      have eat: "sf_entry_at mp (if_data (i_df dp)) ?pre (sd_i8 ?sd) e
          (sf_enc_entries (sf_v5 mp) (sd_i8 ?sd) bs @ post)"
      proof -
        have es: "sd_entries ?sd = as @ e # bs" using s(1) by simp
        show ?thesis
          using at unfolding sf_entries_at_def sf_entry_at_def es sf_enc_entries_simps list_all_append
            list.pred_inject append_assoc by blast
      qed
      have ip: "sf_ino_pos mp ?pre e = ?pos + 3 + length (se_name e)" using le v4 by (simp add: sf_ino_pos_def)
      note ea = sf_at_v4(1) [OF eat v4] sf_at_inumberp [OF eat] sf_at_inumber [OF eat]
      have "sf_replace_entry junk mp dp args elevated = sf_replace_finish junk mp
        (sf_set_data (sf_encode (sf_v5 mp) (?sd\<lparr>sd_entries := as @ e\<lparr>se_ino := ?ino\<rparr> # bs\<rparr>) @ rest) dp)
        args (se_ino e) elevated"
        using dots f acc ea [unfolded le ip] v4
          sf_put_entry [OF ok _ fit, of as e bs _ "sf_v5 mp" rest, folded d] s(1)
        by (simp add: sf_replace_entry_def Let_def)
      moreover have "\<exists>as' e' bs'. sd_entries ?sd = as' @ e' # bs' \<and> se_ino e = se_ino e' \<and>
          ?sd\<lparr>sd_entries := as @ e\<lparr>se_ino := ?ino\<rparr> # bs\<rparr> =
          ?sd\<lparr>sd_entries := as' @ e'\<lparr>se_ino := ?ino\<rparr> # bs'\<rparr>"
        by (rule exI [of _ as], rule exI [of _ e], rule exI [of _ bs]) (simp add: s(1))
      ultimately show ?thesis
        using fin [OF disjI2, of "se_ino e" "?sd\<lparr>sd_entries := as @ e\<lparr>se_ino := ?ino\<rparr> # bs\<rparr>"] dots s(4)
          sf_i8_ok_set [of "?sd\<lparr>sd_entries := as @ e\<lparr>se_ino := ?ino\<rparr> # bs\<rparr>"]
        by (simp add: sf_replace_post_def sf_replace_spec_def)
    qed
  qed
qed

text \<open>A directory of narrow numbers that does not fit the data area once a wide number makes it widen.\<close>

definition sf_outgrows :: "xfs_mount \<Rightarrow> xfs_inode \<Rightarrow> nat \<Rightarrow> sf_dir \<Rightarrow> bool" where
  "sf_outgrows mp dp ino sd \<longleftrightarrow> big_ino ino \<and> i8_count sd = 0 \<and>
     XFS_IFORK_DSIZE mp dp < int (length (sf_encode (sf_v5 mp) (sd\<lparr>sd_i8 := 1\<rparr>)))"

lemma length_widened:
  assumes "sd_i8 sd = 0"
  shows "int (length (sf_encode v5 (sd\<lparr>sd_i8 := 1\<rparr>))) =
    int (length (sf_encode v5 sd)) + (int (length (sd_entries sd)) + 1) * 4"
  using assms length_enc_entries_i8 [of v5 1 "sd_entries sd" 0] by (simp add: length_encode ino_size_def)

text \<open>
  C20: Replacing the inode number of a name in a version 4 short-form directory. When the number is wide, the
  directory has none yet and would not fit the inode with wide numbers, the directory is handed to the block form as
  it is, whether it has the name or not. Otherwise the new number is stored at the first entry of the name (or at the
  parent for \<open>..\<close>) and nothing else, \<open>i8count\<close> stays the count of wide numbers through every widening and
  narrowing, and the directory is left as it was, with \<open>ENOENT\<close>, when the name is missing. The new number has at most 56
  bits, as all inode numbers of the format.
\<close>

theorem sf_replace_correct:
  assumes h: "sf_holds mp dp sd" and v4: "\<not> sf_v5 mp" and j: "junk_ok junk" and n: "names_ok sd"
    and i8: "sf_i8_ok sd" and small: "a_inumber args < 256 ^ 7"
  shows "if sf_outgrows mp dp (a_inumber args) sd then xfs_dir2_sf_replace junk mp dp args = Some (SfToBlock dp)
    else sf_replace_post mp dp args sd (xfs_dir2_sf_replace junk mp dp args)"
proof -
  have acc: "sf_i8count (if_data (i_df dp)) = Some (sd_i8 sd)"
    "sf_count (if_data (i_df dp)) = Some (length (sd_entries sd))"
    using sf_holds_hdr [OF h] by (simp_all add: sf_hdr_def)
  have size: "\<not> di_size (i_d dp) < 2" using sf_holds_size [OF h] by linarith
  have cnt: "sd_i8 sd = i8_count sd" using i8 by (simp add: sf_i8_ok_def)
  have bytes: "if_bytes (i_df dp) = int (length (sf_encode (sf_v5 mp) sd))" using h by (simp add: sf_holds_def)
  show ?thesis
  proof (cases "big_ino (a_inumber args) \<and> sd_i8 sd = 0")
    case wide: True
    note fit = length_widened [OF conjunct2 [OF wide], of "sf_v5 mp"]
    show ?thesis
    proof (cases "sf_outgrows mp dp (a_inumber args) sd")
      case True
      then show ?thesis
        using wide acc size fit bytes by (simp add: xfs_dir2_sf_replace_def sf_outgrows_def big_ino_def Let_def)
    next
      case nout: False
      then have fits: "if_bytes (i_df dp) + (int (length (sd_entries sd)) + 1) * 4 \<le> XFS_IFORK_DSIZE mp dp"
        using wide fit bytes cnt by (simp add: sf_outgrows_def)
      obtain dp8 where t: "xfs_dir2_sf_toino8 junk mp dp = Some dp8" "sf_holds mp dp8 (sd\<lparr>sd_i8 := 1\<rparr>)"
        "same_inode dp dp8"
        using sf_toino8_v4 [OF h j conjunct2 [OF wide] v4] by blast
      have "sf_replace_post mp dp8 args sd (sf_replace_entry junk mp dp8 args True)"
        by (rule sf_replace_entry_ok [OF _ v4 j n i8 small]) (use t(2) wide cnt in simp_all)
      moreover have "xfs_dir2_sf_replace junk mp dp args = sf_replace_entry junk mp dp8 args True"
        using wide acc size fits t(1) by (simp add: xfs_dir2_sf_replace_def big_ino_def Let_def)
      ultimately have "sf_replace_post mp dp args sd (xfs_dir2_sf_replace junk mp dp args)"
        using same_inode_trans [OF t(3)] unfolding sf_replace_post_def
        by (auto split: option.splits)
      then show ?thesis using nout by simp
    qed
  next
    case False
    have "sf_replace_post mp dp args sd (sf_replace_entry junk mp dp args False)"
      by (rule sf_replace_entry_ok [OF _ v4 j n i8 small]) (use h False cnt [symmetric] in simp_all)
    moreover have "xfs_dir2_sf_replace junk mp dp args = sf_replace_entry junk mp dp args False"
      using False acc size by (auto simp: xfs_dir2_sf_replace_def big_ino_def)
    moreover have "\<not> sf_outgrows mp dp (a_inumber args) sd" using False cnt by (simp add: sf_outgrows_def)
    ultimately show ?thesis by simp
  qed
qed

text \<open>A wide number enters a directory of narrow ones, which is widened.\<close>

theorem sf_replace_correct_witness:
  "\<exists>dp' sd'. xfs_dir2_sf_replace (sample_junk 3) sample_mp (sample_sf_inode sample_mp sample_sd)
       ((sample_args [99])\<lparr>a_inumber := 4294967300\<rparr>) = Some (SfReturn None dp') \<and>
     sf_holds sample_mp dp' sd' \<and> sd_i8 sd' = 1 \<and> map se_ino (sd_entries sd') = [131, 4294967300]"
proof -
  let ?args = "(sample_args [99])\<lparr>a_inumber := 4294967300\<rparr>"
  have h: "sf_holds sample_mp (sample_sf_inode sample_mp sample_sd) sample_sd"
    by (rule sample_sf_holds [OF sample_sd_ok])
  have n: "names_ok sample_sd" "sf_i8_ok sample_sd"
    by (simp_all add: names_ok_def sf_i8_ok_def i8_count_def sample_sd_def big_ino_def
        XFS_DIR2_MAX_SHORT_INUM_def)
  have f: "\<not> sf_outgrows sample_mp (sample_sf_inode sample_mp sample_sd) (a_inumber ?args) sample_sd"
    by (simp add: sf_outgrows_def sample_sf_inode_def XFS_IFORK_DSIZE_def length_encode sample_sd_def ino_size_def
        xfs_dir2_sf_entsize_def xfs_dir3_sf_entsize_def sample_v4)
  have "sf_replace_post sample_mp (sample_sf_inode sample_mp sample_sd) ?args sample_sd
      (xfs_dir2_sf_replace (sample_junk 3) sample_mp (sample_sf_inode sample_mp sample_sd) ?args)"
    using sf_replace_correct [OF h sample_v4 sample_junk_ok n, of ?args] f by simp
  then show ?thesis
    by (fastforce simp: sf_replace_post_def sf_replace_spec_def sample_args_def sample_sd_def
        i8_count_def big_ino_def XFS_DIR2_MAX_SHORT_INUM_def)
qed

end
