(* ===== verification/Dir2_Sf_Name.thy ===== *)
theory Dir2_Sf_Name
  imports Dir2_Sf_Replace
begin

text \<open>
  Inserting a name into a short-form directory and removing one (\<open>xfs_dir2_sf_addname\<close> with its
  three helpers, \<open>xfs_dir2_sf_removename\<close>). The placement decision is shown equal to one on the
  abstract list of entries; the sizes both operations compute are shown to be nine bytes off, since
  \<open>xfs_dir2_sf_entsize_byname\<close> still assumes an entry structure that contains the inode number.
\<close>

section \<open>Where a new name goes\<close>

fun sf_pick_loop ::
    "xfs_mount \<Rightarrow> bytes \<Rightarrow> nat \<Rightarrow> nat \<Rightarrow> int \<Rightarrow> int \<Rightarrow> bool \<Rightarrow> (nat \<times> int \<times> bool) option" where
  "sf_pick_loop mp d 0 sfep sz offset holefit = Some (sfep, offset, holefit)"
| "sf_pick_loop mp d (Suc n) sfep sz offset holefit = do {
     o16 \<leftarrow> xfs_dir2_sf_get_offset d sfep;
     nl \<leftarrow> sf_namelen d sfep;
     sfep' \<leftarrow> sf_nextentry mp d sfep;
     sf_pick_loop mp d n sfep' sz (int o16 + xfs_dir2_data_entsize (int nl))
       (holefit \<or> offset + sz \<le> int o16) }"

text \<open>The pick: 0 (does not fit), 1 (at the end, with place and offset), 2 (in a hole).\<close>

definition xfs_dir2_sf_addname_pick ::
    "xfs_mount \<Rightarrow> xfs_inode \<Rightarrow> da_args \<Rightarrow> bool \<Rightarrow> (nat \<times> nat \<times> int) option" where
  "xfs_dir2_sf_addname_pick mp dp args objchange = do {
     let d = if_data (i_df dp);
     let sz = xfs_dir2_data_entsize (int (length (a_name args)));
     first \<leftarrow> xfs_dir2_sf_firstentry d;
     cnt \<leftarrow> sf_count d;
     (sfep, offset, holefit) \<leftarrow> sf_pick_loop mp d cnt first sz XFS_DIR2_DATA_FIRST_OFFSET False;
     let used = offset + (int cnt + 3) * 8 + 8;
     if used + (if holefit then 0 else sz) > int (m_dirblksize mp) then Some (0, 0, 0)
     else if objchange then Some (2, 0, 0)
     else if used + sz > int (m_dirblksize mp) then Some (2, 0, 0)
     else Some (1, sfep, offset) }"

text \<open>The space the name takes in a data block.\<close>

definition name_size :: "da_args \<Rightarrow> int" where
  "name_size args = xfs_dir2_data_entsize (int (length (a_name args)))"

text \<open>The same on the abstract entries: a hole of a given sz, and the end of the data.\<close>

fun hole_fits :: "int \<Rightarrow> int \<Rightarrow> sf_entry list \<Rightarrow> bool" where
  "hole_fits sz off [] \<longleftrightarrow> False"
| "hole_fits sz off (e # es) \<longleftrightarrow> off + sz \<le> int (se_offset e) \<or>
     hole_fits sz (int (se_offset e) + xfs_dir2_data_entsize (int (length (se_name e)))) es"

fun data_end :: "int \<Rightarrow> sf_entry list \<Rightarrow> int" where
  "data_end off [] = off"
| "data_end off (e # es) =
     data_end (int (se_offset e) + xfs_dir2_data_entsize (int (length (se_name e)))) es"

lemma sf_pick_loop_ok:
  assumes "sf_entries_at mp d pre i8 es post"
  shows "sf_pick_loop mp d (length es) (length pre) sz off hole =
    Some (length pre + length (sf_enc_entries (sf_v5 mp) i8 es), data_end off es,
          hole \<or> hole_fits sz off es)"
  using assms
proof (induction es arbitrary: pre off hole)
  case Nil
  then show ?case by simp
next
  case (Cons e es)
  note at = sf_entries_at_Cons [OF Cons.prems]
  show ?case
    using Cons.IH [OF at(2), unfolded length_append]
    by (simp add: sf_at_simps [OF at(1)] add.assoc disj_assoc)
qed

text \<open>A hole is room in front of an entry, behind the one before it.\<close>

lemma hole_fits_iff:
  "hole_fits sz off es \<longleftrightarrow> (\<exists>as e bs. es = as @ e # bs \<and> data_end off as + sz \<le> int (se_offset e))"
proof (induction es arbitrary: off)
  case (Cons e es)
  let ?off = "int (se_offset e) + xfs_dir2_data_entsize (int (length (se_name e)))"
  have "(\<exists>as x bs. e # es = as @ x # bs \<and> data_end off as + sz \<le> int (se_offset x)) \<longleftrightarrow>
    off + sz \<le> int (se_offset e) \<or> (\<exists>as x bs. es = as @ x # bs \<and> data_end ?off as + sz \<le> int (se_offset x))"
    (is "?l \<longleftrightarrow> ?r")
  proof
    assume ?l
    then obtain as x bs where "e # es = as @ x # bs" "data_end off as + sz \<le> int (se_offset x)" by blast
    then show ?r by (cases as) auto
  next
    assume ?r
    then show ?l
    proof
      assume "off + sz \<le> int (se_offset e)"
      then show ?l by (intro exI [of _ "[]"]) simp
    next
      assume "\<exists>as x bs. es = as @ x # bs \<and> data_end ?off as + sz \<le> int (se_offset x)"
      then obtain as x bs where "es = as @ x # bs" "data_end ?off as + sz \<le> int (se_offset x)" by blast
      then show ?l by (intro exI [of _ "e # as"]) simp
    qed
  qed
  then show ?case using Cons.IH by simp
qed simp

text \<open>
  Where a directory with one more name has room in a block that ends with its leaf entries (those of \<open>.\<close>, \<open>..\<close> and
  the new name included) and the tail: behind the last entry, or in a hole.
\<close>

definition fits_behind :: "xfs_mount \<Rightarrow> int \<Rightarrow> sf_entry list \<Rightarrow> bool" where
  "fits_behind mp sz es \<longleftrightarrow> data_end 48 es + sz + (int (length es) + 3) * 8 + 8 \<le> int (m_dirblksize mp)"

definition fits_hole :: "xfs_mount \<Rightarrow> int \<Rightarrow> sf_entry list \<Rightarrow> bool" where
  "fits_hole mp sz es \<longleftrightarrow> hole_fits sz 48 es \<and> data_end 48 es + (int (length es) + 3) * 8 + 8 \<le> int (m_dirblksize mp)"

lemma sf_addname_pick_ok:
  assumes h: "sf_holds mp dp sd"
  shows "xfs_dir2_sf_addname_pick mp dp args objchange = Some
    (if fits_behind mp (name_size args) (sd_entries sd) \<and> \<not> objchange
     then (1, length (sf_encode (sf_v5 mp) sd), data_end 48 (sd_entries sd))
     else if fits_behind mp (name_size args) (sd_entries sd) \<or> fits_hole mp (name_size args) (sd_entries sd)
     then (2, 0, 0) else (0, 0, 0))"
proof -
  obtain pre post where pre: "length pre = xfs_dir2_sf_hdr_size (sd_i8 sd)"
    and at: "sf_entries_at mp (if_data (i_df dp)) pre (sd_i8 sd) (sd_entries sd) post"
    using sf_holds_entries_at [OF h] by blast
  have hdr: "sf_count (if_data (i_df dp)) = Some (length (sd_entries sd))"
    using sf_holds_hdr [OF h] by (simp add: sf_hdr_def)
  have first: "XFS_DIR2_DATA_FIRST_OFFSET = 48" by (simp add: data_offset_defs)
  have len: "length (sf_encode (sf_v5 mp) sd) =
      length pre + length (sf_enc_entries (sf_v5 mp) (sd_i8 sd) (sd_entries sd))"
    by (simp add: sf_encode_def pre xfs_dir2_sf_hdr_size_def)
  have pos: "0 \<le> name_size args"
    using entsize_bounds [of "int (length (a_name args))"] by (simp add: name_size_def)
  show ?thesis
    using sf_pick_loop_ok [OF at, unfolded pre] first pre pos
    by (auto simp: xfs_dir2_sf_addname_pick_def hdr sf_holds_firstentry [OF h] Let_def len fits_behind_def
        fits_hole_def simp flip: name_size_def)
qed

text \<open>
  C25: The choice of a place for a new name is exactly this one on the abstract entries: behind the last entry (1, with
  the position there and the offset of the end of the data) when it has room there and the inode numbers keep their
  width, even when there is a hole too; else the search for a hole (2) when it has room there or in a hole; and
  otherwise the name does not fit (0).
\<close>

theorem sf_addname_pick_correct:
  assumes h: "sf_holds mp dp sd"
  shows "xfs_dir2_sf_addname_pick mp dp args objchange = Some
    (if fits_behind mp (name_size args) (sd_entries sd) \<and> \<not> objchange
     then (1, length (sf_encode (sf_v5 mp) sd), data_end 48 (sd_entries sd))
     else if fits_behind mp (name_size args) (sd_entries sd) \<or> fits_hole mp (name_size args) (sd_entries sd)
     then (2, 0, 0) else (0, 0, 0))"
  by (rule sf_addname_pick_ok [OF h])

lemma sample_fits:
  "fits_behind sample_mp (name_size (sample_args [100])) (sd_entries sample_sd)" "data_end 48 (sd_entries sample_sd) = 80"
  "length (sf_encode False sample_sd) = 23"
proof -
  show "length (sf_encode False sample_sd) = 23"
    using length_encode [of False sample_sd]
    by (simp add: sample_sd_def ino_size_def xfs_dir2_sf_entsize_def)
qed (simp_all add: sample_sd_def fits_behind_def name_size_def sample_args_def xfs_dir2_data_entsize_def)

theorem sf_addname_pick_correct_witness:
  "xfs_dir2_sf_addname_pick sample_mp (sample_sf_inode sample_mp sample_sd) (sample_args [100]) False = Some (1, 23, 80)"
  using sf_addname_pick_correct [OF sample_sf_holds [OF sample_sd_ok], of sample_mp "sample_args [100]" False]
  by (simp add: sample_fits)

section \<open>Inserting a name\<close>

definition xfs_dir2_sf_addname_easy ::
    "(nat \<Rightarrow> bytes) \<Rightarrow> xfs_mount \<Rightarrow> xfs_inode \<Rightarrow> da_args \<Rightarrow> nat \<Rightarrow> int \<Rightarrow> int \<Rightarrow> xfs_inode option" where
  "xfs_dir2_sf_addname_easy junk mp dp args sfep offset new_isize = do {
     i8 \<leftarrow> sf_i8count (if_data (i_df dp));
     f \<leftarrow> xfs_idata_realloc junk (i_df dp) (xfs_dir2_sf_entsize_byname i8 (length (a_name args)));
     d \<leftarrow> sf_fill_entry mp (if_data f) sfep (a_name args) (nat offset) (a_inumber args);
     cnt \<leftarrow> sf_count d;
     d \<leftarrow> wr_be 1 (cnt + 1) 0 d;
     d \<leftarrow> (if a_inumber args > XFS_DIR2_MAX_SHORT_INUM
          then do { i8 \<leftarrow> sf_i8count d; wr_be 1 (i8 + 1) 1 d } else Some d);
     Some (dp\<lparr>i_df := set_if_data d f, i_d := (i_d dp)\<lparr>di_size := new_isize\<rparr>\<rparr>) }"

text \<open>
  The search for a hole. The loop computes the offset behind an entry only in its increment, after
  the pointer has moved on to the next entry, whose name length it then uses; behind the last entry
  that reads past the copied directory.
\<close>

partial_function (option) sf_hard_loop ::
    "xfs_mount \<Rightarrow> bytes \<Rightarrow> int \<Rightarrow> int \<Rightarrow> int \<Rightarrow> nat \<Rightarrow> (int \<times> nat \<times> bool) option" where
  "sf_hard_loop mp old old_isize add_datasize offset oldsfep =
    (if int oldsfep = old_isize then Some (offset, oldsfep, True)
     else do {
       o16 \<leftarrow> xfs_dir2_sf_get_offset old oldsfep;
       if offset + add_datasize \<le> int o16 then Some (offset, oldsfep, False)
       else do {
         oldsfep' \<leftarrow> sf_nextentry mp old oldsfep;
         nl \<leftarrow> sf_namelen old oldsfep';
         sf_hard_loop mp old old_isize add_datasize (int o16 + xfs_dir2_data_entsize (int nl)) oldsfep' } })"

definition xfs_dir2_sf_addname_hard ::
    "(nat \<Rightarrow> bytes) \<Rightarrow> xfs_mount \<Rightarrow> xfs_inode \<Rightarrow> da_args \<Rightarrow> bool \<Rightarrow> int \<Rightarrow> xfs_inode option" where
  "xfs_dir2_sf_addname_hard junk mp dp args objchange new_isize = do {
     let old_isize = to_s32 (di_size (i_d dp));
     old \<leftarrow> rd_bytes 0 (nat old_isize) (if_data (i_df dp));
     first \<leftarrow> xfs_dir2_sf_firstentry old;
     (offset, oldsfep, eof) \<leftarrow> sf_hard_loop mp old old_isize
        (xfs_dir2_data_entsize (int (length (a_name args)))) XFS_DIR2_DATA_FIRST_OFFSET first;
     f \<leftarrow> xfs_idata_realloc junk (i_df dp) (- old_isize);
     f \<leftarrow> xfs_idata_realloc junk f new_isize;
     let nbytes = oldsfep;
     src \<leftarrow> rd_bytes 0 nbytes old;
     d \<leftarrow> wr_bytes 0 src (if_data f);
     d \<leftarrow> sf_fill_entry mp d nbytes (a_name args) (nat offset) (a_inumber args);
     cnt \<leftarrow> sf_count d;
     d \<leftarrow> wr_be 1 (cnt + 1) 0 d;
     d \<leftarrow> (if a_inumber args > XFS_DIR2_MAX_SHORT_INUM \<and> \<not> objchange
          then do { i8 \<leftarrow> sf_i8count d; wr_be 1 (i8 + 1) 1 d } else Some d);
     d \<leftarrow> (if eof then Some d
          else do {
            sfep \<leftarrow> sf_nextentry mp d nbytes;
            rest \<leftarrow> rd_bytes oldsfep (nat (old_isize - int nbytes)) old;
            wr_bytes sfep rest d });
     Some (dp\<lparr>i_df := set_if_data d f, i_d := (i_d dp)\<lparr>di_size := new_isize\<rparr>\<rparr>) }"

definition xfs_dir2_sf_addname ::
    "(nat \<Rightarrow> bytes) \<Rightarrow> xfs_mount \<Rightarrow> xfs_inode \<Rightarrow> da_args \<Rightarrow> sf_outcome option" where
  "xfs_dir2_sf_addname junk mp dp args =
    (if di_size (i_d dp) < 2 then Some (SfReturn (Some EIO) dp)
     else do {
       i8 \<leftarrow> sf_i8count (if_data (i_df dp));
       cnt \<leftarrow> sf_count (if_data (i_df dp));
       let objchange = (a_inumber args > XFS_DIR2_MAX_SHORT_INUM \<and> i8 = 0);
       let incr_isize = xfs_dir2_sf_entsize_byname i8 (length (a_name args)) +
         (if objchange then (int cnt + 2) * (8 - 4) else 0);
       let new_isize = to_s32 (di_size (i_d dp)) + incr_isize;
       let no_fit = Some (if a_justcheck args \<or> a_total args = 0 then SfReturn (Some ENOSPC) dp
         else SfToBlock dp);
       if new_isize > XFS_IFORK_DSIZE mp dp then no_fit
       else do {
         (pick, sfep, offset) \<leftarrow> xfs_dir2_sf_addname_pick mp dp args objchange;
         if pick = 0 then no_fit
         else if a_justcheck args then Some (SfReturn None dp)
         else do {
           dp \<leftarrow> (if pick = 1 then xfs_dir2_sf_addname_easy junk mp dp args sfep offset new_isize
                else do {
                  dp \<leftarrow> (if objchange then xfs_dir2_sf_toino8 junk mp dp else Some dp);
                  xfs_dir2_sf_addname_hard junk mp dp args objchange new_isize });
           Some (SfReturn None (xfs_trans_log_inode dp (XFS_ILOG_CORE OR XFS_ILOG_DDATA))) } } })"

section \<open>Removing a name\<close>

text \<open>Sliding the rest over the entry at \<open>sfep\<close>, then the counts and the size.\<close>

definition sf_remove_at ::
    "(nat \<Rightarrow> bytes) \<Rightarrow> xfs_mount \<Rightarrow> xfs_inode \<Rightarrow> da_args \<Rightarrow> nat \<Rightarrow> sf_outcome option" where
  "sf_remove_at junk mp dp args sfep = do {
     let d = if_data (i_df dp);
     let oldsize = to_s32 (di_size (i_d dp));
     i8 \<leftarrow> sf_i8count d;
     let byteoff = int sfep;
     let entsize = xfs_dir2_sf_entsize_byname i8 (length (a_name args));
     let newsize = oldsize - entsize;
     d \<leftarrow> (if byteoff + entsize < oldsize
          then memcpy d byteoff d (byteoff + entsize) (oldsize - (byteoff + entsize)) else Some d);
     cnt \<leftarrow> sf_count d;
     d \<leftarrow> wr_be 1 (cnt + 255) 0 d;
     f \<leftarrow> xfs_idata_realloc junk (set_if_data d (i_df dp)) (newsize - oldsize);
     let dp = dp\<lparr>i_df := f, i_d := (i_d dp)\<lparr>di_size := newsize\<rparr>\<rparr>;
     dp \<leftarrow> (if a_inumber args > XFS_DIR2_MAX_SHORT_INUM then do {
            i8 \<leftarrow> sf_i8count (if_data (i_df dp));
            if i8 = 1 then xfs_dir2_sf_toino4 junk mp dp
            else do { d \<leftarrow> wr_be 1 (i8 + 255) 1 (if_data (i_df dp)); Some (sf_set_data d dp) } }
          else Some dp);
     Some (SfReturn None (xfs_trans_log_inode dp (XFS_ILOG_CORE OR XFS_ILOG_DDATA))) }"

definition xfs_dir2_sf_removename ::
    "(nat \<Rightarrow> bytes) \<Rightarrow> xfs_mount \<Rightarrow> xfs_inode \<Rightarrow> da_args \<Rightarrow> sf_outcome option" where
  "xfs_dir2_sf_removename junk mp dp args =
    (let d = if_data (i_df dp) in
     if to_s32 (di_size (i_d dp)) < 2 then Some (SfReturn (Some EIO) dp)
     else do {
       cnt \<leftarrow> sf_count d;
       first \<leftarrow> xfs_dir2_sf_firstentry d;
       found \<leftarrow> sf_find mp d cnt first args;
       case found of
         None \<Rightarrow> Some (SfReturn (Some ENOENT) dp)
       | Some sfep \<Rightarrow> sf_remove_at junk mp dp args sfep })"

section \<open>The sizes are nine bytes off\<close>

lemma entsize_byname_value:
  "len < 65536 \<Longrightarrow> xfs_dir2_sf_entsize_byname i8 len = int len + (if i8 = 0 then - 2 else 2)"
proof -
  assume len: "len < 65536"
  have w: "to_s32 (to_u32 x) = x" if "- 2 \<le> x" "x < 70000" for x
  proof -
    have "to_u32 x = take_bit (Suc 31) x" by (simp add: to_u32_def take_bit_eq_mod)
    then have "to_s32 (to_u32 x) = signed_take_bit 31 x"
      by (simp only: to_s32_def signed_take_bit_eq_iff_take_bit_eq take_bit_take_bit min.idem)
    then show ?thesis using that by (simp add: signed_take_bit_int_eq_self)
  qed
  show ?thesis using len w [of "int len - 2"] w [of "int len + 2"]
    by (simp add: xfs_dir2_sf_entsize_byname_def)
qed

text \<open>Against the size the entries really have (\<open>xfs_dir2_sf_entsize\<close>).\<close>

lemma entsize_byname_short:
  "len < 65536 \<Longrightarrow> xfs_dir2_sf_entsize_byname i8 len = int (xfs_dir2_sf_entsize i8 len) - 9"
  by (simp add: entsize_byname_value xfs_dir2_sf_entsize_def)

lemma int_entsize: "int (xfs_dir2_sf_entsize i8 len) = 3 + int len + ino_size i8"
  by (simp add: xfs_dir2_sf_entsize_def ino_size_def)

lemma sf_addname_easy_size:
  "xfs_dir2_sf_addname_easy junk mp dp args sfep off n = Some dp' \<Longrightarrow> di_size (i_d dp') = n"
  by (auto simp: xfs_dir2_sf_addname_easy_def bind_eq_Some_conv)

lemma sf_addname_hard_size:
  "xfs_dir2_sf_addname_hard junk mp dp args oc n = Some dp' \<Longrightarrow> di_size (i_d dp') = n"
  by (auto simp: xfs_dir2_sf_addname_hard_def Let_def bind_eq_Some_conv)

lemma sf_addname_new_size:
  assumes r: "xfs_dir2_sf_addname junk mp dp args = Some (SfReturn None dp')" and j: "\<not> a_justcheck args"
    and acc: "sf_i8count (if_data (i_df dp)) = Some i8" "sf_count (if_data (i_df dp)) = Some cnt"
  shows "di_size (i_d dp') = to_s32 (di_size (i_d dp)) +
    xfs_dir2_sf_entsize_byname i8 (length (a_name args)) +
    (if big_ino (a_inumber args) \<and> i8 = 0 then (int cnt + 2) * 4 else 0)"
  using r j
  by (auto simp: xfs_dir2_sf_addname_def Let_def bind_eq_Some_conv acc big_ino_def
      xfs_trans_log_inode_def dest!: sf_addname_easy_size sf_addname_hard_size split: if_splits)

text \<open>
  C34: Whenever an insertion into a version 4 short-form directory succeeds, the directory size it
  records is nine bytes less than the directory with the new entry needs, so the inode does not hold
  that directory.
\<close>

theorem sf_addname_size_short:
  assumes h: "sf_holds mp dp sd" and v4: "\<not> sf_v5 mp" and small: "di_size (i_d dp) < 65536"
    and len: "length (a_name args) < 256"
    and r: "xfs_dir2_sf_addname junk mp dp args = Some (SfReturn None dp')" "\<not> a_justcheck args"
    and new: "sd_entries sd = as @ bs" "sd_entries sd' = as @ e # bs" "se_name e = a_name args"
      "sd_i8 sd' = 0 \<longleftrightarrow> sd_i8 sd = 0 \<and> \<not> big_ino (a_inumber args)"
  shows "di_size (i_d dp') + 9 = int (length (sf_encode False sd')) \<and> \<not> sf_holds mp dp' sd'"
proof -
  have acc: "sf_i8count (if_data (i_df dp)) = Some (sd_i8 sd)"
    "sf_count (if_data (i_df dp)) = Some (length (sd_entries sd))"
    using sf_holds_hdr [OF h] by (simp_all add: sf_hdr_def)
  have sz: "di_size (i_d dp) = int (length (sf_encode False sd))"
    using h v4 by (simp add: sf_holds_def)
  have s32: "to_s32 (di_size (i_d dp)) = di_size (i_d dp)" using small sz by (intro to_s32_id) simp_all
  have isz: "ino_size (sd_i8 sd') = (if big_ino (a_inumber args) \<and> sd_i8 sd = 0 then 8 else ino_size (sd_i8 sd))"
    using new(4) by (auto simp: ino_size_def)
  have l: "int (length (sf_encode False sd')) = int (length (sf_encode False sd)) +
      (3 + int (length (a_name args)) + ino_size (sd_i8 sd')) +
      (int (length (sd_entries sd)) + 1) * (ino_size (sd_i8 sd') - ino_size (sd_i8 sd))"
    using length_enc_entries_i8 [of False "sd_i8 sd'" "as @ bs" "sd_i8 sd"] new(1-3)
    by (simp add: length_encode int_entsize algebra_simps)
  have "di_size (i_d dp') + 9 = int (length (sf_encode False sd'))"
    using sf_addname_new_size [OF r acc] s32 sz l isz len
    by (simp add: entsize_byname_value ino_size_def split: if_splits)
  then show ?thesis
    using v4 by (auto simp: sf_holds_def)
qed

lemma sf_remove_at_size:
  assumes "sf_remove_at junk mp dp args sfep = Some out" and "\<not> big_ino (a_inumber args)"
    and "sf_i8count (if_data (i_df dp)) = Some i8"
  shows "\<exists>dp'. out = SfReturn None dp' \<and> di_size (i_d dp') =
    to_s32 (di_size (i_d dp)) - xfs_dir2_sf_entsize_byname i8 (length (a_name args))"
  using assms
  by (auto simp: sf_remove_at_def Let_def bind_eq_Some_conv big_ino_def xfs_trans_log_inode_def
      split: if_splits)

text \<open>
  C35: Removing a name from a version 4 short-form directory answers \<open>ENOENT\<close> and changes nothing
  when the name is missing; when it succeeds for an entry with a narrow number, the recorded size is
  nine bytes more than the directory without the entry needs.
\<close>

theorem sf_removename_size:
  assumes h: "sf_holds mp dp sd" and v4: "\<not> sf_v5 mp" and small: "di_size (i_d dp) < 65536"
    and len: "length (a_name args) < 256" and r: "xfs_dir2_sf_removename junk mp dp args = Some out"
    and narrow: "\<not> big_ino (a_inumber args)"
  shows "(\<forall>e \<in> set (sd_entries sd). se_name e \<noteq> a_name args) \<and> out = SfReturn (Some ENOENT) dp \<or>
    (\<exists>as e bs dp'. sd_entries sd = as @ e # bs \<and> se_name e = a_name args \<and> out = SfReturn None dp' \<and>
      di_size (i_d dp') = int (length (sf_encode False (sd\<lparr>sd_entries := as @ bs\<rparr>))) + 9)"
proof -
  obtain pre post where pre: "length pre = xfs_dir2_sf_hdr_size (sd_i8 sd)"
    and at: "sf_entries_at mp (if_data (i_df dp)) pre (sd_i8 sd) (sd_entries sd) post"
    using sf_holds_entries_at [OF h] by blast
  note find = sf_find_ok [OF at, where args = args, unfolded pre]
  have acc: "sf_i8count (if_data (i_df dp)) = Some (sd_i8 sd)"
    "sf_count (if_data (i_df dp)) = Some (length (sd_entries sd))"
    using sf_holds_hdr [OF h] by (simp_all add: sf_hdr_def)
  have sz: "di_size (i_d dp) = int (length (sf_encode False sd))"
    using h v4 by (simp add: sf_holds_def)
  have s32: "to_s32 (di_size (i_d dp)) = di_size (i_d dp)" using small sz by (intro to_s32_id) simp_all
  have size: "\<not> di_size (i_d dp) < 2" using sf_holds_size [OF h] by linarith
  show ?thesis
  proof (cases "\<exists>e \<in> set (sd_entries sd). se_name e = a_name args")
    case False
    then have "sf_find mp (if_data (i_df dp)) (length (sd_entries sd)) (xfs_dir2_sf_hdr_size (sd_i8 sd)) args =
      Some None" using find(1) by blast
    then show ?thesis
      using False r size by (simp add: xfs_dir2_sf_removename_def Let_def s32 acc sf_holds_firstentry [OF h])
  next
    case True
    obtain as e bs where s: "sd_entries sd = as @ e # bs" "se_name e = a_name args"
      "\<forall>e \<in> set as. se_name e \<noteq> a_name args"
      using split_first [OF True] by metis
    let ?pos = "xfs_dir2_sf_hdr_size (sd_i8 sd) + length (sf_enc_entries (sf_v5 mp) (sd_i8 sd) as)"
    have f: "sf_find mp (if_data (i_df dp)) (length (sd_entries sd)) (xfs_dir2_sf_hdr_size (sd_i8 sd)) args =
      Some (Some ?pos)"
      using find(2) [where as = as and e = e and bs = bs] s by blast
    have "sf_remove_at junk mp dp args ?pos = Some out"
      using r size by (simp add: xfs_dir2_sf_removename_def Let_def s32 acc sf_holds_firstentry [OF h] f)
    then obtain dp' where dp': "out = SfReturn None dp'" "di_size (i_d dp') =
        di_size (i_d dp) - xfs_dir2_sf_entsize_byname (sd_i8 sd) (length (a_name args))"
      using sf_remove_at_size [OF _ narrow acc(1), unfolded s32] by blast
    moreover have "di_size (i_d dp') = int (length (sf_encode False (sd\<lparr>sd_entries := as @ bs\<rparr>))) + 9"
      using dp'(2) s sz len by (simp add: length_encode entsize_byname_short int_entsize)
    ultimately show ?thesis using s by blast
  qed
qed

lemma sample_sf_hdr:
  "sf_i8count (if_data (i_df (sample_sf_inode sample_mp sample_sd))) = Some 0"
  "sf_count (if_data (i_df (sample_sf_inode sample_mp sample_sd))) = Some 2"
  using sf_holds_hdr [OF sample_sf_holds [OF sample_sd_ok, of sample_mp]]
  by (simp_all add: sf_hdr_def sample_sd_def)

text \<open>The sample directory has room for one more entry in the embedded buffer.\<close>

lemma sample_sf_data:
  "if_data (i_df (sample_sf_inode sample_mp sample_sd)) = sf_encode False sample_sd @ replicate 9 0"
  "length (sf_encode False sample_sd) = 23"
  "if_data_ptr (i_df (sample_sf_inode sample_mp sample_sd)) = DInline"
  "length (if_inline_data (i_df (sample_sf_inode sample_mp sample_sd))) = 32"
proof -
  show l: "length (sf_encode False sample_sd) = 23"
    using length_encode [of False sample_sd]
    by (simp add: sample_sd_def ino_size_def xfs_dir2_sf_entsize_def)
  then have "sf_encode False sample_sd \<noteq> []" by auto
  then show "if_data (i_df (sample_sf_inode sample_mp sample_sd)) = sf_encode False sample_sd @ replicate 9 0"
    "if_data_ptr (i_df (sample_sf_inode sample_mp sample_sd)) = DInline"
    "length (if_inline_data (i_df (sample_sf_inode sample_mp sample_sd))) = 32"
    using l by (simp_all add: sample_sf_inode_def sample_inode_def Let_def if_data_def)
qed

lemma sample_bytes: "if_bytes (i_df (sample_sf_inode sample_mp sample_sd)) = 23"
  "di_size (i_d (sample_sf_inode sample_mp sample_sd)) = 23"
  by (simp_all add: sample_sf_inode_def sample_sf_data)

lemma sample_addname:
  "\<exists>dp'. xfs_dir2_sf_addname junk sample_mp (sample_sf_inode sample_mp sample_sd)
     ((sample_args [100])\<lparr>a_inumber := 140\<rparr>) = Some (SfReturn None dp')"
proof -
  let ?dp = "sample_sf_inode sample_mp sample_sd" and ?args = "(sample_args [100])\<lparr>a_inumber := 140\<rparr>"
  let ?f = "(i_df ?dp)\<lparr>if_real_bytes := 0, if_bytes := 22\<rparr>"
  let ?e = "\<lparr> se_name = [100], se_offset = 80, se_ftype = 0, se_ino = 140 \<rparr>"
  have "name_size ?args = name_size (sample_args [100])" by (simp add: name_size_def)
  then have pick: "xfs_dir2_sf_addname_pick sample_mp ?dp ?args False = Some (1, 23, 80)"
    using sf_addname_pick_ok [OF sample_sf_holds [OF sample_sd_ok], of sample_mp ?args False] by (simp add: sample_fits)
  have size: "xfs_dir2_sf_entsize_byname 0 1 = - 1" by (simp add: entsize_byname_value)
  have f: "xfs_idata_realloc junk (i_df ?dp) (- 1) = Some ?f"
    by (simp add: xfs_idata_realloc_def sample_bytes sample_sf_data Let_def)
  have fd: "if_data ?f = sf_encode False sample_sd @ replicate 9 0"
    using sample_sf_data(1,3) by (simp add: if_data_def)
  have i8: "sf_i8count (sf_encode False sample_sd) = Some 0"
    using sf_encode_accessors(2) [OF sample_sd_ok, of False "[]"] by (simp add: sample_sd_def)
  obtain x where fill: "sf_fill_entry sample_mp (if_data ?f) 23 [100] 80 140 = Some (sf_encode False sample_sd @ x)"
    using sf_fill_entry_ok [OF i8, of 23 ?e sample_mp "replicate 9 0"] sample_sf_data(2) fd
    by (auto simp: sf_entry_ok_def ino_fits_def xfs_dir2_sf_entsize_def)
  have cnt: "sf_count (sf_encode False sample_sd @ x) = Some 2"
    using sf_encode_accessors(1) [OF sample_sd_ok, of False x] by (simp add: sample_sd_def)
  obtain d where d: "wr_be (Suc 0) 3 0 (sf_encode False sample_sd @ x) = Some d"
    using wr_be_Some_iff [of "Suc 0" 3 0 "sf_encode False sample_sd @ x"] sample_sf_data(2) by auto
  have easy: "\<exists>dq. xfs_dir2_sf_addname_easy junk sample_mp ?dp ?args 23 80 22 = Some dq"
    using size f fill cnt d sample_sf_hdr(1)
    by (simp add: xfs_dir2_sf_addname_easy_def sample_args_def XFS_DIR2_MAX_SHORT_INUM_def)
  have "XFS_IFORK_DSIZE sample_mp ?dp = 156"
    by (simp add: XFS_IFORK_DSIZE_def sample_sf_inode_def)
  then show ?thesis
    using pick easy size sample_sf_hdr
    by (auto simp: xfs_dir2_sf_addname_def sample_bytes Let_def sample_args_def XFS_DIR2_MAX_SHORT_INUM_def)
qed

text \<open>The directory with the new entry takes the old 23 bytes and 8 more, which is 31; the inode records 22.\<close>

theorem sf_addname_size_short_witness:
  "\<exists>dp'. xfs_dir2_sf_addname (sample_junk 0) sample_mp (sample_sf_inode sample_mp sample_sd)
     ((sample_args [100])\<lparr>a_inumber := 140\<rparr>) = Some (SfReturn None dp') \<and> di_size (i_d dp') = 22"
proof -
  let ?sd = "sample_sd\<lparr>sd_entries := sd_entries sample_sd @
    [\<lparr> se_name = [100], se_offset = 80, se_ftype = 0, se_ino = 140 \<rparr>]\<rparr>"
  obtain dp' where r: "xfs_dir2_sf_addname (sample_junk 0) sample_mp (sample_sf_inode sample_mp sample_sd)
     ((sample_args [100])\<lparr>a_inumber := 140\<rparr>) = Some (SfReturn None dp')"
    using sample_addname by blast
  have "di_size (i_d dp') + 9 = int (length (sf_encode False ?sd)) \<and> \<not> sf_holds sample_mp dp' ?sd"
    by (rule sf_addname_size_short [OF sample_sf_holds [OF sample_sd_ok] sample_v4 _ _ r,
          where as = "sd_entries sample_sd" and bs = "[]" and
          e = "\<lparr> se_name = [100], se_offset = 80, se_ftype = 0, se_ino = 140 \<rparr>"])
      (simp_all add: sample_bytes sample_args_def big_ino_def XFS_DIR2_MAX_SHORT_INUM_def)
  moreover have "int (length (sf_encode False ?sd)) = 31"
    by (simp add: length_encode sample_sd_def ino_size_def xfs_dir2_sf_entsize_def)
  ultimately show ?thesis using r by simp
qed

lemma sample_removename:
  "\<exists>out. xfs_dir2_sf_removename junk sample_mp (sample_sf_inode sample_mp sample_sd) (sample_args [97, 98]) = Some out"
proof -
  let ?dp = "sample_sf_inode sample_mp sample_sd"
  let ?d = "if_data (i_df ?dp)"
  have len: "length ?d = 32" by (simp add: sample_sf_data)
  have size: "xfs_dir2_sf_entsize_byname 0 2 = 0" by (simp add: entsize_byname_value)
  obtain pre post where pre: "length pre = xfs_dir2_sf_hdr_size (sd_i8 sample_sd)"
    and at: "sf_entries_at sample_mp ?d pre (sd_i8 sample_sd) (sd_entries sample_sd) post"
    using sf_holds_entries_at [OF sample_sf_holds [OF sample_sd_ok]] by blast
  have pre6: "xfs_dir2_sf_hdr_size (sd_i8 sample_sd) = 6" by (simp add: sample_sd_def xfs_dir2_sf_hdr_size_def)
  have es: "sd_entries sample_sd = [] @ hd (sd_entries sample_sd) # tl (sd_entries sample_sd)"
    "se_name (hd (sd_entries sample_sd)) = a_name (sample_args [97, 98])" "length (sd_entries sample_sd) = 2"
    by (simp_all add: sample_sd_def sample_args_def)
  have find: "sf_find sample_mp ?d 2 6 (sample_args [97, 98]) = Some (Some 6)"
    using sf_find_ok(2) [OF at es(1,2), unfolded pre pre6 es(3)] by simp
  have first: "xfs_dir2_sf_firstentry ?d = Some 6"
    using sf_holds_firstentry [OF sample_sf_holds [OF sample_sd_ok], of sample_mp] pre6 by simp
  obtain d1 where d1: "memcpy ?d 6 ?d 6 17 = Some d1" "length d1 = 32"
    using memcpy_Some [of 6 6 17 ?d ?d] len by auto
  obtain c where c: "sf_count d1 = Some c" using d1(2) by (simp add: sf_count_def rd_be_def rd_bytes_def)
  obtain d2 where d2: "wr_be 1 (c + 255) 0 d1 = Some d2"
    using wr_be_Some_iff [of 1 "c + 255" 0 d1] d1(2) by auto
  have "\<exists>out. sf_remove_at junk sample_mp ?dp (sample_args [97, 98]) 6 = Some out"
    using size [unfolded numeral_2_eq_2] d1(1) c d2 sample_sf_hdr(1)
    by (simp add: sf_remove_at_def sample_bytes Let_def sample_args_def xfs_idata_realloc_def
        XFS_DIR2_MAX_SHORT_INUM_def)
  then show ?thesis
    using find first sample_sf_hdr(2) by (simp add: xfs_dir2_sf_removename_def sample_bytes Let_def)
qed

theorem sf_removename_size_witness:
  "\<exists>dp'. xfs_dir2_sf_removename (sample_junk 0) sample_mp (sample_sf_inode sample_mp sample_sd)
     (sample_args [97, 98]) = Some (SfReturn None dp') \<and> di_size (i_d dp') = 23"
proof -
  obtain out where r: "xfs_dir2_sf_removename (sample_junk 0) sample_mp (sample_sf_inode sample_mp sample_sd)
     (sample_args [97, 98]) = Some out"
    using sample_removename by blast
  have "(\<forall>e \<in> set (sd_entries sample_sd). se_name e \<noteq> [97, 98]) \<and>
      out = SfReturn (Some ENOENT) (sample_sf_inode sample_mp sample_sd) \<or>
    (\<exists>as e bs dp'. sd_entries sample_sd = as @ e # bs \<and> se_name e = [97, 98] \<and> out = SfReturn None dp' \<and>
      di_size (i_d dp') = int (length (sf_encode False (sample_sd\<lparr>sd_entries := as @ bs\<rparr>))) + 9)"
    using sf_removename_size [OF sample_sf_holds [OF sample_sd_ok] sample_v4 _ _ r]
    by (simp add: sample_bytes sample_args_def big_ino_def XFS_DIR2_MAX_SHORT_INUM_def)
  then obtain as e bs dp' where x: "sd_entries sample_sd = as @ e # bs" "se_name e = [97, 98]"
    "out = SfReturn None dp'" "di_size (i_d dp') = int (length (sf_encode False (sample_sd\<lparr>sd_entries := as @ bs\<rparr>))) + 9"
    by (auto simp: sample_sd_def)
  have "int (length (sf_encode False sample_sd)) =
      int (length (sf_encode False (sample_sd\<lparr>sd_entries := as @ bs\<rparr>))) + 9"
    using x(1,2) by (simp add: length_encode sample_sd_def ino_size_def xfs_dir2_sf_entsize_def)
  then show ?thesis using r x by (simp add: sample_sf_data)
qed

section \<open>The search for a hole\<close>

lemma sf_entries_at_length:
  "sf_entries_at mp d pre i8 es [] \<Longrightarrow> length d = length pre + length (sf_enc_entries (sf_v5 mp) i8 es)"
  by (metis sf_entries_at_def append_Nil2 length_append)

lemma length_enc_entry_pos [simp]: "sf_enc_entry v5 i8 e \<noteq> []"
  by (simp add: sf_enc_entry_def flip: length_0_conv)

text \<open>
  The offset the search holds against entry \<open>i\<close>: it starts with \<open>off\<close>, and behind the entry before it adds the
  block space of the name of entry \<open>i\<close> itself to the offset of that entry.
\<close>

definition hard_offset :: "int \<Rightarrow> sf_entry list \<Rightarrow> nat \<Rightarrow> int" where
  "hard_offset off es i = (if i = 0 then off
     else int (se_offset (es ! (i - 1))) + xfs_dir2_data_entsize (int (length (se_name (es ! i)))))"

definition hard_gap :: "int \<Rightarrow> int \<Rightarrow> sf_entry list \<Rightarrow> nat \<Rightarrow> bool" where
  "hard_gap sz off es i \<longleftrightarrow> hard_offset off es i + sz \<le> int (se_offset (es ! i))"

lemma hard_offset_Suc:
  "i < length (e' # es) \<Longrightarrow> hard_offset off (e # e' # es) (Suc i) =
    hard_offset (int (se_offset e) + xfs_dir2_data_entsize (int (length (se_name e')))) (e' # es) i"
  by (cases i) (simp_all add: hard_offset_def)

lemma sf_hard_loop_ok:
  assumes "sf_entries_at mp old pre i8 es []" and "es \<noteq> []"
  shows "(\<exists>i < length es. hard_gap sz off es i \<and> (\<forall>j < i. \<not> hard_gap sz off es j) \<and>
      sf_hard_loop mp old (int (length old)) sz off (length pre) =
        Some (hard_offset off es i, length pre + length (sf_enc_entries (sf_v5 mp) i8 (take i es)), False)) \<or>
    (\<forall>i < length es. \<not> hard_gap sz off es i) \<and> sf_hard_loop mp old (int (length old)) sz off (length pre) = None"
  using assms
proof (induction es arbitrary: pre off)
  case Nil
  then show ?case by simp
next
  case (Cons e es)
  note at = sf_entries_at_Cons [OF Cons.prems(1)]
  note s = sf_at_simps [OF at(1)]
  let ?next = "pre @ sf_enc_entry (sf_v5 mp) i8 e"
  have ne: "length pre \<noteq> length old"
    using sf_entries_at_length [OF Cons.prems(1)] length_enc_entry_pos [of "sf_v5 mp" i8 e]
    by (simp del: length_sf_enc_entry length_enc_entry_pos)
  have gap0: "hard_gap sz off (e # es) 0 \<longleftrightarrow> off + sz \<le> int (se_offset e)"
    by (simp add: hard_gap_def hard_offset_def)
  show ?case
  proof (cases "off + sz \<le> int (se_offset e)")
    case True
    then have "sf_hard_loop mp old (int (length old)) sz off (length pre) = Some (off, length pre, False)"
      by (subst sf_hard_loop.simps) (use ne in \<open>simp add: s\<close>)
    then show ?thesis using True gap0 by (intro disjI1 exI [of _ 0]) (simp add: hard_offset_def)
  next
    case no: False
    have step: "sf_hard_loop mp old (int (length old)) sz off (length pre) =
        do { nl \<leftarrow> sf_namelen old (length ?next);
             sf_hard_loop mp old (int (length old)) sz
               (int (se_offset e) + xfs_dir2_data_entsize (int nl)) (length ?next) }"
      by (subst sf_hard_loop.simps) (use ne no in \<open>simp add: s del: length_append\<close>)
    show ?thesis
    proof (cases es)
      case Nil
      then have "length ?next = length old" using sf_entries_at_length [OF at(2)] by simp
      then have "sf_namelen old (length ?next) = None"
        by (simp add: sf_namelen_def rd_be_def rd_bytes_def)
      then show ?thesis unfolding step using no gap0 Nil by simp
    next
      case (Cons e' es')
      let ?off = "int (se_offset e) + xfs_dir2_data_entsize (int (length (se_name e')))"
      have nl: "sf_namelen old (length ?next) = Some (length (se_name e'))"
        using sf_at_namelen [OF sf_entries_at_Cons(1) [OF at(2) [unfolded Cons]]] .
      have g: "hard_gap sz off (e # es) (Suc i) \<longleftrightarrow> hard_gap sz ?off es i" if "i < length es" for i
        using hard_offset_Suc [of i e' es' off e] that Cons by (simp add: hard_gap_def)
      have all: "(\<forall>j < Suc i. \<not> hard_gap sz off (e # es) j) \<longleftrightarrow> (\<forall>j < i. \<not> hard_gap sz ?off es j)"
        if "i \<le> length es" for i
        unfolding All_less_Suc2 using g gap0 no that by auto
      have "es \<noteq> []" using Cons by simp
      from Cons.IH [OF at(2) this, where off = ?off] show ?thesis
      proof (elim disjE exE conjE)
        fix i assume i: "i < length es" "hard_gap sz ?off es i" "\<forall>j < i. \<not> hard_gap sz ?off es j"
          and r: "sf_hard_loop mp old (int (length old)) sz ?off (length ?next) =
            Some (hard_offset ?off es i, length ?next + length (sf_enc_entries (sf_v5 mp) i8 (take i es)), False)"
        have "hard_offset off (e # es) (Suc i) = hard_offset ?off es i"
          using hard_offset_Suc [of i e' es' off e] i(1) Cons by simp
        then show ?thesis
          using i g [OF i(1)] all [of i] r nl unfolding step
          by (intro disjI1 exI [of _ "Suc i"]) (simp add: add.assoc)
      next
        assume "\<forall>i < length es. \<not> hard_gap sz ?off es i"
          and r: "sf_hard_loop mp old (int (length old)) sz ?off (length ?next) = None"
        then show ?thesis using all [of "length es"] nl unfolding step by simp
      qed
    qed
  qed
qed

lemma sf_hard_loop_start:
  assumes h: "sf_holds mp dp sd" and small: "di_size (i_d dp) < 65536"
  shows "rd_bytes 0 (nat (to_s32 (di_size (i_d dp)))) (if_data (i_df dp)) = Some (sf_encode (sf_v5 mp) sd)"
    and "to_s32 (di_size (i_d dp)) = int (length (sf_encode (sf_v5 mp) sd))"
    and "xfs_dir2_sf_firstentry (sf_encode (sf_v5 mp) sd) = Some (xfs_dir2_sf_hdr_size (sd_i8 sd))"
    and "XFS_DIR2_DATA_FIRST_OFFSET = 48"
proof -
  have sz: "di_size (i_d dp) = int (length (sf_encode (sf_v5 mp) sd))" "if_bytes (i_df dp) = di_size (i_d dp)"
    using h by (simp_all add: sf_holds_def)
  show s32: "to_s32 (di_size (i_d dp)) = int (length (sf_encode (sf_v5 mp) sd))"
    using small sz by simp
  show "rd_bytes 0 (nat (to_s32 (di_size (i_d dp)))) (if_data (i_df dp)) = Some (sf_encode (sf_v5 mp) sd)"
    using sf_holds_copy [OF h] sz s32 by simp
  show "xfs_dir2_sf_firstentry (sf_encode (sf_v5 mp) sd) = Some (xfs_dir2_sf_hdr_size (sd_i8 sd))"
    using sf_encode_accessors(4) [of sd "sf_v5 mp" "[]"] h by (simp add: sf_holds_def)
  show "XFS_DIR2_DATA_FIRST_OFFSET = 48" by (simp add: data_offset_defs)
qed

lemma sf_encode_entries_at_ex:
  "sf_dir_ok sd \<Longrightarrow> \<exists>pre. length pre = xfs_dir2_sf_hdr_size (sd_i8 sd) \<and>
    sf_entries_at mp (sf_encode (sf_v5 mp) sd) pre (sd_i8 sd) (sd_entries sd) []"
  using sf_encode_entries_at [of sd mp]
  by (intro exI [of _ "be_bytes 1 (length (sd_entries sd)) @ be_bytes 1 (sd_i8 sd) @
        sf_enc_ino (sd_i8 sd) (sd_parent sd)"]) (simp add: xfs_dir2_sf_hdr_size_def)

text \<open>
  C36: On a directory with entries, the insertion that looks for a hole never gets to the place behind the last entry
  without reading outside the copied directory. Its search stops in front of the first entry that leaves room behind the
  offset held against it (\<open>hard_offset\<close>), and when there is no such entry it reads the name length of an entry behind
  the last one, before it looks whether it is at the end; so on a directory whose entries follow each other without a hole, it does unless some name is shorter
  than the name before it by the space of the new one.
\<close>

theorem sf_addname_hard_overreads:
  assumes h: "sf_holds mp dp sd" and small: "di_size (i_d dp) < 65536" and ne: "sd_entries sd \<noteq> []"
  shows "(\<exists>i < length (sd_entries sd). hard_gap (name_size args) 48 (sd_entries sd) i \<and>
      (\<forall>j < i. \<not> hard_gap (name_size args) 48 (sd_entries sd) j) \<and>
      sf_hard_loop mp (sf_encode (sf_v5 mp) sd) (di_size (i_d dp)) (name_size args) 48 (xfs_dir2_sf_hdr_size (sd_i8 sd)) =
        Some (hard_offset 48 (sd_entries sd) i,
          length (sf_encode (sf_v5 mp) (sd\<lparr>sd_entries := take i (sd_entries sd)\<rparr>)), False)) \<or>
    (\<forall>i < length (sd_entries sd). \<not> hard_gap (name_size args) 48 (sd_entries sd) i) \<and>
      sf_hard_loop mp (sf_encode (sf_v5 mp) sd) (di_size (i_d dp)) (name_size args) 48 (xfs_dir2_sf_hdr_size (sd_i8 sd)) =
        None \<and>
      xfs_dir2_sf_addname_hard junk mp dp args objchange new_isize = None"
proof -
  note st = sf_hard_loop_start [OF h small]
  have ok: "sf_dir_ok sd" and sz: "di_size (i_d dp) = int (length (sf_encode (sf_v5 mp) sd))"
    using h by (simp_all add: sf_holds_def)
  obtain pre where pre: "length pre = xfs_dir2_sf_hdr_size (sd_i8 sd)"
    and at: "sf_entries_at mp (sf_encode (sf_v5 mp) sd) pre (sd_i8 sd) (sd_entries sd) []"
    using sf_encode_entries_at_ex [OF ok] by blast
  have none: "xfs_dir2_sf_addname_hard junk mp dp args objchange new_isize = None"
    if "sf_hard_loop mp (sf_encode (sf_v5 mp) sd) (di_size (i_d dp)) (name_size args) 48
      (xfs_dir2_sf_hdr_size (sd_i8 sd)) = None"
    using st(1) [unfolded st(2) nat_int] that [unfolded sz]
    by (simp add: xfs_dir2_sf_addname_hard_def Let_def st(2-4) name_size_def [symmetric])
  have "xfs_dir2_sf_hdr_size (sd_i8 sd) + length (sf_enc_entries (sf_v5 mp) (sd_i8 sd) (take i (sd_entries sd))) =
      length (sf_encode (sf_v5 mp) (sd\<lparr>sd_entries := take i (sd_entries sd)\<rparr>))" for i
    by (simp add: sf_encode_def xfs_dir2_sf_hdr_size_def)
  then show ?thesis
    using sf_hard_loop_ok [OF at ne, where sz = "name_size args" and off = 48, unfolded pre] none unfolding sz by metis
qed

text \<open>
  C37: Given two entries with a hole between them, of which the second has the shorter name, the
  search places the new name inside the block space of the first.
\<close>

theorem sf_hard_offset_overlaps:
  assumes ok: "sf_dir_ok sd" and es: "sd_entries sd = [e1, e2]"
    and no: "int (se_offset e1) < 48 + sz"
    and hole: "int (se_offset e1) + xfs_dir2_data_entsize (int (length (se_name e2))) + sz \<le> int (se_offset e2)"
    and shorter: "xfs_dir2_data_entsize (int (length (se_name e2))) < xfs_dir2_data_entsize (int (length (se_name e1)))"
  shows "\<exists>off sfep. sf_hard_loop mp (sf_encode (sf_v5 mp) sd) (int (length (sf_encode (sf_v5 mp) sd))) sz 48
      (xfs_dir2_sf_hdr_size (sd_i8 sd)) = Some (off, sfep, False) \<and>
    int (se_offset e1) < off \<and> off < int (se_offset e1) + xfs_dir2_data_entsize (int (length (se_name e1)))"
proof -
  let ?d = "sf_encode (sf_v5 mp) sd" and ?n = "xfs_dir2_sf_hdr_size (sd_i8 sd)"
  obtain pre where pre: "length pre = ?n" and at: "sf_entries_at mp ?d pre (sd_i8 sd) [e1, e2] []"
    using sf_encode_entries_at_ex [OF ok, of mp] unfolding es by blast
  note at1 = sf_entries_at_Cons [OF at]
  note at2 = sf_entries_at_Cons [OF at1(2)]
  let ?next = "pre @ sf_enc_entry (sf_v5 mp) (sd_i8 sd) e1"
  have len: "length ?d = length ?next + length (sf_enc_entry (sf_v5 mp) (sd_i8 sd) e2)"
    using sf_entries_at_length [OF at1(2)] by simp
  have ne: "length pre \<noteq> length ?d" "length ?next \<noteq> length ?d"
    using len length_enc_entry_pos [of "sf_v5 mp" "sd_i8 sd"]
    by (simp_all del: length_sf_enc_entry length_enc_entry_pos)
  let ?off = "int (se_offset e1) + xfs_dir2_data_entsize (int (length (se_name e2)))"
  have "sf_hard_loop mp ?d (int (length ?d)) sz 48 (length pre) = Some (?off, length ?next, False)"
    by (subst sf_hard_loop.simps, subst sf_hard_loop.simps)
      (use ne no hole in \<open>simp add: sf_at_simps [OF at1(1)] sf_at_simps [OF at2(1)] del: length_append\<close>)
  moreover have "0 < xfs_dir2_data_entsize (int (length (se_name e2)))"
    using entsize_bounds [of "int (length (se_name e2))"] by simp
  ultimately show ?thesis using shorter pre by auto
qed

theorem sf_addname_hard_overreads_witness:
  "xfs_dir2_sf_addname_hard (sample_junk 0) sample_mp (sample_sf_inode sample_mp sample_sd1) (sample_args [100]) True 40 = None"
proof -
  have h: "sf_holds sample_mp (sample_sf_inode sample_mp sample_sd1) sample_sd1"
    by (rule sample_sf_holds [OF sample_sd1_ok])
  have small: "di_size (i_d (sample_sf_inode sample_mp sample_sd1)) < 65536"
    by (simp add: sample_sf_inode_def length_encode sample_sd1_def sample_sd_def ino_size_def
        xfs_dir2_sf_entsize_def)
  have no: "\<not> hard_gap (name_size (sample_args [100])) 48 (sd_entries sample_sd1) i"
    if "i < length (sd_entries sample_sd1)" for i
  proof -
    have "i = 0" using that by (simp add: sample_sd1_def)
    then show ?thesis
      by (simp add: sample_sd1_def sample_sd_def hard_gap_def hard_offset_def name_size_def sample_args_def
          xfs_dir2_data_entsize_def)
  qed
  have ne: "sd_entries sample_sd1 \<noteq> []" by (simp add: sample_sd1_def sample_sd_def)
  show ?thesis
    using sf_addname_hard_overreads [OF h small ne, of "sample_args [100]" "sample_junk 0" True 40] no by blast
qed

definition sample_sd_hole :: sf_dir where
  "sample_sd_hole = \<lparr> sd_i8 = 0, sd_parent = 128, sd_entries =
     [\<lparr> se_name = replicate 20 97, se_offset = 48, se_ftype = 1, se_ino = 131 \<rparr>,
      \<lparr> se_name = [99], se_offset = 200, se_ftype = 2, se_ino = 132 \<rparr>] \<rparr>"

theorem sf_hard_offset_overlaps_witness:
  "\<exists>off sfep. sf_hard_loop sample_mp (sf_encode (sf_v5 sample_mp) sample_sd_hole)
      (int (length (sf_encode (sf_v5 sample_mp) sample_sd_hole))) 16 48
      (xfs_dir2_sf_hdr_size (sd_i8 sample_sd_hole)) = Some (off, sfep, False) \<and> 48 < off \<and> off < 80"
  using sf_hard_offset_overlaps [of sample_sd_hole "sd_entries sample_sd_hole ! 0"
      "sd_entries sample_sd_hole ! 1" 16 sample_mp]
  by (simp add: sample_sd_hole_def sf_dir_ok_def sf_entry_ok_def ino_fits_def xfs_dir2_data_entsize_def)

end
