(* ===== verification/Cache.thy ===== *)
theory Cache
  imports Prelude
begin

text \<open>
  The generic object cache (libxfs/cache.c, include/cache.h): a hash table of nodes with reference
  counts; unreferenced nodes wait in one most-recently-used list per priority until the cache is
  shaken. Nodes are numbered; what a node caches is in the client's state \<open>'p\<close>, which the six
  client operations (\<open>cache_ops\<close>) read and change. The operations are modelled one after the other, each
  running to its end: mutexes are then always free and are left out. Counters are integers; decrements and the doubling of the size wrap as
  on unsigned 32-bit numbers.
\<close>

section \<open>Data\<close>

text \<open>Unsigned decrement and subtraction.\<close>

definition dec32 :: "int \<Rightarrow> int" where
  "dec32 x = (if x = 0 then 2 ^ 32 - 1 else x - 1)"

definition sub32 :: "int \<Rightarrow> int \<Rightarrow> int" where
  "sub32 x y = (if y \<le> x then x - y else x - y + 2 ^ 32)"

lemma dec32_pos [simp]: "0 < x \<Longrightarrow> dec32 x = x - 1"
  by (simp add: dec32_def)

lemma sub32_le [simp]: "y \<le> x \<Longrightarrow> sub32 x y = x - y"
  by (simp add: sub32_def)

definition HASH_CACHE_RATIO :: int where "HASH_CACHE_RATIO = 8"
definition CACHE_BASE_PRIORITY :: int where "CACHE_BASE_PRIORITY = 0"
definition CACHE_PREFETCH_PRIORITY :: int where "CACHE_PREFETCH_PRIORITY = 8"
definition CACHE_MAX_PRIORITY :: nat where "CACHE_MAX_PRIORITY = 15"
definition CACHE_SHAKE_COUNT :: nat where "CACHE_SHAKE_COUNT = 64"

text \<open>The two list links of a node are its membership in \<open>ch_list\<close> and \<open>cm_list\<close>.\<close>

record cache_node =
  cn_count :: int
  cn_hashidx :: nat
  cn_priority :: int

record cache_hash =
  ch_list :: "nat list"
  ch_count :: int

record cache_mru =
  cm_list :: "nat list"
  cm_count :: int

record cache =
  c_maxcount :: int
  c_count :: int
  c_hashsize :: nat
  c_hash :: "nat \<Rightarrow> cache_hash"
  c_mrus :: "nat \<Rightarrow> cache_mru"
  c_misses :: int
  c_hits :: int
  c_max :: int
  c_nodes :: "nat \<Rightarrow> cache_node"

record ('k, 'p) cache_ops =
  op_hash :: "'k \<Rightarrow> nat \<Rightarrow> nat"
  op_alloc :: "'k \<Rightarrow> 'p \<Rightarrow> nat option \<times> 'p"
  op_flush :: "(nat \<Rightarrow> 'p \<Rightarrow> 'p) option"
  op_relse :: "nat \<Rightarrow> 'p \<Rightarrow> 'p"
  op_compare :: "'p \<Rightarrow> nat \<Rightarrow> 'k \<Rightarrow> bool"
  op_bulkrelse :: "(nat list \<Rightarrow> 'p \<Rightarrow> nat \<times> 'p) option"

definition upd_node :: "nat \<Rightarrow> (cache_node \<Rightarrow> cache_node) \<Rightarrow> cache \<Rightarrow> cache" where
  "upd_node n f c = c\<lparr>c_nodes := (c_nodes c)(n := f (c_nodes c n))\<rparr>"

definition upd_hash :: "nat \<Rightarrow> (cache_hash \<Rightarrow> cache_hash) \<Rightarrow> cache \<Rightarrow> cache" where
  "upd_hash i f c = c\<lparr>c_hash := (c_hash c)(i := f (c_hash c i))\<rparr>"

definition upd_mru :: "nat \<Rightarrow> (cache_mru \<Rightarrow> cache_mru) \<Rightarrow> cache \<Rightarrow> cache" where
  "upd_mru i f c = c\<lparr>c_mrus := (c_mrus c)(i := f (c_mrus c i))\<rparr>"

lemmas upd_defs = upd_node_def upd_hash_def upd_mru_def

section \<open>Creation, expansion, walking\<close>

definition cache_init :: "nat \<Rightarrow> cache" where
  "cache_init hashsize =
     \<lparr> c_maxcount = to_u32 (int hashsize * HASH_CACHE_RATIO), c_count = 0, c_hashsize = hashsize,
       c_hash = (\<lambda>i. \<lparr>ch_list = [], ch_count = 0\<rparr>), c_mrus = (\<lambda>i. \<lparr>cm_list = [], cm_count = 0\<rparr>),
       c_misses = 0, c_hits = 0, c_max = 0,
       c_nodes = (\<lambda>n. \<lparr>cn_count = 0, cn_hashidx = 0, cn_priority = 0\<rparr>) \<rparr>"

definition cache_expand :: "cache \<Rightarrow> cache" where
  "cache_expand c = c\<lparr>c_maxcount := to_u32 (c_maxcount c * 2)\<rparr>"

definition cache_walk :: "cache \<Rightarrow> (nat \<Rightarrow> 'a \<Rightarrow> 'a) \<Rightarrow> 'a \<Rightarrow> 'a" where
  "cache_walk c visit s = fold (\<lambda>i. fold visit (ch_list (c_hash c i))) [0..<c_hashsize c] s"

text \<open>The nodes \<open>cache_destroy\<close> complains about (\<open>cache_zero_check\<close>) before it frees the cache.\<close>

definition cache_zero_check :: "cache \<Rightarrow> nat \<Rightarrow> nat list \<Rightarrow> nat list" where
  "cache_zero_check c node reported =
     (if cn_count (c_nodes c node) > 0 then reported @ [node] else reported)"

definition cache_destroy :: "cache \<Rightarrow> nat list" where
  "cache_destroy c = cache_walk c (cache_zero_check c) []"

section \<open>Shaking\<close>

fun cache_generic_bulkrelse :: "('k, 'p) cache_ops \<Rightarrow> nat list \<Rightarrow> 'p \<Rightarrow> nat \<times> 'p" where
  "cache_generic_bulkrelse ops [] p = (0, p)"
| "cache_generic_bulkrelse ops (n # ns) p =
     (let (k, p') = cache_generic_bulkrelse ops ns (op_relse ops n p) in (k + 1, p'))"

definition bulkrelse :: "('k, 'p) cache_ops \<Rightarrow> nat list \<Rightarrow> 'p \<Rightarrow> nat \<times> 'p" where
  "bulkrelse ops = (case op_bulkrelse ops of Some f \<Rightarrow> f | None \<Rightarrow> cache_generic_bulkrelse ops)"

text \<open>
  The loop of \<open>cache_shake\<close> over one MRU list, oldest node first: each node is marked free, moved to
  the front of \<open>temp\<close> and taken out of its hash chain.
\<close>

definition shake_node :: "nat \<Rightarrow> nat \<Rightarrow> cache \<Rightarrow> cache" where
  "shake_node priority node c =
    (let idx = cn_hashidx (c_nodes c node) in
     upd_mru priority (\<lambda>m. m\<lparr>cm_list := remove1 node (cm_list m), cm_count := dec32 (cm_count m)\<rparr>)
      (upd_hash idx (\<lambda>h. h\<lparr>ch_list := remove1 node (ch_list h), ch_count := dec32 (ch_count h)\<rparr>)
        (upd_node node (\<lambda>nd. nd\<lparr>cn_priority := - 1\<rparr>) c)))"

fun shake_loop :: "nat \<Rightarrow> bool \<Rightarrow> nat list \<Rightarrow> nat \<Rightarrow> nat list \<Rightarrow> cache \<Rightarrow> nat \<times> nat list \<times> cache" where
  "shake_loop priority all [] count temp c = (count, temp, c)"
| "shake_loop priority all (node # nodes) count temp c =
    (let c' = shake_node priority node c; count' = count + 1 in
     if \<not> all \<and> count' = CACHE_SHAKE_COUNT then (count', node # temp, c')
     else shake_loop priority all nodes count' (node # temp) c')"

definition cache_shake ::
    "('k, 'p) cache_ops \<Rightarrow> cache \<Rightarrow> 'p \<Rightarrow> nat \<Rightarrow> bool \<Rightarrow> nat \<times> cache \<times> 'p" where
  "cache_shake ops c p prio all =
    (let priority = (if prio > CACHE_MAX_PRIORITY then 0 else prio);
         (count, temp, c1) = shake_loop priority all (rev (cm_list (c_mrus c priority))) 0 [] c;
         (c2, p2) = (if count > 0
                     then (c1\<lparr>c_count := sub32 (c_count c1) (int count)\<rparr>, snd (bulkrelse ops temp p))
                     else (c1, p))
     in (if count = CACHE_SHAKE_COUNT then priority else priority + 1, c2, p2))"

section \<open>Looking up, allocating\<close>

definition cache_node_allocate ::
    "('k, 'p) cache_ops \<Rightarrow> cache \<Rightarrow> 'p \<Rightarrow> 'k \<Rightarrow> nat option \<times> cache \<times> 'p" where
  "cache_node_allocate ops c p key =
    (let nodesfree = c_count c < c_maxcount c;
         c1 = (if nodesfree then c\<lparr>c_count := c_count c + 1, c_max := max (c_max c) (c_count c + 1)\<rparr> else c);
         c2 = c1\<lparr>c_misses := c_misses c1 + 1\<rparr>
     in if \<not> nodesfree then (None, c2, p)
        else (case op_alloc ops key p of
            (None, p') \<Rightarrow> (None, c2\<lparr>c_count := dec32 (c_count c2)\<rparr>, p')
          | (Some node, p') \<Rightarrow>
              (Some node, upd_node node (\<lambda>nd. nd\<lparr>cn_count := 1, cn_priority := 0\<rparr>) c2, p')))"

definition cache_overflowed :: "cache \<Rightarrow> bool" where
  "cache_overflowed c \<longleftrightarrow> c_maxcount c = c_max c"

text \<open>A hit: the node leaves its MRU list when it was unreferenced.\<close>

definition cache_hit :: "nat \<Rightarrow> cache \<Rightarrow> cache" where
  "cache_hit node c =
    (let nd = c_nodes c node;
         c1 = (if cn_count nd = 0
               then upd_mru (nat (cn_priority nd))
                      (\<lambda>m. m\<lparr>cm_list := remove1 node (cm_list m), cm_count := dec32 (cm_count m)\<rparr>) c
               else c);
         c2 = upd_node node (\<lambda>nd. nd\<lparr>cn_count := cn_count nd + 1\<rparr>) c1
     in c2\<lparr>c_hits := c_hits c2 + 1\<rparr>)"

definition cache_add :: "nat \<Rightarrow> nat \<Rightarrow> cache \<Rightarrow> cache" where
  "cache_add hashidx node c =
     upd_hash hashidx (\<lambda>h. h\<lparr>ch_list := node # ch_list h, ch_count := ch_count h + 1\<rparr>)
       (upd_node node (\<lambda>nd. nd\<lparr>cn_hashidx := hashidx\<rparr>) c)"

text \<open>
  The loop of \<open>cache_node_get\<close>; it does not end when nothing can be allocated, so its value is an
  option. The flag of the result is the C return value: a new node was made.
\<close>

partial_function (option) cache_get_loop ::
    "('k, 'p) cache_ops \<Rightarrow> 'k \<Rightarrow> nat \<Rightarrow> nat \<Rightarrow> cache \<Rightarrow> 'p \<Rightarrow> (bool \<times> nat \<times> cache \<times> 'p) option"
where
  "cache_get_loop ops key hashidx priority c p =
    (case find (\<lambda>n. op_compare ops p n key) (ch_list (c_hash c hashidx)) of
       Some node \<Rightarrow> Some (False, node, cache_hit node c, p)
     | None \<Rightarrow>
        (case cache_node_allocate ops c p key of
           (Some node, c1, p1) \<Rightarrow> Some (True, node, cache_add hashidx node c1, p1)
         | (None, c1, p1) \<Rightarrow>
            (case cache_shake ops c1 p1 priority False of
               (priority', c2, p2) \<Rightarrow>
                 if priority' > CACHE_MAX_PRIORITY
                 then cache_get_loop ops key hashidx 0 (cache_expand c2) p2
                 else cache_get_loop ops key hashidx priority' c2 p2)))"

definition cache_node_get ::
    "('k, 'p) cache_ops \<Rightarrow> cache \<Rightarrow> 'p \<Rightarrow> 'k \<Rightarrow> (bool \<times> nat \<times> cache \<times> 'p) option" where
  "cache_node_get ops c p key = cache_get_loop ops key (op_hash ops key (c_hashsize c)) 0 c p"

section \<open>Giving back, priorities, purging, flushing\<close>

definition cache_node_put :: "cache \<Rightarrow> nat \<Rightarrow> cache" where
  "cache_node_put c node =
    (let c1 = upd_node node (\<lambda>nd. nd\<lparr>cn_count := dec32 (cn_count nd)\<rparr>) c
     in if cn_count (c_nodes c1 node) = 0
        then upd_mru (nat (cn_priority (c_nodes c1 node)))
               (\<lambda>m. m\<lparr>cm_list := node # cm_list m, cm_count := cm_count m + 1\<rparr>) c1
        else c1)"

definition cache_node_set_priority :: "cache \<Rightarrow> nat \<Rightarrow> int \<Rightarrow> cache" where
  "cache_node_set_priority c node priority =
    (let pr = (if priority < 0 then 0
               else if priority > int CACHE_MAX_PRIORITY then int CACHE_MAX_PRIORITY else priority)
     in upd_node node (\<lambda>nd. nd\<lparr>cn_priority := pr\<rparr>) c)"

definition cache_node_get_priority :: "cache \<Rightarrow> nat \<Rightarrow> int" where
  "cache_node_get_priority c node = cn_priority (c_nodes c node)"

definition cache_node_purge ::
    "('k, 'p) cache_ops \<Rightarrow> cache \<Rightarrow> 'p \<Rightarrow> 'k \<Rightarrow> nat \<Rightarrow> bool \<times> cache \<times> 'p" where
  "cache_node_purge ops c p key node =
    (let idx = op_hash ops key (c_hashsize c) in
     if node \<notin> set (ch_list (c_hash c idx)) then (False, c, p)
     else if cn_count (c_nodes c node) \<noteq> 0 then (False, c, p)
     else
       let c1 = upd_mru (nat (cn_priority (c_nodes c node)))
                  (\<lambda>m. m\<lparr>cm_list := remove1 node (cm_list m), cm_count := dec32 (cm_count m)\<rparr>) c;
           c2 = upd_hash idx
                  (\<lambda>h. h\<lparr>ch_list := remove1 node (ch_list h), ch_count := dec32 (ch_count h)\<rparr>) c1
       in (True, c2\<lparr>c_count := dec32 (c_count c2)\<rparr>, op_relse ops node p))"

definition cache_flush :: "('k, 'p) cache_ops \<Rightarrow> cache \<Rightarrow> 'p \<Rightarrow> 'p" where
  "cache_flush ops c p = (case op_flush ops of None \<Rightarrow> p | Some f \<Rightarrow> cache_walk c f p)"

fun purge_loop :: "('k, 'p) cache_ops \<Rightarrow> nat list \<Rightarrow> cache \<Rightarrow> 'p \<Rightarrow> cache \<times> 'p" where
  "purge_loop ops [] c p = (c, p)"
| "purge_loop ops (i # is) c p = (let (_, c', p') = cache_shake ops c p i True in purge_loop ops is c' p')"

definition cache_purge :: "('k, 'p) cache_ops \<Rightarrow> cache \<Rightarrow> 'p \<Rightarrow> cache \<times> 'p" where
  "cache_purge ops c p =
    (let (c', p') = purge_loop ops [0..<CACHE_MAX_PRIORITY + 1] c p
     in (c', if c_count c' \<noteq> 0 then cache_flush ops c' p' else p'))"

section \<open>The report\<close>

text \<open>
  The table \<open>cache_report\<close> prints: per priority the number of unreferenced nodes and its percentage,
  then per chain length the number of chains and the percentage of the nodes they hold; the last
  row counts the chains longer than \<open>HASH_REPORT\<close>. \<open>None\<close> is the division by zero of an empty cache.
\<close>

definition HASH_REPORT :: nat where "HASH_REPORT = 24"

definition udiv :: "int \<Rightarrow> int \<Rightarrow> int option" where
  "udiv a b = (if b = 0 then None else Some (a div b))"

fun mru_rows :: "cache \<Rightarrow> nat list \<Rightarrow> (nat \<times> int \<times> int) list option" where
  "mru_rows c [] = Some []"
| "mru_rows c (i # is) = do {
     q \<leftarrow> udiv (to_u32 (cm_count (c_mrus c i) * 100)) (c_count c);
     rows \<leftarrow> mru_rows c is; Some ((i, cm_count (c_mrus c i), q) # rows) }"

definition bucket_length :: "cache \<Rightarrow> nat \<Rightarrow> nat" where
  "bucket_length c i =
     (let count = nat (ch_count (c_hash c i)) in if count > HASH_REPORT then HASH_REPORT + 1 else count)"

definition hash_bucket_lengths :: "cache \<Rightarrow> nat \<Rightarrow> nat" where
  "hash_bucket_lengths c k = length (filter (\<lambda>i. bucket_length c i = k) [0..<c_hashsize c])"

fun hash_rows :: "cache \<Rightarrow> nat list \<Rightarrow> (nat \<times> nat \<times> int) list option" where
  "hash_rows c [] = Some []"
| "hash_rows c (i # is) =
    (if hash_bucket_lengths c i = 0 then hash_rows c is
     else do {
       q \<leftarrow> udiv (int (i * hash_bucket_lengths c i) * 100) (c_count c);
       rows \<leftarrow> hash_rows c is; Some ((i, hash_bucket_lengths c i, q) # rows) })"

definition cache_report ::
    "cache \<Rightarrow> ((nat \<times> int \<times> int) list \<times> (nat \<times> nat \<times> int) list) option" where
  "cache_report c =
    (if c_hits c + c_misses c = 0 then Some ([], [])
     else do {
       mrus \<leftarrow> mru_rows c [0..<CACHE_MAX_PRIORITY + 1];
       hashes \<leftarrow> hash_rows c [0..<HASH_REPORT + 1];
       let total = (\<Sum>i \<leftarrow> [0..<HASH_REPORT + 1]. int (i * hash_bucket_lengths c i));
       last \<leftarrow> (if hash_bucket_lengths c (HASH_REPORT + 1) \<noteq> 0
               then map_option (\<lambda>q. [(HASH_REPORT + 1, hash_bucket_lengths c (HASH_REPORT + 1), q)])
                      (udiv (to_u64 (to_u64 (c_count c - total) * 100)) (c_count c))
               else Some []);
       Some (mrus, hashes @ last) })"

section \<open>The invariant\<close>

definition nodes :: "cache \<Rightarrow> nat set" where
  "nodes c = (\<Union>i < c_hashsize c. set (ch_list (c_hash c i)))"

definition idle :: "cache \<Rightarrow> nat \<Rightarrow> nat set" where
  "idle c pr = {n \<in> nodes c. cn_count (c_nodes c n) = 0 \<and> cn_priority (c_nodes c n) = int pr}"

definition chains_ok :: "cache \<Rightarrow> bool" where
  "chains_ok c \<longleftrightarrow> 0 < c_hashsize c \<and>
     (\<forall>i < c_hashsize c. distinct (ch_list (c_hash c i)) \<and>
        ch_count (c_hash c i) = int (length (ch_list (c_hash c i))) \<and>
        (\<forall>n \<in> set (ch_list (c_hash c i)). cn_hashidx (c_nodes c n) = i))"

definition mrus_ok :: "cache \<Rightarrow> bool" where
  "mrus_ok c \<longleftrightarrow>
     (\<forall>pr \<le> CACHE_MAX_PRIORITY. distinct (cm_list (c_mrus c pr)) \<and>
        cm_count (c_mrus c pr) = int (length (cm_list (c_mrus c pr))) \<and>
        set (cm_list (c_mrus c pr)) = idle c pr)"

definition counts_ok :: "cache \<Rightarrow> bool" where
  "counts_ok c \<longleftrightarrow> (\<forall>n \<in> nodes c. 0 \<le> cn_count (c_nodes c n) \<and>
     0 \<le> cn_priority (c_nodes c n) \<and> cn_priority (c_nodes c n) \<le> int CACHE_MAX_PRIORITY)"

text \<open>The lists are consistent with each other; \<open>cache_wf\<close> adds that the node count is right.\<close>

definition lists_ok :: "cache \<Rightarrow> bool" where
  "lists_ok c \<longleftrightarrow> chains_ok c \<and> mrus_ok c \<and> counts_ok c"

definition cache_wf :: "cache \<Rightarrow> bool" where
  "cache_wf c \<longleftrightarrow> lists_ok c \<and> c_count c = int (card (nodes c))"

lemma finite_nodes [simp]: "finite (nodes c)"
  by (simp add: nodes_def)

lemma chain_nodes: "i < c_hashsize c \<Longrightarrow> n \<in> set (ch_list (c_hash c i)) \<Longrightarrow> n \<in> nodes c"
  by (auto simp: nodes_def)

lemma nodes_chain:
  "chains_ok c \<Longrightarrow> n \<in> nodes c \<longleftrightarrow>
     cn_hashidx (c_nodes c n) < c_hashsize c \<and> n \<in> set (ch_list (c_hash c (cn_hashidx (c_nodes c n))))"
  by (auto simp: nodes_def chains_ok_def)

lemma cache_init_wf: "0 < hs \<Longrightarrow> cache_wf (cache_init hs) \<and> nodes (cache_init hs) = {}"
  by (simp add: cache_wf_def lists_ok_def chains_ok_def mrus_ok_def counts_ok_def cache_init_def
      nodes_def idle_def)

lemma length_remove1_int: "n \<in> set xs \<Longrightarrow> int (length (remove1 n xs)) = int (length xs) - 1"
proof -
  assume n: "n \<in> set xs"
  then have "0 < length xs" by (rule length_pos_if_in_set)
  then show ?thesis using n by (simp only: length_remove1 if_True of_nat_diff Suc_leI One_nat_def of_nat_Suc)
qed

text \<open>Removing an unreferenced node from its list and its chain, as the shaker and the purge do.\<close>

lemma remove_node_lists:
  assumes ok: "lists_ok c" and pr: "pr \<le> CACHE_MAX_PRIORITY" and n: "n \<in> idle c pr"
    and c': "c_hashsize c' = c_hashsize c"
      "c_hash c' = (c_hash c)(cn_hashidx (c_nodes c n) :=
         \<lparr>ch_list = remove1 n (ch_list (c_hash c (cn_hashidx (c_nodes c n)))),
          ch_count = dec32 (ch_count (c_hash c (cn_hashidx (c_nodes c n))))\<rparr>)"
      "c_mrus c' = (c_mrus c)(pr := \<lparr>cm_list = remove1 n (cm_list (c_mrus c pr)),
          cm_count = dec32 (cm_count (c_mrus c pr))\<rparr>)"
      "\<forall>m. m \<noteq> n \<longrightarrow> c_nodes c' m = c_nodes c m"
  shows "lists_ok c'" and "nodes c' = nodes c - {n}"
proof -
  define ix where "ix = cn_hashidx (c_nodes c n)"
  have ch: "chains_ok c" and mr: "mrus_ok c" and co: "counts_ok c" using ok by (auto simp: lists_ok_def)
  have nn: "n \<in> nodes c" "cn_count (c_nodes c n) = 0" "cn_priority (c_nodes c n) = int pr"
    using n by (auto simp: idle_def)
  have ix: "ix < c_hashsize c" "n \<in> set (ch_list (c_hash c ix))"
    using nn(1) nodes_chain [OF ch] by (auto simp: ix_def)
  have only: "n \<notin> set (ch_list (c_hash c i))" if "i < c_hashsize c" "i \<noteq> ix" for i
    using that ch by (auto simp: chains_ok_def ix_def)
  have di: "distinct (ch_list (c_hash c i))" if "i < c_hashsize c" for i
    using that ch by (auto simp: chains_ok_def)
  have st: "set (ch_list (c_hash c' i)) = set (ch_list (c_hash c i)) - {n}" if "i < c_hashsize c" for i
    using only [OF that] di [OF that] by (cases "i = ix") (simp_all add: c'(2) ix_def [symmetric] set_remove1_eq)
  show nd: "nodes c' = nodes c - {n}"
    unfolding nodes_def c'(1) using st by auto
  have l: "0 < length (ch_list (c_hash c ix))" using ix(2) by (auto intro: length_pos_if_in_set)
  have "chains_ok c'"
    unfolding chains_ok_def
  proof (intro conjI allI impI ballI)
    show "0 < c_hashsize c'" using ch c' by (simp add: chains_ok_def)
    fix i assume i: "i < c_hashsize c'"
    then have o: "distinct (ch_list (c_hash c i))" "ch_count (c_hash c i) = int (length (ch_list (c_hash c i)))"
        "\<forall>m \<in> set (ch_list (c_hash c i)). cn_hashidx (c_nodes c m) = i"
      using ch c'(1) by (auto simp: chains_ok_def)
    show "distinct (ch_list (c_hash c' i))" using o by (auto simp: c'(2) distinct_remove1)
    show "ch_count (c_hash c' i) = int (length (ch_list (c_hash c' i)))"
    proof (cases "i = ix")
      case True
      show ?thesis
        using o(2) l ix(2) unfolding True by (simp add: c'(2) ix_def [symmetric] length_remove1_int)
    next
      case False
      then show ?thesis using o(2) by (simp add: c'(2) ix_def [symmetric])
    qed
    fix m assume "m \<in> set (ch_list (c_hash c' i))"
    then have "m \<in> set (ch_list (c_hash c i)) \<and> m \<noteq> n"
      using st [of i] i c'(1) by auto
    then show "cn_hashidx (c_nodes c' m) = i" using o c'(4) by auto
  qed
  moreover have idl: "idle c' q = idle c q - {n}" for q
    using nd c'(4) by (auto simp: idle_def)
  moreover have "mrus_ok c'"
    unfolding mrus_ok_def
  proof (intro allI impI)
    fix q assume q: "q \<le> CACHE_MAX_PRIORITY"
    then have o: "distinct (cm_list (c_mrus c q))" "cm_count (c_mrus c q) = int (length (cm_list (c_mrus c q)))"
        "set (cm_list (c_mrus c q)) = idle c q"
      using mr by (auto simp: mrus_ok_def)
    show "distinct (cm_list (c_mrus c' q)) \<and>
        cm_count (c_mrus c' q) = int (length (cm_list (c_mrus c' q))) \<and>
        set (cm_list (c_mrus c' q)) = idle c' q"
    proof (cases "q = pr")
      case True
      have "0 < length (cm_list (c_mrus c pr))" using n o True by (auto intro: length_pos_if_in_set)
      then show ?thesis
        using o n True by (auto simp: c'(3) idl distinct_remove1 length_remove1_int)
    next
      case False
      have "n \<notin> idle c q" using False nn by (auto simp: idle_def)
      then show ?thesis using o False by (simp add: c'(3) idl)
    qed
  qed
  moreover have "counts_ok c'" using co c'(4) nd by (auto simp: counts_ok_def)
  ultimately show "lists_ok c'" by (simp add: lists_ok_def)
qed

lemma shake_node_ok:
  assumes "lists_ok c" "pr \<le> CACHE_MAX_PRIORITY" "n \<in> idle c pr"
  shows "lists_ok (shake_node pr n c)" and "nodes (shake_node pr n c) = nodes c - {n}"
    and "c_count (shake_node pr n c) = c_count c" and "c_maxcount (shake_node pr n c) = c_maxcount c"
    and "c_hashsize (shake_node pr n c) = c_hashsize c"
    and "\<forall>m. m \<noteq> n \<longrightarrow> c_nodes (shake_node pr n c) m = c_nodes c m"
    and "cm_list (c_mrus (shake_node pr n c) pr) = remove1 n (cm_list (c_mrus c pr))"
  using remove_node_lists [OF assms, of "shake_node pr n c"]
  by (simp_all add: shake_node_def Let_def upd_defs fun_upd_def fun_eq_iff)

text \<open>The loop takes nodes from the old end of the list, at most 64 unless told to take all.\<close>

definition shaken :: "nat \<Rightarrow> bool \<Rightarrow> nat list \<Rightarrow> nat list \<Rightarrow> cache \<Rightarrow> cache \<Rightarrow> bool" where
  "shaken pr all ns taken c c' \<longleftrightarrow> lists_ok c' \<and> nodes c' = nodes c - set taken \<and>
     c_count c' = c_count c \<and> c_maxcount c' = c_maxcount c \<and> c_hashsize c' = c_hashsize c \<and>
     (\<forall>m. m \<notin> set taken \<longrightarrow> c_nodes c' m = c_nodes c m) \<and> set taken \<subseteq> set ns \<and> distinct taken \<and>
     (ns \<noteq> [] \<longrightarrow> taken \<noteq> []) \<and> (all \<longrightarrow> set taken = set ns)"

lemma shake_loop_ok:
  assumes pr: "pr \<le> CACHE_MAX_PRIORITY"
  shows "lists_ok c \<Longrightarrow> distinct ns \<Longrightarrow> set ns \<subseteq> idle c pr \<Longrightarrow>
    \<exists>taken c'. shake_loop pr all ns count temp c = (count + length taken, rev taken @ temp, c') \<and>
      shaken pr all ns taken c c'"
proof (induction ns arbitrary: count temp c)
  case Nil
  then show ?case by (intro exI [of _ "[]"]) (simp add: shaken_def)
next
  case (Cons n ns)
  have n: "n \<in> idle c pr" using Cons.prems by simp
  note sn = shake_node_ok [OF Cons.prems(1) pr n]
  have sub: "set ns \<subseteq> idle (shake_node pr n c) pr"
  proof
    fix x assume "x \<in> set ns"
    then have "x \<in> idle c pr" "x \<noteq> n" using Cons.prems(2,3) by auto
    then show "x \<in> idle (shake_node pr n c) pr" using sn(2,6) by (simp add: idle_def)
  qed
  show ?case
  proof (cases "\<not> all \<and> count + 1 = CACHE_SHAKE_COUNT")
    case True
    then show ?thesis
      using sn by (intro exI [of _ "[n]"]) (auto simp: Let_def shaken_def)
  next
    case False
    obtain taken c' where L: "shake_loop pr all ns (count + 1) (n # temp) (shake_node pr n c) =
        (count + 1 + length taken, rev taken @ n # temp, c')" "shaken pr all ns taken (shake_node pr n c) c'"
      using Cons.IH [OF sn(1) _ sub, of "count + 1" "n # temp"] Cons.prems(2) by auto
    have "shake_loop pr all (n # ns) count temp c =
        (count + length (n # taken), rev (n # taken) @ temp, c')"
      using False L(1) by (auto simp: Let_def)
    moreover have "shaken pr all (n # ns) (n # taken) c c'"
      using L(2) sn Cons.prems(2) by (auto simp: shaken_def)
    ultimately show ?thesis by blast
  qed
qed

text \<open>The references held on every node.\<close>

definition refs :: "cache \<Rightarrow> nat \<Rightarrow> int" where
  "refs c n = (if n \<in> nodes c then cn_count (c_nodes c n) else 0)"

text \<open>A full cache with fewer nodes in use than it may hold has an idle node that a shake can free.\<close>

lemma idle_exists:
  assumes wf: "cache_wf c" and few: "int (card {n. refs c n \<noteq> 0}) < c_count c"
    and pr: "\<forall>n \<in> nodes c. cn_priority (c_nodes c n) < int CACHE_MAX_PRIORITY"
  shows "\<exists>q. 0 \<le> q \<and> q < CACHE_MAX_PRIORITY \<and> idle c q \<noteq> {}"
proof -
  have co: "counts_ok c" "c_count c = int (card (nodes c))" using wf by (auto simp: cache_wf_def lists_ok_def)
  have "\<exists>n \<in> nodes c. refs c n = 0"
  proof (rule ccontr)
    assume "\<not> ?thesis"
    then have "nodes c \<subseteq> {n. refs c n \<noteq> 0}" by auto
    moreover have "finite {n. refs c n \<noteq> 0}"
      by (rule finite_subset [OF _ finite_nodes [of c]]) (auto simp: refs_def split: if_splits)
    ultimately have "card (nodes c) \<le> card {n. refs c n \<noteq> 0}" by (rule card_mono [rotated])
    then show False using few co(2) by simp
  qed
  then obtain n where n: "n \<in> nodes c" "cn_count (c_nodes c n) = 0" by (auto simp: refs_def)
  have p: "0 \<le> cn_priority (c_nodes c n)" "cn_priority (c_nodes c n) < int CACHE_MAX_PRIORITY"
    using co(1) pr n(1) by (auto simp: counts_ok_def)
  then have "n \<in> idle c (nat (cn_priority (c_nodes c n)))" "nat (cn_priority (c_nodes c n)) < CACHE_MAX_PRIORITY"
    using n by (auto simp: idle_def)
  then show ?thesis by blast
qed

section \<open>What the cache needs of its client\<close>

text \<open>
  \<open>pinv p L\<close> says that the client's state is consistent when \<open>L\<close> are the nodes in the cache. Allocating
  gives a node outside \<open>L\<close> that matches its key, releasing takes nodes out of \<open>L\<close>, and none of the
  operations changes which keys the other nodes match. Matching behaves like equality of keys and
  the hash respects it.
\<close>

locale cache_client =
  fixes ops :: "('k, 'p) cache_ops"
    and pinv :: "'p \<Rightarrow> nat set \<Rightarrow> bool"
  assumes hash_less: "0 < hs \<Longrightarrow> op_hash ops k hs < hs"
    and alloc_new: "pinv p L \<Longrightarrow> \<exists>n p'. op_alloc ops k p = (Some n, p') \<and> n \<notin> L \<and> pinv p' (insert n L) \<and>
        op_compare ops p' n k \<and> (\<forall>m \<in> L. op_compare ops p' m = op_compare ops p m)"
    and relse_one: "pinv p L \<Longrightarrow> n \<in> L \<Longrightarrow> pinv (op_relse ops n p) (L - {n}) \<and>
        (\<forall>m \<in> L - {n}. op_compare ops (op_relse ops n p) m = op_compare ops p m)"
    and relse_bulk: "op_bulkrelse ops = Some f \<Longrightarrow> pinv p L \<Longrightarrow> set ns \<subseteq> L \<Longrightarrow> distinct ns \<Longrightarrow>
        pinv (snd (f ns p)) (L - set ns) \<and>
        (\<forall>m \<in> L - set ns. op_compare ops (snd (f ns p)) m = op_compare ops p m)"
    and flush_one: "op_flush ops = Some g \<Longrightarrow> pinv p L \<Longrightarrow> n \<in> L \<Longrightarrow> pinv (g n p) L \<and>
        (\<forall>m \<in> L. op_compare ops (g n p) m = op_compare ops p m)"
    and same_hash: "op_compare ops p n k \<Longrightarrow> op_compare ops p n k' \<Longrightarrow> op_hash ops k hs = op_hash ops k' hs"
    and same_key: "op_compare ops p n k \<Longrightarrow> op_compare ops p n k' \<Longrightarrow> op_compare ops p m k' \<Longrightarrow>
        op_compare ops p m k"

text \<open>Every cached node is in the chain of its key and no key has two nodes.\<close>

definition keys_ok :: "('k, 'p) cache_ops \<Rightarrow> cache \<Rightarrow> 'p \<Rightarrow> bool" where
  "keys_ok ops c p \<longleftrightarrow>
     (\<forall>n \<in> nodes c. \<forall>k. op_compare ops p n k \<longrightarrow>
        cn_hashidx (c_nodes c n) = op_hash ops k (c_hashsize c) \<and>
        (\<forall>m \<in> nodes c. op_compare ops p m k \<longrightarrow> m = n))"

definition cache_inv :: "('k, 'p) cache_ops \<Rightarrow> ('p \<Rightarrow> nat set \<Rightarrow> bool) \<Rightarrow> cache \<Rightarrow> 'p \<Rightarrow> bool" where
  "cache_inv ops pinv c p \<longleftrightarrow> cache_wf c \<and> pinv p (nodes c) \<and> keys_ok ops c p"

text \<open>What operations that only discard unreferenced nodes leave of the cache.\<close>

definition keeps_referenced :: "cache \<Rightarrow> cache \<Rightarrow> bool" where
  "keeps_referenced c c' \<longleftrightarrow> c_hashsize c' = c_hashsize c \<and> nodes c' \<subseteq> nodes c \<and>
     (\<forall>n \<in> nodes c'. c_nodes c' n = c_nodes c n) \<and>
     (\<forall>n \<in> nodes c. 0 < cn_count (c_nodes c n) \<longrightarrow> n \<in> nodes c')"

lemma keeps_referenced_refl: "keeps_referenced c c"
  by (simp add: keeps_referenced_def)

lemma keeps_referenced_trans:
  "keeps_referenced c c1 \<Longrightarrow> keeps_referenced c1 c2 \<Longrightarrow> keeps_referenced c c2"
  by (fastforce simp: keeps_referenced_def)

lemma keys_ok_subset:
  assumes "keys_ok ops c p" "keeps_referenced c c'"
    and "\<forall>m \<in> nodes c'. op_compare ops p' m = op_compare ops p m"
  shows "keys_ok ops c' p'"
  using assms unfolding keys_ok_def keeps_referenced_def by (metis (no_types) subsetD)

text \<open>The lookup leaves the limit alone as long as a node of a priority below the highest is idle.\<close>

definition size_post :: "nat \<Rightarrow> cache \<Rightarrow> cache \<Rightarrow> bool" where
  "size_post prio c c' \<longleftrightarrow> c_count c \<le> c_maxcount c \<longrightarrow> c_count c' \<le> c_maxcount c' \<and>
     (c_count c < c_maxcount c \<or> (\<exists>q. prio \<le> q \<and> q < CACHE_MAX_PRIORITY \<and> idle c q \<noteq> {}) \<longrightarrow>
        c_maxcount c' = c_maxcount c)"

context cache_client
begin

lemma generic_bulkrelse_ok:
  "pinv p L \<Longrightarrow> set ns \<subseteq> L \<Longrightarrow> distinct ns \<Longrightarrow>
   pinv (snd (cache_generic_bulkrelse ops ns p)) (L - set ns) \<and>
   (\<forall>m \<in> L - set ns. op_compare ops (snd (cache_generic_bulkrelse ops ns p)) m = op_compare ops p m)"
proof (induction ns arbitrary: p L)
  case Nil
  then show ?case by simp
next
  case (Cons n ns)
  have r: "pinv (op_relse ops n p) (L - {n})"
    "\<forall>m \<in> L - {n}. op_compare ops (op_relse ops n p) m = op_compare ops p m"
    using relse_one [OF Cons.prems(1), of n] Cons.prems(2) by auto
  have "set ns \<subseteq> L - {n}" using Cons.prems by auto
  moreover have "L - {n} - set ns = L - set (n # ns)" by auto
  ultimately show ?case
    using Cons.IH [OF r(1)] r(2) Cons.prems(3) by (auto simp: split_beta)
qed

lemma bulkrelse_ok:
  assumes "pinv p L" "set ns \<subseteq> L" "distinct ns"
  shows "pinv (snd (bulkrelse ops ns p)) (L - set ns) \<and>
    (\<forall>m \<in> L - set ns. op_compare ops (snd (bulkrelse ops ns p)) m = op_compare ops p m)"
proof (cases "op_bulkrelse ops")
  case None
  then show ?thesis using generic_bulkrelse_ok [OF assms] by (simp add: bulkrelse_def)
next
  case (Some f)
  then show ?thesis using relse_bulk [OF Some assms] by (simp add: bulkrelse_def)
qed

lemma cache_shake_ok:
  assumes inv: "cache_inv ops pinv c p" and sh: "cache_shake ops c p prio all = (r, c', p')"
    and pr: "prio \<le> CACHE_MAX_PRIORITY"
  shows "cache_inv ops pinv c' p'" and "keeps_referenced c c'" and "c_maxcount c' = c_maxcount c"
    and "\<forall>m \<in> nodes c'. op_compare ops p' m = op_compare ops p m"
    and "r = prio \<and> c_count c' < c_count c \<or>
         r = prio + 1 \<and> c_count c' \<le> c_count c"
    and "all \<longrightarrow> (\<forall>n \<in> idle c prio. n \<notin> nodes c')"
    and "nodes c - nodes c' \<subseteq> idle c prio"
    and "idle c prio \<noteq> {} \<longrightarrow> c_count c' < c_count c"
proof -
  have wf: "lists_ok c" "c_count c = int (card (nodes c))" and pi: "pinv p (nodes c)" and ky: "keys_ok ops c p"
    using inv by (auto simp: cache_inv_def cache_wf_def)
  have mr: "distinct (cm_list (c_mrus c prio))" "set (cm_list (c_mrus c prio)) = idle c prio"
    using wf(1) pr by (auto simp: lists_ok_def mrus_ok_def)
  obtain taken c1 where L: "shake_loop prio all (rev (cm_list (c_mrus c prio))) 0 [] c =
      (length taken, rev taken, c1)" and S: "shaken prio all (rev (cm_list (c_mrus c prio))) taken c c1"
    using shake_loop_ok [OF pr wf(1), of "rev (cm_list (c_mrus c prio))" all 0 "[]"] mr by auto
  have T: "lists_ok c1" "nodes c1 = nodes c - set taken" "c_count c1 = c_count c"
    "c_maxcount c1 = c_maxcount c" "c_hashsize c1 = c_hashsize c"
    "\<forall>m. m \<notin> set taken \<longrightarrow> c_nodes c1 m = c_nodes c m" "set taken \<subseteq> idle c prio" "distinct taken"
    "all \<longrightarrow> set taken = idle c prio" "idle c prio \<noteq> {} \<longrightarrow> taken \<noteq> []"
    using S mr by (auto simp: shaken_def)
  have tn: "set taken \<subseteq> nodes c" using T(7) by (auto simp: idle_def)
  have cd: "int (card (nodes c - set taken)) = int (card (nodes c)) - int (length taken)"
    using card_Diff_subset [OF _ tn] card_mono [OF finite_nodes tn] T(8)
    by (simp add: distinct_card of_nat_diff)
  then have le: "int (length taken) \<le> c_count c" using wf(2) by simp
  define p1 where "p1 = (if length taken > 0 then snd (bulkrelse ops (rev taken) p) else p)"
  define c2 where "c2 = (if length taken > 0 then c1\<lparr>c_count := c_count c - int (length taken)\<rparr> else c1)"
  have sh': "r = (if length taken = CACHE_SHAKE_COUNT then prio else prio + 1)" "c' = c2" "p' = p1"
    using sh L pr le T(3) by (auto simp: cache_shake_def Let_def c2_def p1_def)
  have nc: "nodes c2 = nodes c - set taken" "c_nodes c2 = c_nodes c1" "c_hashsize c2 = c_hashsize c"
    "c_count c2 = c_count c - int (length taken)" "c_maxcount c2 = c_maxcount c"
    using T by (auto simp: c2_def nodes_def)
  have P: "pinv p1 (nodes c2)" "\<forall>m \<in> nodes c2. op_compare ops p1 m = op_compare ops p m"
    using bulkrelse_ok [OF pi, of "rev taken"] tn T(8) pi nc(1) by (auto simp: p1_def)
  have lo: "lists_ok c2" using T(1)
    by (auto simp: c2_def lists_ok_def chains_ok_def mrus_ok_def counts_ok_def nodes_def idle_def)
  show kr: "keeps_referenced c c'"
    using T(6,7) nc sh' by (auto simp: keeps_referenced_def idle_def)
  have "cache_wf c2" using lo nc(1,4) cd wf(2) by (simp add: cache_wf_def)
  then show "cache_inv ops pinv c' p'"
    using P keys_ok_subset [OF ky kr] sh' by (simp add: cache_inv_def)
  show "c_maxcount c' = c_maxcount c" using nc sh' by simp
  show "\<forall>m \<in> nodes c'. op_compare ops p' m = op_compare ops p m" using P sh' by simp
  show "r = prio \<and> c_count c' < c_count c \<or> r = prio + 1 \<and> c_count c' \<le> c_count c"
    using sh' nc(4) by (auto simp: CACHE_SHAKE_COUNT_def)
  show "all \<longrightarrow> (\<forall>n \<in> idle c prio. n \<notin> nodes c')" using T(9) nc(1) sh' by auto
  show "nodes c - nodes c' \<subseteq> idle c prio" using T(7) nc(1) sh' by auto
  show "idle c prio \<noteq> {} \<longrightarrow> c_count c' < c_count c" using T(10) nc(4) sh' by simp
qed

text \<open>A hit takes one more reference and leaves everything else alone.\<close>

lemma cache_hit_ok:
  assumes inv: "cache_inv ops pinv c p" and n: "n \<in> nodes c"
  shows "cache_inv ops pinv (cache_hit n c) p" and "nodes (cache_hit n c) = nodes c"
    and "cn_count (c_nodes (cache_hit n c) n) = cn_count (c_nodes c n) + 1"
    and "\<forall>m. m \<noteq> n \<longrightarrow> c_nodes (cache_hit n c) m = c_nodes c m"
    and "cn_priority (c_nodes (cache_hit n c) n) = cn_priority (c_nodes c n)"
    and "c_count (cache_hit n c) = c_count c" and "c_maxcount (cache_hit n c) = c_maxcount c"
proof -
  define pr where "pr = nat (cn_priority (c_nodes c n))"
  have wf: "chains_ok c" "mrus_ok c" "counts_ok c" "c_count c = int (card (nodes c))"
    and pi: "pinv p (nodes c)" and ky: "keys_ok ops c p"
    using inv by (auto simp: cache_inv_def cache_wf_def lists_ok_def)
  have pr: "pr \<le> CACHE_MAX_PRIORITY" "cn_priority (c_nodes c n) = int pr" "0 \<le> cn_count (c_nodes c n)"
    using wf(3) n by (auto simp: counts_ok_def pr_def)
  have H: "c_hash (cache_hit n c) = c_hash c" "c_hashsize (cache_hit n c) = c_hashsize c"
    "c_count (cache_hit n c) = c_count c"
    "c_nodes (cache_hit n c) = (c_nodes c)(n := (c_nodes c n)\<lparr>cn_count := cn_count (c_nodes c n) + 1\<rparr>)"
    "c_mrus (cache_hit n c) = (if cn_count (c_nodes c n) = 0
       then (c_mrus c)(pr := \<lparr>cm_list = remove1 n (cm_list (c_mrus c pr)),
               cm_count = dec32 (cm_count (c_mrus c pr))\<rparr>) else c_mrus c)"
    by (auto simp: cache_hit_def Let_def upd_defs pr_def)
  show nd: "nodes (cache_hit n c) = nodes c" by (simp add: nodes_def H)
  have idl: "idle (cache_hit n c) q = idle c q - {n}" for q
    using pr(3) nd by (auto simp: idle_def H)
  have "chains_ok (cache_hit n c)" using wf(1) by (auto simp: chains_ok_def H)
  moreover have "counts_ok (cache_hit n c)" using wf(3) nd by (auto simp: counts_ok_def H)
  moreover have "mrus_ok (cache_hit n c)"
    unfolding mrus_ok_def
  proof (intro allI impI)
    fix q assume q: "q \<le> CACHE_MAX_PRIORITY"
    then have o: "distinct (cm_list (c_mrus c q))" "cm_count (c_mrus c q) = int (length (cm_list (c_mrus c q)))"
        "set (cm_list (c_mrus c q)) = idle c q"
      using wf(2) by (auto simp: mrus_ok_def)
    show "distinct (cm_list (c_mrus (cache_hit n c) q)) \<and>
        cm_count (c_mrus (cache_hit n c) q) = int (length (cm_list (c_mrus (cache_hit n c) q))) \<and>
        set (cm_list (c_mrus (cache_hit n c) q)) = idle (cache_hit n c) q"
    proof (cases "cn_count (c_nodes c n) = 0 \<and> q = pr")
      case True
      then have ni: "n \<in> set (cm_list (c_mrus c pr))" using o n pr(2) by (auto simp: idle_def)
      then have "0 < length (cm_list (c_mrus c pr))" by (auto intro: length_pos_if_in_set)
      then show ?thesis
        using o ni True by (auto simp: H(5) idl distinct_remove1 length_remove1_int)
    next
      case False
      then have "n \<notin> idle c q" using pr(2) by (auto simp: idle_def)
      then show ?thesis using o False by (auto simp: H(5) idl)
    qed
  qed
  ultimately have "cache_wf (cache_hit n c)" using wf(4) nd H(3) by (simp add: cache_wf_def lists_ok_def)
  moreover have "keys_ok ops (cache_hit n c) p" using ky nd by (auto simp: keys_ok_def H)
  ultimately show "cache_inv ops pinv (cache_hit n c) p" using pi nd by (simp add: cache_inv_def)
  show "cn_count (c_nodes (cache_hit n c) n) = cn_count (c_nodes c n) + 1"
    and "\<forall>m. m \<noteq> n \<longrightarrow> c_nodes (cache_hit n c) m = c_nodes c m"
    and "cn_priority (c_nodes (cache_hit n c) n) = cn_priority (c_nodes c n)"
    and "c_count (cache_hit n c) = c_count c" by (simp_all add: H)
  show "c_maxcount (cache_hit n c) = c_maxcount c" by (auto simp: cache_hit_def Let_def upd_defs)
qed

text \<open>A miss with room: the new node has one reference, and nothing else changes.\<close>

lemma cache_alloc_ok:
  assumes inv: "cache_inv ops pinv c p" and room: "c_count c < c_maxcount c"
    and none: "\<forall>m \<in> nodes c. \<not> op_compare ops p m key"
    and idx: "idx = op_hash ops key (c_hashsize c)"
  shows "\<exists>n c1 p1. cache_node_allocate ops c p key = (Some n, c1, p1) \<and> n \<notin> nodes c \<and>
      cache_inv ops pinv (cache_add idx n c1) p1 \<and> nodes (cache_add idx n c1) = insert n (nodes c) \<and>
      cn_count (c_nodes (cache_add idx n c1) n) = 1 \<and>
      (\<forall>m. m \<noteq> n \<longrightarrow> c_nodes (cache_add idx n c1) m = c_nodes c m) \<and>
      op_compare ops p1 n key \<and> (\<forall>m \<in> nodes c. op_compare ops p1 m = op_compare ops p m) \<and>
      cn_priority (c_nodes (cache_add idx n c1) n) = 0 \<and> c_count (cache_add idx n c1) = c_count c + 1 \<and>
      c_maxcount (cache_add idx n c1) = c_maxcount c"
proof -
  have wf: "chains_ok c" "mrus_ok c" "counts_ok c" "c_count c = int (card (nodes c))"
    and pi: "pinv p (nodes c)" and ky: "keys_ok ops c p"
    using inv by (auto simp: cache_inv_def cache_wf_def lists_ok_def)
  have hs: "0 < c_hashsize c" using wf(1) by (simp add: chains_ok_def)
  have ix: "idx < c_hashsize c" using hash_less [OF hs] idx by simp
  obtain n p1 where A: "op_alloc ops key p = (Some n, p1)" "n \<notin> nodes c" "pinv p1 (insert n (nodes c))"
      "op_compare ops p1 n key" "\<forall>m \<in> nodes c. op_compare ops p1 m = op_compare ops p m"
    using alloc_new [OF pi, of key] by blast
  define c1 where "c1 = fst (snd (cache_node_allocate ops c p key))"
  have al: "cache_node_allocate ops c p key = (Some n, c1, p1)"
    using A(1) room by (simp add: c1_def cache_node_allocate_def Let_def)
  define c2 where "c2 = cache_add idx n c1"
  have H: "c_hash c2 = (c_hash c)(idx := \<lparr>ch_list = n # ch_list (c_hash c idx),
        ch_count = ch_count (c_hash c idx) + 1\<rparr>)"
    "c_hashsize c2 = c_hashsize c" "c_count c2 = c_count c + 1" "c_mrus c2 = c_mrus c"
    "c_maxcount c2 = c_maxcount c"
    "c_nodes c2 = (c_nodes c)(n := \<lparr>cn_count = 1, cn_hashidx = idx, cn_priority = 0\<rparr>)"
    using A(1) room by (auto simp: c2_def c1_def cache_add_def cache_node_allocate_def Let_def upd_defs)
  have nd: "nodes c2 = insert n (nodes c)" using ix by (auto simp: nodes_def H split: if_splits)
  have nc: "n \<notin> set (ch_list (c_hash c i))" if "i < c_hashsize c" for i
    using A(2) that chain_nodes by blast
  have idl: "idle c2 q = idle c q" for q using nd A(2) by (auto simp: idle_def H)
  have "chains_ok c2" using wf(1) nc by (auto simp: chains_ok_def H)
  moreover have "mrus_ok c2" using wf(2) by (simp add: mrus_ok_def H idl)
  moreover have "counts_ok c2" using wf(3) nd A(2) by (auto simp: counts_ok_def H)
  moreover have "c_count c2 = int (card (nodes c2))" using wf(4) nd A(2) H(3) by simp
  moreover have "keys_ok ops c2 p1"
    unfolding keys_ok_def
  proof (intro ballI allI impI conjI)
    fix m k assume m: "m \<in> nodes c2" and mk: "op_compare ops p1 m k"
    show "cn_hashidx (c_nodes c2 m) = op_hash ops k (c_hashsize c2)"
      using m mk ky A(2,4,5) nd same_hash [OF A(4), of k] idx
      by (cases "m = n") (auto simp: keys_ok_def H)
    fix l assume l: "l \<in> nodes c2" and lk: "op_compare ops p1 l k"
    have old: "x = n" if "x \<in> nodes c2" "op_compare ops p1 x key" for x
      using that none nd A(5) by auto
    show "l = m"
    proof (cases "m = n \<or> l = n")
      case True
      then have "op_compare ops p1 m key \<and> op_compare ops p1 l key"
        using same_key [OF A(4), of k] A(4) mk lk by blast
      then show ?thesis using old m l by blast
    next
      case False
      then show ?thesis using ky m l mk lk nd A(5) by (auto simp: keys_ok_def)
    qed
  qed
  ultimately have "cache_inv ops pinv c2 p1" using A(3) nd by (simp add: cache_inv_def cache_wf_def lists_ok_def)
  then show ?thesis using al A(2,4,5) nd H(3,5,6) unfolding c2_def by (intro exI [of _ n] exI [of _ c1] exI [of _ p1]) simp
qed

lemma cache_alloc_full:
  "c_maxcount c \<le> c_count c \<Longrightarrow>
   cache_node_allocate ops c p key = (None, c\<lparr>c_misses := c_misses c + 1\<rparr>, p)"
  by (simp add: cache_node_allocate_def Let_def)

text \<open>Fields no invariant looks at.\<close>

lemma cache_inv_cong:
  assumes "c_hash c' = c_hash c" "c_hashsize c' = c_hashsize c" "c_mrus c' = c_mrus c"
    "c_nodes c' = c_nodes c" "c_count c' = c_count c"
  shows "cache_inv ops pinv c' p = cache_inv ops pinv c p" and "nodes c' = nodes c"
    and "keeps_referenced c c'"
  using assms
  by (auto simp: cache_inv_def cache_wf_def lists_ok_def chains_ok_def mrus_ok_def counts_ok_def
      keys_ok_def nodes_def idle_def keeps_referenced_def)

text \<open>What a caller of \<open>cache_node_get\<close> may rely on.\<close>

definition get_post :: "cache \<Rightarrow> 'p \<Rightarrow> 'k \<Rightarrow> bool \<Rightarrow> nat \<Rightarrow> cache \<Rightarrow> 'p \<Rightarrow> bool" where
  "get_post c p key miss n c' p' \<longleftrightarrow> cache_inv ops pinv c' p' \<and> n \<in> nodes c' \<and> op_compare ops p' n key \<and>
     (if miss then n \<notin> {m \<in> nodes c. 0 < cn_count (c_nodes c m)} \<and> cn_count (c_nodes c' n) = 1
      else n \<in> nodes c \<and> cn_count (c_nodes c' n) = cn_count (c_nodes c n) + 1) \<and>
     (\<forall>m \<in> nodes c. 0 < cn_count (c_nodes c m) \<and> m \<noteq> n \<longrightarrow> m \<in> nodes c' \<and> c_nodes c' m = c_nodes c m) \<and>
     (\<forall>m \<in> nodes c'. m \<noteq> n \<longrightarrow> m \<in> nodes c \<and> c_nodes c' m = c_nodes c m) \<and>
     (miss \<longrightarrow> cn_priority (c_nodes c' n) = 0) \<and>
     (\<not> miss \<longrightarrow> cn_priority (c_nodes c' n) = cn_priority (c_nodes c n) \<and> p' = p) \<and>
     (miss \<longleftrightarrow> (\<forall>m \<in> nodes c. \<not> op_compare ops p m key))"

lemma get_post_shrunk:
  assumes post: "get_post c2 p2 key miss n c' p'" and kr: "keeps_referenced c c2"
    and none: "\<forall>m \<in> nodes c. \<not> op_compare ops p m key"
    and cmp: "\<forall>m \<in> nodes c2. op_compare ops p2 m = op_compare ops p m"
  shows "get_post c p key miss n c' p'"
proof -
  have sub: "nodes c2 \<subseteq> nodes c" "\<forall>m \<in> nodes c2. c_nodes c2 m = c_nodes c m"
    "\<forall>m \<in> nodes c. 0 < cn_count (c_nodes c m) \<longrightarrow> m \<in> nodes c2"
    using kr by (auto simp: keeps_referenced_def)
  have "\<forall>m \<in> nodes c2. \<not> op_compare ops p2 m key" using none cmp sub(1) by auto
  then have m: miss using post unfolding get_post_def by blast
  then have P: "cache_inv ops pinv c' p'" "n \<in> nodes c'" "op_compare ops p' n key"
      "n \<notin> {m \<in> nodes c2. 0 < cn_count (c_nodes c2 m)}" "cn_count (c_nodes c' n) = 1"
      "\<forall>m \<in> nodes c2. 0 < cn_count (c_nodes c2 m) \<and> m \<noteq> n \<longrightarrow> m \<in> nodes c' \<and> c_nodes c' m = c_nodes c2 m"
      "\<forall>m \<in> nodes c'. m \<noteq> n \<longrightarrow> m \<in> nodes c2 \<and> c_nodes c' m = c_nodes c2 m"
      "cn_priority (c_nodes c' n) = 0"
    using post by (simp_all add: get_post_def)
  note P = m P
  have "n \<notin> {m \<in> nodes c. 0 < cn_count (c_nodes c m)}" using P(5) sub(2,3) by auto
  moreover have "\<forall>m \<in> nodes c. 0 < cn_count (c_nodes c m) \<and> m \<noteq> n \<longrightarrow>
      m \<in> nodes c' \<and> c_nodes c' m = c_nodes c m"
    using P(7) sub(2,3) by metis
  moreover have "\<forall>m \<in> nodes c'. m \<noteq> n \<longrightarrow> m \<in> nodes c \<and> c_nodes c' m = c_nodes c m"
    using P(8) sub(1,2) by (metis subsetD)
  ultimately show ?thesis using P(1-4,6,9) none by (simp add: get_post_def)
qed

lemma no_match_in_cache:
  assumes "cache_inv ops pinv c p" and "idx = op_hash ops key (c_hashsize c)"
    and "find (\<lambda>n. op_compare ops p n key) (ch_list (c_hash c idx)) = None"
  shows "\<forall>m \<in> nodes c. \<not> op_compare ops p m key"
proof (intro ballI notI)
  fix m assume m: "m \<in> nodes c" "op_compare ops p m key"
  then have "cn_hashidx (c_nodes c m) = idx"
    using assms(1,2) by (auto simp: cache_inv_def keys_ok_def)
  then have "m \<in> set (ch_list (c_hash c idx))"
    using m(1) assms(1) nodes_chain by (auto simp: cache_inv_def cache_wf_def lists_ok_def)
  then show False using assms(3) m(2) by (auto simp: find_None_iff)
qed

lemma size_post_step:
  assumes full: "c_maxcount c \<le> c_count c" and kr: "keeps_referenced c c2"
    and mx: "c_maxcount c2 = c_maxcount c"
    and r: "r = prio \<and> c_count c2 < c_count c \<or> r = prio + 1 \<and> c_count c2 \<le> c_count c"
    and gone: "nodes c - nodes c2 \<subseteq> idle c prio" and freed: "idle c prio \<noteq> {} \<longrightarrow> c_count c2 < c_count c"
    and pr: "prio \<le> CACHE_MAX_PRIORITY" and pos: "0 < c_maxcount c"
    and ex: "c_maxcount (cache_expand c2) = 2 * c_maxcount c"
    and post: "size_post (if r > CACHE_MAX_PRIORITY then 0 else r)
        (if r > CACHE_MAX_PRIORITY then cache_expand c2 else c2) c'"
  shows "size_post prio c c'"
proof (cases "c_count c \<le> c_maxcount c")
  case False
  then show ?thesis by (simp add: size_post_def)
next
  case True
  then have eq: "c_count c = c_maxcount c" using full by simp
  have cnt: "c_count (cache_expand c2) = c_count c2" by (simp add: cache_expand_def)
  show ?thesis
  proof (cases "r > CACHE_MAX_PRIORITY")
    case big: True
    then have "\<not> (\<exists>q. prio \<le> q \<and> q < CACHE_MAX_PRIORITY \<and> idle c q \<noteq> {})" using r pr by auto
    then show ?thesis using post big ex cnt eq r pos by (auto simp: size_post_def)
  next
    case small: False
    have P: "c_count c2 \<le> c_maxcount c2" using r eq mx by auto
    have "c_maxcount c' = c_maxcount c" if q: "prio \<le> q" "q < CACHE_MAX_PRIORITY" "idle c q \<noteq> {}" for q
    proof (cases "c_count c2 < c_count c")
      case True
      then show ?thesis using post small P mx eq by (simp add: size_post_def)
    next
      case same: False
      then have e: "idle c prio = {}" "r = prio + 1" using freed r by auto
      then have "nodes c \<subseteq> nodes c2" "q \<noteq> prio" using gone q(3) by auto
      then have "idle c q \<subseteq> idle c2 q" "r \<le> q"
        using kr e q(1) by (auto simp: idle_def keeps_referenced_def)
      then have "\<exists>q. r \<le> q \<and> q < CACHE_MAX_PRIORITY \<and> idle c2 q \<noteq> {}" using q by blast
      then show ?thesis using post small P mx by (simp add: size_post_def)
    qed
    then show ?thesis using post small P eq by (auto simp: size_post_def)
  qed
qed

text \<open>
  The loop of \<open>cache_node_get\<close> ends: a round without room either discards nodes, or goes on to the
  next priority, or doubles the limit.
\<close>

lemma cache_get_loop_ok:
  assumes "cache_inv ops pinv c p" and "idx = op_hash ops key (c_hashsize c)"
    and "prio \<le> CACHE_MAX_PRIORITY" and "0 < c_maxcount c" and "c_count c < 2 ^ 31"
  shows "\<exists>miss n c' p'. cache_get_loop ops key idx prio c p = Some (miss, n, c', p') \<and>
    get_post c p key miss n c' p' \<and> size_post prio c c'"
  using assms
proof (induction "nat (c_count c - c_maxcount c + 1) * 17 + (16 - prio)" arbitrary: c p prio rule: less_induct)
  case less
  note inv = less.prems(1)
  have ch: "chains_ok c" and ky: "keys_ok ops c p" using inv by (auto simp: cache_inv_def cache_wf_def lists_ok_def)
  show ?case
  proof (cases "find (\<lambda>n. op_compare ops p n key) (ch_list (c_hash c idx))")
    case (Some n)
    have n: "n \<in> set (ch_list (c_hash c idx))" "op_compare ops p n key"
      using Some by (auto simp: find_Some_iff)
    have nn: "n \<in> nodes c"
      using chain_nodes [OF _ n(1)] hash_less ch less.prems(2) by (auto simp: chains_ok_def)
    note h = cache_hit_ok [OF inv nn]
    have "get_post c p key False n (cache_hit n c) p" "size_post prio c (cache_hit n c)"
      using h nn n by (auto simp: get_post_def size_post_def)
    then show ?thesis using Some by (subst cache_get_loop.simps) auto
  next
    case None
    note none = no_match_in_cache [OF inv less.prems(2) None]
    show ?thesis
    proof (cases "c_count c < c_maxcount c")
      case True
      obtain n c1 p1 where A: "cache_node_allocate ops c p key = (Some n, c1, p1)" "n \<notin> nodes c"
          "cache_inv ops pinv (cache_add idx n c1) p1" "nodes (cache_add idx n c1) = insert n (nodes c)"
          "cn_count (c_nodes (cache_add idx n c1) n) = 1"
          "\<forall>m. m \<noteq> n \<longrightarrow> c_nodes (cache_add idx n c1) m = c_nodes c m" "op_compare ops p1 n key"
          "cn_priority (c_nodes (cache_add idx n c1) n) = 0" "c_count (cache_add idx n c1) = c_count c + 1"
          "c_maxcount (cache_add idx n c1) = c_maxcount c"
        using cache_alloc_ok [OF inv True none less.prems(2)] by blast
      have "get_post c p key True n (cache_add idx n c1) p1" "size_post prio c (cache_add idx n c1)"
        using A none True by (auto simp: get_post_def size_post_def)
      then show ?thesis using None A(1) by (subst cache_get_loop.simps) auto
    next
      case False
      define c1 where "c1 = c\<lparr>c_misses := c_misses c + 1\<rparr>"
      have c1: "cache_inv ops pinv c1 p" "nodes c1 = nodes c" "keeps_referenced c c1"
        using inv cache_inv_cong [where c' = c1 and c = c] by (auto simp: c1_def)
      obtain r c2 p2 where sh: "cache_shake ops c1 p prio False = (r, c2, p2)" by (metis prod_cases3)
      note S = cache_shake_ok [OF c1(1) sh less.prems(3)]
      have kr: "keeps_referenced c c2" using keeps_referenced_trans [OF c1(3) S(2)] .
      have hs: "c_hashsize c2 = c_hashsize c" using kr by (simp add: keeps_referenced_def)
      have sz: "c_count c2 \<le> c_count c" "c_maxcount c2 = c_maxcount c"
        using S(3,5) by (auto simp: c1_def)
      define prio' where "prio' = (if r > CACHE_MAX_PRIORITY then 0 else r)"
      define c3 where "c3 = (if r > CACHE_MAX_PRIORITY then cache_expand c2 else c2)"
      have mx: "c_maxcount (cache_expand c2) = 2 * c_maxcount c"
        using less.prems(4,5) False sz by (simp add: cache_expand_def)
      have c3: "cache_inv ops pinv c3 p2" "nodes c3 = nodes c2" "keeps_referenced c2 c3"
        using S(1) cache_inv_cong [where c' = "cache_expand c2" and c = c2] keeps_referenced_refl
        by (auto simp: c3_def cache_expand_def)
      have kr3: "keeps_referenced c c3" using keeps_referenced_trans [OF kr c3(3)] .
      have dec: "nat (c_count c3 - c_maxcount c3 + 1) * 17 + (16 - prio') <
          nat (c_count c - c_maxcount c + 1) * 17 + (16 - prio)"
      proof (cases "r > CACHE_MAX_PRIORITY")
        case True
        have "c_count c3 = c_count c2" by (simp add: c3_def cache_expand_def)
        then have "nat (c_count c3 - c_maxcount c3 + 1) < nat (c_count c - c_maxcount c + 1)"
          using True mx sz less.prems(4) False by (simp add: c3_def)
        moreover have "prio' = 0" using True by (simp add: prio'_def)
        ultimately show ?thesis by linarith
      next
        case r: False
        have "r = prio \<and> c_count c2 < c_count c \<or> r = prio + 1 \<and> c_count c2 \<le> c_count c"
          using S(5) by (simp add: c1_def)
        then show ?thesis
          using r sz False by (auto simp: c3_def prio'_def CACHE_MAX_PRIORITY_def)
      qed
      have pm: "prio' \<le> CACHE_MAX_PRIORITY" by (simp add: prio'_def)
      have ix: "idx = op_hash ops key (c_hashsize c3)"
        using less.prems(2) kr3 by (simp add: keeps_referenced_def)
      have mc: "0 < c_maxcount c3" "c_count c3 < 2 ^ 31"
        using mx sz less.prems(4,5) by (auto simp: c3_def cache_expand_def)
      obtain miss n c' p' where I: "cache_get_loop ops key idx prio' c3 p2 = Some (miss, n, c', p')"
          "get_post c3 p2 key miss n c' p'" "size_post prio' c3 c'"
        using less.hyps [OF dec c3(1) ix pm mc] by blast
      have cmp: "\<forall>m \<in> nodes c3. op_compare ops p2 m = op_compare ops p m" using S(4) c3(2) by simp
      have "cache_get_loop ops key idx prio c p = Some (miss, n, c', p')"
        using None False sh I(1) cache_alloc_full [of c p key]
        by (subst cache_get_loop.simps) (auto simp: c1_def c3_def prio'_def)
      moreover have "size_post prio c c'"
      proof (rule size_post_step [OF _ kr sz(2) _ _ _ less.prems(3,4) mx])
        show "c_maxcount c \<le> c_count c" using False by simp
        show "r = prio \<and> c_count c2 < c_count c \<or> r = prio + 1 \<and> c_count c2 \<le> c_count c"
          using S(5) by (simp add: c1_def)
        have id1: "idle c1 prio = idle c prio" using c1(2) by (simp add: idle_def c1_def)
        show "nodes c - nodes c2 \<subseteq> idle c prio" using S(7) c1(2) id1 by simp
        show "idle c prio \<noteq> {} \<longrightarrow> c_count c2 < c_count c" using S(8) id1 by (simp add: c1_def)
        show "size_post (if r > CACHE_MAX_PRIORITY then 0 else r)
            (if r > CACHE_MAX_PRIORITY then cache_expand c2 else c2) c'"
          using I(3) by (simp only: c3_def prio'_def)
      qed
      ultimately show ?thesis using get_post_shrunk [OF I(2) kr3 none cmp] by blast
    qed
  qed
qed

lemma cache_node_get_ok:
  assumes "cache_inv ops pinv c p" and "0 < c_maxcount c" and "c_count c < 2 ^ 31"
  shows "\<exists>miss n c' p'. cache_node_get ops c p key = Some (miss, n, c', p') \<and>
    get_post c p key miss n c' p' \<and> size_post 0 c c'"
  using cache_get_loop_ok [OF assms(1) refl _ assms(2,3), of 0] by (simp add: cache_node_get_def)

text \<open>The reference counts after a lookup: one more on the node returned.\<close>

lemma get_post_refs:
  assumes "cache_inv ops pinv c p" and G: "get_post c p key miss n c' p'"
  shows "refs c' = (refs c)(n := refs c n + 1)" and "0 \<le> refs c n"
proof -
  have co: "counts_ok c" using assms(1) by (auto simp: cache_inv_def cache_wf_def lists_ok_def)
  have z: "cn_count (c_nodes c m) = 0" if "m \<in> nodes c" "\<not> 0 < cn_count (c_nodes c m)" for m
    using that co by (auto simp: counts_ok_def)
  have F: "\<forall>m \<in> nodes c. 0 < cn_count (c_nodes c m) \<and> m \<noteq> n \<longrightarrow> m \<in> nodes c' \<and> c_nodes c' m = c_nodes c m"
      "\<forall>m \<in> nodes c'. m \<noteq> n \<longrightarrow> m \<in> nodes c \<and> c_nodes c' m = c_nodes c m"
    using G unfolding get_post_def by blast+
  have old: "refs c' m = refs c m" if "m \<noteq> n" for m
  proof (cases "m \<in> nodes c'")
    case True
    then have "m \<in> nodes c" "c_nodes c' m = c_nodes c m" using F(2) that by blast+
    then show ?thesis using True by (simp add: refs_def)
  next
    case False
    then have "\<not> (m \<in> nodes c \<and> 0 < cn_count (c_nodes c m))" using F(1) that by blast
    then show ?thesis using False z [of m] by (auto simp: refs_def)
  qed
  have new: "refs c' n = refs c n + 1"
  proof (cases miss)
    case True
    then have "n \<in> nodes c'" "cn_count (c_nodes c' n) = 1"
        "\<not> (n \<in> nodes c \<and> 0 < cn_count (c_nodes c n))"
      using G by (auto simp: get_post_def)
    then show ?thesis using z [of n] by (auto simp: refs_def)
  next
    case False
    then show ?thesis using G by (auto simp: get_post_def refs_def)
  qed
  show "refs c' = (refs c)(n := refs c n + 1)"
    using old new by (auto simp: fun_eq_iff)
  show "0 \<le> refs c n" using co by (auto simp: refs_def counts_ok_def)
qed

text \<open>Changes to the client's state alone.\<close>

lemma cache_inv_payload:
  assumes "cache_inv ops pinv c p" and "pinv p' (nodes c)"
    and "\<forall>m \<in> nodes c. op_compare ops p' m = op_compare ops p m"
  shows "cache_inv ops pinv c p'"
  using assms keys_ok_subset [OF _ keeps_referenced_refl] by (auto simp: cache_inv_def)

text \<open>Changes to a node whose lists and chain are not concerned.\<close>

lemma update_referenced_ok:
  assumes inv: "cache_inv ops pinv c p" and n: "n \<in> nodes c" "0 < cn_count (c_nodes c n)"
    and c': "c_hash c' = c_hash c" "c_hashsize c' = c_hashsize c" "c_mrus c' = c_mrus c"
      "c_count c' = c_count c" "c_nodes c' = (c_nodes c)(n := nd)"
    and nd: "0 < cn_count nd" "cn_hashidx nd = cn_hashidx (c_nodes c n)" "0 \<le> cn_priority nd"
      "cn_priority nd \<le> int CACHE_MAX_PRIORITY"
  shows "cache_inv ops pinv c' p" and "nodes c' = nodes c"
proof -
  show ns: "nodes c' = nodes c" by (simp add: nodes_def c')
  have "idle c' q = idle c q" for q using n nd ns by (auto simp: idle_def c')
  then show "cache_inv ops pinv c' p"
    using inv nd ns
    by (auto simp: cache_inv_def cache_wf_def lists_ok_def chains_ok_def mrus_ok_def counts_ok_def
        keys_ok_def c')
qed

lemma set_priority_ok:
  assumes inv: "cache_inv ops pinv c p" and n: "n \<in> nodes c" "0 < cn_count (c_nodes c n)"
  shows "cache_inv ops pinv (cache_node_set_priority c n pr) p"
    and "nodes (cache_node_set_priority c n pr) = nodes c"
    and "cn_count (c_nodes (cache_node_set_priority c n pr) m) = cn_count (c_nodes c m)"
proof -
  define q where "q = (if pr < 0 then 0 else if pr > int CACHE_MAX_PRIORITY then int CACHE_MAX_PRIORITY else pr)"
  have d: "cache_node_set_priority c n pr = upd_node n (\<lambda>nd. nd\<lparr>cn_priority := q\<rparr>) c"
    by (simp add: cache_node_set_priority_def Let_def q_def)
  have q: "0 \<le> q" "q \<le> int CACHE_MAX_PRIORITY" by (auto simp: q_def)
  note U = update_referenced_ok [OF inv n, of "cache_node_set_priority c n pr"
      "(c_nodes c n)\<lparr>cn_priority := q\<rparr>"]
  show "cache_inv ops pinv (cache_node_set_priority c n pr) p"
    using U(1) q n(2) by (simp add: d upd_node_def)
  show "nodes (cache_node_set_priority c n pr) = nodes c"
    using U(2) q n(2) by (simp add: d upd_node_def)
  show "cn_count (c_nodes (cache_node_set_priority c n pr) m) = cn_count (c_nodes c m)"
    by (simp add: d upd_node_def)
qed

text \<open>Giving a reference back; the last one puts the node on the list of its priority.\<close>

lemma cache_node_put_ok:
  assumes inv: "cache_inv ops pinv c p" and n: "n \<in> nodes c" "0 < cn_count (c_nodes c n)"
  shows "cache_inv ops pinv (cache_node_put c n) p" and "nodes (cache_node_put c n) = nodes c"
    and "cn_count (c_nodes (cache_node_put c n) n) = cn_count (c_nodes c n) - 1"
    and "\<forall>m. m \<noteq> n \<longrightarrow> c_nodes (cache_node_put c n) m = c_nodes c m"
proof -
  define pr where "pr = nat (cn_priority (c_nodes c n))"
  have wf: "chains_ok c" "mrus_ok c" "counts_ok c" "c_count c = int (card (nodes c))"
    and pi: "pinv p (nodes c)" and ky: "keys_ok ops c p"
    using inv by (auto simp: cache_inv_def cache_wf_def lists_ok_def)
  have pr: "pr \<le> CACHE_MAX_PRIORITY" "cn_priority (c_nodes c n) = int pr"
    using wf(3) n by (auto simp: counts_ok_def pr_def)
  define c' where "c' = cache_node_put c n"
  have H: "c_hash c' = c_hash c" "c_hashsize c' = c_hashsize c" "c_count c' = c_count c"
    "c_nodes c' = (c_nodes c)(n := (c_nodes c n)\<lparr>cn_count := cn_count (c_nodes c n) - 1\<rparr>)"
    "c_mrus c' = (if cn_count (c_nodes c n) = 1
       then (c_mrus c)(pr := \<lparr>cm_list = n # cm_list (c_mrus c pr), cm_count = cm_count (c_mrus c pr) + 1\<rparr>)
       else c_mrus c)"
    using n(2) by (auto simp: c'_def cache_node_put_def Let_def upd_defs pr_def)
  have nd: "nodes c' = nodes c" by (simp add: nodes_def H)
  have idl: "idle c' q = (if cn_count (c_nodes c n) = 1 \<and> q = pr then insert n (idle c q) else idle c q)" for q
    using pr n nd by (auto simp: idle_def H)
  have ni: "n \<notin> idle c q" for q using n by (auto simp: idle_def)
  have "chains_ok c'" using wf(1) by (auto simp: chains_ok_def H)
  moreover have "counts_ok c'" using wf(3) nd n by (auto simp: counts_ok_def H)
  moreover have "mrus_ok c'" using wf(2) ni pr by (auto simp: mrus_ok_def H(5) idl)
  moreover have "keys_ok ops c' p" using ky nd by (auto simp: keys_ok_def H)
  ultimately show "cache_inv ops pinv (cache_node_put c n) p"
    using pi nd wf(4) H(3) by (simp add: cache_inv_def cache_wf_def lists_ok_def c'_def)
  show "nodes (cache_node_put c n) = nodes c"
    and "cn_count (c_nodes (cache_node_put c n) n) = cn_count (c_nodes c n) - 1"
    and "\<forall>m. m \<noteq> n \<longrightarrow> c_nodes (cache_node_put c n) m = c_nodes c m"
    using nd H(4) by (simp_all add: c'_def)
qed

text \<open>Purging refuses a referenced node and removes an unreferenced one.\<close>

lemma cache_node_purge_ok:
  assumes inv: "cache_inv ops pinv c p" and n: "n \<in> nodes c" "op_compare ops p n key"
  shows "cn_count (c_nodes c n) \<noteq> 0 \<Longrightarrow> cache_node_purge ops c p key n = (False, c, p)"
    and "cn_count (c_nodes c n) = 0 \<Longrightarrow> \<exists>c'. cache_node_purge ops c p key n = (True, c', op_relse ops n p) \<and>
      cache_inv ops pinv c' (op_relse ops n p) \<and> nodes c' = nodes c - {n} \<and> keeps_referenced c c'"
proof -
  have wf: "lists_ok c" "c_count c = int (card (nodes c))"
    and pi: "pinv p (nodes c)" and ky: "keys_ok ops c p" and ch: "chains_ok c"
    using inv by (auto simp: cache_inv_def cache_wf_def lists_ok_def)
  have ix: "op_hash ops key (c_hashsize c) = cn_hashidx (c_nodes c n)" using ky n by (auto simp: keys_ok_def)
  have mem: "n \<in> set (ch_list (c_hash c (cn_hashidx (c_nodes c n))))" using nodes_chain [OF ch] n(1) by blast
  show "cn_count (c_nodes c n) \<noteq> 0 \<Longrightarrow> cache_node_purge ops c p key n = (False, c, p)"
    using ix mem by (simp add: cache_node_purge_def Let_def)
  assume z: "cn_count (c_nodes c n) = 0"
  define pr where "pr = nat (cn_priority (c_nodes c n))"
  have pr: "pr \<le> CACHE_MAX_PRIORITY" "n \<in> idle c pr"
    using wf(1) n(1) z by (auto simp: lists_ok_def counts_ok_def pr_def idle_def)
  define c' where "c' = fst (snd (cache_node_purge ops c p key n))"
  have pg: "cache_node_purge ops c p key n = (True, c', op_relse ops n p)"
    using ix mem z by (simp add: c'_def cache_node_purge_def Let_def)
  have c0: "0 < c_count c" using wf(2) n(1) by (auto simp: card_gt_0_iff)
  have H: "c_hashsize c' = c_hashsize c"
      "c_hash c' = (c_hash c)(cn_hashidx (c_nodes c n) :=
         \<lparr>ch_list = remove1 n (ch_list (c_hash c (cn_hashidx (c_nodes c n)))),
          ch_count = dec32 (ch_count (c_hash c (cn_hashidx (c_nodes c n))))\<rparr>)"
      "c_mrus c' = (c_mrus c)(pr := \<lparr>cm_list = remove1 n (cm_list (c_mrus c pr)),
          cm_count = dec32 (cm_count (c_mrus c pr))\<rparr>)"
      "c_nodes c' = c_nodes c" "c_count c' = c_count c - 1"
    using ix mem z c0 by (auto simp: c'_def cache_node_purge_def Let_def upd_defs pr_def)
  note R = remove_node_lists [OF wf(1) pr H(1-3)]
  have nd: "nodes c' = nodes c - {n}" and lo: "lists_ok c'" using R H(4) by simp_all
  have "int (card (nodes c - {n})) = int (card (nodes c)) - 1"
    using card_Suc_Diff1 [OF finite_nodes n(1)] by linarith
  then have "cache_wf c'" using lo nd H(5) wf(2) by (simp add: cache_wf_def)
  moreover have kr: "keeps_referenced c c'" using z by (auto simp: keeps_referenced_def nd H(1,4))
  moreover have "pinv (op_relse ops n p) (nodes c')" "keys_ok ops c' (op_relse ops n p)"
    using relse_one [OF pi n(1)] nd keys_ok_subset [OF ky kr] by simp_all
  ultimately show "\<exists>c'. cache_node_purge ops c p key n = (True, c', op_relse ops n p) \<and>
      cache_inv ops pinv c' (op_relse ops n p) \<and> nodes c' = nodes c - {n} \<and> keeps_referenced c c'"
    using pg nd by (auto simp: cache_inv_def)
qed

text \<open>Flushing keeps the invariant: the client's flush is called for cached nodes only.\<close>

lemma flush_nodes_ok:
  assumes "op_flush ops = Some g"
  shows "pinv p L \<Longrightarrow> set ns \<subseteq> L \<Longrightarrow> pinv (fold g ns p) L \<and>
    (\<forall>m \<in> L. op_compare ops (fold g ns p) m = op_compare ops p m)"
proof (induction ns arbitrary: p)
  case Nil
  then show ?case by simp
next
  case (Cons n ns)
  then show ?case using flush_one [OF assms, of p L n] Cons.IH [of "g n p"] by auto
qed

lemma cache_flush_ok:
  assumes inv: "cache_inv ops pinv c p"
  shows "cache_inv ops pinv c (cache_flush ops c p)"
proof (cases "op_flush ops")
  case None
  then show ?thesis using inv by (simp add: cache_flush_def)
next
  case (Some g)
  have pi: "pinv p (nodes c)" and ky: "keys_ok ops c p" and wf: "cache_wf c"
    using inv by (auto simp: cache_inv_def)
  have "set is \<subseteq> {..<c_hashsize c} \<Longrightarrow> pinv q (nodes c) \<Longrightarrow>
      pinv (fold (\<lambda>i. fold g (ch_list (c_hash c i))) is q) (nodes c) \<and>
      (\<forall>m \<in> nodes c. op_compare ops (fold (\<lambda>i. fold g (ch_list (c_hash c i))) is q) m = op_compare ops q m)"
    for "is" q
  proof (induction "is" arbitrary: q)
    case Nil
    then show ?case by simp
  next
    case (Cons i js)
    have "set (ch_list (c_hash c i)) \<subseteq> nodes c" using Cons.prems(1) by (auto simp: nodes_def)
    then show ?case
      using flush_nodes_ok [OF Some Cons.prems(2), of "ch_list (c_hash c i)"]
        Cons.IH [of "fold g (ch_list (c_hash c i)) q"] Cons.prems(1) by auto
  qed
  note W = this [of "[0..<c_hashsize c]" p, OF _ pi]
  have "set [0..<c_hashsize c] \<subseteq> {..<c_hashsize c}" by auto
  from W [OF this] have F: "pinv (cache_flush ops c p) (nodes c)"
    "\<forall>m \<in> nodes c. op_compare ops (cache_flush ops c p) m = op_compare ops p m"
    using Some by (auto simp: cache_flush_def cache_walk_def)
  then show ?thesis
    using wf keys_ok_subset [OF ky keeps_referenced_refl F(2)] by (simp add: cache_inv_def)
qed

lemma purge_loop_ok:
  "cache_inv ops pinv c p \<Longrightarrow> set is \<subseteq> {..CACHE_MAX_PRIORITY} \<Longrightarrow> purge_loop ops is c p = (c', p') \<Longrightarrow>
   cache_inv ops pinv c' p' \<and> keeps_referenced c c' \<and> (\<forall>q \<in> set is. idle c' q = {})"
proof (induction "is" arbitrary: c p)
  case Nil
  then show ?case by (simp add: keeps_referenced_refl)
next
  case (Cons i js)
  obtain r c1 p1 where sh: "cache_shake ops c p i True = (r, c1, p1)" by (metis prod_cases3)
  have "i \<le> CACHE_MAX_PRIORITY" using Cons.prems(2) by simp
  note S = cache_shake_ok [OF Cons.prems(1) sh this]
  have I: "cache_inv ops pinv c' p'" "keeps_referenced c1 c'" "\<forall>q \<in> set js. idle c' q = {}"
    using Cons.IH [OF S(1)] Cons.prems(2,3) sh by auto
  have kr: "keeps_referenced c c'" using keeps_referenced_trans [OF S(2) I(2)] .
  have "idle c' i = {}"
  proof (rule ccontr)
    assume "idle c' i \<noteq> {}"
    then obtain n where n: "n \<in> nodes c'" "cn_count (c_nodes c' n) = 0" "cn_priority (c_nodes c' n) = int i"
      by (auto simp: idle_def)
    have "n \<in> nodes c1" "c_nodes c1 n = c_nodes c' n" using I(2) n(1) by (auto simp: keeps_referenced_def)
    moreover have "n \<in> nodes c" "c_nodes c n = c_nodes c' n" using kr n(1) by (auto simp: keeps_referenced_def)
    ultimately show False using S(6) n by (auto simp: idle_def)
  qed
  then show ?case using I kr by simp
qed

text \<open>After a purge exactly the referenced nodes are left.\<close>

lemma cache_purge_ok:
  assumes inv: "cache_inv ops pinv c p" and pg: "cache_purge ops c p = (c', p')"
  shows "cache_inv ops pinv c' p'" and "nodes c' = {n \<in> nodes c. 0 < cn_count (c_nodes c n)}"
proof -
  obtain c1 p1 where L: "purge_loop ops [0..<CACHE_MAX_PRIORITY + 1] c p = (c1, p1)" by (metis surj_pair)
  have P: "cache_inv ops pinv c1 p1" "keeps_referenced c c1"
    "\<forall>q \<in> {0..<CACHE_MAX_PRIORITY + 1}. idle c1 q = {}"
  proof -
    have "set [0..<CACHE_MAX_PRIORITY + 1] \<subseteq> {..CACHE_MAX_PRIORITY}" by auto
    from purge_loop_ok [OF inv this L] show "cache_inv ops pinv c1 p1" "keeps_referenced c c1"
      "\<forall>q \<in> {0..<CACHE_MAX_PRIORITY + 1}. idle c1 q = {}"
      unfolding set_upt by blast+
  qed
  have e: "c' = c1" "p' = (if c_count c1 \<noteq> 0 then cache_flush ops c1 p1 else p1)"
    using pg L by (auto simp: cache_purge_def)
  show "cache_inv ops pinv c' p'" using P(1) cache_flush_ok [OF P(1)] by (simp add: e)
  have "0 < cn_count (c_nodes c n)" if n: "n \<in> nodes c1" for n
  proof -
    have k: "0 \<le> cn_count (c_nodes c1 n)" "0 \<le> cn_priority (c_nodes c1 n)"
        "cn_priority (c_nodes c1 n) \<le> int CACHE_MAX_PRIORITY"
      using P(1) n by (auto simp: cache_inv_def cache_wf_def lists_ok_def counts_ok_def)
    have "n \<notin> idle c1 (nat (cn_priority (c_nodes c1 n)))"
    proof -
      have "nat (cn_priority (c_nodes c1 n)) \<in> {0..<CACHE_MAX_PRIORITY + 1}" using k by simp
      then show ?thesis using P(3) by blast
    qed
    then have "cn_count (c_nodes c1 n) \<noteq> 0" using n k by (auto simp: idle_def)
    then show ?thesis using k(1) P(2) n by (auto simp: keeps_referenced_def)
  qed
  then show "nodes c' = {n \<in> nodes c. 0 < cn_count (c_nodes c n)}"
    using P(2) e by (auto simp: keeps_referenced_def)
qed

end

end
