(* ===== verification/Bmbt.thy ===== *)
theory Bmbt
  imports Inode
begin

text \<open>
  Packed extent records (libxfs/xfs_bmap_btree.c): file offset, start block, block count and the
  unwritten flag of an extent in two 64-bit words, in host order for the incore list and big-endian
  on disk. Words are machine words, so the shifts and masks are the C ones. The lemmas show that
  packing and unpacking are inverse to each other on the field widths of the format and that every
  setter changes its own field only.
\<close>

datatype xfs_exntst = XFS_EXT_NORM | XFS_EXT_UNWRITTEN

record xfs_bmbt_irec =
  br_startoff :: u64
  br_startblock :: u64
  br_blockcount :: u64
  br_state :: xfs_exntst

definition XFS_MASK64LO :: "nat \<Rightarrow> u64" where
  "XFS_MASK64LO n = push_bit n 1 - 1"

definition XFS_MASK64HI :: "nat \<Rightarrow> u64" where
  "XFS_MASK64HI n = push_bit (64 - n) (- 1)"

definition BMBT_EXNTFLAG_BITLEN :: nat where
  "BMBT_EXNTFLAG_BITLEN = 1"

section \<open>Unpacking\<close>

definition xfs_extent_state :: "u64 \<Rightarrow> u64 \<Rightarrow> xfs_exntst" where
  "xfs_extent_state blks extent_flag =
     (if extent_flag \<noteq> 0 then XFS_EXT_UNWRITTEN else XFS_EXT_NORM)"

definition xfs_bmbt_get_all_words :: "u64 \<Rightarrow> u64 \<Rightarrow> xfs_bmbt_irec" where
  "xfs_bmbt_get_all_words w0 w1 =
    (let ext_flag = drop_bit (64 - BMBT_EXNTFLAG_BITLEN) w0 in
     \<lparr> br_startoff = drop_bit 9 (w0 AND XFS_MASK64LO (64 - BMBT_EXNTFLAG_BITLEN)),
       br_startblock = push_bit 43 (w0 AND XFS_MASK64LO 9) OR drop_bit 21 w1,
       br_blockcount = w1 AND XFS_MASK64LO 21,
       br_state = (if ext_flag \<noteq> 0 then XFS_EXT_UNWRITTEN else XFS_EXT_NORM) \<rparr>)"

definition xfs_bmbt_get_all :: "bmbt_rec \<Rightarrow> xfs_bmbt_irec" where
  "xfs_bmbt_get_all r = xfs_bmbt_get_all_words (l0 r) (l1 r)"

definition xfs_bmbt_get_blockcount :: "bmbt_rec \<Rightarrow> u64" where
  "xfs_bmbt_get_blockcount r = l1 r AND XFS_MASK64LO 21"

definition xfs_bmbt_get_startblock :: "bmbt_rec \<Rightarrow> u64" where
  "xfs_bmbt_get_startblock r = push_bit 43 (l0 r AND XFS_MASK64LO 9) OR drop_bit 21 (l1 r)"

definition xfs_bmbt_get_startoff :: "bmbt_rec \<Rightarrow> u64" where
  "xfs_bmbt_get_startoff r = drop_bit 9 (l0 r AND XFS_MASK64LO (64 - BMBT_EXNTFLAG_BITLEN))"

definition xfs_bmbt_get_state :: "bmbt_rec \<Rightarrow> xfs_exntst" where
  "xfs_bmbt_get_state r =
     xfs_extent_state (xfs_bmbt_get_blockcount r) (drop_bit (64 - BMBT_EXNTFLAG_BITLEN) (l0 r))"

text \<open>The on-disk record: the two words big-endian at \<open>off\<close>.\<close>

definition xfs_bmbt_disk_get_all :: "bytes \<Rightarrow> nat \<Rightarrow> xfs_bmbt_irec option" where
  "xfs_bmbt_disk_get_all d off = do {
     w0 \<leftarrow> rd_be64 off d; w1 \<leftarrow> rd_be64 (off + 8) d;
     Some (xfs_bmbt_get_all_words (word_of_nat w0) (word_of_nat w1)) }"

definition xfs_bmbt_disk_get_blockcount :: "bytes \<Rightarrow> nat \<Rightarrow> u64 option" where
  "xfs_bmbt_disk_get_blockcount d off = do {
     w1 \<leftarrow> rd_be64 (off + 8) d; Some (word_of_nat w1 AND XFS_MASK64LO 21) }"

definition xfs_bmbt_disk_get_startoff :: "bytes \<Rightarrow> nat \<Rightarrow> u64 option" where
  "xfs_bmbt_disk_get_startoff d off = do {
     w0 \<leftarrow> rd_be64 off d;
     Some (drop_bit 9 (word_of_nat w0 AND XFS_MASK64LO (64 - BMBT_EXNTFLAG_BITLEN))) }"

section \<open>Packing\<close>

definition xfs_bmbt_set_allf :: "u64 \<Rightarrow> u64 \<Rightarrow> u64 \<Rightarrow> xfs_exntst \<Rightarrow> bmbt_rec" where
  "xfs_bmbt_set_allf startoff startblock blockcount state =
    (let extent_flag = (if state = XFS_EXT_NORM then 0 else 1) in
     \<lparr> l0 = push_bit 63 extent_flag OR push_bit 9 startoff OR drop_bit 43 startblock,
       l1 = push_bit 21 startblock OR (blockcount AND XFS_MASK64LO 21) \<rparr>)"

definition xfs_bmbt_set_all :: "xfs_bmbt_irec \<Rightarrow> bmbt_rec" where
  "xfs_bmbt_set_all s =
     xfs_bmbt_set_allf (br_startoff s) (br_startblock s) (br_blockcount s) (br_state s)"

definition xfs_bmbt_disk_set_allf ::
    "bytes \<Rightarrow> nat \<Rightarrow> u64 \<Rightarrow> u64 \<Rightarrow> u64 \<Rightarrow> xfs_exntst \<Rightarrow> bytes option" where
  "xfs_bmbt_disk_set_allf d off startoff startblock blockcount state =
    (let extent_flag = (if state = XFS_EXT_NORM then 0 else 1);
         w0 = push_bit 63 extent_flag OR push_bit 9 startoff OR drop_bit 43 startblock;
         w1 = push_bit 21 startblock OR (blockcount AND XFS_MASK64LO 21)
     in do { d' \<leftarrow> wr_be 8 (unat (w0 :: u64)) off d; wr_be 8 (unat (w1 :: u64)) (off + 8) d' })"

definition xfs_bmbt_disk_set_all :: "bytes \<Rightarrow> nat \<Rightarrow> xfs_bmbt_irec \<Rightarrow> bytes option" where
  "xfs_bmbt_disk_set_all d off s =
     xfs_bmbt_disk_set_allf d off (br_startoff s) (br_startblock s) (br_blockcount s) (br_state s)"

definition xfs_bmbt_set_blockcount :: "bmbt_rec \<Rightarrow> u64 \<Rightarrow> bmbt_rec" where
  "xfs_bmbt_set_blockcount r v =
     r\<lparr>l1 := (l1 r AND XFS_MASK64HI 43) OR (v AND XFS_MASK64LO 21)\<rparr>"

definition xfs_bmbt_set_startblock :: "bmbt_rec \<Rightarrow> u64 \<Rightarrow> bmbt_rec" where
  "xfs_bmbt_set_startblock r v =
     r\<lparr>l0 := (l0 r AND XFS_MASK64HI 55) OR drop_bit 43 v,
       l1 := (l1 r AND XFS_MASK64LO 21) OR push_bit 21 v\<rparr>"

definition xfs_bmbt_set_startoff :: "bmbt_rec \<Rightarrow> u64 \<Rightarrow> bmbt_rec" where
  "xfs_bmbt_set_startoff r v =
     r\<lparr>l0 := (l0 r AND XFS_MASK64HI 1) OR push_bit 9 v OR (l0 r AND XFS_MASK64LO 9)\<rparr>"

definition xfs_bmbt_set_state :: "bmbt_rec \<Rightarrow> xfs_exntst \<Rightarrow> bmbt_rec" where
  "xfs_bmbt_set_state r v =
    (if v = XFS_EXT_NORM
     then r\<lparr>l0 := l0 r AND XFS_MASK64LO (64 - BMBT_EXNTFLAG_BITLEN)\<rparr>
     else r\<lparr>l0 := l0 r OR XFS_MASK64HI BMBT_EXNTFLAG_BITLEN\<rparr>)"

text \<open>The scan of freshly read records for a flag the file system does not support.\<close>

fun xfs_check_nostate_extents :: "bmbt_rec list \<Rightarrow> nat \<Rightarrow> nat \<Rightarrow> int option" where
  "xfs_check_nostate_extents exts idx 0 = Some 0"
| "xfs_check_nostate_extents exts idx (Suc num) =
    (if idx < length exts then
       (if drop_bit (64 - BMBT_EXNTFLAG_BITLEN) (l0 (exts ! idx)) \<noteq> 0 then Some 1
        else xfs_check_nostate_extents exts (idx + 1) num)
     else None)"

section \<open>Packing and unpacking are inverse\<close>

text \<open>The widths of the format.\<close>

definition irec_fits :: "xfs_bmbt_irec \<Rightarrow> bool" where
  "irec_fits s \<longleftrightarrow> unat (br_startoff s) < 2 ^ 54 \<and> unat (br_startblock s) < 2 ^ 52 \<and>
     unat (br_blockcount s) < 2 ^ 21"

lemma bit_MASK64LO [simp]: "bit (XFS_MASK64LO n) i \<longleftrightarrow> i < n \<and> i < 64"
  by (simp add: XFS_MASK64LO_def flip: mask_eq_exp_minus_1 push_bit_of_1) (auto simp: push_bit_of_1 bit_mask_iff simp flip: mask_eq_exp_minus_1)

lemma bit_MASK64HI [simp]: "bit (XFS_MASK64HI n) i \<longleftrightarrow> 64 - n \<le> i \<and> i < 64"
  by (auto simp: XFS_MASK64HI_def bit_simps)

lemma bit_less_pow:
  fixes w :: u64
  assumes "unat w < 2 ^ n" and "bit w i"
  shows "i < n"
proof -
  have "bit (unat w) i"
    using assms(2) bit_imp_le_length [OF assms(2)] by (simp add: bit_unsigned_iff)
  moreover have "take_bit n (unat w) = unat w" using assms(1) by (rule take_bit_nat_eq_self)
  ultimately show ?thesis by (metis bit_take_bit_iff)
qed

lemma state_flag: "(drop_bit 63 (w :: u64) \<noteq> 0) = bit w 63"
proof
  assume "drop_bit 63 w \<noteq> 0"
  then obtain i where "bit w (63 + i)" by (auto simp: bit_eq_iff bit_simps)
  then show "bit w 63" using bit_imp_le_length [of w "63 + i"] by (cases i) auto
next
  assume "bit w 63"
  then have "bit (drop_bit 63 w) 0" by (simp add: bit_simps)
  then show "drop_bit 63 w \<noteq> 0" by auto
qed

lemmas bmbt_defs = xfs_bmbt_get_all_def xfs_bmbt_get_all_words_def xfs_bmbt_set_all_def
  xfs_bmbt_set_allf_def BMBT_EXNTFLAG_BITLEN_def Let_def

lemma get_all_state: "br_state (xfs_bmbt_get_all r) = (if bit (l0 r) 63 then XFS_EXT_UNWRITTEN else XFS_EXT_NORM)"
  by (simp add: xfs_bmbt_get_all_def xfs_bmbt_get_all_words_def BMBT_EXNTFLAG_BITLEN_def state_flag)

lemma get_set_all:
  assumes "irec_fits s"
  shows "xfs_bmbt_get_all (xfs_bmbt_set_all s) = s"
proof -
  have o: "bit (br_startoff s) i \<Longrightarrow> i < 54" and b: "bit (br_startblock s) i \<Longrightarrow> i < 52"
    and c: "bit (br_blockcount s) i \<Longrightarrow> i < 21" for i
    using assms bit_less_pow unfolding irec_fits_def by blast+
  have "br_startoff (xfs_bmbt_get_all (xfs_bmbt_set_all s)) = br_startoff s"
    by (rule bit_word_eqI) (auto simp: bmbt_defs bit_simps dest: o b c)
  moreover have "br_startblock (xfs_bmbt_get_all (xfs_bmbt_set_all s)) = br_startblock s"
    by (rule bit_word_eqI) (auto simp: bmbt_defs bit_simps dest: o b c)
  moreover have "br_blockcount (xfs_bmbt_get_all (xfs_bmbt_set_all s)) = br_blockcount s"
    by (rule bit_word_eqI) (auto simp: bmbt_defs bit_simps dest: o b c)
  moreover have "br_state (xfs_bmbt_get_all (xfs_bmbt_set_all s)) = br_state s"
    unfolding get_all_state
    by (cases "br_state s")
      (auto simp: xfs_bmbt_set_all_def xfs_bmbt_set_allf_def Let_def bit_simps dest: o b c)
  ultimately show ?thesis by simp
qed

lemma set_get_all: "xfs_bmbt_set_all (xfs_bmbt_get_all r) = r"
proof -
  have "bit (l0 (xfs_bmbt_set_all (xfs_bmbt_get_all r))) n = bit (l0 r) n" if "n < 64" for n
  proof (cases "n = 63")
    case True
    then show ?thesis
      by (simp add: xfs_bmbt_set_all_def xfs_bmbt_set_allf_def Let_def get_all_state bit_simps)
        (auto simp: bmbt_defs bit_simps dest: bit_imp_le_length)
  next
    case False
    then have "n < 63" using that by simp
    then show ?thesis
      by (cases "n < 9") (auto simp: bmbt_defs bit_simps)
  qed
  then have "l0 (xfs_bmbt_set_all (xfs_bmbt_get_all r)) = l0 r" by (intro bit_word_eqI) simp
  moreover have "l1 (xfs_bmbt_set_all (xfs_bmbt_get_all r)) = l1 r"
    by (rule bit_word_eqI) (auto simp: bmbt_defs bit_simps)
  ultimately show ?thesis by simp
qed

lemma get_all_fits: "irec_fits (xfs_bmbt_get_all r)"
proof -
  have lim: "unat w < 2 ^ n" if "\<And>i. bit w i \<Longrightarrow> i < n" for w :: u64 and n
  proof -
    have "take_bit n (unat w) = unat w"
      by (rule bit_eqI) (use that in \<open>auto simp: bit_take_bit_iff bit_unsigned_iff\<close>)
    then show ?thesis by (simp add: take_bit_nat_eq_self_iff)
  qed
  show ?thesis
    unfolding irec_fits_def
    by (intro conjI lim) (auto simp: bmbt_defs bit_simps dest: bit_imp_le_length)
qed

text \<open>The field readers agree with the full unpacking.\<close>

lemma get_field_readers:
  "xfs_bmbt_get_startoff r = br_startoff (xfs_bmbt_get_all r)"
  "xfs_bmbt_get_startblock r = br_startblock (xfs_bmbt_get_all r)"
  "xfs_bmbt_get_blockcount r = br_blockcount (xfs_bmbt_get_all r)"
  "xfs_bmbt_get_state r = br_state (xfs_bmbt_get_all r)"
  by (simp_all add: bmbt_defs xfs_bmbt_get_startoff_def xfs_bmbt_get_startblock_def
      xfs_bmbt_get_blockcount_def xfs_bmbt_get_state_def xfs_extent_state_def)

text \<open>Where the bits of the fields are.\<close>

lemma bit_get_all:
  "bit (br_startoff (xfs_bmbt_get_all r)) i \<longleftrightarrow> i < 54 \<and> bit (l0 r) (9 + i)"
  "bit (br_startblock (xfs_bmbt_get_all r)) i \<longleftrightarrow>
     i < 52 \<and> (if i < 43 then bit (l1 r) (21 + i) else bit (l0 r) (i - 43))"
  "bit (br_blockcount (xfs_bmbt_get_all r)) i \<longleftrightarrow> i < 21 \<and> bit (l1 r) i"
  by (auto simp: bmbt_defs bit_simps dest: bit_imp_le_length)

lemma get_all_eqI:
  assumes "\<And>i. bit (br_startoff s) i \<longleftrightarrow> i < 54 \<and> bit (l0 r) (9 + i)"
    and "\<And>i. bit (br_startblock s) i \<longleftrightarrow>
      i < 52 \<and> (if i < 43 then bit (l1 r) (21 + i) else bit (l0 r) (i - 43))"
    and "\<And>i. bit (br_blockcount s) i \<longleftrightarrow> i < 21 \<and> bit (l1 r) i"
    and "br_state s = (if bit (l0 r) 63 then XFS_EXT_UNWRITTEN else XFS_EXT_NORM)"
  shows "xfs_bmbt_get_all r = s"
proof (rule xfs_bmbt_irec.equality)
  show "br_startoff (xfs_bmbt_get_all r) = br_startoff s"
    by (rule bit_eqI) (simp add: bit_get_all assms)
  show "br_startblock (xfs_bmbt_get_all r) = br_startblock s"
    by (rule bit_eqI) (simp only: bit_get_all assms)
  show "br_blockcount (xfs_bmbt_get_all r) = br_blockcount s"
    by (rule bit_eqI) (simp add: bit_get_all assms)
  show "br_state (xfs_bmbt_get_all r) = br_state s" by (simp add: get_all_state assms)
qed simp

lemma set_startoff_bits:
  assumes o: "\<And>i. bit v i \<Longrightarrow> i < 54"
  shows "bit (l0 (xfs_bmbt_set_startoff r v)) i \<longleftrightarrow>
     (if i < 9 \<or> i = 63 then bit (l0 r) i else bit v (i - 9))"
    and "l1 (xfs_bmbt_set_startoff r v) = l1 r"
  by (auto simp: xfs_bmbt_set_startoff_def bit_simps dest: o bit_imp_le_length)

lemma set_startblock_bits:
  assumes b: "\<And>i. bit v i \<Longrightarrow> i < 52"
  shows "bit (l0 (xfs_bmbt_set_startblock r v)) i \<longleftrightarrow>
     (if i < 9 then bit v (43 + i) else bit (l0 r) i)"
    and "bit (l1 (xfs_bmbt_set_startblock r v)) i \<longleftrightarrow>
     i < 64 \<and> (if i < 21 then bit (l1 r) i else bit v (i - 21))"
  by (auto simp: xfs_bmbt_set_startblock_def bit_simps dest: b bit_imp_le_length)

lemma set_blockcount_bits:
  "l0 (xfs_bmbt_set_blockcount r v) = l0 r"
  "bit (l1 (xfs_bmbt_set_blockcount r v)) i \<longleftrightarrow> (if i < 21 then bit v i else bit (l1 r) i)"
  by (auto simp: xfs_bmbt_set_blockcount_def bit_simps dest: bit_imp_le_length)

lemma set_state_bits:
  "bit (l0 (xfs_bmbt_set_state r st)) i \<longleftrightarrow>
     (if i = 63 then st = XFS_EXT_UNWRITTEN else bit (l0 r) i)"
  "l1 (xfs_bmbt_set_state r st) = l1 r"
  by (cases st; auto simp: xfs_bmbt_set_state_def BMBT_EXNTFLAG_BITLEN_def bit_simps
      dest: bit_imp_le_length)+

text \<open>
  C28: Packing an extent record on disk and unpacking it gives the record back for every value the
  field widths hold, the write stays within its sixteen bytes; and every pair of words is the packing
  of the record it unpacks to, so no two records share a representation.
\<close>

theorem bmbt_roundtrip:
  assumes "irec_fits s" and "off + 16 \<le> length d"
  shows "\<exists>d'. xfs_bmbt_disk_set_all d off s = Some d' \<and> xfs_bmbt_disk_get_all d' off = Some s \<and>
      length d' = length d \<and> (\<forall>i < length d. i < off \<or> off + 16 \<le> i \<longrightarrow> d' ! i = d ! i) \<and>
      xfs_bmbt_set_all (xfs_bmbt_get_all r) = r"
proof -
  define w where "w = xfs_bmbt_set_all s"
  obtain d1 where d1: "wr_be 8 (unat (l0 w)) off d = Some d1"
    using assms(2) wr_be_Some_iff [of 8 "unat (l0 w)" off d] by auto
  have len1: "length d1 = length d" by (rule wr_be_length [OF d1])
  obtain d2 where d2: "wr_be 8 (unat (l1 w)) (off + 8) d1 = Some d2"
    using assms(2) len1 wr_be_Some_iff [of 8 "unat (l1 w)" "off + 8" d1] by auto
  have set: "xfs_bmbt_disk_set_all d off s = Some d2"
    using d1 d2 by (simp add: xfs_bmbt_disk_set_all_def xfs_bmbt_disk_set_allf_def w_def
        xfs_bmbt_set_all_def xfs_bmbt_set_allf_def Let_def)
  have lt: "unat x < 256 ^ 8" for x :: u64 using unsigned_less [of x] by simp
  have "rd_be64 off d2 = Some (unat (l0 w))"
    using rd_be_wr_other [OF d2, of off 8] rd_be_wr_same [OF d1] lt [of "l0 w"] by simp
  moreover have "rd_be64 (off + 8) d2 = Some (unat (l1 w))"
    using rd_be_wr_same [OF d2] lt [of "l1 w"] by simp
  ultimately have get: "xfs_bmbt_disk_get_all d2 off = Some s"
    using get_set_all [OF assms(1)]
    by (simp add: xfs_bmbt_disk_get_all_def xfs_bmbt_get_all_def w_def)
  have frame: "d2 ! i = d ! i" if "i < length d" "i < off \<or> off + 16 \<le> i" for i
    using that d1 d2 len1 wr_bytes_nth [of off _ d d1 i] wr_bytes_nth [of "off + 8" _ d1 d2 i]
    by (auto simp: wr_be_def)
  show ?thesis
    using set get frame set_get_all len1 wr_be_length [OF d2] by auto
qed

theorem bmbt_roundtrip_witness:
  "\<exists>d'. xfs_bmbt_disk_set_all (replicate 20 255) 2
        \<lparr>br_startoff = 5, br_startblock = 2 ^ 45, br_blockcount = 7, br_state = XFS_EXT_UNWRITTEN\<rparr> = Some d' \<and>
      xfs_bmbt_disk_get_all d' 2 = Some
        \<lparr>br_startoff = 5, br_startblock = 2 ^ 45, br_blockcount = 7, br_state = XFS_EXT_UNWRITTEN\<rparr>"
  using bmbt_roundtrip [of "\<lparr>br_startoff = 5, br_startblock = 2 ^ 45, br_blockcount = 7,
      br_state = XFS_EXT_UNWRITTEN\<rparr>" 2 "replicate 20 255" "\<lparr>l0 = 0, l1 = 0\<rparr>"]
  by (auto simp: irec_fits_def)

text \<open>
  Each setter of an incore record changes the field it names and no other: unpacking after it
  gives the old record with that field replaced.
\<close>

lemma bmbt_setters:
  assumes "unat off < 2 ^ 54" and "unat blk < 2 ^ 52" and "unat cnt < 2 ^ 21"
  shows "xfs_bmbt_get_all (xfs_bmbt_set_startoff r off) = (xfs_bmbt_get_all r)\<lparr>br_startoff := off\<rparr> \<and>
    xfs_bmbt_get_all (xfs_bmbt_set_startblock r blk) = (xfs_bmbt_get_all r)\<lparr>br_startblock := blk\<rparr> \<and>
    xfs_bmbt_get_all (xfs_bmbt_set_blockcount r cnt) = (xfs_bmbt_get_all r)\<lparr>br_blockcount := cnt\<rparr> \<and>
    xfs_bmbt_get_all (xfs_bmbt_set_state r st) = (xfs_bmbt_get_all r)\<lparr>br_state := st\<rparr>"
proof -
  have o: "bit off i \<Longrightarrow> i < 54" and b: "bit blk i \<Longrightarrow> i < 52" and c: "bit cnt i \<Longrightarrow> i < 21" for i
    using assms bit_less_pow by blast+
  show ?thesis
  proof (intro conjI)
    show "xfs_bmbt_get_all (xfs_bmbt_set_startoff r off) = (xfs_bmbt_get_all r)\<lparr>br_startoff := off\<rparr>"
      by (rule get_all_eqI) (auto simp: set_startoff_bits [OF o] bit_get_all get_all_state dest: o)
    show "xfs_bmbt_get_all (xfs_bmbt_set_startblock r blk) = (xfs_bmbt_get_all r)\<lparr>br_startblock := blk\<rparr>"
      by (rule get_all_eqI) (auto simp: set_startblock_bits [OF b] bit_get_all get_all_state dest: b)
    show "xfs_bmbt_get_all (xfs_bmbt_set_blockcount r cnt) = (xfs_bmbt_get_all r)\<lparr>br_blockcount := cnt\<rparr>"
      by (rule get_all_eqI) (auto simp: set_blockcount_bits bit_get_all get_all_state dest: c)
    show "xfs_bmbt_get_all (xfs_bmbt_set_state r st) = (xfs_bmbt_get_all r)\<lparr>br_state := st\<rparr>"
      by (rule get_all_eqI; cases st) (auto simp: set_state_bits bit_get_all get_all_state)
  qed
qed

end
