(* ===== verification/File_Read.thy ===== *)
theory File_Read
  imports Bmbt
begin

text \<open>
  Reading files and symbolic links (xfsutil/xfsutil.c). The buffer cache is used through three
  operations (\<open>buf_ops\<close>): \<open>libxfs_readbuf\<close>, the bytes of a buffer, and \<open>libxfs_putbuf\<close>, each
  threading the state of the cache. The user buffer is a byte list; \<open>None\<close> is an access outside
  a buffer. Return values are the C integers: a byte count, or a negative error number. The locale
  \<open>buf_store\<close> states what the reads rely on, and the lemmas inside it show that a read returns
  the bytes of the file the extent list describes.
\<close>

section \<open>The operations of the buffer cache\<close>

record ('b, 's) buf_ops =
  op_readbuf :: "int \<Rightarrow> int \<Rightarrow> 's \<Rightarrow> 'b option \<times> 's"
  op_b_addr :: "'s \<Rightarrow> 'b \<Rightarrow> bytes"
  op_putbuf :: "'b \<Rightarrow> 's \<Rightarrow> 's"

definition XFS_ERROR :: "errno \<Rightarrow> int" where
  "XFS_ERROR code = - errno_code code"

text \<open>\<open>int min(int x, int y)\<close>: the arguments are cut to 32 bits.\<close>

definition min_int :: "int \<Rightarrow> int \<Rightarrow> int" where
  "min_int x y = (let x' = to_s32 x; y' = to_s32 y in if x' < y' then x' else y')"

section \<open>Copying one extent\<close>

text \<open>
  One round of the loop over the blocks of an extent: what is copied from block \<open>block\<close> starts at
  \<open>copylen\<close> bytes before its end when the request begins inside the block, and stops where the
  request does.
\<close>

definition copy_block ::
    "('b, 's) buf_ops \<Rightarrow> xfs_mount \<Rightarrow> xfs_bmbt_irec \<Rightarrow> int \<Rightarrow> int \<Rightarrow> int \<Rightarrow> int \<Rightarrow> bytes \<Rightarrow> 's \<Rightarrow>
      (int \<times> int \<times> bytes \<times> 's) option"
where
  "copy_block ops mp r offset len block bufpos mem s =
    (let block_size = XFS_FSB_TO_B mp 1;
         block_start = XFS_FSB_TO_B mp (to_u64 (uint (br_startoff r) + block));
         (b, s1) = op_readbuf ops
            (XFS_FSB_TO_DADDR mp (to_u64 (uint (br_startblock r) + block))) (XFS_FSB_TO_BB mp 1) s
     in (case b of
          None \<Rightarrow> Some (XFS_ERROR EIO, bufpos, mem, s1)
        | Some bp \<Rightarrow>
          (let (src, copy_start, copylen) =
                 (if block_start < offset
                  then (let c = block_size + block_start - offset
                        in (block_size - c, (block_size - c) + block_start, c))
                  else (0, block_start, block_size));
               copylen' = (if to_u64 (block_start + block_size) > to_u64 (offset + len)
                           then to_s64 (offset + len - copy_start) else copylen)
           in if copylen' > 0
              then do {
                mem' \<leftarrow> memcpy mem bufpos (op_b_addr ops s1 bp) src copylen';
                Some (0, bufpos + copylen', mem', op_putbuf ops bp s1) }
              else Some (0, bufpos, mem, op_putbuf ops bp s1))))"

function copy_blocks ::
    "('b, 's) buf_ops \<Rightarrow> xfs_mount \<Rightarrow> xfs_bmbt_irec \<Rightarrow> int \<Rightarrow> int \<Rightarrow> int \<Rightarrow> int \<Rightarrow> int \<Rightarrow> bytes \<Rightarrow> 's \<Rightarrow>
      (int \<times> bytes \<times> 's) option"
where
  "copy_blocks ops mp r offset len end block bufpos mem s =
    (if block < end then do {
       (e, bufpos', mem', s') \<leftarrow> copy_block ops mp r offset len block bufpos mem s;
       if e \<noteq> 0 then Some (e, mem', s')
       else copy_blocks ops mp r offset len end (block + 1) bufpos' mem' s' }
     else Some (0, mem, s))"
  by pat_completeness auto
termination
  by (relation "measure (\<lambda>(ops, mp, r, offset, len, end, block, bufpos, mem, s). nat (end - block))") auto

declare copy_blocks.simps [simp del]

definition copy_extent_to_buffer ::
    "('b, 's) buf_ops \<Rightarrow> xfs_mount \<Rightarrow> xfs_bmbt_irec \<Rightarrow> bytes \<Rightarrow> int \<Rightarrow> int \<Rightarrow> 's \<Rightarrow> (int \<times> bytes \<times> 's) option"
where
  "copy_extent_to_buffer ops mp r mem offset len s =
    (let extent_start = XFS_FSB_TO_B mp (uint (br_startoff r));
         (start, bufpos) = (if offset \<ge> extent_start
            then (to_s64 (XFS_B_TO_FSBT mp (offset - extent_start)), 0)
            else (0, extent_start - offset));
         end = min_int (uint (br_blockcount r))
                 (XFS_B_TO_FSBT mp (to_u64 (offset + len - extent_start - 1)) + 1)
     in copy_blocks ops mp r offset len end start bufpos mem s)"

definition extent_overlaps_buffer :: "xfs_mount \<Rightarrow> xfs_bmbt_irec \<Rightarrow> int \<Rightarrow> int \<Rightarrow> bool" where
  "extent_overlaps_buffer mp r offset len =
    (let extent_size = to_u64 (XFS_FSB_TO_B mp (uint (br_blockcount r)));
         extent_start = to_u64 (XFS_FSB_TO_B mp (uint (br_startoff r)))
     in if extent_start \<le> to_u64 offset \<and> to_u64 offset < to_u64 (extent_start + extent_size) then True
        else if to_u64 offset \<le> extent_start \<and> extent_start < to_u64 (offset + len) then True
        else False)"

section \<open>Reading\<close>

text \<open>The loop over the extent list: \<open>n\<close> of the \<open>nextents\<close> records are left.\<close>

fun read_extents_loop ::
    "('b, 's) buf_ops \<Rightarrow> xfs_mount \<Rightarrow> bmbt_rec list \<Rightarrow> int \<Rightarrow> int \<Rightarrow> nat \<Rightarrow> nat \<Rightarrow> bytes \<Rightarrow> 's \<Rightarrow>
      (int \<times> bytes \<times> 's) option"
where
  "read_extents_loop ops mp exts offset len extent 0 mem s = Some (0, mem, s)"
| "read_extents_loop ops mp exts offset len extent (Suc n) mem s =
    (if extent < length exts then
       (let r = xfs_bmbt_get_all (exts ! extent) in
        if extent_overlaps_buffer mp r offset len then do {
          (e, mem', s') \<leftarrow> copy_extent_to_buffer ops mp r mem offset len s;
          if e \<noteq> 0 then Some (e, mem', s')
          else read_extents_loop ops mp exts offset len (extent + 1) n mem' s' }
        else read_extents_loop ops mp exts offset len (extent + 1) n mem s)
     else None)"

definition xfs_readfile_extents ::
    "('b, 's) buf_ops \<Rightarrow> xfs_mount \<Rightarrow> xfs_inode \<Rightarrow> bytes \<Rightarrow> int \<Rightarrow> int \<Rightarrow> 's \<Rightarrow> (int \<times> bytes \<times> 's) option"
where
  "xfs_readfile_extents ops mp ip mem offset len s =
    (let size = di_size (i_d ip) in
     if offset \<ge> size then Some (0, mem, s)
     else let len' = (if to_u64 (offset + len) > to_u64 size then to_u64 (size - offset) else len) in do {
       (e, mem', s') \<leftarrow> read_extents_loop ops mp (if_extents (i_df ip)) offset len' 0
          (nat (di_nextents (i_d ip))) mem s;
       if e \<noteq> 0 then Some (e, mem', s') else Some (to_s32 len', mem', s') })"

text \<open>
  For a file whose extents are in a B-tree, \<open>xfs_iread_extents\<close> fills the extent list first when it
  has not been read yet (\<open>iread\<close>; its error numbers are positive).
\<close>

definition xfs_readfile_btree ::
    "('b, 's) buf_ops \<Rightarrow> 's inode_reader \<Rightarrow> xfs_mount \<Rightarrow> xfs_inode \<Rightarrow> bytes \<Rightarrow>
      int \<Rightarrow> int \<Rightarrow> 's \<Rightarrow> (int \<times> bytes \<times> xfs_inode \<times> 's) option"
where
  "xfs_readfile_btree ops iread mp ip mem offset len s =
    (let size = di_size (i_d ip) in
     if offset \<ge> size then Some (0, mem, ip, s)
     else
       let len' = (if to_u64 (offset + len) > to_u64 size then to_u64 (size - offset) else len)
       in do {
         (error, ip1, s1) \<leftarrow> (if \<not> if_extents_read (i_df ip) then iread ip s else Some (0, ip, s));
         if error \<noteq> 0 then Some (error, mem, ip1, s1)
         else do {
           (e, mem', s') \<leftarrow> read_extents_loop ops mp (if_extents (i_df ip1)) offset len' 0
              (nat (di_nextents (i_d ip1))) mem s1;
           if e \<noteq> 0 then Some (e, mem', ip1, s') else Some (to_s32 len', mem', ip1, s') } })"

definition memset0 :: "bytes \<Rightarrow> int \<Rightarrow> bytes option" where
  "memset0 mem n = (if 0 \<le> n then wr_bytes 0 (replicate (nat n) 0) mem else None)"

definition xfs_readfile ::
    "('b, 's) buf_ops \<Rightarrow> 's inode_reader \<Rightarrow> xfs_mount \<Rightarrow> xfs_inode \<Rightarrow> bytes \<Rightarrow>
      int \<Rightarrow> int \<Rightarrow> 's \<Rightarrow> (int \<times> bytes \<times> xfs_inode \<times> 's) option"
where
  "xfs_readfile ops iread mp ip mem offset len s = do {
     mem0 \<leftarrow> memset0 mem len;
     if di_mode (i_d ip) AND S_IFREG = 0 then Some (XFS_ERROR EINVAL, mem0, ip, s)
     else (case di_format (i_d ip) of
         FMT_EXTENTS \<Rightarrow> do {
           (e, mem', s') \<leftarrow> xfs_readfile_extents ops mp ip mem0 offset len s; Some (e, mem', ip, s') }
       | FMT_BTREE \<Rightarrow> xfs_readfile_btree ops iread mp ip mem0 offset len s
       | _ \<Rightarrow> Some (XFS_ERROR EIO, mem0, ip, s)) }"

section \<open>Symbolic links\<close>

definition xfs_readlink_local ::
    "xfs_inode \<Rightarrow> bytes \<Rightarrow> int \<Rightarrow> int \<Rightarrow> (int \<times> bytes) option" where
  "xfs_readlink_local ip mem offset len =
    (let size = di_size (i_d ip) in
     if size - offset \<le> 0 then Some (0, mem)
     else let len' = (if to_u64 (size - offset) < len then to_u64 (size - offset) else len) in do {
       mem' \<leftarrow> memcpy mem 0 (if_data (i_df ip)) offset len';
       Some (to_s32 len', mem') })"

definition xfs_readlink ::
    "('b, 's) buf_ops \<Rightarrow> xfs_mount \<Rightarrow> xfs_inode \<Rightarrow> bytes \<Rightarrow> int \<Rightarrow> int \<Rightarrow> 's \<Rightarrow> (int \<times> bytes \<times> 's) option"
where
  "xfs_readlink ops mp ip mem offset len s = do {
     mem0 \<leftarrow> memset0 mem len;
     if di_mode (i_d ip) AND S_IFLNK = 0 then Some (XFS_ERROR EINVAL, mem0, s)
     else (case di_format (i_d ip) of
         FMT_EXTENTS \<Rightarrow> xfs_readfile_extents ops mp ip mem0 offset len s
       | FMT_LOCAL \<Rightarrow> do {
           (e, mem') \<leftarrow> xfs_readlink_local ip mem0 offset len; Some (e, mem', s) }
       | _ \<Rightarrow> Some (XFS_ERROR EIO, mem0, s)) }"

section \<open>What a read relies on and what it returns\<close>

text \<open>
  The contract of the buffer cache: \<open>dev blkno bblen\<close> is what the device holds in \<open>bblen\<close> basic blocks
  at \<open>blkno\<close>, \<open>None\<close> when it cannot be read. A buffer that was read shows these bytes and giving it back
  restores the invariant; a failed read keeps it.
\<close>

locale buf_store =
  fixes ops :: "('b, 's) buf_ops"
    and inv :: "'s \<Rightarrow> bool"
    and dev :: "int \<Rightarrow> int \<Rightarrow> bytes option"
  assumes read_ok: "inv s \<Longrightarrow> dev blk bb = Some d \<Longrightarrow>
      \<exists>b s'. op_readbuf ops blk bb s = (Some b, s') \<and> op_b_addr ops s' b = d \<and> inv (op_putbuf ops b s')"
    and read_fail: "inv s \<Longrightarrow> dev blk bb = None \<Longrightarrow> \<exists>s'. op_readbuf ops blk bb s = (None, s') \<and> inv s'"

abbreviation blksize :: "xfs_mount \<Rightarrow> int" where
  "blksize mp \<equiv> 2 ^ sb_blocklog (m_sb mp)"

definition ext_start :: "xfs_mount \<Rightarrow> xfs_bmbt_irec \<Rightarrow> int" where
  "ext_start mp r = uint (br_startoff r) * blksize mp"

definition ext_blkno :: "xfs_mount \<Rightarrow> xfs_bmbt_irec \<Rightarrow> int \<Rightarrow> int" where
  "ext_blkno mp r block = XFS_FSB_TO_DADDR mp (uint (br_startblock r) + block)"

definition ext_covers :: "xfs_mount \<Rightarrow> xfs_bmbt_irec \<Rightarrow> int \<Rightarrow> bool" where
  "ext_covers mp r p \<longleftrightarrow>
     ext_start mp r \<le> p \<and> p < ext_start mp r + uint (br_blockcount r) * blksize mp"

text \<open>The byte of the device at position \<open>p\<close> of the file, where the extent covers \<open>p\<close>.\<close>

definition ext_byte :: "(int \<Rightarrow> int \<Rightarrow> bytes option) \<Rightarrow> xfs_mount \<Rightarrow> xfs_bmbt_irec \<Rightarrow> int \<Rightarrow> u8" where
  "ext_byte dev mp r p =
    (let o' = p - ext_start mp r
     in the (dev (ext_blkno mp r (o' div blksize mp)) (XFS_FSB_TO_BB mp 1)) ! nat (o' mod blksize mp))"

text \<open>An extent within the reach of 64-bit file positions.\<close>

definition ext_ok :: "xfs_mount \<Rightarrow> xfs_bmbt_irec \<Rightarrow> bool" where
  "ext_ok mp r \<longleftrightarrow>
     (uint (br_startoff r) + uint (br_blockcount r)) * blksize mp < 2 ^ 63 \<and> irec_fits r"

definition dev_blocks :: "(int \<Rightarrow> int \<Rightarrow> bytes option) \<Rightarrow> xfs_mount \<Rightarrow> bool" where
  "dev_blocks dev mp \<longleftrightarrow>
     (\<forall>blk d. dev blk (XFS_FSB_TO_BB mp 1) = Some d \<longrightarrow> int (length d) = blksize mp)"

lemma blksize_bounds:
  assumes "geom_ok mp"
  shows "512 \<le> blksize mp" and "blksize mp \<le> 65536" and "XFS_FSB_TO_B mp 1 = blksize mp"
proof -
  have a: "9 \<le> sb_blocklog (m_sb mp)" "sb_blocklog (m_sb mp) \<le> 16"
    using assms by (auto simp: geom_ok_def)
  have "(2 :: int) ^ 9 \<le> blksize mp" using a(1) by (rule power_increasing) simp
  then show "512 \<le> blksize mp" by simp
  have "blksize mp \<le> (2 :: int) ^ 16" using a(2) by (rule power_increasing) simp
  then show b: "blksize mp \<le> 65536" by simp
  show "XFS_FSB_TO_B mp 1 = blksize mp"
    using b \<open>512 \<le> blksize mp\<close> by (simp add: XFS_FSB_TO_B_def)
qed

lemma fsb_to_b:
  assumes "geom_ok mp" and "0 \<le> x" and "x * blksize mp < 2 ^ 63"
  shows "XFS_FSB_TO_B mp x = x * blksize mp"
proof -
  have "x * 512 \<le> x * blksize mp"
    using assms blksize_bounds(1) [OF assms(1)] by (intro mult_left_mono) auto
  then have "x < 2 ^ 63" using assms(2,3) by linarith
  moreover have "0 \<le> x * blksize mp" using assms(2) by simp
  ultimately show ?thesis using assms by (simp add: XFS_FSB_TO_B_def)
qed

lemma ext_block_bytes:
  assumes g: "geom_ok mp" and ok: "ext_ok mp r" and b: "0 \<le> block" "block < uint (br_blockcount r)"
  shows "XFS_FSB_TO_B mp (to_u64 (uint (br_startoff r) + block)) = ext_start mp r + block * blksize mp"
    and "to_u64 (uint (br_startblock r) + block) = uint (br_startblock r) + block"
    and "ext_start mp r + (block + 1) * blksize mp < 2 ^ 63"
proof -
  have f: "uint (br_startoff r) < 2 ^ 54" "uint (br_startblock r) < 2 ^ 52" "uint (br_blockcount r) < 2 ^ 21"
    using ok uint_unat_less [of "br_startoff r" "2 ^ 54"] uint_unat_less [of "br_startblock r" "2 ^ 52"]
      uint_unat_less [of "br_blockcount r" "2 ^ 21"] by (auto simp: ext_ok_def irec_fits_def)
  show "to_u64 (uint (br_startblock r) + block) = uint (br_startblock r) + block"
    using f b by simp
  have le: "(uint (br_startoff r) + (block + 1)) * blksize mp
      \<le> (uint (br_startoff r) + uint (br_blockcount r)) * blksize mp"
    using b by (intro mult_right_mono) auto
  then have lt: "(uint (br_startoff r) + (block + 1)) * blksize mp < 2 ^ 63"
    using ok unfolding ext_ok_def by linarith
  then show "ext_start mp r + (block + 1) * blksize mp < 2 ^ 63"
    by (simp add: ext_start_def algebra_simps)
  have "(uint (br_startoff r) + block) * blksize mp < 2 ^ 63"
    using lt blksize_bounds(1) [OF g] by (simp add: algebra_simps)
  then show "XFS_FSB_TO_B mp (to_u64 (uint (br_startoff r) + block)) = ext_start mp r + block * blksize mp"
    using f b fsb_to_b [OF g, of "uint (br_startoff r) + block"] by (simp add: ext_start_def algebra_simps)
qed

text \<open>The request: positions that 64-bit arithmetic does not wrap, in a buffer that holds it.\<close>

definition req_ok :: "bytes \<Rightarrow> int \<Rightarrow> int \<Rightarrow> bool" where
  "req_ok mem offset len \<longleftrightarrow>
     0 \<le> offset \<and> 0 < len \<and> len < 2 ^ 31 \<and> offset + len < 2 ^ 63 \<and> len \<le> int (length mem)"

text \<open>
  The buffer after the bytes of the file positions from \<open>a\<close> to \<open>b\<close> have been put in place: position
  \<open>offset + i\<close> of the file is at index \<open>i\<close>.
\<close>

definition filled ::
    "(int \<Rightarrow> u8) \<Rightarrow> int \<Rightarrow> int \<Rightarrow> int \<Rightarrow> int \<Rightarrow> bytes \<Rightarrow> bytes \<Rightarrow> bool" where
  "filled content offset len a b mem mem' \<longleftrightarrow> length mem' = length mem \<and>
     (\<forall>i < length mem. mem' ! i =
        (if int i < len \<and> a \<le> offset + int i \<and> offset + int i < b then content (offset + int i)
         else mem ! i))"

lemma filled_trans:
  "filled c offset len a b mem mem1 \<Longrightarrow> filled c offset len b e mem1 mem2 \<Longrightarrow> a \<le> b \<Longrightarrow> b \<le> e \<Longrightarrow>
   filled c offset len a e mem mem2"
  by (auto simp: filled_def)

lemma filled_refl: "b \<le> a \<Longrightarrow> filled c offset len a b mem mem"
  by (auto simp: filled_def)

text \<open>Every block from \<open>a\<close> to \<open>b\<close> of an extent can be read.\<close>

definition blocks_readable ::
    "(int \<Rightarrow> int \<Rightarrow> bytes option) \<Rightarrow> xfs_mount \<Rightarrow> xfs_bmbt_irec \<Rightarrow> int \<Rightarrow> int \<Rightarrow> bool" where
  "blocks_readable dev mp r a b \<longleftrightarrow>
     (\<forall>k. a \<le> k \<and> k < b \<longrightarrow> dev (ext_blkno mp r k) (XFS_FSB_TO_BB mp 1) \<noteq> None)"

lemma blocks_readable_step:
  "a < b \<Longrightarrow> blocks_readable dev mp r a b \<longleftrightarrow>
     dev (ext_blkno mp r a) (XFS_FSB_TO_BB mp 1) \<noteq> None \<and> blocks_readable dev mp r (a + 1) b"
  unfolding blocks_readable_def by (smt (verit))

text \<open>Every block of the extent that the request meets can be read.\<close>

definition ext_readable ::
    "(int \<Rightarrow> int \<Rightarrow> bytes option) \<Rightarrow> xfs_mount \<Rightarrow> int \<Rightarrow> int \<Rightarrow> xfs_bmbt_irec \<Rightarrow> bool" where
  "ext_readable dev mp offset len r \<longleftrightarrow>
     (\<forall>k. 0 \<le> k \<and> k < uint (br_blockcount r) \<and> ext_start mp r + k * blksize mp < offset + len \<and>
        offset < ext_start mp r + (k + 1) * blksize mp \<longrightarrow>
        dev (ext_blkno mp r k) (XFS_FSB_TO_BB mp 1) \<noteq> None)"

text \<open>The overlap test is the one of half-open intervals (an empty extent may pass it).\<close>

lemma extent_overlaps_iff:
  assumes g: "geom_ok mp" and ok: "ext_ok mp r" and rq: "req_ok mem offset len"
  shows "extent_overlaps_buffer mp r offset len \<longleftrightarrow>
     (ext_start mp r \<le> offset \<and> offset < ext_start mp r + uint (br_blockcount r) * blksize mp) \<or>
     (offset \<le> ext_start mp r \<and> ext_start mp r < offset + len)"
proof -
  define S where "S = ext_start mp r"
  define C where "C = uint (br_blockcount r) * blksize mp"
  have f: "0 \<le> S" "0 \<le> C" by (simp_all add: S_def C_def ext_start_def)
  have b: "S + C < 2 ^ 63" using ok by (simp add: ext_ok_def S_def C_def ext_start_def algebra_simps)
  have b': "S < 2 ^ 63" "C < 2 ^ 63" using b f by linarith+
  have e: "XFS_FSB_TO_B mp (uint (br_startoff r)) = S"
    using b' by (simp add: fsb_to_b [OF g] ext_start_def S_def)
  have c: "XFS_FSB_TO_B mp (uint (br_blockcount r)) = C"
    using b' by (simp add: fsb_to_b [OF g] C_def)
  have u: "to_u64 S = S" "to_u64 C = C" "to_u64 (S + C) = S + C" "to_u64 offset = offset"
    "to_u64 (offset + len) = offset + len"
    using b b' f rq by (simp_all add: req_ok_def)
  show ?thesis
    unfolding extent_overlaps_buffer_def Let_def e c u S_def [symmetric] C_def [symmetric] by auto
qed

lemma mult_div_bounds:
  fixes q :: int
  assumes "0 < b"
  shows "k \<le> q div b \<longleftrightarrow> k * b \<le> q" and "q div b \<le> k \<longleftrightarrow> q < (k + 1) * b"
proof -
  have d: "q div b * b \<le> q" "q < (q div b + 1) * b"
    using div_mult_mod_eq [of q b] pos_mod_bound [OF assms, of q] pos_mod_sign [OF assms, of q]
    unfolding distrib_right mult_1 by linarith+
  have m: "x * b \<le> y * b \<longleftrightarrow> x \<le> y" for x y using assms by simp
  have l: "x * b < y * b \<longleftrightarrow> x < y" for x y using assms by simp
  show "k \<le> q div b \<longleftrightarrow> k * b \<le> q"
  proof
    show "k * b \<le> q" if "k \<le> q div b" using d(1) m [of k "q div b"] that by linarith
    show "k \<le> q div b" if "k * b \<le> q" using d(2) l [of k "q div b + 1"] that by linarith
  qed
  show "q div b \<le> k \<longleftrightarrow> q < (k + 1) * b"
  proof
    show "q < (k + 1) * b" if "q div b \<le> k" using d(2) m [of "q div b + 1" "k + 1"] that by linarith
    show "q div b \<le> k" if "q < (k + 1) * b" using d(1) l [of "q div b" "k + 1"] that by linarith
  qed
qed

text \<open>
  What the loop over an extent list leaves at position \<open>p\<close>: the byte of the device, whatever the state of the
  extent, and \<open>z\<close> where no extent covers the position. Should extents overlap, the last one counts.
\<close>

fun file_byte :: "(int \<Rightarrow> int \<Rightarrow> bytes option) \<Rightarrow> xfs_mount \<Rightarrow> xfs_bmbt_irec list \<Rightarrow> int \<Rightarrow> u8 \<Rightarrow> u8" where
  "file_byte dev mp [] p z = z"
| "file_byte dev mp (r # rs) p z =
     file_byte dev mp rs p (if ext_covers mp r p then ext_byte dev mp r p else z)"

text \<open>The blocks of an extent a request needs: from \<open>req_first\<close> up to \<open>req_end\<close>.\<close>

definition req_first :: "xfs_mount \<Rightarrow> xfs_bmbt_irec \<Rightarrow> int \<Rightarrow> int" where
  "req_first mp r offset =
     (if offset \<ge> ext_start mp r then (offset - ext_start mp r) div blksize mp else 0)"

definition req_end :: "xfs_mount \<Rightarrow> xfs_bmbt_irec \<Rightarrow> int \<Rightarrow> int \<Rightarrow> int" where
  "req_end mp r offset len =
     min (uint (br_blockcount r)) ((offset + len - ext_start mp r - 1) div blksize mp + 1)"

text \<open>The numbers of an extent, with the block size as a plain number.\<close>

lemma ext_numbers:
  assumes "geom_ok mp" and "ext_ok mp r"
  shows "0 < blksize mp" and "512 \<le> blksize mp" and "0 \<le> ext_start mp r"
    and "0 \<le> uint (br_blockcount r)" and "uint (br_blockcount r) < 2 ^ 21"
    and "0 \<le> uint (br_blockcount r) * blksize mp"
    and "ext_start mp r + uint (br_blockcount r) * blksize mp < 2 ^ 63"
  using assms blksize_bounds [OF assms(1)] uint_unat_less [of "br_blockcount r" "2 ^ 21"]
  by (auto simp: ext_ok_def irec_fits_def ext_start_def algebra_simps)

lemma req_distance:
  assumes g: "geom_ok mp" and ok: "ext_ok mp r" and rq: "req_ok mem offset len"
    and ov: "extent_overlaps_buffer mp r offset len"
  shows "0 \<le> offset + len - ext_start mp r - 1" and "offset + len - ext_start mp r - 1 < 2 ^ 63"
    and "0 \<le> (offset + len - ext_start mp r - 1) div blksize mp"
    and "(offset + len - ext_start mp r - 1) div blksize mp < 1073741824"
proof -
  define q where "q = offset + len - ext_start mp r - 1"
  note en = ext_numbers [OF g ok]
  note o = ov [unfolded extent_overlaps_iff [OF g ok rq]]
  have r: "0 \<le> offset" "0 < len" "len < 2147483648" "offset + len < 2 ^ 63"
    using rq by (auto simp: req_ok_def)
  have cb: "uint (br_blockcount r) * blksize mp \<le> 2097152 * blksize mp"
    using en by (intro mult_right_mono) auto
  show q0: "0 \<le> offset + len - ext_start mp r - 1" using o r by auto
  show "offset + len - ext_start mp r - 1 < 2 ^ 63" using r en(3) by simp
  show "0 \<le> (offset + len - ext_start mp r - 1) div blksize mp"
    using q0 en(1) by (simp add: pos_imp_zdiv_nonneg_iff)
  have "q < uint (br_blockcount r) * blksize mp + 2147483648"
    using o
  proof
    show ?thesis if "ext_start mp r \<le> offset \<and> offset < ext_start mp r + uint (br_blockcount r) * blksize mp"
      using that r(3) unfolding q_def by linarith
    show ?thesis if "offset \<le> ext_start mp r \<and> ext_start mp r < offset + len"
      using that r(3) en(6) unfolding q_def by linarith
  qed
  then have "q < 1073741824 * blksize mp" using cb en(2) by linarith
  then show "(offset + len - ext_start mp r - 1) div blksize mp < 1073741824"
    using mult_div_bounds(1) [OF en(1), of 1073741824 q] unfolding q_def by linarith
qed

lemma req_bounds:
  assumes g: "geom_ok mp" and ok: "ext_ok mp r" and rq: "req_ok mem offset len"
    and ov: "extent_overlaps_buffer mp r offset len"
  shows "0 \<le> req_first mp r offset" and "req_first mp r offset \<le> req_end mp r offset len"
    and "offset < ext_start mp r + (req_first mp r offset + 1) * blksize mp"
    and "ext_start mp r + (req_end mp r offset len - 1) * blksize mp < offset + len"
proof -
  define q where "q = offset + len - ext_start mp r - 1"
  note en = ext_numbers [OF g ok]
  note o = ov [unfolded extent_overlaps_iff [OF g ok rq]]
  note qq = req_distance [OF g ok rq ov, folded q_def]
  have r: "0 < len" using rq by (auto simp: req_ok_def)
  show "0 \<le> req_first mp r offset" using en(1) by (simp add: req_first_def pos_imp_zdiv_nonneg_iff)
  show "req_first mp r offset \<le> req_end mp r offset len"
    unfolding req_first_def req_end_def q_def [symmetric]
    using o en mult_div_bounds(2) [OF en(1), of "offset - ext_start mp r" "uint (br_blockcount r)"]
      zdiv_mono1 [of "offset - ext_start mp r" q "blksize mp"] r qq(3)
    by (auto simp: q_def algebra_simps)
  show "offset < ext_start mp r + (req_first mp r offset + 1) * blksize mp"
    using mult_div_bounds(2) [OF en(1), of "offset - ext_start mp r" "(offset - ext_start mp r) div blksize mp"]
      en(2) by (auto simp: req_first_def)
  have "req_end mp r offset len - 1 \<le> q div blksize mp" by (simp add: req_end_def q_def)
  then have "(req_end mp r offset len - 1) * blksize mp \<le> q"
    using mult_div_bounds(1) [OF en(1)] by blast
  then show "ext_start mp r + (req_end mp r offset len - 1) * blksize mp < offset + len"
    by (simp add: q_def)
qed

text \<open>The machine arithmetic of \<open>copy_extent_to_buffer\<close> computes exactly these blocks.\<close>

lemma copy_extent_blocks:
  assumes g: "geom_ok mp" and ok: "ext_ok mp r" and rq: "req_ok mem offset len"
    and ov: "extent_overlaps_buffer mp r offset len"
  shows "copy_extent_to_buffer ops mp r mem offset len s =
      copy_blocks ops mp r offset len (req_end mp r offset len) (req_first mp r offset)
        (max 0 (ext_start mp r + req_first mp r offset * blksize mp - offset)) mem s"
proof -
  define es where "es = ext_start mp r"
  note en = ext_numbers [OF g ok, folded es_def]
  note qq = req_distance [OF g ok rq ov, folded es_def]
  have r: "0 \<le> offset" "offset + len < 2 ^ 63" "0 < len" using rq by (auto simp: req_ok_def)
  have "uint (br_startoff r) * blksize mp < 2 ^ 63"
    using en(6,7) unfolding es_def ext_start_def by linarith
  then have esb: "XFS_FSB_TO_B mp (uint (br_startoff r)) = es"
    using fsb_to_b [OF g] by (simp add: es_def ext_start_def)
  have "XFS_B_TO_FSBT mp (to_u64 (offset + len - es - 1)) = (offset + len - es - 1) div blksize mp"
    using qq(1,2) by (simp add: XFS_B_TO_FSBT_def)
  then have e: "min_int (uint (br_blockcount r)) (XFS_B_TO_FSBT mp (to_u64 (offset + len - es - 1)) + 1) =
      req_end mp r offset len"
    using qq(3,4) en(4,5) by (auto simp: min_int_def Let_def req_end_def es_def)
  show ?thesis
  proof (cases "offset \<ge> es")
    case True
    have "(offset - es + 1) * 1 \<le> (offset - es + 1) * blksize mp"
      using True en(2) by (intro mult_left_mono) auto
    then have "(offset - es) div blksize mp \<le> offset - es"
      unfolding mult_div_bounds(2) [OF en(1)]
      by (intro less_le_trans [OF _ \<open>_ \<le> (offset - es + 1) * blksize mp\<close>]) simp
    then have "to_s64 (XFS_B_TO_FSBT mp (offset - es)) = (offset - es) div blksize mp"
      using True r en(1,3) by (simp add: XFS_B_TO_FSBT_def pos_imp_zdiv_nonneg_iff)
    moreover have "(offset - es) div blksize mp * blksize mp \<le> offset - es"
      using mult_div_bounds(1) [OF en(1), of "(offset - es) div blksize mp" "offset - es"] by simp
    then have "max 0 (es + (offset - es) div blksize mp * blksize mp - offset) = 0" by linarith
    ultimately show ?thesis
      using True
      by (simp add: copy_extent_to_buffer_def Let_def esb e req_first_def es_def [symmetric])
  next
    case False
    then show ?thesis
      by (simp add: copy_extent_to_buffer_def Let_def esb e req_first_def es_def [symmetric])
  qed
qed

lemma ext_readable_blocks:
  assumes g: "geom_ok mp"
  shows "ext_readable dev mp offset len r =
    blocks_readable dev mp r (req_first mp r offset) (req_end mp r offset len)"
proof -
  have pb: "0 < blksize mp" by simp
  have "0 \<le> k \<and> k < uint (br_blockcount r) \<and> ext_start mp r + k * blksize mp < offset + len \<and>
      offset < ext_start mp r + (k + 1) * blksize mp \<longleftrightarrow>
      req_first mp r offset \<le> k \<and> k < req_end mp r offset len" for k
  proof -
    have a: "k < req_end mp r offset len \<longleftrightarrow>
        k < uint (br_blockcount r) \<and> ext_start mp r + k * blksize mp < offset + len"
      using mult_div_bounds(1) [OF pb, of k "offset + len - ext_start mp r - 1"] by (auto simp: req_end_def)
    have "req_first mp r offset \<le> k \<longleftrightarrow> 0 \<le> k \<and> offset < ext_start mp r + (k + 1) * blksize mp"
    proof (cases "offset \<ge> ext_start mp r")
      case True
      have "0 \<le> (offset - ext_start mp r) div blksize mp"
        using True pb by (simp add: pos_imp_zdiv_nonneg_iff)
      then show ?thesis
        using True mult_div_bounds(2) [OF pb, of "offset - ext_start mp r" k] by (auto simp: req_first_def)
    next
      case False
      have "offset < ext_start mp r + (k + 1) * blksize mp" if "0 \<le> k"
      proof -
        have "0 \<le> (k + 1) * blksize mp" using that by simp
        then show ?thesis using False by linarith
      qed
      then show ?thesis using False by (auto simp: req_first_def)
    qed
    then show ?thesis using a by blast
  qed
  then show ?thesis unfolding ext_readable_def blocks_readable_def by blast
qed

text \<open>Copying these blocks fills what the request and the extent have in common.\<close>

lemma filled_req:
  assumes g: "geom_ok mp"
  shows "filled c offset len (ext_start mp r + req_first mp r offset * blksize mp)
      (ext_start mp r + req_end mp r offset len * blksize mp) mem mem' =
    filled c offset len (ext_start mp r) (ext_start mp r + uint (br_blockcount r) * blksize mp) mem mem'"
proof -
  define q where "q = offset + len - ext_start mp r - 1"
  have pb: "0 < blksize mp" by simp
  have "int k < len \<and> ext_start mp r + req_first mp r offset * blksize mp \<le> offset + int k \<and>
      offset + int k < ext_start mp r + req_end mp r offset len * blksize mp \<longleftrightarrow>
      int k < len \<and> ext_start mp r \<le> offset + int k \<and>
      offset + int k < ext_start mp r + uint (br_blockcount r) * blksize mp" for k
  proof -
    have "ext_start mp r + req_first mp r offset * blksize mp \<le> offset + int k \<longleftrightarrow>
        ext_start mp r \<le> offset + int k"
      using mult_div_bounds(1) [OF pb, of "(offset - ext_start mp r) div blksize mp" "offset - ext_start mp r"]
      by (cases "offset \<ge> ext_start mp r") (auto simp: req_first_def)
    moreover have "offset + int k < ext_start mp r + req_end mp r offset len * blksize mp \<longleftrightarrow>
        offset + int k < ext_start mp r + uint (br_blockcount r) * blksize mp" if "int k < len"
    proof (cases "uint (br_blockcount r) \<le> q div blksize mp + 1")
      case True
      then show ?thesis by (simp add: req_end_def q_def)
    next
      case False
      have "q < (q div blksize mp + 1) * blksize mp"
        using mult_div_bounds(2) [OF pb, of q "q div blksize mp"] by simp
      moreover have "(q div blksize mp + 1) * blksize mp \<le> uint (br_blockcount r) * blksize mp"
        using False by (intro mult_right_mono) auto
      moreover have "offset + int k \<le> ext_start mp r + q" using that by (simp add: q_def)
      ultimately have b: "offset + int k < ext_start mp r + (q div blksize mp + 1) * blksize mp"
          "offset + int k < ext_start mp r + uint (br_blockcount r) * blksize mp"
        by linarith+
      have "req_end mp r offset len = q div blksize mp + 1" using False by (simp add: req_end_def q_def)
      then show ?thesis using b by (simp only:)
    qed
    ultimately show ?thesis by blast
  qed
  then show ?thesis by (simp only: filled_def)
qed

lemma memset0_ok:
  assumes "0 \<le> len" "len \<le> int (length mem)"
  shows "\<exists>mem'. memset0 mem len = Some mem' \<and> length mem' = length mem \<and>
    (\<forall>k < length mem. mem' ! k = (if int k < len then 0 else mem ! k))"
proof -
  obtain mem' where w: "wr_bytes 0 (replicate (nat len) 0) mem = Some mem'"
    using assms by (auto simp: wr_bytes_def nat_le_iff)
  have "mem' ! k = (if int k < len then 0 else mem ! k)" if "k < length mem" for k
    using wr_bytes_nth [OF w that] assms by auto
  then show ?thesis using w wr_bytes_length [OF w] assms by (simp add: memset0_def)
qed

text \<open>A file that can be read: the extent list is in core and describes the whole file.\<close>

definition file_ok :: "xfs_mount \<Rightarrow> xfs_inode \<Rightarrow> bool" where
  "file_ok mp ip \<longleftrightarrow>
     di_mode (i_d ip) AND S_IFREG \<noteq> 0 \<and>
     (di_format (i_d ip) = FMT_EXTENTS \<or> di_format (i_d ip) = FMT_BTREE \<and> if_extents_read (i_df ip)) \<and>
     (\<forall>r \<in> set (if_extents (i_df ip)). ext_ok mp (xfs_bmbt_get_all r)) \<and>
     nat (di_nextents (i_d ip)) = length (if_extents (i_df ip)) \<and> di_size (i_d ip) < 2 ^ 63"

text \<open>The number of bytes of a request that lie before the end of the file.\<close>

definition read_size :: "xfs_inode \<Rightarrow> int \<Rightarrow> int \<Rightarrow> int" where
  "read_size ip offset len = max 0 (min len (di_size (i_d ip) - offset))"

definition all_readable ::
    "(int \<Rightarrow> int \<Rightarrow> bytes option) \<Rightarrow> xfs_mount \<Rightarrow> xfs_inode \<Rightarrow> int \<Rightarrow> int \<Rightarrow> bool" where
  "all_readable dev mp ip offset m \<longleftrightarrow>
     m = 0 \<or> (\<forall>r \<in> set (if_extents (i_df ip)). ext_readable dev mp offset m (xfs_bmbt_get_all r))"

text \<open>The extent that counts at a position.\<close>

fun covering :: "xfs_mount \<Rightarrow> xfs_bmbt_irec list \<Rightarrow> int \<Rightarrow> xfs_bmbt_irec option" where
  "covering mp [] p = None"
| "covering mp (r # rs) p = (case covering mp rs p of
       Some r' \<Rightarrow> Some r' | None \<Rightarrow> if ext_covers mp r p then Some r else None)"

abbreviation inode_exts :: "xfs_inode \<Rightarrow> xfs_bmbt_irec list" where
  "inode_exts ip \<equiv> map xfs_bmbt_get_all (if_extents (i_df ip))"

text \<open>
  The contents of a file: zero in holes, and zero in unwritten extents (space that is allocated and not written yet,
  which reads as zeros by \<open>XFS_IOC_ZERO_RANGE\<close> in xfsctl(3)).
\<close>

definition inode_byte :: "(int \<Rightarrow> int \<Rightarrow> bytes option) \<Rightarrow> xfs_mount \<Rightarrow> xfs_inode \<Rightarrow> int \<Rightarrow> u8" where
  "inode_byte dev mp ip p = (case covering mp (inode_exts ip) p of None \<Rightarrow> 0
     | Some r \<Rightarrow> if br_state r = XFS_EXT_UNWRITTEN then 0 else ext_byte dev mp r p)"

definition unwritten_at :: "xfs_mount \<Rightarrow> xfs_inode \<Rightarrow> int \<Rightarrow> bool" where
  "unwritten_at mp ip p \<longleftrightarrow> (case covering mp (inode_exts ip) p of None \<Rightarrow> False
     | Some r \<Rightarrow> br_state r = XFS_EXT_UNWRITTEN)"

text \<open>What lies on the device in the block allocated for a position.\<close>

definition device_byte :: "(int \<Rightarrow> int \<Rightarrow> bytes option) \<Rightarrow> xfs_mount \<Rightarrow> xfs_inode \<Rightarrow> int \<Rightarrow> u8" where
  "device_byte dev mp ip p = (case covering mp (inode_exts ip) p of None \<Rightarrow> 0 | Some r \<Rightarrow> ext_byte dev mp r p)"

text \<open>
  What a read of the file delivers: its contents, except in unwritten extents, where the code, which never looks at
  the state of an extent, delivers what lies on the device.
\<close>

definition read_byte :: "(int \<Rightarrow> int \<Rightarrow> bytes option) \<Rightarrow> xfs_mount \<Rightarrow> xfs_inode \<Rightarrow> int \<Rightarrow> u8" where
  "read_byte dev mp ip p = (if unwritten_at mp ip p then device_byte dev mp ip p else inode_byte dev mp ip p)"

lemma file_byte_covering:
  "file_byte dev mp rs p z = (case covering mp rs p of None \<Rightarrow> z | Some r \<Rightarrow> ext_byte dev mp r p)"
  by (induction rs arbitrary: z) (auto split: option.split)

lemma read_byte_loop: "file_byte dev mp (inode_exts ip) p 0 = read_byte dev mp ip p"
  by (auto simp: file_byte_covering read_byte_def unwritten_at_def device_byte_def inode_byte_def split: option.split)

lemma read_byte_list:
  "if_extents (i_df ip) = if_extents (i_df ip') \<Longrightarrow> read_byte dev mp ip p = read_byte dev mp ip' p"
  by (simp add: read_byte_def unwritten_at_def device_byte_def inode_byte_def)

context buf_store
begin

text \<open>One block of an extent that the request meets.\<close>

lemma copy_block_ok:
  assumes g: "geom_ok mp" and dv: "dev_blocks dev mp" and ok: "ext_ok mp r"
    and b: "0 \<le> block" "block < uint (br_blockcount r)" and rq: "req_ok mem offset len"
    and meet: "ext_start mp r + block * blksize mp < offset + len"
      "offset < ext_start mp r + (block + 1) * blksize mp"
    and pos: "bufpos = max 0 (ext_start mp r + block * blksize mp - offset)"
    and i: "inv s" and d: "dev (ext_blkno mp r block) (XFS_FSB_TO_BB mp 1) = Some d"
  shows "\<exists>mem' s'. copy_block ops mp r offset len block bufpos mem s =
      Some (0, min len (ext_start mp r + (block + 1) * blksize mp - offset), mem', s') \<and> inv s' \<and>
      filled (ext_byte dev mp r) offset len (ext_start mp r + block * blksize mp)
        (ext_start mp r + (block + 1) * blksize mp) mem mem'"
proof -
  define B where "B = ext_start mp r + block * blksize mp"
  define bs where "bs = blksize mp"
  note bb = blksize_bounds [OF g, folded bs_def]
  note eb = ext_block_bytes [OF g ok b, folded bs_def]
  have B1: "ext_start mp r + (block + 1) * bs = B + bs" by (simp add: B_def bs_def algebra_simps)
  have B0: "0 \<le> B" using b by (simp add: B_def ext_start_def)
  have m: "B < offset + len" "offset < B + bs" using meet B1 by (simp_all add: B_def bs_def)
  have r: "0 \<le> offset" "0 < len" "offset + len < 2 ^ 63" "len \<le> int (length mem)"
    using rq by (auto simp: req_ok_def)
  have dl: "int (length d) = bs" using dv d by (auto simp: dev_blocks_def bs_def)
  obtain bp s1 where rd: "op_readbuf ops (ext_blkno mp r block) (XFS_FSB_TO_BB mp 1) s = (Some bp, s1)"
    and ba: "op_b_addr ops s1 bp = d" and inv': "inv (op_putbuf ops bp s1)"
    using read_ok [OF i d] by blast
  define src where "src = (if B < offset then offset - B else 0)"
  define n where "n = min len (B + bs - offset) - bufpos"
  have bp: "bufpos = max 0 (B - offset)" using pos by (simp add: B_def)
  have n: "0 < n" "0 \<le> bufpos" "0 \<le> src" "src + n \<le> int (length d)" "bufpos + n \<le> int (length mem)"
    using m r dl bp bb(1) by (auto simp: n_def src_def)
  have rd': "op_readbuf ops (XFS_FSB_TO_DADDR mp (to_u64 (uint (br_startblock r) + block)))
      (XFS_FSB_TO_BB mp 1) s = (Some bp, s1)"
    using rd eb(2) by (simp add: ext_blkno_def)
  obtain mem' where mc: "memcpy mem bufpos d src n = Some mem'" and ml: "length mem' = length mem"
    and mv: "\<forall>i < length mem. mem' ! i = (if bufpos \<le> int i \<and> int i < bufpos + n
       then d ! (nat src + (i - nat bufpos)) else mem ! i)"
    using memcpy_Some [OF n(2,3) less_imp_le [OF n(1)] n(4,5)] by blast
  have cb: "copy_block ops mp r offset len block bufpos mem s =
      Some (0, bufpos + n, mem', op_putbuf ops bp s1)"
  proof -
    have B': "XFS_FSB_TO_B mp (to_u64 (uint (br_startoff r) + block)) = B"
      using eb(1) by (simp add: B_def bs_def)
    have lim: "to_u64 (B + bs) = B + bs" "to_u64 (offset + len) = offset + len" "B + bs < 2 ^ 63"
      using B0 bb(1) eb(3) B1 r by simp_all
    have len': "(if to_u64 (B + bs) > to_u64 (offset + len)
        then to_s64 (offset + len - (if B < offset then offset else B))
        else (if B < offset then bs + B - offset else bs)) = n"
      using m r lim bp B0 bb(1) by (auto simp: n_def)
    have src': "(if B < offset then bs - (bs + B - offset) else 0) = src" by (simp add: src_def)
    show ?thesis
      unfolding copy_block_def Let_def rd' B' bb(3) prod.case option.case
      using len' src' mc n(1) ba by (auto split: if_splits)
  qed
  have byte: "ext_byte dev mp r (offset + int i) = d ! nat (offset + int i - B)"
    if "B \<le> offset + int i" "offset + int i < B + bs" for i
  proof -
    have e: "offset + int i - ext_start mp r = (offset + int i - B) + block * bs"
      by (simp add: B_def bs_def)
    have "(offset + int i - ext_start mp r) div bs = block \<and>
        (offset + int i - ext_start mp r) mod bs = offset + int i - B"
      unfolding e using that bb(1) by simp
    then show ?thesis using d by (simp add: ext_byte_def Let_def bs_def)
  qed
  have "filled (ext_byte dev mp r) offset len B (B + bs) mem mem'"
    unfolding filled_def
  proof (intro conjI allI impI)
    fix i assume il: "i < length mem"
    have c: "bufpos \<le> int i \<and> int i < bufpos + n \<longleftrightarrow>
        int i < len \<and> B \<le> offset + int i \<and> offset + int i < B + bs"
      using bp m by (auto simp: n_def)
    have "nat src + (i - nat bufpos) = nat (offset + int i - B)" if "bufpos \<le> int i"
      using that bp m by (auto simp: src_def)
    then show "mem' ! i = (if int i < len \<and> B \<le> offset + int i \<and> offset + int i < B + bs
        then ext_byte dev mp r (offset + int i) else mem ! i)"
      using mv il c byte by auto
  qed (rule ml)
  then have "filled (ext_byte dev mp r) offset len (ext_start mp r + block * blksize mp)
      (ext_start mp r + (block + 1) * blksize mp) mem mem'"
    unfolding B1 [symmetric] unfolding B_def bs_def .
  moreover have "bufpos + n = min len (ext_start mp r + (block + 1) * blksize mp - offset)"
    unfolding n_def using B1 [unfolded bs_def] by (simp add: bs_def)
  ultimately show ?thesis using cb inv' by auto
qed

lemma copy_block_fail:
  assumes "geom_ok mp" "ext_ok mp r" "0 \<le> block" "block < uint (br_blockcount r)" "inv s"
    and "dev (ext_blkno mp r block) (XFS_FSB_TO_BB mp 1) = None"
  shows "\<exists>s'. copy_block ops mp r offset len block bufpos mem s =
      Some (XFS_ERROR EIO, bufpos, mem, s') \<and> inv s'"
proof -
  obtain s' where "op_readbuf ops (ext_blkno mp r block) (XFS_FSB_TO_BB mp 1) s = (None, s')" "inv s'"
    using read_fail assms(5,6) by blast
  then show ?thesis
    using ext_block_bytes(2) [OF assms(1-4)] by (simp add: copy_block_def ext_blkno_def Let_def)
qed

lemma copy_blocks_ok:
  assumes g: "geom_ok mp" and dv: "dev_blocks dev mp" and ok: "ext_ok mp r"
    and e: "end \<le> uint (br_blockcount r)" "ext_start mp r + (end - 1) * blksize mp < offset + len"
  shows "0 \<le> block \<Longrightarrow> block \<le> end \<Longrightarrow> inv s \<Longrightarrow> req_ok mem offset len \<Longrightarrow>
    offset < ext_start mp r + (block + 1) * blksize mp \<Longrightarrow>
    bufpos = max 0 (ext_start mp r + block * blksize mp - offset) \<Longrightarrow>
    \<exists>err mem' s'. copy_blocks ops mp r offset len end block bufpos mem s = Some (err, mem', s') \<and> inv s' \<and>
      length mem' = length mem \<and>
      (if blocks_readable dev mp r block end
       then err = 0 \<and> filled (ext_byte dev mp r) offset len (ext_start mp r + block * blksize mp)
              (ext_start mp r + end * blksize mp) mem mem'
       else err = XFS_ERROR EIO)"
proof (induction "nat (end - block)" arbitrary: block bufpos mem s)
  case 0
  then show ?case
    by (auto simp: copy_blocks.simps blocks_readable_def intro: filled_refl)
next
  case (Suc n)
  have lt: "block < end" using Suc.hyps(2) by simp
  have bc: "block < uint (br_blockcount r)" using lt e(1) by simp
  have mono: "block * blksize mp \<le> (end - 1) * blksize mp" using lt by (intro mult_right_mono) auto
  then have meet: "ext_start mp r + block * blksize mp < offset + len" using e(2) by linarith
  have step: "(block + 1) * blksize mp = block * blksize mp + blksize mp" by (simp add: algebra_simps)
  show ?case
  proof (cases "dev (ext_blkno mp r block) (XFS_FSB_TO_BB mp 1)")
    case None
    obtain s' where "copy_block ops mp r offset len block bufpos mem s =
      Some (XFS_ERROR EIO, bufpos, mem, s')" "inv s'"
      using copy_block_fail [OF g ok Suc.prems(1) bc Suc.prems(3) None] by blast
    then show ?thesis
      using lt None by (simp add: copy_blocks.simps blocks_readable_step XFS_ERROR_def)
  next
    case (Some d)
    obtain mem1 s1 where cb: "copy_block ops mp r offset len block bufpos mem s =
        Some (0, min len (ext_start mp r + (block + 1) * blksize mp - offset), mem1, s1)"
      and i1: "inv s1" and f1: "filled (ext_byte dev mp r) offset len (ext_start mp r + block * blksize mp)
        (ext_start mp r + (block + 1) * blksize mp) mem mem1"
      using copy_block_ok [OF g dv ok Suc.prems(1) bc Suc.prems(4) meet Suc.prems(5,6,3) Some] by blast
    have l1: "length mem1 = length mem" using f1 by (simp add: filled_def)
    show ?thesis
    proof (cases "block + 1 < end")
      case True
      have "(block + 1) * blksize mp \<le> (end - 1) * blksize mp" using True by (intro mult_right_mono) auto
      then have p: "min len (ext_start mp r + (block + 1) * blksize mp - offset) =
          max 0 (ext_start mp r + (block + 1) * blksize mp - offset)"
        using e(2) Suc.prems(5) by linarith
      have "offset < ext_start mp r + (block + 1 + 1) * blksize mp"
        using Suc.prems(5) blksize_bounds(1) [OF g] by (simp add: algebra_simps)
      note nxt = this
      have hy: "n = nat (end - (block + 1))" using Suc.hyps(2) by simp
      have rq1: "req_ok mem1 offset len" using Suc.prems(4) l1 by (simp add: req_ok_def)
      obtain err mem' s' where r': "copy_blocks ops mp r offset len end (block + 1)
            (min len (ext_start mp r + (block + 1) * blksize mp - offset)) mem1 s1 = Some (err, mem', s')"
          "inv s'" "length mem' = length mem1"
          "if blocks_readable dev mp r (block + 1) end
           then err = 0 \<and> filled (ext_byte dev mp r) offset len (ext_start mp r + (block + 1) * blksize mp)
              (ext_start mp r + end * blksize mp) mem1 mem'
           else err = XFS_ERROR EIO"
        using Suc.hyps(1) [OF hy _ _ i1 rq1 nxt p] Suc.prems(1) True by auto
      have "(block + 1) * blksize mp \<le> end * blksize mp" using True by (intro mult_right_mono) auto
      then have "filled (ext_byte dev mp r) offset len (ext_start mp r + block * blksize mp)
              (ext_start mp r + end * blksize mp) mem mem'"
        if "blocks_readable dev mp r (block + 1) end"
        using r'(4) that f1 step blksize_bounds(1) [OF g] by (auto elim!: filled_trans)
      then show ?thesis
        using r' lt Some cb l1 by (auto simp: copy_blocks.simps [of _ _ _ _ _ _ block] blocks_readable_step)
    next
      case False
      then have "end = block + 1" using lt by simp
      then show ?thesis
        using cb i1 f1 l1 Some
        by (auto simp: copy_blocks.simps blocks_readable_def)
    qed
  qed
qed

lemma copy_extent_ok:
  assumes g: "geom_ok mp" and dv: "dev_blocks dev mp" and ok: "ext_ok mp r"
    and rq: "req_ok mem offset len" and ov: "extent_overlaps_buffer mp r offset len" and i: "inv s"
  shows "\<exists>err mem' s'. copy_extent_to_buffer ops mp r mem offset len s = Some (err, mem', s') \<and> inv s' \<and>
      length mem' = length mem \<and>
      (if ext_readable dev mp offset len r
       then err = 0 \<and> filled (ext_byte dev mp r) offset len (ext_start mp r)
              (ext_start mp r + uint (br_blockcount r) * blksize mp) mem mem'
       else err = XFS_ERROR EIO)"
  unfolding copy_extent_blocks [OF g ok rq ov] ext_readable_blocks [OF g]
    filled_req [OF g, symmetric]
  by (rule copy_blocks_ok [OF g dv ok _ req_bounds(4) [OF g ok rq ov] req_bounds(1,2) [OF g ok rq ov] i rq
        req_bounds(3) [OF g ok rq ov] refl])
    (simp add: req_end_def)

text \<open>One extent of the list, met by the request or not.\<close>

lemma extent_step:
  assumes g: "geom_ok mp" and dv: "dev_blocks dev mp" and ok: "ext_ok mp r"
    and rq: "req_ok mem offset len" and i: "inv s"
  shows "\<exists>err mem' s'. (if extent_overlaps_buffer mp r offset len
        then copy_extent_to_buffer ops mp r mem offset len s else Some (0, mem, s)) = Some (err, mem', s') \<and>
      inv s' \<and> length mem' = length mem \<and>
      (if ext_readable dev mp offset len r
       then err = 0 \<and> (\<forall>k < length mem. mem' ! k = (if int k < len \<and> ext_covers mp r (offset + int k)
              then ext_byte dev mp r (offset + int k) else mem ! k))
       else err = XFS_ERROR EIO)"
proof (cases "extent_overlaps_buffer mp r offset len")
  case True
  obtain err mem' s' where "copy_extent_to_buffer ops mp r mem offset len s = Some (err, mem', s')"
      "inv s'" "length mem' = length mem"
      "if ext_readable dev mp offset len r
       then err = 0 \<and> filled (ext_byte dev mp r) offset len (ext_start mp r)
              (ext_start mp r + uint (br_blockcount r) * blksize mp) mem mem'
       else err = XFS_ERROR EIO"
    using copy_extent_ok [OF g dv ok rq True i] by blast
  then show ?thesis
    using True by (cases "ext_readable dev mp offset len r") (simp_all add: filled_def ext_covers_def)
next
  case False
  have no: "\<not> (int k < len \<and> ext_covers mp r (offset + int k))" for k
    using False rq unfolding extent_overlaps_iff [OF g ok rq] ext_covers_def req_ok_def by auto
  have "ext_readable dev mp offset len r"
  proof -
    have "\<not> (0 \<le> k \<and> k < uint (br_blockcount r) \<and> ext_start mp r + k * blksize mp < offset + len \<and>
        offset < ext_start mp r + (k + 1) * blksize mp)" for k
    proof
      assume k: "0 \<le> k \<and> k < uint (br_blockcount r) \<and> ext_start mp r + k * blksize mp < offset + len \<and>
        offset < ext_start mp r + (k + 1) * blksize mp"
      then have "(k + 1) * blksize mp \<le> uint (br_blockcount r) * blksize mp" "0 \<le> k * blksize mp"
        by (auto intro: mult_right_mono)
      then show False using k False unfolding extent_overlaps_iff [OF g ok rq] by linarith
    qed
    then show ?thesis unfolding ext_readable_def by blast
  qed
  then show ?thesis using False i no by auto
qed

lemma read_extents_loop_ok:
  assumes g: "geom_ok mp" and dv: "dev_blocks dev mp"
    and ok: "\<forall>r \<in> set exts. ext_ok mp (xfs_bmbt_get_all r)"
  shows "inv s \<Longrightarrow> req_ok mem offset len \<Longrightarrow> idx + n = length exts \<Longrightarrow>
    \<exists>err mem' s'. read_extents_loop ops mp exts offset len idx n mem s = Some (err, mem', s') \<and> inv s' \<and>
      length mem' = length mem \<and>
      (if \<forall>r \<in> set (drop idx exts). ext_readable dev mp offset len (xfs_bmbt_get_all r)
       then err = 0 \<and> (\<forall>k < length mem. mem' ! k = (if int k < len
              then file_byte dev mp (map xfs_bmbt_get_all (drop idx exts)) (offset + int k) (mem ! k)
              else mem ! k))
       else err = XFS_ERROR EIO)"
proof (induction n arbitrary: idx mem s)
  case 0
  then show ?case by simp
next
  case (Suc n)
  define r where "r = xfs_bmbt_get_all (exts ! idx)"
  have ix: "idx < length exts" using Suc.prems by simp
  have dr: "drop idx exts = exts ! idx # drop (Suc idx) exts" using ix by (rule Cons_nth_drop_Suc [symmetric])
  have rok: "ext_ok mp r" using ok ix by (simp add: r_def)
  obtain err mem1 s1 where st: "(if extent_overlaps_buffer mp r offset len
        then copy_extent_to_buffer ops mp r mem offset len s else Some (0, mem, s)) = Some (err, mem1, s1)"
    and i1: "inv s1" and l1: "length mem1 = length mem"
    and v1: "if ext_readable dev mp offset len r
       then err = 0 \<and> (\<forall>k < length mem. mem1 ! k = (if int k < len \<and> ext_covers mp r (offset + int k)
              then ext_byte dev mp r (offset + int k) else mem ! k))
       else err = XFS_ERROR EIO"
    using extent_step [OF g dv rok Suc.prems(2,1)] by blast
  have unf: "read_extents_loop ops mp exts offset len idx (Suc n) mem s =
      (if err \<noteq> 0 then Some (err, mem1, s1) else read_extents_loop ops mp exts offset len (idx + 1) n mem1 s1)"
    using st ix by (auto simp: r_def [symmetric] split: if_splits)
  have rq1: "req_ok mem1 offset len" using Suc.prems(2) l1 by (simp add: req_ok_def)
  have nx: "idx + 1 + n = length exts" using Suc.prems(3) by simp
  show ?case
  proof (cases "ext_readable dev mp offset len r")
    case False
    then show ?thesis
      unfolding unf dr using v1 i1 l1 by (simp add: r_def [symmetric] XFS_ERROR_def)
  next
    case True
    then show ?thesis
      unfolding unf dr using v1 Suc.IH [OF i1 rq1 nx] l1 by (auto simp: r_def [symmetric] cong: if_cong)
  qed
qed

text \<open>
  Reading a regular file: \<open>n\<close> bytes are returned, those of the file from \<open>offset\<close> on (zero in the
  holes), or the error of the device when one of the blocks cannot be read.
\<close>

lemma readfile_extents_ok:
  assumes g: "geom_ok mp" and dv: "dev_blocks dev mp"
    and ok: "\<forall>r \<in> set (if_extents (i_df ip)). ext_ok mp (xfs_bmbt_get_all r)"
    and n: "nat (di_nextents (i_d ip)) = length (if_extents (i_df ip))"
    and rq: "req_ok mem offset len" and i: "inv s" and sz: "di_size (i_d ip) < 2 ^ 63"
  shows "\<exists>err mem' s'. xfs_readfile_extents ops mp ip mem offset len s = Some (err, mem', s') \<and> inv s' \<and>
      length mem' = length mem \<and>
      (let m = max 0 (min len (di_size (i_d ip) - offset)) in
       if m = 0 \<or> (\<forall>r \<in> set (if_extents (i_df ip)). ext_readable dev mp offset m (xfs_bmbt_get_all r))
       then err = m \<and> (\<forall>k < length mem. mem' ! k = (if int k < m
              then file_byte dev mp (map xfs_bmbt_get_all (if_extents (i_df ip))) (offset + int k) (mem ! k)
              else mem ! k))
       else err = XFS_ERROR EIO)"
proof (cases "offset \<ge> di_size (i_d ip)")
  case True
  then show ?thesis using i rq by (simp add: xfs_readfile_extents_def Let_def)
next
  case False
  define m where "m = min len (di_size (i_d ip) - offset)"
  have r: "0 \<le> offset" "0 < len" "len < 2 ^ 31" "offset + len < 2 ^ 63" "len \<le> int (length mem)"
    using rq by (auto simp: req_ok_def)
  have m: "(if to_u64 (offset + len) > to_u64 (di_size (i_d ip)) then to_u64 (di_size (i_d ip) - offset)
      else len) = m"
    using r sz False by (auto simp: m_def)
  have rm: "req_ok mem offset m" and m0: "0 < m" using r False by (auto simp: req_ok_def m_def)
  have mx: "max 0 (min len (di_size (i_d ip) - offset)) = m" using m0 by (simp add: m_def)
  have t: "to_s32 m = m" using rm by (simp add: req_ok_def)
  obtain err mem' s' where L: "read_extents_loop ops mp (if_extents (i_df ip)) offset m 0
      (nat (di_nextents (i_d ip))) mem s = Some (err, mem', s')" "inv s'" "length mem' = length mem"
      "if \<forall>r \<in> set (if_extents (i_df ip)). ext_readable dev mp offset m (xfs_bmbt_get_all r)
       then err = 0 \<and> (\<forall>k < length mem. mem' ! k = (if int k < m
              then file_byte dev mp (map xfs_bmbt_get_all (if_extents (i_df ip))) (offset + int k) (mem ! k)
              else mem ! k))
       else err = XFS_ERROR EIO"
    using read_extents_loop_ok [OF g dv ok i rm, of 0 "nat (di_nextents (i_d ip))"] n by auto
  have "xfs_readfile_extents ops mp ip mem offset len s =
      (if err \<noteq> 0 then Some (err, mem', s') else Some (m, mem', s'))"
    using False L(1) by (simp add: xfs_readfile_extents_def Let_def m t)
  then show ?thesis
    unfolding mx Let_def using L(2-4) m0 by (auto simp: XFS_ERROR_def split: if_splits)
qed

lemma readfile_ok:
  assumes g: "geom_ok mp" and dv: "dev_blocks dev mp" and f: "file_ok mp ip"
    and rq: "req_ok mem offset len" and i: "inv s"
  shows "\<exists>err mem' s'. xfs_readfile ops iread mp ip mem offset len s = Some (err, mem', ip, s') \<and> inv s' \<and>
      length mem' = length mem \<and>
      (let m = read_size ip offset len in
       if all_readable dev mp ip offset m
       then err = m \<and> (\<forall>k < length mem. mem' ! k =
              (if int k < m then read_byte dev mp ip (offset + int k)
               else if int k < len then 0 else mem ! k))
       else err = XFS_ERROR EIO)"
proof -
  have fo: "\<forall>r \<in> set (if_extents (i_df ip)). ext_ok mp (xfs_bmbt_get_all r)"
    "nat (di_nextents (i_d ip)) = length (if_extents (i_df ip))" "di_size (i_d ip) < 2 ^ 63"
    using f by (auto simp: file_ok_def)
  obtain mem0 where m0: "memset0 mem len = Some mem0" and l0: "length mem0 = length mem"
    and v0: "\<forall>k < length mem. mem0 ! k = (if int k < len then 0 else mem ! k)"
    using memset0_ok [of len mem] rq by (auto simp: req_ok_def)
  have rq0: "req_ok mem0 offset len" using rq l0 by (simp add: req_ok_def)
  obtain err mem' s' where L: "xfs_readfile_extents ops mp ip mem0 offset len s = Some (err, mem', s')"
      "inv s'" "length mem' = length mem0"
      "let m = read_size ip offset len in
       if all_readable dev mp ip offset m
       then err = m \<and> (\<forall>k < length mem0. mem' ! k = (if int k < m
              then file_byte dev mp (map xfs_bmbt_get_all (if_extents (i_df ip))) (offset + int k) (mem0 ! k)
              else mem0 ! k))
       else err = XFS_ERROR EIO"
    using readfile_extents_ok [OF g dv fo(1,2) rq0 i fo(3)] unfolding read_size_def all_readable_def by blast
  have bt: "xfs_readfile_btree ops iread mp ip mem0 offset len s = Some (err, mem', ip, s')"
    if "if_extents_read (i_df ip)"
    using L(1) that
    by (auto simp: xfs_readfile_btree_def xfs_readfile_extents_def Let_def split: if_splits option.splits
        bind_split_asm bind_splits)
  have "xfs_readfile ops iread mp ip mem offset len s = Some (err, mem', ip, s')"
    using f m0 L(1) bt by (auto simp: xfs_readfile_def file_ok_def)
  moreover have "int k < len" if "int k < read_size ip offset len" for k
    using that by (auto simp: read_size_def)
  ultimately show ?thesis
    using L(2-4) l0 v0 by (auto simp: Let_def read_byte_loop)
qed

end

end
