(* ===== verification/Bufcache.thy ===== *)
theory Bufcache
  imports Cache File_Read
begin

text \<open>
  The buffer cache (libxfs/rdwr.c): the client of the generic cache whose nodes are disk buffers.
  A buffer that leaves the cache goes, memory and all, to a free list from which new buffers are
  made. The operating system is a parameter (\<open>dev_ops\<close>): \<open>pread64\<close> and \<open>pwrite64\<close> on the state
  \<open>'o\<close> of the devices, and \<open>memalign\<close>. A call of \<open>exit\<close> sets \<open>bs_exited\<close>.
\<close>

section \<open>Buffers and the operating system\<close>

definition LIBXFS_B_EXIT :: nat where "LIBXFS_B_EXIT = 1"
definition LIBXFS_B_DIRTY :: nat where "LIBXFS_B_DIRTY = 2"
definition LIBXFS_B_UPTODATE :: nat where "LIBXFS_B_UPTODATE = 8"
definition LIBXFS_EXIT_ON_FAILURE :: nat where "LIBXFS_EXIT_ON_FAILURE = 1"

text \<open>\<open>b_addr\<close> is \<open>None\<close> for a null pointer.\<close>

record xfs_buf =
  b_blkno :: int
  b_bcount :: int
  b_dev :: nat
  b_flags :: nat
  b_addr :: "bytes option"

record xfs_bufkey =
  key_device :: nat
  key_blkno :: int
  key_bblen :: int

record 'o dev_ops =
  pread64 :: "nat \<Rightarrow> int \<Rightarrow> int \<Rightarrow> 'o \<Rightarrow> int + bytes"
  pwrite64 :: "nat \<Rightarrow> bytes \<Rightarrow> int \<Rightarrow> int \<Rightarrow> 'o \<Rightarrow> int \<times> 'o"
  memalign :: "int \<Rightarrow> bytes option"

record 'o bufs =
  bs_buf :: "nat \<Rightarrow> xfs_buf"
  xfs_buf_freelist :: "nat list"
  bs_next :: nat
  bs_exited :: bool
  bs_os :: 'o

definition BBTOB :: "int \<Rightarrow> int" where
  "BBTOB bbs = to_u32 (bbs * 512)"

definition LIBXFS_BBTOOFF64 :: "int \<Rightarrow> int" where
  "LIBXFS_BBTOOFF64 bbs = bbs * 512"

definition upd_buf :: "nat \<Rightarrow> (xfs_buf \<Rightarrow> xfs_buf) \<Rightarrow> 'o bufs \<Rightarrow> 'o bufs" where
  "upd_buf b f p = p\<lparr>bs_buf := (bs_buf p)(b := f (bs_buf p b))\<rparr>"

section \<open>The operations the cache calls\<close>

definition libxfs_bhash :: "xfs_bufkey \<Rightarrow> nat \<Rightarrow> nat" where
  "libxfs_bhash key hashsize = nat (to_u32 (key_blkno key) div 32) mod hashsize"

definition libxfs_bcompare :: "'o bufs \<Rightarrow> nat \<Rightarrow> xfs_bufkey \<Rightarrow> bool" where
  "libxfs_bcompare p node bkey \<longleftrightarrow>
     b_dev (bs_buf p node) = key_device bkey \<and> b_blkno (bs_buf p node) = key_blkno bkey \<and>
     b_bcount (bs_buf p node) = BBTOB (key_bblen bkey)"

definition libxfs_initbuf :: "'o dev_ops \<Rightarrow> nat \<Rightarrow> nat \<Rightarrow> int \<Rightarrow> int \<Rightarrow> 'o bufs \<Rightarrow> 'o bufs" where
  "libxfs_initbuf os bp device bno bytes p =
    (let p1 = upd_buf bp (\<lambda>b. b\<lparr>b_flags := 0, b_blkno := bno, b_bcount := bytes, b_dev := device\<rparr>) p;
         p2 = (if b_addr (bs_buf p1 bp) = None
               then upd_buf bp (\<lambda>b. b\<lparr>b_addr := memalign os bytes\<rparr>) p1 else p1)
     in if b_addr (bs_buf p2 bp) = None then p2\<lparr>bs_exited := True\<rparr> else p2)"

definition zero_buf :: xfs_buf where
  "zero_buf = \<lparr>b_blkno = 0, b_bcount = 0, b_dev = 0, b_flags = 0, b_addr = None\<rparr>"

text \<open>A buffer from the free list, one of the right size if there is any, or a new one.\<close>

definition libxfs_getbufr :: "'o dev_ops \<Rightarrow> nat \<Rightarrow> int \<Rightarrow> int \<Rightarrow> 'o bufs \<Rightarrow> nat option \<times> 'o bufs" where
  "libxfs_getbufr os device blkno bblen p =
    (let blen = BBTOB bblen;
         (bp, p1) =
           (case xfs_buf_freelist p of
              [] \<Rightarrow> (bs_next p, p\<lparr>bs_next := bs_next p + 1, bs_buf := (bs_buf p)(bs_next p := zero_buf)\<rparr>)
            | first # rest \<Rightarrow>
               (case find (\<lambda>b. b_bcount (bs_buf p b) = blen) (xfs_buf_freelist p) of
                  Some b \<Rightarrow> (b, p\<lparr>xfs_buf_freelist := remove1 b (xfs_buf_freelist p)\<rparr>)
                | None \<Rightarrow> (first, upd_buf first (\<lambda>b. b\<lparr>b_addr := None\<rparr>) (p\<lparr>xfs_buf_freelist := rest\<rparr>))))
     in (Some bp, libxfs_initbuf os bp device blkno blen p1))"

definition libxfs_balloc :: "'o dev_ops \<Rightarrow> xfs_bufkey \<Rightarrow> 'o bufs \<Rightarrow> nat option \<times> 'o bufs" where
  "libxfs_balloc os bufkey p =
     libxfs_getbufr os (key_device bufkey) (key_blkno bufkey) (key_bblen bufkey) p"

definition libxfs_writebufr :: "'o dev_ops \<Rightarrow> nat \<Rightarrow> 'o bufs \<Rightarrow> int \<times> 'o bufs" where
  "libxfs_writebufr os bp p =
    (let b = bs_buf p bp;
         (sts, o') = pwrite64 os (b_dev b) (case b_addr b of Some a \<Rightarrow> a | None \<Rightarrow> []) (b_bcount b)
                       (LIBXFS_BBTOOFF64 (b_blkno b)) (bs_os p);
         p1 = p\<lparr>bs_os := o'\<rparr>;
         p2 = (if b_flags b AND LIBXFS_B_EXIT \<noteq> 0 then p1\<lparr>bs_exited := True\<rparr> else p1)
     in if sts < 0 then (- sts, p2)
        else if to_u32 sts \<noteq> b_bcount b then (errno_code EIO, p2)
        else (0, upd_buf bp (\<lambda>b. b\<lparr>b_flags := (b_flags b OR LIBXFS_B_UPTODATE) -
                    ((b_flags b OR LIBXFS_B_UPTODATE) AND (LIBXFS_B_DIRTY OR LIBXFS_B_EXIT))\<rparr>) p1))"

definition libxfs_brelse :: "'o dev_ops \<Rightarrow> nat \<Rightarrow> 'o bufs \<Rightarrow> 'o bufs" where
  "libxfs_brelse os node p =
    (let p1 = (if b_flags (bs_buf p node) AND LIBXFS_B_DIRTY \<noteq> 0 then snd (libxfs_writebufr os node p) else p)
     in p1\<lparr>xfs_buf_freelist := node # xfs_buf_freelist p1\<rparr>)"

definition write_dirty :: "'o dev_ops \<Rightarrow> nat \<Rightarrow> 'o bufs \<Rightarrow> 'o bufs" where
  "write_dirty os bp p =
     (if b_flags (bs_buf p bp) AND LIBXFS_B_DIRTY \<noteq> 0 then snd (libxfs_writebufr os bp p) else p)"

definition libxfs_bulkrelse :: "'o dev_ops \<Rightarrow> nat list \<Rightarrow> 'o bufs \<Rightarrow> nat \<times> 'o bufs" where
  "libxfs_bulkrelse os list p =
    (if list = [] then (0, p)
     else let p1 = fold (write_dirty os) list p
          in (length list, p1\<lparr>xfs_buf_freelist := list @ xfs_buf_freelist p1\<rparr>))"

definition libxfs_bflush :: "'o dev_ops \<Rightarrow> nat \<Rightarrow> 'o bufs \<Rightarrow> 'o bufs" where
  "libxfs_bflush os node p = write_dirty os node p"

definition libxfs_bcache_operations :: "'o dev_ops \<Rightarrow> (xfs_bufkey, 'o bufs) cache_ops" where
  "libxfs_bcache_operations os =
     \<lparr> op_hash = libxfs_bhash, op_alloc = libxfs_balloc os, op_flush = Some (libxfs_bflush os),
       op_relse = libxfs_brelse os, op_compare = libxfs_bcompare,
       op_bulkrelse = Some (libxfs_bulkrelse os) \<rparr>"

section \<open>The interface\<close>

record 'o bcache =
  bc_cache :: cache
  bc_bufs :: "'o bufs"

definition libxfs_getbuf ::
    "'o dev_ops \<Rightarrow> nat \<Rightarrow> int \<Rightarrow> int \<Rightarrow> 'o bcache \<Rightarrow> (nat \<times> 'o bcache) option" where
  "libxfs_getbuf os device blkno len s =
    (let key = \<lparr>key_device = device, key_blkno = blkno, key_bblen = to_u32 len\<rparr> in do {
       (miss, bp, c, p) \<leftarrow> cache_node_get (libxfs_bcache_operations os) (bc_cache s) (bc_bufs s) key;
       let c' = cache_node_set_priority c bp (cache_node_get_priority c bp - CACHE_PREFETCH_PRIORITY);
       Some (bp, \<lparr>bc_cache = c', bc_bufs = p\<rparr>) })"

definition libxfs_putbuf :: "nat \<Rightarrow> 'o bcache \<Rightarrow> 'o bcache" where
  "libxfs_putbuf bp s = s\<lparr>bc_cache := cache_node_put (bc_cache s) bp\<rparr>"

definition libxfs_purgebuf :: "'o dev_ops \<Rightarrow> nat \<Rightarrow> 'o bcache \<Rightarrow> 'o bcache" where
  "libxfs_purgebuf os bp s =
    (let b = bs_buf (bc_bufs s) bp;
         key = \<lparr>key_device = b_dev b, key_blkno = b_blkno b, key_bblen = b_bcount b div 2 ^ BBSHIFT\<rparr>;
         (_, c, p) = cache_node_purge (libxfs_bcache_operations os) (bc_cache s) (bc_bufs s) key bp
     in \<lparr>bc_cache = c, bc_bufs = p\<rparr>)"

text \<open>A read that returns fewer bytes than asked for counts as a success, as in the code.\<close>

definition libxfs_readbufr ::
    "'o dev_ops \<Rightarrow> nat \<Rightarrow> int \<Rightarrow> nat \<Rightarrow> int \<Rightarrow> nat \<Rightarrow> 'o bufs \<Rightarrow> int \<times> 'o bufs" where
  "libxfs_readbufr os dev blkno bp len flags p =
    (let bytes = BBTOB len in
     case pread64 os dev (LIBXFS_BBTOOFF64 blkno) bytes (bs_os p) of
       Inl e \<Rightarrow> (e, if flags AND LIBXFS_EXIT_ON_FAILURE \<noteq> 0 then p\<lparr>bs_exited := True\<rparr> else p)
     | Inr d \<Rightarrow>
        (let p1 = upd_buf bp (\<lambda>b. b\<lparr>b_addr := map_option (\<lambda>a. d @ drop (length d) a) (b_addr b)\<rparr>) p;
             b = bs_buf p1 bp
         in (0, if b_dev b = dev \<and> b_blkno b = blkno \<and> b_bcount b = bytes
                then upd_buf bp (\<lambda>b. b\<lparr>b_flags := b_flags b OR LIBXFS_B_UPTODATE\<rparr>) p1 else p1)))"

definition libxfs_readbuf ::
    "'o dev_ops \<Rightarrow> nat \<Rightarrow> int \<Rightarrow> int \<Rightarrow> nat \<Rightarrow> 'o bcache \<Rightarrow> (nat option \<times> 'o bcache) option" where
  "libxfs_readbuf os dev blkno len flags s = do {
     (bp, s1) \<leftarrow> libxfs_getbuf os dev blkno len s;
     if b_flags (bs_buf (bc_bufs s1) bp) AND (LIBXFS_B_UPTODATE OR LIBXFS_B_DIRTY) = 0
     then
       let (error, p) = libxfs_readbufr os dev blkno bp len flags (bc_bufs s1);
           s2 = s1\<lparr>bc_bufs := p\<rparr>
       in if error \<noteq> 0 then Some (None, libxfs_putbuf bp s2) else Some (Some bp, s2)
     else Some (Some bp, s1) }"

definition libxfs_writebuf_int :: "nat \<Rightarrow> nat \<Rightarrow> 'o bcache \<Rightarrow> 'o bcache" where
  "libxfs_writebuf_int bp flags s = s\<lparr>bc_bufs :=
     upd_buf bp (\<lambda>b. b\<lparr>b_flags := b_flags b OR (LIBXFS_B_DIRTY OR flags)\<rparr>) (bc_bufs s)\<rparr>"

definition libxfs_writebuf :: "nat \<Rightarrow> nat \<Rightarrow> 'o bcache \<Rightarrow> 'o bcache" where
  "libxfs_writebuf bp flags s = libxfs_putbuf bp (s\<lparr>bc_bufs :=
     upd_buf bp (\<lambda>b. b\<lparr>b_flags := b_flags b OR (LIBXFS_B_DIRTY OR flags)\<rparr>) (bc_bufs s)\<rparr>)"

text \<open>Moving data between a buffer and memory; \<open>None\<close> is an access outside one of them.\<close>

datatype iomove_flag = LIBXFS_BREAD | LIBXFS_BWRITE | LIBXFS_BZERO

definition libxfs_iomove ::
    "nat \<Rightarrow> nat \<Rightarrow> nat \<Rightarrow> bytes \<Rightarrow> iomove_flag \<Rightarrow> 'o bufs \<Rightarrow> (bytes \<times> 'o bufs) option" where
  "libxfs_iomove bp boff len data flags p = do {
     a \<leftarrow> b_addr (bs_buf p bp);
     (case flags of
        LIBXFS_BZERO \<Rightarrow> do {
          a' \<leftarrow> wr_bytes boff (replicate len 0) a;
          Some (data, upd_buf bp (\<lambda>b. b\<lparr>b_addr := Some a'\<rparr>) p) }
      | LIBXFS_BREAD \<Rightarrow> do {
          x \<leftarrow> rd_bytes boff len a; data' \<leftarrow> wr_bytes 0 x data; Some (data', p) }
      | LIBXFS_BWRITE \<Rightarrow> do {
          x \<leftarrow> rd_bytes 0 len data; a' \<leftarrow> wr_bytes boff x a;
          Some (data, upd_buf bp (\<lambda>b. b\<lparr>b_addr := Some a'\<rparr>) p) }) }"

definition libxfs_bcache_purge :: "'o dev_ops \<Rightarrow> 'o bcache \<Rightarrow> 'o bcache" where
  "libxfs_bcache_purge os s =
    (let (c, p) = cache_purge (libxfs_bcache_operations os) (bc_cache s) (bc_bufs s)
     in \<lparr>bc_cache = c, bc_bufs = p\<rparr>)"

definition libxfs_bcache_flush :: "'o dev_ops \<Rightarrow> 'o bcache \<Rightarrow> 'o bcache" where
  "libxfs_bcache_flush os s = s\<lparr>bc_bufs := cache_flush (libxfs_bcache_operations os) (bc_cache s) (bc_bufs s)\<rparr>"

definition libxfs_bcache_overflowed :: "'o bcache \<Rightarrow> bool" where
  "libxfs_bcache_overflowed s \<longleftrightarrow> cache_overflowed (bc_cache s)"

text \<open>
  The three operations the file reader uses, on the device \<open>dev\<close>. Where \<open>libxfs_readbuf\<close> would not return, the read is
  taken for a failed one to keep the interface simple; under the invariant it always returns (\<open>readbuf_ok\<close>).
\<close>

definition bcache_buf_ops :: "'o dev_ops \<Rightarrow> nat \<Rightarrow> (nat, 'o bcache) buf_ops" where
  "bcache_buf_ops os dev =
     \<lparr> op_readbuf = (\<lambda>blkno len s. case libxfs_readbuf os dev blkno len 0 s of
           Some r \<Rightarrow> r | None \<Rightarrow> (None, s)),
       op_b_addr = (\<lambda>s bp. case b_addr (bs_buf (bc_bufs s) bp) of Some a \<Rightarrow> a | None \<Rightarrow> []),
       op_putbuf = libxfs_putbuf \<rparr>"

section \<open>The invariant of the buffers\<close>

text \<open>
  The assumption on the operating system under which the reads are proved right: a device that nobody writes to, whose
  reads return all bytes asked for or fail, and memory that can be had. \<open>pread64\<close> may also return fewer bytes, at the
  end of a device say; the code takes that for a success (\<open>readbufr_short\<close>), and the theorems do not cover it.
\<close>

definition os_ok :: "'o dev_ops \<Rightarrow> 'o \<Rightarrow> bool" where
  "os_ok os d \<longleftrightarrow>
     (\<forall>fd off n x. 0 \<le> n \<longrightarrow> pread64 os fd off n d = Inr x \<longrightarrow> int (length x) = n) \<and>
     (\<forall>fd off n e. pread64 os fd off n d = Inl e \<longrightarrow> e \<noteq> 0) \<and>
     (\<forall>n. 0 \<le> n \<longrightarrow> (\<exists>a. memalign os n = Some a \<and> int (length a) = n))"

text \<open>After a short read the buffer counts as up to date, and the rest of it is what the memory held before.\<close>

lemma readbufr_short:
  assumes "pread64 os dev (LIBXFS_BBTOOFF64 blkno) (BBTOB len) (bs_os p) = Inr x"
    and "b_addr (bs_buf p bp) = Some a" "b_dev (bs_buf p bp) = dev" "b_blkno (bs_buf p bp) = blkno"
      "b_bcount (bs_buf p bp) = BBTOB len"
  shows "\<exists>p'. libxfs_readbufr os dev blkno bp len flags p = (0, p') \<and>
    b_addr (bs_buf p' bp) = Some (x @ drop (length x) a) \<and> b_flags (bs_buf p' bp) AND LIBXFS_B_UPTODATE \<noteq> 0"
proof -
  have "(f OR 8) AND 8 = (8 :: nat)" for f by (rule bit_eqI) (auto simp: bit_and_iff bit_or_iff)
  then show ?thesis
    using assms by (auto simp: libxfs_readbufr_def Let_def upd_buf_def LIBXFS_B_UPTODATE_def)
qed

text \<open>A buffer has its memory and, once up to date, shows what the device holds.\<close>

definition buf_ok :: "'o dev_ops \<Rightarrow> 'o \<Rightarrow> xfs_buf \<Rightarrow> bool" where
  "buf_ok os d b \<longleftrightarrow> 0 \<le> b_bcount b \<and> b_flags b AND LIBXFS_B_DIRTY = 0 \<and>
     (\<exists>a. b_addr b = Some a \<and> int (length a) = b_bcount b \<and>
        (b_flags b AND LIBXFS_B_UPTODATE \<noteq> 0 \<longrightarrow>
           pread64 os (b_dev b) (LIBXFS_BBTOOFF64 (b_blkno b)) (b_bcount b) d = Inr a))"

definition bufs_ok :: "'o dev_ops \<Rightarrow> 'o \<Rightarrow> 'o bufs \<Rightarrow> nat set \<Rightarrow> bool" where
  "bufs_ok os d p L \<longleftrightarrow> os_ok os d \<and> bs_os p = d \<and> \<not> bs_exited p \<and>
     distinct (xfs_buf_freelist p) \<and> set (xfs_buf_freelist p) \<inter> L = {} \<and>
     (\<forall>n \<in> L \<union> set (xfs_buf_freelist p). n < bs_next p \<and> buf_ok os d (bs_buf p n))"

lemma BBTOB_nonneg [simp]: "0 \<le> BBTOB n"
  by (simp add: BBTOB_def to_u32_def)

lemma BBTOB_to_u32 [simp]: "BBTOB (to_u32 n) = BBTOB n"
  by (simp add: BBTOB_def to_u32_def mod_mult_left_eq)

lemma initbuf_ok:
  assumes "os_ok os d" and "0 \<le> n"
    and "\<forall>a. b_addr (bs_buf p b) = Some a \<longrightarrow> int (length a) = n"
  shows "\<exists>a. libxfs_initbuf os b dev bno n p = upd_buf b
      (\<lambda>_. (bs_buf p b)\<lparr>b_flags := 0, b_blkno := bno, b_bcount := n, b_dev := dev, b_addr := Some a\<rparr>) p \<and>
      int (length a) = n"
proof (cases "b_addr (bs_buf p b)")
  case None
  obtain a where "memalign os n = Some a" "int (length a) = n" using assms(1,2) by (auto simp: os_ok_def)
  then show ?thesis using None by (auto simp: libxfs_initbuf_def Let_def upd_buf_def)
next
  case (Some a)
  then show ?thesis
    using assms(3) by (cases "bs_buf p b") (auto simp: libxfs_initbuf_def Let_def upd_buf_def)
qed

text \<open>A fresh buffer put in place of the free or unused buffer \<open>n\<close>.\<close>

definition fresh_buf :: "nat \<Rightarrow> int \<Rightarrow> int \<Rightarrow> bytes \<Rightarrow> xfs_buf" where
  "fresh_buf dev bno n a = \<lparr>b_blkno = bno, b_bcount = n, b_dev = dev, b_flags = 0, b_addr = Some a\<rparr>"

lemma getbufr_ok:
  assumes ok: "bufs_ok os d p L"
  shows "\<exists>n a p'. libxfs_getbufr os dev bno len p = (Some n, p') \<and> n \<notin> L \<and>
    bufs_ok os d p' (insert n L) \<and>
    bs_buf p' = (bs_buf p)(n := fresh_buf dev bno (BBTOB len) a)"
proof -
  have os: "os_ok os d" using ok by (simp add: bufs_ok_def)
  have fr: "buf_ok os d (fresh_buf dev bno (BBTOB len) a)" if "int (length a) = BBTOB len" for a
    using that by (simp add: buf_ok_def fresh_buf_def)
  have build: ?thesis
    if g: "libxfs_getbufr os dev bno len p = (Some n, libxfs_initbuf os n dev bno (BBTOB len) p1)"
      and n: "n \<notin> L" "n < bs_next p1" "bs_next p \<le> bs_next p1"
      and b1: "\<forall>m. m \<noteq> n \<longrightarrow> bs_buf p1 m = bs_buf p m"
      and f: "n \<notin> set (xfs_buf_freelist p1)" "distinct (xfs_buf_freelist p1)"
        "set (xfs_buf_freelist p1) \<subseteq> set (xfs_buf_freelist p)"
      and e: "bs_os p1 = bs_os p" "bs_exited p1 = bs_exited p"
      and a: "\<forall>a. b_addr (bs_buf p1 n) = Some a \<longrightarrow> int (length a) = BBTOB len" for n p1
  proof -
    obtain a where i: "libxfs_initbuf os n dev bno (BBTOB len) p1 =
        upd_buf n (\<lambda>_. (bs_buf p1 n)\<lparr>b_flags := 0, b_blkno := bno, b_bcount := BBTOB len, b_dev := dev,
          b_addr := Some a\<rparr>) p1" "int (length a) = BBTOB len"
      using initbuf_ok [OF os BBTOB_nonneg a] by blast
    define p' where "p' = libxfs_initbuf os n dev bno (BBTOB len) p1"
    have B: "bs_buf p' = (bs_buf p)(n := fresh_buf dev bno (BBTOB len) a)"
      using b1 i(1) by (cases "bs_buf p1 n") (auto simp: p'_def upd_buf_def fresh_buf_def fun_eq_iff)
    have E: "xfs_buf_freelist p' = xfs_buf_freelist p1" "bs_next p' = bs_next p1" "bs_os p' = bs_os p1"
        "bs_exited p' = bs_exited p1"
      using i(1) by (simp_all add: p'_def upd_buf_def)
    have old: "\<forall>m \<in> L \<union> set (xfs_buf_freelist p). m < bs_next p \<and> buf_ok os d (bs_buf p m)"
      using ok unfolding bufs_ok_def by blast
    have "\<forall>m \<in> insert n L \<union> set (xfs_buf_freelist p'). m < bs_next p' \<and> buf_ok os d (bs_buf p' m)"
    proof
      fix m assume "m \<in> insert n L \<union> set (xfs_buf_freelist p')"
      then consider "m = n" | "m \<noteq> n" "m \<in> L \<union> set (xfs_buf_freelist p)" using f(3) E(1) by auto
      then show "m < bs_next p' \<and> buf_ok os d (bs_buf p' m)"
      proof cases
        case 1
        then show ?thesis using n(2) fr [OF i(2)] by (simp add: B E)
      next
        case 2
        then have "m < bs_next p \<and> buf_ok os d (bs_buf p m)" using old by blast
        then show ?thesis using 2(1) n(3) by (simp add: B E)
      qed
    qed
    then have "bufs_ok os d p' (insert n L)"
      using ok n(1) f e unfolding bufs_ok_def E by auto
    then show ?thesis using g n(1) B by (auto simp: p'_def)
  qed
  show ?thesis
  proof (cases "xfs_buf_freelist p")
    case Nil
    show ?thesis
      by (rule build [of "bs_next p" "p\<lparr>bs_next := bs_next p + 1, bs_buf := (bs_buf p)(bs_next p := zero_buf)\<rparr>"])
        (use ok Nil in \<open>auto simp: libxfs_getbufr_def Let_def zero_buf_def bufs_ok_def\<close>)
  next
    case (Cons first rest)
    show ?thesis
    proof (cases "find (\<lambda>b. b_bcount (bs_buf p b) = BBTOB len) (xfs_buf_freelist p)")
      case None
      show ?thesis
        by (rule build [of first "upd_buf first (\<lambda>b. b\<lparr>b_addr := None\<rparr>) (p\<lparr>xfs_buf_freelist := rest\<rparr>)"])
          (use ok Cons None in \<open>auto simp: libxfs_getbufr_def Let_def bufs_ok_def upd_buf_def\<close>)
    next
      case (Some b)
      have b: "b \<in> set (xfs_buf_freelist p)" "b_bcount (bs_buf p b) = BBTOB len"
        using Some by (auto simp: find_Some_iff)
      have bo: "buf_ok os d (bs_buf p b)" "b < bs_next p" "b \<notin> L" "distinct (xfs_buf_freelist p)"
        using ok b by (auto simp: bufs_ok_def)
      show ?thesis
      proof (rule build [of b "p\<lparr>xfs_buf_freelist := remove1 b (xfs_buf_freelist p)\<rparr>"])
        show "libxfs_getbufr os dev bno len p = (Some b, libxfs_initbuf os b dev bno (BBTOB len)
            (p\<lparr>xfs_buf_freelist := remove1 b (xfs_buf_freelist p)\<rparr>))"
          using Cons Some by (simp add: libxfs_getbufr_def Let_def)
      qed (use bo b in \<open>auto simp: buf_ok_def set_remove1_eq distinct_remove1\<close>)
    qed
  qed
qed

text \<open>Nothing is written back while no buffer is dirty.\<close>

lemma write_dirty_clean: "b_flags (bs_buf p b) AND LIBXFS_B_DIRTY = 0 \<Longrightarrow> write_dirty os b p = p"
  by (simp add: write_dirty_def)

lemma fold_write_dirty_clean:
  "\<forall>b \<in> set bs. b_flags (bs_buf p b) AND LIBXFS_B_DIRTY = 0 \<Longrightarrow> fold (write_dirty os) bs p = p"
  by (induction bs) (auto simp: write_dirty_clean)

lemma bufs_ok_clean: "bufs_ok os d p L \<Longrightarrow> b \<in> L \<Longrightarrow> b_flags (bs_buf p b) AND LIBXFS_B_DIRTY = 0"
  by (auto simp: bufs_ok_def buf_ok_def)

lemma brelse_ok:
  assumes "bufs_ok os d p L" and "n \<in> L"
  shows "bufs_ok os d (libxfs_brelse os n p) (L - {n}) \<and> bs_buf (libxfs_brelse os n p) = bs_buf p"
  using assms bufs_ok_clean [OF assms] by (auto simp: libxfs_brelse_def bufs_ok_def)

lemma bulkrelse_bufs_ok:
  assumes ok: "bufs_ok os d p L" and ns: "set ns \<subseteq> L" "distinct ns"
  shows "bufs_ok os d (snd (libxfs_bulkrelse os ns p)) (L - set ns) \<and>
    bs_buf (snd (libxfs_bulkrelse os ns p)) = bs_buf p"
proof -
  have "fold (write_dirty os) ns p = p"
    using bufs_ok_clean [OF ok] ns(1) by (intro fold_write_dirty_clean) auto
  then have "snd (libxfs_bulkrelse os ns p) = p\<lparr>xfs_buf_freelist := ns @ xfs_buf_freelist p\<rparr>"
    by (simp add: libxfs_bulkrelse_def)
  then show ?thesis using ok ns by (auto simp: bufs_ok_def)
qed

lemma bcompare_cong: "bs_buf p' m = bs_buf p m \<Longrightarrow> libxfs_bcompare p' m = libxfs_bcompare p m"
  by (simp add: libxfs_bcompare_def fun_eq_iff)

interpretation bc: cache_client "libxfs_bcache_operations os" "bufs_ok os d" for os d
proof (unfold_locales, goal_cases)
  case (1 hs k)
  then show ?case by (simp add: libxfs_bcache_operations_def libxfs_bhash_def)
next
  case (2 p L k)
  obtain n a p' where "libxfs_getbufr os (key_device k) (key_blkno k) (key_bblen k) p = (Some n, p')"
      "n \<notin> L" "bufs_ok os d p' (insert n L)"
      "bs_buf p' = (bs_buf p)(n := fresh_buf (key_device k) (key_blkno k) (BBTOB (key_bblen k)) a)"
    using getbufr_ok [OF 2] by blast
  then show ?case
    by (auto simp: libxfs_bcache_operations_def libxfs_balloc_def libxfs_bcompare_def fresh_buf_def
        intro!: bcompare_cong)
next
  case (3 p L n)
  then show ?case
    using brelse_ok [OF 3] by (auto simp: libxfs_bcache_operations_def intro!: bcompare_cong)
next
  case (4 f p L ns)
  then show ?case
    using bulkrelse_bufs_ok [of os d p L ns]
    by (auto simp: libxfs_bcache_operations_def intro!: bcompare_cong)
next
  case (5 g p L n)
  then show ?case
    using bufs_ok_clean [of os d p L n]
    by (auto simp: libxfs_bcache_operations_def libxfs_bflush_def write_dirty_clean)
next
  case (6 p n k k' hs)
  then show ?case by (simp add: libxfs_bcache_operations_def libxfs_bcompare_def libxfs_bhash_def)
next
  case (7 p n k k' m)
  then show ?case by (simp add: libxfs_bcache_operations_def libxfs_bcompare_def)
qed

section \<open>The generic cache with buffers in it\<close>

text \<open>
  C10: Looking up a buffer always ends and returns a node for the key: the cached one if there is one, a
  new one otherwise. It takes exactly one reference on the node returned, changes no other reference
  count (so no referenced buffer is discarded to make room), and leaves all lists, counters and hash
  chains of the cache consistent, with at most one buffer per key. The value returned is one for a miss and zero
  for a hit, the other way round than the comment above \<open>cache_node_get\<close> in cache.c has it; the callers rely on it as
  it is.
\<close>

theorem bcache_get_correct:
  assumes "cache_inv (libxfs_bcache_operations os) (bufs_ok os d) c p"
    and "0 < c_maxcount c" and "c_count c < 2 ^ 31"
  shows "\<exists>miss n c' p'. cache_node_get (libxfs_bcache_operations os) c p key = Some (miss, n, c', p') \<and>
    cache_inv (libxfs_bcache_operations os) (bufs_ok os d) c' p' \<and>
    n \<in> nodes c' \<and> libxfs_bcompare p' n key \<and> refs c' = (refs c)(n := refs c n + 1) \<and>
    (miss \<longleftrightarrow> (\<forall>m \<in> nodes c. \<not> libxfs_bcompare p m key))"
proof -
  obtain miss n c' p' where G: "cache_node_get (libxfs_bcache_operations os) c p key = Some (miss, n, c', p')"
      "bc.get_post os d c p key miss n c' p'"
    using bc.cache_node_get_ok [OF assms] by blast
  have cmp: "op_compare (libxfs_bcache_operations os) = libxfs_bcompare"
    by (simp add: libxfs_bcache_operations_def)
  show ?thesis
    using G bc.get_post_refs [OF assms(1) G(2)] unfolding bc.get_post_def cmp by blast
qed

text \<open>
  C11: The other operations keep the cache consistent as well: giving back a reference lowers one count
  by one, changing a priority or flushing changes no count, purging a buffer refuses a referenced one
  and removes an unreferenced one, and purging the cache leaves exactly the referenced buffers.
\<close>

theorem bcache_operations_correct:
  assumes "cache_inv (libxfs_bcache_operations os) (bufs_ok os d) c p" and "n \<in> nodes c"
    and "libxfs_bcompare p n key"
  shows "(0 < refs c n \<longrightarrow>
      cache_inv (libxfs_bcache_operations os) (bufs_ok os d) (cache_node_put c n) p \<and>
      refs (cache_node_put c n) = (refs c)(n := refs c n - 1) \<and>
      cache_inv (libxfs_bcache_operations os) (bufs_ok os d) (cache_node_set_priority c n pr) p \<and>
      refs (cache_node_set_priority c n pr) = refs c \<and>
      cache_node_purge (libxfs_bcache_operations os) c p key n = (False, c, p)) \<and>
    (refs c n = 0 \<longrightarrow> (\<exists>c'. cache_node_purge (libxfs_bcache_operations os) c p key n =
        (True, c', libxfs_brelse os n p) \<and> nodes c' = nodes c - {n} \<and> refs c' = refs c \<and>
      cache_inv (libxfs_bcache_operations os) (bufs_ok os d) c' (libxfs_brelse os n p))) \<and>
    cache_inv (libxfs_bcache_operations os) (bufs_ok os d) c (cache_flush (libxfs_bcache_operations os) c p) \<and>
    (\<forall>c' p'. cache_purge (libxfs_bcache_operations os) c p = (c', p') \<longrightarrow>
      cache_inv (libxfs_bcache_operations os) (bufs_ok os d) c' p' \<and> nodes c' = {m. 0 < refs c m})"
proof (intro conjI impI allI)
  have cmp: "op_compare (libxfs_bcache_operations os) p n key" and rel: "op_relse (libxfs_bcache_operations os) = libxfs_brelse os"
    using assms(3) by (simp_all add: libxfs_bcache_operations_def)
  { assume r: "0 < refs c n"
    then have n: "0 < cn_count (c_nodes c n)" using assms(2) by (simp add: refs_def)
    note P = bc.cache_node_put_ok [OF assms(1,2) n] and S = bc.set_priority_ok [OF assms(1,2) n]
    show "cache_inv (libxfs_bcache_operations os) (bufs_ok os d) (cache_node_put c n) p" by (rule P(1))
    show "refs (cache_node_put c n) = (refs c)(n := refs c n - 1)"
      using P(2-4) assms(2) by (auto simp: fun_eq_iff refs_def)
    show "cache_inv (libxfs_bcache_operations os) (bufs_ok os d) (cache_node_set_priority c n pr) p"
      by (rule S(1))
    show "refs (cache_node_set_priority c n pr) = refs c" using S(2,3) by (auto simp: fun_eq_iff refs_def)
    show "cache_node_purge (libxfs_bcache_operations os) c p key n = (False, c, p)"
      using bc.cache_node_purge_ok(1) [OF assms(1,2) cmp] n by simp }
  { assume "refs c n = 0"
    then have n: "cn_count (c_nodes c n) = 0" using assms(2) by (simp add: refs_def)
    obtain c' where c': "cache_node_purge (libxfs_bcache_operations os) c p key n = (True, c', libxfs_brelse os n p)"
        "cache_inv (libxfs_bcache_operations os) (bufs_ok os d) c' (libxfs_brelse os n p)"
        "nodes c' = nodes c - {n}" "keeps_referenced c c'"
      using bc.cache_node_purge_ok(2) [OF assms(1,2) cmp n] rel by auto
    have "refs c' = refs c" using c'(3,4) n by (auto simp: fun_eq_iff refs_def keeps_referenced_def)
    then show "\<exists>c'. cache_node_purge (libxfs_bcache_operations os) c p key n =
        (True, c', libxfs_brelse os n p) \<and> nodes c' = nodes c - {n} \<and> refs c' = refs c \<and>
      cache_inv (libxfs_bcache_operations os) (bufs_ok os d) c' (libxfs_brelse os n p)"
      using c' by blast }
  show "cache_inv (libxfs_bcache_operations os) (bufs_ok os d) c (cache_flush (libxfs_bcache_operations os) c p)"
    by (rule bc.cache_flush_ok [OF assms(1)])
  fix c' p' assume "cache_purge (libxfs_bcache_operations os) c p = (c', p')"
  note P = bc.cache_purge_ok [OF assms(1) this]
  show "cache_inv (libxfs_bcache_operations os) (bufs_ok os d) c' p'" by (rule P(1))
  show "nodes c' = {m. 0 < refs c m}" using P(2) by (auto simp: refs_def)
qed

section \<open>Reading through the cache\<close>

text \<open>
  The state between calls: \<open>R\<close> gives the references held on every buffer, and with fewer buffers
  referenced than the cache may hold, the cache never has to grow. Buffers keep a priority below
  \<open>CACHE_PREFETCH_PRIORITY\<close>.
\<close>

definition bcache_ok :: "'o dev_ops \<Rightarrow> 'o \<Rightarrow> (nat \<Rightarrow> int) \<Rightarrow> int \<Rightarrow> 'o bcache \<Rightarrow> bool" where
  "bcache_ok os d R mx s \<longleftrightarrow>
     cache_inv (libxfs_bcache_operations os) (bufs_ok os d) (bc_cache s) (bc_bufs s) \<and>
     refs (bc_cache s) = R \<and> c_maxcount (bc_cache s) = mx \<and> c_count (bc_cache s) \<le> mx \<and>
     0 < mx \<and> mx < 2 ^ 31 \<and>
     (\<forall>n \<in> nodes (bc_cache s). cn_priority (c_nodes (bc_cache s) n) < CACHE_PREFETCH_PRIORITY)"

definition bcache_inv :: "'o dev_ops \<Rightarrow> 'o \<Rightarrow> (nat \<Rightarrow> int) \<Rightarrow> int \<Rightarrow> 'o bcache \<Rightarrow> bool" where
  "bcache_inv os d R mx s \<longleftrightarrow> bcache_ok os d R mx s \<and> int (card {n. R n \<noteq> 0}) < mx"

text \<open>What the device holds at a block number.\<close>

definition dev_of :: "'o dev_ops \<Rightarrow> 'o \<Rightarrow> nat \<Rightarrow> int \<Rightarrow> int \<Rightarrow> bytes option" where
  "dev_of os d dev blk bb =
     (case pread64 os dev (LIBXFS_BBTOOFF64 blk) (BBTOB bb) d of Inr x \<Rightarrow> Some x | Inl _ \<Rightarrow> None)"

lemma idle_node_exists:
  assumes ok: "bcache_ok os d R mx s" and few: "int (card {n. R n \<noteq> 0}) < mx"
    and full: "c_count (bc_cache s) = mx"
  shows "\<exists>q. 0 \<le> q \<and> q < CACHE_MAX_PRIORITY \<and> idle (bc_cache s) q \<noteq> {}"
proof (rule idle_exists)
  show "cache_wf (bc_cache s)" using ok by (auto simp: bcache_ok_def cache_inv_def)
  show "int (card {n. refs (bc_cache s) n \<noteq> 0}) < c_count (bc_cache s)" using ok few full by (simp add: bcache_ok_def)
  show "\<forall>n \<in> nodes (bc_cache s). cn_priority (c_nodes (bc_cache s) n) < int CACHE_MAX_PRIORITY"
    using ok by (fastforce simp: bcache_ok_def CACHE_PREFETCH_PRIORITY_def CACHE_MAX_PRIORITY_def)
qed

lemma getbuf_ok:
  assumes inv: "bcache_inv os d R mx s"
  shows "\<exists>bp s'. libxfs_getbuf os dev blk len s = Some (bp, s') \<and>
    bcache_ok os d (R(bp := R bp + 1)) mx s' \<and> bp \<in> nodes (bc_cache s') \<and> 0 \<le> R bp \<and>
    libxfs_bcompare (bc_bufs s') bp \<lparr>key_device = dev, key_blkno = blk, key_bblen = to_u32 len\<rparr>"
proof -
  let ?c = "bc_cache s" and ?ops = "libxfs_bcache_operations os"
    and ?key = "\<lparr>key_device = dev, key_blkno = blk, key_bblen = to_u32 len\<rparr>"
  have ok: "bcache_ok os d R mx s" and few: "int (card {n. R n \<noteq> 0}) < mx"
    using inv by (auto simp: bcache_inv_def)
  have I: "cache_inv ?ops (bufs_ok os d) ?c (bc_bufs s)" "0 < c_maxcount ?c" "c_count ?c < 2 ^ 31"
      "refs ?c = R" "c_maxcount ?c = mx" "c_count ?c \<le> mx" "0 < mx" "mx < 2 ^ 31"
    using ok by (auto simp: bcache_ok_def)
  have pr: "\<forall>n \<in> nodes ?c. cn_priority (c_nodes ?c n) < 8" "counts_ok ?c"
    using ok by (auto simp: bcache_ok_def CACHE_PREFETCH_PRIORITY_def cache_inv_def cache_wf_def lists_ok_def)
  obtain miss n c' p' where G: "cache_node_get ?ops ?c (bc_bufs s) ?key = Some (miss, n, c', p')"
      "bc.get_post os d ?c (bc_bufs s) ?key miss n c' p'" "size_post 0 ?c c'"
    using bc.cache_node_get_ok [OF I(1-3)] by blast
  have P: "cache_inv ?ops (bufs_ok os d) c' p'" "n \<in> nodes c'" "op_compare ?ops p' n ?key"
      "0 < cn_count (c_nodes c' n)" "cn_priority (c_nodes c' n) < 8"
      "\<forall>m \<in> nodes c'. m \<noteq> n \<longrightarrow> m \<in> nodes ?c \<and> c_nodes c' m = c_nodes ?c m"
      "\<forall>m \<in> nodes ?c. 0 < cn_count (c_nodes ?c m) \<and> m \<noteq> n \<longrightarrow> m \<in> nodes c' \<and> c_nodes c' m = c_nodes ?c m"
      "cn_count (c_nodes c' n) = R n + 1" "0 \<le> R n"
    using G(2) pr by (auto simp: bc.get_post_def I(4) [symmetric] refs_def counts_ok_def split: if_splits)
  have "c_count ?c < c_maxcount ?c \<or> (\<exists>q. 0 \<le> q \<and> q < CACHE_MAX_PRIORITY \<and> idle ?c q \<noteq> {})"
    using idle_node_exists [OF ok few] I(5,6) by fastforce
  then have M: "c_maxcount c' = mx" "c_count c' \<le> mx" using G(3) I(5,6) by (auto simp: size_post_def)
  define c2 where "c2 = cache_node_set_priority c' n (cache_node_get_priority c' n - CACHE_PREFETCH_PRIORITY)"
  note S = bc.set_priority_ok [OF P(1,2,4), of "cache_node_get_priority c' n - CACHE_PREFETCH_PRIORITY", folded c2_def]
  have S2: "c_maxcount c2 = mx" "c_count c2 \<le> mx" "cn_priority (c_nodes c2 n) = 0"
      "\<forall>m. m \<noteq> n \<longrightarrow> c_nodes c2 m = c_nodes c' m"
    using M P(5)
    by (auto simp: c2_def cache_node_set_priority_def cache_node_get_priority_def Let_def upd_node_def
        CACHE_PREFETCH_PRIORITY_def)
  have "refs c2 m = (R(n := R n + 1)) m" for m
  proof (cases "m = n")
    case True
    then show ?thesis using P(2,8) S(2,3) by (simp add: refs_def)
  next
    case False
    then show ?thesis
      using P(6,7) S(2,3) pr(2) unfolding I(4) [symmetric] refs_def counts_ok_def
      by (auto simp: less_le)
  qed
  then have rf: "refs c2 = R(n := R n + 1)" by (rule ext)
  have "cn_priority (c_nodes c2 m) < 8" if "m \<in> nodes c2" for m
    using that P(6) S(2) S2(3,4) pr(1) by (cases "m = n") auto
  then have "bcache_ok os d (R(n := R n + 1)) mx \<lparr>bc_cache = c2, bc_bufs = p'\<rparr>"
    using S(1) S2(1,2) rf I(7,8) by (simp add: bcache_ok_def CACHE_PREFETCH_PRIORITY_def)
  moreover have "libxfs_getbuf os dev blk len s = Some (n, \<lparr>bc_cache = c2, bc_bufs = p'\<rparr>)"
    using G(1) by (simp add: libxfs_getbuf_def Let_def c2_def)
  ultimately show ?thesis
    using P(2,3,9) S(2) by (intro exI [of _ n] exI [of _ "\<lparr>bc_cache = c2, bc_bufs = p'\<rparr>"])
      (simp add: libxfs_bcache_operations_def)
qed

lemma putbuf_ok:
  assumes ok: "bcache_ok os d R mx s" and n: "0 < R n"
  shows "bcache_ok os d (R(n := R n - 1)) mx (libxfs_putbuf n s)"
    and "bc_bufs (libxfs_putbuf n s) = bc_bufs s"
proof -
  let ?c = "bc_cache s"
  have I: "cache_inv (libxfs_bcache_operations os) (bufs_ok os d) ?c (bc_bufs s)" "refs ?c = R"
    using ok by (auto simp: bcache_ok_def)
  have nn: "n \<in> nodes ?c" "0 < cn_count (c_nodes ?c n)"
    using n by (auto simp: I(2) [symmetric] refs_def split: if_splits)
  note P = bc.cache_node_put_ok [OF I(1) nn]
  have q: "c_maxcount (cache_node_put ?c n) = c_maxcount ?c" "c_count (cache_node_put ?c n) = c_count ?c"
      "cn_priority (c_nodes (cache_node_put ?c n) m) = cn_priority (c_nodes ?c m)" for m
    by (auto simp: cache_node_put_def Let_def upd_defs)
  have "refs (cache_node_put ?c n) = R(n := R n - 1)"
    using P(2-4) nn(1) by (auto simp: fun_eq_iff I(2) [symmetric] refs_def)
  then show "bcache_ok os d (R(n := R n - 1)) mx (libxfs_putbuf n s)"
    using ok P(1,2) q by (auto simp: bcache_ok_def libxfs_putbuf_def)
  show "bc_bufs (libxfs_putbuf n s) = bc_bufs s" by (simp add: libxfs_putbuf_def)
qed

lemma bit_8_nat [simp]: "bit (8 :: nat) i \<longleftrightarrow> i = 3"
proof -
  have "bit ((2 :: nat) ^ 3) i \<longleftrightarrow> i = 3" by (subst bit_exp_iff) auto
  then show ?thesis by simp
qed

lemma bit_2_nat [simp]: "bit (2 :: nat) i \<longleftrightarrow> i = 1"
proof -
  have "bit ((2 :: nat) ^ 1) i \<longleftrightarrow> i = 1" by (subst bit_exp_iff) auto
  then show ?thesis by simp
qed

lemma flag_or_8: "(f OR 8) AND 2 = f AND (2 :: nat)" "(f OR 8) AND 8 = (8 :: nat)"
  by (rule bit_eqI; auto simp: bit_simps)+

lemma flags_clear: "f AND 10 = 0 \<longleftrightarrow> f AND 8 = 0 \<and> f AND (2 :: nat) = 0"
proof -
  have "f AND (8 OR 2) = (f AND 8) OR (f AND (2 :: nat))"
    by (rule bit_eqI) (simp only: bit_simps, blast)
  then have "f AND 10 = (f AND 8) OR (f AND (2 :: nat))" by simp
  then show ?thesis by (simp add: or_eq_0_iff)
qed

lemmas flag_defs = LIBXFS_B_UPTODATE_def LIBXFS_B_DIRTY_def LIBXFS_EXIT_ON_FAILURE_def

text \<open>Filling a buffer from the device.\<close>

lemma readbufr_ok:
  assumes ok: "bufs_ok os d p L" and n: "n \<in> L"
    and b: "b_dev (bs_buf p n) = dev" "b_blkno (bs_buf p n) = blk" "b_bcount (bs_buf p n) = BBTOB len"
  shows "case dev_of os d dev blk len of
      None \<Rightarrow> \<exists>e. e \<noteq> 0 \<and> libxfs_readbufr os dev blk n len 0 p = (e, p)
    | Some x \<Rightarrow> \<exists>p'. libxfs_readbufr os dev blk n len 0 p = (0, p') \<and> bufs_ok os d p' L \<and>
        b_addr (bs_buf p' n) = Some x \<and> (\<forall>m. libxfs_bcompare p' m = libxfs_bcompare p m)"
proof -
  have os: "os_ok os d" "bs_os p = d" and bn: "buf_ok os d (bs_buf p n)" using ok n by (auto simp: bufs_ok_def)
  show ?thesis
  proof (cases "pread64 os dev (LIBXFS_BBTOOFF64 blk) (BBTOB len) d")
    case (Inl e)
    then show ?thesis
      using os by (auto simp: libxfs_readbufr_def dev_of_def Let_def os_ok_def)
  next
    case (Inr x)
    obtain a where a: "b_addr (bs_buf p n) = Some a" "int (length a) = BBTOB len"
      using bn b(3) by (auto simp: buf_ok_def)
    have lx: "int (length x) = BBTOB len" using Inr os(1) BBTOB_nonneg [of len] unfolding os_ok_def by blast
    then have dr: "drop (length x) a = []" using a(2) by simp
    define p' where "p' = upd_buf n (\<lambda>b. b\<lparr>b_addr := Some x, b_flags := b_flags b OR 8\<rparr>) p"
    have r: "libxfs_readbufr os dev blk n len 0 p = (0, p')"
      using Inr os(2) a dr b by (simp add: libxfs_readbufr_def Let_def p'_def upd_buf_def flag_defs)
    have nb: "buf_ok os d (bs_buf p' n)"
      using bn b Inr lx by (simp add: buf_ok_def p'_def upd_buf_def flag_defs flag_or_8)
    have "bufs_ok os d p' L"
      using ok nb by (auto simp: bufs_ok_def p'_def upd_buf_def)
    moreover have "libxfs_bcompare p' m = libxfs_bcompare p m" for m
      by (simp add: libxfs_bcompare_def p'_def upd_buf_def fun_eq_iff)
    ultimately show ?thesis
      using r Inr by (simp add: dev_of_def) (simp add: p'_def upd_buf_def)
  qed
qed

text \<open>A read through the cache shows the device, whether the block was cached or not.\<close>

lemma readbuf_ok:
  assumes inv: "bcache_inv os d R mx s"
  shows "case dev_of os d dev blk len of
      None \<Rightarrow> \<exists>s'. libxfs_readbuf os dev blk len 0 s = Some (None, s') \<and> bcache_inv os d R mx s'
    | Some x \<Rightarrow> \<exists>bp s'. libxfs_readbuf os dev blk len 0 s = Some (Some bp, s') \<and>
        b_addr (bs_buf (bc_bufs s') bp) = Some x \<and> bcache_ok os d (R(bp := R bp + 1)) mx s' \<and> 0 \<le> R bp"
proof -
  obtain bp s1 where G: "libxfs_getbuf os dev blk len s = Some (bp, s1)"
      "bcache_ok os d (R(bp := R bp + 1)) mx s1" "bp \<in> nodes (bc_cache s1)" "0 \<le> R bp"
      "libxfs_bcompare (bc_bufs s1) bp \<lparr>key_device = dev, key_blkno = blk, key_bblen = to_u32 len\<rparr>"
    using getbuf_ok [OF inv] by blast
  let ?p = "bc_bufs s1"
  have ci: "cache_inv (libxfs_bcache_operations os) (bufs_ok os d) (bc_cache s1) ?p"
    using G(2) by (simp add: bcache_ok_def)
  then have ok: "bufs_ok os d ?p (nodes (bc_cache s1))" by (simp add: cache_inv_def)
  have b: "b_dev (bs_buf ?p bp) = dev" "b_blkno (bs_buf ?p bp) = blk" "b_bcount (bs_buf ?p bp) = BBTOB len"
    using G(5) by (auto simp: libxfs_bcompare_def)
  have bo: "buf_ok os d (bs_buf ?p bp)" using ok G(3) by (auto simp: bufs_ok_def)
  have RR: "R(bp := R bp) = R" by simp
  have few: "int (card {n. R n \<noteq> 0}) < mx" using inv by (simp add: bcache_inv_def)
  show ?thesis
  proof (cases "b_flags (bs_buf ?p bp) AND (LIBXFS_B_UPTODATE OR LIBXFS_B_DIRTY) = 0")
    case False
    then have "b_flags (bs_buf ?p bp) AND LIBXFS_B_UPTODATE \<noteq> 0"
      using bo by (simp add: flags_clear buf_ok_def flag_defs)
    then obtain a where "b_addr (bs_buf ?p bp) = Some a" "dev_of os d dev blk len = Some a"
      using bo b by (auto simp: buf_ok_def dev_of_def)
    then show ?thesis using G False by (simp add: libxfs_readbuf_def)
  next
    case True
    show ?thesis
    proof (cases "dev_of os d dev blk len")
      case None
      obtain e where e: "e \<noteq> 0" "libxfs_readbufr os dev blk bp len 0 ?p = (e, ?p)"
        using readbufr_ok [OF ok G(3) b] None by auto
      have "bcache_ok os d (R(bp := R bp)) mx (libxfs_putbuf bp s1)"
        using putbuf_ok(1) [OF G(2), of bp] G(4) by simp
      then show ?thesis
        using G(1) True None e few by (simp add: libxfs_readbuf_def bcache_inv_def RR)
    next
      case (Some x)
      obtain p' where e: "libxfs_readbufr os dev blk bp len 0 ?p = (0, p')"
          "bufs_ok os d p' (nodes (bc_cache s1))" "b_addr (bs_buf p' bp) = Some x"
          "\<forall>m. libxfs_bcompare p' m = libxfs_bcompare ?p m"
        using readbufr_ok [OF ok G(3) b] Some by auto
      have "cache_inv (libxfs_bcache_operations os) (bufs_ok os d) (bc_cache s1) p'"
        using bc.cache_inv_payload [OF ci e(2)] e(4) by (simp add: libxfs_bcache_operations_def)
      then have "bcache_ok os d (R(bp := R bp + 1)) mx (s1\<lparr>bc_bufs := p'\<rparr>)"
        using G(2) by (simp add: bcache_ok_def)
      then show ?thesis
        using G(1,4) True Some e(1,3) by (auto simp: libxfs_readbuf_def)
    qed
  qed
qed


text \<open>The buffer cache is what the readers need, for every device that is only read.\<close>

lemma bcache_buf_store: "buf_store (bcache_buf_ops os dev) (bcache_inv os d R mx) (dev_of os d dev)"
proof (unfold_locales, goal_cases)
  case (1 s blk bb x)
  obtain bp s' where r: "libxfs_readbuf os dev blk bb 0 s = Some (Some bp, s')"
      "b_addr (bs_buf (bc_bufs s') bp) = Some x" "bcache_ok os d (R(bp := R bp + 1)) mx s'" "0 \<le> R bp"
    using readbuf_ok [OF 1(1), of dev blk bb] 1(2) by auto
  have "bcache_ok os d (R(bp := R bp)) mx (libxfs_putbuf bp s')"
    using putbuf_ok(1) [OF r(3), of bp] r(4) by simp
  then have "bcache_inv os d R mx (libxfs_putbuf bp s')" using 1(1) by (simp add: bcache_inv_def)
  then show ?case using r by (auto simp: bcache_buf_ops_def)
next
  case (2 s blk bb)
  then show ?case using readbuf_ok [OF 2(1), of dev blk bb] by (auto simp: bcache_buf_ops_def)
qed

lemma bcache_inv_os: "bcache_inv os d R mx s \<Longrightarrow> os_ok os d"
  by (simp add: bcache_inv_def bcache_ok_def cache_inv_def bufs_ok_def)

text \<open>The empty cache, and a sample device whose every byte is 7.\<close>

definition bcache_init :: "nat \<Rightarrow> 'o \<Rightarrow> 'o bcache" where
  "bcache_init hashsize d =
     \<lparr> bc_cache = cache_init hashsize,
       bc_bufs = \<lparr> bs_buf = (\<lambda>n. zero_buf), xfs_buf_freelist = [], bs_next = 0, bs_exited = False, bs_os = d \<rparr> \<rparr>"

lemma bcache_init_inv:
  assumes "os_ok os d" and "0 < hs" and "int hs * 8 < 2 ^ 31"
  shows "bcache_inv os d (\<lambda>n. 0) (int hs * 8) (bcache_init hs d)"
proof -
  have "keys_ok (libxfs_bcache_operations os) (cache_init hs) p" for p :: "'a bufs"
    using cache_init_wf [OF assms(2)] by (simp add: keys_ok_def)
  then show ?thesis
    using assms cache_init_wf [OF assms(2)]
    by (simp add: bcache_inv_def bcache_ok_def bcache_init_def cache_inv_def bufs_ok_def refs_def
        fun_eq_iff) (simp add: cache_init_def HASH_CACHE_RATIO_def)
qed

definition sample_os :: "unit dev_ops" where
  "sample_os = \<lparr> pread64 = (\<lambda>fd off n d. Inr (replicate (nat n) 7)),
     pwrite64 = (\<lambda>fd a n off d. (n, d)), memalign = (\<lambda>n. Some (replicate (nat n) 0)) \<rparr>"

lemma sample_os_ok: "os_ok sample_os d"
  by (simp add: os_ok_def sample_os_def)

lemma sample_cache_inv:
  "cache_inv (libxfs_bcache_operations sample_os) (bufs_ok sample_os ()) (cache_init 1024)
     (bc_bufs (bcache_init 1024 ()))"
  using bcache_init_inv [OF sample_os_ok, of 1024 "()"]
  by (simp add: bcache_inv_def bcache_ok_def bcache_init_def)

theorem bcache_get_correct_witness:
  "\<exists>n c' p'. cache_node_get (libxfs_bcache_operations sample_os) (cache_init 1024)
      (bc_bufs (bcache_init 1024 ())) \<lparr>key_device = 0, key_blkno = 80, key_bblen = 8\<rparr> = Some (True, n, c', p') \<and>
    refs c' n = 1"
proof -
  have z: "nodes (cache_init 1024) = {}" using cache_init_wf [of 1024] by simp
  have "0 < c_maxcount (cache_init 1024)" "c_count (cache_init 1024) < 2 ^ 31"
    by (simp_all add: cache_init_def HASH_CACHE_RATIO_def)
  from bcache_get_correct [OF sample_cache_inv this, of "\<lparr>key_device = 0, key_blkno = 80, key_bblen = 8\<rparr>"]
  obtain miss n c' p' where "cache_node_get (libxfs_bcache_operations sample_os) (cache_init 1024)
      (bc_bufs (bcache_init 1024 ())) \<lparr>key_device = 0, key_blkno = 80, key_bblen = 8\<rparr> = Some (miss, n, c', p')"
      "refs c' = (refs (cache_init 1024))(n := refs (cache_init 1024) n + 1)" miss
    unfolding z by blast
  then show ?thesis by (intro exI [of _ n] exI [of _ c'] exI [of _ p']) (simp add: refs_def z)
qed

theorem bcache_operations_correct_witness:
  "\<exists>c p n. refs c n = 1 \<and>
     cache_inv (libxfs_bcache_operations sample_os) (bufs_ok sample_os ()) (cache_node_put c n) p \<and>
     refs (cache_node_put c n) n = 0"
proof -
  have i: "bcache_inv sample_os () (\<lambda>n. 0) (1024 * 8) (bcache_init 1024 ())"
    using bcache_init_inv [OF sample_os_ok, of 1024 "()"] by simp
  obtain bp s' where G: "bcache_ok sample_os () ((\<lambda>n. 0)(bp := 0 + 1)) (1024 * 8) s'"
      "bp \<in> nodes (bc_cache s')"
      "libxfs_bcompare (bc_bufs s') bp \<lparr>key_device = 0, key_blkno = 80, key_bblen = to_u32 8\<rparr>"
    using getbuf_ok [OF i, of 0 80 8] by blast
  have c: "cache_inv (libxfs_bcache_operations sample_os) (bufs_ok sample_os ()) (bc_cache s') (bc_bufs s')"
    and r: "refs (bc_cache s') bp = 1"
    using G(1) by (simp_all add: bcache_ok_def)
  show ?thesis
    using bcache_operations_correct [OF c G(2,3)] r
    by (intro exI [of _ "bc_cache s'"] exI [of _ "bc_bufs s'"] exI [of _ bp]) simp
qed

end
