(* ===== verification/Bmap_Read.thy ===== *)
theory Bmap_Read
  imports Bmbt File_Read
begin

text \<open>
  Looking up file blocks in the extent list of an inode (libxfs/xfs_bmap.c, \<open>xfs_iext_bno_to_ext\<close> of
  libxfs/xfs_inode.c): the binary search, and the read side of \<open>xfs_bmapi\<close>. File offsets and block
  numbers are natural numbers here: an extent record has 54, 52 and 21 bits for offset, block and
  count, so no sum of them reaches 64 bits. The incore list is one list of records (the indirection
  array that long lists use is not modelled).
\<close>

section \<open>Extents as intervals\<close>

record bmap =
  bm_off :: nat
  bm_blk :: nat
  bm_cnt :: nat
  bm_state :: xfs_exntst

definition bmap_of :: "bmbt_rec \<Rightarrow> bmap" where
  "bmap_of r = (let i = xfs_bmbt_get_all r in
     \<lparr> bm_off = unat (br_startoff i), bm_blk = unat (br_startblock i),
       bm_cnt = unat (br_blockcount i), bm_state = br_state i \<rparr>)"

definition HOLESTARTBLOCK :: nat where "HOLESTARTBLOCK = 2 ^ 64 - 2"
definition DELAYSTARTBLOCK :: nat where "DELAYSTARTBLOCK = 2 ^ 64 - 1"
definition STARTBLOCKMASK :: nat where "STARTBLOCKMASK = (2 ^ 35 - 1) * 2 ^ 17"

definition isnullstartblock :: "nat \<Rightarrow> bool" where
  "isnullstartblock x \<longleftrightarrow> x AND STARTBLOCKMASK = STARTBLOCKMASK"

abbreviation bm_end :: "bmap \<Rightarrow> nat" where
  "bm_end e \<equiv> bm_off e + bm_cnt e"

text \<open>The block a file block is stored in.\<close>

definition bmap_lookup :: "bmap list \<Rightarrow> nat \<Rightarrow> nat option" where
  "bmap_lookup exts b =
     map_option (\<lambda>e. bm_blk e + (b - bm_off e)) (find (\<lambda>e. bm_off e \<le> b \<and> b < bm_end e) exts)"

text \<open>What a consistent extent list is: ordered, without overlaps or empty extents, allocated.\<close>

definition exts_ok :: "bmap list \<Rightarrow> bool" where
  "exts_ok exts \<longleftrightarrow> sorted_wrt (\<lambda>a b. bm_end a \<le> bm_off b) exts \<and>
     list_all (\<lambda>e. 0 < bm_cnt e \<and> 0 < bm_blk e \<and> bm_blk e + bm_cnt e < 2 ^ 52 \<and>
       \<not> isnullstartblock (bm_blk e)) exts"

section \<open>The binary search\<close>

text \<open>
  The loop of \<open>xfs_iext_bno_to_ext\<close>; the result is the flag of a hit, the last index probed and the
  bounds of its extent.
\<close>

function bno_search :: "bmap list \<Rightarrow> nat \<Rightarrow> int \<Rightarrow> int \<Rightarrow> nat \<Rightarrow> nat \<Rightarrow> nat \<Rightarrow> bool \<times> nat \<times> nat \<times> nat" where
  "bno_search exts bno low high idx startoff blockcount =
    (if low \<le> high then
       let idx = (low + high) div 2;
         e = exts ! nat idx in
       if bno < bm_off e then bno_search exts bno low (idx - 1) (nat idx) (bm_off e) (bm_cnt e)
       else if bno \<ge> bm_end e then bno_search exts bno (idx + 1) high (nat idx) (bm_off e) (bm_cnt e)
       else (True, nat idx, bm_off e, bm_cnt e)
     else (False, idx, startoff, blockcount))"
  by pat_completeness auto
termination
  by (relation "measure (\<lambda>(exts, bno, low, high, idx, so, bc). nat (high - low + 1))") auto

declare bno_search.simps [simp del]

text \<open>\<open>xfs_iext_bno_to_ext\<close>: the extent found, if any, and the index.\<close>

definition xfs_iext_bno_to_ext :: "bmap list \<Rightarrow> nat \<Rightarrow> bmap option \<times> nat" where
  "xfs_iext_bno_to_ext exts bno =
    (if exts = [] then (None, 0)
     else case bno_search exts bno 0 (int (length exts) - 1) 0 0 0 of
        (True, idx, _, _) \<Rightarrow> (Some (exts ! idx), idx)
      | (False, idx, startoff, blockcount) \<Rightarrow>
          if bno \<ge> startoff + blockcount
          then (if idx + 1 = length exts then None else Some (exts ! (idx + 1)), idx + 1)
          else (Some (exts ! idx), idx))"

text \<open>The index it must find: of the first extent that ends behind \<open>bno\<close>.\<close>

definition ext_index :: "bmap list \<Rightarrow> nat \<Rightarrow> nat" where
  "ext_index exts bno = length (takeWhile (\<lambda>e. bm_end e \<le> bno) exts)"

lemma ext_index_le: "ext_index exts bno \<le> length exts"
  by (simp add: ext_index_def length_takeWhile_le)

lemma ext_index_before: "i < ext_index exts bno \<Longrightarrow> bm_end (exts ! i) \<le> bno"
  by (metis ext_index_def nth_mem set_takeWhileD takeWhile_nth)

lemma ext_index_at: "ext_index exts bno < length exts \<Longrightarrow> bno < bm_end (exts ! ext_index exts bno)"
  using nth_length_takeWhile [of "\<lambda>e. bm_end e \<le> bno" exts] by (simp add: ext_index_def)

text \<open>In an ordered list the extents that end before \<open>bno\<close> are a prefix.\<close>

lemma ext_index_filter:
  assumes "exts_ok exts"
  shows "(if ext_index exts bno < length exts then Some (exts ! ext_index exts bno) else None) =
      (case filter (\<lambda>e. bno < bm_end e) exts of [] \<Rightarrow> None | e # _ \<Rightarrow> Some e) \<and>
    ext_index exts bno = length (filter (\<lambda>e. bm_end e \<le> bno) exts)"
  using assms
proof (induction exts)
  case (Cons e es)
  have es: "exts_ok es" using Cons.prems by (auto simp: exts_ok_def)
  have later: "bno < bm_end x" if "bno < bm_end e" "x \<in> set es" for x
    using Cons.prems that by (auto simp: exts_ok_def)
  show ?case
  proof (cases "bm_end e \<le> bno")
    case True
    then have "ext_index (e # es) bno = Suc (ext_index es bno)" by (simp add: ext_index_def)
    then show ?thesis using Cons.IH [OF es] True by auto
  next
    case False
    then have "filter (\<lambda>e. bm_end e \<le> bno) es = []" using later by (auto simp: filter_empty_conv not_le)
    then show ?thesis using False by (simp add: ext_index_def)
  qed
qed (simp add: ext_index_def)

lemma ext_index_eqI:
  assumes "exts_ok exts" and "k \<le> length exts" and "\<And>i. i < k \<Longrightarrow> bm_end (exts ! i) \<le> bno"
    and "k < length exts \<Longrightarrow> bno < bm_end (exts ! k)"
  shows "ext_index exts bno = k"
proof -
  have "takeWhile (\<lambda>e. bm_end e \<le> bno) exts = take k exts"
    by (rule takeWhile_eq_take_P_nth) (use assms in auto)
  then show ?thesis using assms(2) by (simp add: ext_index_def)
qed

lemma exts_ok_nth:
  assumes "exts_ok exts"
  shows "i < j \<Longrightarrow> j < length exts \<Longrightarrow> bm_end (exts ! i) \<le> bm_off (exts ! j)"
    and "i < length exts \<Longrightarrow> 0 < bm_cnt (exts ! i)"
  using assms by (auto simp: exts_ok_def sorted_wrt_iff_nth_less list_all_length)

text \<open>The loop invariant: everything left of \<open>low\<close> ends before \<open>bno\<close>, everything right of \<open>high\<close>
  starts behind it, and the last probe is next to the gap.\<close>

lemma bno_search_ok:
  assumes ok: "exts_ok exts" and "0 \<le> low" "high < int (length exts)" "low \<le> high + 1"
    and "\<And>i. int i < low \<Longrightarrow> bm_end (exts ! i) \<le> bno"
    and "\<And>i. high < int i \<Longrightarrow> i < length exts \<Longrightarrow> bno < bm_off (exts ! i)"
    and "low \<le> high \<or> so = bm_off (exts ! idx) \<and> bc = bm_cnt (exts ! idx) \<and> idx < length exts \<and>
      (bno < so \<and> int idx = high + 1 \<or> so + bc \<le> bno \<and> int idx = low - 1)"
  shows "\<exists>hit k. bno_search exts bno low high idx so bc = (hit, k, bm_off (exts ! k), bm_cnt (exts ! k)) \<and>
    k < length exts \<and>
    (if hit then bm_off (exts ! k) \<le> bno \<and> bno < bm_end (exts ! k) \<and> ext_index exts bno = k
     else if bm_end (exts ! k) \<le> bno then ext_index exts bno = k + 1
     else bno < bm_off (exts ! k) \<and> ext_index exts bno = k)"
  using assms
proof (induction exts bno low high idx so bc rule: bno_search.induct)
  case (1 exts bno low high idx so bc)
  note ok = "1.prems"(1)
  show ?case
  proof (cases "low \<le> high")
    case True
    let ?m = "(low + high) div 2"
    let ?k = "nat ?m"
    have m: "low \<le> ?m" "?m \<le> high" "0 \<le> ?m" "?m < int (length exts)" "int ?k = ?m" "?k < length exts"
      using True "1.prems" by auto
    have step: "bno_search exts bno low high idx so bc =
      (if bno < bm_off (exts ! ?k) then bno_search exts bno low (?m - 1) ?k (bm_off (exts ! ?k)) (bm_cnt (exts ! ?k))
       else if bno \<ge> bm_end (exts ! ?k)
         then bno_search exts bno (?m + 1) high ?k (bm_off (exts ! ?k)) (bm_cnt (exts ! ?k))
       else (True, ?k, bm_off (exts ! ?k), bm_cnt (exts ! ?k)))"
      using True by (subst bno_search.simps) (simp add: Let_def)
    consider (left) "bno < bm_off (exts ! ?k)" | (right) "\<not> bno < bm_off (exts ! ?k)" "bm_end (exts ! ?k) \<le> bno"
      | (hit) "bm_off (exts ! ?k) \<le> bno" "bno < bm_end (exts ! ?k)" by linarith
    then show ?thesis
    proof cases
      case left
      have lefts: "bno < bm_off (exts ! i)" if "?m - 1 < int i" "i < length exts" for i
        using that left exts_ok_nth(1) [OF ok, of ?k i] m
        by (cases "i = ?k") auto
      have "bno_search exts bno low high idx so bc =
          bno_search exts bno low (?m - 1) ?k (bm_off (exts ! ?k)) (bm_cnt (exts ! ?k))"
        unfolding step using left by simp
      then show ?thesis
      proof (rule ssubst, intro "1.IH"(1) [OF True refl refl left ok])
        show "0 \<le> low" "\<And>i. int i < low \<Longrightarrow> bm_end (exts ! i) \<le> bno" by fact+
        show "?m - 1 < int (length exts)" "low \<le> ?m - 1 + 1" using m by linarith+
        show "bno < bm_off (exts ! i)" if "?m - 1 < int i" "i < length exts" for i by (rule lefts [OF that])
        show "low \<le> ?m - 1 \<or> bm_off (exts ! ?k) = bm_off (exts ! ?k) \<and> bm_cnt (exts ! ?k) = bm_cnt (exts ! ?k) \<and>
          ?k < length exts \<and> (bno < bm_off (exts ! ?k) \<and> int ?k = ?m - 1 + 1 \<or>
            bm_end (exts ! ?k) \<le> bno \<and> int ?k = low - 1)"
          using m(5,6) left by simp
      qed
    next
      case right
      have rights: "bm_end (exts ! i) \<le> bno" if "int i < ?m + 1" for i
        using that right exts_ok_nth(1) [OF ok, of i ?k] m
        by (cases "i = ?k") auto
      have "bno_search exts bno low high idx so bc =
          bno_search exts bno (?m + 1) high ?k (bm_off (exts ! ?k)) (bm_cnt (exts ! ?k))"
        unfolding step using right by simp
      then show ?thesis
      proof (rule ssubst, intro "1.IH"(2) [OF True refl refl right(1) right(2) ok])
        show "0 \<le> ?m + 1" "?m + 1 \<le> high + 1" using m by linarith+
        show "high < int (length exts)"
          "\<And>i. high < int i \<Longrightarrow> i < length exts \<Longrightarrow> bno < bm_off (exts ! i)" by fact+
        show "bm_end (exts ! i) \<le> bno" if "int i < ?m + 1" for i by (rule rights [OF that])
        show "?m + 1 \<le> high \<or> bm_off (exts ! ?k) = bm_off (exts ! ?k) \<and> bm_cnt (exts ! ?k) = bm_cnt (exts ! ?k) \<and>
          ?k < length exts \<and> (bno < bm_off (exts ! ?k) \<and> int ?k = high + 1 \<or>
            bm_end (exts ! ?k) \<le> bno \<and> int ?k = ?m + 1 - 1)"
          using m(5,6) right by simp
      qed
    next
      case hit
      have "bm_end (exts ! i) \<le> bno" if "i < ?k" for i
        using exts_ok_nth(1) [OF ok that m(6)] hit(1) by (rule order.trans)
      then have "ext_index exts bno = ?k"
        using hit(2) m(6) by (intro ext_index_eqI [OF ok]) auto
      moreover have "bno_search exts bno low high idx so bc = (True, ?k, bm_off (exts ! ?k), bm_cnt (exts ! ?k))"
        unfolding step using hit by simp
      ultimately show ?thesis
        using hit m(6) by (intro exI [of _ True] exI [of _ ?k]) (simp only: if_True simp_thms)
    qed
  next
    case False
    then have last: "so = bm_off (exts ! idx)" "bc = bm_cnt (exts ! idx)" "idx < length exts"
      and side: "bno < so \<and> int idx = high + 1 \<or> so + bc \<le> bno \<and> int idx = low - 1"
      and lh: "low = high + 1" using "1.prems" by auto
    have r: "bno_search exts bno low high idx so bc = (False, idx, so, bc)"
      using False by (subst bno_search.simps) simp
    have "ext_index exts bno = nat low"
    proof (rule ext_index_eqI [OF ok])
      show "nat low \<le> length exts" using lh "1.prems" by linarith
      show "bm_end (exts ! i) \<le> bno" if "i < nat low" for i using that "1.prems"(5) by simp
      show "bno < bm_end (exts ! nat low)" if "nat low < length exts"
        using that "1.prems"(6) [of "nat low"] lh "1.prems"(2) by (simp add: trans_less_add1)
    qed
    moreover have "nat low = (if so + bc \<le> bno then idx + 1 else idx)"
      using side lh by (auto simp: le_nat_iff)
    ultimately have "if so + bc \<le> bno then ext_index exts bno = idx + 1
        else bno < so \<and> ext_index exts bno = idx"
      using side by auto
    then show ?thesis
      using last(3) r [unfolded last(1,2)] unfolding last(1,2)
      by (intro exI [of _ False] exI [of _ idx]) (simp only: if_False simp_thms)
  qed
qed

lemma bno_to_ext_ok:
  assumes "exts_ok exts"
  shows "xfs_iext_bno_to_ext exts bno =
    (if ext_index exts bno < length exts then Some (exts ! ext_index exts bno) else None, ext_index exts bno)"
proof (cases "exts = []")
  case True
  then show ?thesis by (simp add: xfs_iext_bno_to_ext_def ext_index_def)
next
  case False
  then obtain hit k where r: "bno_search exts bno 0 (int (length exts) - 1) 0 0 0 =
      (hit, k, bm_off (exts ! k), bm_cnt (exts ! k))" "k < length exts"
    "if hit then bm_off (exts ! k) \<le> bno \<and> bno < bm_end (exts ! k) \<and> ext_index exts bno = k
     else if bm_end (exts ! k) \<le> bno then ext_index exts bno = k + 1
     else bno < bm_off (exts ! k) \<and> ext_index exts bno = k"
    using bno_search_ok [OF assms, of 0 "int (length exts) - 1" bno 0 0 0]
    by (cases exts) auto
  then show ?thesis
    using False by (auto simp: xfs_iext_bno_to_ext_def split: if_splits)
qed

text \<open>
  C24: The binary search over an ordered extent list ends and finds the first extent that ends
  behind the block asked for; it reports no extent exactly when there is none.
\<close>

theorem bno_to_ext_correct:
  assumes "exts_ok exts"
  shows "xfs_iext_bno_to_ext exts bno =
    (case filter (\<lambda>e. bno < bm_end e) exts of [] \<Rightarrow> None | e # _ \<Rightarrow> Some e,
     length (filter (\<lambda>e. bm_end e \<le> bno) exts))"
  unfolding bno_to_ext_ok [OF assms] prod.inject by (rule ext_index_filter [OF assms])

section \<open>Searching the list\<close>

text \<open>
  \<open>xfs_bmap_search_multi_extents\<close>: the extent found, whether the search ran off the end, the index,
  the extent to look at and the one before it. The initial value the code gives \<open>got\<close> is
  \<open>got_init\<close>; \<open>None\<close> for the previous extent is its mark \<open>NULLFILEOFF\<close>.
\<close>

definition got_init :: bmap where
  "got_init = \<lparr> bm_off = 0xffa5a5a5a5a5a5a5, bm_blk = 0xffffa5a5a5a5a5a5,
     bm_cnt = 0xa55a5a5a5a5a5a5a, bm_state = XFS_EXT_NORM \<rparr>"

definition xfs_bmap_search_multi_extents ::
    "bmap list \<Rightarrow> nat \<Rightarrow> bmap option \<times> bool \<times> int \<times> bmap \<times> bmap option" where
  "xfs_bmap_search_multi_extents exts bno =
    (let (ep, lastx) = xfs_iext_bno_to_ext exts bno;
         prev = (if lastx > 0 then Some (exts ! (lastx - 1)) else None) in
     if lastx < length exts then (ep, False, int lastx, the ep, prev)
     else (None, True, int lastx, (case prev of Some e \<Rightarrow> e | None \<Rightarrow> got_init), prev))"

definition NULLEXTNUM :: int where "NULLEXTNUM = - 1"

text \<open>\<open>xfs_bmap_search_extents\<close> refuses extents at block 0 (there are no real-time inodes in this build).\<close>

definition xfs_bmap_search_extents ::
    "bmap list \<Rightarrow> nat \<Rightarrow> bmap option \<times> bool \<times> int \<times> bmap \<times> bmap option" where
  "xfs_bmap_search_extents exts bno =
    (let (ep, eof, lastx, got, prev) = xfs_bmap_search_multi_extents exts bno in
     if bm_blk got = 0 \<and> lastx \<noteq> NULLEXTNUM then (None, True, NULLEXTNUM, got, prev)
     else (ep, eof, lastx, got, prev))"

text \<open>What a search finds in a consistent list.\<close>

lemma search_extents_ok:
  fixes k exts bno
  assumes ok: "exts_ok exts" and k: "k = ext_index exts bno"
  shows "\<exists>got. xfs_bmap_search_extents exts bno =
    (if k < length exts then Some (exts ! k) else None, k = length exts, int k, got,
     if k > 0 then Some (exts ! (k - 1)) else None) \<and> (k < length exts \<longrightarrow> got = exts ! k)"
proof -
  have nz: "bm_blk (exts ! i) \<noteq> 0" if "i < length exts" for i
    using ok that by (auto simp: exts_ok_def list_all_length)
  have le: "k \<le> length exts" by (simp add: k ext_index_le)
  have init: "bm_blk got_init \<noteq> 0" by (simp add: got_init_def)
  note bno = bno_to_ext_ok [OF ok, of bno, folded k]
  show ?thesis
  proof (cases "k < length exts")
    case True
    then show ?thesis
      using nz [OF True] by (simp add: xfs_bmap_search_extents_def xfs_bmap_search_multi_extents_def bno)
  next
    case False
    then have kl: "k = length exts" using le by simp
    have "bm_blk (exts ! (length exts - 1)) \<noteq> 0" if "0 < length exts" using nz that by simp
    then show ?thesis
      using init bno [unfolded kl]
      by (cases "exts = []")
        (simp_all add: xfs_bmap_search_extents_def xfs_bmap_search_multi_extents_def kl)
  qed
qed

lemma find_sorted:
  assumes ok: "exts_ok exts"
  shows "bmap_lookup exts b = (let k = ext_index exts b in
    if k < length exts \<and> bm_off (exts ! k) \<le> b then Some (bm_blk (exts ! k) + (b - bm_off (exts ! k)))
    else None)"
proof -
  let ?P = "\<lambda>e. bm_off e \<le> b \<and> b < bm_end e" and ?k = "ext_index exts b"
  have before: "\<not> ?P (exts ! i)" if "i < ?k" for i
    using ext_index_before [OF that] by simp
  have after: "\<not> ?P (exts ! i)" if "?k < i" "i < length exts" for i
    using ext_index_at [of exts b] exts_ok_nth(1) [OF ok that] that by auto
  show ?thesis
  proof (cases "?k < length exts \<and> bm_off (exts ! ?k) \<le> b")
    case True
    then have "find ?P exts = Some (exts ! ?k)"
      using before ext_index_at [of exts b] by (auto simp: find_Some_iff intro: exI [of _ ?k])
    then show ?thesis using True by (simp add: bmap_lookup_def Let_def)
  next
    case False
    have "\<not> ?P (exts ! i)" if "i < length exts" for i
      using that before [of i] after [of i] False by (cases i ?k rule: linorder_cases) auto
    then have "find ?P exts = None" by (auto simp: find_None_iff in_set_conv_nth)
    then show ?thesis using False by (auto simp: bmap_lookup_def Let_def)
  qed
qed

section \<open>One block\<close>

definition NULLFSBLOCK :: nat where "NULLFSBLOCK = 2 ^ 64 - 1"

text \<open>The extent list of the data fork, as the functions of this theory see it.\<close>

definition fork_exts :: "xfs_inode \<Rightarrow> bmap list" where
  "fork_exts ip = map bmap_of (if_extents (i_df ip))"

text \<open>Reading the list in first, when it is in a B-tree; \<open>iread\<close> is \<open>xfs_iread_extents\<close>.\<close>

definition with_extents ::
    "'s inode_reader \<Rightarrow> 's inode_reader" where
  "with_extents iread ip s = (if if_extents_read (i_df ip) then Some (0, ip, s) else iread ip s)"

definition xfs_bmapi_single ::
    "'s inode_reader \<Rightarrow> xfs_inode \<Rightarrow> nat \<Rightarrow> 's \<Rightarrow>
      (int \<times> nat \<times> xfs_inode \<times> 's) option" where
  "xfs_bmapi_single iread ip bno s =
    (if di_format (i_d ip) \<noteq> FMT_BTREE \<and> di_format (i_d ip) \<noteq> FMT_EXTENTS
     then Some (errno_code EFSCORRUPTED, NULLFSBLOCK, ip, s)
     else do {
       (error, ip, s) \<leftarrow> with_extents iread ip s;
       Some (if error \<noteq> 0 then (error, NULLFSBLOCK, ip, s)
         else case xfs_bmap_search_extents (fork_exts ip) bno of (_, eof, lastx, got, prev) \<Rightarrow>
           if eof \<or> bm_off got > bno then (0, NULLFSBLOCK, ip, s)
           else (0, bm_blk got + (bno - bm_off got), ip, s)) })"

lemma bmapi_single_ok:
  assumes "exts_ok (fork_exts ip)" and "if_extents_read (i_df ip)"
    and "di_format (i_d ip) = FMT_EXTENTS \<or> di_format (i_d ip) = FMT_BTREE"
  shows "xfs_bmapi_single iread ip bno s =
    Some (0, case bmap_lookup (fork_exts ip) bno of Some b \<Rightarrow> b | None \<Rightarrow> NULLFSBLOCK, ip, s)"
proof -
  let ?k = "ext_index (fork_exts ip) bno"
  obtain got where got: "xfs_bmap_search_extents (fork_exts ip) bno =
      (if ?k < length (fork_exts ip) then Some (fork_exts ip ! ?k) else None, ?k = length (fork_exts ip), int ?k, got,
       if ?k > 0 then Some (fork_exts ip ! (?k - 1)) else None)"
    and gk: "?k < length (fork_exts ip) \<longrightarrow> got = fork_exts ip ! ?k"
    using search_extents_ok [OF assms(1) refl] by blast
  have "?k \<le> length (fork_exts ip)" by (rule ext_index_le)
  then have k: "?k = length (fork_exts ip) \<longleftrightarrow> \<not> ?k < length (fork_exts ip)" by linarith
  show ?thesis
    using assms(2,3) gk
    by (cases "?k < length (fork_exts ip)")
      (auto simp: xfs_bmapi_single_def with_extents_def Let_def got k find_sorted [OF assms(1)])
qed

section \<open>The ends of a file\<close>

definition xfs_bmap_last_offset ::
    "'s inode_reader \<Rightarrow> xfs_inode \<Rightarrow> 's \<Rightarrow> (int \<times> nat \<times> xfs_inode \<times> 's) option" where
  "xfs_bmap_last_offset iread ip s =
    (if di_format (i_d ip) \<noteq> FMT_BTREE \<and> di_format (i_d ip) \<noteq> FMT_EXTENTS \<and> di_format (i_d ip) \<noteq> FMT_LOCAL
     then Some (errno_code EIO, 0, ip, s)
     else if di_format (i_d ip) = FMT_LOCAL then Some (0, 0, ip, s)
     else do {
       (error, ip, s) \<leftarrow> with_extents iread ip s;
       Some (if error \<noteq> 0 then (error, 0, ip, s)
         else if fork_exts ip = [] then (0, 0, ip, s)
         else (0, bm_end (last (fork_exts ip)), ip, s)) })"

definition xfs_bmap_last_before ::
    "'s inode_reader \<Rightarrow> xfs_inode \<Rightarrow> nat \<Rightarrow> 's \<Rightarrow> (int \<times> nat \<times> xfs_inode \<times> 's) option" where
  "xfs_bmap_last_before iread ip last_block s =
    (if di_format (i_d ip) \<noteq> FMT_BTREE \<and> di_format (i_d ip) \<noteq> FMT_EXTENTS \<and> di_format (i_d ip) \<noteq> FMT_LOCAL
     then Some (errno_code EIO, last_block, ip, s)
     else if di_format (i_d ip) = FMT_LOCAL then Some (0, 0, ip, s)
     else do {
       (error, ip, s) \<leftarrow> with_extents iread ip s;
       Some (if error \<noteq> 0 then (error, last_block, ip, s)
       else let bno = (last_block + (2 ^ 64 - 1)) mod 2 ^ 64 in
       case xfs_bmap_search_extents (fork_exts ip) bno of (ep, eof, lastx, got, prev) \<Rightarrow>
         if eof \<or> bm_off (the ep) > bno
         then (0, case prev of None \<Rightarrow> 0 | Some p \<Rightarrow> bm_end p, ip, s)
         else (0, last_block, ip, s)) })"

text \<open>The loop of \<open>xfs_bmap_first_unused\<close>; \<open>mx\<close> is the first candidate behind the extents seen.\<close>

fun first_unused_loop :: "nat \<Rightarrow> nat \<Rightarrow> bmap list \<Rightarrow> nat \<Rightarrow> nat" where
  "first_unused_loop lowest len [] mx = mx"
| "first_unused_loop lowest len (e # es) mx =
     (if bm_off e \<ge> lowest + len \<and> bm_off e - mx \<ge> len then mx
      else first_unused_loop lowest len es (max (bm_end e) lowest))"

definition xfs_bmap_first_unused ::
    "'s inode_reader \<Rightarrow> xfs_inode \<Rightarrow> nat \<Rightarrow> nat \<Rightarrow> 's \<Rightarrow>
      (int \<times> nat \<times> xfs_inode \<times> 's) option" where
  "xfs_bmap_first_unused iread ip len first_unused s =
    (if di_format (i_d ip) = FMT_LOCAL then Some (0, 0, ip, s)
     else do {
       (error, ip, s) \<leftarrow> with_extents iread ip s;
       Some (if error \<noteq> 0 then (error, first_unused, ip, s)
         else (0, first_unused_loop first_unused len (fork_exts ip) first_unused, ip, s)) })"

section \<open>Mapping a range\<close>

text \<open>
  The read side of \<open>xfs_bmapi\<close>: the flags \<open>XFS_BMAPI_WRITE\<close> and \<open>XFS_BMAPI_DELAY\<close> are off. The
  mappings written so far are the list \<open>mv\<close>, so \<open>mval[-1]\<close> is its last element and \<open>n\<close> its length.
  The variable \<open>len\<close> of the code is \<open>end - bno\<close> at every head of the loop and is not kept apart.
  \<open>entire\<close> and \<open>igstate\<close> are the flags of these names.
\<close>

definition bmapi_hole :: "nat \<Rightarrow> nat \<Rightarrow> bmap \<Rightarrow> bmap" where
  "bmapi_hole endb bno got = \<lparr> bm_off = bno, bm_blk = HOLESTARTBLOCK,
     bm_cnt = min (endb - bno) (bm_off got - bno), bm_state = XFS_EXT_NORM \<rparr>"

definition bmapi_found :: "bool \<Rightarrow> nat \<Rightarrow> nat \<Rightarrow> nat \<Rightarrow> bmap \<Rightarrow> bmap" where
  "bmapi_found entire endb obno bno got =
    (if \<not> entire \<and> bm_end got > obno
     then (let bno = max bno obno in
       \<lparr> bm_off = bno,
         bm_blk = (if isnullstartblock (bm_blk got) then DELAYSTARTBLOCK
           else bm_blk got + (bno - bm_off got)),
         bm_cnt = min (endb - bno) (bm_cnt got - (bno - bm_off got)), bm_state = bm_state got \<rparr>)
     else got \<lparr> bm_blk := (if isnullstartblock (bm_blk got) then DELAYSTARTBLOCK else bm_blk got) \<rparr>)"

text \<open>Adding a mapping to the ones before it, or merging it into the last one.\<close>

definition bmapi_add :: "bool \<Rightarrow> nat \<Rightarrow> bmap list \<Rightarrow> bmap \<Rightarrow> bmap list" where
  "bmapi_add igstate obno mv m =
    (if mv \<noteq> [] \<and> bm_off m = bm_off (last mv)
     then butlast mv @ [last mv \<lparr> bm_cnt := bm_cnt m, bm_state := bm_state m \<rparr>]
     else if mv \<noteq> [] \<and> bm_blk m \<noteq> DELAYSTARTBLOCK \<and> bm_blk (last mv) \<noteq> DELAYSTARTBLOCK \<and>
       bm_blk (last mv) \<noteq> HOLESTARTBLOCK \<and> bm_blk m = bm_blk (last mv) + bm_cnt (last mv) \<and>
       (igstate \<or> bm_state (last mv) = bm_state m)
     then butlast mv @ [last mv \<lparr> bm_cnt := bm_cnt (last mv) + bm_cnt m \<rparr>]
     else if mv \<noteq> [] \<and> bm_blk m = DELAYSTARTBLOCK \<and> bm_blk (last mv) = DELAYSTARTBLOCK \<and>
       bm_off m = bm_end (last mv)
     then butlast mv @ [last mv \<lparr> bm_cnt := bm_cnt (last mv) + bm_cnt m, bm_state := bm_state m \<rparr>]
     else if \<not> (mv = [] \<and> bm_end m \<le> obno) then mv @ [m]
     else mv)"

function bmapi_loop :: "bool \<Rightarrow> bool \<Rightarrow> bmap list \<Rightarrow> nat \<Rightarrow> nat \<Rightarrow> nat \<Rightarrow>
    nat \<Rightarrow> bool \<Rightarrow> nat \<Rightarrow> bmap \<Rightarrow> bmap list \<Rightarrow> bmap list" where
  "bmapi_loop entire igstate exts obno endb nmap bno eof lastx got mv =
    (if bno < endb \<and> length mv < nmap then
       let got = (if eof then got \<lparr> bm_off := endb \<rparr> else got) in
       if eof \<or> bm_off got > bno then
         let m = bmapi_hole endb bno got in
         bmapi_loop entire igstate exts obno endb nmap (bno + bm_cnt m) eof lastx got (mv @ [m])
       else
         let m = bmapi_found entire endb obno bno got;
           bno = bm_end m;
           mv = bmapi_add igstate obno mv m in
         if bno \<ge> endb \<or> length mv \<ge> nmap then mv
         else let lastx = lastx + 1 in
           if lastx \<ge> length exts then bmapi_loop entire igstate exts obno endb nmap bno True lastx got mv
           else bmapi_loop entire igstate exts obno endb nmap bno eof lastx (exts ! lastx) mv
     else mv)"
  by pat_completeness auto
termination
  by (relation "measures [\<lambda>(en, ig, exts, ob, endb, nmap, bno, eof, lastx, got, mv).
        if eof then 0 else Suc (length exts - lastx),
      \<lambda>(en, ig, exts, ob, endb, nmap, bno, eof, lastx, got, mv). endb - bno]")
    (auto simp: bmapi_hole_def split: if_splits)

declare bmapi_loop.simps [simp del]

text \<open>\<open>xfs_bmap_local_to_extents\<close>, which only writers call on purpose, is the argument \<open>l2e\<close>.\<close>

definition xfs_bmapi_read ::
    "'s inode_reader \<Rightarrow> 's inode_reader \<Rightarrow>
      bool \<Rightarrow> bool \<Rightarrow> xfs_inode \<Rightarrow> nat \<Rightarrow> nat \<Rightarrow> nat \<Rightarrow> 's \<Rightarrow> (int \<times> bmap list \<times> xfs_inode \<times> 's) option" where
  "xfs_bmapi_read iread l2e entire igstate ip bno len nmap s =
    (if di_format (i_d ip) \<noteq> FMT_EXTENTS \<and> di_format (i_d ip) \<noteq> FMT_BTREE \<and> di_format (i_d ip) \<noteq> FMT_LOCAL
     then Some (errno_code EFSCORRUPTED, [], ip, s)
     else do {
       (error, ip, s) \<leftarrow> (if di_format (i_d ip) = FMT_LOCAL then l2e ip s else Some (0, ip, s));
       if error \<noteq> 0 then Some (error, [], ip, s)
       else do {
         (error, ip, s) \<leftarrow> with_extents iread ip s;
         Some (if error \<noteq> 0 then (error, [], ip, s)
           else case xfs_bmap_search_extents (fork_exts ip) bno of (_, eof, lastx, got, prev) \<Rightarrow>
             (0, bmapi_loop entire igstate (fork_exts ip) bno (bno + len) nmap bno eof (nat lastx) got [], ip, s)) } })"

section \<open>What a mapping says\<close>

text \<open>A list of mappings is right when it tiles the range and every mapping agrees with the lookup.\<close>

fun tiles :: "nat \<Rightarrow> bmap list \<Rightarrow> nat \<Rightarrow> bool" where
  "tiles b [] e \<longleftrightarrow> b = e"
| "tiles b (m # ms) e \<longleftrightarrow> bm_off m = b \<and> 0 < bm_cnt m \<and> tiles (bm_end m) ms e"

definition agrees :: "bmap list \<Rightarrow> bmap \<Rightarrow> bool" where
  "agrees exts m \<longleftrightarrow> (\<forall>i < bm_cnt m. bmap_lookup exts (bm_off m + i) =
     (if bm_blk m = HOLESTARTBLOCK then None else Some (bm_blk m + i)))"

lemma tiles_snoc: "tiles b (ms @ [m]) e \<longleftrightarrow> tiles b ms (bm_off m) \<and> 0 < bm_cnt m \<and> e = bm_end m"
  by (induction ms arbitrary: b) auto

lemma tiles_le: "tiles b ms e \<Longrightarrow> b \<le> e"
  by (induction ms arbitrary: b) fastforce+

lemma tiles_last: "tiles b ms e \<Longrightarrow> ms \<noteq> [] \<Longrightarrow> bm_end (last ms) = e \<and> 0 < bm_cnt (last ms) \<and> last ms \<in> set ms"
  by (induction ms arbitrary: b) auto

lemma exts_okD:
  assumes "exts_ok exts" and "e \<in> set exts"
  shows "0 < bm_cnt e" and "0 < bm_blk e" and "bm_blk e + bm_cnt e < 2 ^ 52" and "\<not> isnullstartblock (bm_blk e)"
  using assms by (auto simp: exts_ok_def list_all_iff)

text \<open>The mapping made of the part of an extent from \<open>bno\<close> on agrees with the lookup.\<close>

lemma agrees_hole:
  assumes ok: "exts_ok exts" and k: "ext_index exts bno = k"
    and gap: "k < length exts \<Longrightarrow> bno + c \<le> bm_off (exts ! k)"
  shows "agrees exts \<lparr> bm_off = bno, bm_blk = HOLESTARTBLOCK, bm_cnt = c, bm_state = st \<rparr>"
proof -
  have "bmap_lookup exts (bno + i) = None" if i: "i < c" for i
  proof -
    have "ext_index exts (bno + i) = k"
    proof (rule ext_index_eqI [OF ok])
      show "k \<le> length exts" using k ext_index_le by blast
      show "bm_end (exts ! j) \<le> bno + i" if "j < k" for j
        using ext_index_before [of j exts bno] that k by simp
      show "bno + i < bm_end (exts ! k)" if "k < length exts" using gap [OF that] i by linarith
    qed
    then show ?thesis using gap i by (auto simp: find_sorted [OF ok] Let_def)
  qed
  then show ?thesis by (simp add: agrees_def)
qed

lemma agrees_found:
  assumes ok: "exts_ok exts" and k: "ext_index exts bno = k" and kl: "k < length exts"
    and le: "bm_off (exts ! k) \<le> bno" and c: "bno + c \<le> bm_end (exts ! k)"
  shows "agrees exts \<lparr> bm_off = bno, bm_blk = bm_blk (exts ! k) + (bno - bm_off (exts ! k)), bm_cnt = c, bm_state = st \<rparr>"
proof -
  have blk: "bm_blk (exts ! k) + bm_cnt (exts ! k) < 2 ^ 52" using exts_okD(3) [OF ok nth_mem [OF kl]] .
  have "bmap_lookup exts (bno + i) = Some (bm_blk (exts ! k) + (bno - bm_off (exts ! k)) + i)" if i: "i < c" for i
  proof -
    have "ext_index exts (bno + i) = k"
    proof (rule ext_index_eqI [OF ok])
      show "k \<le> length exts" using kl by simp
      show "bm_end (exts ! j) \<le> bno + i" if "j < k" for j
        using ext_index_before [of j exts bno] that k by simp
      show "bno + i < bm_end (exts ! k)" using c i by linarith
    qed
    then show ?thesis using kl le by (simp add: find_sorted [OF ok] Let_def)
  qed
  moreover have "bm_blk (exts ! k) + (bno - bm_off (exts ! k)) \<noteq> HOLESTARTBLOCK" if "0 < c"
  proof -
    have "bm_blk (exts ! k) + (bno - bm_off (exts ! k)) < 2 ^ 52" using blk c le that by linarith
    then show ?thesis by (simp add: HOLESTARTBLOCK_def)
  qed
  ultimately show ?thesis by (auto simp: agrees_def)
qed

lemma ext_index_after_extent:
  assumes ok: "exts_ok exts" and k: "ext_index exts bno = k" and kl: "k < length exts"
  shows "ext_index exts (bm_end (exts ! k)) = Suc k"
proof (rule ext_index_eqI [OF ok])
  show "Suc k \<le> length exts" using kl by simp
  show "bm_end (exts ! j) \<le> bm_end (exts ! k)" if "j < Suc k" for j
    using exts_ok_nth(1) [OF ok, of j k] that kl by (cases "j = k") auto
  show "bm_end (exts ! k) < bm_end (exts ! Suc k)" if "Suc k < length exts"
    using exts_ok_nth(1) [OF ok, of k "Suc k"] exts_ok_nth(2) [OF ok that] that by simp
qed

lemma ext_index_in_gap:
  assumes ok: "exts_ok exts" and k: "ext_index exts bno = k" and "bno \<le> b"
    and "k < length exts \<Longrightarrow> b \<le> bm_off (exts ! k)"
  shows "ext_index exts b = k"
proof (rule ext_index_eqI [OF ok])
  show "k \<le> length exts" using k ext_index_le by blast
  show "bm_end (exts ! j) \<le> b" if "j < k" for j
    using ext_index_before [of j exts bno] that k assms(3) by simp
  show "b < bm_end (exts ! k)" if "k < length exts" using assms(4) [OF that] exts_ok_nth(2) [OF ok that] by simp
qed

lemma bmapi_add_ok:
  assumes t: "tiles b mv (bm_off m)" and c: "0 < bm_cnt m" and a: "\<forall>x \<in> set mv. agrees exts x" "agrees exts m"
    and d: "bm_blk m \<noteq> DELAYSTARTBLOCK" and h: "bm_blk m \<noteq> HOLESTARTBLOCK" and e: "obno < bm_end m"
  shows "tiles b (bmapi_add ig obno mv m) (bm_end m) \<and> (\<forall>x \<in> set (bmapi_add ig obno mv m). agrees exts x) \<and>
    length (bmapi_add ig obno mv m) \<le> Suc (length mv)"
proof (cases "mv = []")
  case True
  then show ?thesis using t c a e by (simp add: bmapi_add_def)
next
  case False
  define l where "l = last mv"
  obtain ms where mv: "mv = ms @ [l]" using False by (metis append_butlast_last_id l_def)
  have l: "tiles b ms (bm_off l)" "0 < bm_cnt l" "bm_end l = bm_off m" using t by (simp_all add: mv tiles_snoc)
  show ?thesis
  proof (cases "bm_blk l \<noteq> DELAYSTARTBLOCK \<and> bm_blk l \<noteq> HOLESTARTBLOCK \<and> bm_blk m = bm_blk l + bm_cnt l \<and>
      (ig \<or> bm_state l = bm_state m)")
    case True
    let ?n = "l \<lparr> bm_cnt := bm_cnt l + bm_cnt m \<rparr>"
    have r: "bmapi_add ig obno mv m = ms @ [?n]"
      using True l d by (auto simp: bmapi_add_def mv)
    have "agrees exts ?n"
      unfolding agrees_def
    proof (intro allI impI)
      fix i assume i: "i < bm_cnt ?n"
      have al: "agrees exts l" using a by (simp add: mv)
      show "bmap_lookup exts (bm_off ?n + i) = (if bm_blk ?n = HOLESTARTBLOCK then None else Some (bm_blk ?n + i))"
      proof (cases "i < bm_cnt l")
        case True
        then show ?thesis using al by (simp add: agrees_def)
      next
        case False
        define j where "j = i - bm_cnt l"
        have j: "i = bm_cnt l + j" "j < bm_cnt m" using False i by (auto simp: j_def)
        have "bmap_lookup exts (bm_off m + j) = Some (bm_blk m + j)"
        proof -
          have "bmap_lookup exts (bm_off m + j) = (if bm_blk m = HOLESTARTBLOCK then None else Some (bm_blk m + j))"
            using a(2) j(2) by (simp add: agrees_def)
          then show ?thesis using h by simp
        qed
        then show ?thesis using True l(3) j(1) by (simp add: add.assoc [symmetric])
      qed
    qed
    then show ?thesis unfolding r using a l c by (simp add: mv tiles_snoc)
  next
    case no: False
    have r: "bmapi_add ig obno mv m = mv @ [m]"
      using no l d by (auto simp: bmapi_add_def mv)
    show ?thesis unfolding r using t c a by (simp add: tiles_snoc)
  qed
qed

text \<open>No two holes are next to each other: behind a hole a block is mapped.\<close>

definition hole :: "bmap \<Rightarrow> bool" where "hole m \<longleftrightarrow> bm_blk m = HOLESTARTBLOCK"

fun holes_apart :: "bmap list \<Rightarrow> bool" where
  "holes_apart (m # n # ms) \<longleftrightarrow> \<not> (hole m \<and> hole n) \<and> holes_apart (n # ms)"
| "holes_apart ms \<longleftrightarrow> True"

lemma holes_apart_snoc: "holes_apart (ms @ [m]) \<longleftrightarrow> holes_apart ms \<and> (ms = [] \<or> \<not> (hole (last ms) \<and> hole m))"
  by (induction ms rule: holes_apart.induct) auto

lemma bmapi_add_apart:
  assumes "\<not> hole m" and "holes_apart mv" and "obno < bm_end m" and "bm_blk m \<noteq> DELAYSTARTBLOCK"
    and "mv \<noteq> [] \<Longrightarrow> bm_off m \<noteq> bm_off (last mv)"
  shows "holes_apart (bmapi_add ig obno mv m) \<and> bmapi_add ig obno mv m \<noteq> [] \<and> \<not> hole (last (bmapi_add ig obno mv m))"
proof (cases "mv = []")
  case True
  then show ?thesis using assms by (simp add: bmapi_add_def)
next
  case False
  then obtain ms l where mv: "mv = ms @ [l]" by (metis append_butlast_last_id)
  have "holes_apart (ms @ [l, m]) \<longleftrightarrow> holes_apart (ms @ [l]) \<and> \<not> (hole l \<and> hole m)"
    using holes_apart_snoc [of "ms @ [l]" m] by simp
  then show ?thesis using assms by (auto simp: bmapi_add_def mv holes_apart_snoc hole_def)
qed

text \<open>One round of the loop keeps the list right; the loop stops at the end of the range or when the
  list is full.\<close>

lemma bmapi_loop_ok:
  assumes "exts_ok exts" and "tiles obno mv bno" and "\<forall>m \<in> set mv. agrees exts m" and "length mv \<le> nmap"
    and "bno \<le> endb" and "lastx = ext_index exts bno" and "eof \<longleftrightarrow> lastx = length exts" and "\<not> eof \<Longrightarrow> got = exts ! lastx"
    and "holes_apart mv" and "mv \<noteq> [] \<Longrightarrow> hole (last mv) \<Longrightarrow> bno < endb \<Longrightarrow> \<not> eof \<and> bm_off (exts ! lastx) \<le> bno"
  shows "\<exists>e. tiles obno (bmapi_loop False ig exts obno endb nmap bno eof lastx got mv) e \<and> e \<le> endb \<and>
    (\<forall>m \<in> set (bmapi_loop False ig exts obno endb nmap bno eof lastx got mv). agrees exts m) \<and>
    length (bmapi_loop False ig exts obno endb nmap bno eof lastx got mv) \<le> nmap \<and>
    (e = endb \<or> length (bmapi_loop False ig exts obno endb nmap bno eof lastx got mv) = nmap) \<and>
    holes_apart (bmapi_loop False ig exts obno endb nmap bno eof lastx got mv)"
  using assms
proof (induction False ig exts obno endb nmap bno eof lastx got mv rule: bmapi_loop.induct)
  case (1 ig exts obno endb nmap bno eof lastx got mv)
  note ok = "1.prems"(1) and t = "1.prems"(2) and a = "1.prems"(3) and k = "1.prems"(6) [symmetric]
  note simps = bmapi_loop.simps [of False ig exts obno endb nmap bno eof lastx got mv]
  show ?case
  proof (cases "bno < endb \<and> length mv < nmap")
    case False
    then have "bmapi_loop False ig exts obno endb nmap bno eof lastx got mv = mv"
      unfolding simps if_not_P [OF False] by simp
    then show ?thesis using False "1.prems" by (intro exI [of _ bno]) auto
  next
    case run: True
    define g where "g = (if eof then got \<lparr> bm_off := endb \<rparr> else got)"
    show ?thesis
    proof (cases "eof \<or> bm_off g > bno")
      case in_hole: True
      define m where "m = bmapi_hole endb bno g"
      have m: "bm_off m = bno" "0 < bm_cnt m" "bm_end m \<le> endb" "bm_end m \<le> bm_off g"
        using run in_hole by (auto simp: m_def bmapi_hole_def g_def)
      have full: "bm_end m < endb \<Longrightarrow> \<not> eof \<and> bm_end m = bm_off (exts ! lastx)"
        using run in_hole "1.prems"(8) by (auto simp: m_def bmapi_hole_def g_def split: if_splits)
      have "mv = [] \<or> \<not> hole (last mv)" using "1.prems"(8,10) in_hole run by (auto simp: g_def split: if_splits)
      then have ap: "holes_apart (mv @ [m])" using "1.prems"(9) by (auto simp: holes_apart_snoc)
      have gap: "lastx < length exts \<Longrightarrow> bm_end m \<le> bm_off (exts ! lastx)"
        using m(4) "1.prems"(7,8) by (auto simp: g_def)
      have step: "bmapi_loop False ig exts obno endb nmap bno eof lastx got mv =
          bmapi_loop False ig exts obno endb nmap (bno + bm_cnt m) eof lastx g (mv @ [m])"
        using run in_hole by (subst simps) (simp add: g_def [symmetric] m_def [symmetric])
      have "agrees exts m"
        unfolding m_def bmapi_hole_def
        by (rule agrees_hole [OF ok k]) (use gap in \<open>simp add: m_def bmapi_hole_def\<close>)
      moreover have "ext_index exts (bno + bm_cnt m) = lastx"
        by (rule ext_index_in_gap [OF ok k]) (use gap m(1) in simp_all)
      ultimately show ?thesis
        unfolding step
        using "1.hyps"(1) [OF run g_def in_hole m_def ok] t a run m "1.prems"(7,8) ap full
        by (auto simp: tiles_snoc g_def)
    next
      case found: False
      then have eof: "\<not> eof" and g: "g = got" by (auto simp: g_def)
      have kl: "lastx < length exts" using eof "1.prems"(7) k ext_index_le [of exts bno] by linarith
      have got: "got = exts ! lastx" using "1.prems"(8) eof by simp
      have le: "bm_off got \<le> bno" and lt: "bno < bm_end got"
        using found ext_index_at [of exts bno] kl by (auto simp: g got k)
      have ob: "obno \<le> bno" using t by (rule tiles_le)
      note e = exts_okD [OF ok nth_mem [OF kl], folded got]
      define m where "m = bmapi_found False endb obno bno got"
      have m: "m = \<lparr> bm_off = bno, bm_blk = bm_blk got + (bno - bm_off got),
          bm_cnt = min (endb - bno) (bm_cnt got - (bno - bm_off got)), bm_state = bm_state got \<rparr>"
        using ob lt e(4) by (simp add: m_def bmapi_found_def Let_def max_absorb1)
      have m': "bm_off m = bno" "0 < bm_cnt m" "bm_end m \<le> endb" "bm_end m \<le> bm_end got"
        "bm_end m = endb \<or> bm_end m = bm_end got"
        using run le lt by (auto simp: m)
      have blk: "bm_blk m < 2 ^ 52" using e(3) le lt by (simp add: m)
      have ag: "agrees exts m"
        unfolding m got
        by (rule agrees_found [OF ok k kl]) (use le lt got in auto)
      define mv' where "mv' = bmapi_add ig obno mv m"
      have mv': "tiles obno mv' (bm_end m)" "\<forall>x \<in> set mv'. agrees exts x" "length mv' \<le> Suc (length mv)"
        unfolding mv'_def
        using bmapi_add_ok [of obno mv m exts obno ig] t a ag m' blk ob
        by (auto simp: HOLESTARTBLOCK_def DELAYSTARTBLOCK_def)
      have lm: "mv \<noteq> [] \<Longrightarrow> bm_off m \<noteq> bm_off (last mv)" using tiles_last [OF t] m'(1) by force
      have ap: "holes_apart mv'" "mv' \<noteq> []" "\<not> hole (last mv')"
        unfolding mv'_def using bmapi_add_apart [of m mv obno ig] "1.prems"(9) lm blk m'(1,2) ob
        by (auto simp: hole_def HOLESTARTBLOCK_def DELAYSTARTBLOCK_def)
      show ?thesis
      proof (cases "bm_end m \<ge> endb \<or> length mv' \<ge> nmap")
        case stop: True
        have "bmapi_loop False ig exts obno endb nmap bno eof lastx got mv = mv'"
          using run found stop by (subst simps) (simp add: g_def [symmetric] g m_def [symmetric] mv'_def [symmetric])
        then show ?thesis using mv' m' stop run ap(1) by (intro exI [of _ "bm_end m"]) auto
      next
        case go: False
        then have end': "bm_end m = bm_end (exts ! lastx)" using m'(5) got by auto
        have k': "ext_index exts (bm_end m) = Suc lastx"
          unfolding end' by (rule ext_index_after_extent [OF ok k kl])
        show ?thesis
        proof (cases "Suc lastx \<ge> length exts")
          case last: True
          have step: "bmapi_loop False ig exts obno endb nmap bno eof lastx got mv =
              bmapi_loop False ig exts obno endb nmap (bm_end m) True (Suc lastx) got mv'"
            using run found go last
            by (subst simps) (simp add: g_def [symmetric] g m_def [symmetric] mv'_def [symmetric])
          show ?thesis
            unfolding step
            using "1.hyps"(2) [OF run g_def found m_def [folded g] refl mv'_def _ refl, unfolded Suc_eq_plus1 [symmetric]]
              go last ok mv' run m' k' kl ap by (auto simp: g)
        next
          case more: False
          have step: "bmapi_loop False ig exts obno endb nmap bno eof lastx got mv =
              bmapi_loop False ig exts obno endb nmap (bm_end m) eof (Suc lastx) (exts ! Suc lastx) mv'"
            using run found go more
            by (subst simps) (simp add: g_def [symmetric] g m_def [symmetric] mv'_def [symmetric])
          show ?thesis
            unfolding step
            using "1.hyps"(3) [OF run g_def found m_def [folded g] refl mv'_def _ refl, unfolded Suc_eq_plus1 [symmetric]]
              go more ok mv' run m' k' kl eof ap by (auto simp: g)
        qed
      qed
    qed
  qed
qed

lemma bmapi_read_ok:
  assumes "exts_ok (fork_exts ip)" and "if_extents_read (i_df ip)"
    and "di_format (i_d ip) = FMT_EXTENTS \<or> di_format (i_d ip) = FMT_BTREE"
  shows "\<exists>ms e. xfs_bmapi_read iread l2e False ig ip bno len nmap s = Some (0, ms, ip, s) \<and>
    tiles bno ms e \<and> e \<le> bno + len \<and> length ms \<le> nmap \<and> (e = bno + len \<or> length ms = nmap) \<and>
    (\<forall>m \<in> set ms. agrees (fork_exts ip) m) \<and> holes_apart ms"
proof -
  let ?exts = "fork_exts ip" and ?k = "ext_index (fork_exts ip) bno"
  obtain got where got: "xfs_bmap_search_extents ?exts bno =
      (if ?k < length ?exts then Some (?exts ! ?k) else None, ?k = length ?exts, int ?k, got,
       if ?k > 0 then Some (?exts ! (?k - 1)) else None)"
    and gk: "?k < length ?exts \<longrightarrow> got = ?exts ! ?k"
    using search_extents_ok [OF assms(1) refl] by blast
  let ?ms = "bmapi_loop False ig ?exts bno (bno + len) nmap bno (?k = length ?exts) ?k got []"
  have r: "xfs_bmapi_read iread l2e False ig ip bno len nmap s = Some (0, ?ms, ip, s)"
    using assms(2,3) by (auto simp: xfs_bmapi_read_def with_extents_def got)
  have "\<not> ?k = length ?exts \<Longrightarrow> got = ?exts ! ?k" using gk ext_index_le [of ?exts bno] by simp
  then show ?thesis
    unfolding r using bmapi_loop_ok [OF assms(1), of bno "[]" bno nmap "bno + len" ?k "?k = length ?exts" got ig]
    by auto
qed

text \<open>
  C19: Mapping a range of a file for reading ends without error and returns mappings that tile the
  range from its first block on, without gaps or overlaps; each one says exactly where the extent list
  puts its blocks, or that they are in a hole; and the tiling stops short of the end of the range
  only when the caller's array is full.
\<close>

theorem bmapi_read_correct:
  assumes "exts_ok (fork_exts ip)" and "if_extents_read (i_df ip)"
    and "di_format (i_d ip) = FMT_EXTENTS \<or> di_format (i_d ip) = FMT_BTREE"
  shows "\<exists>ms e. xfs_bmapi_read iread l2e False ig ip bno len nmap s = Some (0, ms, ip, s) \<and>
    tiles bno ms e \<and> e \<le> bno + len \<and> length ms \<le> nmap \<and> (e = bno + len \<or> length ms = nmap) \<and>
    (\<forall>m \<in> set ms. agrees (fork_exts ip) m)"
  using bmapi_read_ok [OF assms, of iread l2e ig bno len nmap s] by auto

section \<open>What the ends of a file are\<close>

lemma last_lookup:
  assumes ok: "exts_ok exts" and ne: "exts \<noteq> []"
  shows "bmap_lookup exts (bm_end (last exts) - 1) \<noteq> None"
proof -
  let ?n = "length exts - 1"
  have n: "?n < length exts" "last exts = exts ! ?n" using ne by (simp_all add: last_conv_nth)
  have c: "0 < bm_cnt (exts ! ?n)" using exts_ok_nth(2) [OF ok n(1)] .
  have "ext_index exts (bm_end (exts ! ?n) - 1) = ?n"
  proof (rule ext_index_eqI [OF ok])
    show "?n \<le> length exts" by simp
    show "bm_end (exts ! i) \<le> bm_end (exts ! ?n) - 1" if "i < ?n" for i
      using exts_ok_nth(1) [OF ok that n(1)] c by linarith
    show "bm_end (exts ! ?n) - 1 < bm_end (exts ! ?n)" using c by linarith
  qed
  moreover have "bm_off (exts ! ?n) \<le> bm_end (exts ! ?n) - 1" using c by linarith
  ultimately show ?thesis using n(1) unfolding n(2) by (simp only: find_sorted [OF ok] Let_def) simp
qed

lemma lookup_behind:
  assumes ok: "exts_ok exts" and b: "exts = [] \<or> bm_end (last exts) \<le> b"
  shows "bmap_lookup exts b = None"
proof -
  have "ext_index exts b = length exts"
  proof (rule ext_index_eqI [OF ok])
    show "bm_end (exts ! i) \<le> b" if i: "i < length exts" for i
    proof -
      have l: "bm_end (exts ! (length exts - 1)) \<le> b" using b i by (cases "exts = []") (auto simp: last_conv_nth)
      show ?thesis
      proof (cases "i = length exts - 1")
        case False
        then have "i < length exts - 1" "length exts - 1 < length exts" using i by linarith+
        then show ?thesis using exts_ok_nth(1) [OF ok] l by (meson le_add1 order.trans)
      qed (use l in simp)
    qed
  qed simp_all
  then show ?thesis by (simp add: find_sorted [OF ok] Let_def)
qed

text \<open>The extent before the one a search finds ends at the last mapped block before the target.\<close>

lemma lookup_before:
  assumes ok: "exts_ok exts" and k: "ext_index exts b = Suc k"
  shows "bmap_lookup exts (bm_end (exts ! k) - 1) \<noteq> None"
    and "bm_end (exts ! k) \<le> c \<Longrightarrow> c \<le> b \<Longrightarrow> Suc k < length exts \<Longrightarrow> b < bm_off (exts ! Suc k) \<Longrightarrow>
      bmap_lookup exts c = None"
    and "bm_end (exts ! k) \<le> c \<Longrightarrow> Suc k = length exts \<Longrightarrow> bmap_lookup exts c = None"
proof -
  have kl: "k < length exts" using k ext_index_le [of exts b] by linarith
  have c0: "0 < bm_cnt (exts ! k)" using exts_ok_nth(2) [OF ok kl] .
  have "ext_index exts (bm_end (exts ! k) - 1) = k"
  proof (rule ext_index_eqI [OF ok])
    show "bm_end (exts ! i) \<le> bm_end (exts ! k) - 1" if "i < k" for i
      using exts_ok_nth(1) [OF ok that kl] c0 by linarith
  qed (use kl c0 in auto)
  moreover have "bm_off (exts ! k) \<le> bm_end (exts ! k) - 1" using c0 by linarith
  ultimately show "bmap_lookup exts (bm_end (exts ! k) - 1) \<noteq> None"
    using kl by (simp only: find_sorted [OF ok] Let_def) simp
  have idx: "ext_index exts c = Suc k" if "bm_end (exts ! k) \<le> c" "Suc k < length exts \<Longrightarrow> c < bm_off (exts ! Suc k)"
  proof (rule ext_index_eqI [OF ok])
    show "bm_end (exts ! i) \<le> c" if "i < Suc k" for i
      using exts_ok_nth(1) [OF ok, of i k] that kl \<open>bm_end (exts ! k) \<le> c\<close> by (cases "i = k") auto
  qed (use kl that in auto)
  show "bm_end (exts ! k) \<le> c \<Longrightarrow> c \<le> b \<Longrightarrow> Suc k < length exts \<Longrightarrow> b < bm_off (exts ! Suc k) \<Longrightarrow>
      bmap_lookup exts c = None"
    using idx by (simp add: find_sorted [OF ok] Let_def)
  show "bm_end (exts ! k) \<le> c \<Longrightarrow> Suc k = length exts \<Longrightarrow> bmap_lookup exts c = None"
    using idx by (simp add: find_sorted [OF ok] Let_def)
qed

text \<open>The block behind the last mapped one at or before \<open>b\<close>, as \<open>xfs_bmap_last_before\<close> finds it.\<close>

definition last_mapped :: "bmap list \<Rightarrow> nat \<Rightarrow> nat" where
  "last_mapped exts b = (let k = ext_index exts b in
     if k = length exts \<or> bm_off (exts ! k) > b then (if k > 0 then bm_end (exts ! (k - 1)) else 0)
     else b + 1)"

lemma last_mapped_ok:
  assumes ok: "exts_ok exts"
  shows "last_mapped exts b \<le> b + 1 \<and>
    (last_mapped exts b = 0 \<or> bmap_lookup exts (last_mapped exts b - 1) \<noteq> None) \<and>
    (\<forall>c. last_mapped exts b \<le> c \<and> c \<le> b \<longrightarrow> bmap_lookup exts c = None)"
proof -
  define k where "k = ext_index exts b"
  define r where "r = last_mapped exts b"
  have kle: "k \<le> length exts" by (simp add: k_def ext_index_le)
  have r: "r = (if k = length exts \<or> bm_off (exts ! k) > b then (if k > 0 then bm_end (exts ! (k - 1)) else 0)
     else b + 1)" by (simp add: r_def last_mapped_def k_def Let_def)
  show ?thesis
    unfolding r_def [symmetric]
  proof (cases "k = length exts \<or> bm_off (exts ! k) > b")
    case hole: True
    show "r \<le> b + 1 \<and> (r = 0 \<or> bmap_lookup exts (r - 1) \<noteq> None) \<and> (\<forall>c. r \<le> c \<and> c \<le> b \<longrightarrow> bmap_lookup exts c = None)"
    proof (cases k)
      case 0
      have "bmap_lookup exts c = None" if "c \<le> b" for c
      proof -
        have "ext_index exts c = 0"
          by (rule ext_index_eqI [OF ok])
            (use that hole 0 in \<open>auto simp: trans_less_add1\<close>)
        then show ?thesis using hole 0 that by (auto simp: find_sorted [OF ok] Let_def)
      qed
      then show ?thesis using hole 0 by (simp add: r)
    next
      case (Suc j)
      have rj: "r = bm_end (exts ! j)" using hole Suc by (simp add: r)
      have rle: "r \<le> b" unfolding rj using ext_index_before [of j exts b] Suc k_def by simp
      note lb = lookup_before [OF ok k_def [symmetric, unfolded Suc]]
      have "bmap_lookup exts c = None" if "r \<le> c" "c \<le> b" for c
        using lb(2,3) [of c] that Suc rj hole kle by (cases "k = length exts") simp_all
      then show ?thesis using rle lb(1) rj by auto
    qed
  next
    case mapped: False
    then have "k < length exts" "r = b + 1" using kle by (auto simp: r)
    then show "r \<le> b + 1 \<and> (r = 0 \<or> bmap_lookup exts (r - 1) \<noteq> None) \<and> (\<forall>c. r \<le> c \<and> c \<le> b \<longrightarrow> bmap_lookup exts c = None)"
      using mapped k_def by (auto simp: find_sorted [OF ok] Let_def)
  qed
qed

lemma last_before_ok:
  assumes ok: "exts_ok (fork_exts ip)" and rd: "if_extents_read (i_df ip)"
    and fmt: "di_format (i_d ip) = FMT_EXTENTS \<or> di_format (i_d ip) = FMT_BTREE"
    and bound: "0 < bound" "bound < 2 ^ 64"
  shows "xfs_bmap_last_before iread ip bound s = Some (0, last_mapped (fork_exts ip) (bound - 1), ip, s)"
proof -
  let ?exts = "fork_exts ip" and ?b = "bound - 1"
  define k where "k = ext_index ?exts ?b"
  have bno: "(bound + (2 ^ 64 - 1)) mod 2 ^ 64 = ?b"
  proof -
    have "bound + (2 ^ 64 - 1) = ?b + 2 ^ 64" using bound(1) by simp
    moreover have "?b < 2 ^ 64" using bound(2) by linarith
    ultimately show ?thesis by (simp only: mod_add_self2 mod_less)
  qed
  have fmt': "\<not> (di_format (i_d ip) \<noteq> FMT_BTREE \<and> di_format (i_d ip) \<noteq> FMT_EXTENTS \<and> di_format (i_d ip) \<noteq> FMT_LOCAL)"
    "di_format (i_d ip) \<noteq> FMT_LOCAL" using fmt by auto
  obtain got where got: "xfs_bmap_search_extents ?exts ?b =
      (if k < length ?exts then Some (?exts ! k) else None, k = length ?exts, int k, got,
       if k > 0 then Some (?exts ! (k - 1)) else None)"
    using search_extents_ok [OF ok k_def] by blast
  have kle: "k \<le> length ?exts" by (simp add: k_def ext_index_le)
  show ?thesis
    unfolding xfs_bmap_last_before_def bno Let_def last_mapped_def k_def [symmetric]
    using fmt' rd kle bound(1) got [unfolded One_nat_def]
    by (cases "k < length ?exts"; cases "k = 0") (auto simp: with_extents_def)
qed

text \<open>
  \<open>xfs_bmap_last_before\<close> returns the block behind the last mapped block before the bound it is given
  (the bound itself when the block before it is mapped, 0 when none is), and \<open>xfs_bmap_last_offset\<close> the
  block behind the last mapped block of the file.
\<close>

lemma last_blocks_correct:
  assumes ok: "exts_ok (fork_exts ip)" and rd: "if_extents_read (i_df ip)"
    and fmt: "di_format (i_d ip) = FMT_EXTENTS \<or> di_format (i_d ip) = FMT_BTREE"
    and bound: "0 < bound" "bound < 2 ^ 64"
  shows "\<exists>r r'. xfs_bmap_last_before iread ip bound s = Some (0, r, ip, s) \<and> r \<le> bound \<and>
      (r = 0 \<or> bmap_lookup (fork_exts ip) (r - 1) \<noteq> None) \<and>
      (\<forall>b. r \<le> b \<and> b < bound \<longrightarrow> bmap_lookup (fork_exts ip) b = None) \<and>
    xfs_bmap_last_offset iread ip s = Some (0, r', ip, s) \<and>
      (r' = 0 \<or> bmap_lookup (fork_exts ip) (r' - 1) \<noteq> None) \<and>
      (\<forall>b \<ge> r'. bmap_lookup (fork_exts ip) b = None)"
proof -
  let ?exts = "fork_exts ip"
  define r' where "r' = (if ?exts = [] then 0 else bm_end (last ?exts))"
  have last: "xfs_bmap_last_offset iread ip s = Some (0, r', ip, s)"
    using fmt rd by (auto simp: xfs_bmap_last_offset_def with_extents_def r'_def)
  have spec': "(r' = 0 \<or> bmap_lookup ?exts (r' - 1) \<noteq> None) \<and> (\<forall>b \<ge> r'. bmap_lookup ?exts b = None)"
    using last_lookup [OF ok] lookup_behind [OF ok] by (auto simp: r'_def)
  show ?thesis
    using last_before_ok [OF assms] last spec' last_mapped_ok [OF ok, of "bound - 1"] bound(1)
    by (intro exI [of _ "last_mapped ?exts (bound - 1)"] exI [of _ r']) auto
qed

text \<open>
  The gap \<open>xfs_bmap_first_unused\<close> finds: every extent ends before it or starts behind it, and every
  lower candidate is in the way of some extent.
\<close>

lemma first_unused_loop_ok:
  assumes "exts_ok (pre @ es)" and "0 < len" and "lowest \<le> mx" and "\<forall>e \<in> set pre. bm_end e \<le> mx"
    and "mx = lowest \<or> (\<exists>e \<in> set pre. mx = bm_end e)"
    and "\<forall>b. lowest \<le> b \<and> b < mx \<longrightarrow> (\<exists>e \<in> set (pre @ es). b < bm_end e \<and> bm_off e < b + len)"
  shows "lowest \<le> first_unused_loop lowest len es mx \<and>
    (\<forall>e \<in> set (pre @ es). bm_end e \<le> first_unused_loop lowest len es mx \<or>
      first_unused_loop lowest len es mx + len \<le> bm_off e) \<and>
    (\<forall>b. lowest \<le> b \<and> b < first_unused_loop lowest len es mx \<longrightarrow>
      (\<exists>e \<in> set (pre @ es). b < bm_end e \<and> bm_off e < b + len))"
  using assms
proof (induction es arbitrary: pre mx)
  case (Cons e es)
  have order: "\<forall>x \<in> set pre. bm_end x \<le> bm_off e" "\<forall>x \<in> set es. bm_end e \<le> bm_off x" "0 < bm_cnt e"
    using Cons.prems(1) by (auto simp: exts_ok_def sorted_wrt_append)
  show ?case
  proof (cases "bm_off e \<ge> lowest + len \<and> bm_off e - mx \<ge> len")
    case True
    then have "mx + len \<le> bm_off e" using Cons.prems(2) by linarith
    then show ?thesis using True Cons.prems order by fastforce
  next
    case False
    have "lowest \<le> max (bm_end e) lowest" by simp
    moreover have "\<forall>x \<in> set (pre @ [e]). bm_end x \<le> max (bm_end e) lowest"
      using order by fastforce
    moreover have "max (bm_end e) lowest = lowest \<or> (\<exists>x \<in> set (pre @ [e]). max (bm_end e) lowest = bm_end x)"
      by (auto simp: max_def)
    moreover have "\<forall>b. lowest \<le> b \<and> b < max (bm_end e) lowest \<longrightarrow>
        (\<exists>x \<in> set ((pre @ [e]) @ es). b < bm_end x \<and> bm_off x < b + len)"
    proof (intro allI impI)
      fix b assume b: "lowest \<le> b \<and> b < max (bm_end e) lowest"
      show "\<exists>x \<in> set ((pre @ [e]) @ es). b < bm_end x \<and> bm_off x < b + len"
      proof (cases "b < mx")
        case True then show ?thesis using Cons.prems(6) b by auto
      next
        case far: False
        have "bm_off e < b + len" using False far b by linarith
        moreover have "b < bm_end e" using b by linarith
        ultimately show ?thesis by auto
      qed
    qed
    ultimately show ?thesis
      using Cons.IH [of "pre @ [e]" "max (bm_end e) lowest"] Cons.prems(1,2) False by auto
  qed
qed auto

text \<open>
  The offset \<open>xfs_bmap_first_unused\<close> returns is the least one, from the given lower bound on, at
  which a run of \<open>len\<close> blocks meets no extent of the file.
\<close>

lemma first_unused_correct:
  assumes "exts_ok (fork_exts ip)" and "if_extents_read (i_df ip)" and "di_format (i_d ip) \<noteq> FMT_LOCAL" and "0 < len"
  shows "xfs_bmap_first_unused iread ip len lowest s =
    Some (0, LEAST r. lowest \<le> r \<and> (\<forall>e \<in> set (fork_exts ip). bm_end e \<le> r \<or> r + len \<le> bm_off e), ip, s)"
proof -
  let ?r = "first_unused_loop lowest len (fork_exts ip) lowest"
  have r: "lowest \<le> ?r" "\<forall>e \<in> set (fork_exts ip). bm_end e \<le> ?r \<or> ?r + len \<le> bm_off e"
    "\<forall>b. lowest \<le> b \<and> b < ?r \<longrightarrow> (\<exists>e \<in> set (fork_exts ip). b < bm_end e \<and> bm_off e < b + len)"
    using first_unused_loop_ok [of "[]" "fork_exts ip" len lowest lowest] assms
    by (simp_all only: append_Nil set_empty not_less [symmetric] ball_empty order.refl simp_thms) auto
  have "(LEAST r. lowest \<le> r \<and> (\<forall>e \<in> set (fork_exts ip). bm_end e \<le> r \<or> r + len \<le> bm_off e)) = ?r"
    by (rule Least_equality) (use r in \<open>auto simp: not_less [symmetric] dest: leD\<close>)
  then show ?thesis using assms(2,3) by (simp add: xfs_bmap_first_unused_def with_extents_def)
qed

section \<open>A sample file\<close>

text \<open>A file of five blocks: blocks 0 and 1 at block 100, 5 to 7 at block 200.\<close>

definition sample_rec :: "nat \<Rightarrow> nat \<Rightarrow> nat \<Rightarrow> bmbt_rec" where
  "sample_rec off blk cnt = xfs_bmbt_set_all \<lparr> br_startoff = of_nat off, br_startblock = of_nat blk,
     br_blockcount = of_nat cnt, br_state = XFS_EXT_NORM \<rparr>"

definition sample_mapped :: xfs_inode where
  "sample_mapped = (let ip = sample_inode 0x81A4 FMT_EXTENTS [] in
     ip \<lparr> i_df := (i_df ip) \<lparr> if_extents_read := True, if_extents := [sample_rec 0 100 2, sample_rec 5 200 3] \<rparr> \<rparr>)"

lemma bmap_of_sample:
  assumes "off < 2 ^ 54" "blk < 2 ^ 52" "cnt < 2 ^ 21"
  shows "bmap_of (sample_rec off blk cnt) =
    \<lparr> bm_off = off, bm_blk = blk, bm_cnt = cnt, bm_state = XFS_EXT_NORM \<rparr>"
proof -
  let ?i = "\<lparr> br_startoff = of_nat off, br_startblock = of_nat blk, br_blockcount = of_nat cnt,
    br_state = XFS_EXT_NORM \<rparr>"
  have n: "unat (of_nat off :: u64) = off" "unat (of_nat blk :: u64) = blk" "unat (of_nat cnt :: u64) = cnt"
    using assms by (simp_all add: unat_of_nat take_bit_nat_eq_self)
  have "irec_fits ?i" using assms n by (simp add: irec_fits_def word_less_nat_alt)
  then show ?thesis by (simp add: bmap_of_def sample_rec_def get_set_all n Let_def)
qed

lemma not_nullstartblock: "n < 2 ^ 17 \<Longrightarrow> \<not> isnullstartblock n"
proof
  assume n: "n < 2 ^ 17" and "isnullstartblock n"
  moreover have "int (n AND STARTBLOCKMASK) \<le> int n"
    using AND_upper1 [of "int n" "int STARTBLOCKMASK"] by (simp only: of_nat_and_eq of_nat_0_le_iff simp_thms)
  ultimately have "STARTBLOCKMASK \<le> n" unfolding isnullstartblock_def by linarith
  then show False using n by (simp add: STARTBLOCKMASK_def)
qed

lemma sample_mapped_ok:
  "fork_exts sample_mapped = [\<lparr> bm_off = 0, bm_blk = 100, bm_cnt = 2, bm_state = XFS_EXT_NORM \<rparr>,
     \<lparr> bm_off = 5, bm_blk = 200, bm_cnt = 3, bm_state = XFS_EXT_NORM \<rparr>]"
  "exts_ok (fork_exts sample_mapped)" "if_extents_read (i_df sample_mapped)" "di_format (i_d sample_mapped) = FMT_EXTENTS"
proof -
  show exts: "fork_exts sample_mapped = [\<lparr> bm_off = 0, bm_blk = 100, bm_cnt = 2, bm_state = XFS_EXT_NORM \<rparr>,
     \<lparr> bm_off = 5, bm_blk = 200, bm_cnt = 3, bm_state = XFS_EXT_NORM \<rparr>]"
    by (simp add: fork_exts_def sample_mapped_def Let_def bmap_of_sample)
  show "exts_ok (fork_exts sample_mapped)"
    unfolding exts by (simp add: exts_ok_def not_nullstartblock)
qed (simp_all add: sample_mapped_def Let_def)

theorem bno_to_ext_correct_witness:
  "xfs_iext_bno_to_ext (fork_exts sample_mapped) 3 =
    (Some \<lparr> bm_off = 5, bm_blk = 200, bm_cnt = 3, bm_state = XFS_EXT_NORM \<rparr>, 1)"
  using bno_to_ext_correct [OF sample_mapped_ok(2), of 3] by (simp add: sample_mapped_ok(1))

theorem bmapi_read_correct_witness:
  "\<exists>ms e. xfs_bmapi_read (\<lambda>ip s. Some (5, ip, s)) (\<lambda>ip s. Some (5, ip, s)) False False sample_mapped 1 6 4 () =
     Some (0, ms, sample_mapped, ()) \<and> tiles 1 ms e \<and> (e = 7 \<or> length ms = 4)"
  using bmapi_read_correct [OF sample_mapped_ok(2,3) disjI1 [OF sample_mapped_ok(4)],
      of "\<lambda>ip s. Some (5, ip, s)" "\<lambda>ip s. Some (5, ip, s)" False 1 6 4 "()"]
  by auto

end
