(* ===== verification/Da_Buf.thy ===== *)
theory Da_Buf
  imports Bmap_Read
begin

text \<open>
  Buffers of directory blocks (libxfs/xfs_da_btree.c): finding the file system blocks of a directory
  block, reading them through the buffer cache, joining them when they are not contiguous, and the check
  of the magic number. The functions are the ones the readers use: \<open>xfs_da_do_buf\<close> for the callers
  \<open>xfs_da_read_buf\<close> and \<open>xfs_da_reada_buf\<close>, on the data fork and without a transaction; there is no
  writer, so a joined buffer is never dirty. \<open>None\<close> is an access through a NULL pointer or outside a
  buffer.
\<close>

section \<open>The blocks of a directory block\<close>

text \<open>\<open>xfs_da_map_covers_blocks\<close>: the mappings are blocks without holes, one after the other, and cover it all.\<close>

fun covers_loop :: "bmap list \<Rightarrow> nat \<Rightarrow> nat option" where
  "covers_loop [] off = Some off"
| "covers_loop (m # ms) off =
     (if bm_blk m = HOLESTARTBLOCK \<or> bm_blk m = DELAYSTARTBLOCK then None
      else if off \<noteq> bm_off m then None
      else covers_loop ms (off + bm_cnt m))"

definition xfs_da_map_covers_blocks :: "bmap list \<Rightarrow> nat \<Rightarrow> nat \<Rightarrow> bool" where
  "xfs_da_map_covers_blocks mapp bno count = (covers_loop mapp bno = Some (bno + count))"

text \<open>
  The first half of \<open>xfs_da_do_buf\<close>: the mapping of the block, from the extent list when the caller has
  none. An error of \<open>xfs_bmapi_single\<close> or \<open>xfs_bmapi\<close> is returned.
\<close>

definition da_mapping ::
    "'s inode_reader \<Rightarrow> 's inode_reader \<Rightarrow>
      xfs_mount \<Rightarrow> xfs_inode \<Rightarrow> nat \<Rightarrow> int \<Rightarrow> 's \<Rightarrow> (int \<times> bmap list \<times> xfs_inode \<times> 's) option" where
  "da_mapping iread l2e mp dp bno mappedbno s =
    (let nfsb = m_dirblkfsbs mp in
     if mappedbno = - 1 \<or> mappedbno = - 2 then
       if nfsb = 1 then
         do {
           (error, fsb, dp, s) \<leftarrow> xfs_bmapi_single iread dp bno s;
           Some (error, if error \<noteq> 0 \<or> fsb = NULLFSBLOCK then []
               else [\<lparr> bm_off = bno, bm_blk = fsb, bm_cnt = 1, bm_state = XFS_EXT_NORM \<rparr>], dp, s) }
       else xfs_bmapi_read iread l2e False False dp bno nfsb nfsb s
     else Some (0, [\<lparr> bm_off = bno, bm_blk = nat (XFS_DADDR_TO_FSB mp mappedbno), bm_cnt = nfsb,
            bm_state = XFS_EXT_NORM \<rparr>], dp, s))"

section \<open>Joined buffers\<close>

record 'b dabuf =
  bps :: "'b list"
  bbcount :: nat
  da_data :: bytes

definition BTOBB :: "nat \<Rightarrow> nat" where
  "BTOBB bytes = (bytes + 511) div 512"

text \<open>
  \<open>xfs_da_buf_make\<close>: one buffer is used in place, several are copied one behind the other. A buffer's
  bytes stay what they are until it is released, so the model keeps them in both cases.
\<close>

definition xfs_da_buf_make :: "('b, 's) buf_ops \<Rightarrow> 'b list \<Rightarrow> 's \<Rightarrow> 'b dabuf" where
  "xfs_da_buf_make ops bs s = \<lparr> bps = bs, bbcount = sum_list (map (\<lambda>b. BTOBB (length (op_b_addr ops s b))) bs),
     da_data = concat (map (op_b_addr ops s) bs) \<rparr>"

text \<open>\<open>xfs_da_brelse\<close> gives back every buffer; \<open>libxfs_trans_brelse\<close> without transaction is \<open>libxfs_putbuf\<close>.\<close>

definition xfs_da_brelse :: "('b, 's) buf_ops \<Rightarrow> 'b dabuf \<Rightarrow> 's \<Rightarrow> 's" where
  "xfs_da_brelse ops bp s = fold (op_putbuf ops) (bps bp) s"

text \<open>
  Reading the buffers of the mapping. Without a transaction \<open>libxfs_trans_read_buf\<close> returns no error when
  \<open>libxfs_readbuf\<close> fails, only a NULL buffer, and the loop goes on.
\<close>

fun da_read_bufs :: "('b, 's) buf_ops \<Rightarrow> xfs_mount \<Rightarrow> bmap list \<Rightarrow> 's \<Rightarrow> 'b list \<times> 's" where
  "da_read_bufs ops mp [] s = ([], s)"
| "da_read_bufs ops mp (m # ms) s =
     (let (b, s) = op_readbuf ops (XFS_FSB_TO_DADDR mp (int (bm_blk m))) (XFS_FSB_TO_BB mp (int (bm_cnt m))) s;
          (bs, s) = da_read_bufs ops mp ms s
      in (case b of None \<Rightarrow> bs | Some bp \<Rightarrow> bp # bs, s))"

text \<open>The magic numbers \<open>xfs_da_do_buf\<close> accepts: of \<open>xfs_da_blkinfo\<close> at offset 8, of data and free blocks at 0.\<close>

definition da_magics16 :: "nat list" where
  "da_magics16 = [0xfebe, 0xfbee, 0xd2f1, 0xd2ff, 0x3bee, 0x3df1, 0x3dff]"

definition da_magics32 :: "nat list" where
  "da_magics32 = [0x58443242, 0x58444233, 0x58443244, 0x58444433, 0x58444633, 0x58443246]"

definition da_magic_ok :: "bytes \<Rightarrow> bool option" where
  "da_magic_ok d = do {
     magic \<leftarrow> rd_be16 8 d;
     magic1 \<leftarrow> rd_be32 0 d;
     Some (magic \<in> set da_magics16 \<or> magic1 \<in> set da_magics32) }"

text \<open>
  \<open>xfs_da_do_buf\<close> for \<open>xfs_da_read_buf\<close> (\<open>reada\<close> is off) and \<open>xfs_da_reada_buf\<close>, where \<open>xfs_baread\<close> does
  nothing: error, buffer, inode and state. With a mapping of several extents the buffers that could be read
  are joined; with one, an unreadable block leaves \<open>rbp\<close> NULL, and the check of the magic number reads
  through it.
\<close>

definition xfs_da_do_buf ::
    "('b, 's) buf_ops \<Rightarrow> 's inode_reader \<Rightarrow> 's inode_reader \<Rightarrow>
      xfs_mount \<Rightarrow> xfs_inode \<Rightarrow> nat \<Rightarrow> int \<Rightarrow> bool \<Rightarrow> 's \<Rightarrow> (int \<times> 'b dabuf option \<times> xfs_inode \<times> 's) option" where
  "xfs_da_do_buf ops iread l2e mp dp bno mappedbno reada s =
    do {
       (error, mapp, dp, s) \<leftarrow> da_mapping iread l2e mp dp bno mappedbno s;
       if error \<noteq> 0 then Some (error, None, dp, s)
       else if \<not> xfs_da_map_covers_blocks mapp bno (m_dirblkfsbs mp)
         then Some (if mappedbno = - 2 then 0 else errno_code EFSCORRUPTED, None, dp, s)
       else if reada then Some (0, None, dp, s)
       else let (bs, s) = da_read_bufs ops mp mapp s in
         if bs = [] \<and> length mapp \<le> 1 then None
         else do {
           let rbp = xfs_da_buf_make ops bs s;
           ok \<leftarrow> da_magic_ok (da_data rbp);
           if ok then Some (0, Some rbp, dp, s)
           else Some (errno_code EFSCORRUPTED, None, dp, xfs_da_brelse ops rbp s) } }"

definition xfs_da_read_buf ::
    "('b, 's) buf_ops \<Rightarrow> 's inode_reader \<Rightarrow> 's inode_reader \<Rightarrow>
      xfs_mount \<Rightarrow> xfs_inode \<Rightarrow> nat \<Rightarrow> int \<Rightarrow> 's \<Rightarrow> (int \<times> 'b dabuf option \<times> xfs_inode \<times> 's) option" where
  "xfs_da_read_buf ops iread l2e mp dp bno mappedbno s = xfs_da_do_buf ops iread l2e mp dp bno mappedbno False s"

text \<open>\<open>xfs_da_reada_buf\<close>, whose result its callers drop.\<close>

definition xfs_da_reada_buf ::
    "('b, 's) buf_ops \<Rightarrow> 's inode_reader \<Rightarrow> 's inode_reader \<Rightarrow>
      xfs_mount \<Rightarrow> xfs_inode \<Rightarrow> nat \<Rightarrow> 's \<Rightarrow> (xfs_inode \<times> 's) option" where
  "xfs_da_reada_buf ops iread l2e mp dp bno s =
     map_option (\<lambda>(_, _, dp, s). (dp, s)) (xfs_da_do_buf ops iread l2e mp dp bno (- 1) True s)"

section \<open>Blocks of one file system block\<close>

text \<open>
  When a directory block is one file system block, reading it takes one buffer, and the contents are
  what the device holds at the address the extent list gives.
\<close>

definition dir_daddr :: "xfs_mount \<Rightarrow> xfs_inode \<Rightarrow> nat \<Rightarrow> int option" where
  "dir_daddr mp dp bno = map_option (\<lambda>b. XFS_FSB_TO_DADDR mp (int b)) (bmap_lookup (fork_exts dp) bno)"

definition dir_ready :: "xfs_mount \<Rightarrow> xfs_inode \<Rightarrow> bool" where
  "dir_ready mp dp \<longleftrightarrow> m_dirblkfsbs mp = 1 \<and> exts_ok (fork_exts dp) \<and> if_extents_read (i_df dp) \<and>
     (di_format (i_d dp) = FMT_EXTENTS \<or> di_format (i_d dp) = FMT_BTREE)"

lemma bmap_lookup_bound:
  assumes "exts_ok exts" "bmap_lookup exts b = Some x"
  shows "x < 2 ^ 52"
proof -
  obtain e where e: "find (\<lambda>e. bm_off e \<le> b \<and> b < bm_end e) exts = Some e" "x = bm_blk e + (b - bm_off e)"
    using assms(2) by (auto simp: bmap_lookup_def)
  then have "e \<in> set exts" "bm_off e \<le> b" "b < bm_end e" by (auto simp: find_Some_iff)
  then show ?thesis using exts_okD(3) [OF assms(1)] e(2) by fastforce
qed

lemma da_mapping_single:
  assumes r: "dir_ready mp dp"
  shows "da_mapping iread l2e mp dp bno (- 1) s = Some (0, (case bmap_lookup (fork_exts dp) bno of None \<Rightarrow> []
     | Some b \<Rightarrow> [\<lparr> bm_off = bno, bm_blk = b, bm_cnt = 1, bm_state = XFS_EXT_NORM \<rparr>]), dp, s)"
proof -
  have "xfs_bmapi_single iread dp bno s = Some (0, case bmap_lookup (fork_exts dp) bno of Some b \<Rightarrow> b | None \<Rightarrow> NULLFSBLOCK, dp, s)"
    by (rule bmapi_single_ok) (use r in \<open>auto simp: dir_ready_def\<close>)
  moreover have "x \<noteq> NULLFSBLOCK" if "bmap_lookup (fork_exts dp) bno = Some x" for x
    using bmap_lookup_bound [OF _ that] r by (auto simp: dir_ready_def NULLFSBLOCK_def)
  ultimately show ?thesis using r by (auto simp: da_mapping_def dir_ready_def split: option.split)
qed

lemma covers_single:
  "b \<noteq> HOLESTARTBLOCK \<Longrightarrow> b \<noteq> DELAYSTARTBLOCK \<Longrightarrow>
    xfs_da_map_covers_blocks [\<lparr> bm_off = bno, bm_blk = b, bm_cnt = n, bm_state = st \<rparr>] bno n"
  by (simp add: xfs_da_map_covers_blocks_def)

lemma da_buf_single [simp]:
  "da_data (xfs_da_buf_make ops [bp] s) = op_b_addr ops s bp"
  "xfs_da_brelse ops (xfs_da_buf_make ops [bp] s) t = op_putbuf ops bp t"
  by (simp_all add: xfs_da_buf_make_def xfs_da_brelse_def)

lemma da_read_buf_single:
  assumes r: "dir_ready mp dp" and a: "dir_daddr mp dp bno = Some blk"
  shows "xfs_da_read_buf ops iread l2e mp dp bno (- 1) s =
    (case op_readbuf ops blk (XFS_FSB_TO_BB mp 1) s of
       (None, s') \<Rightarrow> None
     | (Some bp, s') \<Rightarrow> do {
         ok \<leftarrow> da_magic_ok (op_b_addr ops s' bp);
         Some (if ok then (0, Some (xfs_da_buf_make ops [bp] s'), dp, s')
           else (errno_code EFSCORRUPTED, None, dp, op_putbuf ops bp s')) })"
proof -
  obtain b where b: "bmap_lookup (fork_exts dp) bno = Some b" "blk = XFS_FSB_TO_DADDR mp (int b)"
    using a by (auto simp: dir_daddr_def)
  have "b < 2 ^ 52" using bmap_lookup_bound [OF _ b(1)] r by (simp add: dir_ready_def)
  then have c: "b \<noteq> HOLESTARTBLOCK" "b \<noteq> DELAYSTARTBLOCK" by (simp_all add: HOLESTARTBLOCK_def DELAYSTARTBLOCK_def)
  show ?thesis
    using da_mapping_single [OF r, of iread l2e bno s] b covers_single [OF c] r
    by (auto simp: xfs_da_read_buf_def xfs_da_do_buf_def Let_def dir_ready_def
        split: prod.split option.split Option.bind_split)
qed

lemma da_read_hole:
  assumes r: "dir_ready mp dp" and a: "dir_daddr mp dp bno = None"
  shows "xfs_da_read_buf ops iread l2e mp dp bno (- 1) s = Some (errno_code EFSCORRUPTED, None, dp, s)"
  using da_mapping_single [OF r, of iread l2e bno s] a r
  by (simp add: xfs_da_read_buf_def xfs_da_do_buf_def dir_daddr_def xfs_da_map_covers_blocks_def dir_ready_def)

context buf_store
begin

lemma da_read_single:
  assumes "dir_ready mp dp" and "inv s" and "dir_daddr mp dp bno = Some blk"
    and "dev blk (XFS_FSB_TO_BB mp 1) = Some d" and "da_magic_ok d = Some True"
  shows "\<exists>rbp s'. xfs_da_read_buf ops iread l2e mp dp bno (- 1) s = Some (0, Some rbp, dp, s') \<and>
    da_data rbp = d \<and> inv (xfs_da_brelse ops rbp s')"
  using read_ok [OF assms(2,4)] assms(5)
  by (auto simp: da_read_buf_single [OF assms(1,3)])

text \<open>The other outcomes: a block of another kind, an unreadable one.\<close>

lemma da_read_bad_magic:
  assumes "dir_ready mp dp" and "inv s" and "dir_daddr mp dp bno = Some blk"
    and "dev blk (XFS_FSB_TO_BB mp 1) = Some d" and "da_magic_ok d = Some False"
  shows "\<exists>s'. xfs_da_read_buf ops iread l2e mp dp bno (- 1) s = Some (errno_code EFSCORRUPTED, None, dp, s') \<and> inv s'"
  using read_ok [OF assms(2,4)] assms(5)
  by (auto simp: da_read_buf_single [OF assms(1,3)])

lemma da_read_unreadable:
  assumes "dir_ready mp dp" and "inv s" and "dir_daddr mp dp bno = Some blk"
    and "dev blk (XFS_FSB_TO_BB mp 1) = None"
  shows "xfs_da_read_buf ops iread l2e mp dp bno (- 1) s = None"
  using read_fail [OF assms(2,4)] by (auto simp: da_read_buf_single [OF assms(1,3)])

end

end
