(* ===== verification/Dir2_Readdir.thy ===== *)
theory Dir2_Readdir
  imports Dir2_Data File_Read
begin

text \<open>
  Reading directories (src/xfsutil/xfsutil.c): the callback \<open>filldir_t\<close>, the stream of entries a
  \<open>getdents\<close> function must deliver, and \<open>xfs_dir2_sf_getdents\<close>. The offset a caller passes and gets
  back is a cookie; the locale \<open>dir_stream\<close> is the contract of all \<open>getdents\<close> functions and proves
  once that a caller who resumes from the returned cookie sees every entry exactly once.
\<close>

section \<open>The callback and the stream of entries\<close>

text \<open>
  \<open>filldir\<close> gets its private state, a name, the cookie, the inode number and the type; it answers
  whether the entry did \<^emph>\<open>not\<close> fit (a non-zero result stops the caller).
\<close>

type_synonym 'd filldir = "'d \<Rightarrow> bytes \<Rightarrow> int \<Rightarrow> nat \<Rightarrow> nat \<Rightarrow> bool \<times> 'd"

definition DT_UNKNOWN :: nat where "DT_UNKNOWN = 0"
definition DT_DIR :: nat where "DT_DIR = 4"

text \<open>The cookie handed out: the low 31 bits.\<close>

definition cookie31 :: "int \<Rightarrow> int" where
  "cookie31 off = off AND 0x7fffffff"

lemma cookie31_id [simp]: "0 \<le> c \<Longrightarrow> c < 2 ^ 31 \<Longrightarrow> cookie31 c = c"
proof -
  assume "0 \<le> c" "c < 2 ^ 31"
  then have "take_bit 31 c = c" by (simp add: take_bit_int_eq_self)
  moreover have "mask 31 = (0x7fffffff :: int)" by (simp add: mask_eq_exp_minus_1)
  ultimately show ?thesis by (simp add: cookie31_def take_bit_eq_mask)
qed

record dirent =
  de_name :: bytes
  de_cookie :: int
  de_ino :: nat
  de_type :: nat

lemma dirent_eta [simp]:
  "\<lparr> de_name = de_name e, de_cookie = de_cookie e, de_ino = de_ino e, de_type = de_type e \<rparr> = e"
  by simp

text \<open>
  Delivering entries until one does not fit: the cookie of that entry, or \<open>None\<close> when all fitted.
\<close>

fun emit :: "'d filldir \<Rightarrow> dirent list \<Rightarrow> 'd \<Rightarrow> int option \<times> 'd" where
  "emit f [] s = (None, s)"
| "emit f (e # es) s =
     (let (full, s') = f s (de_name e) (cookie31 (de_cookie e)) (de_ino e) (de_type e) in
      if full then (Some (cookie31 (de_cookie e)), s') else emit f es s')"

text \<open>What a call from cookie \<open>off\<close> must return: status, next cookie, state of the callback.\<close>

definition stream_from :: "dirent list \<Rightarrow> int \<Rightarrow> 'd filldir \<Rightarrow> int \<Rightarrow> 'd \<Rightarrow> int \<times> int \<times> 'd" where
  "stream_from es end_cookie f off s =
     (case emit f (filter (\<lambda>e. off \<le> de_cookie e) es) s of
        (None, s') \<Rightarrow> (0, end_cookie, s')
      | (Some c, s') \<Rightarrow> (0, c, s'))"

lemma emit_append:
  "emit f (xs @ ys) s = (case emit f xs s of (None, s') \<Rightarrow> emit f ys s' | r \<Rightarrow> r)"
  by (induction xs arbitrary: s) (auto split: prod.split)

text \<open>A callback with room for \<open>k\<close> entries that keeps what it gets.\<close>

definition fill_bounded :: "nat \<Rightarrow> dirent list filldir" where
  "fill_bounded k s nm off ino ty =
     (if length s < k
      then (False, s @ [\<lparr> de_name = nm, de_cookie = off, de_ino = ino, de_type = ty \<rparr>])
      else (True, s))"

text \<open>
  A caller that reads with an empty buffer of \<open>k\<close> entries again and again, each time from the cookie
  returned last, until a call brings nothing; \<open>None\<close> when a call fails or the fuel runs out. \<open>w\<close> is the
  state the calls thread: the inode and the buffer cache.
\<close>

fun read_chunks ::
    "(dirent list filldir \<Rightarrow> int \<Rightarrow> dirent list \<Rightarrow> 'w \<Rightarrow> (int \<times> int \<times> dirent list \<times> 'w) option) \<Rightarrow>
     nat \<Rightarrow> nat \<Rightarrow> int \<Rightarrow> 'w \<Rightarrow> (dirent list \<times> 'w) option"
where
  "read_chunks getdents k 0 off w = None"
| "read_chunks getdents k (Suc fuel) off w =
     (case getdents (fill_bounded k) off [] w of
        Some (rv, off', got, w') \<Rightarrow>
          if rv \<noteq> 0 then None
          else if got = [] then Some ([], w')
          else map_option (\<lambda>(more, w''). (got @ more, w'')) (read_chunks getdents k fuel off' w')
      | None \<Rightarrow> None)"

text \<open>A function that needs no such state.\<close>

definition stateless ::
    "('f \<Rightarrow> int \<Rightarrow> 'd \<Rightarrow> (int \<times> int \<times> 'd) option) \<Rightarrow> 'f \<Rightarrow> int \<Rightarrow> 'd \<Rightarrow> unit \<Rightarrow> (int \<times> int \<times> 'd \<times> unit) option" where
  "stateless g f off s w = map_option (\<lambda>(rv, c, t). (rv, c, t, w)) (g f off s)"

definition cookies_ok :: "dirent list \<Rightarrow> int \<Rightarrow> bool" where
  "cookies_ok es end_cookie \<longleftrightarrow>
     sorted_wrt (\<lambda>a b. de_cookie a < de_cookie b) es \<and>
     list_all (\<lambda>e. 0 \<le> de_cookie e \<and> de_cookie e < end_cookie) es \<and>
     0 \<le> end_cookie \<and> end_cookie < 2 ^ 31"

lemma cookies_okD:
  "cookies_ok (e # es) c \<Longrightarrow> cookies_ok es c"
  "cookies_ok (e # es) c \<Longrightarrow> cookie31 (de_cookie e) = de_cookie e"
  "cookies_ok (e # es) c \<Longrightarrow> 0 \<le> de_cookie e"
  "cookies_ok (e # es) c \<Longrightarrow> x \<in> set es \<Longrightarrow> de_cookie e < de_cookie x"
  by (auto simp: cookies_ok_def)

lemma emit_bounded:
  assumes "cookies_ok es c" and "length s \<le> k"
  shows "emit (fill_bounded k) es s =
    (if length s + length es \<le> k then (None, s @ es)
     else (Some (de_cookie (es ! (k - length s))), s @ take (k - length s) es))"
  using assms
proof (induction es arbitrary: s)
  case Nil
  then show ?case by simp
next
  case (Cons e es)
  note c = cookies_okD [OF Cons.prems(1)]
  show ?case
  proof (cases "length s < k")
    case True
    then have "emit (fill_bounded k) (e # es) s = emit (fill_bounded k) es (s @ [e])"
      by (simp add: fill_bounded_def c)
    moreover have "k - length s = Suc (k - length (s @ [e]))" using True by simp
    ultimately show ?thesis using Cons.IH [OF c(1), of "s @ [e]"] True by simp
  next
    case False
    then show ?thesis using Cons.prems(2) by (simp add: fill_bounded_def c)
  qed
qed

text \<open>The entries from the one with a given cookie on.\<close>

lemma filter_from_nth:
  assumes "cookies_ok es c" and "i < length es"
  shows "filter (\<lambda>e. de_cookie (es ! i) \<le> de_cookie e) es = drop i es"
  using assms
proof (induction es arbitrary: i)
  case Nil
  then show ?case by simp
next
  case (Cons e es)
  note c = cookies_okD [OF Cons.prems(1)]
  show ?case
  proof (cases i)
    case 0
    have "filter (\<lambda>x. de_cookie e \<le> de_cookie x) es = es"
      using c(4) by (auto intro!: filter_True less_imp_le)
    then show ?thesis using 0 by simp
  next
    case (Suc j)
    then have "de_cookie e < de_cookie (es ! j)" using c(4) Cons.prems(2) by auto
    then show ?thesis using Cons.IH [OF c(1), of j] Cons.prems(2) Suc by simp
  qed
qed

text \<open>The result of a call that delivers what it must and ends in a given state.\<close>

definition delivers :: "int \<times> int \<times> 'd \<Rightarrow> 'w \<Rightarrow> int \<times> int \<times> 'd \<times> 'w" where
  "delivers r w = (case r of (rv, c, t) \<Rightarrow> (rv, c, t, w))"

text \<open>
  The contract; \<open>'x\<close> is what identifies a directory, \<open>valid\<close> what it and the state must satisfy, and
  every call must preserve.
\<close>

locale dir_stream =
  fixes getdents :: "'x \<Rightarrow> dirent list filldir \<Rightarrow> int \<Rightarrow> dirent list \<Rightarrow> 'w \<Rightarrow>
      (int \<times> int \<times> dirent list \<times> 'w) option"
    and valid :: "'x \<Rightarrow> 'w \<Rightarrow> bool"
    and entries :: "'x \<Rightarrow> dirent list" and end_cookie :: "'x \<Rightarrow> int"
  assumes cookies: "valid x w \<Longrightarrow> cookies_ok (entries x) (end_cookie x)"
    and get: "valid x w \<Longrightarrow> 0 \<le> off \<Longrightarrow> off < end_cookie x \<Longrightarrow>
      \<exists>w'. valid x w' \<and> getdents x f off s w = Some (delivers (stream_from (entries x) (end_cookie x) f off s) w')"
    and at_end: "valid x w \<Longrightarrow>
      \<exists>w'. valid x w' \<and> getdents x f (end_cookie x) s w = Some (0, end_cookie x, s, w')"
    and not_empty: "valid x w \<Longrightarrow> 0 < end_cookie x"
begin

text \<open>One call from an entry delivers the next \<open>k\<close> entries.\<close>

lemma chunk_at:
  assumes v: "valid x w" and "i < length (entries x)" and "0 < k"
  shows "\<exists>w'. valid x w' \<and> getdents x (fill_bounded k) (de_cookie (entries x ! i)) [] w =
    Some (0, if i + k < length (entries x) then de_cookie (entries x ! (i + k)) else end_cookie x,
          take k (drop i (entries x)), w')"
proof -
  have b: "0 \<le> de_cookie (entries x ! i)" "de_cookie (entries x ! i) < end_cookie x"
    using cookies [OF v] assms(2) by (auto simp: cookies_ok_def list_all_length)
  have "cookies_ok (drop i (entries x)) (end_cookie x)"
    using cookies [OF v] set_drop_subset [of i "entries x"]
    by (auto simp: cookies_ok_def sorted_wrt_drop list_all_iff)
  then have "stream_from (entries x) (end_cookie x) (fill_bounded k) (de_cookie (entries x ! i)) [] =
      (0, if i + k < length (entries x) then de_cookie (entries x ! (i + k)) else end_cookie x,
        take k (drop i (entries x)))"
    using assms emit_bounded [of "drop i (entries x)" "end_cookie x" "[]" k]
    by (auto simp: stream_from_def filter_from_nth [OF cookies [OF v] assms(2)])
  then show ?thesis
    using get [OF v b, of "fill_bounded k" "[]"] by (auto simp: delivers_def)
qed

text \<open>Reading on from entry \<open>i\<close> delivers exactly the remaining entries and ends.\<close>

lemma read_on:
  assumes "0 < k"
  shows "valid x w \<Longrightarrow> i < length (entries x) \<Longrightarrow> length (entries x) - i < fuel \<Longrightarrow>
    \<exists>w'. valid x w' \<and> read_chunks (getdents x) k fuel (de_cookie (entries x ! i)) w = Some (drop i (entries x), w')"
proof (induction fuel arbitrary: i w)
  case 0
  then show ?case by simp
next
  case (Suc fuel)
  obtain w1 where v1: "valid x w1" and at: "getdents x (fill_bounded k) (de_cookie (entries x ! i)) [] w =
    Some (0, if i + k < length (entries x) then de_cookie (entries x ! (i + k)) else end_cookie x,
          take k (drop i (entries x)), w1)"
    using chunk_at [OF Suc.prems(1,2) assms] by blast
  have split: "take k (drop i (entries x)) @ drop (i + k) (entries x) = drop i (entries x)"
    by (metis append_take_drop_id drop_drop add.commute)
  show ?case
  proof (cases "i + k < length (entries x)")
    case True
    then obtain w2 where "valid x w2"
      "read_chunks (getdents x) k fuel (de_cookie (entries x ! (i + k))) w1 = Some (drop (i + k) (entries x), w2)"
    proof -
      have "length (entries x) - (i + k) < fuel" using Suc.prems(3) True assms by linarith
      then show ?thesis using that Suc.IH [OF v1 True] by blast
    qed
    then show ?thesis using at split True Suc.prems(2) assms by auto
  next
    case False
    obtain fuel' where f: "fuel = Suc fuel'" using Suc.prems by (cases fuel) auto
    obtain w2 where "valid x w2" "getdents x (fill_bounded k) (end_cookie x) [] w1 = Some (0, end_cookie x, [], w2)"
      using at_end [OF v1] by blast
    then have "valid x w2 \<and> read_chunks (getdents x) k fuel (end_cookie x) w1 = Some ([], w2)"
      by (simp add: f)
    then show ?thesis using False Suc.prems(2) assms at split by auto
  qed
qed

lemma filter_from_zero: "valid x w \<Longrightarrow> filter (\<lambda>e. 0 \<le> de_cookie e) (entries x) = entries x"
  using cookies by (auto intro!: filter_True simp: cookies_ok_def list_all_iff)

lemma read_all:
  assumes v: "valid x w" and k: "0 < k"
  shows "\<exists>w'. valid x w' \<and> read_chunks (getdents x) k (length (entries x) + 2) 0 w = Some (entries x, w')"
proof -
  have "stream_from (entries x) (end_cookie x) (fill_bounded k) 0 [] =
      (0, if k < length (entries x) then de_cookie (entries x ! k) else end_cookie x, take k (entries x))"
    using emit_bounded [OF cookies [OF v], of "[]" k]
    by (simp add: stream_from_def filter_from_zero [OF v])
  then obtain w1 where v1: "valid x w1" and first: "getdents x (fill_bounded k) 0 [] w =
    Some (0, if k < length (entries x) then de_cookie (entries x ! k) else end_cookie x, take k (entries x), w1)"
    using get [OF v, of 0 "fill_bounded k" "[]"] not_empty [OF v] by (auto simp: delivers_def)
  show ?thesis
  proof (cases "k < length (entries x)")
    case True
    then obtain w2 where "valid x w2"
      "read_chunks (getdents x) k (Suc (length (entries x))) (de_cookie (entries x ! k)) w1 = Some (drop k (entries x), w2)"
    proof -
      have "length (entries x) - k < Suc (length (entries x))" by simp
      then show ?thesis using that read_on [OF k v1 True] by blast
    qed
    then show ?thesis using True first k by auto
  next
    case False
    obtain w2 where "valid x w2" "getdents x (fill_bounded k) (end_cookie x) [] w1 = Some (0, end_cookie x, [], w2)"
      using at_end [OF v1] by blast
    then show ?thesis using False first v1 by (cases "entries x = []") auto
  qed
qed

end

section \<open>Short-form directories\<close>

text \<open>
  The loop of \<open>xfs_dir2_sf_getdents\<close> over the packed entries: \<open>n\<close> entries are left. The result is the
  cookie of the entry that did not fit, if any.
\<close>

fun sf_getdents_loop ::
    "xfs_mount \<Rightarrow> bytes \<Rightarrow> 'd filldir \<Rightarrow> nat \<Rightarrow> nat \<Rightarrow> int \<Rightarrow> 'd \<Rightarrow> (int option \<times> 'd) option"
where
  "sf_getdents_loop mp d filldir 0 sfep offset s = Some (None, s)"
| "sf_getdents_loop mp d filldir (Suc n) sfep offset s = do {
     o16 \<leftarrow> xfs_dir2_sf_get_offset d sfep;
     let off = xfs_dir2_db_off_to_dataptr mp (m_dirdatablk mp) (int o16);
     if offset > off then do {
       sfep' \<leftarrow> xfs_dir2_sf_nextentry d sfep;
       sf_getdents_loop mp d filldir n sfep' offset s }
     else do {
       p \<leftarrow> xfs_dir2_sf_inumberp d sfep;
       ino \<leftarrow> xfs_dir2_sf_get_inumber d p;
       nm \<leftarrow> sf_name d sfep;
       let (full, s') = filldir s nm (cookie31 off) ino DT_UNKNOWN;
       if full then Some (Some (cookie31 off), s')
       else do {
         sfep' \<leftarrow> xfs_dir2_sf_nextentry d sfep;
         sf_getdents_loop mp d filldir n sfep' offset s' } } }"

text \<open>\<open>xfs_dir2_sf_getdents\<close>: status, next offset, state of the callback.\<close>

definition xfs_dir2_sf_getdents ::
    "xfs_mount \<Rightarrow> xfs_inode \<Rightarrow> 'd filldir \<Rightarrow> int \<Rightarrow> 'd \<Rightarrow> (int \<times> int \<times> 'd) option" where
  "xfs_dir2_sf_getdents mp dp filldir offset s =
    (if di_size (i_d dp) < 2 then Some (XFS_ERROR EIO, offset, s)
     else let d = if_data (i_df dp);
       dot_offset = xfs_dir2_db_off_to_dataptr mp (m_dirdatablk mp) XFS_DIR2_DATA_DOT_OFFSET;
       dotdot_offset = xfs_dir2_db_off_to_dataptr mp (m_dirdatablk mp) XFS_DIR2_DATA_DOTDOT_OFFSET in
     if xfs_dir2_dataptr_to_db mp offset > m_dirdatablk mp then Some (0, offset, s)
     else
       let (full, s) = (if offset \<le> dot_offset
              then filldir s [46] (cookie31 dot_offset) (i_ino dp) DT_DIR else (False, s)) in
       if full then Some (0, cookie31 dot_offset, s)
       else do {
         (full, s) \<leftarrow> (if offset \<le> dotdot_offset then do {
              ino \<leftarrow> xfs_dir2_sf_get_inumber d 2;
              Some (filldir s [46, 46] (cookie31 dotdot_offset) ino DT_DIR) }
            else Some (False, s));
         if full then Some (0, cookie31 dotdot_offset, s)
         else do {
           sfep \<leftarrow> xfs_dir2_sf_firstentry d;
           cnt \<leftarrow> sf_count d;
           (stop, s) \<leftarrow> sf_getdents_loop mp d filldir cnt sfep offset s;
           case stop of
             Some c \<Rightarrow> Some (0, c, s)
           | None \<Rightarrow> Some (0, cookie31 (xfs_dir2_db_off_to_dataptr mp (m_dirdatablk mp + 1) 0), s) } })"

text \<open>The stream a short-form directory stands for, and when its recorded offsets can be cookies.\<close>

definition sf_cookie :: "xfs_mount \<Rightarrow> nat \<Rightarrow> int" where
  "sf_cookie mp off = xfs_dir2_db_off_to_dataptr mp (m_dirdatablk mp) (int off)"

definition sf_dirent :: "xfs_mount \<Rightarrow> sf_entry \<Rightarrow> dirent" where
  "sf_dirent mp e = \<lparr> de_name = se_name e, de_cookie = sf_cookie mp (se_offset e),
     de_ino = se_ino e, de_type = DT_UNKNOWN \<rparr>"

definition sf_dirents :: "xfs_mount \<Rightarrow> xfs_inode \<Rightarrow> sf_dir \<Rightarrow> dirent list" where
  "sf_dirents mp dp sd =
     \<lparr> de_name = [46], de_cookie = sf_cookie mp 16, de_ino = i_ino dp, de_type = DT_DIR \<rparr> #
     \<lparr> de_name = [46, 46], de_cookie = sf_cookie mp 32, de_ino = sd_parent sd, de_type = DT_DIR \<rparr> #
     map (sf_dirent mp) (sd_entries sd)"

definition dir_end :: "xfs_mount \<Rightarrow> int" where
  "dir_end mp = xfs_dir2_db_off_to_dataptr mp (m_dirdatablk mp + 1) 0"

definition sf_offsets_ok :: "xfs_mount \<Rightarrow> sf_entry list \<Rightarrow> bool" where
  "sf_offsets_ok mp es \<longleftrightarrow>
     sorted_wrt (\<lambda>a b. se_offset a + 8 \<le> se_offset b) es \<and>
     list_all (\<lambda>e. 48 \<le> se_offset e \<and> se_offset e < m_dirblksize mp) es"

lemma sf_getdents_loop_emit:
  assumes "sf_entries_at mp d pre i8 es post" and "\<not> sf_v5 mp"
  shows "sf_getdents_loop mp d f (length es) (length pre) off s =
    Some (emit f (filter (\<lambda>e. off \<le> de_cookie e) (map (sf_dirent mp) es)) s)"
  using assms(1)
proof (induction es arbitrary: pre s)
  case Nil
  then show ?case by simp
next
  case (Cons e es)
  note at = sf_entries_at_Cons [OF Cons.prems]
  note s = sf_at_simps [OF at(1)] sf_at_v4 [OF at(1) assms(2)]
  show ?case
    using Cons.IH [OF at(2)]
    by (auto simp: s Let_def sf_dirent_def sf_cookie_def split: prod.split)
qed

lemma sf_getdents_stream:
  assumes h: "sf_holds mp dp sd" and v4: "\<not> sf_v5 mp"
    and db: "xfs_dir2_dataptr_to_db mp off \<le> m_dirdatablk mp"
  shows "xfs_dir2_sf_getdents mp dp f off s =
    Some (stream_from (sf_dirents mp dp sd) (cookie31 (dir_end mp)) f off s)"
proof -
  obtain pre post where pre: "length pre = xfs_dir2_sf_hdr_size (sd_i8 sd)"
    and at: "sf_entries_at mp (if_data (i_df dp)) pre (sd_i8 sd) (sd_entries sd) post"
    using sf_holds_entries_at [OF h] by blast
  have hdr: "sf_count (if_data (i_df dp)) = Some (length (sd_entries sd))"
    using sf_holds_hdr [OF h] by (simp add: sf_hdr_def)
  note loop = sf_getdents_loop_emit [OF at v4, unfolded pre]
  let ?c = "cookie31 (dir_end mp)"
  let ?es = "filter (\<lambda>e. off \<le> de_cookie e) (map (sf_dirent mp) (sd_entries sd))"
  have dots: "xfs_dir2_db_off_to_dataptr mp (m_dirdatablk mp) XFS_DIR2_DATA_DOT_OFFSET = sf_cookie mp 16"
    "xfs_dir2_db_off_to_dataptr mp (m_dirdatablk mp) XFS_DIR2_DATA_DOTDOT_OFFSET = sf_cookie mp 32"
    by (simp_all add: data_offset_defs sf_cookie_def)
  obtain b1 s1 where r1: "(if off \<le> sf_cookie mp 16
      then f s [46] (cookie31 (sf_cookie mp 16)) (i_ino dp) DT_DIR else (False, s)) = (b1, s1)"
    by (rule prod.exhaust)
  obtain b2 s2 where r2: "(if off \<le> sf_cookie mp 32
      then f s1 [46, 46] (cookie31 (sf_cookie mp 32)) (sd_parent sd) DT_DIR else (False, s1)) = (b2, s2)"
    by (rule prod.exhaust)
  have r2': "(if off \<le> sf_cookie mp 32 then do {
        ino \<leftarrow> xfs_dir2_sf_get_inumber (if_data (i_df dp)) 2;
        Some (f s1 [46, 46] (cookie31 (sf_cookie mp 32)) ino DT_DIR) } else Some (False, s1))
      = Some (b2, s2)"
    using r2 by (simp add: sf_holds_parent [OF h] split: if_splits)
  have size: "\<not> di_size (i_d dp) < 2" using sf_holds_size [OF h] by linarith
  have code: "xfs_dir2_sf_getdents mp dp f off s =
     (if b1 then Some (0, cookie31 (sf_cookie mp 16), s1)
      else if b2 then Some (0, cookie31 (sf_cookie mp 32), s2)
      else Some (case emit f ?es s2 of (None, s') \<Rightarrow> (0, ?c, s') | (Some c, s') \<Rightarrow> (0, c, s')))"
    using db size
    by (simp add: xfs_dir2_sf_getdents_def Let_def dots r1 r2' sf_holds_firstentry [OF h] hdr loop
        dir_end_def split: prod.split option.split)
  have "emit f (filter (\<lambda>e. off \<le> de_cookie e) (sf_dirents mp dp sd)) s =
     (if b1 then (Some (cookie31 (sf_cookie mp 16)), s1)
      else if b2 then (Some (cookie31 (sf_cookie mp 32)), s2) else emit f ?es s2)"
    using r1 r2 by (simp add: sf_dirents_def split: if_splits)
  then show ?thesis by (simp add: code stream_from_def split: prod.split option.split)
qed

lemma sf_cookie_div:
  "geom_ok mp \<Longrightarrow> off < m_dirblksize mp \<Longrightarrow> sf_cookie mp off = int off div 8"
proof -
  assume g: "geom_ok mp" and o: "off < m_dirblksize mp"
  then have "int off < 2 ^ dir_log mp" by (simp add: geom_ok_def)
  then show ?thesis using dataptr_of_off [OF g, of "int off"] by (simp add: sf_cookie_def)
qed

lemma dir_end_bounds:
  assumes "geom_ok mp"
  shows "dir_end mp = 2 ^ dir_log mp div 8" and "64 \<le> dir_end mp" and "dir_end mp < 2 ^ 31"
    and "cookie31 (dir_end mp) = dir_end mp"
proof -
  show e: "dir_end mp = 2 ^ dir_log mp div 8"
    using dataptr_end(1) [OF assms] by (simp add: dir_end_def)
  show "64 \<le> dir_end mp" "dir_end mp < 2 ^ 31"
    using dir_log_bounds [OF assms] e by auto
  then show "cookie31 (dir_end mp) = dir_end mp" by simp
qed

lemma cookie_in_block:
  assumes "geom_ok mp" and "0 \<le> off" and "off < dir_end mp"
  shows "xfs_dir2_dataptr_to_db mp off = 0"
proof -
  have "off < 2 ^ dir_log mp div 8" using assms(3) dir_end_bounds(1) [OF assms(1)] by simp
  then have "off * 8 < 2 ^ dir_log mp" using dir_log_div8 [OF assms(1)] by fastforce
  then show ?thesis using dataptr_db_zero [OF assms(1), of "off * 8"] assms(2) by simp
qed

lemma cookie_past_block:
  assumes g: "geom_ok mp" and o: "dir_end mp \<le> off" "off < 2 ^ 31"
  shows "m_dirdatablk mp < xfs_dir2_dataptr_to_db mp off"
proof -
  note b = dir_log_bounds [OF g] dir_end_bounds(1,2) [OF g]
  have "2 ^ dir_log mp \<le> off * 8" using o(1) b(3) dvd_div_mult_self [OF dir_log_div8 [OF g]] by linarith
  then have "1 \<le> off * 8 div 2 ^ dir_log mp" using div_self [of "(2 :: int) ^ dir_log mp"] zdiv_mono1 [of "2 ^ dir_log mp" "off * 8" "2 ^ dir_log mp"] by simp
  moreover have "off * 8 div 2 ^ dir_log mp \<le> off * 8 div 8" using b(2,4) o(1) by (intro zdiv_mono2) auto
  moreover have "to_u32 off = off" using b(4) o by (simp add: to_u32_def)
  moreover have "m_dirdatablk mp = 0" using g by (simp add: geom_ok_def)
  ultimately show ?thesis
    using o(2) by (simp add: xfs_dir2_dataptr_to_db_def xfs_dir2_byte_to_db_def xfs_dir2_dataptr_to_byte_def
        XFS_DIR2_DATA_ALIGN_LOG_def to_u32_def)
qed

lemma sf_cookies_ok:
  assumes g: "geom_ok mp" and o: "sf_offsets_ok mp (sd_entries sd)"
  shows "cookies_ok (sf_dirents mp dp sd) (dir_end mp)"
proof -
  have b: "m_dirblksize mp = 2 ^ dir_log mp" using g by (simp add: geom_ok_def)
  have eight: "int (m_dirblksize mp) = dir_end mp * 8"
    using dir_log_div8 [OF g] dir_end_bounds(1) [OF g] b by simp
  have c: "sf_cookie mp (se_offset e) = int (se_offset e) div 8"
    "6 \<le> sf_cookie mp (se_offset e)" "sf_cookie mp (se_offset e) < dir_end mp"
    if "e \<in> set (sd_entries sd)" for e
  proof -
    have e: "48 \<le> se_offset e" "se_offset e < m_dirblksize mp"
      using o that by (auto simp: sf_offsets_ok_def list_all_iff)
    show d: "sf_cookie mp (se_offset e) = int (se_offset e) div 8"
      by (rule sf_cookie_div [OF g e(2)])
    show "6 \<le> sf_cookie mp (se_offset e)" using d e(1) by auto
    have "int (se_offset e) < dir_end mp * 8" using e(2) eight by linarith
    then show "sf_cookie mp (se_offset e) < dir_end mp" using d by simp
  qed
  have dots: "sf_cookie mp 16 = 2" "sf_cookie mp 32 = 4"
    using sf_cookie_div [OF g, of 16] sf_cookie_div [OF g, of 32] eight dir_end_bounds(2) [OF g]
    by simp_all
  have "sorted_wrt (\<lambda>a b. sf_cookie mp (se_offset a) < sf_cookie mp (se_offset b)) (sd_entries sd)"
    using o c(1) unfolding sf_offsets_ok_def
    by (auto intro: sorted_wrt_mono_rel [rotated])
  then show ?thesis
    using c dots dir_end_bounds [OF g]
    by (auto simp: cookies_ok_def sf_dirents_def sorted_wrt_map sf_dirent_def list_all_iff
        intro: less_le_trans [of _ 6] order.trans [of 0 6])
qed

definition sf_stream_ok :: "xfs_mount \<times> xfs_inode \<times> sf_dir \<Rightarrow> bool" where
  "sf_stream_ok = (\<lambda>(mp, dp, sd). geom_ok mp \<and> \<not> sf_v5 mp \<and> sf_holds mp dp sd \<and>
     sf_offsets_ok mp (sd_entries sd))"

lemma sf_stream_get:
  assumes "sf_stream_ok (mp, dp, sd)" and "0 \<le> off" and "off < dir_end mp"
  shows "xfs_dir2_sf_getdents mp dp f off s =
    Some (stream_from (sf_dirents mp dp sd) (dir_end mp) f off s)"
proof -
  have g: "geom_ok mp" and v: "\<not> sf_v5 mp" and h: "sf_holds mp dp sd"
    using assms(1) by (simp_all add: sf_stream_ok_def)
  have "m_dirdatablk mp = 0" using g by (simp add: geom_ok_def)
  then show ?thesis
    using sf_getdents_stream [OF h v, of off f s] cookie_in_block [OF g assms(2,3)]
      dir_end_bounds(4) [OF g] by simp
qed

lemma sf_stream_past:
  assumes "sf_stream_ok (mp, dp, sd)" and "dir_end mp \<le> off" and "off < 2 ^ 31"
  shows "xfs_dir2_sf_getdents mp dp f off s = Some (0, off, s)"
proof -
  have g: "geom_ok mp" and h: "sf_holds mp dp sd"
    using assms(1) by (simp_all add: sf_stream_ok_def)
  show ?thesis
    using cookie_past_block [OF g assms(2,3)] sf_holds_size [OF h] by (simp add: xfs_dir2_sf_getdents_def Let_def)
qed

lemma sf_stream_end: "sf_stream_ok (mp, dp, sd) \<Longrightarrow> xfs_dir2_sf_getdents mp dp f (dir_end mp) s = Some (0, dir_end mp, s)"
  by (rule sf_stream_past) (use dir_end_bounds(3) [of mp] in \<open>auto simp: sf_stream_ok_def\<close>)

lemma sf_stream_bounds:
  assumes "sf_stream_ok (mp, dp, sd)"
  shows "cookies_ok (sf_dirents mp dp sd) (dir_end mp)" and "0 < dir_end mp"
  using assms sf_cookies_ok dir_end_bounds(2) [of mp] by (auto simp: sf_stream_ok_def)

interpretation sfs: dir_stream
  "\<lambda>(mp, dp, sd). stateless (xfs_dir2_sf_getdents mp dp)" "\<lambda>x w. sf_stream_ok x"
  "\<lambda>(mp, dp, sd). sf_dirents mp dp sd" "\<lambda>(mp, dp, sd). dir_end mp"
  by unfold_locales
    (auto simp: stateless_def delivers_def sf_stream_get sf_stream_end sf_stream_bounds split: prod.splits)

text \<open>
  C21: Reading a version 4 short-form directory in buffers of any positive size, each call resuming at
  the cookie the last one returned, ends and delivers \<open>.\<close>, \<open>..\<close> and every entry exactly once, in
  order.
\<close>

theorem sf_getdents_resumes:
  assumes "geom_ok mp" and "\<not> sf_v5 mp" and "sf_holds mp dp sd"
    and "sf_offsets_ok mp (sd_entries sd)" and "0 < k"
  shows "read_chunks (stateless (xfs_dir2_sf_getdents mp dp)) k (length (sf_dirents mp dp sd) + 2) 0 () =
    Some (sf_dirents mp dp sd, ())"
  using sfs.read_all [of "(mp, dp, sd)" k] assms unfolding sf_stream_ok_def prod.case by auto

lemma sample_sf_stream: "sf_stream_ok (sample_mp, sample_sf_inode sample_mp sample_sd, sample_sd)"
proof -
  have "sf_offsets_ok sample_mp (sd_entries sample_sd)"
    by (simp add: sf_offsets_ok_def sample_sd_def)
  moreover have "\<not> sf_v5 sample_mp"
    by (simp add: sf_v5_def XFS_SB_VERSION_NUM_def)
  ultimately show ?thesis
    by (simp add: sf_stream_ok_def sample_geom sample_sf_holds [OF sample_sd_ok])
qed

theorem sf_getdents_resumes_witness:
  "map_option (map de_ino \<circ> fst) (read_chunks (stateless (xfs_dir2_sf_getdents sample_mp
     (sample_sf_inode sample_mp sample_sd))) 3 6 0 ()) = Some [128, 128, 131, 132]"
proof -
  have len: "length (sf_dirents sample_mp (sample_sf_inode sample_mp sample_sd) sample_sd) + 2 = 6"
    by (simp add: sf_dirents_def sample_sd_def)
  have "read_chunks (stateless (xfs_dir2_sf_getdents sample_mp (sample_sf_inode sample_mp sample_sd))) 3
      (length (sf_dirents sample_mp (sample_sf_inode sample_mp sample_sd) sample_sd) + 2) 0 () =
    Some (sf_dirents sample_mp (sample_sf_inode sample_mp sample_sd) sample_sd, ())"
    by (rule sf_getdents_resumes) (use sample_sf_stream in \<open>simp_all add: sf_stream_ok_def\<close>)
  then show ?thesis
    unfolding len by (simp add: sf_dirents_def sample_sd_def sample_sf_inode_def sf_dirent_def)
qed

section \<open>Version 5 directories\<close>

text \<open>
  The function always uses the version 2 layout. On a version 5 directory an entry has a file-type
  byte before its inode number, which is then read as the number's first byte.
\<close>

lemma v5_entry_inumber:
  assumes at: "sf_entry_at mp d pre 0 e post" and v5: "sf_v5 mp"
  shows "xfs_dir2_sf_get_inumber d (length pre + 3 + length (se_name e)) =
    Some (unat (se_ftype e) * 256 ^ 3 + se_ino e div 256)"
proof -
  have b: "d = (pre @ be_bytes 1 (length (se_name e)) @ be_bytes 2 (se_offset e) @ se_name e) @
      (se_ftype e # be_bytes 3 (se_ino e div 256)) @ ([word_of_nat (se_ino e)] @ post)"
    using sf_entry_at_bytes [OF at] v5 be_bytes.simps(2) [of 3 "se_ino e"]
    by (simp add: sf_enc_ino_def)
  have i: "se_ino e < 256 ^ 4" using sf_entry_atD(5) [OF at] by (simp add: ino_fits_def)
  have "rd_bytes (length pre + 3 + length (se_name e)) 4 d =
      Some (se_ftype e # be_bytes 3 (se_ino e div 256))"
    by (rule rd_bytes_at [OF b]) simp_all
  moreover have "be_val (se_ftype e # be_bytes 3 (se_ino e div 256)) =
      unat (se_ftype e) * 256 ^ 3 + se_ino e div 256"
    using i by (simp add: be_val_def be_val_acc_be_bytes)
  ultimately show ?thesis
    by (simp add: xfs_dir2_sf_get_inumber_def sf_entry_atD(1) [OF at] XFS_GET_DIR_INO4_def rd_be_def)
qed

text \<open>
  C39: On a version 5 short-form directory with one entry, reading it delivers the entry with the
  file-type byte as the top byte of its inode number and the number's last byte lost.
\<close>

theorem sf_getdents_v5_misreads:
  assumes g: "geom_ok mp" and v5: "sf_v5 mp" and h: "sf_holds mp dp sd" and i8: "sd_i8 sd = 0"
    and one: "sd_entries sd = [e]"
  shows "\<exists>c es. xfs_dir2_sf_getdents mp dp (fill_bounded 3) 0 [] = Some (0, c, es) \<and>
    length es = 3 \<and> de_name (es ! 2) = se_name e \<and>
    de_ino (es ! 2) = unat (se_ftype e) * 256 ^ 3 + se_ino e div 256"
proof -
  obtain pre post where pre: "length pre = xfs_dir2_sf_hdr_size 0"
    and at: "sf_entries_at mp (if_data (i_df dp)) pre 0 [e] post"
    using sf_holds_entries_at [OF h] i8 one by auto
  note e = sf_entries_at_Cons(1) [OF at]
  note rd = sf_at_namelen [OF e, unfolded pre] sf_at_offset [OF e, unfolded pre]
    sf_at_name [OF e, unfolded pre] v5_entry_inumber [OF e v5, unfolded pre] sf_entry_atD(1) [OF e]
  have hdr: "sf_count (if_data (i_df dp)) = Some (Suc 0)"
    using sf_holds_hdr [OF h] one by (simp add: sf_hdr_def)
  have nonneg: "0 \<le> xfs_dir2_db_off_to_dataptr mp db off"
    "\<not> xfs_dir2_db_off_to_dataptr mp db off < 0" for db off
    by (simp_all add: geom_simps to_u32_def)
  have db: "xfs_dir2_dataptr_to_db mp 0 = 0" "m_dirdatablk mp = 0"
    using g by (simp_all add: geom_simps geom_ok_def)
  show ?thesis
    using sf_holds_size [OF h]
    by (simp add: xfs_dir2_sf_getdents_def Let_def db nonneg fill_bounded_def sf_holds_parent [OF h]
        sf_holds_firstentry [OF h] hdr i8 rd xfs_dir2_sf_inumberp_def xfs_dir2_sf_nextentry_def)
qed

theorem sf_getdents_v5_misreads_witness:
  "\<exists>c es. xfs_dir2_sf_getdents sample_v5_mp (sample_sf_inode sample_v5_mp sample_sd1)
       (fill_bounded 3) 0 [] = Some (0, c, es) \<and>
     de_name (es ! 2) = [97, 98] \<and> de_ino (es ! 2) = 16777216"
proof -
  show ?thesis
    using sf_getdents_v5_misreads [OF sample_v5_geom sample_v5 sample_sf_holds [OF sample_sd1_ok], of
        "hd (sd_entries sample_sd)"]
    by (auto simp: sample_sd1_def sample_sd_def)
qed

end
