(* ===== verification/Dir2_Block.thy ===== *)
theory Dir2_Block
  imports Da_Buf Dir2_Readdir
begin

text \<open>
  Directories of one block: reading them (\<open>xfs_dir2_block_getdents\<close> of xfsutil/xfsutil.c). The entries
  of a block are the abstract list \<open>data_item list\<close>; reading is a second instance of the contract
  \<open>dir_stream\<close>, over any buffer cache that satisfies \<open>buf_store\<close>.
\<close>

section \<open>The loop over the entries\<close>

text \<open>One round: the loop stops with a cookie or without one, or goes on at the next pointer.\<close>

datatype 'd block_step = Stop "int option" 'd | Next nat 'd

definition block_step ::
    "xfs_mount \<Rightarrow> bytes \<Rightarrow> 'd filldir \<Rightarrow> int \<Rightarrow> int \<Rightarrow> nat \<Rightarrow> 'd \<Rightarrow> 'd block_step option" where
  "block_step mp d filldir wantoff endptr ptr s =
    (if int ptr < endptr then do {
       tag \<leftarrow> data_freetag d ptr;
       if tag = XFS_DIR2_DATA_FREE_TAG then do {
         len \<leftarrow> data_unused_length d ptr;
         Some (Next (ptr + len) s) }
       else do {
         namelen \<leftarrow> data_namelen d ptr;
         let next_ptr = ptr + nat (xfs_dir2_data_entsize (int namelen));
         if int ptr < wantoff then Some (Next next_ptr s)
         else do {
           let cook = xfs_dir2_db_off_to_dataptr mp (m_dirdatablk mp) (int ptr);
           nm \<leftarrow> data_name d ptr;
           ino \<leftarrow> data_inumber d ptr;
           let (full, s) = filldir s nm (cookie31 cook) ino DT_UNKNOWN;
           Some (if full then Stop (Some (cookie31 cook)) s else Next next_ptr s) } } }
     else Some (Stop None s))"

partial_function (option) block_getdents_loop ::
    "xfs_mount \<Rightarrow> bytes \<Rightarrow> 'd filldir \<Rightarrow> int \<Rightarrow> int \<Rightarrow> nat \<Rightarrow> 'd \<Rightarrow> (int option \<times> 'd) option" where
  "block_getdents_loop mp d filldir wantoff endptr ptr s = do {
     r \<leftarrow> block_step mp d filldir wantoff endptr ptr s;
     case r of
       Stop c s \<Rightarrow> Some (c, s)
     | Next ptr s \<Rightarrow> block_getdents_loop mp d filldir wantoff endptr ptr s }"

text \<open>
  \<open>xfs_dir2_block_getdents\<close>: status, next offset, the callback's state, and the inode and cache. The block is held
  while the callback runs, and the callback may use the cache: its state is the private one and the cache.
\<close>

definition xfs_dir2_block_getdents ::
    "('b, 's) buf_ops \<Rightarrow> 's inode_reader \<Rightarrow> 's inode_reader \<Rightarrow>
      xfs_mount \<Rightarrow> ('d \<times> 's) filldir \<Rightarrow> int \<Rightarrow> 'd \<Rightarrow> xfs_inode \<times> 's \<Rightarrow> (int \<times> int \<times> 'd \<times> xfs_inode \<times> 's) option" where
  "xfs_dir2_block_getdents ops iread l2e mp filldir offset t w =
    (case w of (dp, s) \<Rightarrow>
      if xfs_dir2_dataptr_to_db mp offset > m_dirdatablk mp then Some (0, offset, t, dp, s)
      else do {
        (error, bp, dp, s) \<leftarrow> xfs_da_read_buf ops iread l2e mp dp (nat (m_dirdatablk mp)) (- 1) s;
        if error \<noteq> 0 then Some (error, offset, t, dp, s)
        else do {
          bp \<leftarrow> bp;
          let block = da_data bp;
          let wantoff = xfs_dir2_dataptr_to_off mp offset;
          endptr \<leftarrow> xfs_dir2_block_leaf_p mp block;
          (stop, t, s) \<leftarrow> block_getdents_loop mp block filldir wantoff endptr 16 (t, s);
          let s = xfs_da_brelse ops bp s;
          Some (0, case stop of Some c \<Rightarrow> c
            | None \<Rightarrow> cookie31 (xfs_dir2_db_off_to_dataptr mp (m_dirdatablk mp + 1) 0), t, dp, s) } })"

text \<open>A callback that leaves the cache alone.\<close>

definition pure_fill :: "'d filldir \<Rightarrow> ('d \<times> 's) filldir" where
  "pure_fill f w nm c ino ty = (case f (fst w) nm c ino ty of (full, t) \<Rightarrow> (full, t, snd w))"

lemma emit_pure: "emit (pure_fill f) es (t, s) = (case emit f es t of (r, t') \<Rightarrow> (r, t', s))"
  by (induction es arbitrary: t) (auto simp: pure_fill_def split: prod.split)

section \<open>The stream of a block\<close>

text \<open>A block that holds a list of items, with lengths that keep every position a multiple of 8.\<close>

fun aligned :: "data_item list \<Rightarrow> bool" where
  "aligned [] \<longleftrightarrow> True"
| "aligned (DFree n # its) \<longleftrightarrow> 8 dvd n \<and> aligned its"
| "aligned (DEntry nm ino # its) \<longleftrightarrow> aligned its"

definition block_holds :: "xfs_mount \<Rightarrow> bytes \<Rightarrow> data_item list \<Rightarrow> bool" where
  "block_holds mp d its \<longleftrightarrow> aligned its \<and>
     (\<exists>e. xfs_dir2_block_leaf_p mp d = Some (int e) \<and> items_at d 16 its e \<and> e \<le> m_dirblksize mp)"

definition data_dirent :: "xfs_mount \<Rightarrow> nat \<times> bytes \<times> nat \<Rightarrow> dirent" where
  "data_dirent mp x = (case x of (p, nm, ino) \<Rightarrow>
     \<lparr> de_name = nm, de_cookie = xfs_dir2_db_off_to_dataptr mp (m_dirdatablk mp) (int p),
       de_ino = ino, de_type = DT_UNKNOWN \<rparr>)"

definition block_dirents :: "xfs_mount \<Rightarrow> data_item list \<Rightarrow> dirent list" where
  "block_dirents mp its = map (data_dirent mp) (live_from 16 its)"

lemma block_loop_items:
  assumes "items_at d p its e"
  shows "block_getdents_loop mp d f want (int e) p s =
    Some (emit f (map (data_dirent mp) (filter (\<lambda>x. want \<le> int (fst x)) (live_from p its))) s)"
  using assms
proof (induction its arbitrary: p s)
  case Nil
  then show ?case by (subst block_getdents_loop.simps) (simp add: block_step_def)
next
  case (Cons it its)
  have lt: "int p < int e" using item_size_pos [of d p it] items_at_le [of d "p + item_size it" its e] Cons.prems
    by simp
  show ?case
  proof (cases it)
    case (DFree n)
    have "block_step mp d f want (int e) p s = Some (Next (p + n) s)"
      using Cons.prems DFree lt by (simp add: block_step_def item_at_def XFS_DIR2_DATA_FREE_TAG_def)
    then show ?thesis
      using Cons.IH [of "p + n" s] Cons.prems DFree by (subst block_getdents_loop.simps) simp
  next
    case (DEntry nm ino)
    let ?n = "p + nat (xfs_dir2_data_entsize (int (length nm)))"
    let ?c = "cookie31 (xfs_dir2_db_off_to_dataptr mp (m_dirdatablk mp) (int p))"
    have step: "block_step mp d f want (int e) p s =
      Some (if int p < want then Next ?n s
        else case f s nm ?c ino DT_UNKNOWN of (full, s) \<Rightarrow> if full then Stop (Some ?c) s else Next ?n s)"
      using Cons.prems DEntry lt
      by (auto simp: block_step_def item_at_def XFS_DIR2_DATA_FREE_TAG_def Let_def split: prod.split)
    note IH = Cons.IH [of ?n]
    have rest: "items_at d ?n its e" using Cons.prems DEntry by simp
    show ?thesis
      unfolding block_getdents_loop.simps [of mp d f want "int e" p s] step
      using IH [OF rest] DEntry
      by (auto simp: data_dirent_def split: prod.split)
  qed
qed

lemma item_size_aligned: "aligned (it # its) \<Longrightarrow> 8 dvd item_size it"
proof (cases it)
  case (DEntry nm ino)
  have "0 \<le> xfs_dir2_data_entsize (int (length nm))" using entsize_bounds [of "int (length nm)"] by linarith
  then show ?thesis
    using entsize_dvd [of "int (length nm)"] int_dvd_int_iff [of 8 "nat (xfs_dir2_data_entsize (int (length nm)))"]
    by (simp add: DEntry)
qed simp

lemma aligned_tl: "aligned (it # its) \<Longrightarrow> aligned its"
  by (cases it) auto

lemma live_from_Cons:
  "live_from p (it # its) = (case it of DFree n \<Rightarrow> [] | DEntry nm ino \<Rightarrow> [(p, nm, ino)]) @ live_from (p + item_size it) its"
  by (cases it) auto

lemma live_from_aligned:
  "aligned its \<Longrightarrow> 8 dvd p \<Longrightarrow> (q, nm, ino) \<in> set (live_from p its) \<Longrightarrow> 8 dvd q"
proof (induction its arbitrary: p)
  case (Cons it its)
  have "8 dvd p + item_size it" using item_size_aligned [OF Cons.prems(1)] Cons.prems(2) by (rule dvd_add [rotated])
  then have "(q, nm, ino) \<in> set (live_from (p + item_size it) its) \<Longrightarrow> 8 dvd q"
    using Cons.IH [OF aligned_tl [OF Cons.prems(1)]] by blast
  then show ?case using Cons.prems(2,3) unfolding live_from_Cons by (auto split: data_item.splits)
qed simp

lemma data_cookie:
  assumes g: "geom_ok mp" and "p < m_dirblksize mp"
  shows "xfs_dir2_db_off_to_dataptr mp (m_dirdatablk mp) (int p) = int p div 8"
  using sf_cookie_div [OF assms] by (simp add: sf_cookie_def)

text \<open>The position a cookie stands for: entries before it are the ones the loop skips.\<close>

lemma wantoff_filter:
  assumes g: "geom_ok mp" and off: "0 \<le> off" "off < dir_end mp" and p: "p < m_dirblksize mp" and d: "8 dvd p"
  shows "xfs_dir2_dataptr_to_off mp off \<le> int p \<longleftrightarrow>
    off \<le> xfs_dir2_db_off_to_dataptr mp (m_dirdatablk mp) (int p)"
proof -
  have "off < 2 ^ dir_log mp div 8" using off dir_end_bounds(1) [OF g] by simp
  then have o: "off * 8 < 2 ^ dir_log mp" using dir_log_div8 [OF g] by fastforce
  have "xfs_dir2_dataptr_to_off mp (xfs_dir2_db_off_to_dataptr mp (m_dirdatablk mp) (off * 8)) = off * 8"
    by (rule dataptr_roundtrip [OF g]) (use o off in auto)
  moreover have "xfs_dir2_db_off_to_dataptr mp (m_dirdatablk mp) (off * 8) = off"
    using dataptr_of_off [OF g, of "off * 8"] o off by simp
  ultimately have "xfs_dir2_dataptr_to_off mp off = off * 8" by simp
  then show ?thesis using data_cookie [OF g p] d by auto
qed

lemma block_cookies_ok:
  assumes g: "geom_ok mp" and h: "block_holds mp d its"
  shows "cookies_ok (block_dirents mp its) (dir_end mp)"
proof -
  obtain e where e: "items_at d 16 its e" "e \<le> m_dirblksize mp" and al: "aligned its"
    using h by (auto simp: block_holds_def)
  have eight: "int (m_dirblksize mp) = dir_end mp * 8"
    using dir_log_div8 [OF g] dir_end_bounds(1) [OF g] g by (simp add: geom_ok_def)
  have c: "p < m_dirblksize mp" "8 dvd p" if "(p, nm, ino) \<in> set (live_from 16 its)" for p nm ino
    using live_from_bounds [OF e(1) that] e(2) live_from_aligned [OF al _ that] by auto
  have cook: "de_cookie (data_dirent mp x) = int (fst x) div 8" if "x \<in> set (live_from 16 its)" for x
    using data_cookie [OF g c(1)] that by (cases x) (auto simp: data_dirent_def)
  have "sorted_wrt (\<lambda>a b. de_cookie (data_dirent mp a) < de_cookie (data_dirent mp b)) (live_from 16 its)"
  proof (rule sorted_wrt_mono_rel [OF _ live_from_sorted [OF e(1)]])
    fix x y assume xy: "x \<in> set (live_from 16 its)" "y \<in> set (live_from 16 its)" "fst x < fst y"
    then have "8 dvd fst x" "8 dvd fst y" using c(2) by (metis prod.collapse)+
    then have "int (fst x) div 8 < int (fst y) div 8" using xy(3) by auto
    then show "de_cookie (data_dirent mp x) < de_cookie (data_dirent mp y)" using cook xy by simp
  qed
  moreover have "0 \<le> de_cookie (data_dirent mp x) \<and> de_cookie (data_dirent mp x) < dir_end mp"
    if x: "x \<in> set (live_from 16 its)" for x
  proof -
    have "int (fst x) < dir_end mp * 8" using c(1) x eight by (metis of_nat_less_iff prod.collapse)
    then show ?thesis using cook [OF x] by auto
  qed
  ultimately show ?thesis
    using dir_end_bounds [OF g] by (auto simp: cookies_ok_def block_dirents_def sorted_wrt_map list_all_iff)
qed

section \<open>The contract\<close>

text \<open>The directory \<open>dp\<close> on the device \<open>dev\<close> holds the items \<open>its\<close> in its block.\<close>

definition block_dir_ok ::
    "(int \<Rightarrow> int \<Rightarrow> bytes option) \<Rightarrow> xfs_mount \<Rightarrow> xfs_inode \<Rightarrow> data_item list \<Rightarrow> bool" where
  "block_dir_ok dev mp dp its \<longleftrightarrow> geom_ok mp \<and> dir_ready mp dp \<and>
     (\<exists>blk x. dir_daddr mp dp 0 = Some blk \<and> dev blk (XFS_FSB_TO_BB mp 1) = Some x \<and>
       da_magic_ok x = Some True \<and> block_holds mp x its)"

lemma block_dir_cookies:
  assumes "block_dir_ok dev mp dp its"
  shows "cookies_ok (block_dirents mp its) (dir_end mp)" and "0 < dir_end mp"
  using assms block_cookies_ok dir_end_bounds(2) [of mp] by (auto simp: block_dir_ok_def)

lemma block_getdents_past:
  assumes "block_dir_ok dev mp dp its" and "dir_end mp \<le> off" and "off < 2 ^ 31"
  shows "xfs_dir2_block_getdents ops iread l2e mp f off t (dp, s) = Some (0, off, t, dp, s)"
  using cookie_past_block [OF _ assms(2,3)] assms(1) by (simp add: xfs_dir2_block_getdents_def block_dir_ok_def)

lemma block_getdents_end:
  "block_dir_ok dev mp dp its \<Longrightarrow>
    xfs_dir2_block_getdents ops iread l2e mp f (dir_end mp) t (dp, s) = Some (0, dir_end mp, t, dp, s)"
  by (rule block_getdents_past) (use dir_end_bounds(3) [of mp] in \<open>auto simp: block_dir_ok_def\<close>)

text \<open>The entries the loop delivers are those from the cookie on.\<close>

lemma block_filter:
  assumes g: "geom_ok mp" and off: "0 \<le> off" "off < dir_end mp"
    and it: "items_at x 16 its e" "e \<le> m_dirblksize mp" "aligned its"
  shows "map (data_dirent mp) (filter (\<lambda>x. xfs_dir2_dataptr_to_off mp off \<le> int (fst x)) (live_from 16 its)) =
      filter (\<lambda>e. off \<le> de_cookie e) (block_dirents mp its)"
proof -
  have fine: "p < m_dirblksize mp" "8 dvd p" if "(p, nm, ino) \<in> set (live_from 16 its)" for p nm ino
    using live_from_bounds [OF it(1) that] it(2) live_from_aligned [OF it(3) _ that] by auto
  show ?thesis
    unfolding block_dirents_def filter_map
    by (rule arg_cong [where f = "map (data_dirent mp)"], rule filter_cong [OF refl])
      (use wantoff_filter [OF g off] fine in \<open>auto simp: data_dirent_def split: prod.split\<close>)
qed

text \<open>One call, for any callback, when the block is read into a buffer.\<close>

lemma block_getdents_run:
  assumes ok: "block_dir_ok dev mp dp its" and off: "0 \<le> off" "off < dir_end mp"
  obtains blk x where "dir_daddr mp dp 0 = Some blk" "dev blk (XFS_FSB_TO_BB mp 1) = Some x"
    "\<And>(ops :: ('b, 's) buf_ops) iread l2e (f :: ('d \<times> 's) filldir) t s b s1. op_readbuf ops blk (XFS_FSB_TO_BB mp 1) s = (Some b, s1) \<Longrightarrow> op_b_addr ops s1 b = x \<Longrightarrow>
      xfs_dir2_block_getdents ops iread l2e mp f off t (dp, s) =
        Some (case stream_from (block_dirents mp its) (dir_end mp) f off (t, s1) of
          (rv, c, t, s2) \<Rightarrow> (rv, c, t, dp, op_putbuf ops b s2))"
proof -
  obtain blk x where g: "geom_ok mp" and r: "dir_ready mp dp" and a: "dir_daddr mp dp 0 = Some blk"
    and d: "dev blk (XFS_FSB_TO_BB mp 1) = Some x" and m: "da_magic_ok x = Some True"
    and h: "block_holds mp x its"
    using ok by (auto simp: block_dir_ok_def)
  obtain e where e: "xfs_dir2_block_leaf_p mp x = Some (int e)" "items_at x 16 its e" "e \<le> m_dirblksize mp"
    and al: "aligned its" using h by (auto simp: block_holds_def)
  have blk0: "m_dirdatablk mp = 0" using g by (simp add: geom_ok_def)
  have loop: "block_getdents_loop mp x f (xfs_dir2_dataptr_to_off mp off) (int e) 16 t =
      Some (emit f (filter (\<lambda>e. off \<le> de_cookie e) (block_dirents mp its)) t)"
    for f :: "('d \<times> 's) filldir" and t
    using block_loop_items [OF e(2), of mp f] block_filter [OF g off e(2,3) al] by simp
  have db: "\<not> xfs_dir2_dataptr_to_db mp off > m_dirdatablk mp"
    using cookie_in_block [OF g off] blk0 by simp
  show ?thesis
  proof (rule that [OF a d])
    fix ops :: "('b, 's) buf_ops" and iread l2e and f :: "('d \<times> 's) filldir" and t s b s1
    assume rd: "op_readbuf ops blk (XFS_FSB_TO_BB mp 1) s = (Some b, s1)" "op_b_addr ops s1 b = x"
    show "xfs_dir2_block_getdents ops iread l2e mp f off t (dp, s) =
        Some (case stream_from (block_dirents mp its) (dir_end mp) f off (t, s1) of
          (rv, c, t, s2) \<Rightarrow> (rv, c, t, dp, op_putbuf ops b s2))"
      using rd m e(1) loop db blk0 dir_end_bounds(4) [OF g]
      by (auto simp: xfs_dir2_block_getdents_def da_read_buf_single [OF r a] stream_from_def Let_def dir_end_def
          split: prod.split option.split)
  qed
qed

context buf_store
begin

lemma block_getdents_stream:
  assumes ok: "block_dir_ok dev mp dp its" and s: "inv s" and off: "0 \<le> off" "off < dir_end mp"
  shows "\<exists>s'. inv s' \<and> xfs_dir2_block_getdents ops iread l2e mp (pure_fill (f :: 'd filldir)) off t (dp, s) =
    Some (delivers (stream_from (block_dirents mp its) (dir_end mp) f off t) (dp, s'))"
proof -
  have ?thesis if b: "dev blk (XFS_FSB_TO_BB mp 1) = Some x"
    and run: "\<And>(ops :: ('b, 's) buf_ops) iread l2e (f :: ('d \<times> 's) filldir) t s b s1.
      op_readbuf ops blk (XFS_FSB_TO_BB mp 1) s = (Some b, s1) \<Longrightarrow> op_b_addr ops s1 b = x \<Longrightarrow>
      xfs_dir2_block_getdents ops iread l2e mp f off t (dp, s) =
        Some (case stream_from (block_dirents mp its) (dir_end mp) f off (t, s1) of
          (rv, c, t, s2) \<Rightarrow> (rv, c, t, dp, op_putbuf ops b s2))" for blk x
  proof -
    obtain bp s1 where r: "op_readbuf ops blk (XFS_FSB_TO_BB mp 1) s = (Some bp, s1)" "op_b_addr ops s1 bp = x"
      "inv (op_putbuf ops bp s1)" using read_ok [OF s b] by blast
    show ?thesis
      unfolding run [OF r(1,2)]
      using r(3) by (auto simp: stream_from_def emit_pure delivers_def split: prod.split option.split)
  qed
  then show ?thesis by (rule block_getdents_run [OF ok off])
qed

text \<open>A block that cannot be read is followed through a NULL pointer.\<close>

lemma block_getdents_unreadable:
  assumes "dir_ready mp dp" and "inv s" and "dir_daddr mp dp 0 = Some blk"
    and "dev blk (XFS_FSB_TO_BB mp 1) = None" and "m_dirdatablk mp = 0" and "xfs_dir2_dataptr_to_db mp off = 0"
  shows "xfs_dir2_block_getdents ops iread l2e mp f off t (dp, s) = None"
  using da_read_unreadable [OF assms(1-4)] assms(5,6) by (simp add: xfs_dir2_block_getdents_def)

end

section \<open>Unused entries of length zero\<close>

text \<open>One round that goes on, from a pointer and state of the callback to the next.\<close>

definition block_goes ::
    "xfs_mount \<Rightarrow> bytes \<Rightarrow> 'd filldir \<Rightarrow> int \<Rightarrow> int \<Rightarrow> nat \<times> 'd \<Rightarrow> nat \<times> 'd \<Rightarrow> bool" where
  "block_goes mp d f want endptr c c' \<longleftrightarrow>
     block_step mp d f want endptr (fst c) (snd c) = Some (Next (fst c') (snd c'))"

lemma block_goes_loop:
  assumes "(block_goes mp d f want endptr)\<^sup>*\<^sup>* c c'"
  shows "block_getdents_loop mp d f want endptr (fst c) (snd c) = block_getdents_loop mp d f want endptr (fst c') (snd c')"
  using assms
proof (induction rule: converse_rtranclp_induct)
  case (step c1 c2)
  then show ?case by (subst block_getdents_loop.simps) (simp add: block_goes_def)
qed simp

text \<open>A round that leads back to where it started never ends.\<close>

lemma block_loop_stuck:
  assumes "block_goes mp d f want endptr (p, s) (p, s)"
  shows "block_getdents_loop mp d f want endptr p s = None"
proof -
  have "\<not> block_goes mp d f want endptr (p, s) (p, s)"
    if "block_getdents_loop mp d f want endptr p s = Some y" for y
  proof (rule block_getdents_loop.raw_induct [where P = "\<lambda>mp d f want endptr p s y.
        \<not> block_goes mp d f want endptr (p, s) (p, s)", OF _ that])
    fix loop mp d f want endptr p s and y :: "int option \<times> 'b"
    assume IH: "\<And>mp d f want endptr p s (y :: int option \<times> 'b).
        loop mp d f want endptr p s = Some y \<Longrightarrow> \<not> block_goes mp d f want endptr (p, s) (p, s)"
      and r: "block_step mp d f want endptr p s \<bind>
        (\<lambda>r. case r of Stop c s \<Rightarrow> Some (c, s) | Next p s \<Rightarrow> loop mp d f want endptr p s) = Some y"
    show "\<not> block_goes mp d f want endptr (p, s) (p, s)"
    proof
      assume g: "block_goes mp d f want endptr (p, s) (p, s)"
      then have "loop mp d f want endptr p s = Some y" using r by (simp add: block_goes_def)
      then show False using IH g by blast
    qed
  qed
  then show ?thesis using assms by (metis not_None_eq)
qed

text \<open>The loop gets to the end of a stretch of entries when the callback takes all of them.\<close>

lemma block_reaches:
  assumes "items_at d p its e" and "int e \<le> endptr"
    and "emit f (map (data_dirent mp) (filter (\<lambda>x. want \<le> int (fst x)) (live_from p its))) s = (None, s')"
  shows "(block_goes mp d f want endptr)\<^sup>*\<^sup>* (p, s) (e, s')"
  using assms
proof (induction its arbitrary: p s)
  case (Cons it its)
  have lt: "int p < endptr"
    using item_size_pos [of d p it] items_at_le [of d "p + item_size it" its e] Cons.prems(1,2) by simp
  show ?case
  proof (cases it)
    case (DFree n)
    have "block_goes mp d f want endptr (p, s) (p + n, s)"
      using Cons.prems(1) DFree lt by (simp add: block_goes_def block_step_def item_at_def XFS_DIR2_DATA_FREE_TAG_def)
    moreover have "(block_goes mp d f want endptr)\<^sup>*\<^sup>* (p + n, s) (e, s')"
      by (rule Cons.IH) (use Cons.prems DFree in simp_all)
    ultimately show ?thesis by (rule converse_rtranclp_into_rtranclp)
  next
    case (DEntry nm ino)
    let ?n = "p + nat (xfs_dir2_data_entsize (int (length nm)))"
    let ?c = "cookie31 (xfs_dir2_db_off_to_dataptr mp (m_dirdatablk mp) (int p))"
    have step: "block_step mp d f want endptr p s =
      Some (if int p < want then Next ?n s
        else case f s nm ?c ino DT_UNKNOWN of (full, s) \<Rightarrow> if full then Stop (Some ?c) s else Next ?n s)"
      using Cons.prems(1) DEntry lt
      by (auto simp: block_step_def item_at_def XFS_DIR2_DATA_FREE_TAG_def Let_def split: prod.split)
    let ?rest = "map (data_dirent mp) (filter (\<lambda>x. want \<le> int (fst x)) (live_from ?n its))"
    have "\<exists>s1. block_step mp d f want endptr p s = Some (Next ?n s1) \<and> emit f ?rest s1 = (None, s')"
    proof (cases "int p < want")
      case True
      then show ?thesis using Cons.prems(3) DEntry step by simp
    next
      case False
      obtain full s1 where f: "f s nm ?c ino DT_UNKNOWN = (full, s1)" by (cases "f s nm ?c ino DT_UNKNOWN")
      have "emit f (data_dirent mp (p, nm, ino) # ?rest) s = (None, s')" using Cons.prems(3) DEntry False by simp
      then have "\<not> full" "emit f ?rest s1 = (None, s')"
        using f by (auto simp: data_dirent_def split: if_splits)
      then show ?thesis using step False f by simp
    qed
    then obtain s1 where s1: "block_step mp d f want endptr p s = Some (Next ?n s1)" "emit f ?rest s1 = (None, s')"
      by blast
    have "(block_goes mp d f want endptr)\<^sup>*\<^sup>* (?n, s1) (e, s')"
      by (rule Cons.IH [OF _ Cons.prems(2) s1(2)]) (use Cons.prems(1) DEntry in simp)
    moreover have "block_goes mp d f want endptr (p, s) (?n, s1)" using s1(1) by (simp add: block_goes_def)
    ultimately show ?thesis by (rule converse_rtranclp_into_rtranclp [rotated])
  qed
qed simp

lemma block_zero_stuck:
  assumes "int p < endptr" and "data_freetag d p = Some XFS_DIR2_DATA_FREE_TAG" and "data_unused_length d p = Some 0"
  shows "block_goes mp d f want endptr (p, s) (p, s)"
  using assms by (simp add: block_goes_def block_step_def)

end
