(* ===== verification/Dir2_Lookup.thy ===== *)
theory Dir2_Lookup
  imports Dir2_Block
begin

text \<open>
  Looking a name up in a directory: the hash of names (libxfs/xfs_da_btree.c, libxfs/xfs_dir2.c) and directories
  of one block (\<open>xfs_dir2_block_lookup\<close> of libxfs/xfs_dir2_block.c).
\<close>

section \<open>Hashes of names\<close>

definition rol32 :: "u32 \<Rightarrow> nat \<Rightarrow> u32" where
  "rol32 x y = push_bit y x OR drop_bit (32 - y) x"

fun da_hash_loop :: "u32 \<Rightarrow> bytes \<Rightarrow> u32" where
  "da_hash_loop hash (a # b # c # d # name) =
     da_hash_loop (push_bit 21 (ucast a) XOR push_bit 14 (ucast b) XOR push_bit 7 (ucast c) XOR ucast d XOR rol32 hash 28) name"
| "da_hash_loop hash [a, b, c] = push_bit 14 (ucast a) XOR push_bit 7 (ucast b) XOR ucast c XOR rol32 hash 21"
| "da_hash_loop hash [a, b] = push_bit 7 (ucast a) XOR ucast b XOR rol32 hash 14"
| "da_hash_loop hash [a] = ucast a XOR rol32 hash 7"
| "da_hash_loop hash [] = hash"

definition xfs_da_hashname :: "bytes \<Rightarrow> u32" where
  "xfs_da_hashname name = da_hash_loop 0 name"

text \<open>The characters are signed here.\<close>

definition xfs_ascii_ci_hashname :: "bytes \<Rightarrow> u32" where
  "xfs_ascii_ci_hashname name = fold (\<lambda>c hash. scast (c_tolower c) XOR rol32 hash 7) name 0"

definition hashname :: "xfs_mount \<Rightarrow> bytes \<Rightarrow> nat" where
  "hashname mp name = unat (if xfs_sb_version_hasasciici (m_sb mp) then xfs_ascii_ci_hashname name else xfs_da_hashname name)"

section \<open>Directories of one block\<close>

text \<open>
  The binary search over the leaf entries, which are indexed from pointer \<open>blp\<close>: the outer \<open>None\<close> is an access
  outside the block, the inner one \<open>ENOENT\<close>. In an empty directory the first round looks at index \<open>-1\<close>.
\<close>

function block_bsearch :: "bytes \<Rightarrow> int \<Rightarrow> nat \<Rightarrow> int \<Rightarrow> int \<Rightarrow> int option option" where
  "block_bsearch d blp hashval low high = do {
     let mid = (low + high) div 2;
     hash \<leftarrow> leaf_hashval d blp mid;
     if hash = hashval then Some (Some mid)
     else let low' = (if hash < hashval then mid + 1 else low); high' = (if hash < hashval then high else mid - 1) in
       if low' > high' then Some None else block_bsearch d blp hashval low' high' }"
  by pat_completeness auto
termination
  by (relation "measure (\<lambda>(d, blp, hashval, low, high). nat (high - low + 1))") (auto split: if_splits)

declare block_bsearch.simps [simp del]

text \<open>Back to the first entry with the hash.\<close>

function block_backup :: "bytes \<Rightarrow> int \<Rightarrow> nat \<Rightarrow> int \<Rightarrow> int option" where
  "block_backup d blp hashval mid =
     (if mid > 0 then do {
        hash \<leftarrow> leaf_hashval d blp (mid - 1);
        if hash = hashval then block_backup d blp hashval (mid - 1) else Some mid }
      else Some mid)"
  by pat_completeness auto
termination
  by (relation "measure (\<lambda>(d, blp, hashval, mid). nat mid)") auto

declare block_backup.simps [simp del]

definition XFS_DIR2_NULL_DATAPTR :: nat where "XFS_DIR2_NULL_DATAPTR = 0"

text \<open>The data entry of a leaf entry.\<close>

definition leaf_dep :: "xfs_mount \<Rightarrow> nat \<Rightarrow> nat" where
  "leaf_dep mp addr = nat (xfs_dir2_dataptr_to_off mp (int addr))"

text \<open>Forward over the entries with the hash; \<open>ent\<close> is the index of the match found last.\<close>

definition block_compare ::
    "xfs_mount \<Rightarrow> bytes \<Rightarrow> nat \<Rightarrow> int \<Rightarrow> da_args \<times> int option \<Rightarrow> (bool \<times> da_args \<times> int option) option" where
  "block_compare mp d addr mid r = (case r of (args, ent) \<Rightarrow>
     if addr = XFS_DIR2_NULL_DATAPTR then Some (False, args, ent)
     else do {
       nm \<leftarrow> data_name d (leaf_dep mp addr);
       let cmp = compname mp args nm;
       Some (if cmp \<noteq> XFS_CMP_DIFFERENT \<and> cmp \<noteq> a_cmpresult args
         then (cmp = XFS_CMP_EXACT, args\<lparr>a_cmpresult := cmp\<rparr>, Some mid) else (False, args, ent)) })"

function block_scan ::
    "xfs_mount \<Rightarrow> bytes \<Rightarrow> int \<Rightarrow> nat \<Rightarrow> nat \<Rightarrow> int \<Rightarrow> da_args \<times> int option \<Rightarrow> (bool \<times> da_args \<times> int option) option" where
  "block_scan mp d blp count hash mid r = do {
     addr \<leftarrow> leaf_address d blp mid;
     (found, r) \<leftarrow> block_compare mp d addr mid r;
     if found then Some (True, r)
     else if mid + 1 < int count then do {
       h \<leftarrow> leaf_hashval d blp (mid + 1);
       if h = hash then block_scan mp d blp count hash (mid + 1) r else Some (False, r) }
     else Some (False, r) }"
  by pat_completeness auto
termination
  by (relation "measure (\<lambda>(mp, d, blp, count, hash, mid, r). nat (int count - mid))") auto

declare block_scan.simps [simp del]

text \<open>
  The search of \<open>xfs_dir2_block_lookup_int\<close> in the block read: the arguments and the index of the entry,
  none for \<open>ENOENT\<close>.
\<close>

definition block_search :: "xfs_mount \<Rightarrow> bytes \<Rightarrow> nat \<Rightarrow> da_args \<Rightarrow> (da_args \<times> int option) option" where
  "block_search mp d hashval args = do {
     count \<leftarrow> tail_count mp d;
     blp \<leftarrow> xfs_dir2_block_leaf_p mp d;
     r \<leftarrow> block_bsearch d blp hashval 0 (to_s32 (int count - 1));
     case r of
       None \<Rightarrow> Some (args, None)
     | Some mid \<Rightarrow> do {
         mid \<leftarrow> block_backup d blp hashval mid;
         (found, args, ent) \<leftarrow> block_scan mp d blp count hashval mid (args, None);
         Some (args, if found \<or> a_cmpresult args = XFS_CMP_CASE then ent else None) } }"

text \<open>Error, buffer, index of the entry, arguments, inode, state.\<close>

definition xfs_dir2_block_lookup_int ::
    "('b, 's) buf_ops \<Rightarrow> 's inode_reader \<Rightarrow> 's inode_reader \<Rightarrow> xfs_mount \<Rightarrow> xfs_inode \<Rightarrow> nat \<Rightarrow> da_args \<Rightarrow> 's \<Rightarrow>
      (int \<times> 'b dabuf option \<times> int \<times> da_args \<times> xfs_inode \<times> 's) option" where
  "xfs_dir2_block_lookup_int ops iread l2e mp dp hashval args s = do {
     (error, bp, dp, s) \<leftarrow> xfs_da_read_buf ops iread l2e mp dp (nat (m_dirdatablk mp)) (- 1) s;
     if error \<noteq> 0 then Some (error, None, 0, args, dp, s)
     else do {
       bp \<leftarrow> bp;
       (args, ent) \<leftarrow> block_search mp (da_data bp) hashval args;
       case ent of
         None \<Rightarrow> Some (errno_code ENOENT, None, 0, args, dp, xfs_da_brelse ops bp s)
       | Some i \<Rightarrow> Some (0, Some bp, i, args, dp, s) } }"

definition xfs_dir2_block_lookup ::
    "bool \<Rightarrow> ('b, 's) buf_ops \<Rightarrow> 's inode_reader \<Rightarrow> 's inode_reader \<Rightarrow> xfs_mount \<Rightarrow> xfs_inode \<Rightarrow> nat \<Rightarrow> da_args \<Rightarrow> 's \<Rightarrow>
      (int \<times> da_args \<times> xfs_inode \<times> 's) option" where
  "xfs_dir2_block_lookup alloc_ok ops iread l2e mp dp hashval args s = do {
     (error, bp, ent, args, dp, s) \<leftarrow> xfs_dir2_block_lookup_int ops iread l2e mp dp hashval args s;
     if error \<noteq> 0 then Some (error, args, dp, s)
     else do {
       bp \<leftarrow> bp;
       let block = da_data bp;
       blp \<leftarrow> xfs_dir2_block_leaf_p mp block;
       addr \<leftarrow> leaf_address block blp ent;
       ino \<leftarrow> data_inumber block (leaf_dep mp addr);
       nm \<leftarrow> data_name block (leaf_dep mp addr);
       let (error, args) = xfs_dir_cilookup_result alloc_ok (args\<lparr>a_inumber := ino\<rparr>) nm;
       Some (errno_code error, args, dp, xfs_da_brelse ops bp s) } }"

section \<open>The index of a block\<close>

text \<open>
  The leaf entries \<open>lf\<close>, hash and address, index the live entries of a block: sorted by hash, each of the hash of
  its entry or stale, and one for every live entry. Names are distinct.
\<close>

definition leaf_index :: "xfs_mount \<Rightarrow> bytes \<Rightarrow> data_item list \<Rightarrow> (nat \<times> nat) list \<Rightarrow> bool" where
  "leaf_index mp d its lf \<longleftrightarrow> tail_count mp d = Some (length lf) \<and> 0 < length lf \<and> length lf < 2 ^ 31 \<and>
     sorted (map fst lf) \<and>
     (\<forall>blp. xfs_dir2_block_leaf_p mp d = Some blp \<longrightarrow> (\<forall>i < length lf.
        leaf_hashval d blp (int i) = Some (fst (lf ! i)) \<and> leaf_address d blp (int i) = Some (snd (lf ! i)))) \<and>
     (\<forall>e \<in> set lf. snd e = XFS_DIR2_NULL_DATAPTR \<or>
        (\<exists>nm ino. (snd e * 8, nm, ino) \<in> set (live_from 16 its) \<and> fst e = hashname mp nm)) \<and>
     (\<forall>x \<in> set (live_from 16 its). (hashname mp (fst (snd x)), fst x div 8) \<in> set lf) \<and>
     distinct (map (\<lambda>x. fst (snd x)) (live_from 16 its))"

lemma bsearch_ok:
  assumes "\<forall>i < length hs. leaf_hashval d blp (int i) = Some (hs ! i)" and "sorted hs"
  shows "0 \<le> low \<Longrightarrow> low \<le> high \<Longrightarrow> high < int (length hs) \<Longrightarrow>
    (\<forall>i < length hs. int i < low \<longrightarrow> hs ! i \<noteq> hv) \<Longrightarrow> (\<forall>i < length hs. high < int i \<longrightarrow> hs ! i \<noteq> hv) \<Longrightarrow>
    (\<exists>m. block_bsearch d blp hv low high = Some (Some (int m)) \<and> m < length hs \<and> hs ! m = hv) \<or>
    block_bsearch d blp hv low high = Some None \<and> hv \<notin> set hs"
proof (induction "nat (high - low)" arbitrary: low high rule: less_induct)
  case less
  define m where "m = nat ((low + high) div 2)"
  have m: "int m = (low + high) div 2" "low \<le> int m" "int m \<le> high" "m < length hs"
    using less.prems(1-3) by (auto simp: m_def)
  have h: "leaf_hashval d blp (int m) = Some (hs ! m)" using assms(1) m(4) by blast
  note step = block_bsearch.simps [of d blp hv low high, folded m(1), unfolded Let_def h]
  show ?case
  proof (cases "hs ! m = hv")
    case True
    then show ?thesis using step m(4) by (auto simp: Let_def)
  next
    case ne: False
    define lo where "lo = (if hs ! m < hv then int m + 1 else low)"
    define hi where "hi = (if hs ! m < hv then high else int m - 1)"
    have srt: "i \<le> j \<Longrightarrow> j < length hs \<Longrightarrow> hs ! i \<le> hs ! j" for i j using assms(2) by (rule sorted_nth_mono)
    have below: "hs ! i \<noteq> hv" if "i < length hs" "int i < lo" for i
    proof (cases "int i < low")
      case True
      then show ?thesis using less.prems(4) that(1) by blast
    next
      case False
      then have "hs ! m < hv" "i \<le> m" using that(2) by (auto simp: lo_def split: if_splits)
      then show ?thesis using srt [of i m] m(4) by auto
    qed
    have above: "hs ! i \<noteq> hv" if "i < length hs" "hi < int i" for i
    proof (cases "high < int i")
      case True
      then show ?thesis using less.prems(5) that(1) by blast
    next
      case False
      then have "\<not> hs ! m < hv" "m \<le> i" using that(2) by (auto simp: hi_def split: if_splits)
      then show ?thesis using srt [of m i] ne that(1) by auto
    qed
    have go: "block_bsearch d blp hv low high = (if lo > hi then Some None else block_bsearch d blp hv lo hi)"
      using step ne by (simp add: Let_def lo_def hi_def)
    show ?thesis
    proof (cases "lo > hi")
      case True
      then have "int i < lo \<or> hi < int i" for i by linarith
      then have "hv \<notin> set hs" using below above by (metis in_set_conv_nth)
      then show ?thesis using go True by simp
    next
      case False
      have "nat (hi - lo) < nat (high - low)" "0 \<le> lo" "hi < int (length hs)"
        using False m less.prems(1-3) by (auto simp: lo_def hi_def split: if_splits)
      then show ?thesis using less.hyps [of hi lo] False below above go by auto
    qed
  qed
qed

lemma backup_ok:
  assumes "\<forall>i < length hs. leaf_hashval d blp (int i) = Some (hs ! i)" and "sorted hs"
  shows "m < length hs \<Longrightarrow> hs ! m = hv \<Longrightarrow>
    \<exists>f. block_backup d blp hv (int m) = Some (int f) \<and> f < length hs \<and> hs ! f = hv \<and> (\<forall>i < f. hs ! i \<noteq> hv)"
proof (induction m)
  case 0
  then show ?case by (subst block_backup.simps) auto
next
  case (Suc m)
  have h: "leaf_hashval d blp (int m) = Some (hs ! m)" using assms(1) Suc.prems(1) by simp
  show ?case
  proof (cases "hs ! m = hv")
    case True
    then show ?thesis using Suc.IH Suc.prems(1) h by (subst block_backup.simps) auto
  next
    case False
    have "hs ! i \<noteq> hv" if "i \<le> m" for i
      using sorted_nth_mono [OF assms(2), of i m] sorted_nth_mono [OF assms(2), of m "Suc m"] that False Suc.prems
      by auto
    then show ?thesis
      using Suc.prems h False by (subst block_backup.simps) (auto intro!: exI [of _ "Suc m"])
  qed
qed

text \<open>The scan over the entries with the hash, for exact names.\<close>

lemma scan_ok:
  assumes lf: "\<forall>i < length lf. leaf_hashval d blp (int i) = Some (fst (lf ! i)) \<and> leaf_address d blp (int i) = Some (snd (lf ! i))"
    and srt: "sorted (map fst lf)" and nm: "\<forall>i < length lf. snd (lf ! i) \<noteq> XFS_DIR2_NULL_DATAPTR \<longrightarrow>
        data_name d (leaf_dep mp (snd (lf ! i))) = Some (name_of i)"
    and ci: "\<not> xfs_sb_version_hasasciici (m_sb mp)" and args: "a_cmpresult args = XFS_CMP_DIFFERENT"
  shows "f < length lf \<Longrightarrow> fst (lf ! f) = hv \<Longrightarrow>
    (\<exists>i < length lf. snd (lf ! i) \<noteq> XFS_DIR2_NULL_DATAPTR \<and> name_of i = a_name args \<and>
       block_scan mp d blp (length lf) hv (int f) (args, None) = Some (True, args\<lparr>a_cmpresult := XFS_CMP_EXACT\<rparr>, Some (int i))) \<or>
    block_scan mp d blp (length lf) hv (int f) (args, None) = Some (False, args, None) \<and>
      (\<forall>i < length lf. f \<le> i \<and> fst (lf ! i) = hv \<longrightarrow> snd (lf ! i) = XFS_DIR2_NULL_DATAPTR \<or> name_of i \<noteq> a_name args)"
proof (induction "length lf - f" arbitrary: f)
  case 0
  then show ?case by simp
next
  case (Suc k)
  let ?a = "snd (lf ! f)"
  have addr: "leaf_address d blp (int f) = Some ?a" using lf Suc.prems(1) by blast
  note step = block_scan.simps [of mp d blp "length lf" hv "int f" "(args, None)", unfolded addr]
  show ?case
  proof (cases "?a \<noteq> XFS_DIR2_NULL_DATAPTR \<and> name_of f = a_name args")
    case True
    then have "data_name d (leaf_dep mp ?a) = Some (a_name args)" using nm Suc.prems(1) by auto
    then have "block_compare mp d ?a (int f) (args, None) =
        Some (True, args\<lparr>a_cmpresult := XFS_CMP_EXACT\<rparr>, Some (int f))"
      using True ci args by (simp add: block_compare_def compname_def xfs_da_compname_def Let_def)
    then show ?thesis using step True Suc.prems(1) by auto
  next
    case False
    then have cmp: "block_compare mp d ?a (int f) (args, None) = Some (False, args, None)"
      using nm Suc.prems(1) ci args
      by (auto simp: block_compare_def compname_def xfs_da_compname_def Let_def)
    show ?thesis
    proof (cases "Suc f < length lf")
      case False
      have res: "block_scan mp d blp (length lf) hv (int f) (args, None) = Some (False, args, None)"
        using step cmp False by simp
      have "i = f" if "i < length lf" "f \<le> i" for i using that False by linarith
      then show ?thesis using res \<open>\<not> (_ \<noteq> _ \<and> _)\<close> by metis
    next
      case more: True
      have h: "leaf_hashval d blp (int f + 1) = Some (fst (lf ! Suc f))"
        using lf more by (metis of_nat_Suc add.commute)
      show ?thesis
      proof (cases "fst (lf ! Suc f) = hv")
        case True
        have go: "block_scan mp d blp (length lf) hv (int f) (args, None) =
            block_scan mp d blp (length lf) hv (int (Suc f)) (args, None)"
          using step cmp h True more by (simp add: add.commute)
        have "k = length lf - Suc f" using Suc.hyps(2) by simp
        from Suc.hyps(1) [OF this more True] show ?thesis
          unfolding go using False by (metis Suc_leI le_neq_implies_less)
      next
        case other: False
        have "fst (lf ! i) \<noteq> hv" if "f < i" "i < length lf" for i
          using sorted_nth_mono [OF srt, of "Suc f" i] sorted_nth_mono [OF srt, of f "Suc f"] that more other Suc.prems
          by auto
        then show ?thesis
          using step cmp h other more False by (auto simp: le_less)
      qed
    qed
  qed
qed

text \<open>The search finds the entry of a name, or that there is none.\<close>

definition block_look :: "data_item list \<Rightarrow> bytes \<Rightarrow> nat option" where
  "block_look its nm = map_option (\<lambda>x. snd (snd x)) (find (\<lambda>x. fst (snd x) = nm) (live_from 16 its))"

lemma live_item_at: "items_at d p its e \<Longrightarrow> (q, nm, ino) \<in> set (live_from p its) \<Longrightarrow> item_at d q (DEntry nm ino)"
proof (induction its arbitrary: p)
  case (Cons it its)
  then show ?case unfolding live_from_Cons by (cases it) auto
qed simp

lemma block_look_Some:
  assumes "distinct (map (\<lambda>x. fst (snd x)) (live_from 16 its))" and "(q, nm, ino) \<in> set (live_from 16 its)"
  shows "block_look its nm = Some ino"
proof -
  have "find (\<lambda>x. fst (snd x) = nm) (live_from 16 its) \<noteq> None" using assms(2) by (auto simp: find_None_iff)
  then obtain x where x: "find (\<lambda>x. fst (snd x) = nm) (live_from 16 its) = Some x" by blast
  then have "x \<in> set (live_from 16 its)" "fst (snd x) = nm" by (auto simp: find_Some_iff)
  then have "x = (q, nm, ino)" using assms inj_onD [of "\<lambda>x. fst (snd x)" "set (live_from 16 its)" x "(q, nm, ino)"]
    by (auto simp: distinct_map)
  then show ?thesis using x by (simp add: block_look_def)
qed

lemma leaf_dep_ok:
  assumes g: "geom_ok mp" and "8 dvd p" "p < m_dirblksize mp"
  shows "leaf_dep mp (p div 8) = p"
proof -
  have "xfs_dir2_db_off_to_dataptr mp (m_dirdatablk mp) (int p) = int p div 8" by (rule data_cookie [OF assms(1,3)])
  moreover have "int (m_dirblksize mp) = 2 ^ dir_log mp" using g by (simp add: geom_ok_def)
  ultimately have "xfs_dir2_dataptr_to_off mp (int p div 8) = int p"
    using dataptr_roundtrip [OF g, of "int p"] assms(2,3) by (metis of_nat_0_le_iff of_nat_less_iff int_dvd_int_iff of_nat_numeral)
  then show ?thesis by (simp add: leaf_dep_def zdiv_int)
qed

lemma block_search_ok:
  assumes g: "geom_ok mp" and h: "block_holds mp d its" and lf: "leaf_index mp d its lf"
    and ci: "\<not> xfs_sb_version_hasasciici (m_sb mp)" and args: "a_cmpresult args = XFS_CMP_DIFFERENT"
  shows "(case block_look its (a_name args) of
      None \<Rightarrow> block_search mp d (hashname mp (a_name args)) args = Some (args, None)
    | Some ino \<Rightarrow> (\<exists>i blp addr. block_search mp d (hashname mp (a_name args)) args =
          Some (args\<lparr>a_cmpresult := XFS_CMP_EXACT\<rparr>, Some i) \<and> xfs_dir2_block_leaf_p mp d = Some blp \<and>
        leaf_address d blp i = Some addr \<and> data_inumber d (leaf_dep mp addr) = Some ino \<and>
        data_name d (leaf_dep mp addr) = Some (a_name args)))"
proof -
  let ?hv = "hashname mp (a_name args)" and ?hs = "map fst lf"
  obtain e where e: "xfs_dir2_block_leaf_p mp d = Some (int e)" "items_at d 16 its e" "e \<le> m_dirblksize mp"
    and al: "aligned its" using h by (auto simp: block_holds_def)
  have L: "tail_count mp d = Some (length lf)" "0 < length lf" "length lf < 2 ^ 31" "sorted ?hs"
    "\<forall>i < length lf. leaf_hashval d (int e) (int i) = Some (fst (lf ! i)) \<and> leaf_address d (int e) (int i) = Some (snd (lf ! i))"
    "distinct (map (\<lambda>x. fst (snd x)) (live_from 16 its))"
    using lf e(1) by (auto simp: leaf_index_def)
  have ent: "\<exists>nm ino. (snd x * 8, nm, ino) \<in> set (live_from 16 its) \<and> fst x = hashname mp nm"
    if "x \<in> set lf" "snd x \<noteq> XFS_DIR2_NULL_DATAPTR" for x
    using lf that by (auto simp: leaf_index_def)
  have dep: "leaf_dep mp a = a * 8 \<and> data_name d (a * 8) = Some nm \<and> data_inumber d (a * 8) = Some ino"
    if "(a * 8, nm, ino) \<in> set (live_from 16 its)" for a nm ino
    using leaf_dep_ok [OF g, of "a * 8"] live_from_bounds [OF e(2) that] e(3) live_item_at [OF e(2) that]
    by (auto simp: item_at_def)
  define name_of where "name_of i = the (data_name d (leaf_dep mp (snd (lf ! i))))" for i
  have nm: "\<forall>i < length lf. snd (lf ! i) \<noteq> XFS_DIR2_NULL_DATAPTR \<longrightarrow>
      data_name d (leaf_dep mp (snd (lf ! i))) = Some (name_of i)"
    using ent dep unfolding name_of_def by (metis nth_mem option.sel)
  have hs: "\<forall>i < length ?hs. leaf_hashval d (int e) (int i) = Some (?hs ! i)" using L(5) by simp
  have start: "to_s32 (int (length lf) - 1) = int (length lf) - 1" using L(2,3) by simp
  have live_leaf: "\<exists>i < length lf. lf ! i = (?hv, q div 8) \<and> q = q div 8 * 8 \<and> 0 < q"
    if "(q, a_name args, ino) \<in> set (live_from 16 its)" for q ino
  proof -
    have "(?hv, q div 8) \<in> set lf" using lf that by (fastforce simp: leaf_index_def)
    moreover have "8 dvd q" "16 \<le> q" using live_from_aligned [OF al _ that] live_from_bounds [OF e(2) that] by auto
    ultimately show ?thesis by (auto simp: in_set_conv_nth)
  qed
  consider m where "block_bsearch d (int e) ?hv 0 (int (length lf) - 1) = Some (Some (int m))" "m < length lf" "?hs ! m = ?hv"
    | "block_bsearch d (int e) ?hv 0 (int (length lf) - 1) = Some None" "?hv \<notin> set ?hs"
    using bsearch_ok [OF hs L(4), of 0 "int (length lf) - 1" ?hv] L(2) by auto
  then show ?thesis
  proof cases
    case 2
    have none: "block_look its (a_name args) = None"
    proof (rule ccontr)
      assume "\<not> ?thesis"
      then obtain q ino where "(q, a_name args, ino) \<in> set (live_from 16 its)"
        by (auto simp: block_look_def find_Some_iff) (metis nth_mem prod.collapse)
      then have "?hv \<in> set ?hs" using live_leaf by (metis fst_conv image_eqI list.set_map nth_mem)
      then show False using 2 by blast
    qed
    show ?thesis unfolding none using 2 e(1) L(1) start by (simp add: block_search_def)
  next
    case 1
    obtain f where f: "block_backup d (int e) ?hv (int m) = Some (int f)" "f < length lf" "fst (lf ! f) = ?hv"
      "\<forall>i < f. ?hs ! i \<noteq> ?hv"
      using backup_ok [OF hs L(4), of m ?hv] 1 by auto
    consider i where "i < length lf" "snd (lf ! i) \<noteq> XFS_DIR2_NULL_DATAPTR" "name_of i = a_name args"
        "block_scan mp d (int e) (length lf) ?hv (int f) (args, None) =
          Some (True, args\<lparr>a_cmpresult := XFS_CMP_EXACT\<rparr>, Some (int i))"
      | "block_scan mp d (int e) (length lf) ?hv (int f) (args, None) = Some (False, args, None)"
        "\<forall>i < length lf. f \<le> i \<and> fst (lf ! i) = ?hv \<longrightarrow> snd (lf ! i) = XFS_DIR2_NULL_DATAPTR \<or> name_of i \<noteq> a_name args"
      using scan_ok [OF L(5,4) nm ci args f(2,3)] by auto
    then show ?thesis
    proof cases
      case (1 i)
      obtain nm ino where n: "(snd (lf ! i) * 8, nm, ino) \<in> set (live_from 16 its)" using ent 1(1,2) nth_mem by blast
      have "nm = a_name args" using dep [OF n] 1(3) by (simp add: name_of_def)
      then have look: "block_look its (a_name args) = Some ino" using block_look_Some [OF L(6) n] by simp
      show ?thesis
        unfolding look using \<open>block_bsearch _ _ _ _ _ = _\<close> f(1) 1 e(1) L(1,5) start dep [OF n] \<open>nm = a_name args\<close>
        by (simp add: block_search_def)
    next
      case 2
      have none: "block_look its (a_name args) = None"
      proof (rule ccontr)
        assume "\<not> ?thesis"
        then obtain q ino where q: "(q, a_name args, ino) \<in> set (live_from 16 its)"
          by (auto simp: block_look_def find_Some_iff) (metis nth_mem prod.collapse)
        obtain i where i: "i < length lf" "lf ! i = (?hv, q div 8)" "q = q div 8 * 8" "0 < q" using live_leaf [OF q] by blast
        have "f \<le> i" using f(4) i(1,2) by (metis fst_conv not_le nth_map)
        moreover have "name_of i = a_name args" using dep [of "q div 8"] q i by (simp add: name_of_def)
        moreover have "q div 8 \<noteq> 0" using i(3,4) by auto
        ultimately show False using 2(2) i(1,2) by (auto simp: XFS_DIR2_NULL_DATAPTR_def)
      qed
      show ?thesis
        unfolding none using \<open>block_bsearch _ _ _ _ _ = _\<close> f(1) 2(1) e(1) L(1) start args by (simp add: block_search_def)
    qed
  qed
qed

definition block_index_ok ::
    "(int \<Rightarrow> int \<Rightarrow> bytes option) \<Rightarrow> xfs_mount \<Rightarrow> xfs_inode \<Rightarrow> data_item list \<Rightarrow> bool" where
  "block_index_ok dev mp dp its \<longleftrightarrow> geom_ok mp \<and> \<not> xfs_sb_version_hasasciici (m_sb mp) \<and> dir_ready mp dp \<and>
     (\<exists>blk x lf. dir_daddr mp dp 0 = Some blk \<and> dev blk (XFS_FSB_TO_BB mp 1) = Some x \<and>
       da_magic_ok x = Some True \<and> block_holds mp x its \<and> leaf_index mp x its lf)"

context buf_store
begin

lemma block_lookup_ok:
  assumes ok: "block_index_ok dev mp dp its" and s: "inv s" and args: "a_cmpresult args = XFS_CMP_DIFFERENT"
  shows "\<exists>s'. inv s' \<and> xfs_dir2_block_lookup alloc_ok ops iread l2e mp dp (hashname mp (a_name args)) args s =
    Some (case block_look its (a_name args) of
        None \<Rightarrow> (errno_code ENOENT, args, dp, s')
      | Some ino \<Rightarrow> (errno_code EEXIST, args\<lparr>a_cmpresult := XFS_CMP_EXACT, a_inumber := ino\<rparr>, dp, s'))"
proof -
  obtain blk x lf where g: "geom_ok mp" and ci: "\<not> xfs_sb_version_hasasciici (m_sb mp)" and r: "dir_ready mp dp"
    and a: "dir_daddr mp dp 0 = Some blk" and d: "dev blk (XFS_FSB_TO_BB mp 1) = Some x"
    and m: "da_magic_ok x = Some True" and h: "block_holds mp x its" and lf: "leaf_index mp x its lf"
    using ok by (auto simp: block_index_ok_def)
  obtain rbp s1 where rd: "xfs_da_read_buf ops iread l2e mp dp 0 (- 1) s = Some (0, Some rbp, dp, s1)"
    "da_data rbp = x" "inv (xfs_da_brelse ops rbp s1)"
    using da_read_single [OF r s a d m] by blast
  have blk0: "m_dirdatablk mp = 0" using g by (simp add: geom_ok_def)
  note srch = block_search_ok [OF g h lf ci args]
  show ?thesis
  proof (cases "block_look its (a_name args)")
    case None
    then show ?thesis
      using srch rd blk0 by (simp add: xfs_dir2_block_lookup_def xfs_dir2_block_lookup_int_def)
  next
    case (Some ino)
    then obtain i blp addr where f: "block_search mp x (hashname mp (a_name args)) args =
        Some (args\<lparr>a_cmpresult := XFS_CMP_EXACT\<rparr>, Some i)" "xfs_dir2_block_leaf_p mp x = Some blp"
      "leaf_address x blp i = Some addr" "data_inumber x (leaf_dep mp addr) = Some ino"
      "data_name x (leaf_dep mp addr) = Some (a_name args)" using srch by auto
    then show ?thesis
      using Some rd blk0
      by (simp add: xfs_dir2_block_lookup_def xfs_dir2_block_lookup_int_def xfs_dir_cilookup_result_def)
  qed
qed

end

end
