(* ===== verification/Dir2_Leaf.thy ===== *)
theory Dir2_Leaf
  imports Dir2_Block
begin

text \<open>
  Reading leaf and node directories (\<open>xfs_dir2_leaf_getdents\<close> of xfsutil/xfsutil.c), whose data blocks lie below
  \<open>XFS_DIR2_LEAF_OFFSET\<close>, and the dispatch of \<open>xfs_readdir\<close>. The scan keeps a table of mappings that is filled up
  from the extent list and used up block by block. The table is the list of its valid entries; reading
  behind them gives \<open>None\<close>.
\<close>

section \<open>The scan\<close>

record 'b leaf_scan =
  ls_map :: "bmap list"
  ls_blocks :: int
  ls_off :: nat
  ls_ra :: int
  ls_bp :: "'b dabuf option"
  ls_ptr :: nat
  ls_curoff :: int
  ls_bufsize :: int

definition howmany :: "int \<Rightarrow> int \<Rightarrow> int" where
  "howmany x y = (x + (y - 1)) div y"

text \<open>The number of file system blocks a buffer of \<open>bufsize\<close> bytes and one directory block make.\<close>

definition leaf_want :: "xfs_mount \<Rightarrow> int \<Rightarrow> int" where
  "leaf_want mp bufsize = to_s32 (howmany (to_u64 (bufsize + int (m_dirblksize mp))) (int (sb_blocksize (m_sb mp))))"

text \<open>Taking \<open>i\<close> blocks from the front of the table.\<close>

fun map_consume :: "nat \<Rightarrow> bmap list \<Rightarrow> bmap list option" where
  "map_consume i [] = (if i = 0 then Some [] else None)"
| "map_consume i (m # ms) =
     (if i = 0 then Some (m # ms)
      else let j = min (bm_cnt m) i in
        if bm_cnt m = j then map_consume (i - j) ms
        else Some (m \<lparr> bm_off := bm_off m + j, bm_blk := bm_blk m + j, bm_cnt := bm_cnt m - j \<rparr> # ms))"

definition leaf_release :: "('b, 's) buf_ops \<Rightarrow> xfs_mount \<Rightarrow> 'b leaf_scan \<Rightarrow> 's \<Rightarrow> ('b leaf_scan \<times> 's) option" where
  "leaf_release ops mp ls s = (case ls_bp ls of
      None \<Rightarrow> Some (ls, s)
    | Some bp \<Rightarrow> do {
        table \<leftarrow> map_consume (m_dirblkfsbs mp) (ls_map ls);
        Some (ls \<lparr> ls_bp := None, ls_blocks := to_u32 (ls_blocks ls - int (m_dirblkfsbs mp)), ls_map := table \<rparr>,
          xfs_da_brelse ops bp s) })"

text \<open>More mappings behind the ones in the table; holes are dropped.\<close>

definition leaf_refill ::
    "'s inode_reader \<Rightarrow> 's inode_reader \<Rightarrow> xfs_mount \<Rightarrow> nat \<Rightarrow> 'b leaf_scan \<Rightarrow> xfs_inode \<Rightarrow> 's \<Rightarrow>
      (int \<times> 'b leaf_scan \<times> xfs_inode \<times> 's) option" where
  "leaf_refill iread l2e mp map_size ls dp s =
    (let ra_want = leaf_want mp (ls_bufsize ls) - 1; leafblk = xfs_dir2_byte_to_da mp XFS_DIR2_LEAF_OFFSET;
       room = map_size - length (ls_map ls) in
     if to_u32 (1 + ra_want) > ls_blocks ls \<and> int (ls_off ls) < leafblk then do {
       (error, ms, dp, s) \<leftarrow> xfs_bmapi_read iread l2e False False dp (ls_off ls) (nat leafblk - ls_off ls) room s;
       let keep = filter (\<lambda>m. bm_blk m \<noteq> HOLESTARTBLOCK) ms;
       Some (if error \<noteq> 0 then (error, ls, dp, s)
         else (0, ls \<lparr> ls_map := ls_map ls @ keep, ls_blocks := to_u32 (ls_blocks ls + int (sum_list (map bm_cnt keep))),
             ls_off := (if length ms = room then bm_end (last (ls_map ls @ ms)) else nat leafblk) \<rparr>, dp, s)) }
     else Some (0, ls, dp, s))"

text \<open>The read-ahead: stepping over one directory block in the table, and asking for the blocks not contiguous.\<close>

function ra_skip :: "nat \<Rightarrow> bmap list \<Rightarrow> nat \<Rightarrow> nat \<Rightarrow> nat \<Rightarrow> (nat \<times> nat) option" where
  "ra_skip n table j idx off =
    (if j < n then
       if idx < length table then
         let len = min n (bm_cnt (table ! idx) - off) in
         if off + len = bm_cnt (table ! idx) then ra_skip n table (j + len + 1) (idx + 1) 0
         else ra_skip n table (j + len + 1) idx (off + len)
       else None
     else Some (idx, off))"
  by pat_completeness auto
termination
  by (relation "measure (\<lambda>(n, table, j, idx, off). n - j)") auto

partial_function (option) leaf_readahead ::
    "('b, 's) buf_ops \<Rightarrow> 's inode_reader \<Rightarrow> 's inode_reader \<Rightarrow> xfs_mount \<Rightarrow> bmap list \<Rightarrow> int \<Rightarrow> int \<Rightarrow>
      int \<Rightarrow> nat \<Rightarrow> nat \<Rightarrow> int \<Rightarrow> xfs_inode \<Rightarrow> 's \<Rightarrow> (int \<times> xfs_inode \<times> 's) option" where
  "leaf_readahead ops iread l2e mp table blocks want i idx off ra dp s =
    (if want > ra \<and> i < blocks then do {
       (ra, dp, s) \<leftarrow>
         (if i > ra then
            if idx < length table then
              if m_dirblkfsbs mp \<le> bm_cnt (table ! idx) then Some (i, dp, s)
              else map_option (\<lambda>(dp, s). (i, dp, s)) (xfs_da_reada_buf ops iread l2e mp dp (bm_off (table ! idx) + off) s)
            else None
          else Some (ra, dp, s));
       (idx, off) \<leftarrow> ra_skip (m_dirblkfsbs mp) table 0 idx off;
       leaf_readahead ops iread l2e mp table blocks want (i + int (m_dirblkfsbs mp)) idx off ra dp s }
     else Some (ra, dp, s))"

text \<open>The first position of a block at or behind \<open>byteoff\<close>.\<close>

partial_function (option) leaf_skip :: "bytes \<Rightarrow> nat \<Rightarrow> nat \<Rightarrow> nat option" where
  "leaf_skip d byteoff ptr =
    (if ptr < byteoff then do {
       tag \<leftarrow> data_freetag d ptr;
       len \<leftarrow> (if tag = XFS_DIR2_DATA_FREE_TAG then data_unused_length d ptr
         else map_option (\<lambda>n. nat (xfs_dir2_data_entsize (int n))) (data_namelen d ptr));
       leaf_skip d byteoff (ptr + len) }
     else Some ptr)"

text \<open>The position in a new block: whether it is behind the block, the pointer and the overall offset.\<close>

definition leaf_position :: "xfs_mount \<Rightarrow> bytes \<Rightarrow> int \<Rightarrow> (bool \<times> nat \<times> int) option" where
  "leaf_position mp d curoff =
    (let byteoff = xfs_dir2_byte_to_off mp curoff in
     if byteoff = 0 then Some (False, 16, curoff + 16)
     else do {
       ptr \<leftarrow> leaf_skip d (nat byteoff) 16;
       Some (m_dirblksize mp \<le> ptr, ptr, xfs_dir2_db_off_to_byte mp (xfs_dir2_byte_to_db mp curoff) (int ptr)) })"

text \<open>
  The next block: an error or the end of the blocks (\<open>Some\<close>, which ends the scan), or whether the position
  sought is behind the block.
\<close>

definition leaf_next ::
    "('b, 's) buf_ops \<Rightarrow> 's inode_reader \<Rightarrow> 's inode_reader \<Rightarrow> xfs_mount \<Rightarrow> nat \<Rightarrow> 'b leaf_scan \<Rightarrow> xfs_inode \<Rightarrow> 's \<Rightarrow>
      (int option \<times> bool \<times> 'b leaf_scan \<times> xfs_inode \<times> 's) option" where
  "leaf_next ops iread l2e mp map_size ls dp s = do {
     (ls, s) \<leftarrow> leaf_release ops mp ls s;
     (error, ls, dp, s) \<leftarrow> leaf_refill iread l2e mp map_size ls dp s;
     if error \<noteq> 0 then Some (Some error, False, ls, dp, s)
     else case ls_map ls of
       [] \<Rightarrow> Some (Some 0, False, ls \<lparr> ls_curoff := xfs_dir2_da_to_byte mp (int (ls_off ls)) \<rparr>, dp, s)
     | m # ms \<Rightarrow> do {
         (error, bp, dp, s) \<leftarrow> xfs_da_read_buf ops iread l2e mp dp (bm_off m)
           (if m_dirblkfsbs mp \<le> bm_cnt m then XFS_FSB_TO_DADDR mp (int (bm_blk m)) else - 1) s;
         if error \<noteq> 0 then Some (Some error, False, ls \<lparr> ls_bp := bp \<rparr>, dp, s)
         else do {
           let ra = (if ls_ra ls \<noteq> 0 then ls_ra ls - int (m_dirblkfsbs mp) else 0);
           (ra, dp, s) \<leftarrow> leaf_readahead ops iread l2e mp (ls_map ls) (ls_blocks ls) (leaf_want mp (ls_bufsize ls) - 1)
             0 0 0 ra dp s;
           let newoff = xfs_dir2_db_off_to_byte mp (xfs_dir2_da_to_db mp (int (bm_off m))) 0;
           bp \<leftarrow> bp;
           (behind, ptr, curoff) \<leftarrow> leaf_position mp (da_data bp) (max (ls_curoff ls) newoff);
           Some (None, behind, ls \<lparr> ls_ra := ra, ls_bp := Some bp, ls_ptr := ptr, ls_curoff := curoff \<rparr>, dp, s) } } }"

text \<open>The entry at the pointer; a callback that has no room ends the scan.\<close>

definition leaf_entry ::
    "xfs_mount \<Rightarrow> ('d \<times> 's) filldir \<Rightarrow> 'b leaf_scan \<Rightarrow> 'd \<Rightarrow> 's \<Rightarrow> (int option \<times> 'b leaf_scan \<times> 'd \<times> 's) option" where
  "leaf_entry mp filldir ls t s = do {
     bp \<leftarrow> ls_bp ls;
     let d = da_data bp;
     let ptr = ls_ptr ls;
     tag \<leftarrow> data_freetag d ptr;
     if tag = XFS_DIR2_DATA_FREE_TAG then do {
       len \<leftarrow> data_unused_length d ptr;
       Some (None, ls \<lparr> ls_ptr := ptr + len, ls_curoff := ls_curoff ls + int len \<rparr>, t, s) }
     else do {
       namelen \<leftarrow> data_namelen d ptr;
       let len = nat (xfs_dir2_data_entsize (int namelen));
       nm \<leftarrow> data_name d ptr;
       ino \<leftarrow> data_inumber d ptr;
       let (full, t, s) = filldir (t, s) nm (cookie31 (xfs_dir2_byte_to_dataptr mp (ls_curoff ls))) ino DT_UNKNOWN;
       Some (if full then (Some 0, ls, t, s)
         else (None, ls \<lparr> ls_ptr := ptr + len, ls_curoff := ls_curoff ls + int len,
             ls_bufsize := (if ls_bufsize ls > int len then ls_bufsize ls - int len else 0) \<rparr>, t, s)) } }"

definition leaf_step ::
    "('b, 's) buf_ops \<Rightarrow> 's inode_reader \<Rightarrow> 's inode_reader \<Rightarrow> xfs_mount \<Rightarrow> ('d \<times> 's) filldir \<Rightarrow> nat \<Rightarrow>
      'b leaf_scan \<Rightarrow> xfs_inode \<Rightarrow> 'd \<Rightarrow> 's \<Rightarrow> (int option \<times> 'b leaf_scan \<times> xfs_inode \<times> 'd \<times> 's) option" where
  "leaf_step ops iread l2e mp filldir map_size ls dp t s = do {
     (stop, behind, ls, dp, s) \<leftarrow>
       (if ls_bp ls = None \<or> m_dirblksize mp \<le> ls_ptr ls then leaf_next ops iread l2e mp map_size ls dp s
        else Some (None, False, ls, dp, s));
     if stop \<noteq> None \<or> behind then Some (stop, ls, dp, t, s)
     else map_option (\<lambda>(stop, ls, t, s). (stop, ls, dp, t, s)) (leaf_entry mp filldir ls t s) }"

partial_function (option) leaf_loop ::
    "('b, 's) buf_ops \<Rightarrow> 's inode_reader \<Rightarrow> 's inode_reader \<Rightarrow> xfs_mount \<Rightarrow> ('d \<times> 's) filldir \<Rightarrow> nat \<Rightarrow>
      'b leaf_scan \<Rightarrow> xfs_inode \<Rightarrow> 'd \<Rightarrow> 's \<Rightarrow> (int \<times> 'b leaf_scan \<times> xfs_inode \<times> 'd \<times> 's) option" where
  "leaf_loop ops iread l2e mp filldir map_size ls dp t s =
    (if ls_curoff ls < XFS_DIR2_LEAF_OFFSET then do {
       (stop, ls, dp, t, s) \<leftarrow> leaf_step ops iread l2e mp filldir map_size ls dp t s;
       case stop of
         Some error \<Rightarrow> Some (error, ls, dp, t, s)
       | None \<Rightarrow> leaf_loop ops iread l2e mp filldir map_size ls dp t s }
     else Some (0, ls, dp, t, s))"

text \<open>\<open>xfs_dir2_leaf_getdents\<close>: status, next offset, the callback's state, inode and cache.\<close>

definition leaf_scan_init :: "xfs_mount \<Rightarrow> int \<Rightarrow> int \<Rightarrow> 'b leaf_scan" where
  "leaf_scan_init mp bufsize offset = (let curoff = xfs_dir2_dataptr_to_byte mp offset in
     \<lparr> ls_map = [], ls_blocks = 0, ls_off = nat (xfs_dir2_db_to_da mp (xfs_dir2_byte_to_db mp curoff)), ls_ra = 0,
       ls_bp = None, ls_ptr = 0, ls_curoff = curoff, ls_bufsize = bufsize \<rparr>)"

definition xfs_dir2_leaf_getdents ::
    "('b, 's) buf_ops \<Rightarrow> 's inode_reader \<Rightarrow> 's inode_reader \<Rightarrow> xfs_mount \<Rightarrow> ('d \<times> 's) filldir \<Rightarrow>
      int \<Rightarrow> int \<Rightarrow> 'd \<Rightarrow> xfs_inode \<times> 's \<Rightarrow> (int \<times> int \<times> 'd \<times> xfs_inode \<times> 's) option" where
  "xfs_dir2_leaf_getdents ops iread l2e mp filldir bufsize offset t w =
    (case w of (dp, s) \<Rightarrow>
      if XFS_DIR2_MAX_DATAPTR \<le> offset then Some (0, offset, t, dp, s)
      else do {
        (error, ls, dp, t, s) \<leftarrow> leaf_loop ops iread l2e mp filldir (nat (leaf_want mp bufsize))
          (leaf_scan_init mp bufsize offset) dp t s;
        let offset = (if ls_curoff ls > xfs_dir2_dataptr_to_byte mp XFS_DIR2_MAX_DATAPTR
          then cookie31 XFS_DIR2_MAX_DATAPTR else cookie31 (xfs_dir2_byte_to_dataptr mp (ls_curoff ls)));
        let s = (case ls_bp ls of None \<Rightarrow> s | Some bp \<Rightarrow> xfs_da_brelse ops bp s);
        Some (error, offset, t, dp, s) })"

end
