(* ===== verification/Dir2_Leaf_Scan.thy ===== *)
theory Dir2_Leaf_Scan
  imports Dir2_Leaf
begin

text \<open>
  The block table of \<open>xfs_dir2_leaf_getdents\<close>: the table and the part of the extent list it has not seen yet are
  together the blocks still to come; releasing a block takes the first of them, refilling the table and
  reading ahead leave them as they are.
\<close>

section \<open>Disk addresses and block numbers\<close>

text \<open>A block number inside an allocation group.\<close>

definition fsb_ok :: "xfs_mount \<Rightarrow> nat \<Rightarrow> bool" where
  "fsb_ok mp fsb \<longleftrightarrow> (let sb = m_sb mp in fsb < 2 ^ 52 \<and> sb_agblklog sb \<le> 32 \<and> sb_agblocks sb \<le> 2 ^ sb_agblklog sb \<and>
     fsb div 2 ^ sb_agblklog sb < 2 ^ 32 \<and> fsb mod 2 ^ sb_agblklog sb < sb_agblocks sb \<and> m_blkbb_log mp \<le> 7)"

lemma or_disjoint: "0 \<le> b \<Longrightarrow> b < 2 ^ n \<Longrightarrow> a * 2 ^ n OR b = a * 2 ^ n + (b :: int)"
proof -
  assume b: "0 \<le> b" "b < 2 ^ n"
  then have "take_bit n b = b" by (simp add: take_bit_int_eq_self)
  then have "\<not> bit b k" if "n \<le> k" for k using that by (metis bit_take_bit_iff not_le)
  moreover have "\<not> bit (a * 2 ^ n) k" if "k < n" for k
    using that by (simp add: push_bit_eq_mult [symmetric] bit_push_bit_iff)
  ultimately have "\<not> bit (a * 2 ^ n) k \<or> \<not> bit b k" for k by (cases "k < n") auto
  then show ?thesis by (simp add: disjunctive_add)
qed

lemma daddr_fsb:
  assumes "fsb_ok mp fsb"
  shows "nat (XFS_DADDR_TO_FSB mp (XFS_FSB_TO_DADDR mp (int fsb))) = fsb" and "0 \<le> XFS_FSB_TO_DADDR mp (int fsb)"
proof -
  let ?l = "sb_agblklog (m_sb mp)" and ?n = "sb_agblocks (m_sb mp)"
  define a b where "a = fsb div 2 ^ ?l" and "b = fsb mod 2 ^ ?l"
  have f: "fsb < 2 ^ 52" "?l \<le> 32" "?n \<le> 2 ^ ?l" "a < 2 ^ 32" "b < ?n" "m_blkbb_log mp \<le> 7"
    using assms by (auto simp: fsb_ok_def a_def b_def Let_def)
  have fsb: "fsb = a * 2 ^ ?l + b" by (simp only: a_def b_def div_mult_mod_eq)
  have le: "a * ?n + b \<le> fsb" using mult_le_mono2 [OF f(3), of a] fsb by linarith
  have "(2 :: nat) ^ ?l \<le> 2 ^ 32" using f(2) by (intro power_increasing) auto
  then have b32: "b < 2 ^ 32" using f(3,5) by linarith
  have ab: "int fsb div 2 ^ ?l = int a" "int fsb mod 2 ^ ?l = int b" by (simp_all add: a_def b_def zdiv_int zmod_int)
  have parts: "XFS_FSB_TO_AGNO mp (int fsb) = int a" "XFS_FSB_TO_AGBNO mp (int fsb) = int b"
    using f(4) b32 by (simp_all add: XFS_FSB_TO_AGNO_def XFS_FSB_TO_AGBNO_def to_u32_def ab)
  define w where "w = a * ?n + b"
  have w: "w < 2 ^ 52" using le f(1) by (simp add: w_def)
  have "w * 2 ^ m_blkbb_log mp \<le> w * 2 ^ 7" using f(6) by (intro mult_le_mono2 power_increasing) auto
  also have "\<dots> < 2 ^ 59" using w by simp
  finally have big: "w * 2 ^ m_blkbb_log mp < 2 ^ 59" .
  then have "int (w * 2 ^ m_blkbb_log mp) < int (2 ^ 59)" by (simp only: of_nat_less_iff)
  then have bigi: "int w * 2 ^ m_blkbb_log mp < 2 ^ 59" by (simp only: of_nat_mult of_nat_power of_nat_numeral)
  have d: "XFS_FSB_TO_DADDR mp (int fsb) = int w * 2 ^ m_blkbb_log mp"
  proof -
    have "int a * int ?n + int b = int w" by (simp add: w_def)
    moreover have "to_u64 (int w) = int w" using w by simp
    moreover have "to_s64 (to_u64 (int w * 2 ^ m_blkbb_log mp)) = int w * 2 ^ m_blkbb_log mp"
      by (subst to_u64_id; use bigi in simp)
    ultimately show ?thesis by (simp add: XFS_FSB_TO_DADDR_def parts XFS_AGB_TO_DADDR_def XFS_FSB_TO_BB_def)
  qed
  show "0 \<le> XFS_FSB_TO_DADDR mp (int fsb)" by (simp add: d)
  have bb: "XFS_BB_TO_FSBT mp (int w * 2 ^ m_blkbb_log mp) = int w" by (simp add: XFS_BB_TO_FSBT_def)
  have wdiv: "w div ?n = a" "w mod ?n = b" using f(5) by (simp_all add: w_def)
  have ag: "XFS_DADDR_TO_AGNO mp (XFS_FSB_TO_DADDR mp (int fsb)) = int a" "XFS_DADDR_TO_AGBNO mp (XFS_FSB_TO_DADDR mp (int fsb)) = int b"
    using wdiv f(4) b32 by (simp_all add: XFS_DADDR_TO_AGNO_def XFS_DADDR_TO_AGBNO_def d bb to_u32_def
        flip: of_nat_div of_nat_mod)
  have "int a * 2 ^ ?l < 2 ^ 64"
  proof -
    have "(2 :: nat) ^ 52 < 2 ^ 64" by simp
    then have "a * 2 ^ ?l < 2 ^ 64" using fsb f(1) by linarith
    then have "int (a * 2 ^ ?l) < int (2 ^ 64)" by (simp only: of_nat_less_iff)
    then show ?thesis by (simp only: of_nat_mult of_nat_power of_nat_numeral)
  qed
  then have "XFS_AGB_TO_FSB mp (int a) (int b) = int a * 2 ^ ?l + int b"
    using or_disjoint [of "int b" ?l "int a"] f(3,5)
    by (simp add: XFS_AGB_TO_FSB_def to_u64_def)
  then show "nat (XFS_DADDR_TO_FSB mp (XFS_FSB_TO_DADDR mp (int fsb))) = fsb"
  proof -
    have "int a * 2 ^ ?l + int b = int (a * 2 ^ ?l + b)" by simp
    then show ?thesis using \<open>XFS_AGB_TO_FSB mp (int a) (int b) = int a * 2 ^ ?l + int b\<close>
      unfolding XFS_DADDR_TO_FSB_def ag fsb [symmetric] by simp
  qed
qed

section \<open>Mappings as lists of blocks\<close>

definition flat :: "bmap list \<Rightarrow> (nat \<times> nat) list" where
  "flat ms = concat (map (\<lambda>m. map (\<lambda>i. (bm_off m + i, bm_blk m + i)) [0..<bm_cnt m]) ms)"

lemma flat_simps [simp]:
  "flat [] = []" "flat (m # ms) = map (\<lambda>i. (bm_off m + i, bm_blk m + i)) [0..<bm_cnt m] @ flat ms"
  "flat (xs @ ys) = flat xs @ flat ys"
  by (simp_all add: flat_def)

lemma length_flat: "length (flat ms) = sum_list (map bm_cnt ms)"
  by (induction ms) auto

abbreviation counted :: "bmap list \<Rightarrow> bool" where
  "counted ms \<equiv> \<forall>m \<in> set ms. 0 < bm_cnt m"

lemma flat_Nil: "counted ms \<Longrightarrow> flat ms = [] \<longleftrightarrow> ms = []"
  by (cases ms) auto

lemma length_le_flat: "counted ms \<Longrightarrow> length ms \<le> length (flat ms)"
  by (induction ms) fastforce+

text \<open>The blocks of a range that are mapped.\<close>

definition mapped :: "bmap list \<Rightarrow> nat \<Rightarrow> nat \<Rightarrow> (nat \<times> nat) list" where
  "mapped exts a b = List.map_filter (\<lambda>x. map_option (Pair x) (bmap_lookup exts x)) [a..<b]"

lemma mapped_Nil [simp]: "b \<le> a \<Longrightarrow> mapped exts a b = []"
  by (simp add: mapped_def List.map_filter_def)

lemma mapped_split: "a \<le> b \<Longrightarrow> b \<le> c \<Longrightarrow> mapped exts a c = mapped exts a b @ mapped exts b c"
proof -
  assume "a \<le> b" "b \<le> c"
  then have "[a..<c] = [a..<b] @ [b..<c]" using upt_add_eq_append [of a b "c - b"] by simp
  then show ?thesis by (simp add: mapped_def List.map_filter_def)
qed

lemma mapped_all:
  assumes "\<forall>i < n. bmap_lookup exts (a + i) = Some (y + i)"
  shows "mapped exts a (a + n) = map (\<lambda>i. (a + i, y + i)) [0..<n]"
proof -
  have "[a..<a + n] = map (\<lambda>i. a + i) [0..<n]" using map_add_upt [of a n] by (simp add: add.commute)
  moreover have "List.map_filter (\<lambda>x. map_option (Pair x) (bmap_lookup exts x)) (map (\<lambda>i. a + i) is) =
      map (\<lambda>i. (a + i, y + i)) is" if "set is \<subseteq> {..<n}" for "is"
    using that assms by (induction "is") (auto simp: List.map_filter_def)
  ultimately show ?thesis by (simp add: mapped_def lessThan_atLeast0)
qed

lemma mapped_none:
  assumes "\<forall>i < n. bmap_lookup exts (a + i) = None"
  shows "mapped exts a (a + n) = []"
proof -
  have "bmap_lookup exts x = None" if "x \<in> set [a..<a + n]" for x
    using assms that by (metis add_diff_inverse_nat atLeastLessThan_iff linorder_not_less nat_add_left_cancel_less set_upt)
  then have "List.map_filter (\<lambda>x. map_option (Pair x) (bmap_lookup exts x)) xs = []" if "set xs \<subseteq> set [a..<a + n]" for xs
    using that by (induction xs) (auto simp: List.map_filter_def)
  then show ?thesis by (simp add: mapped_def)
qed

text \<open>Mappings that tile a range and agree with the extent list are the mapped blocks of the range.\<close>

lemma flat_tiles:
  assumes "tiles a ms e" and "\<forall>m \<in> set ms. agrees exts m"
  shows "flat (filter (\<lambda>m. bm_blk m \<noteq> HOLESTARTBLOCK) ms) = mapped exts a e"
  using assms
proof (induction ms arbitrary: a)
  case Nil
  then show ?case by simp
next
  case (Cons m ms)
  have m: "bm_off m = a" "tiles (bm_end m) ms e" "agrees exts m" using Cons.prems by auto
  have "mapped exts a e = mapped exts a (bm_end m) @ mapped exts (bm_end m) e"
    by (rule mapped_split [OF _ tiles_le [OF m(2)]]) (use m(1) in simp)
  moreover have "mapped exts a (bm_end m) = (if bm_blk m = HOLESTARTBLOCK then [] else map (\<lambda>i. (bm_off m + i, bm_blk m + i)) [0..<bm_cnt m])"
    using m(3) mapped_none [of "bm_cnt m" exts a] mapped_all [of "bm_cnt m" exts a "bm_blk m"] m(1) by (auto simp: agrees_def)
  ultimately show ?case using Cons.IH [OF m(2)] Cons.prems(2) by simp
qed


lemma mapped_set: "(x, y) \<in> set (mapped exts a b) \<longleftrightarrow> a \<le> x \<and> x < b \<and> bmap_lookup exts x = Some y"
  by (auto simp: mapped_def List.map_filter_def image_iff)

lemma mapped_sorted: "sorted_wrt (\<lambda>u v. fst u < fst v) (mapped exts a b)"
proof (cases "a \<le> b")
  case True
  then show ?thesis
  proof (induction b rule: dec_induct)
    case (step b)
    have "mapped exts a (Suc b) = mapped exts a b @ mapped exts b (Suc b)"
      by (rule mapped_split) (use step in auto)
    moreover have "mapped exts b (Suc b) = (case bmap_lookup exts b of None \<Rightarrow> [] | Some y \<Rightarrow> [(b, y)])"
      by (simp add: mapped_def List.map_filter_def split: option.split)
    ultimately show ?case using step.IH mapped_set [where exts = exts and a = a and b = b]
      by (auto simp: sorted_wrt_append split: option.split)
  qed simp
qed simp

lemma length_mapped: "length (mapped exts a b) \<le> b - a"
  using length_filter_le [of "\<lambda>x. map_option (Pair x) (bmap_lookup exts x) \<noteq> None" "[a..<b]"]
  by (simp add: mapped_def List.map_filter_def)

section \<open>Geometry\<close>

text \<open>File systems whose directory blocks are file system blocks.\<close>

definition leaf_geom :: "xfs_mount \<Rightarrow> bool" where
  "leaf_geom mp \<longleftrightarrow> geom_ok mp \<and> sb_dirblklog (m_sb mp) = 0 \<and> sb_blocksize (m_sb mp) = 2 ^ sb_blocklog (m_sb mp)"

definition leafblk :: "xfs_mount \<Rightarrow> nat" where
  "leafblk mp = 2 ^ (35 - sb_blocklog (m_sb mp))"

definition blk_byte :: "xfs_mount \<Rightarrow> nat \<Rightarrow> int" where
  "blk_byte mp b = int b * blksize mp"

lemma leaf_log: "leaf_geom mp \<Longrightarrow> 9 \<le> sb_blocklog (m_sb mp) \<and> sb_blocklog (m_sb mp) \<le> 16"
  by (simp add: leaf_geom_def geom_ok_def)

lemma leaf_blksize:
  assumes "leaf_geom mp"
  shows "int (m_dirblksize mp) = blksize mp" and "512 \<le> (blksize mp :: int)" and "blksize mp \<le> (65536 :: int)"
    and "16 < m_dirblksize mp" and "int (leafblk mp) * blksize mp = 2 ^ 35" and "leafblk mp \<le> 2 ^ 26"
proof -
  note l = leaf_log [OF assms]
  have "2 ^ 9 \<le> (blksize mp :: int)" "(blksize mp :: int) \<le> 2 ^ 16" using l by (intro power_increasing; simp)+
  then show b: "512 \<le> (blksize mp :: int)" "blksize mp \<le> (65536 :: int)" by simp_all
  show sz: "int (m_dirblksize mp) = blksize mp" using assms by (simp add: leaf_geom_def geom_ok_def)
  show "16 < m_dirblksize mp" using sz b(1) by linarith
  have "(2 :: int) ^ (35 - sb_blocklog (m_sb mp)) * blksize mp = 2 ^ 35" using l by (simp flip: power_add)
  then show "int (leafblk mp) * blksize mp = 2 ^ 35" by (simp add: leafblk_def)
  show "leafblk mp \<le> 2 ^ 26" unfolding leafblk_def using l by (intro power_increasing) auto
qed

lemma blk_byte_bounds:
  assumes g: "leaf_geom mp" and b: "b < leafblk mp" and p: "0 \<le> p" "p < blksize mp"
  shows "0 \<le> blk_byte mp b + p" and "blk_byte mp b + p < 2 ^ 35"
proof -
  have "int b + 1 \<le> int (leafblk mp)" using b by simp
  then have "(int b + 1) * blksize mp \<le> int (leafblk mp) * blksize mp" by (rule mult_right_mono) simp
  then show "blk_byte mp b + p < 2 ^ 35" using leaf_blksize(5) [OF g] p by (simp add: blk_byte_def distrib_right)
qed (use p in \<open>simp add: blk_byte_def\<close>)

lemma blk_byte_Suc: "blk_byte mp (Suc b) = blk_byte mp b + blksize mp"
  by (simp add: blk_byte_def distrib_right)

lemma blk_byte_mono: "a \<le> b \<Longrightarrow> blk_byte mp a \<le> blk_byte mp b"
  by (simp add: blk_byte_def)

text \<open>Positions inside a data block, and the blocks themselves, as byte offsets of the directory.\<close>

lemma leaf_addr:
  assumes g: "leaf_geom mp" and b: "b < leafblk mp" and p: "0 \<le> p" "p < blksize mp"
  shows "xfs_dir2_byte_to_off mp (blk_byte mp b + p) = p"
    and "xfs_dir2_byte_to_db mp (blk_byte mp b + p) = int b"
    and "xfs_dir2_byte_to_dataptr mp (blk_byte mp b + p) = (blk_byte mp b + p) div 8"
    and "xfs_dir2_da_to_db mp (int b) = int b"
proof -
  have l: "sb_dirblklog (m_sb mp) = 0" using g by (simp add: leaf_geom_def)
  have b32: "int b < 2 ^ 32" using b leaf_blksize(6) [OF g] by simp
  have p32: "p < 2 ^ 32" using p leaf_blksize(3) [OF g] by simp
  have d: "(blk_byte mp b + p) div blksize mp = int b" "(blk_byte mp b + p) mod blksize mp = p"
    using p by (simp_all add: blk_byte_def)
  show "xfs_dir2_byte_to_off mp (blk_byte mp b + p) = p" using p32 p(1) d(2) l by (simp add: xfs_dir2_byte_to_off_def)
  show "xfs_dir2_byte_to_db mp (blk_byte mp b + p) = int b" using b32 d(1) l by (simp add: xfs_dir2_byte_to_db_def)
  show "xfs_dir2_da_to_db mp (int b) = int b" using b32 l by (simp add: xfs_dir2_da_to_db_def)
  have "(blk_byte mp b + p) div 8 < 2 ^ 32" "0 \<le> (blk_byte mp b + p) div 8" using blk_byte_bounds [OF g b p] by auto
  then show "xfs_dir2_byte_to_dataptr mp (blk_byte mp b + p) = (blk_byte mp b + p) div 8"
    by (simp add: xfs_dir2_byte_to_dataptr_def XFS_DIR2_DATA_ALIGN_LOG_def)
qed

lemma leaf_db_off:
  assumes g: "leaf_geom mp" and b: "b \<le> leafblk mp" and p: "0 \<le> p" "p \<le> blksize mp"
  shows "xfs_dir2_db_off_to_byte mp (int b) p = blk_byte mp b + p"
proof -
  have l: "sb_dirblklog (m_sb mp) = 0" using g by (simp add: leaf_geom_def)
  have b32: "int b < 2 ^ 32" using b leaf_blksize(6) [OF g] by simp
  have p32: "p < 2 ^ 32" using p leaf_blksize(3) [OF g] by simp
  have "int b * blksize mp \<le> int (leafblk mp) * blksize mp" using b by (intro mult_right_mono) auto
  moreover have "2 ^ 35 + 2 ^ 32 < (2 :: int) ^ 63" by simp
  ultimately have "int b * blksize mp + p < 2 ^ 63" using leaf_blksize(5) [OF g] p32 by linarith
  then show ?thesis using b32 p32 p(1) l by (simp add: xfs_dir2_db_off_to_byte_def blk_byte_def)
qed

lemma leafblk_da: "leaf_geom mp \<Longrightarrow> xfs_dir2_byte_to_da mp XFS_DIR2_LEAF_OFFSET = int (leafblk mp)"
proof -
  assume g: "leaf_geom mp"
  have l: "sb_dirblklog (m_sb mp) = 0" using g by (simp add: leaf_geom_def)
  have "2 ^ 35 div (blksize mp :: int) = int (leafblk mp)" unfolding leaf_blksize(5) [OF g, symmetric] by simp
  then show ?thesis
    using leaf_blksize(6) [OF g] l by (simp add: xfs_dir2_byte_to_da_def xfs_dir2_db_to_da_def xfs_dir2_byte_to_db_def
        XFS_DIR2_LEAF_OFFSET_def XFS_DIR2_SPACE_SIZE_def XFS_DIR2_DATA_ALIGN_LOG_def)
qed


section \<open>The table of the scan\<close>

text \<open>The number of mappings wanted covers at least a directory block and falls with the buffer.\<close>

lemma leaf_want_bounds:
  assumes g: "leaf_geom mp" and n: "0 \<le> n" "n \<le> m" and m: "m \<le> 2 ^ 30"
  shows "1 \<le> leaf_want mp n" and "leaf_want mp n \<le> leaf_want mp m" and "leaf_want mp n < 2 ^ 31"
    and "0 < n \<Longrightarrow> 2 \<le> leaf_want mp n"
proof -
  let ?k = "blksize mp"
  note k = leaf_blksize(2,3) [OF g]
  have w: "leaf_want mp x = (x + ?k + (?k - 1)) div ?k" "leaf_want mp x < 2 ^ 31" if "0 \<le> x" "x \<le> 2 ^ 30" for x
  proof -
    have "x + ?k < 2 ^ 31" using that k by simp
    then have u: "to_u64 (x + ?k) = x + ?k" using that(1) k(1) by simp
    have "(x + ?k + (?k - 1)) div ?k \<le> (x + ?k + (?k - 1)) div 1" using that(1) k(1) by (intro zdiv_mono2) auto
    also have "\<dots> < 2 ^ 31" using that k by simp
    finally have lt: "(x + ?k + (?k - 1)) div ?k < 2 ^ 31" .
    have "0 \<le> (x + ?k + (?k - 1)) div ?k" using that(1) k(1) by (intro pos_imp_zdiv_nonneg_iff [THEN iffD2]) auto
    then have "to_s32 ((x + ?k + (?k - 1)) div ?k) = (x + ?k + (?k - 1)) div ?k" using lt by simp
    moreover have "int (sb_blocksize (m_sb mp)) = ?k" using g by (simp add: leaf_geom_def)
    ultimately show "leaf_want mp x = (x + ?k + (?k - 1)) div ?k" "leaf_want mp x < 2 ^ 31"
      using u lt leaf_blksize(1) [OF g] by (simp_all add: leaf_want_def howmany_def)
  qed
  have e: "leaf_want mp n = (n + ?k + (?k - 1)) div ?k" "leaf_want mp m = (m + ?k + (?k - 1)) div ?k"
    using w(1) n m by simp_all
  show "leaf_want mp n \<le> leaf_want mp m" unfolding e using n k by (intro zdiv_mono1) auto
  show "leaf_want mp n < 2 ^ 31" using w(2) n m by simp
  have "1 * ?k div ?k \<le> (n + ?k + (?k - 1)) div ?k" using n k by (intro zdiv_mono1) auto
  then show "1 \<le> leaf_want mp n" using e k by simp
  assume "0 < n"
  then have "2 * ?k div ?k \<le> (n + ?k + (?k - 1)) div ?k" using k by (intro zdiv_mono1) auto
  then show "2 \<le> leaf_want mp n" using e k by simp
qed

lemma map_consume_one:
  assumes "counted ms" and "ms \<noteq> []"
  obtains ms' where "map_consume 1 ms = Some ms'" "counted ms'" "flat ms' = tl (flat ms)"
proof -
  obtain m rest where ms: "ms = m # rest" using assms(2) by (cases ms) auto
  have c: "0 < bm_cnt m" using assms(1) ms by simp
  show ?thesis
  proof (cases "bm_cnt m = 1")
    case True
    then show ?thesis using that [of rest] assms(1) ms by (cases rest) simp_all
  next
    case False
    let ?m = "m \<lparr> bm_off := bm_off m + 1, bm_blk := bm_blk m + 1, bm_cnt := bm_cnt m - 1 \<rparr>"
    have u: "[0..<bm_cnt m] = 0 # map Suc [0..<bm_cnt m - 1]" using c by (simp add: upt_conv_Cons map_Suc_upt)
    have "map_consume 1 ms = Some (?m # rest)" using False c by (simp add: ms min_def)
    moreover have "flat (?m # rest) = tl (flat ms)" by (simp add: ms u)
    ultimately show ?thesis using that [of "?m # rest"] assms(1) ms False c by simp
  qed
qed

text \<open>What is true of the scan: the blocks it will still read are \<open>todo\<close>.\<close>

definition scan_at :: "xfs_mount \<Rightarrow> bmap list \<Rightarrow> int \<Rightarrow> 'b leaf_scan \<Rightarrow> (nat \<times> nat) list \<Rightarrow> bool" where
  "scan_at mp exts B ls todo \<longleftrightarrow> counted (ls_map ls) \<and> ls_off ls \<le> leafblk mp \<and> 0 \<le> ls_bufsize ls \<and> ls_bufsize ls \<le> B \<and>
     ls_blocks ls = int (length (flat (ls_map ls))) \<and> (ls_bp ls \<noteq> None \<longrightarrow> ls_map ls \<noteq> []) \<and>
     length (flat (ls_map ls)) \<le> ls_off ls \<and>
     (let bs = flat (ls_map ls) @ mapped exts (ls_off ls) (leafblk mp) in todo = (if ls_bp ls = None then bs else tl bs))"

lemma leaf_release_ok:
  assumes g: "leaf_geom mp" and one: "m_dirblkfsbs mp = 1" and sc: "scan_at mp exts B ls todo"
  obtains ls' s' where "leaf_release ops mp ls s = Some (ls', s')" "scan_at mp exts B ls' todo" "ls_bp ls' = None"
    "ls_curoff ls' = ls_curoff ls" "s' = (case ls_bp ls of None \<Rightarrow> s | Some bp \<Rightarrow> xfs_da_brelse ops bp s)"
proof (cases "ls_bp ls")
  case None
  then show ?thesis using that [of ls s] sc by (simp add: leaf_release_def)
next
  case (Some bp)
  have c: "counted (ls_map ls)" "ls_map ls \<noteq> []" using sc Some by (auto simp: scan_at_def)
  obtain ms where ms: "map_consume 1 (ls_map ls) = Some ms" "counted ms" "flat ms = tl (flat (ls_map ls))"
    by (rule map_consume_one [OF c])
  have ne: "flat (ls_map ls) \<noteq> []" using flat_Nil [OF c(1)] c(2) by simp
  let ?ls = "ls \<lparr> ls_bp := None, ls_blocks := to_u32 (ls_blocks ls - 1), ls_map := ms \<rparr>"
  have "ls_blocks ls - 1 = int (length (flat ms))" using sc ne ms(3) by (cases "flat (ls_map ls)") (auto simp: scan_at_def)
  moreover have "length (flat ms) \<le> leafblk mp" using sc ms(3) by (auto simp: scan_at_def)
  then have "int (length (flat ms)) < 2 ^ 32" using leaf_blksize(6) [OF g] by simp
  ultimately have "to_u32 (ls_blocks ls - 1) = int (length (flat ms))" by simp
  then have "scan_at mp exts B ?ls todo"
    using sc ne ms(2,3) Some by (cases "flat (ls_map ls)") (auto simp: scan_at_def Let_def)
  moreover have "leaf_release ops mp ls s = Some (?ls, xfs_da_brelse ops bp s)"
    using ms(1) Some one by (simp add: leaf_release_def)
  ultimately show ?thesis using that [of ?ls] Some by simp
qed


lemma leaf_refill_ok:
  assumes g: "leaf_geom mp" and r: "dir_ready mp dp" and sc: "scan_at mp (fork_exts dp) B ls todo" and bp: "ls_bp ls = None"
    and B: "0 < B" "B \<le> 2 ^ 30"
  obtains ls' where "leaf_refill iread l2e mp (nat (leaf_want mp B)) ls dp s = Some (0, ls', dp, s)"
    "scan_at mp (fork_exts dp) B ls' todo" "ls_bp ls' = None" "ls_curoff ls' = ls_curoff ls"
    "ls_map ls' = [] \<longrightarrow> ls_off ls' = leafblk mp"
proof -
  let ?exts = "fork_exts dp" and ?n = "nat (leaf_want mp B)"
  have ex: "exts_ok ?exts" "if_extents_read (i_df dp)" "di_format (i_d dp) = FMT_EXTENTS \<or> di_format (i_d dp) = FMT_BTREE"
    using r by (auto simp: dir_ready_def)
  have s: "counted (ls_map ls)" "ls_off ls \<le> leafblk mp" "0 \<le> ls_bufsize ls" "ls_bufsize ls \<le> B"
    "ls_blocks ls = int (length (flat (ls_map ls)))" "length (flat (ls_map ls)) \<le> ls_off ls"
    "todo = flat (ls_map ls) @ mapped ?exts (ls_off ls) (leafblk mp)" using sc bp by (auto simp: scan_at_def)
  note w = leaf_want_bounds [OF g s(3,4) B(2)] leaf_want_bounds(4) [OF g _ order_refl B(2)]
  have want: "to_u32 (1 + (leaf_want mp (ls_bufsize ls) - 1)) = leaf_want mp (ls_bufsize ls)" using w(1,3) by simp
  show ?thesis
  proof (cases "leaf_want mp (ls_bufsize ls) > ls_blocks ls \<and> ls_off ls < leafblk mp")
    case False
    then have "leaf_refill iread l2e mp ?n ls dp s = Some (0, ls, dp, s)"
      using want leafblk_da [OF g] by (auto simp: leaf_refill_def Let_def)
    moreover have "ls_map ls = [] \<Longrightarrow> ls_off ls = leafblk mp" using False s(2,5) w(1) by auto
    ultimately show ?thesis using that sc bp by blast
  next
    case True
    let ?room = "?n - length (ls_map ls)"
    have room: "0 < ?room" "ls_map ls = [] \<Longrightarrow> 2 \<le> ?room"
      using True s(5) length_le_flat [OF s(1)] w(2) w(5) B(1) by auto
    obtain ms e where ms: "xfs_bmapi_read iread l2e False False dp (ls_off ls) (leafblk mp - ls_off ls) ?room s = Some (0, ms, dp, s)"
      "tiles (ls_off ls) ms e" "e \<le> leafblk mp" "length ms \<le> ?room" "e = leafblk mp \<or> length ms = ?room"
      "\<forall>m \<in> set ms. agrees ?exts m" "holes_apart ms"
      using bmapi_read_ok [OF ex, where iread = iread and l2e = l2e and ig = False and bno = "ls_off ls"
          and len = "leafblk mp - ls_off ls" and nmap = ?room and s = s] True by auto
    let ?keep = "filter (\<lambda>m. bm_blk m \<noteq> HOLESTARTBLOCK) ms"
    let ?ls = "ls \<lparr> ls_map := ls_map ls @ ?keep, ls_blocks := to_u32 (ls_blocks ls + int (sum_list (map bm_cnt ?keep))),
             ls_off := (if length ms = ?room then bm_end (last (ls_map ls @ ms)) else nat (int (leafblk mp))) \<rparr>"
    have run: "leaf_refill iread l2e mp ?n ls dp s = Some (0, ?ls, dp, s)"
      using True want leafblk_da [OF g] ms(1) by (simp add: leaf_refill_def Let_def)
    have off: "ls_off ?ls = e"
      using ms(5) tiles_last [OF ms(2)] room(1) by (cases "ms = []") auto
    have keep: "flat ?keep = mapped ?exts (ls_off ls) e" by (rule flat_tiles [OF ms(2,6)])
    have le: "ls_off ls \<le> e" by (rule tiles_le [OF ms(2)])
    have len: "length (flat (ls_map ls @ ?keep)) \<le> e"
      using s(6) keep length_mapped [of ?exts "ls_off ls" e] le by simp
    have "ls_blocks ls + int (sum_list (map bm_cnt ?keep)) = int (length (flat (ls_map ls @ ?keep)))"
      using s(5) by (simp add: length_flat)
    moreover have "int (length (flat (ls_map ls @ ?keep))) < 2 ^ 32" using len ms(3) leaf_blksize(6) [OF g] by simp
    ultimately have blocks: "ls_blocks ?ls = int (length (flat (ls_map ls @ ?keep)))" by simp
    have tiles_counted: "tiles b xs x \<Longrightarrow> counted xs" for b xs x by (induction xs arbitrary: b) auto
    have "counted ?keep" using tiles_counted [OF ms(2)] by auto
    moreover have "mapped ?exts (ls_off ls) (leafblk mp) = mapped ?exts (ls_off ls) e @ mapped ?exts e (leafblk mp)"
      by (rule mapped_split [OF le ms(3)])
    ultimately have sc': "scan_at mp ?exts B ?ls todo"
      using s bp off blocks keep len ms(3) by (auto simp: scan_at_def)
    have "ls_off ?ls = leafblk mp" if "ls_map ?ls = []"
    proof -
      have e: "ls_map ls = []" "?keep = []" using that by auto
      have "length ms < 2"
      proof (cases ms)
        case (Cons m xs)
        then show ?thesis using e(2) ms(7) by (cases xs) (auto simp: hole_def split: if_splits)
      qed simp
      then show ?thesis using room(2) [OF e(1)] ms(5) off by auto
    qed
    then show ?thesis using that [OF run sc'] bp by simp
  qed
qed

text \<open>The read-ahead walks the table to its end and changes nothing.\<close>

lemma ra_skip_one:
  assumes "idx < length table" and "off < bm_cnt (table ! idx)"
  shows "ra_skip 1 table 0 idx off = Some (if off + 1 = bm_cnt (table ! idx) then (idx + 1, 0) else (idx, off + 1))"
proof -
  have "min 1 (bm_cnt (table ! idx) - off) = 1" using assms(2) by simp
  then show ?thesis using assms(1) by (subst ra_skip.simps) (simp add: Let_def ra_skip.simps [of _ _ 2] numeral_2_eq_2)
qed

lemma leaf_readahead_ok:
  assumes "m_dirblkfsbs mp = 1" and "counted table" and "idx \<le> length table"
    and "i = int (sum_list (map bm_cnt (take idx table)) + off)" and "if idx < length table then off < bm_cnt (table ! idx) else off = 0"
  shows "\<exists>ra'. leaf_readahead ops iread l2e mp table (int (length (flat table))) want i idx off ra dp s = Some (ra', dp, s)"
  using assms(3-)
proof (induction "nat (int (length (flat table)) - i)" arbitrary: i idx off ra rule: less_induct)
  case less
  show ?case
  proof (cases "want > ra \<and> i < int (length (flat table))")
    case False
    then show ?thesis by (subst leaf_readahead.simps) auto
  next
    case True
    have idx: "idx < length table"
      using True less.prems by (cases "idx < length table") (auto simp: length_flat)
    have off: "off < bm_cnt (table ! idx)" using less.prems idx by simp
    have cnt: "0 < bm_cnt x" if "x \<in> set table" for x using assms(2) that by blast
    define nx where "nx = (if off + 1 = bm_cnt (table ! idx) then (idx + 1, 0) else (idx, off + 1))"
    have "sum_list (map bm_cnt (take (Suc idx) table)) = sum_list (map bm_cnt (take idx table)) + bm_cnt (table ! idx)"
      using idx by (simp add: take_Suc_conv_app_nth)
    then have nx: "fst nx \<le> length table" "i + 1 = int (sum_list (map bm_cnt (take (fst nx) table)) + snd nx)"
      "if fst nx < length table then snd nx < bm_cnt (table ! fst nx) else snd nx = 0"
      using less.prems idx off cnt by (auto simp: nx_def)
    have skip: "ra_skip 1 table 0 idx off = Some nx" unfolding nx_def by (rule ra_skip_one [OF idx off])
    have "1 \<le> bm_cnt (table ! idx)" using off by simp
    then have "leaf_readahead ops iread l2e mp table (int (length (flat table))) want i idx off ra dp s =
        leaf_readahead ops iread l2e mp table (int (length (flat table))) want (i + 1) (fst nx) (snd nx) (if i > ra then i else ra) dp s"
      using True idx skip assms(1) by (subst leaf_readahead.simps) (cases nx; simp)
    then show ?thesis using less.hyps [OF _ nx] True by simp
  qed
qed

end
