(* ===== verification/Dir2_Leaf_Dir.thy ===== *)
theory Dir2_Leaf_Dir
  imports Dir2_Leaf_Scan
begin

text \<open>
  Directories with data blocks of their own, read by \<open>xfs_dir2_leaf_getdents\<close> and looked up in by
  \<open>xfs_dir2_leaf_lookup\<close>: their data blocks on the device, the entries in them and the cookies of the entries.
\<close>

section \<open>The entries of a leaf directory\<close>

text \<open>A data block on disk, with its items.\<close>

definition data_block :: "(int \<Rightarrow> int \<Rightarrow> bytes option) \<Rightarrow> xfs_mount \<Rightarrow> nat \<Rightarrow> data_item list \<Rightarrow> bool" where
  "data_block dev mp y its \<longleftrightarrow> fsb_ok mp y \<and>
     (\<exists>x. dev (XFS_FSB_TO_DADDR mp (int y)) (XFS_FSB_TO_BB mp 1) = Some x \<and> da_magic_ok x = Some True \<and>
       aligned its \<and> items_at x 16 its (m_dirblksize mp))"

definition leaf_dirent :: "xfs_mount \<Rightarrow> nat \<Rightarrow> nat \<times> bytes \<times> nat \<Rightarrow> dirent" where
  "leaf_dirent mp b x = (case x of (p, nm, ino) \<Rightarrow>
     \<lparr> de_name = nm, de_cookie = (blk_byte mp b + int p) div 8, de_ino = ino, de_type = DT_UNKNOWN \<rparr>)"

text \<open>The entries at byte \<open>c\<close> of the directory and behind it, of the given blocks with contents \<open>cont\<close>.\<close>

definition leaf_entries :: "xfs_mount \<Rightarrow> (nat \<Rightarrow> data_item list) \<Rightarrow> int \<Rightarrow> (nat \<times> nat) list \<Rightarrow> dirent list" where
  "leaf_entries mp cont c todo = concat (map (\<lambda>(b, y). map (leaf_dirent mp b)
     (filter (\<lambda>x. c \<le> blk_byte mp b + int (fst x)) (live_from 16 (cont b)))) todo)"

lemma leaf_entries_ahead:
  assumes "\<forall>(b, y) \<in> set todo. c \<le> blk_byte mp b" and "\<forall>(b, y) \<in> set todo. c' \<le> blk_byte mp b"
  shows "leaf_entries mp cont c todo = leaf_entries mp cont c' todo"
  using assms
proof (induction todo)
  case (Cons t todo)
  obtain b y where t: "t = (b, y)" by (cases t)
  have "filter (\<lambda>x. u \<le> blk_byte mp b + int (fst x)) xs = xs" if "u \<le> blk_byte mp b" for u and xs :: "(nat \<times> bytes \<times> nat) list"
    using that by (simp add: filter_id_conv)
  then show ?case using Cons t by (simp add: leaf_entries_def)
qed (simp add: leaf_entries_def)

text \<open>A directory whose data blocks end before the last cookie, \<open>0x7fffffff\<close>.\<close>

definition leaf_dir_ok ::
    "(int \<Rightarrow> int \<Rightarrow> bytes option) \<Rightarrow> xfs_mount \<Rightarrow> xfs_inode \<Rightarrow> (nat \<Rightarrow> data_item list) \<Rightarrow> bool" where
  "leaf_dir_ok dev mp dp cont \<longleftrightarrow> leaf_geom mp \<and> dir_ready mp dp \<and>
     (\<forall>(b, y) \<in> set (mapped (fork_exts dp) 0 (leafblk mp)). blk_byte mp (Suc b) + 8 \<le> 2 ^ 34 \<and> data_block dev mp y (cont b))"

definition leaf_end :: int where
  "leaf_end = 0x7fffffff"

section \<open>The listing\<close>

definition leaf_listing :: "xfs_mount \<Rightarrow> xfs_inode \<Rightarrow> (nat \<Rightarrow> data_item list) \<Rightarrow> dirent list" where
  "leaf_listing mp dp cont = leaf_entries mp cont 0 (mapped (fork_exts dp) 0 (leafblk mp))"

lemma leaf_entries_append: "leaf_entries mp cont c (xs @ ys) = leaf_entries mp cont c xs @ leaf_entries mp cont c ys"
  by (simp add: leaf_entries_def)

lemma leaf_entries_filter: "filter (\<lambda>e. off \<le> de_cookie e) (leaf_entries mp cont 0 bs) = leaf_entries mp cont (off * 8) bs"
proof (induction bs)
  case (Cons u bs)
  obtain b y where u: "u = (b, y)" by (cases u)
  have "off \<le> de_cookie (leaf_dirent mp b x) \<longleftrightarrow> off * 8 \<le> blk_byte mp b + int (fst x)" for x
    by (cases x) (simp add: leaf_dirent_def; presburger)
  moreover have "0 \<le> blk_byte mp b" by (simp add: blk_byte_def)
  ultimately show ?case using Cons by (simp add: leaf_entries_def u filter_map o_def)
qed (simp add: leaf_entries_def)

text \<open>Positions inside a block of a directory.\<close>

lemma data_block_live:
  assumes "leaf_geom mp" and "data_block dev mp y its" and "x \<in> set (live_from 16 its)"
  shows "int (fst x) < blksize mp" and "8 dvd fst x"
proof -
  obtain d where d: "aligned its" "items_at d 16 its (m_dirblksize mp)" using assms(2) by (auto simp: data_block_def)
  obtain q nm ino where x: "x = (q, nm, ino)" by (cases x)
  show "int (fst x) < blksize mp" using live_from_bounds [OF d(2)] assms(3) x leaf_blksize(1) [OF assms(1)] by fastforce
  show "8 dvd fst x" using live_from_aligned [OF d(1), of 16] assms(3) x by simp
qed

lemma leaf_dir_block:
  assumes "leaf_dir_ok dev mp dp cont" and "(b, y) \<in> set (mapped (fork_exts dp) 0 (leafblk mp))"
  shows "leaf_geom mp" and "b < leafblk mp" and "blk_byte mp (Suc b) + 8 \<le> 2 ^ 34" and "data_block dev mp y (cont b)"
  using assms by (auto simp: leaf_dir_ok_def mapped_set)

lemma leaf_entries_behind:
  assumes "leaf_dir_ok dev mp dp cont" and "set bs \<subseteq> set (mapped (fork_exts dp) 0 (leafblk mp))"
    and "\<forall>(b, y) \<in> set bs. blk_byte mp (Suc b) \<le> c"
  shows "leaf_entries mp cont c bs = []"
  using assms(2,3)
proof (induction bs)
  case (Cons u bs)
  obtain b y where u: "u = (b, y)" by (cases u)
  have m: "(b, y) \<in> set (mapped (fork_exts dp) 0 (leafblk mp))" using Cons.prems(1) u by simp
  have "\<not> c \<le> blk_byte mp b + int (fst x)" if "x \<in> set (live_from 16 (cont b))" for x
  proof -
    have "blk_byte mp (Suc b) \<le> c" using Cons.prems(2) u by simp
    then show ?thesis
      using data_block_live(1) [OF leaf_dir_block(1,4) [OF assms(1) m] that] blk_byte_Suc [of mp b] by linarith
  qed
  then have "filter (\<lambda>x. c \<le> blk_byte mp b + int (fst x)) (live_from 16 (cont b)) = []" by (simp add: filter_empty_conv)
  then show ?case using Cons u by (simp add: leaf_entries_def)
qed (simp add: leaf_entries_def)

lemma leaf_cookies_sorted:
  assumes ok: "leaf_dir_ok dev mp dp cont" and "set bs \<subseteq> set (mapped (fork_exts dp) 0 (leafblk mp))"
    and "sorted_wrt (\<lambda>u v. fst u < fst v) bs"
  shows "sorted_wrt (\<lambda>a b. de_cookie a < de_cookie b) (leaf_entries mp cont 0 bs) \<and>
    (\<forall>e \<in> set (leaf_entries mp cont 0 bs). 0 \<le> de_cookie e \<and> de_cookie e < leaf_end \<and>
      (\<exists>(b, y) \<in> set bs. blk_byte mp b \<le> de_cookie e * 8 \<and> de_cookie e * 8 < blk_byte mp (Suc b)))"
  using assms(2,3)
proof (induction bs)
  case (Cons u bs)
  obtain b y where u: "u = (b, y)" by (cases u)
  note m = leaf_dir_block [OF ok, of b y]
  have m: "leaf_geom mp" "b < leafblk mp" "blk_byte mp (Suc b) + 8 \<le> 2 ^ 34" "data_block dev mp y (cont b)"
    using m Cons.prems(1) u by auto
  obtain d where d: "items_at d 16 (cont b) (m_dirblksize mp)" using m(4) by (auto simp: data_block_def)
  have eight: "8 dvd blk_byte mp b"
    using le_imp_power_dvd [of 3 "sb_blocklog (m_sb mp)" "2 :: int"] leaf_log [OF m(1)] by (simp add: blk_byte_def dvd_mult)
  have live: "8 dvd blk_byte mp b + int (fst x)" "int (fst x) < blksize mp" if "x \<in> set (live_from 16 (cont b))" for x
    using data_block_live [OF m(1,4) that] eight by auto
  have ck: "de_cookie (leaf_dirent mp b x) * 8 = blk_byte mp b + int (fst x)" if "x \<in> set (live_from 16 (cont b))" for x
    using live(1) [OF that] by (cases x) (simp add: leaf_dirent_def)
  have rng: "0 \<le> de_cookie (leaf_dirent mp b x)" "de_cookie (leaf_dirent mp b x) < leaf_end"
      "de_cookie (leaf_dirent mp b x) * 8 < blk_byte mp (Suc b)" "blk_byte mp b \<le> de_cookie (leaf_dirent mp b x) * 8"
    if "x \<in> set (live_from 16 (cont b))" for x
  proof -
    have "0 \<le> blk_byte mp b" by (simp add: blk_byte_def)
    moreover have "blk_byte mp (Suc b) + 8 \<le> 17179869184" using m(3) by simp
    ultimately show "0 \<le> de_cookie (leaf_dirent mp b x)" "de_cookie (leaf_dirent mp b x) < leaf_end"
      "de_cookie (leaf_dirent mp b x) * 8 < blk_byte mp (Suc b)" "blk_byte mp b \<le> de_cookie (leaf_dirent mp b x) * 8"
      using ck [OF that] live(2) [OF that] blk_byte_Suc [of mp b] unfolding leaf_end_def by linarith+
  qed
  have first: "leaf_entries mp cont 0 (u # bs) = map (leaf_dirent mp b) (live_from 16 (cont b)) @ leaf_entries mp cont 0 bs"
    by (simp add: leaf_entries_def u blk_byte_def)
  have IH: "sorted_wrt (\<lambda>a b. de_cookie a < de_cookie b) (leaf_entries mp cont 0 bs)"
    "\<And>e. e \<in> set (leaf_entries mp cont 0 bs) \<Longrightarrow> 0 \<le> de_cookie e \<and> de_cookie e < leaf_end \<and>
      (\<exists>(b, y) \<in> set bs. blk_byte mp b \<le> de_cookie e * 8 \<and> de_cookie e * 8 < blk_byte mp (Suc b))"
    using Cons.IH Cons.prems by auto
  have "blk_byte mp (Suc b) \<le> blk_byte mp b'" if "(b', y') \<in> set bs" for b' y'
    using Cons.prems(2) that u blk_byte_mono [of "Suc b" b' mp] by (auto simp: Suc_le_eq)
  then have across: "blk_byte mp (Suc b) \<le> de_cookie e * 8" if "e \<in> set (leaf_entries mp cont 0 bs)" for e
    using IH(2) [OF that] by fastforce
  have "sorted_wrt (\<lambda>p q. de_cookie (leaf_dirent mp b p) < de_cookie (leaf_dirent mp b q)) (live_from 16 (cont b))"
  proof (rule sorted_wrt_mono_rel [OF _ live_from_sorted [OF d]])
    fix p q assume "p \<in> set (live_from 16 (cont b))" "q \<in> set (live_from 16 (cont b))" "fst p < fst q"
    then show "de_cookie (leaf_dirent mp b p) < de_cookie (leaf_dirent mp b q)" using ck [of p] ck [of q] by linarith
  qed
  moreover have "de_cookie (leaf_dirent mp b x) < de_cookie e"
    if "x \<in> set (live_from 16 (cont b))" "e \<in> set (leaf_entries mp cont 0 bs)" for x e
    using rng(3) [OF that(1)] across [OF that(2)] by linarith
  ultimately have "sorted_wrt (\<lambda>a b. de_cookie a < de_cookie b) (leaf_entries mp cont 0 (u # bs))"
    using IH(1) by (simp add: first sorted_wrt_append sorted_wrt_map)
  moreover have "0 \<le> de_cookie e \<and> de_cookie e < leaf_end \<and>
      (\<exists>(b, y) \<in> set (u # bs). blk_byte mp b \<le> de_cookie e * 8 \<and> de_cookie e * 8 < blk_byte mp (Suc b))"
    if e: "e \<in> set (leaf_entries mp cont 0 (u # bs))" for e
  proof (cases "e \<in> set (leaf_entries mp cont 0 bs)")
    case True
    then show ?thesis using IH(2) by auto
  next
    case False
    then obtain x where "x \<in> set (live_from 16 (cont b))" "e = leaf_dirent mp b x" using e by (auto simp: first)
    then show ?thesis using rng u by auto
  qed
  ultimately show ?case by blast
qed (simp add: leaf_entries_def)

lemma leaf_cookies_ok:
  assumes "leaf_dir_ok dev mp dp cont"
  shows "cookies_ok (leaf_listing mp dp cont) leaf_end"
  using leaf_cookies_sorted [OF assms order_refl mapped_sorted]
  by (auto simp: cookies_ok_def leaf_listing_def list_all_iff leaf_end_def)

end
