(* ===== verification/Buf_Pool.thy ===== *)
theory Buf_Pool
  imports Da_Buf "HOL-Library.Multiset"
begin

text \<open>
  A buffer cache of which several buffers are held at a time, as the lookup in large directories does: up to one
  block for every level of the hash tree and one data block.
\<close>

section \<open>The contract\<close>

definition XFS_DA_NODE_MAXDEPTH :: nat where
  "XFS_DA_NODE_MAXDEPTH = 5"

text \<open>
  \<open>held H\<close> is the invariant while the buffers \<open>H\<close> are held. Reading one adds to them, putting one back, in any order,
  takes it away.
\<close>

locale buf_pool =
  fixes ops :: "('b, 's) buf_ops"
    and held :: "'b multiset \<Rightarrow> 's \<Rightarrow> bool"
    and dev :: "int \<Rightarrow> int \<Rightarrow> bytes option"
  assumes take_buf: "held H s \<Longrightarrow> size H \<le> XFS_DA_NODE_MAXDEPTH \<Longrightarrow> dev blk bb = Some d \<Longrightarrow>
      \<exists>b s'. op_readbuf ops blk bb s = (Some b, s') \<and> op_b_addr ops s' b = d \<and> held (add_mset b H) s'"
    and take_fail: "held H s \<Longrightarrow> size H \<le> XFS_DA_NODE_MAXDEPTH \<Longrightarrow> dev blk bb = None \<Longrightarrow>
      \<exists>s'. op_readbuf ops blk bb s = (None, s') \<and> held H s'"
    and give_buf: "held (add_mset b H) s \<Longrightarrow> held H (op_putbuf ops b s)"
begin

text \<open>With few buffers held, the pool is a store.\<close>

lemma pool_store: "size H \<le> XFS_DA_NODE_MAXDEPTH \<Longrightarrow> buf_store ops (held H) dev"
  by unfold_locales (use take_buf take_fail give_buf in blast)+

end

sublocale buf_pool \<subseteq> buf_store ops "held {#}" dev
  by (rule pool_store) (simp add: XFS_DA_NODE_MAXDEPTH_def)

section \<open>Directory blocks\<close>

text \<open>The buffers of a directory block, if there is one.\<close>

fun bufs_of :: "'b dabuf option \<Rightarrow> 'b multiset" where
  "bufs_of None = {#}"
| "bufs_of (Some bp) = mset (bps bp)"

text \<open>Giving back a block, if there is one.\<close>

abbreviation put_buf :: "('b, 's) buf_ops \<Rightarrow> 'b dabuf option \<Rightarrow> 's \<Rightarrow> 's" where
  "put_buf ops buf s \<equiv> (case buf of None \<Rightarrow> s | Some b \<Rightarrow> xfs_da_brelse ops b s)"

context buf_pool
begin

lemma give_da:
  "held (mset (bps bp) + H) s \<Longrightarrow> held H (xfs_da_brelse ops bp s)"
proof -
  have "held (mset bs + H) s \<Longrightarrow> held H (fold (op_putbuf ops) bs s)" for bs
    by (induction bs arbitrary: s) (auto intro: give_buf)
  then show "held (mset (bps bp) + H) s \<Longrightarrow> held H (xfs_da_brelse ops bp s)" by (simp add: xfs_da_brelse_def)
qed

lemma give_put: "held (bufs_of b + H) s \<Longrightarrow> held H (put_buf ops b s)"
  by (cases b) (auto intro: give_da)

lemma take_da:
  assumes s: "held H s" and n: "size H \<le> XFS_DA_NODE_MAXDEPTH" and r: "dir_ready mp dp" and a: "dir_daddr mp dp bno = Some blk"
    and d: "dev blk (XFS_FSB_TO_BB mp 1) = Some d" "da_magic_ok d = Some True"
  obtains bp s' where "xfs_da_read_buf ops iread l2e mp dp bno (- 1) s = Some (0, Some bp, dp, s')" "da_data bp = d"
    "held (mset (bps bp) + H) s'" "size (mset (bps bp)) = 1"
proof -
  obtain b s' where h: "op_readbuf ops blk (XFS_FSB_TO_BB mp 1) s = (Some b, s')" "op_b_addr ops s' b = d" "held (add_mset b H) s'"
    using take_buf [OF s n d(1)] by blast
  show ?thesis
  proof (rule that [of "xfs_da_buf_make ops [b] s'" s'])
    show "held (mset (bps (xfs_da_buf_make ops [b] s')) + H) s'" using h(3) by (simp add: xfs_da_buf_make_def)
  qed (use h d(2) in \<open>simp_all add: da_read_buf_single [OF r a]\<close>, simp add: xfs_da_buf_make_def)
qed

end

end
