(* ===== verification/Dir2_Leaf_Lookup.thy ===== *)
theory Dir2_Leaf_Lookup
  imports Dir2_Lookup Dir2_Leaf_Dir Buf_Pool
begin

text \<open>
  Looking a name up in a leaf directory (\<open>xfs_dir2_leaf_lookup\<close> of libxfs/xfs_dir2_leaf.c): the entries of the leaf block,
  sorted by hash, lead to the entries of the data blocks. Header and entries of a leaf block have the
  layout of the entries of a one-block directory behind a header of 16 bytes.
\<close>

section \<open>The leaf block\<close>

definition leaf_count :: "bytes \<Rightarrow> nat option" where
  "leaf_count d = rd_be16 12 d"

text \<open>The binary search: the index looked at last, and the hash there.\<close>

function leaf_hash_search :: "bytes \<Rightarrow> nat \<Rightarrow> int \<Rightarrow> int \<Rightarrow> int \<Rightarrow> nat \<Rightarrow> (int \<times> nat) option" where
  "leaf_hash_search d hashwant low high mid hash =
     (if low \<le> high then do {
        let mid = (low + high) div 2;
        hash \<leftarrow> leaf_hashval d 16 mid;
        if hash = hashwant then Some (mid, hash)
        else leaf_hash_search d hashwant (if hash < hashwant then mid + 1 else low) (if hash < hashwant then high else mid - 1) mid hash }
      else Some (mid, hash))"
  by pat_completeness auto
termination
  by (relation "measure (\<lambda>(d, hashwant, low, high, mid, hash). nat (high - low + 1))") auto

declare leaf_hash_search.simps [simp del]

definition xfs_dir2_leaf_search_hash :: "bytes \<Rightarrow> nat \<Rightarrow> int option" where
  "xfs_dir2_leaf_search_hash d hashwant = do {
     count \<leftarrow> leaf_count d;
     if count = 0 then Some 0
     else do {
       (mid, hash) \<leftarrow> leaf_hash_search d hashwant 0 (int count - 1) 0 0;
       if hash = hashwant then block_backup d 16 hashwant mid
       else Some (if hash < hashwant then mid + 1 else mid) } }"

section \<open>The lookup\<close>

text \<open>The data block in use, the one of a match in another case, the index of the match.\<close>

record 'b leaf_look =
  lk_db :: int
  lk_buf :: "'b dabuf option"
  lk_cidb :: int
  lk_index :: int
  lk_args :: da_args

definition leaf_look_init :: "da_args \<Rightarrow> 'b leaf_look" where
  "leaf_look_init args = \<lparr> lk_db = 2 ^ 32 - 1, lk_buf = None, lk_cidb = 2 ^ 32 - 1, lk_index = 0, lk_args = args \<rparr>"

text \<open>Changing to the data block \<open>db\<close>.\<close>

definition leaf_switch ::
    "('b, 's) buf_ops \<Rightarrow> 's inode_reader \<Rightarrow> 's inode_reader \<Rightarrow> xfs_mount \<Rightarrow> int \<Rightarrow> 'b leaf_look \<Rightarrow> xfs_inode \<Rightarrow> 's \<Rightarrow>
      (int \<times> 'b leaf_look \<times> xfs_inode \<times> 's) option" where
  "leaf_switch ops iread l2e mp db lk dp s =
    (if db = lk_db lk then Some (0, lk, dp, s)
     else do {
       let s = (case lk_buf lk of None \<Rightarrow> s | Some b \<Rightarrow> xfs_da_brelse ops b s);
       (error, b, dp, s) \<leftarrow> xfs_da_read_buf ops iread l2e mp dp (nat (xfs_dir2_db_to_da mp db)) (- 1) s;
       Some (error, lk\<lparr>lk_db := db, lk_buf := b\<rparr>, dp, s) })"

text \<open>One entry with the hash: an error, a match (\<open>Some 0\<close>), or on to the next one.\<close>

definition leaf_look_step ::
    "('b, 's) buf_ops \<Rightarrow> 's inode_reader \<Rightarrow> 's inode_reader \<Rightarrow> xfs_mount \<Rightarrow> bytes \<Rightarrow> int \<Rightarrow> 'b leaf_look \<Rightarrow> xfs_inode \<Rightarrow> 's \<Rightarrow>
      (int option \<times> 'b leaf_look \<times> xfs_inode \<times> 's) option" where
  "leaf_look_step ops iread l2e mp leaf index lk dp s = do {
     addr \<leftarrow> leaf_address leaf 16 index;
     if addr = XFS_DIR2_NULL_DATAPTR then Some (None, lk, dp, s)
     else do {
       (error, lk, dp, s) \<leftarrow> leaf_switch ops iread l2e mp (xfs_dir2_dataptr_to_db mp (int addr)) lk dp s;
       if error \<noteq> 0 then Some (Some error, lk, dp, s)
       else do {
         bp \<leftarrow> lk_buf lk;
         nm \<leftarrow> data_name (da_data bp) (leaf_dep mp addr);
         let cmp = compname mp (lk_args lk) nm;
         Some (if cmp \<noteq> XFS_CMP_DIFFERENT \<and> cmp \<noteq> a_cmpresult (lk_args lk) then
             let lk = lk\<lparr>lk_args := (lk_args lk)\<lparr>a_cmpresult := cmp\<rparr>, lk_index := index\<rparr> in
             if cmp = XFS_CMP_EXACT then (Some 0, lk, dp, s) else (None, lk\<lparr>lk_cidb := lk_db lk\<rparr>, dp, s)
           else (None, lk, dp, s)) } } }"

text \<open>Over the \<open>n\<close> entries from \<open>index\<close> on, as long as they have the hash.\<close>

fun leaf_look_loop ::
    "('b, 's) buf_ops \<Rightarrow> 's inode_reader \<Rightarrow> 's inode_reader \<Rightarrow> xfs_mount \<Rightarrow> bytes \<Rightarrow> nat \<Rightarrow> nat \<Rightarrow> int \<Rightarrow> 'b leaf_look \<Rightarrow>
      xfs_inode \<Rightarrow> 's \<Rightarrow> (int option \<times> 'b leaf_look \<times> xfs_inode \<times> 's) option" where
  "leaf_look_loop ops iread l2e mp leaf hashval 0 index lk dp s = Some (None, lk, dp, s)"
| "leaf_look_loop ops iread l2e mp leaf hashval (Suc n) index lk dp s = do {
     hash \<leftarrow> leaf_hashval leaf 16 index;
     if hash = hashval then do {
       (stop, lk, dp, s) \<leftarrow> leaf_look_step ops iread l2e mp leaf index lk dp s;
       if stop = None then leaf_look_loop ops iread l2e mp leaf hashval n (index + 1) lk dp s else Some (stop, lk, dp, s) }
     else Some (None, lk, dp, s) }"

text \<open>
  \<open>xfs_dir2_leaf_lookup_int\<close>: error, leaf buffer, index, data buffer, arguments, inode, state. A match in another case
  may lie in a block that is not the last one read, which is then read again.
\<close>

definition xfs_dir2_leaf_lookup_int ::
    "('b, 's) buf_ops \<Rightarrow> 's inode_reader \<Rightarrow> 's inode_reader \<Rightarrow> xfs_mount \<Rightarrow> xfs_inode \<Rightarrow> nat \<Rightarrow> da_args \<Rightarrow> 's \<Rightarrow>
      (int \<times> 'b dabuf option \<times> int \<times> 'b dabuf option \<times> da_args \<times> xfs_inode \<times> 's) option" where
  "xfs_dir2_leaf_lookup_int ops iread l2e mp dp hashval args s = do {
     (error, lbp, dp, s) \<leftarrow> xfs_da_read_buf ops iread l2e mp dp (nat (m_dirleafblk mp)) (- 1) s;
     if error \<noteq> 0 then Some (error, None, 0, None, args, dp, s)
     else do {
       lbp \<leftarrow> lbp;
       let leaf = da_data lbp;
       index \<leftarrow> xfs_dir2_leaf_search_hash leaf hashval;
       count \<leftarrow> leaf_count leaf;
       (stop, lk, dp, s) \<leftarrow> leaf_look_loop ops iread l2e mp leaf hashval (nat (int count - index)) index
         (leaf_look_init args) dp s;
       case stop of
         Some error \<Rightarrow> Some (if error = 0 then (0, Some lbp, lk_index lk, lk_buf lk, lk_args lk, dp, s)
           else (error, None, 0, None, lk_args lk, dp, xfs_da_brelse ops lbp s))
       | None \<Rightarrow>
           if a_cmpresult (lk_args lk) = XFS_CMP_CASE then do {
             (error, lk, dp, s) \<leftarrow> leaf_switch ops iread l2e mp (lk_cidb lk) lk dp s;
             Some (if error \<noteq> 0 then (error, None, 0, None, lk_args lk, dp, xfs_da_brelse ops lbp s)
               else (0, Some lbp, lk_index lk, lk_buf lk, lk_args lk, dp, s)) }
           else Some (errno_code ENOENT, None, 0, None, lk_args lk, dp,
             xfs_da_brelse ops lbp (case lk_buf lk of None \<Rightarrow> s | Some b \<Rightarrow> xfs_da_brelse ops b s)) } }"

definition xfs_dir2_leaf_lookup ::
    "bool \<Rightarrow> ('b, 's) buf_ops \<Rightarrow> 's inode_reader \<Rightarrow> 's inode_reader \<Rightarrow> xfs_mount \<Rightarrow> xfs_inode \<Rightarrow> nat \<Rightarrow> da_args \<Rightarrow> 's \<Rightarrow>
      (int \<times> da_args \<times> xfs_inode \<times> 's) option" where
  "xfs_dir2_leaf_lookup alloc_ok ops iread l2e mp dp hashval args s = do {
     (error, lbp, index, dbp, args, dp, s) \<leftarrow> xfs_dir2_leaf_lookup_int ops iread l2e mp dp hashval args s;
     if error \<noteq> 0 then Some (error, args, dp, s)
     else do {
       lbp \<leftarrow> lbp;
       dbp \<leftarrow> dbp;
       addr \<leftarrow> leaf_address (da_data lbp) 16 index;
       ino \<leftarrow> data_inumber (da_data dbp) (leaf_dep mp addr);
       nm \<leftarrow> data_name (da_data dbp) (leaf_dep mp addr);
       let (error, args) = xfs_dir_cilookup_result alloc_ok (args\<lparr>a_inumber := ino\<rparr>) nm;
       Some (errno_code error, args, dp, xfs_da_brelse ops lbp (xfs_da_brelse ops dbp s)) } }"

section \<open>The search by hash\<close>

text \<open>The first entry whose hash is not smaller.\<close>

definition first_ge :: "nat list \<Rightarrow> nat \<Rightarrow> nat \<Rightarrow> bool" where
  "first_ge hs hv f \<longleftrightarrow> f \<le> length hs \<and> (\<forall>i < f. hs ! i < hv) \<and> (f < length hs \<longrightarrow> hv \<le> hs ! f)"

lemma hash_search_ok:
  assumes h: "\<forall>i < length hs. leaf_hashval d 16 (int i) = Some (hs ! i)" and s: "sorted hs"
  shows "0 \<le> low \<Longrightarrow> low \<le> high + 1 \<Longrightarrow> high < int (length hs) \<Longrightarrow>
    (\<forall>i < length hs. int i < low \<longrightarrow> hs ! i < hv) \<Longrightarrow> (\<forall>i < length hs. high < int i \<longrightarrow> hv < hs ! i) \<Longrightarrow>
    (low \<le> high \<or> hash \<noteq> hv \<and> (if hash < hv then low = mid + 1 else low = mid)) \<Longrightarrow>
    \<exists>m h'. leaf_hash_search d hv low high mid hash = Some (m, h') \<and>
      (if h' = hv then \<exists>i < length hs. m = int i \<and> hs ! i = hv
       else first_ge hs hv (nat (if h' < hv then m + 1 else m)) \<and> 0 \<le> (if h' < hv then m + 1 else m))"
proof (induction "nat (high - low + 1)" arbitrary: low high mid hash rule: less_induct)
  case less
  show ?case
  proof (cases "low \<le> high")
    case False
    have run: "leaf_hash_search d hv low high mid hash = Some (mid, hash)"
      using False by (simp add: leaf_hash_search.simps)
    have low: "low = high + 1" using False less.prems(2) by simp
    have "first_ge hs hv (nat low)"
      using less.prems(1,3,4,5) low by (auto simp: first_ge_def)
        (metis less.prems(1) less_le_not_le not_less_iff_gr_or_eq zless_nat_eq_int_zless order_refl int_nat_eq low zle_add1_eq_le)
    then show ?thesis using run less.prems(1,6) False by auto
  next
    case True
    define m where "m = nat ((low + high) div 2)"
    have m: "int m = (low + high) div 2" "low \<le> int m" "int m \<le> high" "m < length hs"
      using less.prems(1,3) True by (auto simp: m_def)
    have hm: "leaf_hashval d 16 (int m) = Some (hs ! m)" using h m(4) by blast
    have srt: "i \<le> j \<Longrightarrow> j < length hs \<Longrightarrow> hs ! i \<le> hs ! j" for i j using s by (rule sorted_nth_mono)
    note step = leaf_hash_search.simps [of d hv low high mid hash, folded m(1)]
    show ?thesis
    proof (cases "hs ! m = hv")
      case eq: True
      then have "leaf_hash_search d hv low high mid hash = Some (int m, hv)" using step True hm by (simp add: Let_def)
      then show ?thesis using m(4) eq by auto
    next
      case ne: False
      define lo where "lo = (if hs ! m < hv then int m + 1 else low)"
      define hi where "hi = (if hs ! m < hv then high else int m - 1)"
      have go: "leaf_hash_search d hv low high mid hash = leaf_hash_search d hv lo hi (int m) (hs ! m)"
        using step True hm ne by (simp add: Let_def lo_def hi_def)
      have below: "\<forall>i < length hs. int i < lo \<longrightarrow> hs ! i < hv"
      proof (intro allI impI)
        fix i assume i: "i < length hs" "int i < lo"
        show "hs ! i < hv"
        proof (cases "int i < low")
          case False
          then have "hs ! m < hv" "i \<le> m" using i(2) by (auto simp: lo_def split: if_splits)
          then show ?thesis using srt [of i m] m(4) by simp
        qed (use less.prems(4) i(1) in blast)
      qed
      have above: "\<forall>i < length hs. hi < int i \<longrightarrow> hv < hs ! i"
      proof (intro allI impI)
        fix i assume i: "i < length hs" "hi < int i"
        show "hv < hs ! i"
        proof (cases "high < int i")
          case False
          then have "\<not> hs ! m < hv" "m \<le> i" using i(2) by (auto simp: hi_def split: if_splits)
          then show ?thesis using srt [of m i] ne i(1) by simp
        qed (use less.prems(5) i(1) in blast)
      qed
      have b: "0 \<le> lo" "lo \<le> hi + 1" "hi < int (length hs)" "nat (hi - lo + 1) < nat (high - low + 1)"
        using m less.prems(1,3) by (auto simp: lo_def hi_def)
      have e: "lo \<le> hi \<or> hs ! m \<noteq> hv \<and> (if hs ! m < hv then lo = int m + 1 else lo = int m)"
      proof (cases "lo \<le> hi \<or> hs ! m < hv")
        case True
        then show ?thesis using ne by (auto simp: lo_def)
      next
        case False
        then show ?thesis using ne b(2) by (auto simp: hi_def)
      qed
      show ?thesis unfolding go by (rule less.hyps [OF b(4,1,2,3) below above e])
    qed
  qed
qed

lemma search_hash_ok:
  assumes c: "leaf_count d = Some (length hs)" and h: "\<forall>i < length hs. leaf_hashval d 16 (int i) = Some (hs ! i)" and s: "sorted hs"
  shows "\<exists>f. xfs_dir2_leaf_search_hash d hv = Some (int f) \<and> first_ge hs hv f"
proof (cases "hs = []")
  case True
  then show ?thesis using c by (auto simp: xfs_dir2_leaf_search_hash_def first_ge_def)
next
  case False
  then have n: "length hs \<noteq> 0" by simp
  obtain m h' where r: "leaf_hash_search d hv 0 (int (length hs) - 1) 0 0 = Some (m, h')"
    "if h' = hv then \<exists>i < length hs. m = int i \<and> hs ! i = hv
       else first_ge hs hv (nat (if h' < hv then m + 1 else m)) \<and> 0 \<le> (if h' < hv then m + 1 else m)"
    using hash_search_ok [OF h s, of 0 "int (length hs) - 1" hv 0 0] n by auto
  show ?thesis
  proof (cases "h' = hv")
    case True
    then obtain i where i: "i < length hs" "m = int i" "hs ! i = hv" using r(2) by auto
    obtain f where f: "block_backup d 16 hv (int i) = Some (int f)" "f < length hs" "hs ! f = hv" "\<forall>j < f. hs ! j \<noteq> hv"
      using backup_ok [OF h s i(1,3)] by blast
    have "hs ! j < hv" if "j < f" for j
      using f(4) that sorted_nth_mono [OF s, of j f] f(2,3) by (metis less_imp_le_nat order_le_imp_less_or_eq)
    then have "first_ge hs hv f" using f(2,3) by (simp add: first_ge_def)
    then show ?thesis using r(1) True c n f(1) i(2) by (auto simp: xfs_dir2_leaf_search_hash_def)
  next
    case False
    then show ?thesis using r c n by (auto simp: xfs_dir2_leaf_search_hash_def intro!: exI [of _ "nat (if h' < hv then m + 1 else m)"])
  qed
qed

section \<open>Addresses of entries\<close>

lemma leaf_listing_entry:
  assumes "e \<in> set (leaf_listing mp dp cont)"
  obtains b y q where "(b, y) \<in> set (mapped (fork_exts dp) 0 (leafblk mp))" "(q, de_name e, de_ino e) \<in> set (live_from 16 (cont b))"
    "de_cookie e = (blk_byte mp b + int q) div 8"
  using assms by (fastforce simp: leaf_listing_def leaf_entries_def leaf_dirent_def)

text \<open>An entry of the listing, read at the address its cookie is.\<close>

lemma leaf_entry_at:
  assumes ok: "leaf_dir_ok dev mp dp cont" and e: "e \<in> set (leaf_listing mp dp cont)"
  obtains b y x where "(b, y) \<in> set (mapped (fork_exts dp) 0 (leafblk mp))"
    "dev (XFS_FSB_TO_DADDR mp (int y)) (XFS_FSB_TO_BB mp 1) = Some x" "da_magic_ok x = Some True"
    "xfs_dir2_dataptr_to_db mp (de_cookie e) = int b" "nat (xfs_dir2_db_to_da mp (int b)) = b" "b < 2 ^ 26"
    "data_name x (leaf_dep mp (nat (de_cookie e))) = Some (de_name e)"
    "data_inumber x (leaf_dep mp (nat (de_cookie e))) = Some (de_ino e)" "0 < de_cookie e"
proof (rule leaf_listing_entry [OF e])
  fix b y q
  assume m: "(b, y) \<in> set (mapped (fork_exts dp) 0 (leafblk mp))" and live: "(q, de_name e, de_ino e) \<in> set (live_from 16 (cont b))"
    and ck: "de_cookie e = (blk_byte mp b + int q) div 8"
  note B = leaf_dir_block [OF ok m]
  obtain x where x: "dev (XFS_FSB_TO_DADDR mp (int y)) (XFS_FSB_TO_BB mp 1) = Some x" "da_magic_ok x = Some True"
    "items_at x 16 (cont b) (m_dirblksize mp)" using B(4) by (auto simp: data_block_def)
  have q: "int q < blksize mp" "8 dvd q" using data_block_live [OF B(1,4) live] by simp_all
  have pos: "16 \<le> q" using live_from_bounds [OF x(3) live] by simp
  have "8 dvd blk_byte mp b"
    using le_imp_power_dvd [of 3 "sb_blocklog (m_sb mp)" "2 :: int"] leaf_log [OF B(1)] by (simp add: blk_byte_def dvd_mult)
  then have eight: "de_cookie e * 8 = blk_byte mp b + int q" using q(2) unfolding ck by (intro dvd_div_mult_self dvd_add) (simp_all add: int_dvd_int_iff [of 8, simplified])
  have lt: "blk_byte mp b + int q < 2 ^ 35" "0 \<le> blk_byte mp b" using blk_byte_bounds [OF B(1,2)] q(1) by (auto simp: blk_byte_def)
  then have by8: "xfs_dir2_dataptr_to_byte mp (de_cookie e) = blk_byte mp b + int q"
    using eight by (simp add: xfs_dir2_dataptr_to_byte_def XFS_DIR2_DATA_ALIGN_LOG_def)
  have c: "0 < de_cookie e" using eight pos lt(2) by linarith
  have b: "b < 2 ^ 26" using B(2) leaf_blksize(6) [OF B(1)] by simp
  have da: "nat (xfs_dir2_db_to_da mp (int b)) = b"
    using B(1) b by (simp add: xfs_dir2_db_to_da_def leaf_geom_def)
  have "leaf_dep mp (nat (de_cookie e)) = q"
    using leaf_addr(1) [OF B(1,2) _ q(1)] c by8 by (simp add: leaf_dep_def xfs_dir2_dataptr_to_off_def)
  moreover have "xfs_dir2_dataptr_to_db mp (de_cookie e) = int b"
    using leaf_addr(2) [OF B(1,2) _ q(1)] by8 by (simp add: xfs_dir2_dataptr_to_db_def)
  moreover have "data_name x q = Some (de_name e)" "data_inumber x q = Some (de_ino e)"
    using live_item_at [OF x(3) live] by (simp_all add: item_at_def)
  ultimately show thesis using that m x(1,2) da b c by metis
qed

section \<open>Leaf directories\<close>

text \<open>
  The entries \<open>lf\<close> of the leaf block, hash and address, index the listing: sorted by hash, each stale or of an entry,
  and one for every entry. Names are distinct.
\<close>

definition index_sound :: "xfs_mount \<Rightarrow> dirent list \<Rightarrow> (nat \<times> nat) list \<Rightarrow> bool" where
  "index_sound mp es lf \<longleftrightarrow> sorted (map fst lf) \<and>
     (\<forall>x \<in> set lf. snd x = XFS_DIR2_NULL_DATAPTR \<or> (\<exists>e \<in> set es. snd x = nat (de_cookie e) \<and> fst x = hashname mp (de_name e)))"

definition dir_index :: "xfs_mount \<Rightarrow> dirent list \<Rightarrow> (nat \<times> nat) list \<Rightarrow> bool" where
  "dir_index mp es lf \<longleftrightarrow> index_sound mp es lf \<and> distinct (map de_name es) \<and>
     (\<forall>e \<in> set es. (hashname mp (de_name e), nat (de_cookie e)) \<in> set lf)"

definition leaf_holds :: "bytes \<Rightarrow> (nat \<times> nat) list \<Rightarrow> bool" where
  "leaf_holds d lf \<longleftrightarrow> leaf_count d = Some (length lf) \<and>
     (\<forall>i < length lf. leaf_hashval d 16 (int i) = Some (fst (lf ! i)) \<and> leaf_address d 16 (int i) = Some (snd (lf ! i)))"

definition leaf1_ok :: "(int \<Rightarrow> int \<Rightarrow> bytes option) \<Rightarrow> xfs_mount \<Rightarrow> xfs_inode \<Rightarrow> (nat \<Rightarrow> data_item list) \<Rightarrow> bool" where
  "leaf1_ok dev mp dp cont \<longleftrightarrow> leaf_dir_ok dev mp dp cont \<and> m_dirleafblk mp = int (leafblk mp) \<and>
     (\<exists>blk x lf. dir_daddr mp dp (leafblk mp) = Some blk \<and> dev blk (XFS_FSB_TO_BB mp 1) = Some x \<and> da_magic_ok x = Some True \<and>
       leaf_holds x lf \<and> dir_index mp (leaf_listing mp dp cont) lf)"

definition dir_find :: "dirent list \<Rightarrow> bytes \<Rightarrow> nat option" where
  "dir_find es nm = map_option de_ino (find (\<lambda>e. de_name e = nm) es)"

lemma dir_find_Some:
  assumes "distinct (map de_name es)" and "e \<in> set es"
  shows "dir_find es (de_name e) = Some (de_ino e)"
  using assms by (induction es) (auto simp: dir_find_def)

lemma leaf_cookie_inj:
  assumes "leaf_dir_ok dev mp dp cont" and "e \<in> set (leaf_listing mp dp cont)" and "e' \<in> set (leaf_listing mp dp cont)"
    and "de_cookie e = de_cookie e'"
  shows "e = e'"
proof -
  have "sorted_wrt (<) (map de_cookie (leaf_listing mp dp cont))"
    using leaf_cookies_ok [OF assms(1)] by (simp add: cookies_ok_def sorted_wrt_map)
  then have "distinct (map de_cookie (leaf_listing mp dp cont))" by (simp add: strict_sorted_iff)
  then show ?thesis using assms(2-) by (auto simp: distinct_map dest: inj_onD)
qed

text \<open>The loop holds the buffer of its block besides the buffers \<open>H\<close>.\<close>

definition look_at ::
    "('b multiset \<Rightarrow> 's \<Rightarrow> bool) \<Rightarrow> 'b multiset \<Rightarrow> (int \<Rightarrow> int \<Rightarrow> bytes option) \<Rightarrow> xfs_mount \<Rightarrow> xfs_inode \<Rightarrow>
      'b leaf_look \<Rightarrow> 's \<Rightarrow> bool" where
  "look_at held H dev mp dp lk s \<longleftrightarrow> held (bufs_of (lk_buf lk) + H) s \<and>
     (case lk_buf lk of None \<Rightarrow> lk_db lk = 2 ^ 32 - 1 | Some bp \<Rightarrow> \<exists>b y. (b, y) \<in> set (mapped (fork_exts dp) 0 (leafblk mp)) \<and>
        lk_db lk = int b \<and> length (bps bp) = 1 \<and> dev (XFS_FSB_TO_DADDR mp (int y)) (XFS_FSB_TO_BB mp 1) = Some (da_data bp))"

context buf_pool
begin

lemma leaf_switch_ok:
  assumes r: "dir_ready mp dp" and m: "(b, y) \<in> set (mapped (fork_exts dp) 0 (leafblk mp))"
    and x: "dev (XFS_FSB_TO_DADDR mp (int y)) (XFS_FSB_TO_BB mp 1) = Some x" "da_magic_ok x = Some True"
    and da: "nat (xfs_dir2_db_to_da mp (int b)) = b" and b: "b < 2 ^ 26" and n: "size H \<le> XFS_DA_NODE_MAXDEPTH" and lk: "look_at held H dev mp dp lk s"
  obtains lk' bp s' where "leaf_switch ops iread l2e mp (int b) lk dp s = Some (0, lk', dp, s')" "look_at held H dev mp dp lk' s'"
    "lk_buf lk' = Some bp" "da_data bp = x" "lk_args lk' = lk_args lk"
proof (cases "int b = lk_db lk")
  case True
  then obtain bp b' y' where bp: "lk_buf lk = Some bp" "(b', y') \<in> set (mapped (fork_exts dp) 0 (leafblk mp))" "lk_db lk = int b'"
    "dev (XFS_FSB_TO_DADDR mp (int y')) (XFS_FSB_TO_BB mp 1) = Some (da_data bp)"
    using lk b by (auto simp: look_at_def split: option.splits)
  then have "y' = y" using m True by (simp add: mapped_set)
  then show ?thesis using that [of lk s bp] True lk bp x by (simp add: leaf_switch_def)
next
  case False
  have i: "held H (put_buf ops (lk_buf lk) s)" using lk give_put by (simp add: look_at_def)
  have a: "dir_daddr mp dp b = Some (XFS_FSB_TO_DADDR mp (int y))" using m by (simp add: mapped_set dir_daddr_def)
  obtain bp s' where rd: "xfs_da_read_buf ops iread l2e mp dp b (- 1) (put_buf ops (lk_buf lk) s) = Some (0, Some bp, dp, s')"
    "da_data bp = x" "held (mset (bps bp) + H) s'" "size (mset (bps bp)) = 1"
    by (rule take_da [OF i n r a x, where iread = iread and l2e = l2e])
  show ?thesis
  proof (rule that [of "lk\<lparr>lk_db := int b, lk_buf := Some bp\<rparr>" s' bp])
    show "leaf_switch ops iread l2e mp (int b) lk dp s = Some (0, lk\<lparr>lk_db := int b, lk_buf := Some bp\<rparr>, dp, s')"
      using False rd(1) da by (simp add: leaf_switch_def)
    show "look_at held H dev mp dp (lk\<lparr>lk_db := int b, lk_buf := Some bp\<rparr>) s'" using rd(2-4) m x(1) by (auto simp: look_at_def)
  qed (use rd(2) in simp_all)
qed

text \<open>The scan over the entries with the hash, for exact names.\<close>

lemma leaf_look_ok:
  assumes ok: "leaf_dir_ok dev mp dp cont" and h: "leaf_holds x lf" and ix: "index_sound mp (leaf_listing mp dp cont) lf"
    and ci: "\<not> xfs_sb_version_hasasciici (m_sb mp)" and n: "size H \<le> XFS_DA_NODE_MAXDEPTH"
  shows "f + n = length lf \<Longrightarrow> (f < length lf \<Longrightarrow> hv \<le> fst (lf ! f)) \<Longrightarrow> look_at held H dev mp dp lk s \<Longrightarrow> a_cmpresult (lk_args lk) = XFS_CMP_DIFFERENT \<Longrightarrow>
    (\<exists>i lk' bp s' e. leaf_look_loop ops iread l2e mp x hv n (int f) lk dp s = Some (Some 0, lk', dp, s') \<and>
       look_at held H dev mp dp lk' s' \<and> lk_buf lk' = Some bp \<and> lk_index lk' = int i \<and> i < length lf \<and>
       lk_args lk' = (lk_args lk)\<lparr>a_cmpresult := XFS_CMP_EXACT\<rparr> \<and>
       e \<in> set (leaf_listing mp dp cont) \<and> de_name e = a_name (lk_args lk) \<and>
       data_name (da_data bp) (leaf_dep mp (snd (lf ! i))) = Some (de_name e) \<and>
       data_inumber (da_data bp) (leaf_dep mp (snd (lf ! i))) = Some (de_ino e)) \<or>
    (\<exists>lk' s'. leaf_look_loop ops iread l2e mp x hv n (int f) lk dp s = Some (None, lk', dp, s') \<and>
       look_at held H dev mp dp lk' s' \<and> lk_args lk' = lk_args lk \<and>
       (\<forall>e \<in> set (leaf_listing mp dp cont). \<forall>i < length lf. f \<le> i \<longrightarrow> lf ! i = (hv, nat (de_cookie e)) \<longrightarrow>
          de_name e \<noteq> a_name (lk_args lk)))"
proof (induction n arbitrary: f lk s)
  case 0
  then show ?case by auto
next
  case (Suc n)
  let ?es = "leaf_listing mp dp cont"
  have f: "f < length lf" "Suc f + n = length lf" using Suc.prems(1) by auto
  have hf: "leaf_hashval x 16 (int f) = Some (fst (lf ! f))" and af: "leaf_address x 16 (int f) = Some (snd (lf ! f))"
    using h f(1) by (auto simp: leaf_holds_def)
  have srt: "sorted (map fst lf)" using ix by (simp add: index_sound_def)
  have one: "int f + 1 = int (Suc f)" by simp
  show ?case
  proof (cases "fst (lf ! f) = hv")
    case False
    have run: "leaf_look_loop ops iread l2e mp x hv (Suc n) (int f) lk dp s = Some (None, lk, dp, s)" using hf False by simp
    have "fst (lf ! i) \<noteq> hv" if "f \<le> i" "i < length lf" for i
      using sorted_nth_mono [OF srt, of f i] that Suc.prems(2) [OF f(1)] False by auto
    then show ?thesis using run Suc.prems(3) by (metis fst_conv)
  next
    case hash: True
    have next_ge: "Suc f < length lf \<Longrightarrow> hv \<le> fst (lf ! Suc f)"
      using sorted_nth_mono [OF srt, of f "Suc f"] hash by simp
    show ?thesis
    proof (cases "snd (lf ! f) = XFS_DIR2_NULL_DATAPTR")
      case True
      have run: "leaf_look_loop ops iread l2e mp x hv (Suc n) (int f) lk dp s =
          leaf_look_loop ops iread l2e mp x hv n (int (Suc f)) lk dp s"
        using hf af hash True by (simp add: leaf_look_step_def add.commute)
      have "nat (de_cookie e) \<noteq> snd (lf ! f)" if "e \<in> set ?es" for e
      proof -
        have "0 < de_cookie e" by (rule leaf_entry_at [OF ok that])
        then show ?thesis using True by (simp add: XFS_DIR2_NULL_DATAPTR_def)
      qed
      then have skip: "lf ! f \<noteq> (hv, nat (de_cookie e))" if "e \<in> set ?es" for e using that by (metis snd_conv)
      have on: "f = i \<or> Suc f \<le> i" if "f \<le> i" for i using that by linarith
      from Suc.IH [OF f(2) next_ge Suc.prems(3,4)] show ?thesis
        unfolding run using skip on by blast
    next
      case False
      then obtain e where e: "e \<in> set ?es" "snd (lf ! f) = nat (de_cookie e)"
        using ix nth_mem [OF f(1)] by (auto simp: index_sound_def)
      obtain b y d where at: "(b, y) \<in> set (mapped (fork_exts dp) 0 (leafblk mp))"
        "dev (XFS_FSB_TO_DADDR mp (int y)) (XFS_FSB_TO_BB mp 1) = Some d" "da_magic_ok d = Some True"
        "xfs_dir2_dataptr_to_db mp (de_cookie e) = int b" "nat (xfs_dir2_db_to_da mp (int b)) = b" "b < 2 ^ 26"
        "data_name d (leaf_dep mp (nat (de_cookie e))) = Some (de_name e)"
        "data_inumber d (leaf_dep mp (nat (de_cookie e))) = Some (de_ino e)" "0 < de_cookie e"
        by (rule leaf_entry_at [OF ok e(1)])
      have r: "dir_ready mp dp" using ok by (simp add: leaf_dir_ok_def)
      obtain lk' bp s' where sw: "leaf_switch ops iread l2e mp (int b) lk dp s = Some (0, lk', dp, s')" "look_at held H dev mp dp lk' s'"
        "lk_buf lk' = Some bp" "da_data bp = d" "lk_args lk' = lk_args lk"
        by (rule leaf_switch_ok [OF r at(1,2,3,5,6) n Suc.prems(3), where iread = iread and l2e = l2e])
      have ptr: "xfs_dir2_dataptr_to_db mp (int (nat (de_cookie e))) = int b" using at(4,9) by simp
      show ?thesis
      proof (cases "de_name e = a_name (lk_args lk)")
        case True
        let ?lk = "lk'\<lparr>lk_args := (lk_args lk)\<lparr>a_cmpresult := XFS_CMP_EXACT\<rparr>, lk_index := int f\<rparr>"
        have "leaf_look_step ops iread l2e mp x (int f) lk dp s = Some (Some 0, ?lk, dp, s')"
          using af False e(2) ptr sw at(7) True ci Suc.prems(4)
          by (simp add: leaf_look_step_def compname_def xfs_da_compname_def Let_def)
        then have "leaf_look_loop ops iread l2e mp x hv (Suc n) (int f) lk dp s = Some (Some 0, ?lk, dp, s')"
          using hf hash by simp
        moreover have "look_at held H dev mp dp ?lk s'" using sw(2) by (simp add: look_at_def sw(3))
        ultimately show ?thesis using e f(1) at(7,8) sw(3,4) True by fastforce
      next
        case other: False
        have "leaf_look_step ops iread l2e mp x (int f) lk dp s = Some (None, lk', dp, s')"
          using af False e(2) ptr sw at(7) other ci
          by (simp add: leaf_look_step_def compname_def xfs_da_compname_def Let_def)
        then have run: "leaf_look_loop ops iread l2e mp x hv (Suc n) (int f) lk dp s =
            leaf_look_loop ops iread l2e mp x hv n (int (Suc f)) lk' dp s'"
          using hf hash by (simp add: add.commute)
        have skip: "de_name e' \<noteq> a_name (lk_args lk)" if e': "e' \<in> set ?es" "lf ! f = (hv, nat (de_cookie e'))" for e'
        proof -
          have "0 < de_cookie e'" by (rule leaf_entry_at [OF ok e'(1)])
          then have "de_cookie e = de_cookie e'" using e(2) e'(2) at(9) by simp
          then show ?thesis using leaf_cookie_inj [OF ok e(1) e'(1)] other by blast
        qed
        have "a_cmpresult (lk_args lk') = XFS_CMP_DIFFERENT" using Suc.prems(4) sw(5) by simp
        have on: "f = i \<or> Suc f \<le> i" if "f \<le> i" for i using that by linarith
        from Suc.IH [OF f(2) next_ge sw(2) \<open>a_cmpresult (lk_args lk') = _\<close>] show ?thesis
          unfolding run sw(5) using skip on by blast
      qed
    qed
  qed
qed

lemma leaf1_lookup_ok:
  assumes s: "held {#} s" and lf: "leaf1_ok dev mp dp cont"
    and ci: "\<not> xfs_sb_version_hasasciici (m_sb mp)" and args: "a_cmpresult args = XFS_CMP_DIFFERENT"
  shows "\<exists>s'. held {#} s' \<and> xfs_dir2_leaf_lookup alloc_ok ops iread l2e mp dp (hashname mp (a_name args)) args s =
    Some (case dir_find (leaf_listing mp dp cont) (a_name args) of
        None \<Rightarrow> (errno_code ENOENT, args, dp, s')
      | Some ino \<Rightarrow> (errno_code EEXIST, args\<lparr>a_cmpresult := XFS_CMP_EXACT, a_inumber := ino\<rparr>, dp, s'))"
proof -
  let ?hv = "hashname mp (a_name args)" and ?es = "leaf_listing mp dp cont"
  obtain blk x lf where L: "leaf_dir_ok dev mp dp cont" "m_dirleafblk mp = int (leafblk mp)" "dir_daddr mp dp (leafblk mp) = Some blk"
    "dev blk (XFS_FSB_TO_BB mp 1) = Some x" "da_magic_ok x = Some True" "leaf_holds x lf" "dir_index mp ?es lf"
    using lf by (auto simp: leaf1_ok_def)
  have r: "dir_ready mp dp" using L(1) by (simp add: leaf_dir_ok_def)
  obtain lbp s1 where rd: "xfs_da_read_buf ops iread l2e mp dp (leafblk mp) (- 1) s = Some (0, Some lbp, dp, s1)" "da_data lbp = x"
    "held (mset (bps lbp)) s1" "size (mset (bps lbp)) = 1"
    by (rule take_da [OF s _ r L(3,4,5), where iread = iread and l2e = l2e]) simp_all
  let ?H = "mset (bps lbp)"
  have n: "size ?H \<le> XFS_DA_NODE_MAXDEPTH" using rd(4) by (simp add: XFS_DA_NODE_MAXDEPTH_def)
  have give: "held (bufs_of b + ?H) s2 \<Longrightarrow> held {#} (xfs_da_brelse ops lbp (put_buf ops b s2))" for b s2
    using give_put [of b ?H] give_da [of lbp "{#}"] by simp
  have srt: "sorted (map fst lf)" and dist: "distinct (map de_name ?es)" and ix: "index_sound mp ?es lf"
    using L(7) by (auto simp: dir_index_def index_sound_def)
  have cnt: "leaf_count x = Some (length lf)" using L(6) by (simp add: leaf_holds_def)
  obtain f where f: "xfs_dir2_leaf_search_hash x ?hv = Some (int f)" "first_ge (map fst lf) ?hv f"
    using search_hash_ok [of x "map fst lf" ?hv] L(6) srt by (auto simp: leaf_holds_def)
  let ?lk0 = "leaf_look_init args :: 'a leaf_look"
  have fl: "f + (length lf - f) = length lf" "nat (int (length lf) - int f) = length lf - f" using f(2) by (auto simp: first_ge_def)
  have ge: "f < length lf \<Longrightarrow> ?hv \<le> fst (lf ! f)" using f(2) by (auto simp: first_ge_def)
  have at: "look_at held ?H dev mp dp ?lk0 s1" using rd(3) by (simp add: look_at_def leaf_look_init_def)
  have c0: "a_cmpresult (lk_args ?lk0) = XFS_CMP_DIFFERENT" "lk_args ?lk0 = args" using args by (simp_all add: leaf_look_init_def)
  consider (found) i lk' bp s' e where "leaf_look_loop ops iread l2e mp x ?hv (length lf - f) (int f) ?lk0 dp s1 = Some (Some 0, lk', dp, s')"
      "look_at held ?H dev mp dp lk' s'" "lk_buf lk' = Some bp" "lk_index lk' = int i" "i < length lf"
      "lk_args lk' = args\<lparr>a_cmpresult := XFS_CMP_EXACT\<rparr>" "e \<in> set ?es" "de_name e = a_name args"
      "data_name (da_data bp) (leaf_dep mp (snd (lf ! i))) = Some (de_name e)"
      "data_inumber (da_data bp) (leaf_dep mp (snd (lf ! i))) = Some (de_ino e)"
    | (missing) lk' s' where "leaf_look_loop ops iread l2e mp x ?hv (length lf - f) (int f) ?lk0 dp s1 = Some (None, lk', dp, s')"
      "look_at held ?H dev mp dp lk' s'" "lk_args lk' = args"
      "\<forall>e \<in> set ?es. \<forall>i < length lf. f \<le> i \<longrightarrow> lf ! i = (?hv, nat (de_cookie e)) \<longrightarrow> de_name e \<noteq> a_name args"
    using leaf_look_ok [OF L(1,6) ix ci n fl(1) ge at c0(1), of iread l2e] unfolding c0(2) by blast
  then show ?thesis
  proof cases
    case found
    have look: "dir_find ?es (a_name args) = Some (de_ino e)" using dir_find_Some [OF dist found(7)] found(8) by simp
    have addr: "leaf_address x 16 (int i) = Some (snd (lf ! i))" using L(6) found(5) by (simp add: leaf_holds_def)
    have "held {#} (xfs_da_brelse ops lbp (xfs_da_brelse ops bp s'))"
      using give [of "Some bp" s'] found(2,3) by (simp add: look_at_def)
    moreover have "xfs_dir2_leaf_lookup alloc_ok ops iread l2e mp dp ?hv args s =
        Some (errno_code EEXIST, args\<lparr>a_cmpresult := XFS_CMP_EXACT, a_inumber := de_ino e\<rparr>, dp, xfs_da_brelse ops lbp (xfs_da_brelse ops bp s'))"
      using rd(1,2) L(2) f(1) cnt fl(2) found addr
      by (simp add: xfs_dir2_leaf_lookup_def xfs_dir2_leaf_lookup_int_def xfs_dir_cilookup_result_def)
    ultimately show ?thesis unfolding look by simp
  next
    case missing
    have "de_name e \<noteq> a_name args" if e: "e \<in> set ?es" for e
    proof
      assume nm: "de_name e = a_name args"
      then have "(?hv, nat (de_cookie e)) \<in> set lf" using L(7) e by (auto simp: dir_index_def)
      then obtain i where i: "i < length lf" "lf ! i = (?hv, nat (de_cookie e))" by (auto simp: in_set_conv_nth)
      have "f \<le> i" using f(2) i by (auto simp: first_ge_def) (metis fst_conv less_irrefl not_le nth_map)
      then show False using missing(4) e i nm by blast
    qed
    then have look: "dir_find ?es (a_name args) = None" by (auto simp: dir_find_def find_None_iff)
    have "held {#} (xfs_da_brelse ops lbp (put_buf ops (lk_buf lk') s'))" using give missing(2) by (simp add: look_at_def)
    moreover have "xfs_dir2_leaf_lookup alloc_ok ops iread l2e mp dp ?hv args s =
        Some (errno_code ENOENT, args, dp, xfs_da_brelse ops lbp (put_buf ops (lk_buf lk') s'))"
      using rd(1,2) L(2) f(1) cnt fl(2) missing args
      by (simp add: xfs_dir2_leaf_lookup_def xfs_dir2_leaf_lookup_int_def)
    ultimately show ?thesis unfolding look by simp
  qed
qed

end

end
