(* ===== verification/Dir2_Node.thy ===== *)
theory Dir2_Node
  imports Dir2_Leaf_Lookup
begin

text \<open>
  Looking a name up in a node directory: a B-tree over the hashes whose leaves are leaf blocks
  (\<open>xfs_dir2_node_lookup\<close> and \<open>xfs_dir2_leafn_lookup_for_entry\<close> of libxfs/xfs_dir2_node.c, \<open>xfs_da_node_lookup_int\<close>
  and \<open>xfs_da_path_shift\<close> of libxfs/xfs_da_btree.c). Nodes have the layout of leaf blocks: a count behind the block info,
  then pairs of hash and block number. Attribute leaves, which the functions of xfs_da_btree.c also know,
  do not occur in the data fork; the model has no value (\<open>None\<close>) when it meets one.
\<close>

section \<open>The cursor\<close>

definition XFS_DA_NODE_MAGIC :: nat where "XFS_DA_NODE_MAGIC = 0xfebe"
definition XFS_ATTR_LEAF_MAGIC :: nat where "XFS_ATTR_LEAF_MAGIC = 0xfbee"
definition XFS_DIR2_LEAFN_MAGIC :: nat where "XFS_DIR2_LEAFN_MAGIC = 0xd2ff"

definition da_magic :: "bytes \<Rightarrow> nat option" where
  "da_magic d = rd_be16 8 d"

text \<open>A block of the path.\<close>

record 'b da_blk =
  db_buf :: "'b dabuf option"
  db_blkno :: nat
  db_index :: int
  db_hash :: nat
  db_magic :: nat

text \<open>The data block of the cursor (\<open>extrablk\<close>), and the arguments.\<close>

record 'b da_cursor =
  dc_valid :: bool
  dc_buf :: "'b dabuf option"
  dc_db :: int
  dc_index :: int
  dc_args :: da_args

section \<open>A leaf of the tree\<close>

definition xfs_dir2_leafn_lasthash :: "bytes \<Rightarrow> nat option" where
  "xfs_dir2_leafn_lasthash d = do {
     n \<leftarrow> leaf_count d;
     if n = 0 then Some 0 else leaf_hashval d 16 (int n - 1) }"

text \<open>The loop: the buffer and number of the data block in use, the index of a match, the cursor.\<close>

record 'b leafn_look =
  ln_db :: int
  ln_buf :: "'b dabuf option"
  ln_index :: int
  ln_cur :: "'b da_cursor"

abbreviation ln_cmp :: "'b leafn_look \<Rightarrow> xfs_dacmp" where
  "ln_cmp ln \<equiv> a_cmpresult (dc_args (ln_cur ln))"

definition leafn_switch ::
    "('b, 's) buf_ops \<Rightarrow> 's inode_reader \<Rightarrow> 's inode_reader \<Rightarrow> xfs_mount \<Rightarrow> int \<Rightarrow> 'b leafn_look \<Rightarrow> xfs_inode \<Rightarrow> 's \<Rightarrow>
      (int \<times> 'b leafn_look \<times> xfs_inode \<times> 's) option" where
  "leafn_switch ops iread l2e mp db ln dp s =
    (if db = ln_db ln then Some (0, ln, dp, s)
     else let s = (case ln_buf ln of None \<Rightarrow> s
         | Some b \<Rightarrow> if ln_cmp ln = XFS_CMP_DIFFERENT \<or> ln_db ln \<noteq> dc_db (ln_cur ln) then xfs_da_brelse ops b s else s) in
       if ln_cmp ln \<noteq> XFS_CMP_DIFFERENT \<and> db = dc_db (ln_cur ln)
       then Some (0, ln\<lparr>ln_db := db, ln_buf := dc_buf (ln_cur ln)\<rparr>, dp, s)
       else do {
         (error, b, dp, s) \<leftarrow> xfs_da_read_buf ops iread l2e mp dp (nat (xfs_dir2_db_to_da mp db)) (- 1) s;
         Some (error, if error \<noteq> 0 then ln else ln\<lparr>ln_db := db, ln_buf := b\<rparr>, dp, s) })"

text \<open>A match: the match in another case found before is given up, and its block with it.\<close>

definition leafn_match ::
    "('b, 's) buf_ops \<Rightarrow> int \<Rightarrow> nat \<Rightarrow> nat \<Rightarrow> xfs_dacmp \<Rightarrow> 'b leafn_look \<Rightarrow> 's \<Rightarrow> ('b leafn_look \<times> 's) option" where
  "leafn_match ops index dep ino cmp ln s =
    (let cur = ln_cur ln in do {
       s \<leftarrow> (if ln_cmp ln \<noteq> XFS_CMP_DIFFERENT \<and> ln_db ln \<noteq> dc_db cur
         then map_option (\<lambda>b. xfs_da_brelse ops b s) (dc_buf cur) else Some s);
       Some (ln\<lparr>ln_index := index, ln_cur := \<lparr> dc_valid = True, dc_buf = ln_buf ln, dc_db = ln_db ln, dc_index = int dep,
           dc_args = (dc_args cur)\<lparr>a_cmpresult := cmp, a_inumber := ino\<rparr> \<rparr>\<rparr>, s) })"

definition leafn_step ::
    "('b, 's) buf_ops \<Rightarrow> 's inode_reader \<Rightarrow> 's inode_reader \<Rightarrow> xfs_mount \<Rightarrow> bytes \<Rightarrow> int \<Rightarrow> 'b leafn_look \<Rightarrow> xfs_inode \<Rightarrow> 's \<Rightarrow>
      (int option \<times> 'b leafn_look \<times> xfs_inode \<times> 's) option" where
  "leafn_step ops iread l2e mp leaf index ln dp s = do {
     addr \<leftarrow> leaf_address leaf 16 index;
     if addr = XFS_DIR2_NULL_DATAPTR then Some (None, ln, dp, s)
     else do {
       (error, ln, dp, s) \<leftarrow> leafn_switch ops iread l2e mp (xfs_dir2_dataptr_to_db mp (int addr)) ln dp s;
       if error \<noteq> 0 then Some (Some error, ln, dp, s)
       else do {
         bp \<leftarrow> ln_buf ln;
         nm \<leftarrow> data_name (da_data bp) (leaf_dep mp addr);
         let cmp = compname mp (dc_args (ln_cur ln)) nm;
         if cmp \<noteq> XFS_CMP_DIFFERENT \<and> cmp \<noteq> ln_cmp ln then do {
           ino \<leftarrow> data_inumber (da_data bp) (leaf_dep mp addr);
           (ln, s) \<leftarrow> leafn_match ops index (leaf_dep mp addr) ino cmp ln s;
           Some (if cmp = XFS_CMP_EXACT then Some (errno_code EEXIST) else None, ln, dp, s) }
         else Some (None, ln, dp, s) } } }"

text \<open>Over the \<open>n\<close> entries from \<open>index\<close> on; the index where the loop ended.\<close>

fun leafn_loop ::
    "('b, 's) buf_ops \<Rightarrow> 's inode_reader \<Rightarrow> 's inode_reader \<Rightarrow> xfs_mount \<Rightarrow> bytes \<Rightarrow> nat \<Rightarrow> nat \<Rightarrow> int \<Rightarrow> 'b leafn_look \<Rightarrow>
      xfs_inode \<Rightarrow> 's \<Rightarrow> (int option \<times> int \<times> 'b leafn_look \<times> xfs_inode \<times> 's) option" where
  "leafn_loop ops iread l2e mp leaf hashval 0 index ln dp s = Some (None, index, ln, dp, s)"
| "leafn_loop ops iread l2e mp leaf hashval (Suc n) index ln dp s = do {
     hash \<leftarrow> leaf_hashval leaf 16 index;
     if hash = hashval then do {
       (stop, ln, dp, s) \<leftarrow> leafn_step ops iread l2e mp leaf index ln dp s;
       if stop = None then leafn_loop ops iread l2e mp leaf hashval n (index + 1) ln dp s else Some (stop, index, ln, dp, s) }
     else Some (None, index, ln, dp, s) }"

text \<open>
  \<open>xfs_dir2_leafn_lookup_for_entry\<close>, which \<open>xfs_dir2_leafn_lookup_int\<close> calls except to add a name: result, index, cursor,
  inode, state. A buffer is compared with that of the cursor by its contents; the same block is never held twice.
\<close>

definition xfs_dir2_leafn_lookup_for_entry ::
    "('b, 's) buf_ops \<Rightarrow> 's inode_reader \<Rightarrow> 's inode_reader \<Rightarrow> xfs_mount \<Rightarrow> bytes \<Rightarrow> nat \<Rightarrow> 'b da_cursor \<Rightarrow> xfs_inode \<Rightarrow> 's \<Rightarrow>
      (int \<times> int \<times> 'b da_cursor \<times> xfs_inode \<times> 's) option" where
  "xfs_dir2_leafn_lookup_for_entry ops iread l2e mp leaf hashval cur dp s = do {
     index \<leftarrow> xfs_dir2_leaf_search_hash leaf hashval;
     n \<leftarrow> leaf_count leaf;
     let ln = \<lparr> ln_db = (if dc_valid cur then dc_db cur else 2 ^ 32 - 1), ln_buf = (if dc_valid cur then dc_buf cur else None),
        ln_index = 0, ln_cur = cur \<rparr>;
     (stop, index, ln, dp, s) \<leftarrow> leafn_loop ops iread l2e mp leaf hashval (nat (int n - index)) index ln dp s;
     case stop of
       Some rval \<Rightarrow> Some (rval, ln_index ln, ln_cur ln, dp, s)
     | None \<Rightarrow>
         let (cur, s) = (case ln_buf ln of
             None \<Rightarrow> ((ln_cur ln)\<lparr>dc_valid := False\<rparr>, s)
           | Some b \<Rightarrow>
               if ln_cmp ln = XFS_CMP_DIFFERENT
               then ((ln_cur ln)\<lparr>dc_valid := True, dc_buf := Some b, dc_index := - 1, dc_db := ln_db ln\<rparr>, s)
               else if dc_buf (ln_cur ln) \<noteq> Some b then (ln_cur ln, xfs_da_brelse ops b s)
               else (ln_cur ln, s)) in
         Some (errno_code ENOENT, index, cur, dp, s) }"

section \<open>A node of the tree\<close>

text \<open>The binary search, which stops when few entries are left, and the two loops that make its result exact.\<close>

function da_node_probe :: "bytes \<Rightarrow> nat \<Rightarrow> int \<Rightarrow> int \<Rightarrow> int option" where
  "da_node_probe d hashval probe span =
     (if span > 4 then do {
        let span = span div 2;
        hash \<leftarrow> leaf_hashval d 16 probe;
        if hash < hashval then da_node_probe d hashval (probe + span) span
        else if hash > hashval then da_node_probe d hashval (probe - span) span
        else Some probe }
      else Some probe)"
  by pat_completeness auto
termination
  by (relation "measure (\<lambda>(d, hashval, probe, span). nat span)") auto

declare da_node_probe.simps [simp del]

function da_node_back :: "bytes \<Rightarrow> nat \<Rightarrow> int \<Rightarrow> int option" where
  "da_node_back d hashval probe =
     (if probe > 0 then do {
        hash \<leftarrow> leaf_hashval d 16 probe;
        if hash \<ge> hashval then da_node_back d hashval (probe - 1) else Some probe }
      else Some probe)"
  by pat_completeness auto
termination
  by (relation "measure (\<lambda>(d, hashval, probe). nat probe)") auto

declare da_node_back.simps [simp del]

function da_node_forward :: "bytes \<Rightarrow> nat \<Rightarrow> int \<Rightarrow> int \<Rightarrow> int option" where
  "da_node_forward d hashval n probe =
     (if probe < n then do {
        hash \<leftarrow> leaf_hashval d 16 probe;
        if hash < hashval then da_node_forward d hashval n (probe + 1) else Some probe }
      else Some probe)"
  by pat_completeness auto
termination
  by (relation "measure (\<lambda>(d, hashval, n, probe). nat (n - probe))") auto

declare da_node_forward.simps [simp del]

text \<open>The entry to descend by, and the block it leads to.\<close>

definition da_node_pick :: "bytes \<Rightarrow> nat \<Rightarrow> int \<Rightarrow> (int \<times> nat) option" where
  "da_node_pick d hashval n = do {
     probe \<leftarrow> da_node_probe d hashval (n div 2) (n div 2);
     probe \<leftarrow> da_node_back d hashval probe;
     probe \<leftarrow> da_node_forward d hashval n probe;
     let index = (if probe = n then n - 1 else probe);
     blkno \<leftarrow> leaf_address d 16 index;
     Some (index, blkno) }"

section \<open>Descending\<close>

text \<open>
  At most \<open>n\<close> levels more; behind the last one the code looks at a block outside the path. A block that is neither
  node nor leaf is read again for the next level.
\<close>

fun da_descend ::
    "('b, 's) buf_ops \<Rightarrow> 's inode_reader \<Rightarrow> 's inode_reader \<Rightarrow> xfs_mount \<Rightarrow> nat \<Rightarrow> nat \<Rightarrow> nat \<Rightarrow> 'b da_blk list \<Rightarrow>
      xfs_inode \<Rightarrow> 's \<Rightarrow> (int \<times> 'b da_blk list \<times> xfs_inode \<times> 's) option" where
  "da_descend ops iread l2e mp hashval 0 blkno path dp s = None"
| "da_descend ops iread l2e mp hashval (Suc n) blkno path dp s = do {
     (error, bp, dp, s) \<leftarrow> xfs_da_read_buf ops iread l2e mp dp blkno (- 1) s;
     if error \<noteq> 0 then Some (error, path, dp, s)
     else do {
       bp \<leftarrow> bp;
       magic \<leftarrow> da_magic (da_data bp);
       let blk = \<lparr> db_buf = Some bp, db_blkno = blkno, db_index = 0, db_hash = 0, db_magic = magic \<rparr>;
       if magic = XFS_DA_NODE_MAGIC then do {
         max \<leftarrow> leaf_count (da_data bp);
         hash \<leftarrow> leaf_hashval (da_data bp) 16 (int max - 1);
         (index, child) \<leftarrow> da_node_pick (da_data bp) hashval (int max);
         da_descend ops iread l2e mp hashval n child (path @ [blk\<lparr>db_hash := hash, db_index := index\<rparr>]) dp s }
       else if magic = XFS_ATTR_LEAF_MAGIC then None
       else if magic = XFS_DIR2_LEAFN_MAGIC then do {
         hash \<leftarrow> xfs_dir2_leafn_lasthash (da_data bp);
         Some (0, path @ [blk\<lparr>db_hash := hash\<rparr>], dp, s) }
       else da_descend ops iread l2e mp hashval n blkno (path @ [blk]) dp s } }"

section \<open>The next leaf\<close>

text \<open>
  Up to the deepest node with an entry behind the current one (the first list has the nodes from the deepest on, the
  second one the blocks below): the path to it with its index moved on, the child, and the blocks below.
\<close>

fun da_shift_up :: "'b da_blk list \<Rightarrow> 'b da_blk list \<Rightarrow> ('b da_blk list \<times> nat \<times> 'b da_blk list) option option" where
  "da_shift_up [] below = Some None"
| "da_shift_up (blk # up) below = do {
     bp \<leftarrow> db_buf blk;
     n \<leftarrow> leaf_count (da_data bp);
     if db_index blk < int n - 1 then do {
       blkno \<leftarrow> leaf_address (da_data bp) 16 (db_index blk + 1);
       Some (Some (rev up @ [blk\<lparr>db_index := db_index blk + 1\<rparr>], blkno, below)) }
     else da_shift_up up (blk # below) }"

text \<open>Down again along the first children: every old block is given back and the new one read.\<close>

fun da_shift_down ::
    "('b, 's) buf_ops \<Rightarrow> 's inode_reader \<Rightarrow> 's inode_reader \<Rightarrow> xfs_mount \<Rightarrow> 'b da_blk list \<Rightarrow> nat \<Rightarrow> 'b da_blk list \<Rightarrow>
      xfs_inode \<Rightarrow> 's \<Rightarrow> (int \<times> 'b da_blk list \<times> xfs_inode \<times> 's) option" where
  "da_shift_down ops iread l2e mp path blkno [] dp s = Some (0, path, dp, s)"
| "da_shift_down ops iread l2e mp path blkno (blk # below) dp s = do {
     old \<leftarrow> db_buf blk;
     let s = xfs_da_brelse ops old s;
     (error, bp, dp, s) \<leftarrow> xfs_da_read_buf ops iread l2e mp dp blkno (- 1) s;
     let blk = blk\<lparr>db_buf := bp, db_blkno := blkno\<rparr>;
     if error \<noteq> 0 then Some (error, path @ blk # below, dp, s)
     else do {
       bp \<leftarrow> bp;
       magic \<leftarrow> da_magic (da_data bp);
       let blk = blk\<lparr>db_magic := magic, db_index := 0\<rparr>;
       if magic = XFS_DA_NODE_MAGIC then do {
         n \<leftarrow> leaf_count (da_data bp);
         hash \<leftarrow> leaf_hashval (da_data bp) 16 (int n - 1);
         child \<leftarrow> leaf_address (da_data bp) 16 0;
         da_shift_down ops iread l2e mp (path @ [blk\<lparr>db_hash := hash\<rparr>]) child below dp s }
       else if magic = XFS_ATTR_LEAF_MAGIC then None
       else if magic = XFS_DIR2_LEAFN_MAGIC then do {
         hash \<leftarrow> xfs_dir2_leafn_lasthash (da_data bp);
         da_shift_down ops iread l2e mp (path @ [blk\<lparr>db_hash := hash\<rparr>]) blkno below dp s }
       else da_shift_down ops iread l2e mp (path @ [blk]) blkno below dp s } }"

text \<open>\<open>xfs_da_path_shift\<close>, forward and with release: error, result, path, inode, state.\<close>

definition xfs_da_path_shift ::
    "('b, 's) buf_ops \<Rightarrow> 's inode_reader \<Rightarrow> 's inode_reader \<Rightarrow> xfs_mount \<Rightarrow> 'b da_blk list \<Rightarrow>
      xfs_inode \<Rightarrow> 's \<Rightarrow> (int \<times> int \<times> 'b da_blk list \<times> xfs_inode \<times> 's) option" where
  "xfs_da_path_shift ops iread l2e mp path dp s = do {
     up \<leftarrow> da_shift_up (rev (butlast path)) [last path];
     case up of
       None \<Rightarrow> Some (0, errno_code ENOENT, path, dp, s)
     | Some (path, blkno, below) \<Rightarrow>
         map_option (\<lambda>(error, path, dp, s). (error, 0, path, dp, s)) (da_shift_down ops iread l2e mp path blkno below dp s) }"

section \<open>The lookup\<close>

text \<open>Leaf by leaf, as long as the last entry of a leaf has the hash.\<close>

partial_function (option) da_leaves ::
    "('b, 's) buf_ops \<Rightarrow> 's inode_reader \<Rightarrow> 's inode_reader \<Rightarrow> xfs_mount \<Rightarrow> nat \<Rightarrow> 'b da_blk list \<Rightarrow> 'b da_cursor \<Rightarrow>
      xfs_inode \<Rightarrow> 's \<Rightarrow> (int \<times> int \<times> 'b da_blk list \<times> 'b da_cursor \<times> xfs_inode \<times> 's) option" where
  "da_leaves ops iread l2e mp hashval path cur dp s =
    (let blk = last path in
     if db_magic blk = XFS_DIR2_LEAFN_MAGIC then do {
       bp \<leftarrow> db_buf blk;
       (retval, index, cur, dp, s) \<leftarrow> xfs_dir2_leafn_lookup_for_entry ops iread l2e mp (da_data bp) hashval cur dp s;
       let path = butlast path @ [blk\<lparr>db_index := index\<rparr>];
       if retval = errno_code ENOENT \<and> db_hash blk = hashval then do {
         (error, retval, path, dp, s) \<leftarrow> xfs_da_path_shift ops iread l2e mp path dp s;
         if error \<noteq> 0 then Some (error, 0, path, cur, dp, s)
         else if retval = 0 then da_leaves ops iread l2e mp hashval path cur dp s
         else Some (0, retval, path, cur, dp, s) }
       else Some (0, retval, path, cur, dp, s) }
     else Some (errno_code EFSCORRUPTED, 0, path, cur, dp, s))"

definition xfs_da_node_lookup_int ::
    "('b, 's) buf_ops \<Rightarrow> 's inode_reader \<Rightarrow> 's inode_reader \<Rightarrow> xfs_mount \<Rightarrow> nat \<Rightarrow> 'b da_cursor \<Rightarrow> xfs_inode \<Rightarrow> 's \<Rightarrow>
      (int \<times> int \<times> 'b da_blk list \<times> 'b da_cursor \<times> xfs_inode \<times> 's) option" where
  "xfs_da_node_lookup_int ops iread l2e mp hashval cur dp s = do {
     (error, path, dp, s) \<leftarrow> da_descend ops iread l2e mp hashval XFS_DA_NODE_MAXDEPTH (nat (m_dirleafblk mp)) [] dp s;
     if error \<noteq> 0 then Some (error, 0, path, cur, dp, s)
     else da_leaves ops iread l2e mp hashval path cur dp s }"

text \<open>Giving back the blocks of the path; a block whose reading failed is followed through a NULL pointer.\<close>

fun da_release :: "('b, 's) buf_ops \<Rightarrow> 'b da_blk list \<Rightarrow> 's \<Rightarrow> 's option" where
  "da_release ops [] s = Some s"
| "da_release ops (blk # path) s = do { bp \<leftarrow> db_buf blk; da_release ops path (xfs_da_brelse ops bp s) }"

definition xfs_dir2_node_lookup ::
    "bool \<Rightarrow> ('b, 's) buf_ops \<Rightarrow> 's inode_reader \<Rightarrow> 's inode_reader \<Rightarrow> xfs_mount \<Rightarrow> xfs_inode \<Rightarrow> nat \<Rightarrow> da_args \<Rightarrow> 's \<Rightarrow>
      (int \<times> da_args \<times> xfs_inode \<times> 's) option" where
  "xfs_dir2_node_lookup alloc_ok ops iread l2e mp dp hashval args s = do {
     let cur = \<lparr> dc_valid = False, dc_buf = None, dc_db = 0, dc_index = 0, dc_args = args \<rparr>;
     (error, rval, path, cur, dp, s) \<leftarrow> xfs_da_node_lookup_int ops iread l2e mp hashval cur dp s;
     (rval, args) \<leftarrow>
       (if error \<noteq> 0 then Some (error, dc_args cur)
        else if rval = errno_code ENOENT \<and> a_cmpresult (dc_args cur) = XFS_CMP_CASE then do {
          bp \<leftarrow> dc_buf cur;
          nm \<leftarrow> data_name (da_data bp) (nat (dc_index cur));
          let (e, args) = xfs_dir_cilookup_result alloc_ok (dc_args cur) nm;
          Some (errno_code e, args) }
        else Some (rval, dc_args cur));
     s \<leftarrow> da_release ops path s;
     Some (rval, args, dp, if dc_valid cur then put_buf ops (dc_buf cur) s else s) }"

end
