(* ===== verification/Dir2_Node_Tree.thy ===== *)
theory Dir2_Node_Tree
  imports Dir2_Node
begin

text \<open>
  Node directories on the device, and the lookup in them: a tree of nodes over leaf blocks, descended along the first
  entry whose hash is not smaller, and from leaf to leaf as long as the hash asked for goes on.
\<close>

section \<open>The entry to descend by\<close>

lemma node_probe_ok:
  assumes "\<forall>i < n. \<exists>h. leaf_hashval d 16 (int i) = Some h"
  shows "0 \<le> probe - span \<Longrightarrow> probe + span \<le> int n \<Longrightarrow> 0 \<le> probe \<Longrightarrow> probe < int n \<Longrightarrow>
    \<exists>p. da_node_probe d hv probe span = Some p \<and> 0 \<le> p \<and> p < int n"
proof (induction "nat span" arbitrary: probe span rule: less_induct)
  case less
  show ?case
  proof (cases "4 < span")
    case False
    then show ?thesis using less.prems by (simp add: da_node_probe.simps)
  next
    case True
    define w where "w = span div 2"
    have w: "0 < w" "nat w < nat span" "2 * w \<le> span" using True by (auto simp: w_def)
    obtain h where h: "leaf_hashval d 16 probe = Some h"
      using assms [rule_format, of "nat probe"] less.prems(3,4) by (metis nat_less_iff int_nat_eq)
    have up: "\<exists>p. da_node_probe d hv (probe + w) w = Some p \<and> 0 \<le> p \<and> p < int n"
      by (rule less.hyps) (use w less.prems in auto)
    have down: "\<exists>p. da_node_probe d hv (probe - w) w = Some p \<and> 0 \<le> p \<and> p < int n"
      by (rule less.hyps) (use w less.prems in auto)
    show ?thesis
      using True h up down less.prems(3,4) by (simp add: da_node_probe.simps [of d hv probe span] Let_def w_def [symmetric])
  qed
qed

lemma node_back_ok:
  assumes "\<forall>i < length ks. leaf_hashval d 16 (int i) = Some (ks ! i)"
  shows "p < length ks \<Longrightarrow> \<exists>q. da_node_back d hv (int p) = Some (int q) \<and> q \<le> p \<and> (q = 0 \<or> ks ! q < hv)"
proof (induction p)
  case 0
  then show ?case by (simp add: da_node_back.simps)
next
  case (Suc p)
  have h: "leaf_hashval d 16 (int (Suc p)) = Some (ks ! Suc p)" using assms Suc.prems by blast
  have one: "int (Suc p) - 1 = int p" "0 < int (Suc p)" by simp_all
  have s: "da_node_back d hv (int (Suc p)) = (if hv \<le> ks ! Suc p then da_node_back d hv (int p) else Some (int (Suc p)))"
    using da_node_back.simps [of d hv "int (Suc p)"] h unfolding one by (simp del: of_nat_Suc)
  obtain q where "da_node_back d hv (int p) = Some (int q)" "q \<le> p" "q = 0 \<or> ks ! q < hv" using Suc by auto
  then show ?case unfolding s by (cases "hv \<le> ks ! Suc p") (auto intro: exI [of _ q] exI [of _ "Suc p"])
qed

lemma node_forward_ok:
  assumes h: "\<forall>i < length ks. leaf_hashval d 16 (int i) = Some (ks ! i)"
  shows "p \<le> length ks \<Longrightarrow> \<exists>q. da_node_forward d hv (int (length ks)) (int p) = Some (int q) \<and> p \<le> q \<and> q \<le> length ks \<and>
    (\<forall>i. p \<le> i \<longrightarrow> i < q \<longrightarrow> ks ! i < hv) \<and> (q < length ks \<longrightarrow> hv \<le> ks ! q)"
proof (induction "length ks - p" arbitrary: p)
  case 0
  then show ?case by (simp add: da_node_forward.simps)
next
  case (Suc n)
  then have p: "p < length ks" "n = length ks - Suc p" "Suc p \<le> length ks" by simp_all
  have one: "int p + 1 = int (Suc p)" by simp
  have s: "da_node_forward d hv (int (length ks)) (int p) =
      (if ks ! p < hv then da_node_forward d hv (int (length ks)) (int (Suc p)) else Some (int p))"
    using da_node_forward.simps [of d hv "int (length ks)" "int p"] h p(1) unfolding one by (simp del: of_nat_Suc)
  show ?case
  proof (cases "ks ! p < hv")
    case True
    obtain q where q: "da_node_forward d hv (int (length ks)) (int (Suc p)) = Some (int q)" "Suc p \<le> q" "q \<le> length ks"
      "\<forall>i. Suc p \<le> i \<longrightarrow> i < q \<longrightarrow> ks ! i < hv" "q < length ks \<longrightarrow> hv \<le> ks ! q"
      using Suc.hyps(1) [OF p(2,3)] by auto
    have "ks ! i < hv" if "p \<le> i" "i < q" for i using that q(4) True by (cases "i = p") auto
    then show ?thesis unfolding s using True q by auto
  next
    case False
    then show ?thesis unfolding s using p(1) by auto
  qed
qed

lemma node_pick_ok:
  assumes h: "leaf_holds d lf" and s: "sorted (map fst lf)" and ne: "lf \<noteq> []"
  obtains f where "first_ge (map fst lf) hv f"
    "da_node_pick d hv (int (length lf)) = Some (int (min f (length lf - 1)), snd (lf ! min f (length lf - 1)))"
proof -
  let ?ks = "map fst lf" and ?n = "length lf"
  have hk: "\<forall>i < length ?ks. leaf_hashval d 16 (int i) = Some (?ks ! i)" using h by (simp add: leaf_holds_def)
  have a: "leaf_address d 16 (int i) = Some (snd (lf ! i))" if "i < ?n" for i using h that by (simp add: leaf_holds_def)
  have n: "0 < ?n" using ne by simp
  have half: "0 \<le> int ?n div 2 - int ?n div 2" "int ?n div 2 + int ?n div 2 \<le> int ?n" "0 \<le> int ?n div 2" "int ?n div 2 < int ?n"
    using n by linarith+
  have "\<forall>i < ?n. \<exists>h. leaf_hashval d 16 (int i) = Some h" using hk by simp
  from node_probe_ok [OF this half, of hv] obtain p where p: "da_node_probe d hv (int ?n div 2) (int ?n div 2) = Some p" "0 \<le> p" "p < int ?n"
    by blast
  have pn: "nat p < length ?ks" "int (nat p) = p" using p(2,3) by auto
  from node_back_ok [OF hk pn(1), of hv] obtain q where q': "da_node_back d hv p = Some (int q)" "q \<le> nat p" "q = 0 \<or> ?ks ! q < hv"
    unfolding pn(2) by blast
  then have q: "da_node_back d hv p = Some (int q)" "q < ?n" "q = 0 \<or> ?ks ! q < hv" using pn(1) by auto
  from q(2) obtain f where f: "da_node_forward d hv (int ?n) (int q) = Some (int f)" "q \<le> f" "f \<le> ?n"
    "\<forall>i. q \<le> i \<longrightarrow> i < f \<longrightarrow> ?ks ! i < hv" "f < ?n \<longrightarrow> hv \<le> ?ks ! f"
    using node_forward_ok [OF hk, of q hv] by auto
  have "?ks ! i < hv" if "i < f" for i
  proof (cases "q \<le> i")
    case True
    then show ?thesis using f(4) that by blast
  next
    case False
    then have "?ks ! i \<le> ?ks ! q" using sorted_nth_mono [OF s, of i q] q(2) by simp
    then show ?thesis using q(3) False by auto
  qed
  then have "first_ge ?ks hv f" using f(3,5) by (simp add: first_ge_def)
  moreover have "da_node_pick d hv (int ?n) = Some (int (min f (?n - 1)), snd (lf ! min f (?n - 1)))"
  proof (cases "f = ?n")
    case True
    then show ?thesis using p(1) q(1) f(1) a [of "?n - 1"] n by (simp add: da_node_pick_def Let_def) (use n in linarith)
  next
    case False
    then have "f < ?n" "min f (?n - 1) = f" using f(3) by auto
    then show ?thesis using p(1) q(1) f(1) a [of f] by (simp add: da_node_pick_def Let_def)
  qed
  ultimately show ?thesis by (rule that)
qed

section \<open>A leaf of the tree\<close>

text \<open>While no entry has matched, the loop over a leaf of a tree does what the loop over the leaf of a leaf directory does.\<close>

definition ln_like :: "'b leafn_look \<Rightarrow> 'b leaf_look \<Rightarrow> bool" where
  "ln_like ln lk \<longleftrightarrow> ln_db ln = lk_db lk \<and> ln_buf ln = lk_buf lk \<and> dc_args (ln_cur ln) = lk_args lk"

lemma leafn_switch_like:
  assumes "ln_like ln lk" and "a_cmpresult (lk_args lk) = XFS_CMP_DIFFERENT"
    and "leaf_switch ops iread l2e mp db lk dp s = Some (0, lk', dp', s')"
  obtains ln' where "leafn_switch ops iread l2e mp db ln dp s = Some (0, ln', dp', s')" "ln_like ln' lk'" "ln_cur ln' = ln_cur ln"
proof (cases "db = lk_db lk")
  case True
  then show ?thesis using that [of ln] assms by (auto simp: leaf_switch_def leafn_switch_def ln_like_def)
next
  case False
  obtain b where b: "xfs_da_read_buf ops iread l2e mp dp (nat (xfs_dir2_db_to_da mp db)) (- 1) (put_buf ops (lk_buf lk) s) =
      Some (0, b, dp', s')" "lk' = lk\<lparr>lk_db := db, lk_buf := b\<rparr>"
    using assms(3) False by (auto simp: leaf_switch_def Let_def bind_eq_Some_conv)
  show ?thesis
    by (rule that [of "ln\<lparr>ln_db := db, ln_buf := b\<rparr>"])
      (use b assms(1,2) False in \<open>auto simp: leafn_switch_def ln_like_def Let_def cong: option.case_cong\<close>)
qed

lemma leafn_step_like:
  assumes ci: "\<not> xfs_sb_version_hasasciici (m_sb mp)" and l: "ln_like ln lk" and c: "a_cmpresult (lk_args lk) = XFS_CMP_DIFFERENT"
    and step: "leaf_look_step ops iread l2e mp leaf index lk dp s = Some (stop, lk', dp', s')" and st: "stop = None \<or> stop = Some 0"
  shows "(stop = None \<longrightarrow> a_cmpresult (lk_args lk') = XFS_CMP_DIFFERENT \<and>
      (\<exists>ln'. leafn_step ops iread l2e mp leaf index ln dp s = Some (None, ln', dp', s') \<and> ln_like ln' lk' \<and> ln_cur ln' = ln_cur ln)) \<and>
    (stop = Some 0 \<longrightarrow> lk_index lk' = index \<and> (\<forall>addr bp ino. leaf_address leaf 16 index = Some addr \<longrightarrow> lk_buf lk' = Some bp \<longrightarrow>
      data_inumber (da_data bp) (leaf_dep mp addr) = Some ino \<longrightarrow>
      (\<exists>ln'. leafn_step ops iread l2e mp leaf index ln dp s = Some (Some (errno_code EEXIST), ln', dp', s') \<and>
        dc_valid (ln_cur ln') \<and> dc_buf (ln_cur ln') = lk_buf lk' \<and> dc_args (ln_cur ln') = (lk_args lk')\<lparr>a_inumber := ino\<rparr>)))"
proof -
  obtain addr where addr: "leaf_address leaf 16 index = Some addr" using step by (auto simp: leaf_look_step_def bind_eq_Some_conv)
  show ?thesis
  proof (cases "addr = XFS_DIR2_NULL_DATAPTR")
    case True
    then show ?thesis using step addr l c by (auto simp: leaf_look_step_def leafn_step_def)
  next
    case False
    let ?db = "xfs_dir2_dataptr_to_db mp (int addr)"
    obtain e lk1 dp1 s1 where sw: "leaf_switch ops iread l2e mp ?db lk dp s = Some (e, lk1, dp1, s1)"
      using step addr False by (auto simp: leaf_look_step_def bind_eq_Some_conv)
    have e: "e = 0" using step addr False sw st by (auto simp: leaf_look_step_def split: if_splits)
    obtain bp nm where bp: "lk_buf lk1 = Some bp" "data_name (da_data bp) (leaf_dep mp addr) = Some nm"
      using step addr False sw e by (auto simp: leaf_look_step_def bind_eq_Some_conv)
    obtain ln1 where ln1: "leafn_switch ops iread l2e mp ?db ln dp s = Some (0, ln1, dp1, s1)" "ln_like ln1 lk1" "ln_cur ln1 = ln_cur ln"
      using leafn_switch_like [OF l c sw [unfolded e]] by blast
    have args: "lk_args lk1 = lk_args lk" using ln1(2,3) l by (simp add: ln_like_def)
    have cmp: "compname mp (lk_args lk) x = (if x = a_name (lk_args lk) then XFS_CMP_EXACT else XFS_CMP_DIFFERENT)" for x
      using ci by (auto simp: compname_def xfs_da_compname_def)
    have like: "ln_buf ln1 = Some bp" "dc_args (ln_cur ln1) = lk_args lk" using ln1(2) bp args by (simp_all add: ln_like_def)
    show ?thesis
    proof (cases "nm = a_name (lk_args lk)")
      case True
      have lk': "stop = Some 0" "lk' = lk1\<lparr>lk_args := (lk_args lk)\<lparr>a_cmpresult := XFS_CMP_EXACT\<rparr>, lk_index := index\<rparr>" "dp' = dp1" "s' = s1"
        using step addr False sw e bp True c by (auto simp: leaf_look_step_def args cmp Let_def)
      show ?thesis
        using lk' addr False ln1(1) like bp True c by (auto simp: leafn_step_def leafn_match_def cmp Let_def)
    next
      case other: False
      have lk': "stop = None" "lk' = lk1" "dp' = dp1" "s' = s1"
        using step addr False sw e bp other by (auto simp: leaf_look_step_def args cmp Let_def)
      show ?thesis
        using lk' addr False ln1 like bp other c args by (auto simp: leafn_step_def cmp Let_def)
    qed
  qed
qed

lemma leafn_loop_like:
  assumes ci: "\<not> xfs_sb_version_hasasciici (m_sb mp)"
  shows "ln_like ln lk \<Longrightarrow> a_cmpresult (lk_args lk) = XFS_CMP_DIFFERENT \<Longrightarrow>
    leaf_look_loop ops iread l2e mp leaf hv n index lk dp s = Some (stop, lk', dp', s') \<Longrightarrow> stop = None \<or> stop = Some 0 \<Longrightarrow>
    (stop = None \<longrightarrow> (\<exists>ln' i. leafn_loop ops iread l2e mp leaf hv n index ln dp s = Some (None, i, ln', dp', s') \<and>
       ln_like ln' lk' \<and> ln_cur ln' = ln_cur ln)) \<and>
    (stop = Some 0 \<longrightarrow> (\<forall>addr bp ino. leaf_address leaf 16 (lk_index lk') = Some addr \<longrightarrow> lk_buf lk' = Some bp \<longrightarrow>
      data_inumber (da_data bp) (leaf_dep mp addr) = Some ino \<longrightarrow>
      (\<exists>ln' i. leafn_loop ops iread l2e mp leaf hv n index ln dp s = Some (Some (errno_code EEXIST), i, ln', dp', s') \<and>
        dc_valid (ln_cur ln') \<and> dc_buf (ln_cur ln') = lk_buf lk' \<and> dc_args (ln_cur ln') = (lk_args lk')\<lparr>a_inumber := ino\<rparr>)))"
proof (induction n arbitrary: index ln lk dp s)
  case 0
  then show ?case by auto
next
  case (Suc n)
  obtain hash where hash: "leaf_hashval leaf 16 index = Some hash" using Suc.prems(3) by (auto simp: bind_eq_Some_conv)
  show ?case
  proof (cases "hash = hv")
    case False
    then show ?thesis using Suc.prems hash by auto
  next
    case True
    obtain st lk1 dp1 s1 where step: "leaf_look_step ops iread l2e mp leaf index lk dp s = Some (st, lk1, dp1, s1)"
      using Suc.prems(3) hash True by (auto simp: bind_eq_Some_conv)
    show ?thesis
    proof (cases st)
      case None
      then have go: "leaf_look_loop ops iread l2e mp leaf hv n (index + 1) lk1 dp1 s1 = Some (stop, lk', dp', s')"
        using Suc.prems(3) hash True step by simp
      obtain ln1 where ln1: "leafn_step ops iread l2e mp leaf index ln dp s = Some (None, ln1, dp1, s1)" "ln_like ln1 lk1"
        "ln_cur ln1 = ln_cur ln" "a_cmpresult (lk_args lk1) = XFS_CMP_DIFFERENT"
        using leafn_step_like [OF ci Suc.prems(1,2) step] None by auto
      have run: "leafn_loop ops iread l2e mp leaf hv (Suc n) index ln dp s = leafn_loop ops iread l2e mp leaf hv n (index + 1) ln1 dp1 s1"
        using hash True ln1(1) by simp
      from Suc.IH [OF ln1(2,4) go Suc.prems(4)] show ?thesis unfolding run ln1(3) .
    next
      case (Some c)
      then have eq: "stop = Some c" "lk' = lk1" "dp' = dp1" "s' = s1" using Suc.prems(3) hash True step by auto
      then have z: "st = Some 0" using Some Suc.prems(4) by simp
      from leafn_step_like [OF ci Suc.prems(1,2) step] z
      show ?thesis using eq Some hash True by auto
    qed
  qed
qed

section \<open>The tree on the device\<close>

text \<open>A leaf with its block and entries, a node with its block and the children, each under the last hash in it.\<close>

datatype da_tree = DLeaf nat "(nat \<times> nat) list" | DNode nat "(nat \<times> da_tree) list"

fun tree_blk :: "da_tree \<Rightarrow> nat" where
  "tree_blk (DLeaf b lf) = b"
| "tree_blk (DNode b cs) = b"

fun tree_entries :: "da_tree \<Rightarrow> (nat \<times> nat) list" where
  "tree_entries (DLeaf b lf) = lf"
| "tree_entries (DNode b cs) = concat (map (\<lambda>c. tree_entries (snd c)) cs)"

definition last_hash :: "da_tree \<Rightarrow> nat" where
  "last_hash t = fst (last (tree_entries t))"

definition da_block :: "(int \<Rightarrow> int \<Rightarrow> bytes option) \<Rightarrow> xfs_mount \<Rightarrow> xfs_inode \<Rightarrow> nat \<Rightarrow> nat \<Rightarrow> (nat \<times> nat) list \<Rightarrow> bytes \<Rightarrow> bool" where
  "da_block dev mp dp b magic lf x \<longleftrightarrow> (\<exists>blk. dir_daddr mp dp b = Some blk \<and> dev blk (XFS_FSB_TO_BB mp 1) = Some x) \<and>
     da_magic_ok x = Some True \<and> da_magic x = Some magic \<and> leaf_holds x lf \<and> lf \<noteq> []"

abbreviation node_keys :: "(nat \<times> da_tree) list \<Rightarrow> (nat \<times> nat) list" where
  "node_keys cs \<equiv> map (\<lambda>c. (fst c, tree_blk (snd c))) cs"

text \<open>All leaves are at the same height, and none is empty.\<close>

inductive da_at :: "(int \<Rightarrow> int \<Rightarrow> bytes option) \<Rightarrow> xfs_mount \<Rightarrow> xfs_inode \<Rightarrow> nat \<Rightarrow> da_tree \<Rightarrow> bool"
  for dev mp dp where
  leaf: "da_block dev mp dp b XFS_DIR2_LEAFN_MAGIC lf x \<Longrightarrow> da_at dev mp dp 0 (DLeaf b lf)"
| node: "da_block dev mp dp b XFS_DA_NODE_MAGIC (node_keys cs) x \<Longrightarrow>
    \<forall>c \<in> set cs. da_at dev mp dp h (snd c) \<and> fst c = last_hash (snd c) \<Longrightarrow> da_at dev mp dp (Suc h) (DNode b cs)"

inductive_cases da_at_leafE: "da_at dev mp dp h (DLeaf b lf)"
inductive_cases da_at_nodeE: "da_at dev mp dp h (DNode b cs)"

lemma tree_nonempty: "da_at dev mp dp h t \<Longrightarrow> tree_entries t \<noteq> []"
proof (induction rule: da_at.induct)
  case (leaf b lf x)
  then show ?case by (simp add: da_block_def)
next
  case (node b cs x h)
  then have "cs \<noteq> []" by (auto simp: da_block_def)
  then show ?case using node.IH by (cases cs) auto
qed

text \<open>The entries of a node up to a child, of the child, and behind it.\<close>

lemma tree_split:
  assumes "i < length cs"
  shows "tree_entries (DNode b cs) = concat (map (\<lambda>c. tree_entries (snd c)) (take i cs)) @ tree_entries (snd (cs ! i)) @
    concat (map (\<lambda>c. tree_entries (snd c)) (drop (Suc i) cs))"
  by (subst id_take_nth_drop [OF assms]) simp

lemma sorted_last: "sorted (map fst xs) \<Longrightarrow> x \<in> set xs \<Longrightarrow> fst x \<le> fst (last xs)"
  by (induction xs) (auto split: if_splits)

lemma node_sorted:
  assumes "\<forall>c \<in> set cs. tree_entries (snd c) \<noteq> [] \<and> fst c = last_hash (snd c)" and "sorted (map fst (tree_entries (DNode b cs)))"
  shows "sorted (map fst cs)"
  using assms
proof (induction cs)
  case (Cons c cs)
  have "fst c \<le> fst c'" if c': "c' \<in> set cs" for c'
  proof -
    have l: "last (tree_entries (snd c)) \<in> set (tree_entries (snd c))" "last (tree_entries (snd c')) \<in> set (tree_entries (snd c'))"
      using Cons.prems(1) c' by auto
    then show ?thesis
      using Cons.prems c' l by (fastforce simp: sorted_append last_hash_def)
  qed
  then show ?case using Cons by (auto simp: sorted_append)
qed simp

section \<open>Paths\<close>

definition one_buf :: "'b da_blk \<Rightarrow> bool" where
  "one_buf blk \<longleftrightarrow> (\<exists>bp. db_buf blk = Some bp \<and> length (bps bp) = 1)"

definition blk_has ::
    "(int \<Rightarrow> int \<Rightarrow> bytes option) \<Rightarrow> xfs_mount \<Rightarrow> xfs_inode \<Rightarrow> nat \<Rightarrow> nat \<Rightarrow> (nat \<times> nat) list \<Rightarrow> 'b da_blk \<Rightarrow> bool" where
  "blk_has dev mp dp b magic lf blk \<longleftrightarrow> one_buf blk \<and> db_magic blk = magic \<and>
     (\<exists>bp. db_buf blk = Some bp \<and> da_block dev mp dp b magic lf (da_data bp))"

text \<open>A path down a tree, with the entries before its leaf, of it and behind it.\<close>

inductive path_at ::
    "(int \<Rightarrow> int \<Rightarrow> bytes option) \<Rightarrow> xfs_mount \<Rightarrow> xfs_inode \<Rightarrow> da_tree \<Rightarrow> 'b da_blk list \<Rightarrow>
      (nat \<times> nat) list \<Rightarrow> (nat \<times> nat) list \<Rightarrow> (nat \<times> nat) list \<Rightarrow> bool"
  for dev mp dp where
  leaf: "blk_has dev mp dp b XFS_DIR2_LEAFN_MAGIC lf blk \<Longrightarrow> db_hash blk = fst (last lf) \<Longrightarrow>
    path_at dev mp dp (DLeaf b lf) [blk] [] lf []"
| node: "i < length cs \<Longrightarrow> db_index blk = int i \<Longrightarrow> blk_has dev mp dp b XFS_DA_NODE_MAGIC (node_keys cs) blk \<Longrightarrow>
    path_at dev mp dp (snd (cs ! i)) path pre lf rest \<Longrightarrow>
    path_at dev mp dp (DNode b cs) (blk # path) (concat (map (\<lambda>c. tree_entries (snd c)) (take i cs)) @ pre) lf
      (rest @ concat (map (\<lambda>c. tree_entries (snd c)) (drop (Suc i) cs)))"

lemma path_entries: "path_at dev mp dp t path pre lf rest \<Longrightarrow> tree_entries t = pre @ lf @ rest"
proof (induction rule: path_at.induct)
  case (node i cs blk b path pre lf rest)
  then show ?case by (simp only: tree_split [OF node.hyps(1)]) simp
qed simp

lemma path_last:
  assumes "path_at dev mp dp t path pre lf rest"
  obtains b where "blk_has dev mp dp b XFS_DIR2_LEAFN_MAGIC lf (last path)" "db_hash (last path) = fst (last lf)" "path \<noteq> []"
proof -
  have "(\<exists>b. blk_has dev mp dp b XFS_DIR2_LEAFN_MAGIC lf (last path)) \<and> db_hash (last path) = fst (last lf) \<and> path \<noteq> []"
    using assms by (induction rule: path_at.induct) auto
  then show ?thesis using that by blast
qed

lemma path_one_buf: "path_at dev mp dp t path pre lf rest \<Longrightarrow> list_all one_buf path"
  by (induction rule: path_at.induct) (auto simp: blk_has_def)

lemma path_set_index:
  "path_at dev mp dp t path pre lf rest \<Longrightarrow> path_at dev mp dp t (butlast path @ [last path\<lparr>db_index := i\<rparr>]) pre lf rest"
proof (induction rule: path_at.induct)
  case (leaf b lf blk)
  then show ?case by (auto simp: blk_has_def one_buf_def intro: path_at.leaf)
next
  case (node j cs blk b path pre lf rest)
  have "path \<noteq> []" using node.hyps(4) by (auto elim: path_at.cases)
  then show ?case using path_at.node [OF node.hyps(1-3) node.IH] by simp
qed

lemma path_length: "path_at dev mp dp t path pre lf rest \<Longrightarrow> da_at dev mp dp h t \<Longrightarrow> length path = Suc h"
proof (induction arbitrary: h rule: path_at.induct)
  case (leaf b lf blk)
  then show ?case by (auto elim: da_at_leafE)
next
  case (node i cs blk b path pre lf rest)
  show ?case by (rule da_at_nodeE [OF node.prems]) (use node in auto)
qed

text \<open>The buffers a path holds.\<close>

abbreviation pbufs :: "'b da_blk list \<Rightarrow> 'b multiset" where
  "pbufs path \<equiv> sum_list (map (\<lambda>blk. bufs_of (db_buf blk)) path)"

lemma size_one_buf: "one_buf blk \<Longrightarrow> size (bufs_of (db_buf blk)) = 1"
  by (auto simp: one_buf_def)

lemma size_pbufs: "list_all one_buf path \<Longrightarrow> size (pbufs path) = length path"
  by (induction path) (simp_all add: size_one_buf)

lemma leafn_lasthash: "leaf_holds x lf \<Longrightarrow> lf \<noteq> [] \<Longrightarrow> xfs_dir2_leafn_lasthash x = Some (fst (last lf))"
proof -
  assume a: "leaf_holds x lf" "lf \<noteq> []"
  then have "leaf_hashval x 16 (int (length lf - 1)) = Some (fst (lf ! (length lf - 1)))" by (simp add: leaf_holds_def)
  moreover have "int (length lf - 1) = int (length lf) - 1" using a(2) by (cases lf) auto
  ultimately show ?thesis using a by (simp add: xfs_dir2_leafn_lasthash_def leaf_holds_def last_conv_nth)
qed

lemma node_lasthash: "leaf_holds x lf \<Longrightarrow> lf \<noteq> [] \<Longrightarrow> \<exists>h. leaf_hashval x 16 (int (length lf) - 1) = Some h"
  using leafn_lasthash [of x lf] by (auto simp: xfs_dir2_leafn_lasthash_def leaf_holds_def)

lemma magics [simp]:
  "XFS_DA_NODE_MAGIC \<noteq> XFS_DIR2_LEAFN_MAGIC" "XFS_ATTR_LEAF_MAGIC \<noteq> XFS_DIR2_LEAFN_MAGIC" "XFS_DIR2_LEAFN_MAGIC \<noteq> XFS_DA_NODE_MAGIC"
  "XFS_DIR2_LEAFN_MAGIC \<noteq> XFS_ATTR_LEAF_MAGIC" "XFS_DA_NODE_MAGIC \<noteq> XFS_ATTR_LEAF_MAGIC"
  by (simp_all add: XFS_DA_NODE_MAGIC_def XFS_DIR2_LEAFN_MAGIC_def XFS_ATTR_LEAF_MAGIC_def)

section \<open>Descending and shifting\<close>

context buf_pool
begin

text \<open>A block of the tree is read, and held.\<close>

lemma take_block:
  assumes "dir_ready mp dp" and "da_block dev mp dp b magic lf x" and "held H s" and "size H \<le> XFS_DA_NODE_MAXDEPTH"
  obtains bp s' where "xfs_da_read_buf ops iread l2e mp dp b (- 1) s = Some (0, Some bp, dp, s')" "da_data bp = x"
    "held (mset (bps bp) + H) s'" "length (bps bp) = 1"
proof -
  obtain blk where blk: "dir_daddr mp dp b = Some blk" "dev blk (XFS_FSB_TO_BB mp 1) = Some x" "da_magic_ok x = Some True"
    using assms(2) by (auto simp: da_block_def)
  show ?thesis
    by (rule take_da [OF assms(3,4,1) blk, where iread = iread and l2e = l2e]) (use that in simp)
qed

lemma descend_ok:
  assumes r: "dir_ready mp dp"
  shows "da_at dev mp dp h t \<Longrightarrow> h < n \<Longrightarrow> held H s \<Longrightarrow> size H + h \<le> XFS_DA_NODE_MAXDEPTH \<Longrightarrow> sorted (map fst (tree_entries t)) \<Longrightarrow>
    \<exists>path' pre lf rest s'. da_descend ops iread l2e mp hv n (tree_blk t) path dp s = Some (0, path @ path', dp, s') \<and>
      path_at dev mp dp t path' pre lf rest \<and> (\<forall>x \<in> set pre. fst x < hv) \<and> (hv \<le> fst (last lf) \<or> rest = []) \<and>
      held (pbufs path' + H) s'"
proof (induction arbitrary: n H s path rule: da_at.induct)
  case (leaf b lf x)
  obtain m where n: "n = Suc m" using leaf.prems(1) by (cases n) auto
  obtain bp s' where rd: "xfs_da_read_buf ops iread l2e mp dp b (- 1) s = Some (0, Some bp, dp, s')" "da_data bp = x"
    "held (mset (bps bp) + H) s'" "length (bps bp) = 1"
    by (rule take_block [OF r leaf.hyps leaf.prems(2), where iread = iread and l2e = l2e]) (use leaf.prems(3) in simp)
  let ?blk = "\<lparr> db_buf = Some bp, db_blkno = b, db_index = 0, db_hash = fst (last lf), db_magic = XFS_DIR2_LEAFN_MAGIC \<rparr>"
  have x: "da_magic x = Some XFS_DIR2_LEAFN_MAGIC" "xfs_dir2_leafn_lasthash x = Some (fst (last lf))"
    using leaf.hyps leafn_lasthash by (auto simp: da_block_def)
  have "blk_has dev mp dp b XFS_DIR2_LEAFN_MAGIC lf ?blk" using leaf.hyps rd(2,4) by (simp add: blk_has_def one_buf_def)
  then have "path_at dev mp dp (DLeaf b lf) [?blk] [] lf []" by (rule path_at.leaf) simp
  moreover have "da_descend ops iread l2e mp hv n b path dp s = Some (0, path @ [?blk], dp, s')"
    using n rd(1,2) x by simp
  ultimately show ?case using rd(3) by (intro exI [of _ "[?blk]"] exI [of _ "[]"] exI [of _ lf] exI [of _ s']) simp
next
  case (node b cs x h)
  obtain m where n: "n = Suc m" using node.prems(1) by (cases n) auto
  obtain bp s1 where rd: "xfs_da_read_buf ops iread l2e mp dp b (- 1) s = Some (0, Some bp, dp, s1)" "da_data bp = x"
    "held (mset (bps bp) + H) s1" "length (bps bp) = 1"
    by (rule take_block [OF r node.hyps node.prems(2), where iread = iread and l2e = l2e]) (use node.prems(3) in simp)
  have x: "da_magic x = Some XFS_DA_NODE_MAGIC" "leaf_holds x (node_keys cs)" "cs \<noteq> []" "leaf_count x = Some (length cs)"
    using node.hyps by (auto simp: da_block_def leaf_holds_def)
  have kids: "c \<in> set cs \<Longrightarrow> da_at dev mp dp h (snd c) \<and> fst c = last_hash (snd c) \<and> tree_entries (snd c) \<noteq> []" for c
    using node.IH tree_nonempty by blast
  have srt: "sorted (map fst cs)" by (rule node_sorted [OF _ node.prems(4)]) (use kids in blast)
  have keys: "map fst (node_keys cs) = map fst cs" "length (node_keys cs) = length cs" by simp_all
  have ks: "sorted (map fst (node_keys cs))" "node_keys cs \<noteq> []" using srt x(3) unfolding keys(1) by simp_all
  obtain f where f': "first_ge (map fst cs) hv f"
    "da_node_pick x hv (int (length cs)) = Some (int (min f (length cs - 1)), snd (node_keys cs ! min f (length cs - 1)))"
    by (rule node_pick_ok [OF x(2) ks, where hv = hv, unfolded keys])
  let ?i = "min f (length cs - 1)"
  have i: "?i < length cs" using x(3) by (cases cs) auto
  have f: "first_ge (map fst cs) hv f" "da_node_pick x hv (int (length cs)) = Some (int ?i, tree_blk (snd (cs ! ?i)))"
    using f' unfolding nth_map [OF i] by simp_all
  let ?c = "snd (cs ! ?i)"
  obtain hash where hash: "leaf_hashval x 16 (int (length cs) - 1) = Some hash" using node_lasthash [OF x(2)] x(3) by auto
  let ?blk = "\<lparr> db_buf = Some bp, db_blkno = b, db_index = int ?i, db_hash = hash, db_magic = XFS_DA_NODE_MAGIC \<rparr>"
  have c: "da_at dev mp dp h ?c" "fst (cs ! ?i) = last_hash ?c" "tree_entries ?c \<noteq> []" using kids [of "cs ! ?i"] i by auto
  have cs': "sorted (map fst (tree_entries ?c))" using node.prems(4) unfolding tree_split [OF i] by (simp add: sorted_append)
  have H: "held (mset (bps bp) + H) s1" "size (mset (bps bp) + H) + h \<le> XFS_DA_NODE_MAXDEPTH" "h < m"
    using rd(3,4) node.prems n by auto
  have IH: "\<exists>path' pre lf rest s'. da_descend ops iread l2e mp hv m (tree_blk ?c) (path @ [?blk]) dp s1 = Some (0, (path @ [?blk]) @ path', dp, s') \<and>
      path_at dev mp dp ?c path' pre lf rest \<and> (\<forall>x \<in> set pre. fst x < hv) \<and> (hv \<le> fst (last lf) \<or> rest = []) \<and>
      held (pbufs path' + (mset (bps bp) + H)) s'"
    by (rule node.IH [THEN bspec, OF nth_mem [OF i], THEN conjunct1, THEN conjunct2, rule_format, OF H(3,1,2) cs'])
  then obtain path' pre lf rest s' where p: "da_descend ops iread l2e mp hv m (tree_blk ?c) (path @ [?blk]) dp s1 =
      Some (0, (path @ [?blk]) @ path', dp, s')" "path_at dev mp dp ?c path' pre lf rest" "\<forall>x \<in> set pre. fst x < hv"
    "hv \<le> fst (last lf) \<or> rest = []" "held (pbufs path' + (mset (bps bp) + H)) s'" by blast
  have run: "da_descend ops iread l2e mp hv n b path dp s = Some (0, path @ ?blk # path', dp, s')"
    using n rd(1,2) x(1,4) hash f(2) p(1) by simp
  have "blk_has dev mp dp b XFS_DA_NODE_MAGIC (node_keys cs) ?blk" using node.hyps rd(2,4) by (simp add: blk_has_def one_buf_def)
  then have at: "path_at dev mp dp (DNode b cs) (?blk # path') (concat (map (\<lambda>c. tree_entries (snd c)) (take ?i cs)) @ pre) lf
      (rest @ concat (map (\<lambda>c. tree_entries (snd c)) (drop (Suc ?i) cs)))"
    using i p(2) by (intro path_at.node) simp_all
  have before: "fst y < hv" if y: "c \<in> set (take ?i cs)" "y \<in> set (tree_entries (snd c))" for c y
  proof -
    obtain j where j: "j < ?i" "c = cs ! j" using y(1) i by (auto simp: in_set_conv_nth)
    then have cj: "fst c = last_hash (snd c)" using kids [of c] i by auto
    have "sorted (map fst (tree_entries (snd c)))"
      using node.prems(4) tree_split [of j cs b] j i by (simp add: sorted_append)
    from sorted_last [OF this y(2)] have "fst y \<le> fst c" using cj by (simp add: last_hash_def)
    also have "\<dots> < hv" using f(1) j by (auto simp: first_ge_def)
    finally show ?thesis .
  qed
  have last: "hv \<le> fst (last lf) \<or> rest @ concat (map (\<lambda>c. tree_entries (snd c)) (drop (Suc ?i) cs)) = []"
  proof (cases "f < length cs")
    case True
    then have fi: "?i = f" by auto
    have "hv \<le> last_hash ?c" using f(1) True c(2) unfolding fi by (auto simp: first_ge_def)
    moreover have "lf \<noteq> []" using p(2) by (rule path_last) (auto simp: blk_has_def da_block_def)
    ultimately show ?thesis using p(4) path_entries [OF p(2)] by (auto simp: last_hash_def)
  next
    case False
    then have "drop (Suc ?i) cs = []" using i by auto
    then show ?thesis using p(4) by simp
  qed
  have hb: "held (pbufs (?blk # path') + H) s'" using p(5) by (simp add: ac_simps)
  have pre: "\<forall>x \<in> set (concat (map (\<lambda>c. tree_entries (snd c)) (take ?i cs)) @ pre). fst x < hv" using before p(3) by auto
  show ?case unfolding tree_blk.simps using run at pre last hb by blast
qed

end

text \<open>Going up: whether there is an entry behind the path, and which child starts there.\<close>

lemma shift_up_append:
  "da_shift_up (xs @ [r]) below = (case da_shift_up xs below of None \<Rightarrow> None
     | Some None \<Rightarrow> da_shift_up [r] (rev xs @ below)
     | Some (Some (p, b, bel)) \<Rightarrow> Some (Some (r # p, b, bel)))"
proof (induction xs arbitrary: below)
  case (Cons x xs)
  then show ?case by (auto split: option.split Option.bind_split)
qed simp

definition shifts_to ::
    "(int \<Rightarrow> int \<Rightarrow> bytes option) \<Rightarrow> xfs_mount \<Rightarrow> xfs_inode \<Rightarrow> da_tree \<Rightarrow> (nat \<times> nat) list \<Rightarrow> (nat \<times> nat) list \<Rightarrow>
      'b da_blk list \<Rightarrow> 'b da_blk list \<Rightarrow> da_tree \<Rightarrow> 'b da_blk list \<Rightarrow> nat \<Rightarrow> bool" where
  "shifts_to dev mp dp t pre rest path up c below h \<longleftrightarrow> da_at dev mp dp h c \<and> length below = Suc h \<and> list_all one_buf below \<and>
     pbufs up + pbufs below = pbufs path \<and>
     (\<exists>R. rest = tree_entries c @ R \<and>
       (\<forall>path' lf' r'. path_at dev mp dp c path' [] lf' r' \<longrightarrow> path_at dev mp dp t (up @ path') pre lf' (r' @ R)))"

lemma shift_up_ok:
  "path_at dev mp dp t path pre lf rest \<Longrightarrow> da_at dev mp dp h t \<Longrightarrow>
    rest = [] \<and> da_shift_up (rev (butlast path)) [last path] = Some None \<or>
    (\<exists>up c below h'. da_shift_up (rev (butlast path)) [last path] = Some (Some (up, tree_blk c, below)) \<and>
       shifts_to dev mp dp t (pre @ lf) rest path up c below h')"
proof (induction arbitrary: h rule: path_at.induct)
  case (leaf b lf blk)
  then show ?case by simp
next
  case (node i cs blk b path pre lf rest)
  obtain g x where h: "h = Suc g" "da_block dev mp dp b XFS_DA_NODE_MAGIC (node_keys cs) x"
    "\<forall>c \<in> set cs. da_at dev mp dp g (snd c) \<and> fst c = last_hash (snd c)"
    by (rule da_at_nodeE [OF node.prems]) auto
  have ci: "da_at dev mp dp g (snd (cs ! i))" using h(3) nth_mem [OF node.hyps(1)] by blast
  have ne: "path \<noteq> []" using node.hyps(4) by (auto elim: path_at.cases)
  have eq: "rev (butlast (blk # path)) = rev (butlast path) @ [blk]" "last (blk # path) = last path"
    "rev (rev (butlast path)) @ [last path] = path" using ne by simp_all
  let ?before = "concat (map (\<lambda>c. tree_entries (snd c)) (take i cs))" and ?behind = "concat (map (\<lambda>c. tree_entries (snd c)) (drop (Suc i) cs))"
  consider (here) "rest = []" "da_shift_up (rev (butlast path)) [last path] = Some None"
    | (below) up c below h' where "da_shift_up (rev (butlast path)) [last path] = Some (Some (up, tree_blk c, below))"
      "shifts_to dev mp dp (snd (cs ! i)) (pre @ lf) rest path up c below h'"
    using node.IH [OF ci] by blast
  then show ?case
  proof cases
    case below
    have "da_shift_up (rev (butlast (blk # path))) [last (blk # path)] = Some (Some (blk # up, tree_blk c, below))"
      unfolding eq(1,2) shift_up_append using below(1) by simp
    moreover have "shifts_to dev mp dp (DNode b cs) ((?before @ pre) @ lf) (rest @ ?behind) (blk # path) (blk # up) c below h'"
    proof -
      obtain R where R: "rest = tree_entries c @ R"
        "\<forall>path' lf' r'. path_at dev mp dp c path' [] lf' r' \<longrightarrow> path_at dev mp dp (snd (cs ! i)) (up @ path') (pre @ lf) lf' (r' @ R)"
        using below(2) by (auto simp: shifts_to_def)
      have "path_at dev mp dp (DNode b cs) ((blk # up) @ path') ((?before @ pre) @ lf) lf' (r' @ R @ ?behind)"
        if "path_at dev mp dp c path' [] lf' r'" for path' lf' r'
        using path_at.node [OF node.hyps(1-3), of "up @ path'" "pre @ lf" lf' "r' @ R"] R(2) that by simp
      then show ?thesis using below(2) R(1) unfolding shifts_to_def by (intro conjI exI [of _ "R @ ?behind"]) auto
    qed
    ultimately show ?thesis by blast
  next
    case here
    obtain bp where bp: "db_buf blk = Some bp" "leaf_holds (da_data bp) (node_keys cs)"
      using node.hyps(3) by (auto simp: blk_has_def da_block_def)
    have cnt: "leaf_count (da_data bp) = Some (length cs)"
      "\<And>j. j < length cs \<Longrightarrow> leaf_address (da_data bp) 16 (int j) = Some (tree_blk (snd (cs ! j)))"
      using bp(2) by (auto simp: leaf_holds_def)
    have up: "da_shift_up (rev (butlast (blk # path))) [last (blk # path)] = da_shift_up [blk] path"
      unfolding eq(1,2) shift_up_append using here(2) eq(3) by simp
    show ?thesis
    proof (cases "Suc i < length cs")
      case False
      then have "?behind = []" "\<not> int i < int (length cs) - 1" by auto
      moreover from this(2) have "da_shift_up [blk] path = Some None" using bp(1) cnt(1) node.hyps(2) by simp
      ultimately show ?thesis using here(1) up by simp
    next
      case True
      let ?c = "snd (cs ! Suc i)" and ?blk = "blk\<lparr>db_index := int (Suc i)\<rparr>"
      have idx: "int i < int (length cs) - 1" "int i + 1 = int (Suc i)" using True by auto
      have run: "da_shift_up [blk] path = Some (Some ([?blk], tree_blk ?c, path))"
        using bp(1) cnt(1) cnt(2) [OF True] node.hyps(2) idx(1) unfolding idx(2) [symmetric] by simp
      let ?R = "concat (map (\<lambda>c. tree_entries (snd c)) (drop (Suc (Suc i)) cs))"
      have drop: "?behind = tree_entries ?c @ ?R" using Cons_nth_drop_Suc [OF True] by (metis (no_types) concat.simps(2) list.map(2))
      have blk: "blk_has dev mp dp b XFS_DA_NODE_MAGIC (node_keys cs) ?blk" using node.hyps(3) by (simp add: blk_has_def one_buf_def)
      have pre: "concat (map (\<lambda>c. tree_entries (snd c)) (take (Suc i) cs)) @ [] = (?before @ pre) @ lf"
        using path_entries [OF node.hyps(4)] here(1) by (simp add: take_Suc_conv_app_nth [OF node.hyps(1)])
      have "path_at dev mp dp (DNode b cs) ([?blk] @ path') ((?before @ pre) @ lf) lf' (r' @ ?R)"
        if p: "path_at dev mp dp ?c path' [] lf' r'" for path' lf' r'
        using path_at.node [OF True _ blk p] unfolding pre by simp
      moreover have "da_at dev mp dp g ?c" using h(3) nth_mem [OF True] by blast
      ultimately have "shifts_to dev mp dp (DNode b cs) ((?before @ pre) @ lf) (rest @ ?behind) (blk # path) [?blk] ?c path g"
        unfolding shifts_to_def using path_length [OF node.hyps(4) ci] path_one_buf [OF node.hyps(4)] here(1) drop
        by (intro conjI exI [of _ ?R]) auto
      then show ?thesis using up run by auto
    qed
  qed
qed

context buf_pool
begin

text \<open>Going down again.\<close>

lemma shift_down_ok:
  assumes r: "dir_ready mp dp"
  shows "da_at dev mp dp h c \<Longrightarrow> length below = Suc h \<Longrightarrow> list_all one_buf below \<Longrightarrow> held (pbufs below + H) s \<Longrightarrow>
    size (pbufs below + H) \<le> Suc XFS_DA_NODE_MAXDEPTH \<Longrightarrow>
    \<exists>path' lf rest s'. da_shift_down ops iread l2e mp path (tree_blk c) below dp s = Some (0, path @ path', dp, s') \<and>
      path_at dev mp dp c path' [] lf rest \<and> held (pbufs path' + H) s'"
proof (induction arbitrary: below H s path rule: da_at.induct)
  case (leaf b lf x)
  obtain blk old where below: "below = [blk]" "db_buf blk = Some old" "length (bps old) = 1"
    using leaf.prems(1,2) by (cases below) (auto simp: one_buf_def)
  have free: "held H (xfs_da_brelse ops old s)" using leaf.prems(3) give_da [of old H] below by simp
  obtain bp s' where rd: "xfs_da_read_buf ops iread l2e mp dp b (- 1) (xfs_da_brelse ops old s) = Some (0, Some bp, dp, s')" "da_data bp = x"
    "held (mset (bps bp) + H) s'" "length (bps bp) = 1"
    by (rule take_block [OF r leaf.hyps free, where iread = iread and l2e = l2e]) (use leaf.prems(4) below in simp)
  let ?blk = "blk\<lparr>db_buf := Some bp, db_blkno := b, db_magic := XFS_DIR2_LEAFN_MAGIC, db_index := 0, db_hash := fst (last lf)\<rparr>"
  have x: "da_magic x = Some XFS_DIR2_LEAFN_MAGIC" "xfs_dir2_leafn_lasthash x = Some (fst (last lf))"
    using leaf.hyps leafn_lasthash by (auto simp: da_block_def)
  have "blk_has dev mp dp b XFS_DIR2_LEAFN_MAGIC lf ?blk" using leaf.hyps rd(2,4) by (simp add: blk_has_def one_buf_def)
  then have "path_at dev mp dp (DLeaf b lf) [?blk] [] lf []" by (rule path_at.leaf) simp
  moreover have "da_shift_down ops iread l2e mp path b below dp s = Some (0, path @ [?blk], dp, s')"
    using below rd(1,2) x by (simp add: Let_def)
  ultimately show ?case using rd(3) by (intro exI [of _ "[?blk]"] exI [of _ lf] exI [of _ "[]"] exI [of _ s']) simp
next
  case (node b cs x h)
  obtain blk below' where bl: "below = blk # below'" "one_buf blk" "list_all one_buf below'"
    using node.prems(1,2) by (cases below) auto
  then obtain old where below: "below = blk # below'" "db_buf blk = Some old" "length (bps old) = 1" "list_all one_buf below'"
    by (auto simp: one_buf_def)
  have free: "held (pbufs below' + H) (xfs_da_brelse ops old s)"
    using node.prems(3) give_da [of old "pbufs below' + H"] below by (simp add: ac_simps)
  obtain bp s1 where rd: "xfs_da_read_buf ops iread l2e mp dp b (- 1) (xfs_da_brelse ops old s) = Some (0, Some bp, dp, s1)" "da_data bp = x"
    "held (mset (bps bp) + (pbufs below' + H)) s1" "length (bps bp) = 1"
    by (rule take_block [OF r node.hyps free, where iread = iread and l2e = l2e]) (use node.prems(4) below in simp)
  have x: "da_magic x = Some XFS_DA_NODE_MAGIC" "leaf_holds x (node_keys cs)" "cs \<noteq> []" "leaf_count x = Some (length cs)"
    using node.hyps by (auto simp: da_block_def leaf_holds_def)
  have z: "0 < length cs" using x(3) by simp
  let ?c = "snd (cs ! 0)"
  have child: "leaf_address x 16 0 = Some (tree_blk ?c)" using x(2) z by (force simp: leaf_holds_def)
  obtain hash where hash: "leaf_hashval x 16 (int (length cs) - 1) = Some hash" using node_lasthash [OF x(2)] x(3) by auto
  let ?blk = "blk\<lparr>db_buf := Some bp, db_blkno := b, db_magic := XFS_DA_NODE_MAGIC, db_index := 0, db_hash := hash\<rparr>"
  have H: "length below' = Suc h" "held (pbufs below' + (mset (bps bp) + H)) s1"
    "size (pbufs below' + (mset (bps bp) + H)) \<le> Suc XFS_DA_NODE_MAXDEPTH"
    using node.prems(1,4) below rd(3,4) by (simp_all add: ac_simps)
  have "\<exists>path' lf rest s'. da_shift_down ops iread l2e mp (path @ [?blk]) (tree_blk ?c) below' dp s1 =
      Some (0, (path @ [?blk]) @ path', dp, s') \<and> path_at dev mp dp ?c path' [] lf rest \<and> held (pbufs path' + (mset (bps bp) + H)) s'"
    by (rule node.IH [THEN bspec, OF nth_mem [OF z], THEN conjunct1, THEN conjunct2, rule_format, OF H(1) below(4) H(2,3)])
  then obtain path' lf rest s' where p: "da_shift_down ops iread l2e mp (path @ [?blk]) (tree_blk ?c) below' dp s1 =
      Some (0, (path @ [?blk]) @ path', dp, s')" "path_at dev mp dp ?c path' [] lf rest" "held (pbufs path' + (mset (bps bp) + H)) s'"
    by blast
  have run: "da_shift_down ops iread l2e mp path b below dp s = Some (0, path @ ?blk # path', dp, s')"
    using below rd(1,2) x(1,4) hash child p(1) by (simp add: Let_def)
  have "blk_has dev mp dp b XFS_DA_NODE_MAGIC (node_keys cs) ?blk" using node.hyps rd(2,4) by (simp add: blk_has_def one_buf_def)
  from path_at.node [OF z _ this p(2)]
  have at: "path_at dev mp dp (DNode b cs) (?blk # path') [] lf (rest @ concat (map (\<lambda>c. tree_entries (snd c)) (drop (Suc 0) cs)))"
    by simp
  have "held (pbufs (?blk # path') + H) s'" using p(3) by (simp add: ac_simps)
  then show ?case unfolding tree_blk.simps using run at by blast
qed

text \<open>The shift as a whole.\<close>

lemma path_shift_ok:
  assumes r: "dir_ready mp dp" and p: "path_at dev mp dp t path pre lf rest" and at: "da_at dev mp dp h t"
    and s: "held (pbufs path + H) s" "size (pbufs path + H) \<le> Suc XFS_DA_NODE_MAXDEPTH"
  shows "rest = [] \<and> xfs_da_path_shift ops iread l2e mp path dp s = Some (0, errno_code ENOENT, path, dp, s) \<or>
    (\<exists>path' lf' rest' s'. xfs_da_path_shift ops iread l2e mp path dp s = Some (0, 0, path', dp, s') \<and>
      path_at dev mp dp t path' (pre @ lf) lf' rest' \<and> rest = lf' @ rest' \<and> held (pbufs path' + H) s')"
proof -
  consider "rest = []" "da_shift_up (rev (butlast path)) [last path] = Some None"
    | (nxt) up c below h' where "da_shift_up (rev (butlast path)) [last path] = Some (Some (up, tree_blk c, below))"
      "shifts_to dev mp dp t (pre @ lf) rest path up c below h'"
    using shift_up_ok [OF p at] by blast
  then show ?thesis
  proof cases
    case 1
    then show ?thesis by (simp add: xfs_da_path_shift_def)
  next
    case nxt
    obtain R where c: "da_at dev mp dp h' c" "length below = Suc h'" "list_all one_buf below" "pbufs up + pbufs below = pbufs path"
      "rest = tree_entries c @ R" "\<And>path' lf' r'. path_at dev mp dp c path' [] lf' r' \<Longrightarrow> path_at dev mp dp t (up @ path') (pre @ lf) lf' (r' @ R)"
      using nxt(2) by (auto simp: shifts_to_def)
    have b: "held (pbufs below + (pbufs up + H)) s" "size (pbufs below + (pbufs up + H)) \<le> Suc XFS_DA_NODE_MAXDEPTH"
      using s unfolding c(4) [symmetric] by (simp_all add: ac_simps)
    obtain path' lf' r' s' where d: "da_shift_down ops iread l2e mp up (tree_blk c) below dp s = Some (0, up @ path', dp, s')"
      "path_at dev mp dp c path' [] lf' r'" "held (pbufs path' + (pbufs up + H)) s'"
      using shift_down_ok [OF r c(1-3) b] by blast
    have "xfs_da_path_shift ops iread l2e mp path dp s = Some (0, 0, up @ path', dp, s')"
      using nxt(1) d(1) by (simp add: xfs_da_path_shift_def)
    moreover have "rest = lf' @ r' @ R" using c(5) path_entries [OF d(2)] by simp
    moreover have "held (pbufs (up @ path') + H) s'" using d(3) by (simp add: ac_simps)
    ultimately show ?thesis using c(6) [OF d(2)] by blast
  qed
qed

end

end
