(* ===== verification/Dir2_Node_Lookup.thy ===== *)
theory Dir2_Node_Lookup
  imports Dir2_Node_Tree
begin

text \<open>
  The lookup in a node directory finds what the listing of the directory holds: leaf by leaf, from the first one
  that can have the hash, until an entry matches or the hashes are behind it.
\<close>

section \<open>A leaf\<close>

text \<open>The cursor between two leaves, as the loop over the next one starts with it.\<close>

definition cur_look :: "'b da_cursor \<Rightarrow> 'b leaf_look" where
  "cur_look cur = \<lparr> lk_db = (if dc_valid cur then dc_db cur else 2 ^ 32 - 1), lk_buf = (if dc_valid cur then dc_buf cur else None),
     lk_cidb = 0, lk_index = 0, lk_args = dc_args cur \<rparr>"

context buf_pool
begin

lemma leafn_lookup_ok:
  assumes ok: "leaf_dir_ok dev mp dp cont" and h: "leaf_holds x lf" and ix: "index_sound mp (leaf_listing mp dp cont) lf"
    and ci: "\<not> xfs_sb_version_hasasciici (m_sb mp)" and n: "size H \<le> XFS_DA_NODE_MAXDEPTH"
    and at: "look_at held H dev mp dp (cur_look cur) s" and c: "a_cmpresult (dc_args cur) = XFS_CMP_DIFFERENT"
  shows "(\<exists>i cur' s' e. xfs_dir2_leafn_lookup_for_entry ops iread l2e mp x hv cur dp s = Some (errno_code EEXIST, i, cur', dp, s') \<and>
      dc_valid cur' \<and> held (bufs_of (dc_buf cur') + H) s' \<and> e \<in> set (leaf_listing mp dp cont) \<and> de_name e = a_name (dc_args cur) \<and>
      dc_args cur' = (dc_args cur)\<lparr>a_cmpresult := XFS_CMP_EXACT, a_inumber := de_ino e\<rparr>) \<or>
    (\<exists>i cur' s'. xfs_dir2_leafn_lookup_for_entry ops iread l2e mp x hv cur dp s = Some (errno_code ENOENT, i, cur', dp, s') \<and>
      look_at held H dev mp dp (cur_look cur') s' \<and> dc_args cur' = dc_args cur \<and>
      (\<forall>e \<in> set (leaf_listing mp dp cont). (hv, nat (de_cookie e)) \<in> set lf \<longrightarrow> de_name e \<noteq> a_name (dc_args cur)))"
proof -
  let ?es = "leaf_listing mp dp cont"
  let ?ln = "\<lparr> ln_db = (if dc_valid cur then dc_db cur else 2 ^ 32 - 1), ln_buf = (if dc_valid cur then dc_buf cur else None),
      ln_index = 0, ln_cur = cur \<rparr>"
  have like: "ln_like ?ln (cur_look cur)" by (simp add: ln_like_def cur_look_def)
  have cl: "a_cmpresult (lk_args (cur_look cur)) = XFS_CMP_DIFFERENT" "lk_args (cur_look cur) = dc_args cur"
    using c by (simp_all add: cur_look_def)
  have cnt: "leaf_count x = Some (length lf)" using h by (simp add: leaf_holds_def)
  obtain f where f: "xfs_dir2_leaf_search_hash x hv = Some (int f)" "first_ge (map fst lf) hv f"
    using search_hash_ok [of x "map fst lf" hv] h ix by (auto simp: leaf_holds_def index_sound_def)
  let ?n = "length lf - f"
  have fl: "f + ?n = length lf" "nat (int (length lf) - int f) = ?n" using f(2) by (auto simp: first_ge_def)
  have ge: "f < length lf \<Longrightarrow> hv \<le> fst (lf ! f)" using f(2) by (auto simp: first_ge_def)
  consider (found) i lk' bp s' e where "leaf_look_loop ops iread l2e mp x hv ?n (int f) (cur_look cur) dp s = Some (Some 0, lk', dp, s')"
      "look_at held H dev mp dp lk' s'" "lk_buf lk' = Some bp" "lk_index lk' = int i" "i < length lf"
      "lk_args lk' = (dc_args cur)\<lparr>a_cmpresult := XFS_CMP_EXACT\<rparr>" "e \<in> set ?es" "de_name e = a_name (dc_args cur)"
      "data_inumber (da_data bp) (leaf_dep mp (snd (lf ! i))) = Some (de_ino e)"
    | (missing) lk' s' where "leaf_look_loop ops iread l2e mp x hv ?n (int f) (cur_look cur) dp s = Some (None, lk', dp, s')"
      "look_at held H dev mp dp lk' s'" "lk_args lk' = dc_args cur"
      "\<forall>e \<in> set ?es. \<forall>i < length lf. f \<le> i \<longrightarrow> lf ! i = (hv, nat (de_cookie e)) \<longrightarrow> de_name e \<noteq> a_name (dc_args cur)"
    using leaf_look_ok [OF ok h ix ci n fl(1) ge at cl(1), of iread l2e] unfolding cl(2) by blast
  then show ?thesis
  proof cases
    case found
    have addr: "leaf_address x 16 (lk_index lk') = Some (snd (lf ! i))" using h found(4,5) by (simp add: leaf_holds_def)
    obtain ln' j where ln': "leafn_loop ops iread l2e mp x hv ?n (int f) ?ln dp s = Some (Some (errno_code EEXIST), j, ln', dp, s')"
      "dc_valid (ln_cur ln')" "dc_buf (ln_cur ln') = lk_buf lk'" "dc_args (ln_cur ln') = (lk_args lk')\<lparr>a_inumber := de_ino e\<rparr>"
      using leafn_loop_like [OF ci like cl(1) found(1)] addr found(3,9) by blast
    have "xfs_dir2_leafn_lookup_for_entry ops iread l2e mp x hv cur dp s = Some (errno_code EEXIST, ln_index ln', ln_cur ln', dp, s')"
      using f(1) cnt fl(2) ln'(1) by (simp add: xfs_dir2_leafn_lookup_for_entry_def Let_def)
    moreover have "held (bufs_of (dc_buf (ln_cur ln')) + H) s'" using found(2) ln'(3) by (simp add: look_at_def)
    ultimately show ?thesis using ln'(2,4) found(6-8) by auto
  next
    case missing
    obtain ln' j where ln': "leafn_loop ops iread l2e mp x hv ?n (int f) ?ln dp s = Some (None, j, ln', dp, s')"
      "ln_like ln' lk'" "ln_cur ln' = cur"
      using leafn_loop_like [OF ci like cl(1) missing(1)] by auto
    define cur' where "cur' = (case ln_buf ln' of None \<Rightarrow> cur\<lparr>dc_valid := False\<rparr>
      | Some b \<Rightarrow> cur\<lparr>dc_valid := True, dc_buf := Some b, dc_index := - 1, dc_db := ln_db ln'\<rparr>)"
    have "xfs_dir2_leafn_lookup_for_entry ops iread l2e mp x hv cur dp s = Some (errno_code ENOENT, j, cur', dp, s')"
      using f(1) cnt fl(2) ln'(1,3) c
      by (simp add: xfs_dir2_leafn_lookup_for_entry_def Let_def cur'_def split: option.split)
    moreover have "look_at held H dev mp dp (cur_look cur') s'"
      using missing(2) ln'(2) by (auto simp: look_at_def cur_look_def cur'_def ln_like_def split: option.splits)
    moreover have "dc_args cur' = dc_args cur" by (simp add: cur'_def split: option.split)
    moreover have "de_name e \<noteq> a_name (dc_args cur)" if e: "e \<in> set ?es" "(hv, nat (de_cookie e)) \<in> set lf" for e
    proof -
      obtain i where i: "i < length lf" "lf ! i = (hv, nat (de_cookie e))" using e(2) by (auto simp: in_set_conv_nth)
      have "\<not> i < f" using f(2) i by (auto simp: first_ge_def)
      then show ?thesis using missing(4) e(1) i by auto
    qed
    ultimately show ?thesis by blast
  qed
qed

section \<open>Leaf by leaf\<close>

definition leaves_found ::
    "dirent list \<Rightarrow> nat \<Rightarrow> xfs_inode \<Rightarrow> 'b da_cursor \<Rightarrow> (nat \<times> nat) list \<Rightarrow>
      int \<times> int \<times> 'b da_blk list \<times> 'b da_cursor \<times> xfs_inode \<times> 's \<Rightarrow> bool" where
  "leaves_found es hv dp cur lf r \<longleftrightarrow> (case r of (error, retval, path, cur', dp', s') \<Rightarrow>
     error = 0 \<and> dp' = dp \<and> list_all one_buf path \<and> held (bufs_of (if dc_valid cur' then dc_buf cur' else None) + pbufs path) s' \<and>
     ((\<exists>e \<in> set es. de_name e = a_name (dc_args cur) \<and> retval = errno_code EEXIST \<and>
        dc_args cur' = (dc_args cur)\<lparr>a_cmpresult := XFS_CMP_EXACT, a_inumber := de_ino e\<rparr>) \<or>
      retval = errno_code ENOENT \<and> dc_args cur' = dc_args cur \<and>
        (\<forall>e \<in> set es. (hv, nat (de_cookie e)) \<in> set lf \<longrightarrow> de_name e \<noteq> a_name (dc_args cur))))"

lemma index_sound_part: "index_sound mp es (xs @ lf @ ys) \<Longrightarrow> index_sound mp es lf"
  by (auto simp: index_sound_def sorted_append)

lemma leaves_ok:
  assumes ok: "leaf_dir_ok dev mp dp cont" and at: "da_at dev mp dp h t" and h: "h < XFS_DA_NODE_MAXDEPTH"
    and ix: "index_sound mp (leaf_listing mp dp cont) (tree_entries t)" and ci: "\<not> xfs_sb_version_hasasciici (m_sb mp)"
  shows "path_at dev mp dp t path pre lf rest \<Longrightarrow> hv \<le> fst (last lf) \<or> rest = [] \<Longrightarrow>
    look_at held (pbufs path) dev mp dp (cur_look cur) s \<Longrightarrow> a_cmpresult (dc_args cur) = XFS_CMP_DIFFERENT \<Longrightarrow>
    \<exists>r. da_leaves ops iread l2e mp hv path cur dp s = Some r \<and> leaves_found (leaf_listing mp dp cont) hv dp cur (lf @ rest) r"
proof (induction "length rest" arbitrary: path pre lf rest cur s rule: less_induct)
  case less
  let ?es = "leaf_listing mp dp cont"
  have r: "dir_ready mp dp" using ok by (simp add: leaf_dir_ok_def)
  obtain b where b: "blk_has dev mp dp b XFS_DIR2_LEAFN_MAGIC lf (last path)" "db_hash (last path) = fst (last lf)" "path \<noteq> []"
    using less.prems(1) by (rule path_last)
  obtain bp where bp: "db_buf (last path) = Some bp" "leaf_holds (da_data bp) lf" "lf \<noteq> []" "db_magic (last path) = XFS_DIR2_LEAFN_MAGIC"
    using b(1) by (auto simp: blk_has_def da_block_def)
  have parts: "tree_entries t = pre @ lf @ rest" using less.prems(1) by (rule path_entries)
  have ixl: "index_sound mp ?es lf" using ix unfolding parts by (rule index_sound_part)
  have srt: "sorted (map fst (lf @ rest))" using ix unfolding parts by (auto simp: index_sound_def sorted_append)
  have sz: "size (pbufs path) = Suc h" "list_all one_buf path"
    using size_pbufs [OF path_one_buf [OF less.prems(1)]] path_length [OF less.prems(1) at] path_one_buf [OF less.prems(1)] by simp_all
  have n: "size (pbufs path) \<le> XFS_DA_NODE_MAXDEPTH" using sz(1) h by simp
  have leaves: "da_leaves ops iread l2e mp hv path cur dp s = (do {
      (retval, index, cur, dp, s) \<leftarrow> xfs_dir2_leafn_lookup_for_entry ops iread l2e mp (da_data bp) hv cur dp s;
      let path = butlast path @ [(last path)\<lparr>db_index := index\<rparr>];
      if retval = errno_code ENOENT \<and> fst (last lf) = hv then do {
        (error, retval, path, dp, s) \<leftarrow> xfs_da_path_shift ops iread l2e mp path dp s;
        if error \<noteq> 0 then Some (error, 0, path, cur, dp, s)
        else if retval = 0 then da_leaves ops iread l2e mp hv path cur dp s
        else Some (0, retval, path, cur, dp, s) }
      else Some (0, retval, path, cur, dp, s) })"
    using bp(1,4) b(2) by (subst da_leaves.simps) (simp add: Let_def cong: if_cong)
  let ?path = "\<lambda>i. butlast path @ [(last path)\<lparr>db_index := i\<rparr>]"
  have pb: "pbufs (?path i) = pbufs path" "list_all one_buf (?path i)" for i
  proof -
    have "pbufs path = pbufs (butlast path @ [last path])" using b(3) by simp
    then show "pbufs (?path i) = pbufs path" by simp
    show "list_all one_buf (?path i)" by (rule path_one_buf [OF path_set_index [OF less.prems(1)]])
  qed
  consider (found) i cur' s' e where "xfs_dir2_leafn_lookup_for_entry ops iread l2e mp (da_data bp) hv cur dp s = Some (errno_code EEXIST, i, cur', dp, s')"
      "dc_valid cur'" "held (bufs_of (dc_buf cur') + pbufs path) s'" "e \<in> set ?es" "de_name e = a_name (dc_args cur)"
      "dc_args cur' = (dc_args cur)\<lparr>a_cmpresult := XFS_CMP_EXACT, a_inumber := de_ino e\<rparr>"
    | (missing) i cur' s' where "xfs_dir2_leafn_lookup_for_entry ops iread l2e mp (da_data bp) hv cur dp s = Some (errno_code ENOENT, i, cur', dp, s')"
      "look_at held (pbufs path) dev mp dp (cur_look cur') s'" "dc_args cur' = dc_args cur"
      "\<forall>e \<in> set ?es. (hv, nat (de_cookie e)) \<in> set lf \<longrightarrow> de_name e \<noteq> a_name (dc_args cur)"
    using leafn_lookup_ok [OF ok bp(2) ixl ci n less.prems(3,4), of iread l2e hv] by blast
  then show ?case
  proof cases
    case found
    have "da_leaves ops iread l2e mp hv path cur dp s = Some (0, errno_code EEXIST, ?path i, cur', dp, s')"
      unfolding leaves using found(1) by simp
    moreover have "leaves_found ?es hv dp cur (lf @ rest) (0, errno_code EEXIST, ?path i, cur', dp, s')"
      unfolding leaves_found_def prod.case pb(1) using found(2-6) pb(2) by auto
    ultimately show ?thesis by blast
  next
    case missing
    have hold: "held (bufs_of (if dc_valid cur' then dc_buf cur' else None) + pbufs path) s'"
      using missing(2) by (simp add: look_at_def cur_look_def)
    have stop: "leaves_found ?es hv dp cur (lf @ rest) (0, errno_code ENOENT, ?path i, cur', dp, s')"
      if "\<forall>x \<in> set rest. fst x \<noteq> hv"
      unfolding leaves_found_def prod.case pb(1) using missing(3,4) hold pb(2) that by fastforce
    show ?thesis
    proof (cases "fst (last lf) = hv")
      case False
      have "fst x \<noteq> hv" if x: "x \<in> set rest" for x
      proof -
        have "fst (last lf) \<le> fst x" using srt x bp(3) by (auto simp: sorted_append)
        then show ?thesis using less.prems(2) x False by auto
      qed
      moreover have "da_leaves ops iread l2e mp hv path cur dp s = Some (0, errno_code ENOENT, ?path i, cur', dp, s')"
        unfolding leaves using missing(1) False by simp
      ultimately show ?thesis using stop by blast
    next
      case True
      note p = path_set_index [OF less.prems(1), of i]
      let ?D = "bufs_of (if dc_valid cur' then dc_buf cur' else None)"
      have hd: "held (pbufs (?path i) + ?D) s'" using hold unfolding pb(1) by (simp add: ac_simps)
      have "size ?D \<le> 1"
        using missing(2) by (auto simp: look_at_def cur_look_def split: option.splits if_splits)
      then have sd: "size (pbufs (?path i) + ?D) \<le> Suc XFS_DA_NODE_MAXDEPTH" unfolding pb(1) using n by simp
      consider (last) "rest = []" "xfs_da_path_shift ops iread l2e mp (?path i) dp s' = Some (0, errno_code ENOENT, ?path i, dp, s')"
        | (more) path' lf' rest' s'' where "xfs_da_path_shift ops iread l2e mp (?path i) dp s' = Some (0, 0, path', dp, s'')"
          "path_at dev mp dp t path' (pre @ lf) lf' rest'" "rest = lf' @ rest'" "held (pbufs path' + ?D) s''"
        using path_shift_ok [OF r p at hd sd, of iread l2e] by blast
      then show ?thesis
      proof cases
        case last
        have "da_leaves ops iread l2e mp hv path cur dp s = Some (0, errno_code ENOENT, ?path i, cur', dp, s')"
          unfolding leaves using missing(1) True last(2) by simp
        then show ?thesis using stop last(1) by auto
      next
        case more
        have run: "da_leaves ops iread l2e mp hv path cur dp s = da_leaves ops iread l2e mp hv path' cur' dp s''"
          unfolding leaves using missing(1) True more(1) by simp
        have ne: "lf' \<noteq> []" using more(2) by (rule path_last) (auto simp: blk_has_def da_block_def)
        have "hv \<le> fst (last lf')" using srt True bp(3) ne unfolding more(3) by (auto simp: sorted_append)
        moreover have "look_at held (pbufs path') dev mp dp (cur_look cur') s''"
          using missing(2) more(4) by (auto simp: look_at_def cur_look_def ac_simps split: option.splits)
        moreover have "length rest' < length rest" using ne more(3) by (cases lf') auto
        moreover have "a_cmpresult (dc_args cur') = XFS_CMP_DIFFERENT" using less.prems(4) missing(3) by simp
        ultimately obtain q where q: "da_leaves ops iread l2e mp hv path' cur' dp s'' = Some q"
          "leaves_found ?es hv dp cur' (lf' @ rest') q"
          using less.hyps [OF _ more(2)] by blast
        have "leaves_found ?es hv dp cur (lf @ rest) q"
          using q(2) missing(3,4) unfolding more(3) by (auto simp: leaves_found_def)
        then show ?thesis unfolding run by (intro exI conjI) (rule q(1))
      qed
    qed
  qed
qed

section \<open>The whole lookup\<close>

lemma da_release_ok:
  "list_all one_buf path \<Longrightarrow> held (pbufs path + H) s \<Longrightarrow> \<exists>s'. da_release ops path s = Some s' \<and> held H s'"
proof (induction path arbitrary: s)
  case (Cons blk path)
  obtain bp where bp: "db_buf blk = Some bp" using Cons.prems(1) by (auto simp: one_buf_def)
  have "held (pbufs path + H) (xfs_da_brelse ops bp s)"
    using Cons.prems(2) give_da [of bp "pbufs path + H" s] bp by (simp add: ac_simps)
  then show ?case using Cons bp by simp
qed simp

end

text \<open>The root of the tree is the first block of the leaf part of the directory.\<close>

definition nodedir_ok :: "(int \<Rightarrow> int \<Rightarrow> bytes option) \<Rightarrow> xfs_mount \<Rightarrow> xfs_inode \<Rightarrow> (nat \<Rightarrow> data_item list) \<Rightarrow> bool" where
  "nodedir_ok dev mp dp cont \<longleftrightarrow> leaf_dir_ok dev mp dp cont \<and> m_dirleafblk mp = int (leafblk mp) \<and>
     (\<exists>h t. h < XFS_DA_NODE_MAXDEPTH \<and> da_at dev mp dp h t \<and> tree_blk t = leafblk mp \<and>
       dir_index mp (leaf_listing mp dp cont) (tree_entries t))"

context buf_pool
begin

lemma node_lookup_ok:
  assumes s: "held {#} s" and nd: "nodedir_ok dev mp dp cont"
    and ci: "\<not> xfs_sb_version_hasasciici (m_sb mp)" and args: "a_cmpresult args = XFS_CMP_DIFFERENT"
  shows "\<exists>s'. held {#} s' \<and> xfs_dir2_node_lookup alloc_ok ops iread l2e mp dp (hashname mp (a_name args)) args s =
    Some (case dir_find (leaf_listing mp dp cont) (a_name args) of
        None \<Rightarrow> (errno_code ENOENT, args, dp, s')
      | Some ino \<Rightarrow> (errno_code EEXIST, args\<lparr>a_cmpresult := XFS_CMP_EXACT, a_inumber := ino\<rparr>, dp, s'))"
proof -
  let ?hv = "hashname mp (a_name args)" and ?es = "leaf_listing mp dp cont"
  let ?cur = "\<lparr> dc_valid = False, dc_buf = None, dc_db = 0, dc_index = 0, dc_args = args \<rparr> :: 'a da_cursor"
  obtain h t where N: "leaf_dir_ok dev mp dp cont" "m_dirleafblk mp = int (leafblk mp)" "h < XFS_DA_NODE_MAXDEPTH"
    "da_at dev mp dp h t" "tree_blk t = leafblk mp" "dir_index mp ?es (tree_entries t)" using nd by (auto simp: nodedir_ok_def)
  have r: "dir_ready mp dp" using N(1) by (simp add: leaf_dir_ok_def)
  have ix: "index_sound mp ?es (tree_entries t)" "sorted (map fst (tree_entries t))" "distinct (map de_name ?es)"
    using N(6) by (auto simp: dir_index_def index_sound_def)
  have sz: "size ({#} :: 'a multiset) + h \<le> XFS_DA_NODE_MAXDEPTH" using N(3) by simp
  obtain path pre lf rest s1 where d: "da_descend ops iread l2e mp ?hv XFS_DA_NODE_MAXDEPTH (leafblk mp) [] dp s = Some (0, path, dp, s1)"
    "path_at dev mp dp t path pre lf rest" "\<forall>x \<in> set pre. fst x < ?hv" "?hv \<le> fst (last lf) \<or> rest = []" "held (pbufs path) s1"
    using descend_ok [OF r N(4,3) s sz ix(2), where path = "[]" and iread = iread and l2e = l2e and hv = ?hv] unfolding N(5) by auto
  have at: "look_at held (pbufs path) dev mp dp (cur_look ?cur) s1" using d(5) by (simp add: look_at_def cur_look_def)
  obtain e rv path' cur dp' s2 where lv: "da_leaves ops iread l2e mp ?hv path ?cur dp s1 = Some (e, rv, path', cur, dp', s2)"
    "leaves_found ?es ?hv dp ?cur (lf @ rest) (e, rv, path', cur, dp', s2)"
    using leaves_ok [OF N(1,4,3) ix(1) ci d(2,4) at] args by fastforce
  let ?D = "bufs_of (if dc_valid cur then dc_buf cur else None)"
  have L: "e = 0" "dp' = dp" "list_all one_buf path'" "held (pbufs path' + ?D) s2"
    using lv(2) by (auto simp: leaves_found_def ac_simps)
  obtain s3 where rel: "da_release ops path' s2 = Some s3" "held ?D s3" using da_release_ok [OF L(3,4)] by blast
  let ?s = "if dc_valid cur then put_buf ops (dc_buf cur) s3 else s3"
  have fin: "held {#} ?s" using rel(2) give_put [of "dc_buf cur" "{#}" s3] by (cases "dc_valid cur") auto
  have int: "xfs_da_node_lookup_int ops iread l2e mp ?hv ?cur dp s = Some (0, rv, path', cur, dp, s2)"
    using N(2) d(1) lv(1) L(1,2) by (simp add: xfs_da_node_lookup_int_def)
  consider (found) x where "x \<in> set ?es" "de_name x = a_name args" "rv = errno_code EEXIST"
      "dc_args cur = args\<lparr>a_cmpresult := XFS_CMP_EXACT, a_inumber := de_ino x\<rparr>"
    | (missing) "rv = errno_code ENOENT" "dc_args cur = args"
      "\<forall>x \<in> set ?es. (?hv, nat (de_cookie x)) \<in> set (lf @ rest) \<longrightarrow> de_name x \<noteq> a_name args"
    using lv(2) unfolding leaves_found_def by auto
  then show ?thesis
  proof cases
    case found
    have "dir_find ?es (a_name args) = Some (de_ino x)" using dir_find_Some [OF ix(3) found(1)] found(2) by simp
    moreover have "xfs_dir2_node_lookup alloc_ok ops iread l2e mp dp ?hv args s =
        Some (errno_code EEXIST, args\<lparr>a_cmpresult := XFS_CMP_EXACT, a_inumber := de_ino x\<rparr>, dp, ?s)"
      using int found(3,4) rel(1) by (simp add: xfs_dir2_node_lookup_def Let_def)
    ultimately show ?thesis using fin by auto
  next
    case missing
    have "de_name x \<noteq> a_name args" if x: "x \<in> set ?es" for x
    proof
      assume nm: "de_name x = a_name args"
      then have "(?hv, nat (de_cookie x)) \<in> set (pre @ lf @ rest)"
        using N(6) x path_entries [OF d(2)] by (auto simp: dir_index_def)
      then have "(?hv, nat (de_cookie x)) \<in> set (lf @ rest)" using d(3) by auto
      then show False using missing(3) x nm by blast
    qed
    then have "dir_find ?es (a_name args) = None" by (auto simp: dir_find_def find_None_iff)
    moreover have "xfs_dir2_node_lookup alloc_ok ops iread l2e mp dp ?hv args s = Some (errno_code ENOENT, args, dp, ?s)"
      using int missing(1,2) rel(1) args by (simp add: xfs_dir2_node_lookup_def Let_def)
    ultimately show ?thesis using fin by auto
  qed
qed

end

end
