(* ===== verification/Dir_Lookup.thy ===== *)
theory Dir_Lookup
  imports Dir2_Node_Lookup
begin

text \<open>
  \<open>xfs_dir_lookup\<close>: directories of all four kinds, short form, block, leaf and node, looked up in by name.
\<close>

section \<open>The kinds of directories\<close>

definition xfs_dir2_isblock ::
    "'s inode_reader \<Rightarrow> xfs_mount \<Rightarrow> xfs_inode \<Rightarrow> 's \<Rightarrow> (int \<times> bool \<times> xfs_inode \<times> 's) option" where
  "xfs_dir2_isblock iread mp dp s = do {
     (rval, last, dp, s) \<leftarrow> xfs_bmap_last_offset iread dp s;
     Some (rval, rval = 0 \<and> XFS_FSB_TO_B mp (int last) = int (m_dirblksize mp), dp, s) }"

definition xfs_dir2_isleaf ::
    "'s inode_reader \<Rightarrow> xfs_mount \<Rightarrow> xfs_inode \<Rightarrow> 's \<Rightarrow> (int \<times> bool \<times> xfs_inode \<times> 's) option" where
  "xfs_dir2_isleaf iread mp dp s = do {
     (rval, last, dp, s) \<leftarrow> xfs_bmap_last_offset iread dp s;
     Some (rval, rval = 0 \<and> int last = m_dirleafblk mp + 2 ^ sb_dirblklog (m_sb mp), dp, s) }"

text \<open>
  \<open>xfs_dir_lookup\<close>: error, inode number (meaningful without error), the actual name of a match that differs in
  case (only when \<open>ci\<close>, the caller gave \<open>ci_name\<close>), inode, state.
\<close>

definition xfs_dir_lookup ::
    "bool \<Rightarrow> ('b, 's) buf_ops \<Rightarrow> 's inode_reader \<Rightarrow> 's inode_reader \<Rightarrow> xfs_mount \<Rightarrow> xfs_inode \<Rightarrow> bytes \<Rightarrow> bool \<Rightarrow> 's \<Rightarrow> (int \<times> nat \<times> bytes option \<times> xfs_inode \<times> 's) option" where
  "xfs_dir_lookup alloc_ok ops iread l2e mp dp name ci s = do {
     let hashval = hashname mp name;
     let args = \<lparr> a_name = name, a_inumber = 0, a_cmpresult = XFS_CMP_DIFFERENT, a_cilookup = ci, a_justcheck = False,
        a_total = 0, a_value = None \<rparr>;
     (fail, rval, args, dp, s) \<leftarrow>
       (if di_format (i_d dp) = FMT_LOCAL then do {
          (e, args) \<leftarrow> xfs_dir2_sf_lookup alloc_ok mp dp args; Some (False, errno_code e, args, dp, s) }
        else do {
          (rval, v, dp, s) \<leftarrow> xfs_dir2_isblock iread mp dp s;
          if rval \<noteq> 0 then Some (True, rval, args, dp, s)
          else if v then map_option (Pair False) (xfs_dir2_block_lookup alloc_ok ops iread l2e mp dp hashval args s)
          else do {
            (rval, v, dp, s) \<leftarrow> xfs_dir2_isleaf iread mp dp s;
            if rval \<noteq> 0 then Some (True, rval, args, dp, s)
            else map_option (Pair False)
              ((if v then xfs_dir2_leaf_lookup else xfs_dir2_node_lookup) alloc_ok ops iread l2e mp dp hashval args s) } });
     Some (if \<not> fail \<and> rval = errno_code EEXIST then 0 else rval, a_inumber args, a_value args, dp, s) }"

section \<open>What a directory holds\<close>

text \<open>A directory with data blocks of its own has their items, by block number.\<close>

datatype dir_content = SfDir sf_dir | BlockDir "data_item list" | LeafDir "nat \<Rightarrow> data_item list"

abbreviation last_block :: "xfs_inode \<Rightarrow> nat" where
  "last_block dp \<equiv> bm_end (last (fork_exts dp))"

definition dir_at ::
    "(int \<Rightarrow> int \<Rightarrow> bytes option) \<Rightarrow> xfs_mount \<Rightarrow> xfs_inode \<Rightarrow> dir_content \<Rightarrow> bool" where
  "dir_at dev mp dp c \<longleftrightarrow> \<not> xfs_sb_version_hasasciici (m_sb mp) \<and> (case c of
     SfDir sd \<Rightarrow> di_format (i_d dp) = FMT_LOCAL \<and> sf_holds mp dp sd
   | BlockDir its \<Rightarrow> block_index_ok dev mp dp its \<and> fork_exts dp \<noteq> [] \<and>
       XFS_FSB_TO_B mp (int (last_block dp)) = int (m_dirblksize mp)
   | LeafDir cont \<Rightarrow> fork_exts dp \<noteq> [] \<and> XFS_FSB_TO_B mp (int (last_block dp)) \<noteq> int (m_dirblksize mp) \<and>
       (if int (last_block dp) = m_dirleafblk mp + 2 ^ sb_dirblklog (m_sb mp) then leaf1_ok dev mp dp cont else nodedir_ok dev mp dp cont))"

definition dir_entry :: "xfs_mount \<Rightarrow> xfs_inode \<Rightarrow> dir_content \<Rightarrow> bytes \<Rightarrow> nat option" where
  "dir_entry mp dp c nm = (case c of
     SfDir sd \<Rightarrow> if nm = [46] then Some (i_ino dp) else if nm = [46, 46] then Some (sd_parent sd)
       else map_option se_ino (find (\<lambda>e. se_name e = nm) (sd_entries sd))
   | BlockDir its \<Rightarrow> block_look its nm
   | LeafDir cont \<Rightarrow> dir_find (leaf_listing mp dp cont) nm)"

lemma leaf_dir_at:
  assumes "dir_at dev mp dp (LeafDir cont)"
  shows "leaf_dir_ok dev mp dp cont"
  using assms by (auto simp: dir_at_def leaf1_ok_def nodedir_ok_def split: if_splits)

section \<open>The lookup\<close>

lemma sf_spec_exact:
  assumes "\<not> xfs_sb_version_hasasciici (m_sb mp)"
  shows "sf_lookup_spec alloc_ok mp es args = (case map_option se_ino (find (\<lambda>e. se_name e = a_name args) es) of
     None \<Rightarrow> (ENOENT, args) | Some ino \<Rightarrow> (EEXIST, args\<lparr>a_cmpresult := XFS_CMP_EXACT, a_inumber := ino\<rparr>))"
proof -
  have "compname mp args nm = (if nm = a_name args then XFS_CMP_EXACT else XFS_CMP_DIFFERENT)" for nm
    using assms by (auto simp: compname_def xfs_da_compname_def)
  moreover have "find (\<lambda>e. False) es = None" by (simp add: find_None_iff)
  ultimately show ?thesis by (auto simp: sf_lookup_spec_def eq_commute [of "a_name args"] split: option.split)
qed

lemma isblock_ok:
  assumes "dir_ready mp dp"
  shows "xfs_dir2_isblock iread mp dp s = Some (0, fork_exts dp \<noteq> [] \<and>
      XFS_FSB_TO_B mp (int (bm_end (last (fork_exts dp)))) = int (m_dirblksize mp) \<or>
      fork_exts dp = [] \<and> XFS_FSB_TO_B mp 0 = int (m_dirblksize mp), dp, s)"
  using assms by (auto simp: xfs_dir2_isblock_def xfs_bmap_last_offset_def dir_ready_def with_extents_def)

lemma isleaf_ok:
  assumes "dir_ready mp dp" and "fork_exts dp \<noteq> []"
  shows "xfs_dir2_isleaf iread mp dp s = Some (0, int (last_block dp) = m_dirleafblk mp + 2 ^ sb_dirblklog (m_sb mp), dp, s)"
  using assms by (auto simp: xfs_dir2_isleaf_def xfs_bmap_last_offset_def dir_ready_def with_extents_def)

context buf_pool
begin

lemma dir_lookup_ok:
  assumes at: "dir_at dev mp dp c" and s: "held {#} s"
  shows "\<exists>k s'. held {#} s' \<and> (case dir_entry mp dp c nm of
      None \<Rightarrow> xfs_dir_lookup alloc_ok ops iread l2e mp dp nm ci' s = Some (errno_code ENOENT, k, None, dp, s')
    | Some t \<Rightarrow> xfs_dir_lookup alloc_ok ops iread l2e mp dp nm ci' s = Some (0, t, None, dp, s'))"
proof -
  define args where "args = \<lparr> a_name = nm, a_inumber = 0, a_cmpresult = XFS_CMP_DIFFERENT, a_cilookup = ci',
    a_justcheck = False, a_total = 0, a_value = None \<rparr>"
  have A: "a_name args = nm" "a_cmpresult args = XFS_CMP_DIFFERENT" "a_value args = None" by (simp_all add: args_def)
  have code: "errno_code ENOENT \<noteq> errno_code EEXIST" "0 < errno_code ENOENT" by simp_all
  have ext: ?thesis if r: "dir_ready mp dp" and e: "fork_exts dp \<noteq> []" and s': "held {#} s'"
    and look: "(if XFS_FSB_TO_B mp (int (last_block dp)) = int (m_dirblksize mp) then xfs_dir2_block_lookup
        else if int (last_block dp) = m_dirleafblk mp + 2 ^ sb_dirblklog (m_sb mp) then xfs_dir2_leaf_lookup else xfs_dir2_node_lookup)
        alloc_ok ops iread l2e mp dp (hashname mp nm) args s =
      Some (case dir_entry mp dp c nm of
        None \<Rightarrow> (errno_code ENOENT, args, dp, s')
      | Some ino \<Rightarrow> (errno_code EEXIST, args\<lparr>a_cmpresult := XFS_CMP_EXACT, a_inumber := ino\<rparr>, dp, s'))" for s'
  proof -
    have f: "di_format (i_d dp) \<noteq> FMT_LOCAL" using r by (auto simp: dir_ready_def)
    have "xfs_dir_lookup alloc_ok ops iread l2e mp dp nm ci' s =
        map_option (\<lambda>(rval, args, dp, s). (if rval = errno_code EEXIST then 0 else rval, a_inumber args, a_value args, dp, s))
          ((if XFS_FSB_TO_B mp (int (last_block dp)) = int (m_dirblksize mp) then xfs_dir2_block_lookup
            else if int (last_block dp) = m_dirleafblk mp + 2 ^ sb_dirblklog (m_sb mp) then xfs_dir2_leaf_lookup else xfs_dir2_node_lookup)
            alloc_ok ops iread l2e mp dp (hashname mp nm) args s)"
      using f e by (simp add: xfs_dir_lookup_def args_def Let_def isblock_ok [OF r] isleaf_ok [OF r e] option.map_comp o_def
          case_prod_unfold bind_map_option map_option_case split: option.split)
    then show ?thesis unfolding look
      using s' A code by (cases "dir_entry mp dp c nm") (auto simp del: errno_code.simps)
  qed
  show ?thesis
  proof (cases c)
    case (SfDir sd)
    then have f: "di_format (i_d dp) = FMT_LOCAL" and h: "sf_holds mp dp sd"
      and ci: "\<not> xfs_sb_version_hasasciici (m_sb mp)" using at by (auto simp: dir_at_def)
    have go: "xfs_dir2_sf_lookup alloc_ok mp dp args = Some (e, a) \<Longrightarrow>
        xfs_dir_lookup alloc_ok ops iread l2e mp dp nm ci' s =
        Some (if errno_code e = errno_code EEXIST then 0 else errno_code e, a_inumber a, a_value a, dp, s)" for e a
      using f by (simp add: xfs_dir_lookup_def args_def Let_def del: errno_code.simps)
    define r where "r = (if nm = [46] then (EEXIST, args\<lparr>a_inumber := i_ino dp, a_cmpresult := XFS_CMP_EXACT\<rparr>)
      else if nm = [46, 46] then (EEXIST, args\<lparr>a_inumber := sd_parent sd, a_cmpresult := XFS_CMP_EXACT\<rparr>)
      else sf_lookup_spec alloc_ok mp (sd_entries sd) args)"
    have "xfs_dir2_sf_lookup alloc_ok mp dp args = Some (fst r, snd r)"
      using sf_lookup_ok [OF h A(2), of alloc_ok] unfolding A r_def by simp
    from go [OF this] show ?thesis
      using s A by (auto simp: SfDir r_def dir_entry_def sf_spec_exact [OF ci] split: option.split intro!: exI [of _ s])
  next
    case (BlockDir its)
    then have ok: "block_index_ok dev mp dp its" and e: "fork_exts dp \<noteq> []"
      "XFS_FSB_TO_B mp (int (last_block dp)) = int (m_dirblksize mp)"
      using at by (auto simp: dir_at_def)
    have r: "dir_ready mp dp" using ok by (auto simp: block_index_ok_def)
    show ?thesis
      using ext [OF r e(1)] block_lookup_ok [OF ok s A(2)] e(2) by (fastforce simp: BlockDir dir_entry_def A)
  next
    case (LeafDir cont)
    then have e: "fork_exts dp \<noteq> []" "XFS_FSB_TO_B mp (int (last_block dp)) \<noteq> int (m_dirblksize mp)"
      and ci: "\<not> xfs_sb_version_hasasciici (m_sb mp)"
      and ix: "if int (last_block dp) = m_dirleafblk mp + 2 ^ sb_dirblklog (m_sb mp) then leaf1_ok dev mp dp cont else nodedir_ok dev mp dp cont"
      using at by (auto simp: dir_at_def)
    have r: "dir_ready mp dp" using leaf_dir_at at LeafDir by (auto simp: leaf_dir_ok_def)
    show ?thesis
    proof (cases "int (last_block dp) = m_dirleafblk mp + 2 ^ sb_dirblklog (m_sb mp)")
      case True
      then have "leaf1_ok dev mp dp cont" using ix by simp
      from leaf1_lookup_ok [OF s this ci A(2)] show ?thesis
        using ext [OF r e(1)] e(2) True by (fastforce simp: LeafDir dir_entry_def A)
    next
      case False
      then have "nodedir_ok dev mp dp cont" using ix by simp
      from node_lookup_ok [OF s this ci A(2)] show ?thesis
        using ext [OF r e(1)] e(2) False by (fastforce simp: LeafDir dir_entry_def A)
    qed
  qed
qed

end

end
