(* ===== verification/Dinode.thy ===== *)
theory Dinode
  imports Inode
begin

text \<open>
  The core of the on-disk inode (include/xfs_dinode.h) and its conversions \<open>xfs_dinode_from_disk\<close> and
  \<open>xfs_dinode_to_disk\<close> (libxfs/xfs_inode.c): 96 bytes, big-endian, with the signed fields of the in-core
  inode read as C does. The two are inverse to each other, so no field is lost, moved or cut.
\<close>

section \<open>Fields\<close>

definition to_s16 :: "int \<Rightarrow> int" where
  "to_s16 x = signed_take_bit 15 x"

definition fmt_of :: "nat \<Rightarrow> dinode_fmt" where
  "fmt_of b = (if b = 0 then FMT_DEV else if b = 1 then FMT_LOCAL else if b = 2 then FMT_EXTENTS
     else if b = 3 then FMT_BTREE else if b = 4 then FMT_UUID else FMT_OTHER b)"

fun fmt_byte :: "dinode_fmt \<Rightarrow> nat" where
  "fmt_byte FMT_DEV = 0"
| "fmt_byte FMT_LOCAL = 1"
| "fmt_byte FMT_EXTENTS = 2"
| "fmt_byte FMT_BTREE = 3"
| "fmt_byte FMT_UUID = 4"
| "fmt_byte (FMT_OTHER b) = b"

definition XFS_DINODE_MAGIC :: nat where "XFS_DINODE_MAGIC = 0x494e"

section \<open>The conversions\<close>

definition xfs_dinode_from_disk :: "bytes \<Rightarrow> xfs_icdinode option" where
  "xfs_dinode_from_disk from =
    (if length from < 96 then None else
     let u = (\<lambda>off n. be_val (chunk off n from)); s = (\<lambda>off. to_s32 (int (be_val (chunk off 4 from)))) in Some
     \<lparr> di_magic = u 0 2, di_mode = u 2 2, di_version = u 4 1, di_format = fmt_of (u 5 1),
       di_onlink = u 6 2, di_uid = u 8 4, di_gid = u 12 4, di_nlink = u 16 4,
       di_projid_lo = u 20 2, di_projid_hi = u 22 2, di_pad = chunk 24 6 from, di_flushiter = u 30 2,
       di_atime = \<lparr> t_sec = s 32, t_nsec = s 36 \<rparr>,
       di_mtime = \<lparr> t_sec = s 40, t_nsec = s 44 \<rparr>,
       di_ctime = \<lparr> t_sec = s 48, t_nsec = s 52 \<rparr>,
       di_size = to_s64 (int (u 56 8)), di_nblocks = u 64 8, di_extsize = u 72 4,
       di_nextents = s 76, di_anextents = to_s16 (int (u 80 2)),
       di_forkoff = u 82 1, di_aformat = fmt_of (u 83 1),
       di_dmevmask = u 84 4, di_dmstate = u 88 2, di_flags = u 90 2, di_gen = u 92 4 \<rparr>)"

definition be_int :: "nat \<Rightarrow> int \<Rightarrow> bytes" where
  "be_int n x = be_bytes n (nat (x mod 256 ^ n))"

definition xfs_dinode_to_disk :: "xfs_icdinode \<Rightarrow> bytes" where
  "xfs_dinode_to_disk from =
     be_bytes 2 (di_magic from) @ be_bytes 2 (di_mode from) @ be_bytes 1 (di_version from) @
     be_bytes 1 (fmt_byte (di_format from)) @ be_bytes 2 (di_onlink from) @
     be_bytes 4 (di_uid from) @ be_bytes 4 (di_gid from) @ be_bytes 4 (di_nlink from) @
     be_bytes 2 (di_projid_lo from) @ be_bytes 2 (di_projid_hi from) @ di_pad from @
     be_bytes 2 (di_flushiter from) @
     be_int 4 (t_sec (di_atime from)) @ be_int 4 (t_nsec (di_atime from)) @
     be_int 4 (t_sec (di_mtime from)) @ be_int 4 (t_nsec (di_mtime from)) @
     be_int 4 (t_sec (di_ctime from)) @ be_int 4 (t_nsec (di_ctime from)) @
     be_int 8 (di_size from) @ be_bytes 8 (di_nblocks from) @ be_bytes 4 (di_extsize from) @
     be_int 4 (di_nextents from) @ be_int 2 (di_anextents from) @ be_bytes 1 (di_forkoff from) @
     be_bytes 1 (fmt_byte (di_aformat from)) @ be_bytes 4 (di_dmevmask from) @
     be_bytes 2 (di_dmstate from) @ be_bytes 2 (di_flags from) @ be_bytes 4 (di_gen from)"

section \<open>They are inverse to each other\<close>

text \<open>The values the types of the in-core fields hold.\<close>

definition s_fits :: "nat \<Rightarrow> int \<Rightarrow> bool" where
  "s_fits n x \<longleftrightarrow> - (2 ^ (8 * n - 1)) \<le> x \<and> x < 2 ^ (8 * n - 1)"

definition time_ok :: "timestamp \<Rightarrow> bool" where
  "time_ok t \<longleftrightarrow> s_fits 4 (t_sec t) \<and> s_fits 4 (t_nsec t)"

definition fmt_ok :: "dinode_fmt \<Rightarrow> bool" where
  "fmt_ok f \<longleftrightarrow> (\<forall>b. f = FMT_OTHER b \<longrightarrow> 4 < b \<and> b < 256)"

definition icdinode_ok :: "xfs_icdinode \<Rightarrow> bool" where
  "icdinode_ok d \<longleftrightarrow>
     di_magic d < 2 ^ 16 \<and> di_mode d < 2 ^ 16 \<and> di_version d < 2 ^ 8 \<and> fmt_ok (di_format d) \<and>
     di_onlink d < 2 ^ 16 \<and> di_uid d < 2 ^ 32 \<and> di_gid d < 2 ^ 32 \<and> di_nlink d < 2 ^ 32 \<and>
     di_projid_lo d < 2 ^ 16 \<and> di_projid_hi d < 2 ^ 16 \<and> length (di_pad d) = 6 \<and>
     di_flushiter d < 2 ^ 16 \<and> time_ok (di_atime d) \<and> time_ok (di_mtime d) \<and> time_ok (di_ctime d) \<and>
     s_fits 8 (di_size d) \<and> di_nblocks d < 2 ^ 64 \<and> di_extsize d < 2 ^ 32 \<and>
     s_fits 4 (di_nextents d) \<and> s_fits 2 (di_anextents d) \<and> di_forkoff d < 2 ^ 8 \<and>
     fmt_ok (di_aformat d) \<and> di_dmevmask d < 2 ^ 32 \<and> di_dmstate d < 2 ^ 16 \<and>
     di_flags d < 2 ^ 16 \<and> di_gen d < 2 ^ 32"

lemma length_be_int [simp]: "length (be_int n x) = n"
  by (simp add: be_int_def)

lemma fmt_inverse: "fmt_ok f \<Longrightarrow> fmt_of (fmt_byte f) = f"
  by (cases f) (auto simp: fmt_ok_def fmt_of_def)

lemma fmt_byte_of [simp]: "fmt_byte (fmt_of b) = b"
  by (simp add: fmt_of_def)

lemma fmt_byte_less: "fmt_ok f \<Longrightarrow> fmt_byte f < 256"
  by (cases f) (auto simp: fmt_ok_def)

lemma be_val_int: "be_val (be_int n x) = nat (x mod 256 ^ n)"
proof -
  have "x mod 256 ^ n < 256 ^ n" by simp
  then have "nat (x mod 256 ^ n) < 256 ^ n" using nat_less_iff by fastforce
  then show ?thesis by (simp add: be_int_def be_val_be_bytes)
qed

text \<open>A signed number and its two's complement determine each other.\<close>

lemma signed_of_mod:
  fixes x :: int
  assumes "- (2 ^ k) \<le> x" and "x < 2 ^ k"
  shows "signed_take_bit k (x mod 2 ^ Suc k) = x"
proof -
  have "signed_take_bit k (x mod 2 ^ Suc k) = signed_take_bit k x"
    using signed_take_bit_take_bit [of k "Suc k" x] by (simp add: take_bit_eq_mod)
  then show ?thesis using assms by (simp add: signed_take_bit_int_eq_self)
qed

lemma mod_of_signed: "0 \<le> y \<Longrightarrow> y < 2 ^ Suc k \<Longrightarrow> signed_take_bit k y mod 2 ^ Suc k = (y :: int)"
  using take_bit_signed_take_bit [of "Suc k" k y] by (simp add: take_bit_eq_mod)

lemma signed_roundtrip:
  "s_fits 4 x \<Longrightarrow> to_s32 (int (be_val (be_int 4 x))) = x"
  "s_fits 8 x \<Longrightarrow> to_s64 (int (be_val (be_int 8 x))) = x"
  "s_fits 2 x \<Longrightarrow> to_s16 (int (be_val (be_int 2 x))) = x"
  using signed_of_mod [of 31 x] signed_of_mod [of 63 x] signed_of_mod [of 15 x]
  by (simp_all add: s_fits_def be_val_int to_s32_def to_s64_def to_s16_def)

lemma chunk_bound: "off + n \<le> length b \<Longrightarrow> be_val (chunk off n b) < 256 ^ n"
  using be_val_bound [of "chunk off n b"] by simp

lemma be_int_signed:
  assumes "off + 4 \<le> length b"
  shows "be_int 4 (to_s32 (int (be_val (chunk off 4 b)))) = chunk off 4 b"
  using mod_of_signed [of "int (be_val (chunk off 4 b))" 31] chunk_bound [OF assms]
    be_bytes_be_val [of "chunk off 4 b"] assms
  by (simp add: be_int_def to_s32_def)

lemma be_int_signed8:
  assumes "off + 8 \<le> length b"
  shows "be_int 8 (to_s64 (int (be_val (chunk off 8 b)))) = chunk off 8 b"
  using mod_of_signed [of "int (be_val (chunk off 8 b))" 63] chunk_bound [OF assms]
    be_bytes_be_val [of "chunk off 8 b"] assms
  by (simp add: be_int_def to_s64_def)

lemma be_int_signed2:
  assumes "off + 2 \<le> length b"
  shows "be_int 2 (to_s16 (int (be_val (chunk off 2 b)))) = chunk off 2 b"
  using mod_of_signed [of "int (be_val (chunk off 2 b))" 15] chunk_bound [OF assms]
    be_bytes_be_val [of "chunk off 2 b"] assms
  by (simp add: be_int_def to_s16_def)

lemma be_bytes_chunk: "off + n \<le> length b \<Longrightarrow> be_bytes n (be_val (chunk off n b)) = chunk off n b"
  using be_bytes_be_val [of "chunk off n b"] by simp

lemma chunk_join: "off' = off + n \<Longrightarrow> chunk off n b @ chunk off' m b = chunk off (n + m) b"
  by (simp add: chunk_def take_add add.commute [of off n])

lemma chunk_exact: "length xs = n \<Longrightarrow> chunk 0 n (xs @ ys) = xs"
  by (simp add: chunk_def)

lemma length_dinode_to_disk: "length (di_pad d) = 6 \<Longrightarrow> length (xfs_dinode_to_disk d) = 96"
  by (simp add: xfs_dinode_to_disk_def)

lemma dinode_from_to:
  assumes "icdinode_ok d"
  shows "xfs_dinode_from_disk (xfs_dinode_to_disk d @ rest) = Some d"
proof -
  have pad: "length (di_pad d) = 6" using assms by (simp add: icdinode_ok_def)
  have b: "be_val (be_bytes n v) = v" if "v < 256 ^ n" for n v
    using that by (simp add: be_val_be_bytes)
  show ?thesis
    using assms length_dinode_to_disk [OF pad]
    by (cases d; cases "di_atime d"; cases "di_mtime d"; cases "di_ctime d")
      (simp add: xfs_dinode_from_disk_def xfs_dinode_to_disk_def Let_def chunk_exact chunk_all icdinode_ok_def
        time_ok_def signed_roundtrip b fmt_inverse fmt_byte_less)
qed

lemma dinode_to_from:
  assumes "length b = 96"
  shows "\<exists>d. xfs_dinode_from_disk b = Some d \<and> xfs_dinode_to_disk d = b"
  using assms
  by (simp add: xfs_dinode_from_disk_def xfs_dinode_to_disk_def Let_def be_int_signed be_int_signed8
      be_int_signed2 be_bytes_chunk chunk_join chunk_all)

text \<open>
  C29: Writing an inode core and reading it back gives the same inode, whatever follows it on disk; reading
  96 bytes and writing them back gives the same bytes.
\<close>

theorem dinode_roundtrip:
  "(icdinode_ok d \<longrightarrow> xfs_dinode_from_disk (xfs_dinode_to_disk d @ rest) = Some d) \<and>
   (length b = 96 \<longrightarrow> (\<exists>e. xfs_dinode_from_disk b = Some e \<and> xfs_dinode_to_disk e = b))"
  using dinode_from_to dinode_to_from by blast

lemma sample_dinode_ok: "icdinode_ok (i_d (sample_inode 0x41ED FMT_LOCAL [1, 2, 3]))"
  by (simp add: icdinode_ok_def sample_inode_def Let_def time_ok_def s_fits_def fmt_ok_def)

theorem dinode_roundtrip_witness:
  "xfs_dinode_from_disk (xfs_dinode_to_disk (i_d (sample_inode 0x41ED FMT_LOCAL [1, 2, 3])) @ [7]) =
     Some (i_d (sample_inode 0x41ED FMT_LOCAL [1, 2, 3])) \<and>
   (\<exists>e. xfs_dinode_from_disk (replicate 96 5) = Some e \<and> xfs_dinode_to_disk e = replicate 96 5)"
  using dinode_roundtrip [of "i_d (sample_inode 0x41ED FMT_LOCAL [1, 2, 3])" "[7]" "replicate 96 5"]
    sample_dinode_ok by simp

end
