(* ===== verification/Inode_Format.thy ===== *)
theory Inode_Format
  imports Dinode Bmbt
begin

text \<open>
  Bringing the forks of an on-disk inode into the in-core inode (\<open>xfs_iformat\<close> and its helpers of
  libxfs/xfs_inode.c, with the fork macros of include/xfs_dinode.h and xfs_inode.h). The on-disk inode is
  given as the bytes from its start to the end of its buffer; every access is checked against them, and
  \<open>None\<close> is an access behind the buffer or an allocation that ends the program. Errors are positive.
\<close>

section \<open>The forks on disk\<close>

datatype fork = DATA_FORK | ATTR_FORK

text \<open>A raw field of the on-disk inode.\<close>

definition di_u :: "nat \<Rightarrow> nat \<Rightarrow> bytes \<Rightarrow> nat" where
  "di_u off n dip = be_val (chunk off n dip)"

definition XFS_DFORK_Q :: "bytes \<Rightarrow> bool" where
  "XFS_DFORK_Q dip \<longleftrightarrow> di_u 82 1 dip \<noteq> 0"

definition XFS_DFORK_BOFF :: "bytes \<Rightarrow> int" where
  "XFS_DFORK_BOFF dip = int (di_u 82 1 dip) * 8"

definition XFS_DFORK_DSIZE :: "xfs_mount \<Rightarrow> bytes \<Rightarrow> int" where
  "XFS_DFORK_DSIZE mp dip = (if XFS_DFORK_Q dip then XFS_DFORK_BOFF dip else XFS_LITINO mp (di_u 4 1 dip))"

definition XFS_DFORK_ASIZE :: "xfs_mount \<Rightarrow> bytes \<Rightarrow> int" where
  "XFS_DFORK_ASIZE mp dip =
     (if XFS_DFORK_Q dip then XFS_LITINO mp (di_u 4 1 dip) - XFS_DFORK_BOFF dip else 0)"

fun XFS_DFORK_SIZE :: "xfs_mount \<Rightarrow> bytes \<Rightarrow> fork \<Rightarrow> int" where
  "XFS_DFORK_SIZE mp dip DATA_FORK = XFS_DFORK_DSIZE mp dip"
| "XFS_DFORK_SIZE mp dip ATTR_FORK = XFS_DFORK_ASIZE mp dip"

text \<open>Pointers into the inode.\<close>

definition XFS_DFORK_DPTR :: "bytes \<Rightarrow> nat" where
  "XFS_DFORK_DPTR dip = xfs_dinode_size (di_u 4 1 dip)"

definition XFS_DFORK_APTR :: "bytes \<Rightarrow> nat" where
  "XFS_DFORK_APTR dip = XFS_DFORK_DPTR dip + nat (XFS_DFORK_BOFF dip)"

fun XFS_DFORK_PTR :: "bytes \<Rightarrow> fork \<Rightarrow> nat" where
  "XFS_DFORK_PTR dip DATA_FORK = XFS_DFORK_DPTR dip"
| "XFS_DFORK_PTR dip ATTR_FORK = XFS_DFORK_APTR dip"

fun XFS_DFORK_NEXTENTS :: "bytes \<Rightarrow> fork \<Rightarrow> nat" where
  "XFS_DFORK_NEXTENTS dip DATA_FORK = di_u 76 4 dip"
| "XFS_DFORK_NEXTENTS dip ATTR_FORK = di_u 80 2 dip"

fun XFS_IFORK_NEXTENTS :: "xfs_inode \<Rightarrow> fork \<Rightarrow> int" where
  "XFS_IFORK_NEXTENTS ip DATA_FORK = di_nextents (i_d ip)"
| "XFS_IFORK_NEXTENTS ip ATTR_FORK = di_anextents (i_d ip)"

definition XFS_IFORK_ASIZE :: "xfs_mount \<Rightarrow> xfs_inode \<Rightarrow> int" where
  "XFS_IFORK_ASIZE mp ip = (if di_forkoff (i_d ip) \<noteq> 0
     then XFS_LITINO mp (di_version (i_d ip)) - int (di_forkoff (i_d ip)) * 8 else 0)"

text \<open>\<open>if_ext_max\<close> is an unsigned character.\<close>

definition ext_max :: "int \<Rightarrow> nat" where
  "ext_max forksize = nat (to_u32 forksize div 16) mod 256"

section \<open>The three formats\<close>

definition xfs_iformat_local ::
    "(nat \<Rightarrow> bytes) \<Rightarrow> xfs_mount \<Rightarrow> bytes \<Rightarrow> fork \<Rightarrow> int \<Rightarrow> xfs_ifork \<Rightarrow> (int \<times> xfs_ifork) option" where
  "xfs_iformat_local junk mp dip w sz ifp =
    (if sz > XFS_DFORK_SIZE mp dip w then Some (errno_code EFSCORRUPTED, ifp)
     else if sz < 0 then None
     else let real_size = (if sz \<le> 32 then 0 else (sz + 3) div 4 * 4);
        ifp = ifp \<lparr> if_data_ptr := (if sz = 0 then DNull else if sz \<le> 32 then DInline
              else DHeap (junk (nat real_size))),
            if_bytes := sz, if_real_bytes := real_size \<rparr> in
      do {
        ifp \<leftarrow> (if sz = 0 then Some ifp else do {
          src \<leftarrow> rd_bytes (XFS_DFORK_PTR dip w) (nat sz) dip;
          d \<leftarrow> wr_bytes 0 src (if_data ifp);
          Some (set_if_data d ifp) });
        Some (0, ifp \<lparr> if_extents_read := False, if_inline := True \<rparr>) })"

text \<open>Reading \<open>n\<close> extent records from a position on.\<close>

fun rd_recs :: "nat \<Rightarrow> nat \<Rightarrow> bytes \<Rightarrow> bmbt_rec list option" where
  "rd_recs 0 p d = Some []"
| "rd_recs (Suc n) p d = do {
     a \<leftarrow> rd_be64 p d;
     b \<leftarrow> rd_be64 (p + 8) d;
     rs \<leftarrow> rd_recs n (p + 16) d;
     Some (\<lparr> l0 = word_of_nat a, l1 = word_of_nat b \<rparr> # rs) }"

text \<open>
  The size is an \<open>int\<close> again after a product of unsigned numbers; when it is zero although \<open>nex\<close> is not, the
  list has room for \<open>nex\<close> records that nothing fills.
\<close>

definition xfs_iformat_extents ::
    "xfs_mount \<Rightarrow> bytes \<Rightarrow> fork \<Rightarrow> xfs_ifork \<Rightarrow> (int \<times> xfs_ifork) option" where
  "xfs_iformat_extents mp dip w ifp =
    (let nex = to_s32 (int (XFS_DFORK_NEXTENTS dip w)); sz = to_s32 (to_u32 (nex * 16)) in
     if sz < 0 \<or> sz > XFS_DFORK_SIZE mp dip w then Some (errno_code EFSCORRUPTED, ifp)
     else do {
       recs \<leftarrow> (if sz = 0 then Some (replicate (nat nex) \<lparr> l0 = 0, l1 = 0 \<rparr>)
                else rd_recs (nat nex) (XFS_DFORK_PTR dip w) dip);
       let ifp = ifp \<lparr> if_real_bytes := 0, if_bytes := sz, if_extents := recs \<rparr>;
       bad \<leftarrow> (if sz \<noteq> 0 \<and> (w \<noteq> DATA_FORK \<or> \<not> xfs_sb_version_hasextflgbit (m_sb mp))
               then xfs_check_nostate_extents recs 0 (nat nex) else Some 0);
       if bad \<noteq> 0 then Some (errno_code EFSCORRUPTED, ifp)
       else Some (0, ifp \<lparr> if_extents_read := True \<rparr>) })"

text \<open>
  The root of a B-tree: level, number of records, keys, and pointers behind the room for all keys that fit
  the fork; in core the header of a full block comes first and there is no unused room.
\<close>

definition XFS_BMAP_MAGIC :: nat where "XFS_BMAP_MAGIC = 0x424d4150"

definition xfs_bmdr_maxrecs :: "int \<Rightarrow> bool \<Rightarrow> int" where
  "xfs_bmdr_maxrecs blocklen leaf = to_s32 (to_u64 (blocklen - 4) div 16)"

definition xfs_bmdr_to_bmbt :: "nat \<Rightarrow> int \<Rightarrow> bytes \<Rightarrow> bytes option" where
  "xfs_bmdr_to_bmbt p dblocklen dip = do {
     level \<leftarrow> rd_bytes p 2 dip;
     numrecs \<leftarrow> rd_be16 (p + 2) dip;
     keys \<leftarrow> rd_bytes (p + 4) (numrecs * 8) dip;
     ptrs \<leftarrow> rd_bytes (p + 4 + nat (xfs_bmdr_maxrecs dblocklen False) * 8) (numrecs * 8) dip;
     Some (be_bytes 4 XFS_BMAP_MAGIC @ level @ be_bytes 2 numrecs @ replicate 16 (- 1) @ keys @ ptrs) }"

definition xfs_iformat_btree ::
    "xfs_mount \<Rightarrow> bytes \<Rightarrow> fork \<Rightarrow> xfs_inode \<Rightarrow> xfs_ifork \<Rightarrow> (int \<times> xfs_ifork) option" where
  "xfs_iformat_btree mp dip w ip ifp =
    (let p = XFS_DFORK_PTR dip w; n = XFS_IFORK_NEXTENTS ip w in do {
     nrecs \<leftarrow> rd_be16 (p + 2) dip;
     if n \<le> int (if_ext_max ifp) \<or> XFS_BMDR_SPACE_CALC (int nrecs) > XFS_DFORK_SIZE mp dip w \<or>
        to_u64 n > int (di_nblocks (i_d ip))
     then Some (errno_code EFSCORRUPTED, ifp)
     else do {
       broot \<leftarrow> xfs_bmdr_to_bmbt p (XFS_DFORK_SIZE mp dip w) dip;
       Some (0, ifp \<lparr> if_broot_bytes := 24 + int nrecs * 16, if_broot := Some broot,
         if_extents_read := False, if_has_broot := True \<rparr>) } })"

section \<open>Freeing a fork\<close>

definition xfs_iext_destroy :: "xfs_ifork \<Rightarrow> xfs_ifork" where
  "xfs_iext_destroy ifp = ifp \<lparr> if_extents := [], if_real_bytes := 0, if_bytes := 0 \<rparr>"

text \<open>\<open>xfs_idestroy_fork\<close> on the data fork; a list of at most two extents is kept in the fork and stays.\<close>

definition xfs_idestroy_data :: "xfs_inode \<Rightarrow> xfs_inode" where
  "xfs_idestroy_data ip =
    (let ifp = (i_df ip) \<lparr> if_broot := None \<rparr> in
     ip \<lparr> i_df :=
       (if di_format (i_d ip) = FMT_LOCAL
        then (case if_data_ptr ifp of
            DHeap h \<Rightarrow> ifp \<lparr> if_data_ptr := DNull, if_real_bytes := 0 \<rparr>
          | _ \<Rightarrow> ifp)
        else if if_extents_read ifp \<and> 2 < length (if_extents ifp) then xfs_iext_destroy ifp
        else ifp) \<rparr>)"

section \<open>\<open>xfs_iformat\<close>\<close>

definition zero_fork :: xfs_ifork where
  "zero_fork = \<lparr> if_bytes = 0, if_real_bytes = 0, if_broot = None, if_broot_bytes = 0,
     if_extents_read = False, if_inline = False, if_has_broot = False, if_ext_max = 0,
     if_data_ptr = DNull, if_inline_data = replicate 32 0, if_extents = [], if_rdev = 0 \<rparr>"

text \<open>The fork of an inode, in the format \<open>fmt\<close>; \<open>sz\<close> is the size of inline data.\<close>

definition iformat_fork ::
    "(nat \<Rightarrow> bytes) \<Rightarrow> xfs_mount \<Rightarrow> bytes \<Rightarrow> fork \<Rightarrow> dinode_fmt \<Rightarrow> int \<Rightarrow> xfs_inode \<Rightarrow> xfs_ifork \<Rightarrow>
      (int \<times> xfs_ifork) option" where
  "iformat_fork junk mp dip w fmt sz ip ifp = (case fmt of
     FMT_LOCAL \<Rightarrow> xfs_iformat_local junk mp dip w sz ifp
   | FMT_EXTENTS \<Rightarrow> xfs_iformat_extents mp dip w ifp
   | FMT_BTREE \<Rightarrow> xfs_iformat_btree mp dip w ip ifp
   | _ \<Rightarrow> Some (errno_code EFSCORRUPTED, ifp))"

text \<open>The data fork, by the type of the file.\<close>

definition iformat_data ::
    "(nat \<Rightarrow> bytes) \<Rightarrow> xfs_mount \<Rightarrow> xfs_inode \<Rightarrow> bytes \<Rightarrow> (int \<times> xfs_inode) option" where
  "iformat_data junk mp ip dip =
    (let typ = di_mode (i_d ip) AND S_IFMT; fmt = fmt_of (di_u 5 1 dip); di_size = to_s64 (int (di_u 56 8 dip)) in
     if typ \<in> {0x1000, 0x2000, 0x6000, 0xC000} then
       if fmt \<noteq> FMT_DEV then Some (errno_code EFSCORRUPTED, ip)
       else do {
         rdev \<leftarrow> rd_be32 (XFS_DFORK_DPTR dip) dip;
         Some (0, ip \<lparr> i_d := (i_d ip) \<lparr> di_size := 0 \<rparr>, i_size := 0,
           i_df := (i_df ip) \<lparr> if_rdev := rdev \<rparr> \<rparr>) }
     else if typ \<in> {S_IFREG, S_IFLNK, S_IFDIR} then
       if fmt = FMT_LOCAL \<and> (di_u 2 2 dip AND S_IFMT = S_IFREG \<or> di_size > XFS_DFORK_DSIZE mp dip)
       then Some (errno_code EFSCORRUPTED, ip)
       else do {
         (error, ifp) \<leftarrow> iformat_fork junk mp dip DATA_FORK fmt (to_s32 di_size) ip (i_df ip);
         Some (error, ip \<lparr> i_df := ifp \<rparr>) }
     else Some (errno_code EFSCORRUPTED, ip))"

text \<open>The attribute fork; when it is bad both forks are given up.\<close>

definition iformat_attr ::
    "(nat \<Rightarrow> bytes) \<Rightarrow> xfs_mount \<Rightarrow> xfs_inode \<Rightarrow> bytes \<Rightarrow> (int \<times> xfs_inode) option" where
  "iformat_attr junk mp ip dip =
    (let fmt = fmt_of (di_u 83 1 dip);
       afp = zero_fork \<lparr> if_ext_max := ext_max (XFS_IFORK_ASIZE mp ip) \<rparr> in do {
     sz \<leftarrow> (if fmt = FMT_LOCAL then rd_be16 (XFS_DFORK_APTR dip) dip else Some 0);
     (error, afp) \<leftarrow> iformat_fork junk mp dip ATTR_FORK fmt (int sz) ip afp;
     Some (error, if error = 0 then ip \<lparr> i_afp := Some afp \<rparr>
       else xfs_idestroy_data (ip \<lparr> i_afp := None \<rparr>)) })"

definition xfs_iformat ::
    "(nat \<Rightarrow> bytes) \<Rightarrow> xfs_mount \<Rightarrow> xfs_inode \<Rightarrow> bytes \<Rightarrow> (int \<times> xfs_inode) option" where
  "xfs_iformat junk mp ip dip =
    (let ip = ip \<lparr> i_df := (i_df ip) \<lparr> if_ext_max := ext_max (XFS_IFORK_DSIZE mp ip) \<rparr> \<rparr> in
     if to_u32 (int (di_u 76 4 dip + di_u 80 2 dip)) > int (di_u 64 8 dip)
       then Some (errno_code EFSCORRUPTED, ip)
     else if di_u 82 1 dip > sb_inodesize (m_sb mp) then Some (errno_code EFSCORRUPTED, ip)
     else do {
       (error, ip) \<leftarrow> iformat_data junk mp ip dip;
       if error \<noteq> 0 then Some (error, ip)
       else if \<not> XFS_DFORK_Q dip then Some (0, ip)
       else iformat_attr junk mp ip dip })"

section \<open>What formatting an inode gives\<close>

text \<open>An inode on disk: core, the rest of the header, and the area of the forks with what follows it.\<close>

definition disk_inode :: "xfs_icdinode \<Rightarrow> bytes \<Rightarrow> bytes \<Rightarrow> bytes" where
  "disk_inode d ext body = xfs_dinode_to_disk d @ ext @ body"

text \<open>An inode without attribute fork whose header is well-formed; the largest inode has 2048 bytes.\<close>

definition disk_inode_ok :: "xfs_mount \<Rightarrow> xfs_icdinode \<Rightarrow> bytes \<Rightarrow> bool" where
  "disk_inode_ok mp d ext \<longleftrightarrow> icdinode_ok d \<and> length ext = xfs_dinode_size (di_version d) - 96 \<and>
     sb_inodesize (m_sb mp) \<le> 2048 \<and> di_forkoff d = 0 \<and>
     0 \<le> di_nextents d \<and> 0 \<le> di_anextents d \<and> di_nextents d + di_anextents d \<le> int (di_nblocks d)"

lemma disk_inode_field:
  assumes "icdinode_ok d"
  shows "di_u 2 2 (disk_inode d ext body) = di_mode d"
    and "di_u 4 1 (disk_inode d ext body) = di_version d"
    and "di_u 5 1 (disk_inode d ext body) = fmt_byte (di_format d)"
    and "int (di_u 56 8 (disk_inode d ext body)) = di_size d mod 2 ^ 64"
    and "di_u 64 8 (disk_inode d ext body) = di_nblocks d"
    and "int (di_u 76 4 (disk_inode d ext body)) = di_nextents d mod 2 ^ 32"
    and "int (di_u 80 2 (disk_inode d ext body)) = di_anextents d mod 2 ^ 16"
    and "di_u 82 1 (disk_inode d ext body) = di_forkoff d"
    and "di_u 83 1 (disk_inode d ext body) = fmt_byte (di_aformat d)"
proof -
  have pad: "length (di_pad d) = 6" using assms by (simp add: icdinode_ok_def)
  have b: "be_val (be_bytes n v) = v" if "v < 256 ^ n" for n v
    using that by (simp add: be_val_be_bytes)
  note defs = di_u_def disk_inode_def xfs_dinode_to_disk_def chunk_exact chunk_all be_val_int b pad
    fmt_byte_less
  show "di_u 2 2 (disk_inode d ext body) = di_mode d"
    "di_u 4 1 (disk_inode d ext body) = di_version d"
    "di_u 5 1 (disk_inode d ext body) = fmt_byte (di_format d)"
    "int (di_u 56 8 (disk_inode d ext body)) = di_size d mod 2 ^ 64"
    "di_u 64 8 (disk_inode d ext body) = di_nblocks d"
    "int (di_u 76 4 (disk_inode d ext body)) = di_nextents d mod 2 ^ 32"
    "int (di_u 80 2 (disk_inode d ext body)) = di_anextents d mod 2 ^ 16"
    "di_u 82 1 (disk_inode d ext body) = di_forkoff d"
    "di_u 83 1 (disk_inode d ext body) = fmt_byte (di_aformat d)"
    using assms by (simp_all add: defs icdinode_ok_def)
qed

lemma disk_inode_facts:
  fixes d ext body
  assumes ok: "disk_inode_ok mp d ext"
  defines "dip \<equiv> disk_inode d ext body"
  shows "XFS_DFORK_DSIZE mp dip = XFS_LITINO mp (di_version d)" and "\<not> XFS_DFORK_Q dip"
    and "XFS_DFORK_DPTR dip = xfs_dinode_size (di_version d)"
    and "int (di_u 76 4 dip) = di_nextents d" and "int (di_u 80 2 dip) = di_anextents d"
    and "\<not> to_u32 (int (di_u 76 4 dip + di_u 80 2 dip)) > int (di_u 64 8 dip)"
    and "\<not> di_u 82 1 dip > sb_inodesize (m_sb mp)"
    and "fmt_of (di_u 5 1 dip) = di_format d" and "to_s64 (int (di_u 56 8 dip)) = di_size d"
    and "di_u 2 2 dip = di_mode d"
proof -
  have i: "icdinode_ok d" and f: "di_forkoff d = 0"
    and n: "0 \<le> di_nextents d" "0 \<le> di_anextents d" "di_nextents d + di_anextents d \<le> int (di_nblocks d)"
    using ok by (auto simp: disk_inode_ok_def)
  note field = disk_inode_field [OF i, of ext body, folded dip_def]
  have b: "di_nextents d < 2 ^ 31" "di_anextents d < 2 ^ 15"
    using i by (simp_all add: icdinode_ok_def s_fits_def)
  show q: "\<not> XFS_DFORK_Q dip" using field(8) f by (simp add: XFS_DFORK_Q_def)
  then show "XFS_DFORK_DSIZE mp dip = XFS_LITINO mp (di_version d)"
    using field(2) by (simp add: XFS_DFORK_DSIZE_def)
  show "XFS_DFORK_DPTR dip = xfs_dinode_size (di_version d)" using field(2) by (simp add: XFS_DFORK_DPTR_def)
  show n1: "int (di_u 76 4 dip) = di_nextents d" using field(6) n b by simp
  show n2: "int (di_u 80 2 dip) = di_anextents d" using field(7) n b by simp
  show "\<not> to_u32 (int (di_u 76 4 dip + di_u 80 2 dip)) > int (di_u 64 8 dip)"
    using n1 n2 n b field(5) by simp
  show "\<not> di_u 82 1 dip > sb_inodesize (m_sb mp)" using field(8) f by simp
  show "fmt_of (di_u 5 1 dip) = di_format d" using field(3) i by (simp add: fmt_inverse icdinode_ok_def)
  show "to_s64 (int (di_u 56 8 dip)) = di_size d"
    using field(4) i signed_of_mod [of 63 "di_size d"] by (simp add: to_s64_def icdinode_ok_def s_fits_def)
  show "di_u 2 2 dip = di_mode d" by (rule field(1))
qed

lemma disk_inode_sizes:
  assumes "disk_inode_ok mp d ext"
  shows "XFS_LITINO mp (di_version d) < 2 ^ 31"
    and "length (xfs_dinode_to_disk d @ ext) = xfs_dinode_size (di_version d)"
  using assms length_dinode_to_disk [of d]
  by (auto simp: disk_inode_ok_def XFS_LITINO_def icdinode_ok_def xfs_dinode_size_def)

text \<open>Inline data: the fork holds the bytes.\<close>

lemma iformat_local_ok:
  assumes dip: "dip = pre @ data @ post" and p: "length pre = XFS_DFORK_PTR dip w"
    and fits: "int (length data) \<le> XFS_DFORK_SIZE mp dip w" and j: "junk_ok junk"
    and inl: "length (if_inline_data ifp) = 32"
  shows "\<exists>f. xfs_iformat_local junk mp dip w (int (length data)) ifp = Some (0, f) \<and> ifork_ok f \<and>
    if_bytes f = int (length data) \<and> take (length data) (if_data f) = data \<and> \<not> if_extents_read f \<and> if_inline f"
proof (cases "data = []")
  case True
  then show ?thesis using fits inl by (simp add: xfs_iformat_local_def ifork_ok_def if_data_def)
next
  case ne: False
  let ?n = "length data"
  have src: "rd_bytes (XFS_DFORK_PTR dip w) ?n dip = Some data" by (rule rd_bytes_at [OF dip p refl])
  show ?thesis
  proof (cases "?n \<le> 32")
    case True
    then show ?thesis
      using ne fits inl src by (simp add: xfs_iformat_local_def ifork_ok_def if_data_def wr_bytes_def set_if_data_def)
  next
    case False
    let ?r = "(int ?n + 3) div 4 * 4"
    have r: "int ?n \<le> ?r" by presburger
    then have r': "?n \<le> nat ?r" by simp
    show ?thesis
      using False ne fits inl src r r' j
      by (simp add: xfs_iformat_local_def Let_def ifork_ok_def if_data_def wr_bytes_def set_if_data_def)
  qed
qed

text \<open>Extent records on disk.\<close>

definition rec_bytes :: "bmbt_rec \<Rightarrow> bytes" where
  "rec_bytes r = be_bytes 8 (unat (l0 r)) @ be_bytes 8 (unat (l1 r))"

lemma length_rec_bytes [simp]: "length (rec_bytes r) = 16"
  by (simp add: rec_bytes_def)

lemma length_recs: "length (concat (map rec_bytes rs)) = 16 * length rs"
  by (induction rs) auto

lemma rd_recs_ok:
  "d = pre @ concat (map rec_bytes rs) @ post \<Longrightarrow> length pre = p \<Longrightarrow> rd_recs (length rs) p d = Some rs"
proof (induction rs arbitrary: p pre)
  case Nil
  then show ?case by simp
next
  case (Cons r rs)
  have u: "unat w < 256 ^ 8" for w :: u64 using unsigned_less [of w] by simp
  have a: "rd_be64 p d = Some (unat (l0 r))"
    by (rule rd_be_at [where pre = pre and post = "be_bytes 8 (unat (l1 r)) @ concat (map rec_bytes rs) @ post"])
      (use Cons.prems u in \<open>simp_all add: rec_bytes_def [of r]\<close>)
  have b: "rd_be64 (p + 8) d = Some (unat (l1 r))"
    by (rule rd_be_at [where pre = "pre @ be_bytes 8 (unat (l0 r))" and post = "concat (map rec_bytes rs) @ post"])
      (use Cons.prems u in \<open>simp_all add: rec_bytes_def [of r]\<close>)
  have "rd_recs (length rs) (p + 16) d = Some rs"
    by (rule Cons.IH [where pre = "pre @ rec_bytes r"]) (use Cons.prems in simp_all)
  then show ?case using a b by simp
qed

text \<open>The records may be used: the file system knows unwritten extents, or no record is marked so.\<close>

definition flags_ok :: "xfs_mount \<Rightarrow> bmbt_rec list \<Rightarrow> bool" where
  "flags_ok mp rs \<longleftrightarrow> xfs_sb_version_hasextflgbit (m_sb mp) \<or> (\<forall>r\<in>set rs. drop_bit 63 (l0 r) = 0)"

lemma check_nostate_ok:
  "(\<forall>r\<in>set rs. drop_bit 63 (l0 r) = 0) \<Longrightarrow> idx + n \<le> length rs \<Longrightarrow> xfs_check_nostate_extents rs idx n = Some 0"
  by (induction n arbitrary: idx) (auto simp: BMBT_EXNTFLAG_BITLEN_def)

lemma iformat_extents_ok:
  assumes dip: "dip = pre @ concat (map rec_bytes rs) @ post" and p: "length pre = XFS_DFORK_DPTR dip"
    and n: "XFS_DFORK_NEXTENTS dip DATA_FORK = length rs" and fits: "16 * int (length rs) \<le> XFS_DFORK_DSIZE mp dip"
    and z: "XFS_DFORK_DSIZE mp dip < 2 ^ 31" and fl: "flags_ok mp rs"
  shows "xfs_iformat_extents mp dip DATA_FORK ifp =
    Some (0, ifp \<lparr> if_real_bytes := 0, if_bytes := 16 * int (length rs), if_extents := rs, if_extents_read := True \<rparr>)"
proof -
  let ?n = "int (length rs)"
  have b: "?n < 2 ^ 27" using fits z by simp
  then have nex: "to_s32 (int (XFS_DFORK_NEXTENTS dip DATA_FORK)) = ?n"
    and sz: "to_s32 (to_u32 (?n * 16)) = 16 * ?n" using n by simp_all
  have rd: "rd_recs (length rs) (XFS_DFORK_DPTR dip) dip = Some rs" by (rule rd_recs_ok [OF dip p])
  have chk: "xfs_check_nostate_extents rs 0 (length rs) = Some 0"
    if "\<not> xfs_sb_version_hasextflgbit (m_sb mp)"
    using check_nostate_ok [of rs 0 "length rs"] fl that by (simp add: flags_ok_def)
  show ?thesis
    unfolding xfs_iformat_extents_def nex Let_def sz using fits rd chk by (cases "rs = []") auto
qed

section \<open>Whole inodes\<close>

text \<open>
  The forks this development states the result for: inline data of a directory or link, and extents.
\<close>

datatype body = Inline bytes | Extents "bmbt_rec list"

fun body_bytes :: "body \<Rightarrow> bytes" where
  "body_bytes (Inline data) = data"
| "body_bytes (Extents rs) = concat (map rec_bytes rs)"

fun body_ok :: "xfs_mount \<Rightarrow> xfs_icdinode \<Rightarrow> body \<Rightarrow> bool" where
  "body_ok mp d (Inline data) \<longleftrightarrow> di_format d = FMT_LOCAL \<and> di_size d = int (length data) \<and>
     di_mode d AND S_IFMT \<in> {S_IFDIR, S_IFLNK}"
| "body_ok mp d (Extents rs) \<longleftrightarrow> di_format d = FMT_EXTENTS \<and> di_nextents d = int (length rs) \<and>
     di_mode d AND S_IFMT \<in> {S_IFDIR, S_IFLNK, S_IFREG} \<and> flags_ok mp rs"

fun fork_holds :: "xfs_ifork \<Rightarrow> body \<Rightarrow> bool" where
  "fork_holds f (Inline data) \<longleftrightarrow> ifork_ok f \<and> if_bytes f = int (length data) \<and>
     take (length data) (if_data f) = data"
| "fork_holds f (Extents rs) \<longleftrightarrow> if_extents f = rs \<and> if_extents_read f"

lemma file_types:
  "S_IFDIR \<noteq> S_IFREG" "S_IFLNK \<noteq> S_IFREG" "S_IFREG \<notin> {0x1000, 0x2000, 0x6000, 0xC000}"
  "S_IFDIR \<notin> {0x1000, 0x2000, 0x6000, 0xC000}" "S_IFLNK \<notin> {0x1000, 0x2000, 0x6000, 0xC000}"
  by (simp_all add: S_IFDIR_def S_IFREG_def S_IFLNK_def)

lemma iformat_data_ok:
  assumes ok: "disk_inode_ok mp d ext" and b: "body_ok mp d b" and ip: "i_d ip = d"
    and fits: "int (length (body_bytes b)) \<le> XFS_LITINO mp (di_version d)"
    and inl: "length (if_inline_data (i_df ip)) = 32" and j: "junk_ok junk"
  shows "\<exists>f. iformat_data junk mp ip (disk_inode d ext (body_bytes b @ tail)) = Some (0, ip \<lparr> i_df := f \<rparr>) \<and>
    fork_holds f b"
proof -
  let ?dip = "disk_inode d ext (body_bytes b @ tail)" and ?pre = "xfs_dinode_to_disk d @ ext"
  note facts = disk_inode_facts [OF ok, of "body_bytes b @ tail"] and sizes = disk_inode_sizes [OF ok]
  have dip: "?dip = ?pre @ body_bytes b @ tail" by (simp add: disk_inode_def)
  have pre: "length ?pre = XFS_DFORK_DPTR ?dip" using facts(3) sizes(2) by simp
  let ?ty = "di_mode d AND S_IFMT"
  have ty: "?ty \<notin> {0x1000, 0x2000, 0x6000, 0xC000}" "?ty \<in> {S_IFREG, S_IFLNK, S_IFDIR}"
    using b file_types by (cases b; auto)+
  show ?thesis
  proof (cases b)
    case (Inline data)
    have fmt: "di_format d = FMT_LOCAL" and sz: "di_size d = int (length data)" and m: "?ty \<noteq> S_IFREG"
      using b Inline file_types by auto
    have l: "int (length data) \<le> XFS_DFORK_SIZE mp ?dip DATA_FORK" using fits Inline facts(1) by simp
    have s32: "to_s32 (di_size d) = int (length data)" using l sz facts(1) sizes(1) by simp
    obtain f where f: "xfs_iformat_local junk mp ?dip DATA_FORK (int (length data)) (i_df ip) = Some (0, f)"
      "fork_holds f b"
      using iformat_local_ok [of ?dip ?pre data tail DATA_FORK mp junk "i_df ip"] dip pre l j inl Inline by auto
    have "iformat_data junk mp ip ?dip = Some (0, ip \<lparr> i_df := f \<rparr>)"
      unfolding iformat_data_def Let_def ip facts(8,9,10) if_not_P [OF ty(1)] if_P [OF ty(2)]
      using fmt m f(1) sz l s32 by (simp add: iformat_fork_def)
    then show ?thesis using f(2) by blast
  next
    case (Extents rs)
    have fmt: "di_format d = FMT_EXTENTS" and n: "di_nextents d = int (length rs)" and fl: "flags_ok mp rs"
      using b Extents by auto
    have e: "XFS_DFORK_NEXTENTS ?dip DATA_FORK = length rs" using facts(4) n by simp
    have "iformat_data junk mp ip ?dip = Some (0, ip \<lparr> i_df := (i_df ip) \<lparr> if_real_bytes := 0,
        if_bytes := 16 * int (length rs), if_extents := rs, if_extents_read := True \<rparr> \<rparr>)"
      unfolding iformat_data_def Let_def ip facts(8,9,10) if_not_P [OF ty(1)] if_P [OF ty(2)]
      using iformat_extents_ok [of ?dip ?pre rs tail mp "i_df ip"] dip pre e fits facts(1) sizes(1) fl fmt Extents
      by (simp add: iformat_fork_def length_recs)
    then show ?thesis using Extents by auto
  qed
qed

lemma iformat_ok:
  assumes "disk_inode_ok mp d ext" and "body_ok mp d b"
    and "int (length (body_bytes b)) \<le> XFS_LITINO mp (di_version d)"
    and "i_d ip = d" and "length (if_inline_data (i_df ip)) = 32" and "junk_ok junk"
  shows "\<exists>f. xfs_iformat junk mp ip (disk_inode d ext (body_bytes b @ tail)) = Some (0, ip \<lparr> i_df := f \<rparr>) \<and>
    fork_holds f b"
proof -
  let ?ip = "ip \<lparr> i_df := (i_df ip) \<lparr> if_ext_max := ext_max (XFS_IFORK_DSIZE mp ip) \<rparr> \<rparr>"
  note facts = disk_inode_facts [OF assms(1), of "body_bytes b @ tail"]
  obtain f where "iformat_data junk mp ?ip (disk_inode d ext (body_bytes b @ tail)) = Some (0, ?ip \<lparr> i_df := f \<rparr>)"
    "fork_holds f b"
    using iformat_data_ok [OF assms(1,2), of ?ip junk tail] assms(3-6) by auto
  then show ?thesis
    unfolding xfs_iformat_def Let_def if_not_P [OF facts(6)] if_not_P [OF facts(7)] using facts(2) by auto
qed

text \<open>
  C22: A well-formed inode without attribute fork is accepted: the fork of the in-core inode then holds the
  inline data of the directory or link, or the extent records of the file, as they are on disk.
\<close>

theorem iformat_correct:
  assumes "disk_inode_ok mp d ext" and "body_ok mp d b"
    and "int (length (body_bytes b)) \<le> XFS_LITINO mp (di_version d)"
    and "i_d ip = d" and "length (if_inline_data (i_df ip)) = 32" and "junk_ok junk"
  shows "\<exists>f. xfs_iformat junk mp ip (disk_inode d ext (body_bytes b @ tail)) = Some (0, ip \<lparr> i_df := f \<rparr>) \<and>
    fork_holds f b"
  by (rule iformat_ok [OF assms])

text \<open>A directory with six bytes inline.\<close>

definition sample_raw :: xfs_inode where
  "sample_raw = (sample_inode 0x41ED FMT_LOCAL [0, 0, 0, 0, 0, 128]) \<lparr> i_df := zero_fork \<rparr>"

lemma sample_raw_ok:
  "disk_inode_ok sample_mp (i_d sample_raw) (replicate 4 0)"
  "body_ok sample_mp (i_d sample_raw) (Inline [0, 0, 0, 0, 0, 128])"
  "length (if_inline_data (i_df sample_raw)) = 32" "di_version (i_d sample_raw) = 2"
  "junk_ok (\<lambda>n. replicate n 7)"
  by (simp_all add: disk_inode_ok_def icdinode_ok_def sample_raw_def sample_inode_def Let_def time_ok_def
      s_fits_def fmt_ok_def xfs_dinode_size_def zero_fork_def S_IFDIR_def S_IFMT_def junk_ok_def)

theorem iformat_correct_witness:
  "\<exists>f. xfs_iformat (\<lambda>n. replicate n 7) sample_mp sample_raw
      (disk_inode (i_d sample_raw) (replicate 4 0) (body_bytes (Inline [0, 0, 0, 0, 0, 128]) @ [9])) =
    Some (0, sample_raw \<lparr> i_df := f \<rparr>) \<and> fork_holds f (Inline [0, 0, 0, 0, 0, 128])"
  by (rule iformat_correct [OF sample_raw_ok(1,2) _ refl sample_raw_ok(3,5)]) (simp add: sample_raw_ok(4))

section \<open>What an accepted inode satisfies\<close>

lemma corrupted_code [simp]: "errno_code EFSCORRUPTED = 990"
  by (simp add: EFSCORRUPTED_def)

lemma iformat_local_accepted:
  assumes "xfs_iformat_local junk mp dip w sz ifp = Some (0, f)"
    and inl: "length (if_inline_data ifp) = 32" and j: "junk_ok junk"
  shows "ifork_ok f \<and> if_bytes f = sz \<and> sz \<le> XFS_DFORK_SIZE mp dip w"
proof -
  have sz: "0 \<le> sz" "sz \<le> XFS_DFORK_SIZE mp dip w"
    using assms(1) by (auto simp: xfs_iformat_local_def split: if_splits)
  show ?thesis
  proof (cases "sz = 0")
    case True
    then show ?thesis using assms sz by (auto simp: xfs_iformat_local_def ifork_ok_def if_data_def split: if_splits)
  next
    case False
    then obtain src where src: "rd_bytes (XFS_DFORK_PTR dip w) (nat sz) dip = Some src"
      using assms(1) sz by (cases "rd_bytes (XFS_DFORK_PTR dip w) (nat sz) dip") (auto simp: xfs_iformat_local_def Let_def)
    then have l: "length src = nat sz" by (auto simp: rd_bytes_def split: if_splits)
    have "XFS_DFORK_PTR dip w + nat sz \<le> length dip" using src by (auto simp: rd_bytes_def split: if_splits)
    then have dip: "dip = take (XFS_DFORK_PTR dip w) dip @ src @ drop (XFS_DFORK_PTR dip w + nat sz) dip"
      and p: "length (take (XFS_DFORK_PTR dip w) dip) = XFS_DFORK_PTR dip w"
      using src by (auto simp: rd_bytes_def chunk_def)
        (metis append_take_drop_id drop_drop add.commute)
    have "int (length src) = sz" using l sz by simp
    then show ?thesis using iformat_local_ok [OF dip p _ j inl] assms(1) sz by force
  qed
qed

lemma iformat_attr_accepted:
  assumes "iformat_attr junk mp ip dip = Some (0, ip')"
  shows "0 \<le> XFS_DFORK_ASIZE mp dip \<and> i_df ip' = i_df ip"
proof -
  let ?afp = "zero_fork \<lparr> if_ext_max := ext_max (XFS_IFORK_ASIZE mp ip) \<rparr>" and ?fmt = "fmt_of (di_u 83 1 dip)"
  obtain sz r where r: "iformat_fork junk mp dip ATTR_FORK ?fmt (int sz) ip ?afp = Some r"
    and ret: "(case r of (error, afp) \<Rightarrow> Some (error, if error = 0 then ip \<lparr> i_afp := Some afp \<rparr>
       else xfs_idestroy_data (ip \<lparr> i_afp := None \<rparr>))) = Some (0, ip')"
    using assms unfolding iformat_attr_def Let_def bind_eq_Some_conv by blast
  obtain afp where "iformat_fork junk mp dip ATTR_FORK ?fmt (int sz) ip ?afp = Some (0, afp)"
    and ip': "ip' = ip \<lparr> i_afp := Some afp \<rparr>"
    using r ret by (cases r) auto
  then have "0 \<le> XFS_DFORK_ASIZE mp dip"
    by (auto simp: iformat_fork_def xfs_iformat_local_def xfs_iformat_extents_def xfs_iformat_btree_def
        XFS_BMDR_SPACE_CALC_def Let_def split: dinode_fmt.splits Option.bind_splits if_splits)
  then show ?thesis using ip' by simp
qed

lemma no_error:
  "(if b then Some (e, x) else if c then Some (e, x) else m) = Some (0 :: int, y) \<Longrightarrow> e \<noteq> 0 \<Longrightarrow> m = Some (0, y)"
  by (simp split: if_split_asm)

text \<open>
  C23: Whatever bytes are on disk, an inode is accepted only when its attribute fork starts inside the inode,
  and an accepted directory or link with inline data has a consistent fork no larger than its area on disk.
  The check of \<open>di_forkoff\<close> itself compares a number of 8-byte units with a number of bytes and never fires;
  it is the size of the attribute fork, negative then, that makes the inode be rejected.
\<close>

theorem iformat_accepted:
  assumes "xfs_iformat junk mp ip dip = Some (0, ip')" and "length (if_inline_data (i_df ip)) = 32"
    and "junk_ok junk"
  shows "(XFS_DFORK_Q dip \<longrightarrow> XFS_DFORK_BOFF dip \<le> XFS_LITINO mp (di_u 4 1 dip)) \<and>
    (fmt_of (di_u 5 1 dip) = FMT_LOCAL \<longrightarrow> ifork_ok (i_df ip') \<and> if_bytes (i_df ip') \<le> XFS_DFORK_DSIZE mp dip)"
proof -
  define ip0 where "ip0 = ip \<lparr> i_df := (i_df ip) \<lparr> if_ext_max := ext_max (XFS_IFORK_DSIZE mp ip) \<rparr> \<rparr>"
  have inl: "length (if_inline_data (i_df ip0)) = 32" using assms(2) by (simp add: ip0_def)
  have run: "xfs_iformat junk mp ip dip =
     (if to_u32 (int (di_u 76 4 dip + di_u 80 2 dip)) > int (di_u 64 8 dip)
       then Some (errno_code EFSCORRUPTED, ip0)
     else if di_u 82 1 dip > sb_inodesize (m_sb mp) then Some (errno_code EFSCORRUPTED, ip0)
     else do {
       (error, ip) \<leftarrow> iformat_data junk mp ip0 dip;
       if error \<noteq> 0 then Some (error, ip)
       else if \<not> XFS_DFORK_Q dip then Some (0, ip)
       else iformat_attr junk mp ip dip })"
    by (simp add: xfs_iformat_def ip0_def Let_def)
  have "do { (error, ip) \<leftarrow> iformat_data junk mp ip0 dip;
       if error \<noteq> 0 then Some (error, ip)
       else if \<not> XFS_DFORK_Q dip then Some (0, ip)
       else iformat_attr junk mp ip dip } = Some (0, ip')"
    by (rule no_error [OF assms(1) [unfolded run]]) simp
  then obtain r where r: "iformat_data junk mp ip0 dip = Some r"
    and ret: "(case r of (error, ip) \<Rightarrow> if error \<noteq> 0 then Some (error, ip)
       else if \<not> XFS_DFORK_Q dip then Some (0, ip) else iformat_attr junk mp ip dip) = Some (0, ip')"
    unfolding bind_eq_Some_conv by blast
  obtain error ip1 where split: "r = (error, ip1)" by (cases r)
  have error: "error = 0" by (rule ccontr) (use ret split in simp)
  have data: "iformat_data junk mp ip0 dip = Some (0, ip1)" using r split error by simp
  have attr: "iformat_attr junk mp ip1 dip = Some (0, ip')" if "XFS_DFORK_Q dip"
    using ret split error that by simp
  have no_attr: "ip' = ip1" if "\<not> XFS_DFORK_Q dip" using ret split error that by simp
  have df: "i_df ip' = i_df ip1" 
    using attr no_attr iformat_attr_accepted [of junk mp ip1 dip ip'] by (cases "XFS_DFORK_Q dip") blast+
  have "ifork_ok (i_df ip1) \<and> if_bytes (i_df ip1) \<le> XFS_DFORK_DSIZE mp dip" if loc: "fmt_of (di_u 5 1 dip) = FMT_LOCAL"
  proof -
    obtain f where "xfs_iformat_local junk mp dip DATA_FORK (to_s32 (to_s64 (int (di_u 56 8 dip)))) (i_df ip0) = Some (0, f)"
      "i_df ip1 = f"
      using data unfolding iformat_data_def Let_def loc iformat_fork_def bind_eq_Some_conv
      by (auto simp: bind_eq_Some_conv split: if_split_asm)
    then show ?thesis using iformat_local_accepted [OF _ inl assms(3), of mp dip DATA_FORK] by fastforce
  qed
  moreover have "XFS_DFORK_BOFF dip \<le> XFS_LITINO mp (di_u 4 1 dip)" if "XFS_DFORK_Q dip"
    using iformat_attr_accepted [OF attr [OF that]] that by (simp add: XFS_DFORK_ASIZE_def)
  ultimately show ?thesis using df by simp
qed

theorem iformat_accepted_witness:
  "\<exists>ip'. xfs_iformat (\<lambda>n. replicate n 7) sample_mp sample_raw
      (disk_inode (i_d sample_raw) (replicate 4 0) (body_bytes (Inline [0, 0, 0, 0, 0, 128]) @ [9])) = Some (0, ip') \<and>
    ifork_ok (i_df ip') \<and> if_bytes (i_df ip') \<le> 156"
proof -
  let ?dip = "disk_inode (i_d sample_raw) (replicate 4 0) (body_bytes (Inline [0, 0, 0, 0, 0, 128]) @ [9])"
  have fit: "int (length (body_bytes (Inline [0, 0, 0, 0, 0, 128]))) \<le> XFS_LITINO sample_mp (di_version (i_d sample_raw))"
    by (simp add: sample_raw_ok(4))
  obtain f where f: "xfs_iformat (\<lambda>n. replicate n 7) sample_mp sample_raw ?dip = Some (0, sample_raw \<lparr> i_df := f \<rparr>)"
    using iformat_ok [OF sample_raw_ok(1,2) fit refl sample_raw_ok(3,5)] by blast
  note facts = disk_inode_facts [OF sample_raw_ok(1), of "body_bytes (Inline [0, 0, 0, 0, 0, 128]) @ [9]"]
  have "fmt_of (di_u 5 1 ?dip) = FMT_LOCAL" using facts(8) by (simp add: sample_raw_def)
  then show ?thesis
    using iformat_accepted [OF f sample_raw_ok(3,5)] facts(1) f sample_raw_ok(4) by simp
qed

end
