(* ===== verification/Bmap_Tree.thy ===== *)
theory Bmap_Tree
  imports Bmap_Read Inode_Format
begin

text \<open>
  Reading the extent list of a file whose extents are in a B-tree (\<open>xfs_iread_extents\<close> of
  libxfs/xfs_inode.c, \<open>xfs_bmap_read_extents\<close> of libxfs/xfs_bmap.c): down the leftmost pointers to the first
  leaf, then along the right siblings. Of the macros of assertions none is active. \<open>None\<close> is a block that
  cannot be read: without a transaction \<open>xfs_btree_read_bufl\<close> returns no error and a NULL buffer then.
\<close>

section \<open>Blocks of the tree\<close>

definition XFS_FSB_SANITY_CHECK :: "xfs_mount \<Rightarrow> nat \<Rightarrow> bool" where
  "XFS_FSB_SANITY_CHECK mp fsb \<longleftrightarrow> XFS_FSB_TO_AGNO mp (int fsb) < int (sb_agcount (m_sb mp)) \<and>
     XFS_FSB_TO_AGBNO mp (int fsb) < int (sb_agblocks (m_sb mp))"

text \<open>The header: magic number, level, number of records, left and right sibling.\<close>

definition bb_magic :: "bytes \<Rightarrow> nat option" where "bb_magic d = rd_be32 0 d"
definition bb_level :: "bytes \<Rightarrow> nat option" where "bb_level d = rd_be16 4 d"
definition bb_numrecs :: "bytes \<Rightarrow> nat option" where "bb_numrecs d = rd_be16 6 d"
definition bb_rightsib :: "bytes \<Rightarrow> nat option" where "bb_rightsib d = rd_be64 16 d"

definition XFS_BMBT_PTR_ADDR :: "int \<Rightarrow> nat" where
  "XFS_BMBT_PTR_ADDR maxrecs = 24 + nat maxrecs * 8"

definition xfs_bmap_sanity_check :: "xfs_mount \<Rightarrow> bytes \<Rightarrow> nat \<Rightarrow> bool option" where
  "xfs_bmap_sanity_check mp d level = do {
     magic \<leftarrow> bb_magic d; lev \<leftarrow> bb_level d; numrecs \<leftarrow> bb_numrecs d;
     Some (magic = XFS_BMAP_MAGIC \<and> lev = level \<and> numrecs \<noteq> 0 \<and>
       int numrecs \<le> (if level \<noteq> 0 then snd else fst) (m_bmap_dmxr mp)) }"

definition xfs_btree_read_bufl :: "('b, 's) buf_ops \<Rightarrow> xfs_mount \<Rightarrow> nat \<Rightarrow> 's \<Rightarrow> 'b option \<times> 's" where
  "xfs_btree_read_bufl ops mp fsbno s = op_readbuf ops (XFS_FSB_TO_DADDR mp (int fsbno)) (m_bsize mp) s"

section \<open>Reading the tree\<close>

text \<open>
  Down to the first leaf; the level is the one of the block that points to \<open>bno\<close>. A root of level 0 leaves
  the buffer unset.
\<close>

fun read_leftmost :: "('b, 's) buf_ops \<Rightarrow> xfs_mount \<Rightarrow> nat \<Rightarrow> nat \<Rightarrow> 's \<Rightarrow> (int \<times> 'b option \<times> 's) option" where
  "read_leftmost ops mp 0 bno s = None"
| "read_leftmost ops mp (Suc level) bno s =
     (case xfs_btree_read_bufl ops mp bno s of
        (None, s) \<Rightarrow> None
      | (Some bp, s) \<Rightarrow> do {
          let block = op_b_addr ops s bp;
          ok \<leftarrow> xfs_bmap_sanity_check mp block level;
          if \<not> ok then Some (errno_code EFSCORRUPTED, None, op_putbuf ops bp s)
          else if level = 0 then Some (0, Some bp, s)
          else do {
            bno \<leftarrow> rd_be64 (XFS_BMBT_PTR_ADDR (snd (m_bmap_dmxr mp))) block;
            if \<not> XFS_FSB_SANITY_CHECK mp bno then Some (errno_code EFSCORRUPTED, None, op_putbuf ops bp s)
            else read_leftmost ops mp level bno (op_putbuf ops bp s) } })"

text \<open>
  One leaf: its records go to the places from \<open>i\<close> on. The result has no number when the block is bad, and the
  number of its right sibling otherwise. \<open>nostate\<close> says that the file system knows no unwritten extents.
\<close>

definition read_leaf :: "xfs_mount \<Rightarrow> bool \<Rightarrow> nat \<Rightarrow> nat \<Rightarrow> bytes \<Rightarrow> bmbt_rec list \<Rightarrow>
    ((nat \<times> nat) option \<times> bmbt_rec list) option" where
  "read_leaf mp nostate room i block exts = do {
     num_recs \<leftarrow> bb_numrecs block;
     if i + num_recs > room then Some (None, exts)
     else do {
       ok \<leftarrow> xfs_bmap_sanity_check mp block 0;
       if \<not> ok then Some (None, exts)
       else do {
         nextbno \<leftarrow> bb_rightsib block;
         recs \<leftarrow> rd_recs num_recs 24 block;
         let exts = take i exts @ recs @ drop (i + num_recs) exts;
         bad \<leftarrow> (if nostate then xfs_check_nostate_extents exts i num_recs else Some 0);
         Some (if bad \<noteq> 0 then None else Some (num_recs, nextbno), exts) } } }"

text \<open>A good leaf has a record, and all records fit: so the chain ends even when it is a cycle.\<close>

lemma read_leaf_progress:
  "read_leaf mp nostate room i block exts = Some (Some (n, nextbno), exts') \<Longrightarrow> 0 < n \<and> i + n \<le> room"
  by (auto simp: read_leaf_def xfs_bmap_sanity_check_def Let_def bind_eq_Some_conv split: if_split_asm)

function read_leaves :: "('b, 's) buf_ops \<Rightarrow> xfs_mount \<Rightarrow> bool \<Rightarrow> nat \<Rightarrow> nat \<Rightarrow> 'b \<Rightarrow> bmbt_rec list \<Rightarrow> 's \<Rightarrow>
    (int \<times> bmbt_rec list \<times> 's) option" where
  "read_leaves ops mp nostate room i bp exts s =
    (case read_leaf mp nostate room i (op_b_addr ops s bp) exts of
       None \<Rightarrow> None
     | Some (None, exts) \<Rightarrow> Some (errno_code EFSCORRUPTED, exts, op_putbuf ops bp s)
     | Some (Some (num_recs, nextbno), exts) \<Rightarrow>
         let s = op_putbuf ops bp s in
         if nextbno = NULLFSBLOCK then Some (0, exts, s)
         else (case xfs_btree_read_bufl ops mp nextbno s of
             (None, s) \<Rightarrow> None
           | (Some bp, s) \<Rightarrow> read_leaves ops mp nostate room (i + num_recs) bp exts s))"
  by pat_completeness auto
termination
  by (relation "measure (\<lambda>(ops, mp, nostate, room, i, bp, exts, s). room - i)") (auto dest: read_leaf_progress)

declare read_leaves.simps [simp del]

text \<open>
  \<open>xfs_bmap_read_extents\<close> on the data fork \<open>ifp\<close>, whose list has been made long enough: error, the list, state.
\<close>

definition xfs_bmap_read_extents :: "('b, 's) buf_ops \<Rightarrow> xfs_mount \<Rightarrow> xfs_ifork \<Rightarrow> 's \<Rightarrow>
    (int \<times> bmbt_rec list \<times> 's) option" where
  "xfs_bmap_read_extents ops mp ifp s = do {
     block \<leftarrow> if_broot ifp;
     level \<leftarrow> bb_level block;
     bno \<leftarrow> rd_be64 (XFS_BMBT_PTR_ADDR (xfs_bmbt_maxrecs (if_broot_bytes ifp) False)) block;
     (error, bp, s) \<leftarrow> read_leftmost ops mp level bno s;
     case bp of
       None \<Rightarrow> Some (error, if_extents ifp, s)
     | Some bp \<Rightarrow>
         read_leaves ops mp (\<not> xfs_sb_version_hasextflgbit (m_sb mp)) (nat (to_u32 (if_bytes ifp) div 16)) 0 bp
           (if_extents ifp) s }"

text \<open>
  The memory \<open>xfs_iext_add\<close> takes for the records of an empty list: none for two that fit the inode, a power of two of
  bytes up to a page of 256 records, and whole pages beyond. The list itself is flat here, whatever holds it.
\<close>

definition iext_real_bytes :: "int \<Rightarrow> int" where
  "iext_real_bytes n = (if n \<le> 2 then 0
     else if n \<le> 256 then hd (filter (\<lambda>k. n * 16 \<le> k) [64, 128, 256, 512, 1024, 2048, 4096])
     else (n + 255) div 256 * 4096)"

definition xfs_iread_extents :: "('b, 's) buf_ops \<Rightarrow> xfs_mount \<Rightarrow> 's inode_reader" where
  "xfs_iread_extents ops mp ip s =
    (if di_format (i_d ip) \<noteq> FMT_BTREE then Some (errno_code EFSCORRUPTED, ip, s)
     else let nextents = di_nextents (i_d ip);
       ifp = (i_df ip) \<lparr> if_bytes := to_s32 (nextents * 16), if_real_bytes := iext_real_bytes nextents, if_extents_read := True,
         if_extents := replicate (nat nextents) \<lparr> l0 = 0, l1 = 0 \<rparr> \<rparr> in do {
       (error, exts, s) \<leftarrow> xfs_bmap_read_extents ops mp ifp s;
       Some (if error \<noteq> 0
         then (error, ip \<lparr> i_df := (xfs_iext_destroy ifp) \<lparr> if_extents_read := False \<rparr> \<rparr>, s)
         else (0, ip \<lparr> i_df := ifp \<lparr> if_extents := exts \<rparr> \<rparr>, s)) })"

section \<open>Any tree: reading ends\<close>

definition tree_geom :: "xfs_mount \<Rightarrow> bool" where
  "tree_geom mp \<longleftrightarrow> geom_ok mp \<and> m_bsize mp = XFS_FSB_TO_BB mp 1 \<and>
     m_bmap_dmxr mp = ((blksize mp - 24) div 16, (blksize mp - 24) div 16)"

text \<open>A device whose blocks can all be read.\<close>

definition dev_readable :: "(int \<Rightarrow> int \<Rightarrow> bytes option) \<Rightarrow> xfs_mount \<Rightarrow> bool" where
  "dev_readable dev mp \<longleftrightarrow> (\<forall>blk. \<exists>d. dev blk (m_bsize mp) = Some d \<and> int (length d) = blksize mp)"

lemma rd_be_total: "off + n \<le> length d \<Longrightarrow> \<exists>v. rd_be n off d = Some v"
  by (simp add: rd_be_def rd_bytes_def)

lemma rd_recs_total: "p + 16 * n \<le> length d \<Longrightarrow> \<exists>rs. rd_recs n p d = Some rs \<and> length rs = n"
proof (induction n arbitrary: p)
  case 0
  then show ?case by simp
next
  case (Suc n)
  obtain a b where "rd_be64 p d = Some a" "rd_be64 (p + 8) d = Some b"
    using rd_be_total [of p 8 d] rd_be_total [of "p + 8" 8 d] Suc.prems by auto
  moreover obtain rs where "rd_recs n (p + 16) d = Some rs" "length rs = n"
    using Suc.IH [of "p + 16"] Suc.prems by auto
  ultimately show ?case by simp
qed

lemma check_nostate_total: "idx + n \<le> length exts \<Longrightarrow> \<exists>r. xfs_check_nostate_extents exts idx n = Some r"
  by (induction n arbitrary: idx) auto

lemma block_header:
  assumes "tree_geom mp" and "int (length d) = blksize mp"
  obtains magic lev n sib where "bb_magic d = Some magic" "bb_level d = Some lev" "bb_numrecs d = Some n"
    "bb_rightsib d = Some sib" "512 \<le> length d"
proof -
  have "512 \<le> int (length d)"
    unfolding assms(2) using assms(1) by (intro blksize_bounds(1)) (simp add: tree_geom_def)
  then have l: "512 \<le> length d" by linarith
  then show ?thesis
    using that rd_be_total [of 0 4 d] rd_be_total [of 4 2 d] rd_be_total [of 6 2 d] rd_be_total [of 16 8 d]
    by (auto simp: bb_magic_def bb_level_def bb_numrecs_def bb_rightsib_def)
qed

lemma read_leaf_total:
  assumes g: "tree_geom mp" and d: "int (length d) = blksize mp" and r: "room \<le> length exts" "i \<le> room"
  shows "\<exists>r exts'. read_leaf mp nostate room i d exts = Some (r, exts') \<and> length exts' = length exts"
proof -
  obtain magic lev n sib where h: "bb_magic d = Some magic" "bb_level d = Some lev" "bb_numrecs d = Some n"
    "bb_rightsib d = Some sib" "512 \<le> length d" by (rule block_header [OF g d])
  show ?thesis
  proof (cases "i + n \<le> room \<and> xfs_bmap_sanity_check mp d 0 = Some True")
    case False
    then show ?thesis using h by (auto simp: read_leaf_def xfs_bmap_sanity_check_def split: if_splits)
  next
    case True
    then have "int n \<le> (blksize mp - 24) div 16"
      using h g by (auto simp: xfs_bmap_sanity_check_def tree_geom_def)
    then have "24 + 16 * n \<le> length d" using d h(5) by linarith
    then obtain recs where recs: "rd_recs n 24 d = Some recs" "length recs = n" using rd_recs_total by blast
    let ?exts = "take i exts @ recs @ drop (i + n) exts"
    have l: "length ?exts = length exts" using True r recs by simp
    then obtain bad where "xfs_check_nostate_extents ?exts i n = Some bad"
      using check_nostate_total [of i n ?exts] True r by auto
    then show ?thesis using True h recs l by (auto simp: read_leaf_def Let_def)
  qed
qed

lemma to_u32_to_s32: "to_u32 (to_s32 x) = to_u32 x"
  using take_bit_signed_take_bit [of 32 31 x] by (simp add: to_u32_def to_s32_def take_bit_eq_mod)

text \<open>The room in the list never exceeds its length, whatever \<open>di_nextents\<close> is.\<close>

lemma room_le:
  assumes "0 \<le> n"
  shows "nat (to_u32 (to_s32 (n * 16)) div 16) \<le> nat n"
proof -
  have "n * 16 mod 2 ^ 32 \<le> n * 16" using assms by (intro zmod_le_nonneg_dividend) simp
  then have "n * 16 mod 2 ^ 32 div 16 \<le> n" by linarith
  then show ?thesis unfolding to_u32_to_s32 unfolding to_u32_def using assms by (simp add: nat_le_eq_zle)
qed

text \<open>The root in the inode: its level and the first pointer.\<close>

definition tree_root :: "xfs_inode \<Rightarrow> nat \<Rightarrow> nat \<Rightarrow> bool" where
  "tree_root ip level bno \<longleftrightarrow> di_format (i_d ip) = FMT_BTREE \<and> 0 \<le> di_nextents (i_d ip) \<and>
     (\<exists>block. if_broot (i_df ip) = Some block \<and> bb_level block = Some level \<and>
       rd_be64 (XFS_BMBT_PTR_ADDR (xfs_bmbt_maxrecs (if_broot_bytes (i_df ip)) False)) block = Some bno)"

context buf_store
begin

lemma read_bufl_ok:
  assumes "dev_readable dev mp" and "inv s"
  obtains b s' where "xfs_btree_read_bufl ops mp bno s = (Some b, s')" "int (length (op_b_addr ops s' b)) = blksize mp"
    "inv (op_putbuf ops b s')"
  using assms read_ok [OF assms(2)] unfolding dev_readable_def xfs_btree_read_bufl_def by metis

lemma read_leaves_total:
  assumes g: "tree_geom mp" and dev: "dev_readable dev mp"
  shows "int (length (op_b_addr ops s bp)) = blksize mp \<Longrightarrow> inv (op_putbuf ops bp s) \<Longrightarrow> room \<le> length exts \<Longrightarrow>
    i \<le> room \<Longrightarrow> \<exists>e exts' s'. read_leaves ops mp nostate room i bp exts s = Some (e, exts', s') \<and>
      inv s' \<and> length exts' = length exts \<and> (e = 0 \<or> e = errno_code EFSCORRUPTED)"
proof (induction "room - i" arbitrary: i bp exts s rule: less_induct)
  case less
  obtain r exts1 where leaf: "read_leaf mp nostate room i (op_b_addr ops s bp) exts = Some (r, exts1)"
    "length exts1 = length exts"
    using read_leaf_total [OF g less.prems(1,3,4)] by blast
  show ?case
  proof (cases r)
    case None
    then show ?thesis using leaf less.prems by (subst read_leaves.simps) simp
  next
    case (Some p)
    then obtain n bno where r: "r = Some (n, bno)" by (cases p) auto
    have n: "0 < n" "i + n \<le> room" using read_leaf_progress leaf r by auto
    show ?thesis
    proof (cases "bno = NULLFSBLOCK")
      case True
      then show ?thesis using leaf less.prems r by (subst read_leaves.simps) (simp add: Let_def)
    next
      case False
      obtain b s' where b: "xfs_btree_read_bufl ops mp bno (op_putbuf ops bp s) = (Some b, s')"
        "int (length (op_b_addr ops s' b)) = blksize mp" "inv (op_putbuf ops b s')"
        by (rule read_bufl_ok [OF dev less.prems(2)])
      have "read_leaves ops mp nostate room i bp exts s = read_leaves ops mp nostate room (i + n) b exts1 s'"
        using leaf r b False by (subst read_leaves.simps) (simp add: Let_def)
      moreover have "room - (i + n) < room - i" using n by linarith
      ultimately show ?thesis
        using less.hyps [OF _ b(2,3), where exts = exts1 and i = "i + n"] leaf(2) less.prems(3) n(2) by simp
    qed
  qed
qed

lemma read_leftmost_total:
  assumes g: "tree_geom mp" and dev: "dev_readable dev mp"
  shows "inv s \<Longrightarrow> \<exists>e b s'. read_leftmost ops mp (Suc level) bno s = Some (e, b, s') \<and>
    (case b of None \<Rightarrow> e = errno_code EFSCORRUPTED \<and> inv s'
      | Some bp \<Rightarrow> e = 0 \<and> int (length (op_b_addr ops s' bp)) = blksize mp \<and> inv (op_putbuf ops bp s'))"
proof (induction level arbitrary: bno s)
  case (0 bno s)
  obtain b s' where b: "xfs_btree_read_bufl ops mp bno s = (Some b, s')"
    "int (length (op_b_addr ops s' b)) = blksize mp" "inv (op_putbuf ops b s')"
    by (rule read_bufl_ok [OF dev 0])
  obtain magic lev n sib where h: "bb_magic (op_b_addr ops s' b) = Some magic"
    "bb_level (op_b_addr ops s' b) = Some lev" "bb_numrecs (op_b_addr ops s' b) = Some n"
    by (rule block_header [OF g b(2)])
  then obtain ok where "xfs_bmap_sanity_check mp (op_b_addr ops s' b) 0 = Some ok"
    by (simp add: xfs_bmap_sanity_check_def)
  then show ?case using b by (cases ok) (auto simp: Let_def)
next
  case (Suc level bno s)
  obtain b s' where b: "xfs_btree_read_bufl ops mp bno s = (Some b, s')"
    "int (length (op_b_addr ops s' b)) = blksize mp" "inv (op_putbuf ops b s')"
    by (rule read_bufl_ok [OF dev Suc.prems])
  let ?d = "op_b_addr ops s' b"
  obtain magic lev n sib where h: "bb_magic ?d = Some magic" "bb_level ?d = Some lev" "bb_numrecs ?d = Some n"
    "bb_rightsib ?d = Some sib" "512 \<le> length ?d" by (rule block_header [OF g b(2)])
  let ?p = "XFS_BMBT_PTR_ADDR (snd (m_bmap_dmxr mp))"
  have "nat (snd (m_bmap_dmxr mp)) \<le> (length ?d - 24) div 16"
    using g b(2) h(5) by (auto simp: tree_geom_def nat_le_iff zdiv_int of_nat_diff)
  then have "?p + 8 \<le> length ?d" using h(5) by (simp add: XFS_BMBT_PTR_ADDR_def)
  then obtain next_bno where nb: "rd_be64 ?p ?d = Some next_bno" using rd_be_total by blast
  obtain ok where ok: "xfs_bmap_sanity_check mp ?d (Suc level) = Some ok"
    using h by (simp add: xfs_bmap_sanity_check_def)
  show ?case
    using Suc.IH [OF b(3), of next_bno] b nb ok
    by (cases ok; cases "XFS_FSB_SANITY_CHECK mp next_bno") (auto simp: Let_def)
qed

lemma iread_extents_total:
  assumes g: "tree_geom mp" and dev: "dev_readable dev mp" and i: "inv s" and root: "tree_root ip (Suc level) bno"
  shows "\<exists>e ip' s'. xfs_iread_extents ops mp ip s = Some (e, ip', s') \<and> inv s' \<and> i_d ip' = i_d ip \<and>
    (if e = 0 then if_extents_read (i_df ip') \<and> length (if_extents (i_df ip')) = nat (di_nextents (i_d ip))
     else e = errno_code EFSCORRUPTED \<and> \<not> if_extents_read (i_df ip') \<and> if_extents (i_df ip') = [])"
proof -
  let ?n = "di_nextents (i_d ip)"
  let ?exts = "replicate (nat ?n) \<lparr> l0 = 0 :: u64, l1 = 0 \<rparr>"
  let ?ifp = "(i_df ip) \<lparr> if_bytes := to_s32 (?n * 16), if_real_bytes := iext_real_bytes ?n, if_extents_read := True, if_extents := ?exts \<rparr>"
  obtain block where r: "di_format (i_d ip) = FMT_BTREE" "0 \<le> ?n" "if_broot (i_df ip) = Some block"
    "bb_level block = Some (Suc level)"
    "rd_be64 (XFS_BMBT_PTR_ADDR (xfs_bmbt_maxrecs (if_broot_bytes (i_df ip)) False)) block = Some bno"
    using root by (auto simp: tree_root_def)
  obtain e b s1 where left: "read_leftmost ops mp (Suc level) bno s = Some (e, b, s1)"
    "case b of None \<Rightarrow> e = errno_code EFSCORRUPTED \<and> inv s1
      | Some bp \<Rightarrow> e = 0 \<and> int (length (op_b_addr ops s1 bp)) = blksize mp \<and> inv (op_putbuf ops bp s1)"
    using read_leftmost_total [OF g dev i] by blast
  have room: "nat (to_u32 (to_s32 (?n * 16)) div 16) \<le> length ?exts" using room_le [OF r(2)] by simp
  have "\<exists>e exts s2. xfs_bmap_read_extents ops mp ?ifp s = Some (e, exts, s2) \<and> inv s2 \<and>
      length exts = nat ?n \<and> (e = 0 \<or> e = errno_code EFSCORRUPTED)"
  proof (cases b)
    case None
    then show ?thesis using left r by (auto simp: xfs_bmap_read_extents_def simp del: read_leftmost.simps)
  next
    case (Some bp)
    then show ?thesis
      using left r read_leaves_total [OF g dev _ _ room, of s1 bp 0 "\<not> xfs_sb_version_hasextflgbit (m_sb mp)"]
      by (auto simp: xfs_bmap_read_extents_def simp del: read_leftmost.simps)
  qed
  then show ?thesis using r(1) by (fastforce simp: xfs_iread_extents_def Let_def xfs_iext_destroy_def)
qed

end

section \<open>A well-formed tree: its records are read in order\<close>

text \<open>A leaf with the records \<open>rs\<close> and the right sibling \<open>sib\<close>.\<close>

definition leaf_at :: "xfs_mount \<Rightarrow> bytes \<Rightarrow> bmbt_rec list \<Rightarrow> nat \<Rightarrow> bool" where
  "leaf_at mp d rs sib \<longleftrightarrow> (\<exists>lsib rest. d = be_bytes 4 XFS_BMAP_MAGIC @ be_bytes 2 0 @ be_bytes 2 (length rs) @
       lsib @ be_bytes 8 sib @ concat (map rec_bytes rs) @ rest \<and> length lsib = 8) \<and>
     0 < length rs \<and> int (length rs) \<le> fst (m_bmap_dmxr mp) \<and> length rs < 2 ^ 16 \<and> sib < 2 ^ 64"

text \<open>The leaves from a block on, as lists of records.\<close>

fun leaf_chain :: "(int \<Rightarrow> int \<Rightarrow> bytes option) \<Rightarrow> xfs_mount \<Rightarrow> bytes \<Rightarrow> bmbt_rec list list \<Rightarrow> bool" where
  "leaf_chain dev mp d [] \<longleftrightarrow> False"
| "leaf_chain dev mp d [rs] \<longleftrightarrow> leaf_at mp d rs NULLFSBLOCK"
| "leaf_chain dev mp d (rs # rs' # rss) \<longleftrightarrow> (\<exists>sib d'. sib \<noteq> NULLFSBLOCK \<and> leaf_at mp d rs sib \<and>
     dev (XFS_FSB_TO_DADDR mp (int sib)) (m_bsize mp) = Some d' \<and> leaf_chain dev mp d' (rs' # rss))"

text \<open>The first leaf below a pointer, for a block of the given level.\<close>

fun first_leaf :: "(int \<Rightarrow> int \<Rightarrow> bytes option) \<Rightarrow> xfs_mount \<Rightarrow> nat \<Rightarrow> nat \<Rightarrow> bytes \<Rightarrow> bool" where
  "first_leaf dev mp 0 bno leaf \<longleftrightarrow> dev (XFS_FSB_TO_DADDR mp (int bno)) (m_bsize mp) = Some leaf \<and>
     xfs_bmap_sanity_check mp leaf 0 = Some True"
| "first_leaf dev mp (Suc level) bno leaf \<longleftrightarrow> (\<exists>d child.
     dev (XFS_FSB_TO_DADDR mp (int bno)) (m_bsize mp) = Some d \<and>
     xfs_bmap_sanity_check mp d (Suc level) = Some True \<and>
     rd_be64 (XFS_BMBT_PTR_ADDR (snd (m_bmap_dmxr mp))) d = Some child \<and> XFS_FSB_SANITY_CHECK mp child \<and>
     first_leaf dev mp level child leaf)"

lemma leaf_fields:
  assumes "leaf_at mp d rs sib"
  shows "bb_magic d = Some XFS_BMAP_MAGIC" and "bb_level d = Some 0" and "bb_numrecs d = Some (length rs)"
    and "bb_rightsib d = Some sib" and "rd_recs (length rs) 24 d = Some rs"
    and "xfs_bmap_sanity_check mp d 0 = Some True"
proof -
  obtain lsib rest where d: "d = be_bytes 4 XFS_BMAP_MAGIC @ be_bytes 2 0 @ be_bytes 2 (length rs) @
       lsib @ be_bytes 8 sib @ concat (map rec_bytes rs) @ rest" and l: "length lsib = 8"
    and b: "0 < length rs" "int (length rs) \<le> fst (m_bmap_dmxr mp)" "length rs < 2 ^ 16" "sib < 2 ^ 64"
    using assms by (auto simp: leaf_at_def)
  show m: "bb_magic d = Some XFS_BMAP_MAGIC"
    unfolding bb_magic_def by (rule rd_be_at [where pre = "[]"]) (use d in \<open>simp_all add: XFS_BMAP_MAGIC_def\<close>)
  show lev: "bb_level d = Some 0"
    unfolding bb_level_def by (rule rd_be_at [where pre = "be_bytes 4 XFS_BMAP_MAGIC"]) (use d in simp_all)
  show n: "bb_numrecs d = Some (length rs)"
    unfolding bb_numrecs_def
    by (rule rd_be_at [where pre = "be_bytes 4 XFS_BMAP_MAGIC @ be_bytes 2 0"]) (use d b in simp_all)
  show "bb_rightsib d = Some sib"
    unfolding bb_rightsib_def
    by (rule rd_be_at [where pre = "be_bytes 4 XFS_BMAP_MAGIC @ be_bytes 2 0 @ be_bytes 2 (length rs) @ lsib"])
      (use d b l in simp_all)
  show "rd_recs (length rs) 24 d = Some rs"
    by (rule rd_recs_ok [where pre = "be_bytes 4 XFS_BMAP_MAGIC @ be_bytes 2 0 @ be_bytes 2 (length rs) @ lsib @ be_bytes 8 sib"])
      (use d l in simp_all)
  show "xfs_bmap_sanity_check mp d 0 = Some True"
    using m lev n b by (simp add: xfs_bmap_sanity_check_def)
qed

lemma check_nostate_range:
  "(\<forall>k. idx \<le> k \<and> k < idx + n \<longrightarrow> drop_bit 63 (l0 (exts ! k)) = 0) \<Longrightarrow> idx + n \<le> length exts \<Longrightarrow>
    xfs_check_nostate_extents exts idx n = Some 0"
  by (induction n arbitrary: idx) (auto simp: BMBT_EXNTFLAG_BITLEN_def)

lemma read_leaf_ok:
  assumes leaf: "leaf_at mp d rs sib" and fl: "flags_ok mp rs" and fit: "i + length rs \<le> room" "room \<le> length exts"
  shows "read_leaf mp (\<not> xfs_sb_version_hasextflgbit (m_sb mp)) room i d exts =
    Some (Some (length rs, sib), take i exts @ rs @ drop (i + length rs) exts)"
proof -
  note f = leaf_fields [OF leaf]
  let ?exts = "take i exts @ rs @ drop (i + length rs) exts"
  have "?exts ! k = rs ! (k - i)" if "i \<le> k" "k < i + length rs" for k
    using that fit by (simp add: nth_append)
  then have "xfs_check_nostate_extents ?exts i (length rs) = Some 0" if "\<not> xfs_sb_version_hasextflgbit (m_sb mp)"
    using that fl fit by (intro check_nostate_range) (auto simp: flags_ok_def)
  then show ?thesis using f fit by (auto simp: read_leaf_def Let_def)
qed

context buf_store
begin

lemma read_bufl_dev:
  assumes "inv s" and "dev (XFS_FSB_TO_DADDR mp (int bno)) (m_bsize mp) = Some d"
  obtains b s' where "xfs_btree_read_bufl ops mp bno s = (Some b, s')" "op_b_addr ops s' b = d"
    "inv (op_putbuf ops b s')"
  using read_ok [OF assms] unfolding xfs_btree_read_bufl_def by metis

lemma read_leaves_ok:
  "leaf_chain dev mp d rss \<Longrightarrow> op_b_addr ops s bp = d \<Longrightarrow> inv (op_putbuf ops bp s) \<Longrightarrow>
    flags_ok mp (concat rss) \<Longrightarrow> i + length (concat rss) \<le> room \<Longrightarrow> room \<le> length exts \<Longrightarrow>
    \<exists>s'. read_leaves ops mp (\<not> xfs_sb_version_hasextflgbit (m_sb mp)) room i bp exts s =
      Some (0, take i exts @ concat rss @ drop (i + length (concat rss)) exts, s') \<and> inv s'"
proof (induction rss arbitrary: d bp s i exts)
  case Nil
  then show ?case by simp
next
  case (Cons rs rss)
  let ?exts = "take i exts @ rs @ drop (i + length rs) exts"
  have fl: "flags_ok mp rs" "flags_ok mp (concat rss)" using Cons.prems(4) by (auto simp: flags_ok_def)
  have len: "length ?exts = length exts" using Cons.prems(5,6) by simp
  show ?case
  proof (cases rss)
    case Nil
    then have leaf: "leaf_at mp d rs NULLFSBLOCK" using Cons.prems(1) by simp
    show ?thesis
      using read_leaf_ok [OF leaf fl(1), of i room exts] Cons.prems Nil
      by (subst read_leaves.simps) (simp add: Let_def)
  next
    case rest: (Cons rs' rss')
    then obtain sib d' where sib: "sib \<noteq> NULLFSBLOCK" "leaf_at mp d rs sib"
      "dev (XFS_FSB_TO_DADDR mp (int sib)) (m_bsize mp) = Some d'" "leaf_chain dev mp d' rss"
      using Cons.prems(1) by auto
    obtain b s' where b: "xfs_btree_read_bufl ops mp sib (op_putbuf ops bp s) = (Some b, s')"
      "op_b_addr ops s' b = d'" "inv (op_putbuf ops b s')"
      by (rule read_bufl_dev [OF Cons.prems(3) sib(3)])
    have "read_leaves ops mp (\<not> xfs_sb_version_hasextflgbit (m_sb mp)) room i bp exts s =
        read_leaves ops mp (\<not> xfs_sb_version_hasextflgbit (m_sb mp)) room (i + length rs) b ?exts s'"
      using read_leaf_ok [OF sib(2) fl(1), of i room exts] Cons.prems(2,5,6) sib(1) b(1)
      by (subst read_leaves.simps) (simp add: Let_def)
    moreover obtain s2 where "read_leaves ops mp (\<not> xfs_sb_version_hasextflgbit (m_sb mp)) room (i + length rs) b ?exts s' =
        Some (0, take (i + length rs) ?exts @ concat rss @ drop (i + length rs + length (concat rss)) ?exts, s2)"
      and "inv s2"
      using Cons.IH [OF sib(4) b(2,3) fl(2), of "i + length rs" ?exts] Cons.prems(5,6) len by auto
    moreover have "take (i + length rs) ?exts = take i exts @ rs"
      and "drop (i + length rs + length (concat rss)) ?exts = drop (i + length (concat (rs # rss))) exts"
      using Cons.prems(5,6) by (simp_all add: ac_simps)
    ultimately show ?thesis by simp
  qed
qed

lemma read_leftmost_ok:
  assumes "inv s" and "first_leaf dev mp level bno leaf"
  shows "\<exists>bp s'. read_leftmost ops mp (Suc level) bno s = Some (0, Some bp, s') \<and> op_b_addr ops s' bp = leaf \<and>
    inv (op_putbuf ops bp s')"
  using assms
proof (induction level arbitrary: bno s)
  case (0 bno s)
  then have d: "dev (XFS_FSB_TO_DADDR mp (int bno)) (m_bsize mp) = Some leaf" by simp
  obtain b s' where "xfs_btree_read_bufl ops mp bno s = (Some b, s')" "op_b_addr ops s' b = leaf"
    "inv (op_putbuf ops b s')"
    by (rule read_bufl_dev [OF "0.prems"(1) d])
  then show ?case using "0.prems"(2) by (simp add: Let_def)
next
  case (Suc level bno s)
  obtain d child where d: "dev (XFS_FSB_TO_DADDR mp (int bno)) (m_bsize mp) = Some d"
    "xfs_bmap_sanity_check mp d (Suc level) = Some True"
    "rd_be64 (XFS_BMBT_PTR_ADDR (snd (m_bmap_dmxr mp))) d = Some child" "XFS_FSB_SANITY_CHECK mp child"
    "first_leaf dev mp level child leaf"
    using Suc.prems(2) by auto
  obtain b s' where b: "xfs_btree_read_bufl ops mp bno s = (Some b, s')" "op_b_addr ops s' b = d"
    "inv (op_putbuf ops b s')"
    by (rule read_bufl_dev [OF Suc.prems(1) d(1)])
  have "read_leftmost ops mp (Suc (Suc level)) bno s = read_leftmost ops mp (Suc level) child (op_putbuf ops b s')"
    using b d by (subst read_leftmost.simps) (simp add: Let_def del: read_leftmost.simps)
  then show ?case using Suc.IH [OF b(3) d(5)] by simp
qed

text \<open>The extent list of an inode with a good tree.\<close>

lemma iread_extents_ok:
  assumes i: "inv s" and root: "tree_root ip (Suc level) bno" and left: "first_leaf dev mp level bno leaf"
    and chain: "leaf_chain dev mp leaf rss" and fl: "flags_ok mp (concat rss)"
    and n: "di_nextents (i_d ip) = int (length (concat rss))" "length (concat rss) < 2 ^ 27"
  shows "\<exists>f s'. xfs_iread_extents ops mp ip s = Some (0, ip \<lparr> i_df := f \<rparr>, s') \<and> inv s' \<and>
    if_extents f = concat rss \<and> if_extents_read f"
proof -
  let ?n = "di_nextents (i_d ip)"
  let ?exts = "replicate (nat ?n) \<lparr> l0 = 0 :: u64, l1 = 0 \<rparr>"
  let ?ifp = "(i_df ip) \<lparr> if_bytes := to_s32 (?n * 16), if_real_bytes := iext_real_bytes ?n, if_extents_read := True, if_extents := ?exts \<rparr>"
  obtain block where r: "di_format (i_d ip) = FMT_BTREE" "if_broot (i_df ip) = Some block"
    "bb_level block = Some (Suc level)"
    "rd_be64 (XFS_BMBT_PTR_ADDR (xfs_bmbt_maxrecs (if_broot_bytes (i_df ip)) False)) block = Some bno"
    using root by (auto simp: tree_root_def)
  obtain bp s1 where bp: "read_leftmost ops mp (Suc level) bno s = Some (0, Some bp, s1)"
    "op_b_addr ops s1 bp = leaf" "inv (op_putbuf ops bp s1)"
    using read_leftmost_ok [OF i left] by blast
  have room: "nat (to_u32 (to_s32 (?n * 16)) div 16) = length (concat rss)" using n by (simp add: to_u32_to_s32)
  obtain s2 where "read_leaves ops mp (\<not> xfs_sb_version_hasextflgbit (m_sb mp)) (length (concat rss)) 0 bp ?exts s1 =
      Some (0, concat rss, s2)" "inv s2"
    using read_leaves_ok [OF chain bp(2,3) fl, of 0 "length (concat rss)" ?exts] n by auto
  then have "xfs_bmap_read_extents ops mp ?ifp s = Some (0, concat rss, s2)"
    using r bp(1) room by (simp add: xfs_bmap_read_extents_def del: read_leftmost.simps)
  then show ?thesis using r(1) \<open>inv s2\<close> by (auto simp: xfs_iread_extents_def Let_def)
qed

text \<open>Reading a file whose list is not in core yet is reading it with the list in core.\<close>

lemma readfile_btree_ok:
  assumes g: "geom_ok mp" and dv: "dev_blocks dev mp" and f: "file_ok mp ip1" "i_d ip1 = i_d ip"
    and unread: "\<not> if_extents_read (i_df ip)" "di_format (i_d ip) = FMT_BTREE"
    and rd: "if_extents_read (i_df ip1)" "iread ip s = Some (0, ip1, s1)" "inv s1"
    and rq: "req_ok mem offset len" and i: "inv s"
  shows "\<exists>err mem' ip' s'. xfs_readfile ops iread mp ip mem offset len s = Some (err, mem', ip', s') \<and> inv s' \<and>
      (if di_size (i_d ip) \<le> offset then ip' = ip else ip' = ip1) \<and> length mem' = length mem \<and>
      (let m = read_size ip offset len in
       if all_readable dev mp ip1 offset m
       then err = m \<and> (\<forall>k < length mem. mem' ! k =
              (if int k < m then read_byte dev mp ip1 (offset + int k)
               else if int k < len then 0 else mem ! k))
       else err = XFS_ERROR EIO)"
proof -
  have sz: "read_size ip1 offset len = read_size ip offset len" using f(2) by (simp add: read_size_def)
  have t: "xfs_readfile ops iread mp ip1 mem offset len s2 = Some (err, mem', ip1, s') \<Longrightarrow>
      xfs_readfile ops iread mp ip mem offset len s = Some (err, mem', (if di_size (i_d ip) \<le> offset then ip else ip1), s')"
    if "s2 = (if di_size (i_d ip) \<le> offset then s else s1)" for s2 err mem' s'
    using that f unread rd(1,2)
    by (auto simp: xfs_readfile_def file_ok_def xfs_readfile_btree_def Let_def split: if_splits option.splits
        bind_split_asm bind_splits)
  have i2: "inv (if di_size (i_d ip) \<le> offset then s else s1)" using i rd(3) by simp
  show ?thesis
    using readfile_ok [OF g dv f(1) rq i2, of iread, unfolded sz] t [OF refl] by fastforce
qed

end

end
