(* ===== verification/Inode_Read.thy ===== *)
theory Inode_Read
  imports Bmap_Tree
begin

text \<open>
  Reading an inode from the device: where it is (\<open>xfs_dilocate\<close> of libxfs/xfs_ialloc.c, \<open>xfs_imap\<close> of
  libxfs/xfs_inode.c with the macros of include/xfs_inum.h), its buffer (\<open>xfs_imap_to_bp\<close>, \<open>xfs_itobp\<close>) and
  its copy in core (\<open>libxfs_iread\<close> of libxfs/util.c). There is no transaction. Error numbers are positive;
  \<open>None\<close> is a call that does not return: an access outside a buffer or through a NULL pointer.
\<close>

section \<open>Parts of an inode number\<close>

definition XFS_INO_MASK :: "nat \<Rightarrow> nat" where
  "XFS_INO_MASK k = (2 ^ k - 1) mod 2 ^ 32"

definition XFS_INO_TO_AGNO :: "xfs_mount \<Rightarrow> nat \<Rightarrow> nat" where
  "XFS_INO_TO_AGNO mp i = i div 2 ^ m_agino_log mp mod 2 ^ 32"

definition XFS_INO_TO_AGINO :: "xfs_mount \<Rightarrow> nat \<Rightarrow> nat" where
  "XFS_INO_TO_AGINO mp i = i mod 2 ^ 32 AND XFS_INO_MASK (m_agino_log mp)"

definition XFS_INO_TO_OFFSET :: "xfs_mount \<Rightarrow> nat \<Rightarrow> nat" where
  "XFS_INO_TO_OFFSET mp i = i mod 2 ^ 32 AND XFS_INO_MASK (sb_inopblog (m_sb mp))"

definition XFS_AGINO_TO_AGBNO :: "xfs_mount \<Rightarrow> nat \<Rightarrow> nat" where
  "XFS_AGINO_TO_AGBNO mp i = i div 2 ^ sb_inopblog (m_sb mp)"

definition XFS_AGINO_TO_INO :: "xfs_mount \<Rightarrow> nat \<Rightarrow> nat \<Rightarrow> nat" where
  "XFS_AGINO_TO_INO mp a i = a * 2 ^ m_agino_log mp mod 2 ^ 64 OR i"

section \<open>Where an inode is\<close>

text \<open>
  The search of the B-tree of inodes for the chunk that holds an inode (\<open>xfs_inobt_lookup_le\<close>, only when
  the file system has no inode alignment): error, first inode of the chunk, state.
\<close>

type_synonym 's chunk_lookup = "nat \<Rightarrow> nat \<Rightarrow> 's \<Rightarrow> (int \<times> nat \<times> 's) option"

text \<open>Division of \<open>int\<close>s rounds to zero.\<close>

definition int_div :: "int \<Rightarrow> int \<Rightarrow> int" where
  "int_div a b = (if 0 \<le> a then a div b else - (- a div b))"

text \<open>The cluster in a chunk that begins at \<open>chunk_agbno\<close>: block, number of blocks, index of the inode.\<close>

definition dilocate_cluster :: "xfs_mount \<Rightarrow> nat \<Rightarrow> nat \<Rightarrow> nat \<Rightarrow> int \<Rightarrow> nat \<Rightarrow> int \<Rightarrow> nat \<times> int \<times> int" where
  "dilocate_cluster mp ino agno agbno blks_per_cluster chunk_agbno offset_agbno =
    (let cluster_agbno = nat (to_u32 (int chunk_agbno + int_div offset_agbno blks_per_cluster * blks_per_cluster));
       offset = to_s32 ((int agbno - int cluster_agbno) * int (sb_inopblock (m_sb mp)) + int (XFS_INO_TO_OFFSET mp ino)) in
     (nat (XFS_AGB_TO_FSB mp (int agno) (int cluster_agbno)), blks_per_cluster, offset))"

text \<open>Error, block, number of blocks, index of the inode, state. A cluster smaller than a block divides by 0.\<close>

definition xfs_dilocate ::
    "'s chunk_lookup \<Rightarrow> xfs_mount \<Rightarrow> nat \<Rightarrow> nat \<Rightarrow> bool \<Rightarrow> 's \<Rightarrow> (int \<times> nat \<times> int \<times> int \<times> 's) option" where
  "xfs_dilocate find_chunk mp ino bno lookup s =
    (let agno = XFS_INO_TO_AGNO mp ino; agino = XFS_INO_TO_AGINO mp ino; agbno = XFS_AGINO_TO_AGBNO mp agino in
     if agno \<ge> sb_agcount (m_sb mp) \<or> agbno \<ge> sb_agblocks (m_sb mp) \<or> ino \<noteq> XFS_AGINO_TO_INO mp agno agino
       then Some (errno_code EINVAL, bno, 0, 0, s)
     else if sb_blocksize (m_sb mp) \<ge> m_inode_cluster_size mp \<or> \<not> lookup
       then Some (0, nat (XFS_AGB_TO_FSB mp (int agno) (int agbno)), 1, to_s32 (int (XFS_INO_TO_OFFSET mp ino)), s)
     else let blks_per_cluster = int (m_inode_cluster_size mp div 2 ^ sb_blocklog (m_sb mp)) in
       if bno \<noteq> NULLFSBLOCK then
         let cluster_agbno = nat (XFS_FSB_TO_AGBNO mp (int bno)) in
         Some (0, bno, blks_per_cluster,
           to_s32 ((int agbno - int cluster_agbno) * int (sb_inopblock (m_sb mp)) + int (XFS_INO_TO_OFFSET mp ino)), s)
       else if blks_per_cluster = 0 then None
       else if m_inoalign_mask mp \<noteq> 0 then
         let offset_agbno = agbno AND nat (to_u32 (m_inoalign_mask mp));
           (bno, len, off) = dilocate_cluster mp ino agno agbno blks_per_cluster (agbno - offset_agbno) (int offset_agbno) in
         Some (0, bno, len, off, s)
       else do {
         (error, chunk_agino, s) \<leftarrow> find_chunk agno agino s;
         if error \<noteq> 0 then Some (error, bno, 0, 0, s)
         else let chunk_agbno = XFS_AGINO_TO_AGBNO mp chunk_agino;
           offset_agbno = to_s32 (int agbno - int chunk_agbno);
           (bno, len, off) = dilocate_cluster mp ino agno agbno blks_per_cluster chunk_agbno offset_agbno in
           Some (0, bno, len, off, s) })"

record xfs_imap =
  im_blkno :: int
  im_len :: int
  im_agblkno :: nat
  im_ioffset :: nat
  im_boffset :: nat

definition xfs_imap_at ::
    "'s chunk_lookup \<Rightarrow> xfs_mount \<Rightarrow> nat \<Rightarrow> xfs_imap \<Rightarrow> bool \<Rightarrow> 's \<Rightarrow> (int \<times> xfs_imap \<times> 's) option" where
  "xfs_imap_at find_chunk mp ino imap lookup s = do {
     let fsbno = (if im_blkno imap \<noteq> 0 then nat (XFS_DADDR_TO_FSB mp (im_blkno imap)) else NULLFSBLOCK);
     (error, fsbno, len, off, s) \<leftarrow> xfs_dilocate find_chunk mp ino fsbno lookup s;
     if error \<noteq> 0 then Some (error, imap, s)
     else let imap = \<lparr> im_blkno = XFS_FSB_TO_DADDR mp (int fsbno), im_len = to_u32 (XFS_FSB_TO_BB mp len),
          im_agblkno = nat (XFS_FSB_TO_AGBNO mp (int fsbno)), im_ioffset = nat (off mod 2 ^ 16),
          im_boffset = nat (off * 2 ^ sb_inodelog (m_sb mp) mod 2 ^ 16) \<rparr> in
       Some (if to_u64 (im_blkno imap + im_len imap) > to_u64 (XFS_FSB_TO_BB mp (int (sb_dblocks (m_sb mp))))
         then errno_code EINVAL else 0, imap, s) }"

section \<open>The buffer of an inode\<close>

definition XFS_DINODE_GOOD_VERSION :: "nat \<Rightarrow> bool" where
  "XFS_DINODE_GOOD_VERSION v \<longleftrightarrow> 1 \<le> v \<and> v \<le> 3"

text \<open>Without \<open>DEBUG\<close> only the first inode of the cluster is looked at.\<close>

definition di_ok :: "bytes \<Rightarrow> bool option" where
  "di_ok d = do {
     magic \<leftarrow> rd_be16 0 d;
     version \<leftarrow> rd_be 1 4 d;
     Some (magic = XFS_DINODE_MAGIC \<and> XFS_DINODE_GOOD_VERSION version) }"

definition xfs_imap_to_bp ::
    "('b, 's) buf_ops \<Rightarrow> xfs_imap \<Rightarrow> bool \<Rightarrow> 's \<Rightarrow> (int \<times> 'b option \<times> 's) option" where
  "xfs_imap_to_bp ops imap bulkstat s =
    (case op_readbuf ops (im_blkno imap) (to_s32 (im_len imap)) s of
       (None, s) \<Rightarrow> None
     | (Some bp, s) \<Rightarrow> do {
         ok \<leftarrow> di_ok (op_b_addr ops s bp);
         Some (if ok then (0, Some bp, s)
           else (errno_code (if bulkstat then EINVAL else EFSCORRUPTED), None, op_putbuf ops bp s)) })"

text \<open>Error, the inode with its place noted, the buffer, state.\<close>

definition xfs_itobp ::
    "('b, 's) buf_ops \<Rightarrow> 's chunk_lookup \<Rightarrow> xfs_mount \<Rightarrow> xfs_inode \<Rightarrow> int \<Rightarrow> bool \<Rightarrow> 's \<Rightarrow>
      (int \<times> xfs_inode \<times> 'b option \<times> 's) option" where
  "xfs_itobp ops find_chunk mp ip bno bulkstat s = do {
     (error, imap, s) \<leftarrow>
       (if i_blkno ip = 0
        then xfs_imap_at find_chunk mp (i_ino ip)
          \<lparr> im_blkno = bno, im_len = 0, im_agblkno = 0, im_ioffset = 0, im_boffset = 0 \<rparr> True s
        else Some (0, \<lparr> im_blkno = i_blkno ip, im_len = i_len ip, im_agblkno = 0, im_ioffset = 0,
          im_boffset = nat (i_boffset ip) \<rparr>, s));
     if error \<noteq> 0 then Some (error, ip, None, s)
     else do {
       let ip = ip \<lparr> i_blkno := im_blkno imap, i_len := im_len imap, i_boffset := int (im_boffset imap) \<rparr>;
       (error, bp, s) \<leftarrow> xfs_imap_to_bp ops imap bulkstat s;
       Some (error, ip, bp, s) } }"

section \<open>The copy in core\<close>

text \<open>An inode of version 1 has its link count in another field.\<close>

definition convert_v1 :: "xfs_icdinode \<Rightarrow> xfs_icdinode" where
  "convert_v1 d = (if di_version d = 1
     then d \<lparr> di_nlink := di_onlink d, di_onlink := 0, di_projid_lo := 0, di_projid_hi := 0 \<rparr> else d)"

text \<open>
  What \<open>libxfs_iread\<close> does between getting the buffer and releasing it; \<open>dip\<close> are the bytes of the buffer
  from the inode on. \<open>i_delayed_blks\<close>, which nothing reads, is left out.
\<close>

definition iread_fill :: "(nat \<Rightarrow> bytes) \<Rightarrow> xfs_mount \<Rightarrow> bytes \<Rightarrow> xfs_inode \<Rightarrow> (int \<times> xfs_inode) option" where
  "iread_fill junk mp dip ip = do {
     magic \<leftarrow> rd_be16 0 dip;
     if magic \<noteq> XFS_DINODE_MAGIC then Some (errno_code EINVAL, ip)
     else do {
       mode \<leftarrow> rd_be16 2 dip;
       (error, ip) \<leftarrow>
         (if mode \<noteq> 0 then do {
            d \<leftarrow> xfs_dinode_from_disk dip;
            xfs_iformat junk mp (ip \<lparr> i_d := d \<rparr>) dip }
          else do {
            version \<leftarrow> rd_be 1 4 dip;
            gen \<leftarrow> rd_be32 92 dip;
            flushiter \<leftarrow> rd_be16 30 dip;
            let ip = ip \<lparr> i_d := (i_d ip) \<lparr> di_magic := magic, di_version := version, di_gen := gen,
                di_flushiter := flushiter, di_mode := 0 \<rparr> \<rparr>;
            Some (0, ip \<lparr> i_df := (i_df ip) \<lparr> if_ext_max := ext_max (XFS_IFORK_DSIZE mp ip) \<rparr> \<rparr>) });
       Some (if error \<noteq> 0 then (error, ip)
         else let d = convert_v1 (i_d ip) in (0, ip \<lparr> i_d := d, i_size := di_size d \<rparr>)) } }"

definition libxfs_iread ::
    "('b, 's) buf_ops \<Rightarrow> 's chunk_lookup \<Rightarrow> (nat \<Rightarrow> bytes) \<Rightarrow> xfs_mount \<Rightarrow> nat \<Rightarrow> xfs_inode \<Rightarrow> int \<Rightarrow> 's \<Rightarrow>
      (int \<times> xfs_inode \<times> 's) option" where
  "libxfs_iread ops find_chunk junk mp ino ip bno s = do {
     let ip = ip \<lparr> i_ino := ino \<rparr>;
     (error, ip, bp, s) \<leftarrow> xfs_itobp ops find_chunk mp ip bno False s;
     if error \<noteq> 0 then Some (error, ip, s)
     else do {
       bp \<leftarrow> bp;
       (error, ip) \<leftarrow> iread_fill junk mp (drop (nat (i_boffset ip)) (op_b_addr ops s bp)) ip;
       Some (error, ip, op_putbuf ops bp s) } }"

section \<open>The place of an inode\<close>

lemma and_mask_nat:
  assumes "k \<le> 32"
  shows "i mod 2 ^ 32 AND XFS_INO_MASK k = i mod 2 ^ k"
proof -
  have "(2 :: nat) ^ k \<le> 2 ^ 32" by (rule power_increasing) (use assms in simp_all)
  then have "(2 :: nat) ^ k - 1 < 2 ^ 32" by (simp add: less_eq_Suc_le)
  then have "XFS_INO_MASK k = mask k" by (simp add: XFS_INO_MASK_def mask_eq_exp_minus_1)
  then have "i mod 2 ^ 32 AND XFS_INO_MASK k = i mod 2 ^ 32 mod 2 ^ k"
    by (simp add: take_bit_eq_mask [symmetric] take_bit_eq_mod)
  moreover have "(2 :: nat) ^ k dvd 2 ^ 32" using assms by (intro le_imp_power_dvd)
  ultimately show ?thesis by (simp add: mod_mod_cancel)
qed

lemma or_shift_nat:
  assumes "b < 2 ^ k"
  shows "a * 2 ^ k OR b = a * 2 ^ k + (b :: nat)"
proof -
  have b: "take_bit k b = b" using assms by (simp add: take_bit_nat_eq_self)
  have "push_bit k a AND take_bit k b = 0" by (rule bit_eqI) (auto simp: bit_simps)
  then have "push_bit k a + b = push_bit k a OR b" unfolding b by (rule disjunctive_add_eq_or)
  then show ?thesis by (simp add: push_bit_eq_mult)
qed

text \<open>A geometry whose fields agree with each other, and whose inodes are found without their B-tree.\<close>

definition ino_geom :: "xfs_mount \<Rightarrow> bool" where
  "ino_geom mp \<longleftrightarrow> (let sb = m_sb mp in
     geom_ok mp \<and> sb_inopblog sb + sb_inodelog sb = sb_blocklog sb \<and> sb_inopblock sb = 2 ^ sb_inopblog sb \<and>
     sb_blocksize sb = 2 ^ sb_blocklog sb \<and> sb_inodesize sb = 2 ^ sb_inodelog sb \<and>
     m_agino_log mp = sb_inopblog sb + sb_agblklog sb \<and> m_agino_log mp \<le> 32 \<and>
     sb_agblocks sb \<le> 2 ^ sb_agblklog sb \<and> sb_agcount sb < 2 ^ 32 \<and> sb_agcount sb * 2 ^ m_agino_log mp \<le> 2 ^ 64 \<and>
     m_blkbb_log mp = sb_blocklog sb - 9 \<and>
     int (sb_agcount sb) * int (sb_agblocks sb) * blksize mp < 2 ^ 62 \<and> sb_dblocks sb \<le> sb_agcount sb * sb_agblocks sb \<and>
     m_inode_cluster_size mp \<le> 2 ^ 16 \<and>
     (m_inode_cluster_size mp \<le> sb_blocksize sb \<or> m_inoalign_mask mp \<noteq> 0))"

text \<open>Group, block in the group and index in the block of an inode, by division.\<close>

definition ino_agno :: "xfs_mount \<Rightarrow> nat \<Rightarrow> nat" where
  "ino_agno mp ino = ino div 2 ^ (sb_inopblog (m_sb mp) + sb_agblklog (m_sb mp))"

definition ino_agbno :: "xfs_mount \<Rightarrow> nat \<Rightarrow> nat" where
  "ino_agbno mp ino = ino div 2 ^ sb_inopblog (m_sb mp) mod 2 ^ sb_agblklog (m_sb mp)"

definition ino_index :: "xfs_mount \<Rightarrow> nat \<Rightarrow> nat" where
  "ino_index mp ino = ino mod 2 ^ sb_inopblog (m_sb mp)"

definition ino_valid :: "xfs_mount \<Rightarrow> nat \<Rightarrow> bool" where
  "ino_valid mp ino \<longleftrightarrow> ino_agno mp ino < sb_agcount (m_sb mp) \<and> ino_agbno mp ino < sb_agblocks (m_sb mp)"

text \<open>The first byte of an inode on the device.\<close>

definition ino_addr :: "xfs_mount \<Rightarrow> nat \<Rightarrow> int" where
  "ino_addr mp ino =
     (int (ino_agno mp ino) * int (sb_agblocks (m_sb mp)) + int (ino_agbno mp ino)) * blksize mp +
     int (ino_index mp ino) * int (sb_inodesize (m_sb mp))"

lemma ino_geomD:
  assumes "ino_geom mp"
  shows "geom_ok mp" "sb_inopblog (m_sb mp) + sb_inodelog (m_sb mp) = sb_blocklog (m_sb mp)"
    "sb_inopblock (m_sb mp) = 2 ^ sb_inopblog (m_sb mp)" "sb_blocksize (m_sb mp) = 2 ^ sb_blocklog (m_sb mp)"
    "sb_inodesize (m_sb mp) = 2 ^ sb_inodelog (m_sb mp)"
    "m_agino_log mp = sb_inopblog (m_sb mp) + sb_agblklog (m_sb mp)"
    "sb_inopblog (m_sb mp) + sb_agblklog (m_sb mp) \<le> 32" "sb_agblocks (m_sb mp) \<le> 2 ^ sb_agblklog (m_sb mp)"
    "sb_agcount (m_sb mp) < 2 ^ 32"
    "sb_agcount (m_sb mp) * 2 ^ (sb_inopblog (m_sb mp) + sb_agblklog (m_sb mp)) \<le> 2 ^ 64"
    "m_blkbb_log mp = sb_blocklog (m_sb mp) - 9" "9 \<le> sb_blocklog (m_sb mp)" "sb_blocklog (m_sb mp) \<le> 16"
    "int (sb_agcount (m_sb mp)) * int (sb_agblocks (m_sb mp)) * blksize mp < 2 ^ 62"
    "m_inode_cluster_size mp \<le> 2 ^ 16"
    "m_inode_cluster_size mp \<le> sb_blocksize (m_sb mp) \<or> m_inoalign_mask mp \<noteq> 0"
    "sb_dblocks (m_sb mp) \<le> sb_agcount (m_sb mp) * sb_agblocks (m_sb mp)"
  using assms by (auto simp: ino_geom_def Let_def geom_ok_def)

text \<open>The macros compute these parts.\<close>

lemma ino_parts:
  assumes g: "ino_geom mp"
  shows "XFS_AGINO_TO_AGBNO mp (XFS_INO_TO_AGINO mp ino) = ino_agbno mp ino"
    and "XFS_INO_TO_OFFSET mp ino = ino_index mp ino" and "ino_index mp ino < 2 ^ sb_inopblog (m_sb mp)"
    and "ino_agbno mp ino < 2 ^ sb_agblklog (m_sb mp)"
proof -
  note G = ino_geomD [OF g]
  let ?I = "sb_inopblog (m_sb mp)" and ?L = "sb_agblklog (m_sb mp)"
  have "XFS_INO_TO_AGINO mp ino = ino mod 2 ^ (?I + ?L)"
    using and_mask_nat [OF G(7), of ino] by (simp add: XFS_INO_TO_AGINO_def G(6))
  also have "\<dots> = 2 ^ ?I * (ino div 2 ^ ?I mod 2 ^ ?L) + ino mod 2 ^ ?I" by (simp add: power_add mod_mult2_eq)
  finally show "XFS_AGINO_TO_AGBNO mp (XFS_INO_TO_AGINO mp ino) = ino_agbno mp ino"
    by (simp add: XFS_AGINO_TO_AGBNO_def ino_agbno_def)
  show "XFS_INO_TO_OFFSET mp ino = ino_index mp ino"
    using and_mask_nat [of ?I ino] G(7) by (simp add: XFS_INO_TO_OFFSET_def ino_index_def)
qed (simp_all add: ino_index_def ino_agbno_def)

lemma ino_rejoin:
  assumes g: "ino_geom mp" and a: "XFS_INO_TO_AGNO mp ino < sb_agcount (m_sb mp)"
  shows "ino = XFS_AGINO_TO_INO mp (XFS_INO_TO_AGNO mp ino) (XFS_INO_TO_AGINO mp ino) \<longleftrightarrow>
    ino_agno mp ino < sb_agcount (m_sb mp)"
proof -
  note G = ino_geomD [OF g]
  let ?K = "sb_inopblog (m_sb mp) + sb_agblklog (m_sb mp)" and ?a = "XFS_INO_TO_AGNO mp ino"
  have ag: "?a = ino_agno mp ino mod 2 ^ 32" by (simp add: XFS_INO_TO_AGNO_def ino_agno_def G(6))
  have i: "XFS_INO_TO_AGINO mp ino = ino mod 2 ^ ?K"
    using and_mask_nat [OF G(7), of ino] by (simp add: XFS_INO_TO_AGINO_def G(6))
  have "?a * 2 ^ ?K < sb_agcount (m_sb mp) * 2 ^ ?K" using a by (intro mult_strict_right_mono) simp_all
  also have "\<dots> \<le> 2 ^ 64" by (rule G(10))
  finally have "XFS_AGINO_TO_INO mp ?a (XFS_INO_TO_AGINO mp ino) = ?a * 2 ^ ?K + ino mod 2 ^ ?K"
    by (simp add: XFS_AGINO_TO_INO_def G(6) i or_shift_nat)
  moreover have "ino = ino_agno mp ino * 2 ^ ?K + ino mod 2 ^ ?K" unfolding ino_agno_def by (simp only: div_mult_mod_eq)
  ultimately have "ino = XFS_AGINO_TO_INO mp ?a (XFS_INO_TO_AGINO mp ino) \<longleftrightarrow> ino_agno mp ino = ?a"
    by (metis add_right_cancel mult_right_cancel power_not_zero zero_neq_numeral)
  moreover have "ino_agno mp ino = ?a \<longleftrightarrow> ino_agno mp ino < sb_agcount (m_sb mp)"
    using ag a G(9) by (metis mod_less less_trans)
  ultimately show ?thesis by simp
qed

text \<open>The disk address of a block given by its group and its number there.\<close>

lemma fsb_daddr:
  assumes g: "ino_geom mp" and a: "agno < sb_agcount (m_sb mp)" and b: "cab < sb_agblocks (m_sb mp)"
  defines "blk \<equiv> int agno * int (sb_agblocks (m_sb mp)) + int cab"
  shows "XFS_FSB_TO_DADDR mp (int (nat (XFS_AGB_TO_FSB mp (int agno) (int cab)))) = blk * 2 ^ m_blkbb_log mp"
    and "2 ^ m_blkbb_log mp * 512 = blksize mp" and "0 \<le> blk" and "blk * blksize mp < 2 ^ 62"
proof -
  note G = ino_geomD [OF g]
  let ?L = "sb_agblklog (m_sb mp)" and ?K = "sb_inopblog (m_sb mp) + sb_agblklog (m_sb mp)"
  have cab: "cab < 2 ^ ?L" "cab < 2 ^ 32"
  proof -
    show "cab < 2 ^ ?L" using b G(8) by linarith
    also have "(2 :: nat) ^ ?L \<le> 2 ^ 32" by (rule power_increasing) (use G(7) in simp_all)
    finally show "cab < 2 ^ 32" .
  qed
  have "agno * 2 ^ ?L \<le> agno * 2 ^ ?K" by (intro mult_left_mono power_increasing) simp_all
  also have "\<dots> < sb_agcount (m_sb mp) * 2 ^ ?K" using a by (intro mult_strict_right_mono) simp_all
  also have "\<dots> \<le> 2 ^ 64" by (rule G(10))
  finally have "agno * 2 ^ ?L < 2 ^ 64" .
  then have "int (agno * 2 ^ ?L) < 2 ^ 64" by (metis of_nat_less_numeral_power_cancel_iff)
  then have "to_u64 (int agno * 2 ^ ?L) = int (agno * 2 ^ ?L)" by simp
  then have "XFS_AGB_TO_FSB mp (int agno) (int cab) = int (agno * 2 ^ ?L OR cab)"
    by (simp only: XFS_AGB_TO_FSB_def of_nat_or_eq)
  then have fsb: "nat (XFS_AGB_TO_FSB mp (int agno) (int cab)) = agno * 2 ^ ?L + cab"
    by (simp only: nat_int or_shift_nat [OF cab(1)])
  have c: "int cab < 2 ^ ?L" using cab(1) by (metis of_nat_less_numeral_power_cancel_iff)
  then have q: "int (agno * 2 ^ ?L + cab) div 2 ^ ?L = int agno" "int (agno * 2 ^ ?L + cab) mod 2 ^ ?L = int cab"
    by simp_all
  show bb: "2 ^ m_blkbb_log mp * 512 = blksize mp"
    using G(11,12) power_add [of "2 :: int" "sb_blocklog (m_sb mp) - 9" 9] by simp
  show nn: "0 \<le> blk" by (simp add: blk_def)
  have "(int agno + 1) * int (sb_agblocks (m_sb mp)) \<le> int (sb_agcount (m_sb mp)) * int (sb_agblocks (m_sb mp))"
    using a by (intro mult_right_mono) simp_all
  then have lt: "blk < int (sb_agcount (m_sb mp)) * int (sb_agblocks (m_sb mp))"
    using b by (simp add: blk_def algebra_simps)
  then have "blk * blksize mp < int (sb_agcount (m_sb mp)) * int (sb_agblocks (m_sb mp)) * blksize mp"
    by (intro mult_strict_right_mono) simp_all
  then show bound: "blk * blksize mp < 2 ^ 62" using G(14) by linarith
  have p: "blk * 1 \<le> blk * 2 ^ m_blkbb_log mp" using nn by (intro mult_left_mono) simp_all
  moreover have "blk * 2 ^ m_blkbb_log mp * 512 < 2 ^ 62" using bound bb by (simp add: mult.assoc)
  ultimately have u: "blk < 2 ^ 62" "blk * 2 ^ m_blkbb_log mp < 2 ^ 62" "0 \<le> blk * 2 ^ m_blkbb_log mp" using nn by auto
  have "to_u32 (int agno) = int agno" "to_u32 (int cab) = int cab"
    using a G(9) cab(2) by (auto simp: to_u32_def)
  then show "XFS_FSB_TO_DADDR mp (int (nat (XFS_AGB_TO_FSB mp (int agno) (int cab)))) = blk * 2 ^ m_blkbb_log mp"
    using u nn
    by (simp add: fsb XFS_FSB_TO_DADDR_def XFS_FSB_TO_AGNO_def XFS_FSB_TO_AGBNO_def q XFS_AGB_TO_DADDR_def
        XFS_FSB_TO_BB_def blk_def [symmetric] del: of_nat_add of_nat_mult)
qed

text \<open>\<open>xfs_dilocate\<close>: a cluster of blocks that contains the block of the inode.\<close>

lemma dilocate_invalid:
  assumes g: "ino_geom mp" and i: "\<not> ino_valid mp ino"
  shows "xfs_dilocate find_chunk mp ino bno lookup s = Some (errno_code EINVAL, bno, 0, 0, s)"
  using i ino_parts(1) [OF g, of ino] ino_rejoin [OF g, of ino]
  by (auto simp: xfs_dilocate_def Let_def ino_valid_def not_less)

lemma dilocate_valid:
  assumes g: "ino_geom mp" and i: "ino_valid mp ino"
  shows "\<exists>cab bpc. xfs_dilocate find_chunk mp ino NULLFSBLOCK True s = Some (0, nat (XFS_AGB_TO_FSB mp (int (ino_agno mp ino)) (int cab)),
      bpc, (int (ino_agbno mp ino) - int cab) * 2 ^ sb_inopblog (m_sb mp) + int (ino_index mp ino), s) \<and>
    cab \<le> ino_agbno mp ino \<and> int (ino_agbno mp ino) < int cab + bpc \<and> bpc * blksize mp \<le> 2 ^ 16"
proof -
  note G = ino_geomD [OF g]
  let ?b = "ino_agbno mp ino" and ?i = "ino_index mp ino" and ?I = "sb_inopblog (m_sb mp)" and ?B = "sb_blocklog (m_sb mp)"
  have no: "ino_agno mp ino < sb_agcount (m_sb mp)" "?b < sb_agblocks (m_sb mp)" using i by (auto simp: ino_valid_def)
  have ag: "XFS_INO_TO_AGNO mp ino = ino_agno mp ino"
    using no(1) G(9) by (simp add: XFS_INO_TO_AGNO_def ino_agno_def G(6))
  have off: "int ?i < 2 ^ ?I" using ino_parts(3) [OF g] by (metis of_nat_less_numeral_power_cancel_iff)
  have pI: "(2 :: int) ^ ?I \<le> 2 ^ 16" by (rule power_increasing) (use G(2,13) in simp_all)
  have "int ?i < 2 ^ 16" using off pI by (rule order.strict_trans2)
  then have i32: "to_s32 (int ?i) = int ?i" by simp
  have guard: "\<not> (ino_agno mp ino \<ge> sb_agcount (m_sb mp) \<or> ?b \<ge> sb_agblocks (m_sb mp) \<or>
      ino \<noteq> XFS_AGINO_TO_INO mp (ino_agno mp ino) (XFS_INO_TO_AGINO mp ino))"
    using no ino_rejoin [OF g, of ino] by (simp add: ag)
  note parts = ino_parts(1,2) [OF g, of ino]
  show ?thesis
  proof (cases "m_inode_cluster_size mp \<le> sb_blocksize (m_sb mp)")
    case True
    have "(2 :: int) ^ ?B \<le> 2 ^ 16" by (rule power_increasing) (use G(13) in simp_all)
    then show ?thesis
      unfolding xfs_dilocate_def Let_def ag parts if_not_P [OF guard]
      using True i32 by (intro exI [of _ ?b] exI [of _ 1]) simp
  next
    case False
    define bpc where "bpc = m_inode_cluster_size mp div 2 ^ ?B"
    define o' where "o' = ?b AND nat (to_u32 (m_inoalign_mask mp))"
    define cab where "cab = ?b - o' + o' div bpc * bpc"
    have al: "m_inoalign_mask mp \<noteq> 0" using False G(16) by simp
    have "2 ^ ?B \<le> m_inode_cluster_size mp" using False G(4) by simp
    then have bpc: "0 < bpc" by (simp add: bpc_def div_greater_zero_iff)
    have "bpc * 2 ^ ?B \<le> m_inode_cluster_size mp" by (simp add: bpc_def)
    then have "bpc * 2 ^ ?B \<le> 2 ^ 16" using G(15) by linarith
    then have "int (bpc * 2 ^ ?B) \<le> 2 ^ 16" by (metis of_nat_le_numeral_power_cancel_iff)
    then have size: "int bpc * blksize mp \<le> 2 ^ 16" by simp
    have "int o' \<le> int ?b" unfolding o'_def of_nat_and_eq by (rule AND_upper1) simp
    then have o: "o' \<le> ?b" by simp
    have dm: "o' = o' div bpc * bpc + o' mod bpc" "o' mod bpc < bpc" using bpc by simp_all
    define q where "q = o' div bpc * bpc"
    have "o' = q + o' mod bpc" "cab = ?b - o' + q" using dm(1) by (simp_all add: q_def cab_def)
    then have cab: "cab \<le> ?b" "?b < cab + bpc" using o dm(2) by linarith+
    have "?b < 2 ^ 32"
    proof -
      have "?b < 2 ^ sb_agblklog (m_sb mp)" by (rule ino_parts(4) [OF g])
      also have "\<dots> \<le> (2 :: nat) ^ 32" by (rule power_increasing) (use G(7) in simp_all)
      finally show ?thesis .
    qed
    then have "to_u32 (int cab) = int cab" using cab(1) by simp
    moreover have "int (?b - o') + int_div (int o') (int bpc) * int bpc = int cab"
      by (simp add: int_div_def cab_def zdiv_int)
    ultimately have u: "to_u32 (int (?b - o') + int_div (int o') (int bpc) * int bpc) = int cab" by simp
    have "int (?b - cab) * 2 ^ ?I + int ?i \<le> int bpc * blksize mp"
    proof -
      have "int (?b - cab) + 1 \<le> int bpc" using cab by linarith
      then have "(int (?b - cab) + 1) * 2 ^ ?I \<le> int bpc * 2 ^ ?I" by (intro mult_right_mono) simp_all
      also have "\<dots> \<le> int bpc * blksize mp"
        by (intro mult_left_mono power_increasing) (use G(2) in simp_all)
      finally show ?thesis using off by (simp only: distrib_right mult_1_left)
    qed
    then have fits: "to_s32 ((int ?b - int cab) * 2 ^ ?I + int ?i) = (int ?b - int cab) * 2 ^ ?I + int ?i"
      using cab(1) size by (simp add: of_nat_diff)
    have "xfs_dilocate find_chunk mp ino NULLFSBLOCK True s = Some (0, nat (XFS_AGB_TO_FSB mp (int (ino_agno mp ino)) (int cab)),
        int bpc, (int ?b - int cab) * 2 ^ ?I + int ?i, s)"
      unfolding xfs_dilocate_def Let_def ag parts if_not_P [OF guard]
      using False al bpc u fits
      by (simp add: dilocate_cluster_def Let_def bpc_def [symmetric] o'_def [symmetric] G(3) parts)
    then show ?thesis using cab size by (intro exI [of _ cab] exI [of _ "int bpc"]) simp
  qed
qed

text \<open>The mapping of an inode, from an empty one; what it is does not depend on the state.\<close>

definition imap0 :: xfs_imap where
  "imap0 = \<lparr> im_blkno = 0, im_len = 0, im_agblkno = 0, im_ioffset = 0, im_boffset = 0 \<rparr>"

definition place :: "xfs_mount \<Rightarrow> nat \<Rightarrow> int \<times> xfs_imap" where
  "place mp ino = (case xfs_imap_at (\<lambda>_ _ _. None) mp ino imap0 True () of
     Some (e, imap, _) \<Rightarrow> (e, imap) | None \<Rightarrow> (errno_code EINVAL, imap0))"

text \<open>
  The mapping is right: the address is that of the inode, the inode lies inside the buffer, and the error says
  whether the buffer lies inside the device.
\<close>

definition place_ok :: "xfs_mount \<Rightarrow> nat \<Rightarrow> int \<Rightarrow> xfs_imap \<Rightarrow> bool" where
  "place_ok mp ino e imap \<longleftrightarrow> (if ino_valid mp ino
     then im_blkno imap * 512 + int (im_boffset imap) = ino_addr mp ino \<and>
       int (im_boffset imap) + int (sb_inodesize (m_sb mp)) \<le> im_len imap * 512 \<and> im_len imap * 512 \<le> 2 ^ 16 \<and>
       0 \<le> im_blkno imap \<and> 0 \<le> im_len imap \<and>
       e = (if im_blkno imap + im_len imap \<le> int (sb_dblocks (m_sb mp)) * 2 ^ m_blkbb_log mp
         then 0 else errno_code EINVAL)
     else e = errno_code EINVAL)"

lemma imap_ok:
  assumes g: "ino_geom mp"
  shows "\<exists>e imap. xfs_imap_at find_chunk mp ino imap0 True s = Some (e, imap, s) \<and> place_ok mp ino e imap"
proof (cases "ino_valid mp ino")
  case False
  then show ?thesis
    using dilocate_invalid [OF g False, of find_chunk NULLFSBLOCK True s]
    by (simp add: xfs_imap_at_def imap0_def place_ok_def)
next
  case True
  note G = ino_geomD [OF g]
  let ?a = "ino_agno mp ino" and ?b = "ino_agbno mp ino" and ?i = "ino_index mp ino"
  let ?I = "sb_inopblog (m_sb mp)" and ?S = "sb_inodelog (m_sb mp)" and ?BB = "m_blkbb_log mp"
  have no: "?a < sb_agcount (m_sb mp)" "?b < sb_agblocks (m_sb mp)" using True by (auto simp: ino_valid_def)
  obtain cab bpc where d: "xfs_dilocate find_chunk mp ino NULLFSBLOCK True s = Some (0, nat (XFS_AGB_TO_FSB mp (int ?a) (int cab)),
      bpc, (int ?b - int cab) * 2 ^ ?I + int ?i, s)"
    and c: "cab \<le> ?b" "int ?b < int cab + bpc" "bpc * blksize mp \<le> 2 ^ 16"
    using dilocate_valid [OF g True, of find_chunk s] by blast
  note D = fsb_daddr [OF g no(1) order.strict_trans1 [OF c(1) no(2)]]
  let ?blk = "int ?a * int (sb_agblocks (m_sb mp)) + int cab" and ?off = "(int ?b - int cab) * 2 ^ ?I + int ?i"
  have B: "(2 :: int) ^ ?I * 2 ^ ?S = blksize mp" using G(2) by (simp add: power_add [symmetric])
  have off: "int ?i < 2 ^ ?I" using ino_parts(3) [OF g] by (metis of_nat_less_numeral_power_cancel_iff)
  have boff: "?off * 2 ^ ?S = (int ?b - int cab) * blksize mp + int ?i * 2 ^ ?S"
    using B by (simp add: distrib_right mult.assoc)
  have "int ?i + 1 \<le> 2 ^ ?I" using off by linarith
  then have ii: "(int ?i + 1) * 2 ^ ?S \<le> blksize mp"
    unfolding B [symmetric] by (intro mult_right_mono) simp_all
  have bb: "(int ?b - int cab + 1) * blksize mp \<le> bpc * blksize mp"
    using c(2) by (intro mult_right_mono) simp_all
  have end_: "?off * 2 ^ ?S + 2 ^ ?S \<le> bpc * blksize mp"
    unfolding boff using ii bb by (simp add: distrib_right)
  have nn: "0 \<le> ?off * 2 ^ ?S" using c(1) by simp
  have lt: "?off * 2 ^ ?S < 2 ^ 16" using end_ c(3) zero_less_power [of "2 :: int" ?S] by linarith
  have len: "bpc * 2 ^ ?BB * 512 = bpc * blksize mp" using D(2) by (simp add: mult.assoc)
  have bpc: "0 < bpc" using c(1,2) by linarith
  then have pos: "0 \<le> bpc * 2 ^ ?BB" by simp
  have blen: "bpc * 2 ^ ?BB \<le> 2 ^ 16" using len c(3) pos by linarith
  define X where "X = ?blk * 2 ^ ?BB"
  have "X * 512 < 2 ^ 62" unfolding X_def mult.assoc D(2) by (rule D(4))
  then have "X < 2 ^ 60" by simp
  moreover have "0 \<le> X" unfolding X_def using D(3) by (intro mult_nonneg_nonneg) simp_all
  ultimately have small: "?blk * 2 ^ ?BB < 2 ^ 60" "0 \<le> ?blk * 2 ^ ?BB" by (simp_all add: X_def)
  have db: "int (sb_dblocks (m_sb mp)) * blksize mp < 2 ^ 62"
  proof -
    have "int (sb_dblocks (m_sb mp)) \<le> int (sb_agcount (m_sb mp) * sb_agblocks (m_sb mp))" using G(17) by (simp only: of_nat_le_iff)
    then have "int (sb_dblocks (m_sb mp)) * blksize mp \<le> int (sb_agcount (m_sb mp)) * int (sb_agblocks (m_sb mp)) * blksize mp"
      by (intro mult_right_mono) simp_all
    then show ?thesis using G(14) by linarith
  qed
  have "int (sb_dblocks (m_sb mp)) * 2 ^ ?BB * 512 < 2 ^ 62" unfolding mult.assoc D(2) by (rule db)
  then have db: "int (sb_dblocks (m_sb mp)) * 2 ^ ?BB < 2 ^ 60" by simp
  let ?imap = "\<lparr> im_blkno = ?blk * 2 ^ ?BB, im_len = bpc * 2 ^ ?BB,
      im_agblkno = nat (XFS_FSB_TO_AGBNO mp (int (nat (XFS_AGB_TO_FSB mp (int ?a) (int cab))))), im_ioffset = nat (?off mod 2 ^ 16),
      im_boffset = nat (?off * 2 ^ ?S) \<rparr>"
  let ?e = "if ?blk * 2 ^ ?BB + bpc * 2 ^ ?BB \<le> int (sb_dblocks (m_sb mp)) * 2 ^ ?BB then 0 else errno_code EINVAL"
  have "to_u32 (bpc * 2 ^ ?BB) = bpc * 2 ^ ?BB" using pos blen by simp
  moreover have "?off * 2 ^ ?S mod 2 ^ 16 = ?off * 2 ^ ?S" using nn lt by (rule mod_pos_pos_trivial)
  moreover have "to_u64 (?blk * 2 ^ ?BB + bpc * 2 ^ ?BB) = ?blk * 2 ^ ?BB + bpc * 2 ^ ?BB"
    using small pos blen
    by (intro to_u64_id) (linarith, rule le_less_trans [of _ "2 ^ 60 + 2 ^ 16"], linarith, simp)
  moreover have "to_u64 (int (sb_dblocks (m_sb mp)) * 2 ^ ?BB) = int (sb_dblocks (m_sb mp)) * 2 ^ ?BB"
    using db by simp
  ultimately have r: "xfs_imap_at find_chunk mp ino imap0 True s = Some (?e, ?imap, s)"
    using d D(1) by (simp add: xfs_imap_at_def imap0_def XFS_FSB_TO_BB_def not_less)
  have "place_ok mp ino ?e ?imap"
  proof -
    have isz: "int (sb_inodesize (m_sb mp)) = 2 ^ ?S" using G(5) by simp
    have bo: "int (nat (?off * 2 ^ ?S)) = ?off * 2 ^ ?S" using nn by simp
    have "?blk * 2 ^ ?BB * 512 = ?blk * blksize mp" unfolding mult.assoc D(2) ..
    moreover have "(int ?a * int (sb_agblocks (m_sb mp)) + int ?b) * blksize mp =
        ?blk * blksize mp + (int ?b - int cab) * blksize mp" by (simp only: distrib_right left_diff_distrib)
    ultimately have adr: "?blk * 2 ^ ?BB * 512 + ?off * 2 ^ ?S = ino_addr mp ino"
      unfolding ino_addr_def isz boff by linarith
    have e2: "?off * 2 ^ ?S + int (sb_inodesize (m_sb mp)) \<le> bpc * 2 ^ ?BB * 512" unfolding isz len by (rule end_)
    show ?thesis
      unfolding place_ok_def if_P [OF True] xfs_imap.select_convs bo
      using adr e2 len c(3) small(2) pos by (intro conjI refl; linarith)
  qed
  then show ?thesis using r by blast
qed

lemma imap_at_any:
  assumes "ino_geom mp"
  shows "xfs_imap_at find_chunk mp ino imap0 True s = Some (fst (place mp ino), snd (place mp ino), s)"
proof -
  note G = ino_geomD [OF assms]
  have "xfs_dilocate find_chunk mp ino bno True s =
      map_option (\<lambda>(e, b, l, o', _). (e, b, l, o', s)) (xfs_dilocate (\<lambda>_ _ _. None) mp ino bno True ())" for bno
    using G(16) by (auto simp: xfs_dilocate_def Let_def split: prod.splits)
  then have "xfs_imap_at find_chunk mp ino imap0 True s =
      map_option (\<lambda>(e, i, _). (e, i, s)) (xfs_imap_at (\<lambda>_ _ _. None) mp ino imap0 True ())"
    by (auto simp: xfs_imap_at_def Let_def map_option_case split: option.splits bind_splits)
  then show ?thesis using imap_ok [OF assms, of find_chunk ino s] by (auto simp: place_def split: option.splits)
qed

section \<open>Reading an inode from a device\<close>

text \<open>Memory cleared by \<open>kmem_zone_zalloc\<close>.\<close>

definition zero_inode :: xfs_inode where
  "zero_inode = (let t0 = \<lparr> t_sec = 0, t_nsec = 0 \<rparr> in
     \<lparr> i_ino = 0, i_blkno = 0, i_len = 0, i_boffset = 0, i_afp = None, i_df = zero_fork,
       i_d = \<lparr> di_magic = 0, di_mode = 0, di_version = 0, di_format = FMT_DEV, di_onlink = 0, di_uid = 0, di_gid = 0,
         di_nlink = 0, di_projid_lo = 0, di_projid_hi = 0, di_pad = replicate 6 0, di_flushiter = 0,
         di_atime = t0, di_mtime = t0, di_ctime = t0, di_size = 0, di_nblocks = 0, di_extsize = 0, di_nextents = 0,
         di_anextents = 0, di_forkoff = 0, di_aformat = FMT_DEV, di_dmevmask = 0, di_dmstate = 0, di_flags = 0,
         di_gen = 0 \<rparr>, i_size = 0, ili_fields = 0 \<rparr>)"

lemma zero_inode_simps [simp]: "i_blkno zero_inode = 0" "i_df zero_inode = zero_fork" "i_ino zero_inode = 0"
  by (simp_all add: zero_inode_def Let_def)

text \<open>Reading inode \<open>ino\<close> into the memory \<open>ip\<close>, as a function of what the device holds.\<close>

definition iread_dev ::
    "(nat \<Rightarrow> bytes) \<Rightarrow> xfs_mount \<Rightarrow> (int \<Rightarrow> int \<Rightarrow> bytes option) \<Rightarrow> nat \<Rightarrow> xfs_inode \<Rightarrow> (int \<times> xfs_inode) option" where
  "iread_dev junk mp dev ino ip = (case place mp ino of (e, imap) \<Rightarrow>
     if e \<noteq> 0 then Some (e, ip \<lparr> i_ino := ino \<rparr>)
     else do {
       d \<leftarrow> dev (im_blkno imap) (to_s32 (im_len imap));
       ok \<leftarrow> di_ok d;
       let ip = ip \<lparr> i_ino := ino, i_blkno := im_blkno imap, i_len := im_len imap, i_boffset := int (im_boffset imap) \<rparr>;
       if ok then iread_fill junk mp (drop (im_boffset imap) d) ip else Some (errno_code EFSCORRUPTED, ip) })"

lemma idestroy_ino [simp]: "i_ino (xfs_idestroy_data ip) = i_ino ip"
  by (simp add: xfs_idestroy_data_def Let_def)

lemma iformat_data_ino: "iformat_data junk mp ip dip = Some (e, ip') \<Longrightarrow> i_ino ip' = i_ino ip"
  by (auto simp: iformat_data_def Let_def bind_eq_Some_conv split: if_split_asm)

lemma iformat_attr_ino: "iformat_attr junk mp ip dip = Some (e, ip') \<Longrightarrow> i_ino ip' = i_ino ip"
  by (auto simp: iformat_attr_def Let_def bind_eq_Some_conv split: if_split_asm)

lemma iformat_ino:
  assumes "xfs_iformat junk mp ip dip = Some (e, ip')"
  shows "i_ino ip' = i_ino ip"
proof -
  define ip1 where "ip1 = ip \<lparr> i_df := (i_df ip) \<lparr> if_ext_max := ext_max (XFS_IFORK_DSIZE mp ip) \<rparr> \<rparr>"
  consider "ip' = ip1" | e1 ip2 where "iformat_data junk mp ip1 dip = Some (e1, ip2)"
    "ip' = ip2 \<or> iformat_attr junk mp ip2 dip = Some (e, ip')"
    using assms by (auto simp: xfs_iformat_def Let_def ip1_def [symmetric] bind_eq_Some_conv split: if_split_asm)
  then have "i_ino ip' = i_ino ip1" by cases (auto dest!: iformat_data_ino iformat_attr_ino)
  then show ?thesis by (simp add: ip1_def)
qed

lemma iread_fill_ino:
  assumes r: "iread_fill junk mp dip ip = Some (e, ip')"
  shows "i_ino ip' = i_ino ip"
proof -
  obtain magic where m: "rd_be16 0 dip = Some magic" using r by (auto simp: iread_fill_def bind_eq_Some_conv)
  show ?thesis
  proof (cases "magic = XFS_DINODE_MAGIC")
    case False
    then show ?thesis using r m by (simp add: iread_fill_def)
  next
    case mg: True
    obtain mode where mo: "rd_be16 2 dip = Some mode" using r m mg by (auto simp: iread_fill_def bind_eq_Some_conv)
    show ?thesis
    proof (cases "mode = 0")
      case False
      obtain d e1 ip1 where "xfs_iformat junk mp (ip \<lparr> i_d := d \<rparr>) dip = Some (e1, ip1)" "i_ino ip' = i_ino ip1"
        using r m mg mo False by (auto simp: iread_fill_def bind_eq_Some_conv Let_def split: if_split_asm)
      then show ?thesis using iformat_ino by fastforce
    next
      case True
      then show ?thesis using r m mg mo by (auto simp: iread_fill_def bind_eq_Some_conv Let_def)
    qed
  qed
qed

lemma iread_dev_ino: "iread_dev junk mp dev ino ip = Some (e, ip') \<Longrightarrow> i_ino ip' = ino"
  by (auto simp: iread_dev_def Let_def bind_eq_Some_conv dest!: iread_fill_ino split: prod.splits if_split_asm)

context buf_store
begin

lemma iread_from_dev:
  assumes g: "ino_geom mp" and i: "inv s" and b: "i_blkno ip = 0"
    and r: "iread_dev junk mp dev ino ip = Some (e, ip')"
  shows "\<exists>s'. libxfs_iread ops find_chunk junk mp ino ip 0 s = Some (e, ip', s') \<and> inv s'"
proof -
  obtain e0 imap where p: "place mp ino = (e0, imap)" by fastforce
  have at: "xfs_imap_at find_chunk mp ino
      \<lparr> im_blkno = 0, im_len = 0, im_agblkno = 0, im_ioffset = 0, im_boffset = 0 \<rparr> True s = Some (e0, imap, s)"
    using imap_at_any [OF g, of find_chunk ino s] p by (simp add: imap0_def)
  show ?thesis
  proof (cases "e0 = 0")
    case False
    then have "ip' = ip \<lparr> i_ino := ino \<rparr>" "e = e0" using p r by (simp_all add: iread_dev_def)
    then show ?thesis using at b i False by (simp add: libxfs_iread_def xfs_itobp_def)
  next
    case True
    obtain d ok where d: "dev (im_blkno imap) (to_s32 (im_len imap)) = Some d" "di_ok d = Some ok"
      using r p True by (auto simp: iread_dev_def bind_eq_Some_conv)
    obtain bp s1 where bp: "op_readbuf ops (im_blkno imap) (to_s32 (im_len imap)) s = (Some bp, s1)"
      "op_b_addr ops s1 bp = d" "inv (op_putbuf ops bp s1)"
      using read_ok [OF i d(1)] by blast
    show ?thesis
      using at p r b True d bp
      by (cases ok) (simp_all add: libxfs_iread_def xfs_itobp_def xfs_imap_to_bp_def iread_dev_def)
  qed
qed

end

text \<open>A well-formed inode on the device.\<close>

definition inode_at ::
    "(int \<Rightarrow> int \<Rightarrow> bytes option) \<Rightarrow> xfs_mount \<Rightarrow> nat \<Rightarrow> xfs_icdinode \<Rightarrow> body \<Rightarrow> bool" where
  "inode_at dev mp ino d b \<longleftrightarrow> (\<exists>imap blk ext tail.
     place mp ino = (0, imap) \<and> dev (im_blkno imap) (to_s32 (im_len imap)) = Some blk \<and> di_ok blk = Some True \<and>
     drop (im_boffset imap) blk = disk_inode d ext (body_bytes b @ tail) \<and>
     disk_inode_ok mp d ext \<and> body_ok mp d b \<and> int (length (body_bytes b)) \<le> XFS_LITINO mp (di_version d) \<and>
     di_magic d = XFS_DINODE_MAGIC \<and> di_mode d \<noteq> 0)"

lemma from_disk_fields:
  "xfs_dinode_from_disk x = Some d \<Longrightarrow> rd_be16 0 x = Some (di_magic d) \<and> rd_be16 2 x = Some (di_mode d)"
  by (auto simp: xfs_dinode_from_disk_def Let_def rd_be_def rd_bytes_def split: if_split_asm)

lemma iread_dev_ok:
  assumes at: "inode_at dev mp ino d b" and j: "junk_ok junk" and inl: "length (if_inline_data (i_df ip)) = 32"
  shows "\<exists>ip'. iread_dev junk mp dev ino ip = Some (0, ip') \<and> i_d ip' = convert_v1 d \<and> fork_holds (i_df ip') b \<and>
    i_size ip' = di_size d"
proof -
  obtain imap blk ext tail where a: "place mp ino = (0, imap)" "dev (im_blkno imap) (to_s32 (im_len imap)) = Some blk"
    "di_ok blk = Some True" "drop (im_boffset imap) blk = disk_inode d ext (body_bytes b @ tail)"
    and ok: "disk_inode_ok mp d ext" "body_ok mp d b" "int (length (body_bytes b)) \<le> XFS_LITINO mp (di_version d)"
    and m: "di_magic d = XFS_DINODE_MAGIC" "di_mode d \<noteq> 0"
    using at unfolding inode_at_def by blast
  let ?dip = "disk_inode d ext (body_bytes b @ tail)"
  let ?ip = "ip \<lparr> i_ino := ino, i_blkno := im_blkno imap, i_len := im_len imap, i_boffset := int (im_boffset imap), i_d := d \<rparr>"
  have f: "xfs_dinode_from_disk ?dip = Some d"
    using dinode_from_to ok(1) by (simp add: disk_inode_def disk_inode_ok_def)
  obtain f where fmt: "xfs_iformat junk mp ?ip ?dip = Some (0, ?ip \<lparr> i_df := f \<rparr>)" "fork_holds f b"
    using iformat_ok [OF ok, of ?ip junk tail] inl j by auto
  have "di_size (convert_v1 d) = di_size d" by (simp add: convert_v1_def)
  then show ?thesis
    using a f fmt m from_disk_fields [OF f]
    by (simp add: iread_dev_def iread_fill_def Let_def)
qed

end
