(* ===== verification/Bcache_Read.thy ===== *)
theory Bcache_Read
  imports Bufcache Dir_Lookup Inode_Read
begin

text \<open>
  The readers over the buffer cache of \<open>Bufcache\<close>: file contents (\<open>xfs_readfile\<close>) and directories of
  one block (\<open>xfs_dir2_block_getdents\<close>). The contract \<open>buf_store\<close> holds of the cache's own operations
  and invariant, and with it the contract \<open>dir_stream\<close> of the directory reader.
\<close>

section \<open>The buffer cache as a store\<close>

interpretation bcs: buf_store "bcache_buf_ops os dev" "bcache_inv os d R mx" "dev_of os d dev"
  for os dev d R mx
  by (rule bcache_buf_store)

text \<open>A buffer read from the cache is held until it is put back, whatever happens to the cache in between.\<close>

lemma bcache_hold:
  assumes i: "bcache_inv os d R mx s" and room: "int (card {n. R n \<noteq> 0}) + 1 < mx" and x: "dev_of os d dev blk bb = Some x"
  obtains b s1 where "op_readbuf (bcache_buf_ops os dev) blk bb s = (Some b, s1)"
    "op_b_addr (bcache_buf_ops os dev) s1 b = x" "bcache_inv os d (R(b := R b + 1)) mx s1"
    "\<And>s2. bcache_inv os d (R(b := R b + 1)) mx s2 \<Longrightarrow> bcache_inv os d R mx (op_putbuf (bcache_buf_ops os dev) b s2)"
proof -
  obtain b s1 where r: "libxfs_readbuf os dev blk bb 0 s = Some (Some b, s1)"
      "b_addr (bs_buf (bc_bufs s1) b) = Some x" "bcache_ok os d (R(b := R b + 1)) mx s1" "0 \<le> R b"
    using readbuf_ok [OF i, of dev blk bb] x by auto
  have "finite {n. R n \<noteq> 0}"
    by (rule finite_subset [OF _ finite_nodes [of "bc_cache s"]])
      (use i in \<open>auto simp: bcache_inv_def bcache_ok_def refs_def split: if_splits\<close>)
  then have "card {n. (R(b := R b + 1)) n \<noteq> 0} \<le> card (insert b {n. R n \<noteq> 0})" by (intro card_mono) auto
  also have "\<dots> \<le> Suc (card {n. R n \<noteq> 0})" using \<open>finite {n. R n \<noteq> 0}\<close> by (simp add: card_insert_if)
  finally have "bcache_inv os d (R(b := R b + 1)) mx s1" using r(3) room by (simp add: bcache_inv_def)
  moreover have "bcache_inv os d R mx (op_putbuf (bcache_buf_ops os dev) b s2)"
    if "bcache_inv os d (R(b := R b + 1)) mx s2" for s2
  proof -
    have "bcache_ok os d (R(b := R b + 1, b := (R(b := R b + 1)) b - 1)) mx (libxfs_putbuf b s2)"
      by (rule putbuf_ok(1)) (use that r(4) in \<open>auto simp: bcache_inv_def\<close>)
    then show ?thesis using i by (simp add: bcache_inv_def bcache_buf_ops_def)
  qed
  ultimately show ?thesis using that r by (simp add: bcache_buf_ops_def)
qed

section \<open>The buffer cache as a pool\<close>

lemma bcache_refs_finite: "bcache_inv os d R mx s \<Longrightarrow> finite {n. R n \<noteq> 0}"
  by (rule finite_subset [OF _ finite_nodes [of "bc_cache s"]])
    (auto simp: bcache_inv_def bcache_ok_def refs_def split: if_splits)

text \<open>
  The buffers \<open>H\<close> are held besides the references \<open>R\<close>, and the cache has room for as many buffers as one lookup holds.
\<close>

definition bcache_held :: "'o dev_ops \<Rightarrow> 'o \<Rightarrow> (nat \<Rightarrow> int) \<Rightarrow> int \<Rightarrow> nat multiset \<Rightarrow> 'o bcache \<Rightarrow> bool" where
  "bcache_held os d R mx H s \<longleftrightarrow> bcache_inv os d (\<lambda>n. R n + int (count H n)) mx s \<and> (\<forall>n. 0 \<le> R n) \<and>
     int (card {n. R n \<noteq> 0}) + int XFS_DA_NODE_MAXDEPTH + 1 < mx"

abbreviation bcache_room :: "'o dev_ops \<Rightarrow> 'o \<Rightarrow> (nat \<Rightarrow> int) \<Rightarrow> int \<Rightarrow> 'o bcache \<Rightarrow> bool" where
  "bcache_room os d R mx \<equiv> bcache_held os d R mx {#}"

lemma bcache_room_iff:
  "bcache_room os d R mx s \<longleftrightarrow> bcache_inv os d R mx s \<and> (\<forall>n. 0 \<le> R n) \<and>
     int (card {n. R n \<noteq> 0}) + int XFS_DA_NODE_MAXDEPTH + 1 < mx"
  by (simp add: bcache_held_def)

lemma held_room:
  assumes "bcache_held os d R mx H s" and "size H \<le> XFS_DA_NODE_MAXDEPTH"
  shows "int (card {n. R n + int (count H n) \<noteq> 0}) + 1 < mx"
proof -
  have i: "bcache_inv os d (\<lambda>n. R n + int (count H n)) mx s" "\<And>n. 0 \<le> R n"
    using assms(1) by (auto simp: bcache_held_def)
  have sub: "{n. R n \<noteq> 0} \<subseteq> {n. R n + int (count H n) \<noteq> 0}" using i(2) by (auto simp: add_nonneg_eq_0_iff)
  have "{n. R n + int (count H n) \<noteq> 0} \<subseteq> {n. R n \<noteq> 0} \<union> set_mset H" by (auto simp: not_in_iff)
  then have "card {n. R n + int (count H n) \<noteq> 0} \<le> card ({n. R n \<noteq> 0} \<union> set_mset H)"
    using finite_subset [OF sub bcache_refs_finite [OF i(1)]] by (intro card_mono) auto
  also have "\<dots> \<le> card {n. R n \<noteq> 0} + card (set_mset H)" by (rule card_Un_le)
  also have "card (set_mset H) \<le> size H" by (induction H) (auto simp: card_insert_if)
  finally show ?thesis using assms by (simp add: bcache_held_def)
qed

interpretation bcp: buf_pool "bcache_buf_ops os dev" "bcache_held os d R mx" "dev_of os d dev"
  for os dev d R mx
proof (unfold_locales, goal_cases)
  case (1 H s blk bb x)
  let ?R = "\<lambda>n. R n + int (count H n)"
  have i: "bcache_inv os d ?R mx s" using 1(1) by (simp add: bcache_held_def)
  have R: "?R(b := ?R b + 1) = (\<lambda>n. R n + int (count (add_mset b H) n))" for b by auto
  show ?case
    by (rule bcache_hold [OF i held_room [OF 1(1,2)] 1(3)]) (use 1(1) in \<open>auto simp: bcache_held_def R\<close>)
next
  case (2 H s blk bb)
  then show ?case
    using readbuf_ok [of os d "\<lambda>n. R n + int (count H n)" mx s dev blk bb]
    by (auto simp: bcache_held_def bcache_buf_ops_def)
next
  case (3 b H s)
  let ?R = "\<lambda>n. R n + int (count (add_mset b H) n)"
  have i: "bcache_ok os d ?R mx s" "0 \<le> R b" "int (card {n. ?R n \<noteq> 0}) < mx"
    using 3 by (auto simp: bcache_held_def bcache_inv_def)
  have R: "?R(b := ?R b - 1) = (\<lambda>n. R n + int (count H n))" by auto
  have put: "bcache_ok os d (\<lambda>n. R n + int (count H n)) mx (libxfs_putbuf b s)"
    using putbuf_ok(1) [OF i(1), of b] i(2) unfolding R by simp
  have "{n. R n + int (count H n) \<noteq> 0} \<subseteq> {n. ?R n \<noteq> 0}" using 3 by (auto simp: bcache_held_def add_nonneg_eq_0_iff)
  moreover have "finite {n. ?R n \<noteq> 0}"
    by (rule bcache_refs_finite [of os d ?R mx s]) (use 3 in \<open>simp add: bcache_held_def\<close>)
  ultimately have "card {n. R n + int (count H n) \<noteq> 0} \<le> card {n. ?R n \<noteq> 0}" by (intro card_mono)
  then show ?case using 3 i(3) put by (simp add: bcache_held_def bcache_inv_def bcache_buf_ops_def)
qed

section \<open>Reading files\<close>

text \<open>A mount whose block size is what the superblock says (\<open>xfs_mount_common\<close>).\<close>

definition mount_ok :: "xfs_mount \<Rightarrow> bool" where
  "mount_ok mp \<longleftrightarrow> geom_ok mp \<and> m_blkbb_log mp = sb_blocklog (m_sb mp) - BBSHIFT"

lemma dev_blocks_ok:
  assumes "mount_ok mp" and "os_ok os d"
  shows "dev_blocks (dev_of os d dev) mp"
proof -
  have g: "geom_ok mp" using assms(1) by (simp add: mount_ok_def)
  have l: "9 \<le> sb_blocklog (m_sb mp)" using g by (simp add: geom_ok_def)
  have "XFS_FSB_TO_BB mp 1 * 512 = blksize mp"
    using assms(1) l power_add [of "2 :: int" "sb_blocklog (m_sb mp) - 9" 9]
    by (simp add: XFS_FSB_TO_BB_def mount_ok_def BBSHIFT_def)
  then have "BBTOB (XFS_FSB_TO_BB mp 1) = blksize mp"
    using blksize_bounds [OF g] by (simp add: BBTOB_def)
  moreover have "int (length x) = BBTOB n" if "dev_of os d dev blk n = Some x" for blk n x
    using that assms(2) BBTOB_nonneg [of n] by (auto simp: dev_of_def os_ok_def split: sum.splits)
  ultimately show ?thesis by (auto simp: dev_blocks_def)
qed

text \<open>
  C1: Reading a file through the buffer cache: for every cache state, every request that fits the user
  buffer and every file whose extents are in core, the read returns the number of bytes before the end
  of the file and puts in the buffer, position by position, the contents of the file (\<open>inode_byte\<close>: the bytes of the
  extents, zero in holes and after the end), or returns \<open>-EIO\<close> exactly when a block of the request cannot be read.
  Only in unwritten extents it does not deliver the contents, which are zeros there, but what lies on the device
  (\<open>device_byte\<close>), since the code never looks at the state of an extent. All buffers are given back, none is leaked or
  released twice, and the cache does not grow. Reads of the device deliver all bytes or fail (\<open>os_ok\<close>, in the
  invariant of the cache).
\<close>

theorem readfile_correct:
  assumes "mount_ok mp" and "file_ok mp ip" and "req_ok mem offset len" and "bcache_inv os d R mx s"
  shows "\<exists>err mem' s'. xfs_readfile (bcache_buf_ops os dev) iread mp ip mem offset len s =
        Some (err, mem', ip, s') \<and> bcache_inv os d R mx s' \<and> length mem' = length mem \<and>
      (let m = read_size ip offset len in
       if all_readable (dev_of os d dev) mp ip offset m
       then err = m \<and> (\<forall>k < length mem. mem' ! k =
              (if int k < m
               then (if unwritten_at mp ip (offset + int k) then device_byte (dev_of os d dev) mp ip (offset + int k)
                     else inode_byte (dev_of os d dev) mp ip (offset + int k))
               else if int k < len then 0 else mem ! k))
       else err = XFS_ERROR EIO)"
proof -
  have g: "geom_ok mp" using assms(1) by (simp add: mount_ok_def)
  note dv = dev_blocks_ok [OF assms(1) bcache_inv_os [OF assms(4)]]
  show ?thesis by (rule bcs.readfile_ok [OF g dv assms(2-4), unfolded read_byte_def])
qed

text \<open>
  A file with an unwritten extent, on a device whose every byte is 7: a read from position 2 delivers the four sevens
  that lie there.
\<close>

definition sample_file :: xfs_inode where
  "sample_file = (let ip = sample_inode 0x81A4 FMT_EXTENTS [] in ip
     \<lparr> i_d := (i_d ip)\<lparr>di_size := 6, di_nextents := 1\<rparr>,
       i_df := (i_df ip)\<lparr>if_extents := [xfs_bmbt_set_all
          \<lparr>br_startoff = 0, br_startblock = 10, br_blockcount = 1, br_state = XFS_EXT_UNWRITTEN\<rparr>]\<rparr> \<rparr>)"

definition seven_os :: "unit dev_ops" where
  "seven_os = sample_os \<lparr> pread64 := (\<lambda>fd off n d. Inr (replicate (nat n) 7)) \<rparr>"

lemma seven_os_ok: "os_ok seven_os d"
  by (auto simp: os_ok_def seven_os_def sample_os_def)

lemma sample_file_ok: "file_ok sample_mp sample_file"
  and sample_file_exts: "inode_exts sample_file =
    [\<lparr>br_startoff = 0, br_startblock = 10, br_blockcount = 1, br_state = XFS_EXT_UNWRITTEN\<rparr>]"
proof -
  have g: "xfs_bmbt_get_all (xfs_bmbt_set_all
      \<lparr>br_startoff = 0, br_startblock = 10, br_blockcount = 1, br_state = XFS_EXT_UNWRITTEN\<rparr>) =
      \<lparr>br_startoff = 0, br_startblock = 10, br_blockcount = 1, br_state = XFS_EXT_UNWRITTEN\<rparr>"
    by (rule get_set_all) (simp add: irec_fits_def)
  have "(0x81A4 :: nat) AND 0x8000 = 0x8000" by simp
  then show "file_ok sample_mp sample_file"
    by (simp add: file_ok_def sample_file_def Let_def g ext_ok_def irec_fits_def S_IFREG_def)
  show "inode_exts sample_file =
    [\<lparr>br_startoff = 0, br_startblock = 10, br_blockcount = 1, br_state = XFS_EXT_UNWRITTEN\<rparr>]"
    by (simp add: sample_file_def Let_def g)
qed

lemma sample_file_bytes:
  assumes "0 \<le> p" and "p < 4096"
  shows "unwritten_at sample_mp sample_file p" "device_byte (dev_of seven_os () 0) sample_mp sample_file p = 7"
    "inode_byte (dev_of seven_os () 0) sample_mp sample_file p = 0"
  using assms
  by (simp_all add: unwritten_at_def device_byte_def inode_byte_def sample_file_exts ext_covers_def ext_start_def ext_byte_def
      dev_of_def seven_os_def BBTOB_def XFS_FSB_TO_BB_def BBSHIFT_def)

theorem readfile_correct_witness:
  "\<exists>mem' s'. xfs_readfile (bcache_buf_ops seven_os 0) (\<lambda>ip s. Some (0, ip, s)) sample_mp sample_file
     (replicate 8 1) 2 8 (bcache_init 1024 ()) = Some (4, mem', sample_file, s') \<and> mem' = [7, 7, 7, 7, 0, 0, 0, 0]"
proof -
  have i: "bcache_inv seven_os () (\<lambda>n. 0) (1024 * 8) (bcache_init 1024 ())"
    using bcache_init_inv [OF seven_os_ok, of 1024 "()"] by simp
  have m: "mount_ok sample_mp" by (simp add: mount_ok_def sample_geom BBSHIFT_def)
  have r: "req_ok (replicate 8 (1 :: u8)) 2 8" by (simp add: req_ok_def)
  have a: "all_readable (dev_of seven_os () 0) sample_mp sample_file 2 4"
    by (simp add: all_readable_def ext_readable_def dev_of_def seven_os_def)
  have z: "read_size sample_file 2 8 = 4" by (simp add: read_size_def sample_file_def Let_def)
  obtain mem' s' where r: "xfs_readfile (bcache_buf_ops seven_os 0) (\<lambda>ip s. Some (0, ip, s)) sample_mp sample_file
      (replicate 8 1) 2 8 (bcache_init 1024 ()) = Some (4, mem', sample_file, s')" "length mem' = 8"
    "\<forall>k < 8. mem' ! k = (if int k < 4
       then (if unwritten_at sample_mp sample_file (2 + int k) then device_byte (dev_of seven_os () 0) sample_mp sample_file (2 + int k)
             else inode_byte (dev_of seven_os () 0) sample_mp sample_file (2 + int k))
       else if int k < 8 then 0 else replicate 8 1 ! k)"
    using readfile_correct [OF m sample_file_ok r i, where dev = 0 and iread = "\<lambda>ip s. Some (0, ip, s)"] a
    by (auto simp: Let_def z)
  have "mem' = [7, 7, 7, 7, 0, 0, 0, 0]"
  proof (rule nth_equalityI)
    fix k assume k: "k < length mem'"
    then have "mem' ! k = (if int k < 4 then 7 else 0)" using r(2,3) sample_file_bytes [of "2 + int k"] by simp
    moreover have "k \<in> {0, 1, 2, 3, 4, 5, 6, 7}" using k r(2) by auto
    ultimately show "mem' ! k = [7, 7, 7, 7, 0, 0, 0, 0] ! k" by auto
  qed (simp add: r(2))
  then show ?thesis using r(1) by blast
qed

section \<open>Reading directories of one block\<close>

interpretation bds: dir_stream
  "\<lambda>(mp, dp, its) f. xfs_dir2_block_getdents (bcache_buf_ops os dev) iread l2e mp (pure_fill f)"
  "\<lambda>(mp, dp, its) w. block_dir_ok (dev_of os d dev) mp dp its \<and> fst w = dp \<and> bcache_inv os d R mx (snd w)"
  "\<lambda>(mp, dp, its). block_dirents mp its" "\<lambda>(mp, dp, its). dir_end mp"
  for os :: "'o dev_ops" and dev iread l2e d R mx
proof (unfold_locales, goal_cases)
  case (1 x w)
  then show ?case using block_dir_cookies(1) by (auto split: prod.splits)
next
  case (2 x w off f s)
  then show ?case
    using bcs.block_getdents_stream [of os d dev _ _ _ R mx "snd w" off iread l2e f s]
    by (cases w) (fastforce split: prod.splits)
next
  case (3 x w f s)
  then show ?case
    using block_getdents_end by (cases w) (fastforce split: prod.splits)
next
  case (4 x w)
  then show ?case using block_dir_cookies(2) by (auto split: prod.splits)
qed

text \<open>
  C17: Reading a one-block directory through the buffer cache in buffers of any positive size, each call
  resuming at the cookie the last one returned, ends and delivers every live entry of the block exactly
  once, in order; the cache keeps its invariant and every buffer is given back.
\<close>

theorem block_getdents_resumes:
  assumes "block_dir_ok (dev_of os d dev) mp dp its" and "bcache_inv os d R mx s" and "0 < k"
  shows "\<exists>s'. read_chunks (\<lambda>f. xfs_dir2_block_getdents (bcache_buf_ops os dev) iread l2e mp (pure_fill f)) k
      (length (block_dirents mp its) + 2) 0 (dp, s) = Some (block_dirents mp its, dp, s') \<and> bcache_inv os d R mx s'"
  using bds.read_all [where x = "(mp, dp, its)" and w = "(dp, s)" and os = os and dev = dev and d = d and R = R
      and mx = mx and k = k and iread = iread and l2e = l2e] assms by auto

text \<open>
  C32: When the block of a one-block directory cannot be read, reading the directory does not report an
  error: \<open>libxfs_trans_read_buf\<close> returns success with a NULL buffer, and the directory code follows it.
\<close>

theorem block_getdents_unreadable_faults:
  assumes "geom_ok mp" and "dir_ready mp dp" and "bcache_inv os d R mx s" and "dir_daddr mp dp 0 = Some blk"
    and "dev_of os d dev blk (XFS_FSB_TO_BB mp 1) = None" and "0 \<le> off" and "off < dir_end mp"
  shows "xfs_dir2_block_getdents (bcache_buf_ops os dev) iread l2e mp f off t (dp, s) = None"
  by (rule bcs.block_getdents_unreadable [OF assms(2-5)])
    (use assms cookie_in_block in \<open>auto simp: geom_ok_def\<close>)

text \<open>
  C33: A block with an unused entry of recorded length zero behind its first entries \<open>its\<close>, read from a cookie on with a
  callback that takes all of these: \<open>xfs_dir2_block_getdents\<close> never returns. The block is read, its loop gets to the
  unused entry with every entry before it delivered, and there each round is a success that leads back to the same
  pointer and the same state.
\<close>

theorem block_getdents_zero_length_hangs:
  assumes g: "geom_ok mp" and r: "dir_ready mp dp" and i: "bcache_inv os d R mx s" and a: "dir_daddr mp dp 0 = Some blk"
    and x: "dev_of os d dev blk (XFS_FSB_TO_BB mp 1) = Some x" "da_magic_ok x = Some True"
    and e: "xfs_dir2_block_leaf_p mp x = Some endptr"
    and its: "items_at x 16 its p" "aligned its" "int p < endptr" "p \<le> m_dirblksize mp"
    and zero: "data_freetag x p = Some XFS_DIR2_DATA_FREE_TAG" "data_unused_length x p = Some 0"
    and off: "0 \<le> off" "off < dir_end mp"
    and taken: "emit f (filter (\<lambda>e. off \<le> de_cookie e) (block_dirents mp its)) t = (None, t')"
  shows "xfs_dir2_block_getdents (bcache_buf_ops os dev) iread l2e mp (pure_fill f) off t (dp, s) = None \<and>
    (\<exists>bp s1. op_readbuf (bcache_buf_ops os dev) blk (XFS_FSB_TO_BB mp 1) s = (Some bp, s1) \<and>
      op_b_addr (bcache_buf_ops os dev) s1 bp = x \<and>
      (block_goes mp x (pure_fill f) (xfs_dir2_dataptr_to_off mp off) endptr)\<^sup>*\<^sup>* (16, t, s1) (p, t', s1) \<and>
      block_goes mp x (pure_fill f) (xfs_dir2_dataptr_to_off mp off) endptr (p, t', s1) (p, t', s1))"
proof -
  obtain bp s1 where b: "op_readbuf (bcache_buf_ops os dev) blk (XFS_FSB_TO_BB mp 1) s = (Some bp, s1)"
    "op_b_addr (bcache_buf_ops os dev) s1 bp = x"
    using bcs.read_ok [OF i x(1)] by blast
  have "emit (pure_fill f) (map (data_dirent mp)
      (filter (\<lambda>x. xfs_dir2_dataptr_to_off mp off \<le> int (fst x)) (live_from 16 its))) (t, s1) = (None, t', s1)"
    unfolding block_filter [OF g off its(1,4,2)] emit_pure taken by simp
  note em = this
  have le: "int p \<le> endptr" using its(3) by simp
  note reach = block_reaches [OF its(1) le em]
  have stuck: "block_goes mp x (pure_fill f) (xfs_dir2_dataptr_to_off mp off) endptr (p, t', s1) (p, t', s1)"
    by (rule block_zero_stuck [OF its(3) zero])
  have "block_getdents_loop mp x (pure_fill f) (xfs_dir2_dataptr_to_off mp off) endptr 16 (t, s1) = None"
    using block_goes_loop [OF reach] block_loop_stuck [OF stuck] by simp
  moreover have "m_dirdatablk mp = 0" using g by (simp add: geom_ok_def)
  ultimately have "xfs_dir2_block_getdents (bcache_buf_ops os dev) iread l2e mp (pure_fill f) off t (dp, s) = None"
    using b x(2) e cookie_in_block [OF g off]
    by (simp add: xfs_dir2_block_getdents_def da_read_buf_single [OF r a] Let_def)
  then show ?thesis using b reach stuck by blast
qed

section \<open>A sample directory\<close>

text \<open>
  A block with the entry \<open>.\<close> of inode 128, an unused stretch behind it, whose recorded length is \<open>l\<close>, and no leaf
  entries. In \<open>sample_block\<close> the length is right, in \<open>hang_block\<close> it is zero.
\<close>

definition block_with :: "bytes \<Rightarrow> bytes" where
  "block_with l = [0x58, 0x44, 0x32, 0x42] @ replicate 12 0 @ [0, 0] @ [0, 0, 0, 0, 0, 128] @ [1] @ [46] @ replicate 6 0 @
     [0xff, 0xff] @ l @ replicate 4052 0 @ [0, 0, 0, 0] @ [0, 0, 0, 0]"

definition sample_block :: bytes where "sample_block = block_with [0x0f, 0xd8]"

definition hang_block :: bytes where "hang_block = block_with [0, 0]"

definition block_os :: "unit dev_ops" where
  "block_os = sample_os \<lparr> pread64 := (\<lambda>fd off n d. Inr (take (nat n) (sample_block @ replicate (nat n) 0))) \<rparr>"

definition hang_os :: "unit dev_ops" where
  "hang_os = sample_os \<lparr> pread64 := (\<lambda>fd off n d. Inr (take (nat n) (hang_block @ replicate (nat n) 0))) \<rparr>"

definition failing_os :: "unit dev_ops" where
  "failing_os = sample_os \<lparr> pread64 := (\<lambda>fd off n d. Inl 5) \<rparr>"

definition sample_dir :: xfs_inode where
  "sample_dir = (let ip = sample_inode 0x41ED FMT_EXTENTS [] in
     ip \<lparr> i_df := (i_df ip) \<lparr> if_extents_read := True, if_extents := [sample_rec 0 100 1] \<rparr> \<rparr>)"

lemma block_with_reads:
  assumes l: "length l = 2"
  shows "length (block_with l) = 4096" "rd_be 4 0 (block_with l) = Some 0x58443242" "rd_be 4 4088 (block_with l) = Some 0"
  "rd_be 2 16 (block_with l) = Some 0" "rd_be 8 16 (block_with l) = Some 128" "rd_be 1 24 (block_with l) = Some 1"
  "rd_bytes 25 1 (block_with l) = Some [46]" "rd_be 2 32 (block_with l) = Some 0xffff"
  "rd_bytes 34 2 (block_with l) = Some l" "\<exists>m. rd_be 2 8 (block_with l) = Some m"
proof -
  let ?h = "[0x58, 0x44, 0x32, 0x42] @ replicate 12 0 :: bytes"
  let ?e = "[0, 0, 0, 0, 0, 0, 0, 128, 1, 46] @ replicate 6 0 :: bytes"
  show len: "length (block_with l) = 4096" by (simp add: block_with_def l)
  have m: "rd_bytes 0 4 (block_with l) = Some [0x58, 0x44, 0x32, 0x42]"
    by (rule rd_bytes_at [where pre = "[]"]) (simp_all add: block_with_def l)
  have t: "rd_bytes 4088 4 (block_with l) = Some [0, 0, 0, 0]"
    by (rule rd_bytes_at [where pre = "?h @ ?e @ [0xff, 0xff] @ l @ replicate 4052 0"])
      (simp_all add: block_with_def l)
  have e: "rd_bytes 16 2 (block_with l) = Some [0, 0]" "rd_bytes 16 8 (block_with l) = Some [0, 0, 0, 0, 0, 0, 0, 128]"
    by (rule rd_bytes_at [where pre = ?h]; simp add: block_with_def l)+
  have n: "rd_bytes 24 1 (block_with l) = Some [1]"
    by (rule rd_bytes_at [where pre = "?h @ [0, 0, 0, 0, 0, 0, 0, 128]"]) (simp_all add: block_with_def l)
  show "rd_bytes 25 1 (block_with l) = Some [46]"
    by (rule rd_bytes_at [where pre = "?h @ [0, 0, 0, 0, 0, 0, 0, 128, 1]"]) (simp_all add: block_with_def l)
  have u: "rd_bytes 32 2 (block_with l) = Some [0xff, 0xff]" "rd_bytes 34 2 (block_with l) = Some l"
    by (rule rd_bytes_at [where pre = "?h @ ?e"], simp_all add: block_with_def l)
      (rule rd_bytes_at [where pre = "?h @ ?e @ [0xff, 0xff]"], simp_all add: l)
  show "\<exists>m. rd_be 2 8 (block_with l) = Some m" using len by (simp add: rd_be_def rd_bytes_def)
  show "rd_be 4 0 (block_with l) = Some 0x58443242" "rd_be 4 4088 (block_with l) = Some 0"
    "rd_be 2 16 (block_with l) = Some 0" "rd_be 8 16 (block_with l) = Some 128" "rd_be 1 24 (block_with l) = Some 1"
    "rd_be 2 32 (block_with l) = Some 0xffff" "rd_bytes 34 2 (block_with l) = Some l"
    by (simp_all add: rd_be_def m t e n [unfolded One_nat_def] u be_val_def)
qed

lemma sample_block_reads:
  "length sample_block = 4096" "rd_be 4 0 sample_block = Some 0x58443242" "rd_be 4 4088 sample_block = Some 0"
  "rd_be 2 16 sample_block = Some 0" "rd_be 8 16 sample_block = Some 128" "rd_be 1 24 sample_block = Some 1"
  "rd_bytes 25 1 sample_block = Some [46]" "rd_be 2 32 sample_block = Some 0xffff"
  "rd_be 2 34 sample_block = Some 4056" "\<exists>m. rd_be 2 8 sample_block = Some m"
  using block_with_reads [of "[0x0f, 0xd8]", folded sample_block_def]
  by (simp_all add: rd_be_def be_val_def)

lemma dot_item:
  assumes "length l = 2"
  shows "item_at (block_with l) 16 (DEntry [46] 128)" "item_size (DEntry [46] 128) = 16"
  using block_with_reads [OF assms]
  by (simp_all add: item_at_def data_freetag_def data_inumber_def data_namelen_def data_name_def XFS_DIR2_DATA_FREE_TAG_def
      xfs_dir2_data_entsize_def)

lemma block_with_leaf:
  assumes "length l = 2"
  shows "xfs_dir2_block_leaf_p sample_mp (block_with l) = Some 4088" "da_magic_ok (block_with l) = Some True"
  using block_with_reads [OF assms]
  by (auto simp: xfs_dir2_block_leaf_p_def tail_count_def xfs_dir2_block_tail_p_def da_magic_ok_def da_magics32_def)

lemma sample_block_holds: "block_holds sample_mp sample_block [DEntry [46] 128, DFree 4056]"
proof -
  have leaf: "xfs_dir2_block_leaf_p sample_mp sample_block = Some (int 4088)"
    using sample_block_reads by (simp add: xfs_dir2_block_leaf_p_def tail_count_def xfs_dir2_block_tail_p_def)
  have sz: "item_size (DEntry [46] 128) = 16" by (simp add: xfs_dir2_data_entsize_def)
  have "items_at sample_block 16 [DEntry [46] 128, DFree 4056] 4088"
    using sample_block_reads
    unfolding items_at.simps sz
    by (simp add: item_at_def data_freetag_def data_inumber_def data_namelen_def data_name_def data_unused_length_def)
  then show ?thesis
    unfolding block_holds_def using leaf
    by (intro conjI exI [of _ 4088]) (simp_all del: items_at.simps)
qed

lemma sample_dir_ready: "dir_ready sample_mp sample_dir" "dir_daddr sample_mp sample_dir 0 = Some (XFS_FSB_TO_DADDR sample_mp 100)"
proof -
  have exts: "fork_exts sample_dir = [\<lparr> bm_off = 0, bm_blk = 100, bm_cnt = 1, bm_state = XFS_EXT_NORM \<rparr>]"
    by (simp add: fork_exts_def sample_dir_def Let_def bmap_of_sample)
  have "m_dirblkfsbs sample_mp = 1"
    by (simp add: sample_mp_def sample_mount_def xfs_dir_mount_def Let_def xfs_mount_common_def sample_sb_def)
  moreover have "exts_ok (fork_exts sample_dir)"
    unfolding exts using not_nullstartblock [of 100] by (simp add: exts_ok_def)
  ultimately show "dir_ready sample_mp sample_dir"
    by (simp add: dir_ready_def) (simp add: sample_dir_def Let_def)
  show "dir_daddr sample_mp sample_dir 0 = Some (XFS_FSB_TO_DADDR sample_mp 100)"
    by (simp add: dir_daddr_def bmap_lookup_def exts)
qed

lemma block_os_ok: "os_ok block_os d" "os_ok failing_os d" "os_ok hang_os d"
  by (auto simp: os_ok_def block_os_def hang_os_def failing_os_def sample_os_def)

lemma sample_block_dir: "block_dir_ok (dev_of block_os () 0) sample_mp sample_dir [DEntry [46] 128, DFree 4056]"
proof -
  have bb: "BBTOB (XFS_FSB_TO_BB sample_mp 1) = 4096"
    by (simp add: XFS_FSB_TO_BB_def BBTOB_def BBSHIFT_def)
  have "dev_of block_os () 0 blk (XFS_FSB_TO_BB sample_mp 1) = Some sample_block" for blk
    using sample_block_reads(1) by (simp add: dev_of_def block_os_def bb)
  moreover have "da_magic_ok sample_block = Some True"
    using sample_block_reads by (auto simp: da_magic_ok_def da_magics32_def)
  ultimately show ?thesis
    using sample_dir_ready sample_block_holds by (simp add: block_dir_ok_def sample_geom)
qed

lemma sample_bcache: "os_ok os () \<Longrightarrow> bcache_inv os () (\<lambda>n. 0) (1024 * 8) (bcache_init 1024 ())"
  using bcache_init_inv [of os "()" 1024] by simp

lemma sample_room: "os_ok os () \<Longrightarrow> bcache_room os () (\<lambda>n. 0) (1024 * 8) (bcache_init 1024 ())"
  using sample_bcache by (simp add: bcache_room_iff XFS_DA_NODE_MAXDEPTH_def)

theorem block_getdents_resumes_witness:
  "map_option (map de_ino \<circ> fst) (read_chunks (\<lambda>f. xfs_dir2_block_getdents (bcache_buf_ops block_os 0) (\<lambda>ip s. Some (5, ip, s))
     (\<lambda>ip s. Some (5, ip, s)) sample_mp (pure_fill f)) 7 3 0 (sample_dir, bcache_init 1024 ())) = Some [128]"
proof -
  let ?ds = "block_dirents sample_mp [DEntry [46] 128, DFree 4056]"
  have l: "length ?ds + 2 = 3" and i: "map de_ino ?ds = [128]"
    by (simp_all add: block_dirents_def data_dirent_def)
  show ?thesis
    using block_getdents_resumes [OF sample_block_dir sample_bcache [OF block_os_ok(1)], of 7
        "\<lambda>ip s. Some (5, ip, s)" "\<lambda>ip s. Some (5, ip, s)", unfolded l]
    by (auto simp: i simp del: read_chunks.simps)
qed

theorem block_getdents_unreadable_faults_witness:
  "xfs_dir2_block_getdents (bcache_buf_ops failing_os 0) (\<lambda>ip s. Some (5, ip, s)) (\<lambda>ip s. Some (5, ip, s)) sample_mp
     (pure_fill (fill_bounded 1)) 0 [] (sample_dir, bcache_init 1024 ()) = None"
  by (rule block_getdents_unreadable_faults
      [OF sample_geom sample_dir_ready(1) sample_bcache [OF block_os_ok(2)] sample_dir_ready(2)])
    (use dir_end_bounds(2) [OF sample_geom] in \<open>simp_all add: dev_of_def failing_os_def\<close>)

theorem block_getdents_zero_length_hangs_witness:
  "xfs_dir2_block_getdents (bcache_buf_ops hang_os 0) (\<lambda>ip s. Some (5, ip, s)) (\<lambda>ip s. Some (5, ip, s)) sample_mp
     (pure_fill (fill_bounded 5)) 0 [] (sample_dir, bcache_init 1024 ()) = None"
proof -
  have l: "length [0 :: u8, 0] = 2" by simp
  note r = block_with_reads [OF l, folded hang_block_def] and e = block_with_leaf [OF l, folded hang_block_def]
    and d = dot_item [OF l, folded hang_block_def]
  have x: "dev_of hang_os () 0 (XFS_FSB_TO_DADDR sample_mp 100) (XFS_FSB_TO_BB sample_mp 1) = Some hang_block"
    using r(1) by (simp add: dev_of_def hang_os_def XFS_FSB_TO_BB_def BBTOB_def BBSHIFT_def)
  have its: "items_at hang_block 16 [DEntry [46] 128] 32" unfolding items_at.simps d(2) using d(1) by simp
  have zero: "data_freetag hang_block 32 = Some XFS_DIR2_DATA_FREE_TAG" "data_unused_length hang_block 32 = Some 0"
    using r(8,9) by (simp_all add: data_freetag_def data_unused_length_def XFS_DIR2_DATA_FREE_TAG_def rd_be_def be_val_def)
  obtain t' where t': "emit (fill_bounded 5) (filter (\<lambda>e. 0 \<le> de_cookie e) (block_dirents sample_mp [DEntry [46] 128])) [] =
      (None, t')"
    by (cases "0 \<le> xfs_dir2_db_off_to_dataptr sample_mp 0 16")
      (simp_all add: block_dirents_def data_dirent_def fill_bounded_def)
  have de: "0 < dir_end sample_mp" using dir_end_bounds(2) [OF sample_geom] by simp
  show ?thesis
    using block_getdents_zero_length_hangs [OF sample_geom sample_dir_ready(1) sample_bcache [OF block_os_ok(3)]
        sample_dir_ready(2) x e(2,1) its _ _ _ zero order_refl de t'] by simp
qed

end
