(* ===== verification/Bcache_Tree.thy ===== *)
theory Bcache_Tree
  imports Bcache_Read
begin

text \<open>
  Files whose extent list is a B-tree on disk, read through the buffer cache: \<open>xfs_iread_extents\<close> ends on
  every tree and gives the records of a well-formed one, and \<open>xfs_readfile\<close> then returns the bytes these
  records describe.
\<close>

text \<open>
  C13: Reading the extent list of a B-tree format inode ends for every content of a readable device, cycles
  between the leaves included: the error is 0 or \<open>EFSCORRUPTED\<close>, the list has as many records as the inode
  says or is empty again, and every buffer is given back.
\<close>

theorem iread_extents_ends:
  assumes "tree_geom mp" and "dev_readable (dev_of os d dev) mp" and "bcache_inv os d R mx s"
    and "tree_root ip (Suc level) bno"
  shows "\<exists>e ip' s'. xfs_iread_extents (bcache_buf_ops os dev) mp ip s = Some (e, ip', s') \<and>
    bcache_inv os d R mx s' \<and> i_d ip' = i_d ip \<and>
    (if e = 0 then if_extents_read (i_df ip') \<and> length (if_extents (i_df ip')) = nat (di_nextents (i_d ip))
     else e = errno_code EFSCORRUPTED \<and> \<not> if_extents_read (i_df ip') \<and> if_extents (i_df ip') = [])"
  by (rule bcs.iread_extents_total [OF assms])

text \<open>The inode with the records in core.\<close>

definition with_list :: "xfs_inode \<Rightarrow> bmbt_rec list \<Rightarrow> xfs_inode" where
  "with_list ip rs = ip \<lparr> i_df := (i_df ip) \<lparr> if_extents := rs, if_extents_read := True \<rparr> \<rparr>"

text \<open>A file not read yet whose tree on the device holds the records \<open>rs\<close>.\<close>

definition btree_file :: "(int \<Rightarrow> int \<Rightarrow> bytes option) \<Rightarrow> xfs_mount \<Rightarrow> xfs_inode \<Rightarrow> bmbt_rec list \<Rightarrow> bool" where
  "btree_file dev mp ip rs \<longleftrightarrow> tree_geom mp \<and> \<not> if_extents_read (i_df ip) \<and> file_ok mp (with_list ip rs) \<and>
     flags_ok mp rs \<and> length rs < 2 ^ 27 \<and>
     (\<exists>level bno leaf rss. rs = concat rss \<and> tree_root ip (Suc level) bno \<and> first_leaf dev mp level bno leaf \<and>
       leaf_chain dev mp leaf rss)"

lemma btree_file_iread:
  assumes "btree_file (dev_of os d dev) mp ip rs" and "bcache_inv os d R mx s"
  obtains f s' where "xfs_iread_extents (bcache_buf_ops os dev) mp ip s = Some (0, ip \<lparr> i_df := f \<rparr>, s')"
    "bcache_inv os d R mx s'" "if_extents f = rs" "if_extents_read f" "di_format (i_d ip) = FMT_BTREE"
proof -
  obtain level bno leaf rss where t: "rs = concat rss" "tree_root ip (Suc level) bno"
    "first_leaf (dev_of os d dev) mp level bno leaf" "leaf_chain (dev_of os d dev) mp leaf rss"
    "flags_ok mp (concat rss)" "length (concat rss) < 2 ^ 27" "file_ok mp (with_list ip rs)"
    using assms(1) by (auto simp: btree_file_def)
  have n: "0 \<le> di_nextents (i_d ip)" "di_format (i_d ip) = FMT_BTREE" using t(2) by (auto simp: tree_root_def)
  have "nat (di_nextents (i_d ip)) = length rs" using t(7) by (simp add: file_ok_def with_list_def)
  then have "di_nextents (i_d ip) = int (length (concat rss))" using n(1) t(1) by simp
  from bcs.iread_extents_ok [OF assms(2) t(2-5) this t(6)] show ?thesis using that n(2) t(1) by auto
qed

lemma file_ok_list: "i_d ip = i_d ip' \<Longrightarrow> if_extents (i_df ip) = if_extents (i_df ip') \<Longrightarrow>
    if_extents_read (i_df ip) = if_extents_read (i_df ip') \<Longrightarrow> file_ok mp ip = file_ok mp ip'"
  by (simp add: file_ok_def)

lemma btree_readfile:
  assumes "mount_ok mp" and "btree_file (dev_of os d dev) mp ip rs" and "req_ok mem offset len"
    and "bcache_inv os d R mx s"
  shows "\<exists>err mem' ip' s'. xfs_readfile (bcache_buf_ops os dev) (xfs_iread_extents (bcache_buf_ops os dev) mp) mp ip mem
        offset len s = Some (err, mem', ip', s') \<and> bcache_inv os d R mx s' \<and> length mem' = length mem \<and>
      (if di_size (i_d ip) \<le> offset then ip' = ip else i_d ip' = i_d ip \<and> if_extents (i_df ip') = rs \<and>
        if_extents_read (i_df ip')) \<and> i_ino ip' = i_ino ip \<and>
      (let m = read_size ip offset len in
       if all_readable (dev_of os d dev) mp (with_list ip rs) offset m
       then err = m \<and> (\<forall>k < length mem. mem' ! k =
              (if int k < m then read_byte (dev_of os d dev) mp (with_list ip rs) (offset + int k)
               else if int k < len then 0 else mem ! k))
       else err = XFS_ERROR EIO)"
proof -
  obtain f s1 where f: "xfs_iread_extents (bcache_buf_ops os dev) mp ip s = Some (0, ip \<lparr> i_df := f \<rparr>, s1)"
    "bcache_inv os d R mx s1" "if_extents f = rs" "if_extents_read f" "di_format (i_d ip) = FMT_BTREE"
    by (rule btree_file_iread [OF assms(2,4)])
  let ?ip1 = "ip \<lparr> i_df := f \<rparr>"
  have g: "geom_ok mp" using assms(1) by (simp add: mount_ok_def)
  note dv = dev_blocks_ok [OF assms(1) bcache_inv_os [OF assms(4)]]
  have un: "\<not> if_extents_read (i_df ip)" using assms(2) by (simp add: btree_file_def)
  have ok: "file_ok mp ?ip1"
    using assms(2) file_ok_list [of ?ip1 "with_list ip rs"] f(3,4) by (simp add: btree_file_def with_list_def)
  have ar: "all_readable dv mp ?ip1 o' m = all_readable dv mp (with_list ip rs) o' m"
    "read_byte dv mp ?ip1 p = read_byte dv mp (with_list ip rs) p" for dv o' m p
    using f(3) by (simp_all add: all_readable_def with_list_def read_byte_list [of ?ip1 "with_list ip rs"])
  have same: "i_d ?ip1 = i_d ip" "if_extents_read (i_df ?ip1)" using f(4) by simp_all
  from bcs.readfile_btree_ok [where iread = "xfs_iread_extents (bcache_buf_ops os dev) mp" and ip = ip and s = s, OF g dv ok same(1) un f(5) same(2) f(1,2) assms(3,4), unfolded ar]
  show ?thesis using f(3,4) by (fastforce split: if_splits)
qed

text \<open>
  C12: Reading a file whose extents are in a B-tree on disk, for the first time: the list is read in and
  the request returns the contents the records of the tree give these positions (zero in holes and after
  the end), or \<open>-EIO\<close> exactly when a block of the request cannot be read; as in C1, it delivers what lies on the device
  in unwritten extents, where the contents are zeros. Every buffer is given back, and
  the inode then has the list in core unless the request starts behind the end of the file.
\<close>

theorem readfile_btree_correct:
  assumes "mount_ok mp" and "btree_file (dev_of os d dev) mp ip rs" and "req_ok mem offset len"
    and "bcache_inv os d R mx s"
  shows "\<exists>err mem' ip' s'. xfs_readfile (bcache_buf_ops os dev) (xfs_iread_extents (bcache_buf_ops os dev) mp) mp ip mem
        offset len s = Some (err, mem', ip', s') \<and> bcache_inv os d R mx s' \<and> length mem' = length mem \<and>
      (if di_size (i_d ip) \<le> offset then ip' = ip else i_d ip' = i_d ip \<and> if_extents (i_df ip') = rs \<and>
        if_extents_read (i_df ip')) \<and>
      (let m = read_size ip offset len in
       if all_readable (dev_of os d dev) mp (with_list ip rs) offset m
       then err = m \<and> (\<forall>k < length mem. mem' ! k =
              (if int k < m
               then (if unwritten_at mp (with_list ip rs) (offset + int k)
                     then device_byte (dev_of os d dev) mp (with_list ip rs) (offset + int k)
                     else inode_byte (dev_of os d dev) mp (with_list ip rs) (offset + int k))
               else if int k < len then 0 else mem ! k))
       else err = XFS_ERROR EIO)"
  by (insert btree_readfile [OF assms, unfolded read_byte_def], elim exE conjE) (intro exI conjI)

section \<open>A tree that is refused\<close>

context buf_store
begin

lemma iread_extents_refused:
  assumes i: "inv s" and root: "tree_root ip (Suc level) bno"
    and d: "dev (XFS_FSB_TO_DADDR mp (int bno)) (m_bsize mp) = Some d" "xfs_bmap_sanity_check mp d level = Some False"
  shows "\<exists>f s'. xfs_iread_extents ops mp ip s = Some (errno_code EFSCORRUPTED, ip\<lparr>i_df := f\<rparr>, s') \<and> inv s' \<and>
    \<not> if_extents_read f \<and> if_extents f = []"
proof -
  obtain b s1 where b: "op_readbuf ops (XFS_FSB_TO_DADDR mp (int bno)) (m_bsize mp) s = (Some b, s1)"
    "op_b_addr ops s1 b = d" "inv (op_putbuf ops b s1)"
    using read_ok [OF i d(1)] by blast
  have "read_leftmost ops mp (Suc level) bno s = Some (errno_code EFSCORRUPTED, None, op_putbuf ops b s1)"
    using b d(2) by (subst read_leftmost.simps) (simp add: xfs_btree_read_bufl_def Let_def del: read_leftmost.simps)
  then have "xfs_iread_extents ops mp ip s = Some (errno_code EFSCORRUPTED, ip\<lparr>i_df := (i_df ip)\<lparr>if_bytes := 0,
      if_real_bytes := 0, if_extents_read := False, if_extents := []\<rparr>\<rparr>, op_putbuf ops b s1)"
    using root
    by (auto simp: tree_root_def xfs_iread_extents_def xfs_bmap_read_extents_def xfs_iext_destroy_def Let_def
        simp del: read_leftmost.simps)
  then show ?thesis using b(3) by fastforce
qed

end


section \<open>A sample tree\<close>

definition tree_rec :: bmbt_rec where "tree_rec = sample_rec 0 100 1"

text \<open>A leaf with one record, and a device that has it in every block.\<close>

definition sample_leaf :: bytes where
  "sample_leaf = be_bytes 4 XFS_BMAP_MAGIC @ be_bytes 2 0 @ be_bytes 2 1 @ replicate 8 255 @
     be_bytes 8 NULLFSBLOCK @ rec_bytes tree_rec @ replicate 4056 0"

definition tree_os :: "unit dev_ops" where
  "tree_os = sample_os \<lparr> pread64 := (\<lambda>fd off n d. Inr (take (nat n) (sample_leaf @ replicate (nat n) 0))) \<rparr>"

definition sample_root :: bytes where
  "sample_root = be_bytes 4 XFS_BMAP_MAGIC @ be_bytes 2 1 @ be_bytes 2 1 @ replicate 16 255 @ be_bytes 8 0 @ be_bytes 8 50"

definition tree_file :: xfs_inode where
  "tree_file = (let ip = sample_inode 0x81A4 FMT_BTREE [] in ip
     \<lparr> i_d := (i_d ip)\<lparr>di_size := 6, di_nextents := 1\<rparr>,
       i_df := (i_df ip)\<lparr>if_broot := Some sample_root, if_broot_bytes := 40\<rparr> \<rparr>)"

lemma sample_tree_geom: "tree_geom sample_mp"
  by (simp add: tree_geom_def sample_geom XFS_FSB_TO_BB_def BBSHIFT_def)

lemma sample_tree_root: "tree_root tree_file (Suc 0) 50"
proof -
  have "rd_be 2 4 sample_root = Some 1"
    by (rule rd_be_at [where pre = "be_bytes 4 XFS_BMAP_MAGIC"]) (simp_all add: sample_root_def)
  moreover have "rd_be 8 32 sample_root = Some 50"
    by (rule rd_be_at [where pre = "be_bytes 4 XFS_BMAP_MAGIC @ be_bytes 2 1 @ be_bytes 2 1 @ replicate 16 255 @ be_bytes 8 0"])
      (simp_all add: sample_root_def)
  ultimately show ?thesis
    by (simp add: tree_root_def tree_file_def Let_def bb_level_def XFS_BMBT_PTR_ADDR_def xfs_bmbt_maxrecs_def)
qed

lemma sample_leaf_at: "leaf_at sample_mp sample_leaf [tree_rec] NULLFSBLOCK"
  unfolding leaf_at_def
  by (intro conjI exI [of _ "replicate 8 255"] exI [of _ "replicate 4056 0"])
    (simp_all add: sample_leaf_def NULLFSBLOCK_def)

lemma tree_os_ok: "os_ok tree_os d"
  by (auto simp: os_ok_def tree_os_def sample_os_def)

lemma tree_dev: "dev_of tree_os () 0 blk 8 = Some sample_leaf"
  by (simp add: dev_of_def tree_os_def BBTOB_def sample_leaf_def BBSHIFT_def)

lemma sample_btree_file: "btree_file (dev_of tree_os () 0) sample_mp tree_file [tree_rec]"
proof -
  have "(0x81A4 :: nat) AND 0x8000 = 0x8000" by simp
  moreover have "ext_ok sample_mp (xfs_bmbt_get_all tree_rec)"
    by (simp add: tree_rec_def sample_rec_def get_set_all irec_fits_def ext_ok_def)
  ultimately have f: "file_ok sample_mp (with_list tree_file [tree_rec])"
    by (simp add: file_ok_def with_list_def tree_file_def Let_def S_IFREG_def)
  have fl: "flags_ok sample_mp [tree_rec]"
    by (simp add: flags_ok_def tree_rec_def sample_rec_def xfs_bmbt_set_all_def xfs_bmbt_set_allf_def)
  have "\<not> if_extents_read (i_df tree_file)" by (simp add: tree_file_def sample_inode_def Let_def)
  moreover have "first_leaf (dev_of tree_os () 0) sample_mp 0 50 sample_leaf"
    using leaf_fields(6) [OF sample_leaf_at] by (simp add: tree_dev)
  moreover have "leaf_chain (dev_of tree_os () 0) sample_mp sample_leaf [[tree_rec]]" by (simp add: sample_leaf_at)
  ultimately show ?thesis
    unfolding btree_file_def using sample_tree_geom f fl sample_tree_root
    by (intro conjI exI [of _ "0 :: nat"] exI [of _ 50] exI [of _ sample_leaf] exI [of _ "[[tree_rec]]"]) simp_all
qed

theorem iread_extents_ends_witness:
  "\<exists>e ip' s'. xfs_iread_extents (bcache_buf_ops tree_os 0) sample_mp tree_file (bcache_init 1024 ()) = Some (e, ip', s')"
proof -
  have "dev_readable (dev_of tree_os () 0) sample_mp"
    by (simp add: dev_readable_def tree_dev) (simp add: sample_leaf_def)
  from iread_extents_ends [OF sample_tree_geom this sample_bcache [OF tree_os_ok] sample_tree_root]
  show ?thesis by auto
qed

theorem readfile_btree_correct_witness:
  "\<exists>mem' ip' s'. xfs_readfile (bcache_buf_ops tree_os 0) (xfs_iread_extents (bcache_buf_ops tree_os 0) sample_mp) sample_mp
     tree_file (replicate 8 1) 2 8 (bcache_init 1024 ()) = Some (4, mem', ip', s') \<and> if_extents (i_df ip') = [tree_rec]"
proof -
  have m: "mount_ok sample_mp" by (simp add: mount_ok_def sample_geom BBSHIFT_def)
  have r: "req_ok (replicate 8 (1 :: u8)) 2 8" by (simp add: req_ok_def)
  have a: "all_readable (dev_of tree_os () 0) sample_mp (with_list tree_file [tree_rec]) 2 4"
    by (simp add: all_readable_def ext_readable_def dev_of_def tree_os_def)
  have z: "read_size tree_file 2 8 = 4" "\<not> di_size (i_d tree_file) \<le> 2"
    by (simp_all add: read_size_def tree_file_def Let_def)
  show ?thesis
    using readfile_btree_correct [OF m sample_btree_file r sample_bcache [OF tree_os_ok]] a
    by (auto simp: Let_def z)
qed

text \<open>The same file over a block with the magic number of version 5 file systems, \<open>XFS_BMAP_CRC_MAGIC\<close>.\<close>

definition crc_leaf :: bytes where
  "crc_leaf = be_bytes 4 0x424d4133 @ drop 4 sample_leaf"

definition crc_os :: "unit dev_ops" where
  "crc_os = sample_os \<lparr> pread64 := (\<lambda>fd off n d. Inr (take (nat n) (crc_leaf @ replicate (nat n) 0))) \<rparr>"


end
