(* ===== verification/Path_Walk.thy ===== *)
theory Path_Walk
  imports File_Read
begin

text \<open>
  Finding the inode of a path (\<open>first_name\<close>, \<open>next_name\<close>, \<open>find_path\<close> of xfsutil/xfsutil.c). Paths are
  byte lists without the terminating zero, and pointers into them are positions. The inode cache and the
  directory lookup are used through \<open>inode_ops\<close>; the locale \<open>inode_store\<close> is their contract, with the
  number of references held on every inode object.
\<close>

section \<open>Splitting a path\<close>

definition PATH_SEP :: u8 where "PATH_SEP = 47"

text \<open>\<open>struct xfs_name\<close>: a pointer, NULL at the end of the path, and a length.\<close>

record xfs_name =
  xn_name :: "nat option"
  xn_len :: nat

function skip_seps :: "bytes \<Rightarrow> nat \<Rightarrow> nat" where
  "skip_seps path p = (if p < length path \<and> path ! p = PATH_SEP then skip_seps path (p + 1) else p)"
  by pat_completeness auto
termination by (relation "measure (\<lambda>(path, p). length path - p)") auto

function scan_name :: "bytes \<Rightarrow> nat \<Rightarrow> nat \<Rightarrow> nat" where
  "scan_name path p len =
    (if p < length path \<and> path ! p \<noteq> PATH_SEP then scan_name path (p + 1) (len + 1) else len)"
  by pat_completeness auto
termination by (relation "measure (\<lambda>(path, p, len). length path - p)") auto

declare skip_seps.simps [simp del] scan_name.simps [simp del]

definition next_name :: "bytes \<Rightarrow> xfs_name \<Rightarrow> xfs_name" where
  "next_name path current =
    (let p = skip_seps path ((case xn_name current of Some p \<Rightarrow> p | None \<Rightarrow> 0) + xn_len current) in
     if p < length path then \<lparr> xn_name = Some p, xn_len = scan_name path p 0 \<rparr>
     else \<lparr> xn_name = None, xn_len = 0 \<rparr>)"

definition first_name :: "bytes option \<Rightarrow> xfs_name" where
  "first_name path = (case path of
     None \<Rightarrow> \<lparr> xn_name = None, xn_len = 0 \<rparr>
   | Some path \<Rightarrow> next_name path \<lparr> xn_name = Some 0, xn_len = 0 \<rparr>)"

definition name_bytes :: "bytes \<Rightarrow> xfs_name \<Rightarrow> bytes" where
  "name_bytes path xn = (case xn_name xn of None \<Rightarrow> [] | Some p \<Rightarrow> chunk p (xn_len xn) path)"

lemma components_shorter:
  assumes "dropWhile (\<lambda>c. c = PATH_SEP) xs = c # cs"
  shows "length (dropWhile (\<lambda>c. c \<noteq> PATH_SEP) (c # cs)) < length xs"
proof -
  have "c \<noteq> PATH_SEP" using hd_dropWhile [of "\<lambda>c. c = PATH_SEP" xs] assms by simp
  moreover have "length (dropWhile (\<lambda>c. c \<noteq> PATH_SEP) cs) \<le> length cs" by (rule length_dropWhile_le)
  moreover have "length (c # cs) \<le> length xs" using length_dropWhile_le [of "\<lambda>c. c = PATH_SEP" xs] assms by simp
  ultimately show ?thesis by simp
qed

text \<open>The reference: the non-empty stretches between separators.\<close>

function components :: "bytes \<Rightarrow> bytes list" where
  "components path = (case dropWhile (\<lambda>c. c = PATH_SEP) path of
     [] \<Rightarrow> []
   | c # cs \<Rightarrow> takeWhile (\<lambda>c. c \<noteq> PATH_SEP) (c # cs) # components (dropWhile (\<lambda>c. c \<noteq> PATH_SEP) (c # cs)))"
  by pat_completeness auto

termination
  by (relation "measure length") (simp, simp only: in_measure, rule components_shorter)

declare components.simps [simp del]

lemma skip_seps_eq: "skip_seps path p = p + length (takeWhile (\<lambda>c. c = PATH_SEP) (drop p path))"
proof (induction path p rule: skip_seps.induct)
  case (1 path p)
  show ?case
  proof (cases "p < length path \<and> path ! p = PATH_SEP")
    case True
    then have "drop p path = PATH_SEP # drop (p + 1) path" using Cons_nth_drop_Suc [of p path] by simp
    then show ?thesis using 1 True by (subst skip_seps.simps) simp
  next
    case False
    then have "takeWhile (\<lambda>c. c = PATH_SEP) (drop p path) = []"
      by (cases "drop p path") (auto simp: hd_drop_conv_nth [symmetric])
    then show ?thesis unfolding skip_seps.simps [of path p] if_not_P [OF False] by simp
  qed
qed

lemma scan_name_eq: "scan_name path p len = len + length (takeWhile (\<lambda>c. c \<noteq> PATH_SEP) (drop p path))"
proof (induction path p len rule: scan_name.induct)
  case (1 path p len)
  show ?case
  proof (cases "p < length path \<and> path ! p \<noteq> PATH_SEP")
    case True
    then have "drop p path = path ! p # drop (p + 1) path" using Cons_nth_drop_Suc [of p path] by simp
    then show ?thesis using 1 True by (subst scan_name.simps) simp
  next
    case False
    then have "takeWhile (\<lambda>c. c \<noteq> PATH_SEP) (drop p path) = []"
      by (cases "drop p path") (auto simp: hd_drop_conv_nth [symmetric])
    then show ?thesis unfolding scan_name.simps [of path p len] if_not_P [OF False] by simp
  qed
qed

text \<open>
  \<open>next_name\<close> continues where the current name ends: its result is the first component of the rest of the
  path, and the rest behind it holds the components that follow.
\<close>

definition name_end :: "xfs_name \<Rightarrow> nat" where
  "name_end xn = (case xn_name xn of Some p \<Rightarrow> p | None \<Rightarrow> 0) + xn_len xn"

lemma next_name_components:
  fixes path xn
  defines "n \<equiv> next_name path xn"
  shows "components (drop (name_end xn) path) =
    (if xn_len n = 0 then [] else name_bytes path n # components (drop (name_end n) path))"
    and "xn_len n \<noteq> 0 \<Longrightarrow> name_end xn < name_end n \<and> name_end n \<le> length path"
proof -
  let ?rest = "drop (name_end xn) path"
  let ?p = "skip_seps path (name_end xn)"
  have drop: "drop ?p path = dropWhile (\<lambda>c. c = PATH_SEP) ?rest"
    by (simp add: skip_seps_eq dropWhile_eq_drop add.commute)
  have n: "n = (if ?p < length path then \<lparr> xn_name = Some ?p, xn_len = scan_name path ?p 0 \<rparr>
      else \<lparr> xn_name = None, xn_len = 0 \<rparr>)"
    by (simp add: n_def next_name_def name_end_def Let_def)
  show "components ?rest =
      (if xn_len n = 0 then [] else name_bytes path n # components (drop (name_end n) path))"
  proof (cases "?p < length path")
    case False
    then have "dropWhile (\<lambda>c. c = PATH_SEP) ?rest = []" using drop by simp
    then have "components ?rest = []" unfolding components.simps [of ?rest] by (simp only: list.case)
    then show ?thesis using False n by simp
  next
    case True
    then obtain c cs where cs: "drop ?p path = c # cs" by (cases "drop ?p path") auto
    then have c: "c \<noteq> PATH_SEP" using hd_dropWhile [of "\<lambda>c. c = PATH_SEP" ?rest] drop by simp
    have l: "scan_name path ?p 0 = length (takeWhile (\<lambda>c. c \<noteq> PATH_SEP) (c # cs))"
      by (simp add: scan_name_eq cs)
    have "name_bytes path n = takeWhile (\<lambda>c. c \<noteq> PATH_SEP) (c # cs)"
      using True n by (simp add: name_bytes_def chunk_def l cs takeWhile_eq_take [symmetric])
    moreover have "drop (name_end n) path = dropWhile (\<lambda>c. c \<noteq> PATH_SEP) (c # cs)"
    proof -
      have "drop (name_end n) path = drop (scan_name path ?p 0) (drop ?p path)"
        using True n by (simp add: name_end_def add.commute)
      then show ?thesis by (simp only: cs l dropWhile_eq_drop)
    qed
    moreover have "xn_len n \<noteq> 0" using True n l c by simp
    ultimately show ?thesis
      using cs drop by (subst components.simps) simp
  qed
  show "xn_len n \<noteq> 0 \<Longrightarrow> name_end xn < name_end n \<and> name_end n \<le> length path"
  proof -
    assume z: "xn_len n \<noteq> 0"
    then have p: "?p < length path" using n by (simp split: if_splits)
    have "length (takeWhile (\<lambda>c. c \<noteq> PATH_SEP) (drop ?p path)) \<le> length (drop ?p path)"
      by (rule length_takeWhile_le)
    moreover have "name_end xn \<le> ?p" by (simp add: skip_seps_eq)
    moreover have "name_end n = ?p + length (takeWhile (\<lambda>c. c \<noteq> PATH_SEP) (drop ?p path))"
      "xn_len n = length (takeWhile (\<lambda>c. c \<noteq> PATH_SEP) (drop ?p path))"
      using n p by (simp_all add: name_end_def scan_name_eq)
    ultimately show ?thesis using p z by (simp only: length_drop) linarith
  qed
qed

section \<open>The inode cache, as its users see it\<close>

text \<open>
  \<open>op_iget\<close> is \<open>libxfs_iget\<close> (error, object, state; \<open>None\<close> when it does not return), \<open>op_inode\<close> the inode
  an object holds, \<open>op_iput\<close> \<open>libxfs_iput\<close> and \<open>op_lookup\<close> \<open>libxfs_dir_lookup\<close> on a directory object
  (error, inode number).
\<close>

record ('n, 's) inode_ops =
  op_iget :: "nat \<Rightarrow> 's \<Rightarrow> (int \<times> 'n option \<times> 's) option"
  op_inode :: "'s \<Rightarrow> 'n \<Rightarrow> xfs_inode"
  op_iput :: "'n \<Rightarrow> 's \<Rightarrow> 's"
  op_lookup :: "'n \<Rightarrow> bytes \<Rightarrow> 's \<Rightarrow> (int \<times> nat \<times> 's) option"

section \<open>Walking a path\<close>

text \<open>
  The loop of \<open>find_path\<close>: status, object of the inode found, state. \<open>None\<close> stands for a call that
  does not return.
\<close>

partial_function (option) find_path_loop ::
    "('n, 's) inode_ops \<Rightarrow> bytes \<Rightarrow> 'n \<Rightarrow> xfs_name \<Rightarrow> 's \<Rightarrow> (int \<times> 'n option \<times> 's) option" where
  "find_path_loop ops path current xname s =
    (if xn_len xname = 0 then Some (0, Some current, s)
     else if di_mode (i_d (op_inode ops s current)) AND S_IFDIR = 0
       then Some (XFS_ERROR ENOTDIR, None, op_iput ops current s)
     else do {
       (error, inode, s) \<leftarrow> op_lookup ops current (name_bytes path xname) s;
       if error \<noteq> 0 then Some (error, None, s)
       else do {
         let s = op_iput ops current s;
         (error, nxt, s) \<leftarrow> op_iget ops inode s;
         if error \<noteq> 0 then Some (XFS_ERROR EIO, None, s)
         else do {
           current \<leftarrow> nxt;
           find_path_loop ops path current (next_name path xname) s } } })"

text \<open>A failure to get the root inode ends the program (\<open>assert\<close>).\<close>

definition find_path ::
    "('n, 's) inode_ops \<Rightarrow> xfs_mount \<Rightarrow> bytes \<Rightarrow> 's \<Rightarrow> (int \<times> 'n option \<times> 's) option" where
  "find_path ops mp path s = do {
     (error, current, s) \<leftarrow> op_iget ops (sb_rootino (m_sb mp)) s;
     if error \<noteq> 0 then None
     else do {
       current \<leftarrow> current;
       find_path_loop ops path current (first_name (Some path)) s } }"

section \<open>What a path means\<close>

datatype walk = Found nat | NotDir | NoEntry nat

fun resolve :: "(nat \<Rightarrow> xfs_inode option) \<Rightarrow> (nat \<Rightarrow> bytes \<Rightarrow> nat option) \<Rightarrow> nat \<Rightarrow> bytes list \<Rightarrow> walk" where
  "resolve fs look ino [] = Found ino"
| "resolve fs look ino (c # cs) =
     (if di_mode (i_d (the (fs ino))) AND S_IFDIR = 0 then NotDir
      else case look ino c of None \<Rightarrow> NoEntry ino | Some t \<Rightarrow> resolve fs look t cs)"

text \<open>
  The contract. \<open>fs\<close> gives the inode of a number and \<open>look\<close> the entry of a name; \<open>inv R s\<close> says that the
  state is consistent and \<open>R n\<close> references are held on object \<open>n\<close>; \<open>room R\<close> that another one can be had.
  While references are held an object keeps its inode.
\<close>

locale inode_store =
  fixes ops :: "('n, 's) inode_ops"
    and inv :: "('n \<Rightarrow> int) \<Rightarrow> 's \<Rightarrow> bool" and room :: "('n \<Rightarrow> int) \<Rightarrow> bool"
    and fs :: "nat \<Rightarrow> xfs_inode option" and look :: "nat \<Rightarrow> bytes \<Rightarrow> nat option"
  assumes iget_ok: "inv R s \<Longrightarrow> room R \<Longrightarrow> fs ino \<noteq> None \<Longrightarrow>
      \<exists>n s'. op_iget ops ino s = Some (0, Some n, s') \<and> 0 \<le> R n \<and> inv (R(n := R n + 1)) s' \<and>
        i_ino (op_inode ops s' n) = ino \<and>
        (\<forall>m. 0 < R m \<longrightarrow> i_ino (op_inode ops s' m) = i_ino (op_inode ops s m))"
    and iput_ok: "inv R s \<Longrightarrow> 0 < R n \<Longrightarrow> inv (R(n := R n - 1)) (op_iput ops n s) \<and>
        (\<forall>m. op_inode ops (op_iput ops n s) m = op_inode ops s m)"
    and lookup_ok: "inv R s \<Longrightarrow> 0 < R n \<Longrightarrow> fs (i_ino (op_inode ops s n)) = Some i \<Longrightarrow>
        di_mode (i_d i) AND S_IFDIR \<noteq> 0 \<Longrightarrow>
      \<exists>e k s'. op_lookup ops n nm s = Some (e, k, s') \<and> inv R s' \<and>
        (\<forall>m. 0 < R m \<longrightarrow> i_ino (op_inode ops s' m) = i_ino (op_inode ops s m)) \<and>
        (case look (i_ino (op_inode ops s n)) nm of Some t \<Rightarrow> e = 0 \<and> k = t | None \<Rightarrow> e \<noteq> 0)"
    and held: "inv R s \<Longrightarrow> 0 < R n \<Longrightarrow> fs (i_ino (op_inode ops s n)) = Some i \<Longrightarrow>
        i_d (op_inode ops s n) = i_d i"
    and entries_exist: "look ino nm = Some t \<Longrightarrow> fs t \<noteq> None"
begin

text \<open>Objects that are held keep their inodes.\<close>

definition keeps :: "('n \<Rightarrow> int) \<Rightarrow> 's \<Rightarrow> 's \<Rightarrow> bool" where
  "keeps R s s' \<longleftrightarrow> (\<forall>m. 0 < R m \<longrightarrow> i_ino (op_inode ops s' m) = i_ino (op_inode ops s m))"

lemma keeps_trans: "keeps R s s1 \<Longrightarrow> keeps R s1 s2 \<Longrightarrow> keeps R s s2"
  by (simp add: keeps_def)

lemma keeps_more:
  assumes "keeps (R(n := R n + 1)) s s'"
  shows "keeps R s s'"
  unfolding keeps_def
proof (intro allI impI)
  fix m
  assume "0 < R m"
  then have "0 < (R(n := R n + 1)) m" by (cases "m = n") auto
  then show "i_ino (op_inode ops s' m) = i_ino (op_inode ops s m)" using assms unfolding keeps_def by blast
qed

lemma keeps_iput: "inv R s \<Longrightarrow> 0 < R n \<Longrightarrow> keeps R' s (op_iput ops n s)"
  using iput_ok by (simp add: keeps_def)

text \<open>The result of a walk in the state \<open>s\<close>.\<close>

definition walk_result :: "('n \<Rightarrow> int) \<Rightarrow> 's \<Rightarrow> walk \<Rightarrow> int \<times> 'n option \<times> 's \<Rightarrow> bool" where
  "walk_result R s w r \<longleftrightarrow> (case r of (error, res, s') \<Rightarrow> keeps R s s' \<and> (case w of
      Found ino \<Rightarrow> error = 0 \<and> (\<exists>n. res = Some n \<and> 0 \<le> R n \<and> inv (R(n := R n + 1)) s' \<and> i_ino (op_inode ops s' n) = ino)
    | NotDir \<Rightarrow> error = XFS_ERROR ENOTDIR \<and> res = None \<and> inv R s'
    | NoEntry ino \<Rightarrow> error \<noteq> 0 \<and> res = None \<and>
        (\<exists>n. 0 \<le> R n \<and> inv (R(n := R n + 1)) s' \<and> i_ino (op_inode ops s' n) = ino)))"

lemma find_path_loop_ok:
  assumes "inv (R(n := R n + 1)) s" and "0 \<le> R n" and "room R" and "fs (i_ino (op_inode ops s n)) \<noteq> None"
    and "xname = next_name path prev" and "length (components (drop (name_end prev) path)) = k"
  shows "\<exists>r. find_path_loop ops path n xname s = Some r \<and>
    walk_result R s (resolve fs look (i_ino (op_inode ops s n)) (components (drop (name_end prev) path))) r"
  using assms
proof (induction k arbitrary: n s xname prev)
  case 0
  then have "components (drop (name_end prev) path) = []" by simp
  moreover from this have "xn_len xname = 0"
    using next_name_components(1) [of prev path] "0.prems"(5) by (simp split: if_splits)
  ultimately show ?case
    using "0.prems" by (subst find_path_loop.simps) (auto simp: walk_result_def keeps_def fun_upd_def)
next
  case (Suc k)
  let ?ino = "i_ino (op_inode ops s n)" and ?R = "R(n := R n + 1)"
  let ?nm = "name_bytes path xname" and ?rest = "components (drop (name_end xname) path)"
  have len: "xn_len xname \<noteq> 0" and cs: "components (drop (name_end prev) path) = ?nm # ?rest"
    using next_name_components(1) [of prev path] Suc.prems(5,6) by (auto split: if_splits)
  have pos: "0 < ?R n" using Suc.prems(2) by simp
  obtain i where i: "fs ?ino = Some i" using Suc.prems(4) by blast
  have mode: "i_d (op_inode ops s n) = i_d i" by (rule held [OF Suc.prems(1) pos i])
  have again: "?R(n := ?R n - 1) = R" by (simp add: fun_eq_iff)
  note step = find_path_loop.simps [of ops path n xname s]
  show ?case
  proof (cases "di_mode (i_d i) AND S_IFDIR = 0")
    case True
    have "inv R (op_iput ops n s)" using iput_ok [OF Suc.prems(1) pos, unfolded again] by blast
    then show ?thesis
      using len True mode i cs keeps_iput [OF Suc.prems(1) pos] by (subst step) (simp add: walk_result_def)
  next
    case dir: False
    obtain e t s1 where l: "op_lookup ops n ?nm s = Some (e, t, s1)" "inv ?R s1"
      "\<forall>m. 0 < ?R m \<longrightarrow> i_ino (op_inode ops s1 m) = i_ino (op_inode ops s m)"
      "case look ?ino ?nm of Some u \<Rightarrow> e = 0 \<and> t = u | None \<Rightarrow> e \<noteq> 0"
      using lookup_ok [OF Suc.prems(1) pos i dir, of ?nm] by blast
    have "keeps ?R s s1" using l(3) by (simp only: keeps_def)
    then have kept: "keeps R s s1" by (rule keeps_more)
    show ?thesis
    proof (cases "look ?ino ?nm")
      case None
      have "find_path_loop ops path n xname s = Some (e, None, s1)"
        using len dir mode l(1,4) None by (subst step) simp
      moreover have "i_ino (op_inode ops s1 n) = ?ino" using l(3) pos by blast
      moreover have "keeps R s s1" by (rule kept)
      ultimately show ?thesis
        using l(2,4) None dir i cs Suc.prems(2) by (auto simp: walk_result_def)
    next
      case (Some u)
      have put: "inv R (op_iput ops n s1)" using iput_ok [OF l(2) pos, unfolded again] by blast
      have fu: "fs u \<noteq> None" by (rule entries_exist [OF Some])
      obtain n2 s2 where g: "op_iget ops u (op_iput ops n s1) = Some (0, Some n2, s2)" "0 \<le> R n2"
        "inv (R(n2 := R n2 + 1)) s2" "i_ino (op_inode ops s2 n2) = u" "keeps R (op_iput ops n s1) s2"
        using iget_ok [OF put Suc.prems(3) fu] unfolding keeps_def by blast
      have keep: "keeps R s s2" using kept keeps_trans keeps_iput [OF l(2) pos] g(5) by blast
      have go: "find_path_loop ops path n xname s = find_path_loop ops path n2 (next_name path xname) s2"
        using len dir mode l(1,4) Some g(1) by (subst step) simp
      have res: "resolve fs look ?ino (components (drop (name_end prev) path)) = resolve fs look u ?rest"
        using Some dir i cs by simp
      have w: "walk_result R s2 v r \<Longrightarrow> walk_result R s v r" for v r
        using keeps_trans [OF keep] by (auto simp: walk_result_def)
      have "length ?rest = k" using Suc.prems(6) cs by simp
      then show ?thesis
        unfolding go res using Suc.IH [OF g(3,2) Suc.prems(3) _ refl, of xname] g(4) fu w by auto
    qed
  qed
qed

lemma find_path_ok:
  assumes "inv R s" and "room R" and "fs (sb_rootino (m_sb mp)) \<noteq> None"
  shows "\<exists>r. find_path ops mp path s = Some r \<and>
    walk_result R s (resolve fs look (sb_rootino (m_sb mp)) (components path)) r"
proof -
  obtain n s1 where g: "op_iget ops (sb_rootino (m_sb mp)) s = Some (0, Some n, s1)" "0 \<le> R n"
    "inv (R(n := R n + 1)) s1" "i_ino (op_inode ops s1 n) = sb_rootino (m_sb mp)" "keeps R s s1"
    using iget_ok [OF assms] unfolding keeps_def by blast
  have "walk_result R s1 w r \<Longrightarrow> walk_result R s w r" for w r
    using keeps_trans [OF g(5)] by (auto simp: walk_result_def)
  then show ?thesis
    using find_path_loop_ok [OF g(3,2) assms(2) _ refl refl, of path "\<lparr> xn_name = Some 0, xn_len = 0 \<rparr>"]
      g(1,4) assms(3)
    by (auto simp: find_path_def first_name_def name_end_def)
qed

lemma resolve_exists: "fs ino \<noteq> None \<Longrightarrow> resolve fs look ino cs = Found t \<Longrightarrow> fs t \<noteq> None"
proof (induction cs arbitrary: ino)
  case (Cons c cs)
  then obtain u where "look ino c = Some u" "resolve fs look u cs = Found t" by (auto split: if_splits option.splits)
  then show ?case using Cons.IH entries_exist by blast
qed simp

end

end
