(* ===== verification/Icache.thy ===== *)
theory Icache
  imports Bcache_Tree Path_Walk
begin

text \<open>
  The inode cache (libxfs/rdwr.c, "Inode cache interfaces"): the object cache of \<open>Cache\<close> with inodes read by
  \<open>libxfs_iread\<close>. The contract \<open>inode_store\<close> of the path walk holds of its operations over the buffer cache,
  with directories looked up by \<open>xfs_dir_lookup\<close>. There is no transaction, and no log item on an inode.
\<close>

section \<open>Data and client operations\<close>

text \<open>The inode objects are numbered; \<open>in_next\<close> is the next one to be allocated.\<close>

record inodes =
  in_obj :: "nat \<Rightarrow> xfs_inode"
  in_next :: nat

record 's icache =
  ic_cache :: cache
  ic_inodes :: inodes
  ic_bufs :: 's

definition set_inode :: "nat \<Rightarrow> xfs_inode \<Rightarrow> inodes \<Rightarrow> inodes" where
  "set_inode n ip p = p\<lparr>in_obj := (in_obj p)(n := ip)\<rparr>"

definition libxfs_ihash :: "nat \<Rightarrow> nat \<Rightarrow> nat" where
  "libxfs_ihash key hashsize = key mod 2 ^ 32 mod hashsize"

definition libxfs_icompare :: "inodes \<Rightarrow> nat \<Rightarrow> nat \<Rightarrow> bool" where
  "libxfs_icompare p n key \<longleftrightarrow> i_ino (in_obj p n) = key"

text \<open>The object is zeroed memory; the key is not used, and running out of memory ends the program.\<close>

definition libxfs_ialloc :: "nat \<Rightarrow> inodes \<Rightarrow> nat option \<times> inodes" where
  "libxfs_ialloc key p = (Some (in_next p), set_inode (in_next p) zero_inode p\<lparr>in_next := in_next p + 1\<rparr>)"

definition libxfs_idestroy :: "xfs_inode \<Rightarrow> xfs_inode" where
  "libxfs_idestroy ip =
    (let ip = (if di_mode (i_d ip) AND S_IFMT \<in> {S_IFREG, S_IFDIR, S_IFLNK} then xfs_idestroy_data ip else ip) in
     if i_afp ip \<noteq> None then ip\<lparr>i_afp := None\<rparr> else ip)"

definition libxfs_irelse :: "nat \<Rightarrow> inodes \<Rightarrow> inodes" where
  "libxfs_irelse n p = set_inode n (libxfs_idestroy (in_obj p n)) p"

definition libxfs_icache_operations :: "(nat, inodes) cache_ops" where
  "libxfs_icache_operations = \<lparr> op_hash = libxfs_ihash, op_alloc = libxfs_ialloc, op_flush = None,
     op_relse = libxfs_irelse, op_compare = libxfs_icompare, op_bulkrelse = None \<rparr>"

section \<open>The interface\<close>

text \<open>
  \<open>libxfs_iget\<close>: error, object, state. When the inode cannot be read, the node that was made for it is purged,
  which \<open>cache_node_purge\<close> refuses to do as it is still referenced.
\<close>

definition libxfs_iget ::
    "('b, 's) buf_ops \<Rightarrow> 's chunk_lookup \<Rightarrow> (nat \<Rightarrow> bytes) \<Rightarrow> xfs_mount \<Rightarrow> nat \<Rightarrow> int \<Rightarrow> 's icache \<Rightarrow>
      (int \<times> nat option \<times> 's icache) option" where
  "libxfs_iget ops find_chunk junk mp ino bno s = do {
     (miss, n, c, p) \<leftarrow> cache_node_get libxfs_icache_operations (ic_cache s) (ic_inodes s) ino;
     if \<not> miss then Some (0, Some n, s\<lparr>ic_cache := c, ic_inodes := p\<rparr>)
     else do {
       (error, ip, b) \<leftarrow> libxfs_iread ops find_chunk junk mp ino (in_obj p n) bno (ic_bufs s);
       let p = set_inode n ip p;
       if error \<noteq> 0 then
         let (_, c, p) = cache_node_purge libxfs_icache_operations c p ino n in
         Some (error, None, \<lparr>ic_cache = c, ic_inodes = p, ic_bufs = b\<rparr>)
       else Some (0, Some n, \<lparr>ic_cache = c, ic_inodes = p, ic_bufs = b\<rparr>) } }"

definition libxfs_iput :: "nat \<Rightarrow> 's icache \<Rightarrow> 's icache" where
  "libxfs_iput n s = s\<lparr>ic_cache := cache_node_put (ic_cache s) n\<rparr>"

definition libxfs_icache_purge :: "'s icache \<Rightarrow> 's icache" where
  "libxfs_icache_purge s = (let (c, p) = cache_purge libxfs_icache_operations (ic_cache s) (ic_inodes s) in
     s\<lparr>ic_cache := c, ic_inodes := p\<rparr>)"

text \<open>
  \<open>xfs_dir_lookup\<close> on an inode object. Its callers here give no place for the name of a match in another case.
\<close>

definition inode_dir_lookup ::
    "bool \<Rightarrow> ('b, 's) buf_ops \<Rightarrow> 's inode_reader \<Rightarrow> 's inode_reader \<Rightarrow> xfs_mount \<Rightarrow> nat \<Rightarrow> bytes \<Rightarrow> 's icache \<Rightarrow> (int \<times> nat \<times> 's icache) option" where
  "inode_dir_lookup alloc_ok ops iread l2e mp n name s = do {
     (error, ino, _, dp, b) \<leftarrow>
       xfs_dir_lookup alloc_ok ops iread l2e mp (in_obj (ic_inodes s) n) name False (ic_bufs s);
     Some (error, ino, s\<lparr>ic_inodes := set_inode n dp (ic_inodes s), ic_bufs := b\<rparr>) }"

section \<open>Allocation and keys\<close>

text \<open>
  The generic cache expects a new object to match its key at once; here this is so only after \<open>libxfs_iread\<close> has
  set \<open>i_ino\<close>. The lookup does not look at the new object, so an allocation that sets the number at once takes the
  same steps.
\<close>

lemma generic_bulkrelse_cong:
  "op_relse ops' = op_relse ops \<Longrightarrow> cache_generic_bulkrelse ops' ns p = cache_generic_bulkrelse ops ns p"
  by (induction ns arbitrary: p) (simp_all add: Let_def)

lemma cache_shake_cong:
  assumes "op_relse ops' = op_relse ops" "op_bulkrelse ops' = op_bulkrelse ops"
  shows "cache_shake ops' = cache_shake ops"
proof -
  have "bulkrelse ops' = bulkrelse ops"
    using assms generic_bulkrelse_cong [OF assms(1)] by (auto simp: bulkrelse_def fun_eq_iff split: option.split)
  then show ?thesis by (intro ext) (simp only: cache_shake_def)
qed

lemma get_loop_alloc:
  assumes ops: "op_compare ops' = op_compare ops" "op_relse ops' = op_relse ops" "op_bulkrelse ops' = op_bulkrelse ops"
    and alloc: "\<And>k p n p1. op_alloc ops' k p = (Some n, p1) \<Longrightarrow> \<exists>p0. op_alloc ops k p = (Some n, p0) \<and> p1 = h k n p0 \<and> Z n p0"
      "\<And>k p p1. op_alloc ops' k p = (None, p1) \<Longrightarrow> op_alloc ops k p = (None, p1)"
    and r: "cache_get_loop ops' key idx prio c p = Some (miss, n, c', q)"
  shows "\<exists>p'. cache_get_loop ops key idx prio c p = Some (miss, n, c', p') \<and> q = (if miss then h key n p' else p') \<and>
    (miss \<longrightarrow> Z n p')"
proof -
  define P where "P o' k i pr c p y \<longleftrightarrow> (o' = ops' \<longrightarrow> (case y of (miss, n, c', q) \<Rightarrow>
      \<exists>p'. cache_get_loop ops k i pr c p = Some (miss, n, c', p') \<and> q = (if miss then h k n p' else p') \<and> (miss \<longrightarrow> Z n p')))"
    for o' k i pr c p y
  have "P ops' key idx prio c p (miss, n, c', q)"
  proof (rule cache_get_loop.raw_induct [OF _ r])
    fix loop o' k i pr c p y
    assume IH: "\<And>o' k i pr c p y. loop o' k i pr c p = Some y \<Longrightarrow> P o' k i pr c p y"
      and body: "(case find (\<lambda>n. op_compare o' p n k) (ch_list (c_hash c i)) of
       Some node \<Rightarrow> Some (False, node, cache_hit node c, p)
     | None \<Rightarrow>
        (case cache_node_allocate o' c p k of
           (Some node, c1, p1) \<Rightarrow> Some (True, node, cache_add i node c1, p1)
         | (None, c1, p1) \<Rightarrow>
            (case cache_shake o' c1 p1 pr False of
               (priority', c2, p2) \<Rightarrow>
                 if priority' > CACHE_MAX_PRIORITY
                 then loop o' k i 0 (cache_expand c2) p2
                 else loop o' k i priority' c2 p2))) = Some y"
    show "P o' k i pr c p y"
      unfolding P_def
    proof
      assume o': "o' = ops'"
      note step = cache_get_loop.simps [of ops k i pr c p]
      show "case y of (miss, n, c', q) \<Rightarrow> \<exists>p'. cache_get_loop ops k i pr c p = Some (miss, n, c', p') \<and>
          q = (if miss then h k n p' else p') \<and> (miss \<longrightarrow> Z n p')"
      proof (cases "find (\<lambda>n. op_compare ops p n k) (ch_list (c_hash c i))")
        case (Some node)
        then show ?thesis using body step by (auto simp: o' ops)
      next
        case none: None
        obtain a c1 p1 where A: "cache_node_allocate ops' c p k = (a, c1, p1)" by (metis prod_cases3)
        show ?thesis
        proof (cases a)
          case (Some node)
          then obtain p0 where "cache_node_allocate ops c p k = (Some node, c1, p0)" "p1 = h k node p0" "Z node p0"
            using A alloc(1) [of k p node p1]
            by (auto simp: cache_node_allocate_def Let_def split: if_splits prod.splits option.splits)
          then show ?thesis using body step A Some none by (auto simp: o' ops)
        next
          case None
          have B: "cache_node_allocate ops c p k = (None, c1, p1)"
            using A None alloc(2) [of k p p1]
            by (auto simp: cache_node_allocate_def Let_def split: if_splits prod.splits option.splits)
          obtain r c2 p2 where S: "cache_shake ops c1 p1 pr False = (r, c2, p2)" by (metis prod_cases3)
          define pr' where "pr' = (if r > CACHE_MAX_PRIORITY then 0 else r)"
          define c3 where "c3 = (if r > CACHE_MAX_PRIORITY then cache_expand c2 else c2)"
          have "loop ops' k i pr' c3 p2 = Some y"
            using body A None none S by (auto simp: o' ops cache_shake_cong [OF ops(2,3)] pr'_def c3_def)
          from IH [OF this, unfolded P_def]
          show ?thesis using step none B S by (auto simp: pr'_def c3_def split: if_splits)
        qed
      qed
    qed
  qed
  then show ?thesis by (auto simp: P_def)
qed

definition ialloc_keyed :: "nat \<Rightarrow> inodes \<Rightarrow> nat option \<times> inodes" where
  "ialloc_keyed key p =
    (Some (in_next p), set_inode (in_next p) (zero_inode\<lparr>i_ino := key\<rparr>) p\<lparr>in_next := in_next p + 1\<rparr>)"

definition keyed_operations :: "(nat, inodes) cache_ops" where
  "keyed_operations = libxfs_icache_operations\<lparr>op_alloc := ialloc_keyed\<rparr>"

lemma keyed_simps [simp]:
  "op_hash keyed_operations = libxfs_ihash" "op_alloc keyed_operations = ialloc_keyed"
  "op_flush keyed_operations = None" "op_relse keyed_operations = libxfs_irelse"
  "op_compare keyed_operations = libxfs_icompare" "op_bulkrelse keyed_operations = None"
  by (simp_all add: keyed_operations_def libxfs_icache_operations_def)

lemma set_inode_simps [simp]:
  "in_obj (set_inode n ip p) = (in_obj p)(n := ip)" "in_next (set_inode n ip p) = in_next p"
  "set_inode n ip (set_inode n ip' p) = set_inode n ip p"
  by (simp_all add: set_inode_def)

lemma cache_get_keyed:
  assumes "cache_node_get keyed_operations c p key = Some (miss, n, c', q)"
  shows "\<exists>p'. cache_node_get libxfs_icache_operations c p key = Some (miss, n, c', p') \<and>
    q = (if miss then set_inode n (zero_inode\<lparr>i_ino := key\<rparr>) p' else p') \<and> (miss \<longrightarrow> in_obj p' n = zero_inode)"
  using get_loop_alloc [where ops = libxfs_icache_operations and ops' = keyed_operations
      and h = "\<lambda>k n p. set_inode n (zero_inode\<lparr>i_ino := k\<rparr>) p" and Z = "\<lambda>n p. in_obj p n = zero_inode"] assms
  by (fastforce simp: cache_node_get_def libxfs_icache_operations_def libxfs_ialloc_def ialloc_keyed_def set_inode_def)

text \<open>
  The objects in the cache have been allocated, and those numbered below \<open>k\<close> hold the inodes \<open>f\<close>: with the
  objects of one moment, the contract says that an operation leaves the inodes it keeps alone.
\<close>

definition inodes_ok :: "nat \<Rightarrow> (nat \<Rightarrow> xfs_inode) \<Rightarrow> inodes \<Rightarrow> nat set \<Rightarrow> bool" where
  "inodes_ok k f p L \<longleftrightarrow> k \<le> in_next p \<and> (\<forall>n \<in> L. n < in_next p \<and> (n < k \<longrightarrow> in_obj p n = f n))"

interpretation ic: cache_client keyed_operations "inodes_ok k f" for k f
  by unfold_locales
    (auto simp: libxfs_ihash_def inodes_ok_def ialloc_keyed_def libxfs_icompare_def libxfs_irelse_def fun_eq_iff)

section \<open>The state between calls\<close>

text \<open>
  \<open>R\<close> gives the references held on every object; \<open>mx\<close> is the size of the cache. Nobody changes priorities.
\<close>

definition icache_ok :: "int \<Rightarrow> (nat \<Rightarrow> int) \<Rightarrow> cache \<Rightarrow> inodes \<Rightarrow> bool" where
  "icache_ok mx R c p \<longleftrightarrow> cache_inv keyed_operations (inodes_ok 0 (\<lambda>_. zero_inode)) c p \<and> refs c = R \<and>
     c_maxcount c = mx \<and> c_count c \<le> mx \<and> 0 < mx \<and> mx < 2 ^ 31 \<and> (\<forall>n \<in> nodes c. cn_priority (c_nodes c n) = 0)"

lemma freeze:
  "cache_inv keyed_operations (inodes_ok k f) c p \<Longrightarrow> cache_inv keyed_operations (inodes_ok (in_next p) (in_obj p)) c p"
  "cache_inv keyed_operations (inodes_ok k f) c p \<Longrightarrow> cache_inv keyed_operations (inodes_ok 0 g) c p"
  by (auto simp: cache_inv_def inodes_ok_def)

lemma icache_node: "icache_ok mx R c p \<Longrightarrow> R n \<noteq> 0 \<Longrightarrow> n \<in> nodes c"
  by (auto simp: icache_ok_def refs_def split: if_splits)

lemma icache_refs_nonneg: "icache_ok mx R c p \<Longrightarrow> 0 \<le> R n"
  by (auto simp: icache_ok_def refs_def cache_inv_def cache_wf_def lists_ok_def counts_ok_def)

lemma icache_room:
  assumes ok: "icache_ok mx R c p" and few: "int (card {n. R n \<noteq> 0}) < mx"
  shows "c_count c < c_maxcount c \<or> (\<exists>q. 0 \<le> q \<and> q < CACHE_MAX_PRIORITY \<and> idle c q \<noteq> {})"
proof (cases "c_count c = mx")
  case True
  then show ?thesis
    using ok few idle_exists [of c] by (auto simp: icache_ok_def cache_inv_def CACHE_MAX_PRIORITY_def)
qed (use ok in \<open>auto simp: icache_ok_def\<close>)

text \<open>What a lookup gives: a node of the inode or a fresh one, with one more reference; all others stay.\<close>

definition got :: "int \<Rightarrow> (nat \<Rightarrow> int) \<Rightarrow> nat \<Rightarrow> cache \<Rightarrow> inodes \<Rightarrow> bool \<Rightarrow> nat \<Rightarrow> cache \<Rightarrow> inodes \<Rightarrow> bool" where
  "got mx R ino c p miss n c' p' \<longleftrightarrow> 0 \<le> R n \<and> n \<in> nodes c' \<and>
     (miss \<longleftrightarrow> (\<forall>m \<in> nodes c. i_ino (in_obj p m) \<noteq> ino)) \<and>
     (if miss then in_obj p' n = zero_inode \<and> R n = 0 else p' = p \<and> n \<in> nodes c \<and> i_ino (in_obj p n) = ino) \<and>
     (\<forall>m \<in> nodes c'. m \<noteq> n \<longrightarrow> m \<in> nodes c \<and> in_obj p' m = in_obj p m) \<and>
     (\<forall>ip. miss \<and> i_ino ip = ino \<longrightarrow> icache_ok mx (R(n := R n + 1)) c' (set_inode n ip p')) \<and>
     (\<not> miss \<longrightarrow> icache_ok mx (R(n := R n + 1)) c' p')"

lemma icache_get:
  assumes ok: "icache_ok mx R c p" and few: "int (card {n. R n \<noteq> 0}) < mx"
  shows "\<exists>miss n c' p'. cache_node_get libxfs_icache_operations c p ino = Some (miss, n, c', p') \<and>
    got mx R ino c p miss n c' p'"
proof -
  have I: "cache_inv keyed_operations (inodes_ok (in_next p) (in_obj p)) c p" "refs c = R" "c_maxcount c = mx"
    "0 < c_maxcount c" "c_count c < 2 ^ 31" "c_count c \<le> c_maxcount c"
    and pr: "\<forall>n \<in> nodes c. cn_priority (c_nodes c n) = 0"
    using ok freeze(1) by (auto simp: icache_ok_def)
  obtain miss n c' q where G: "cache_node_get keyed_operations c p ino = Some (miss, n, c', q)"
    "ic.get_post (in_next p) (in_obj p) c p ino miss n c' q" "size_post 0 c c'"
    using ic.cache_node_get_ok [OF I(1,4,5)] by blast
  obtain p' where p': "cache_node_get libxfs_icache_operations c p ino = Some (miss, n, c', p')"
    "q = (if miss then set_inode n (zero_inode\<lparr>i_ino := ino\<rparr>) p' else p')" "miss \<longrightarrow> in_obj p' n = zero_inode"
    using cache_get_keyed [OF G(1)] by blast
  have P: "cache_inv keyed_operations (inodes_ok (in_next p) (in_obj p)) c' q" "n \<in> nodes c'"
    "miss \<longleftrightarrow> (\<forall>m \<in> nodes c. \<not> libxfs_icompare p m ino)" "libxfs_icompare q n ino"
    "\<forall>m \<in> nodes c'. m \<noteq> n \<longrightarrow> m \<in> nodes c \<and> c_nodes c' m = c_nodes c m" "\<not> miss \<longrightarrow> q = p \<and> n \<in> nodes c"
    "miss \<longrightarrow> n \<notin> {m \<in> nodes c. 0 < cn_count (c_nodes c m)}"
    "cn_priority (c_nodes c' n) = (if miss then 0 else cn_priority (c_nodes c n))"
    using G(2) by (simp_all add: ic.get_post_def split: if_splits) blast+
  note rf = ic.get_post_refs [OF I(1) G(2), unfolded I(2)]
  have mx: "c_maxcount c' = mx" "c_count c' \<le> mx"
    using G(3) icache_room [OF ok few] I(3,6) by (auto simp: size_post_def)
  have pr': "\<forall>m \<in> nodes c'. cn_priority (c_nodes c' m) = 0" using P(2,5,6,8) pr by (metis (full_types))
  have old: "in_obj q m = in_obj p m" if "m \<in> nodes c'" "m \<in> nodes c" for m
    using P(1) I(1) that by (auto simp: cache_inv_def inodes_ok_def)
  have keep: "icache_ok mx (R(n := R n + 1)) c' q'" if "q' = q \<or> (\<exists>ip. i_ino ip = ino \<and> q' = set_inode n ip q)" for q'
  proof -
    have "cache_inv keyed_operations (inodes_ok 0 (\<lambda>_. zero_inode)) c' q'"
      by (rule ic.cache_inv_payload [OF freeze(2) [OF P(1)]])
        (use that P(1,2,4) in \<open>auto simp: inodes_ok_def cache_inv_def libxfs_icompare_def fun_eq_iff\<close>)
    then show ?thesis using mx pr' rf ok by (simp add: icache_ok_def)
  qed
  have R0: "miss \<Longrightarrow> R n = 0" using P(7) rf(2) by (auto simp: I(2) [symmetric] refs_def)
  have same: "\<forall>m \<in> nodes c'. m \<noteq> n \<longrightarrow> m \<in> nodes c \<and> in_obj p' m = in_obj p m"
    using P(5) old p'(2) by (metis fun_upd_other set_inode_simps(1))
  have new: "icache_ok mx (R(n := R n + 1)) c' (set_inode n ip p')" if "miss" "i_ino ip = ino" for ip
    using keep [of "set_inode n ip q"] that p'(2) by auto
  have hit: "icache_ok mx (R(n := R n + 1)) c' p'" "p' = p" "n \<in> nodes c" if "\<not> miss"
    using keep [of q] that p'(2) P(6) by auto
  have m: "miss \<longleftrightarrow> (\<forall>m \<in> nodes c. i_ino (in_obj p m) \<noteq> ino)" using P(3) by (simp add: libxfs_icompare_def)
  have "got mx R ino c p miss n c' p'"
  proof (cases miss)
    case True
    then show ?thesis unfolding got_def using rf(2) P(2) m same new R0 p'(3) by simp
  next
    case False
    then have "i_ino (in_obj p n) = ino" using P(4,6) by (simp add: libxfs_icompare_def)
    then show ?thesis unfolding got_def using False rf(2) P(2) m same hit by auto
  qed
  then show ?thesis using p'(1) by blast
qed

lemma icache_put:
  assumes ok: "icache_ok mx R c p" and n: "0 < R n"
  shows "icache_ok mx (R(n := R n - 1)) (cache_node_put c n) p" and "nodes (cache_node_put c n) = nodes c"
proof -
  have I: "cache_inv keyed_operations (inodes_ok 0 (\<lambda>_. zero_inode)) c p" "refs c = R" using ok by (auto simp: icache_ok_def)
  have nn: "n \<in> nodes c" "0 < cn_count (c_nodes c n)" using n by (auto simp: I(2) [symmetric] refs_def split: if_splits)
  note P = ic.cache_node_put_ok [OF I(1) nn]
  have q: "c_maxcount (cache_node_put c n) = c_maxcount c" "c_count (cache_node_put c n) = c_count c"
      "cn_priority (c_nodes (cache_node_put c n) m) = cn_priority (c_nodes c m)" for m
    by (auto simp: cache_node_put_def Let_def upd_defs)
  have "refs (cache_node_put c n) = R(n := R n - 1)"
    using P(2-4) nn(1) by (auto simp: fun_eq_iff I(2) [symmetric] refs_def)
  then show "icache_ok mx (R(n := R n - 1)) (cache_node_put c n) p" "nodes (cache_node_put c n) = nodes c"
    using ok P(1,2) q by (auto simp: icache_ok_def)
qed

lemma icache_payload:
  assumes "icache_ok mx R c p" and "i_ino ip = i_ino (in_obj p n)"
  shows "icache_ok mx R c (set_inode n ip p)"
proof -
  have "cache_inv keyed_operations (inodes_ok 0 (\<lambda>_. zero_inode)) c (set_inode n ip p)"
    by (rule ic.cache_inv_payload [where p = p])
      (use assms in \<open>auto simp: icache_ok_def cache_inv_def inodes_ok_def libxfs_icompare_def fun_eq_iff\<close>)
  then show ?thesis using assms(1) by (simp add: icache_ok_def)
qed

section \<open>Inodes of the device\<close>

definition inode_of ::
    "(nat \<Rightarrow> bytes) \<Rightarrow> xfs_mount \<Rightarrow> (int \<Rightarrow> int \<Rightarrow> bytes option) \<Rightarrow> nat \<Rightarrow> xfs_inode option" where
  "inode_of junk mp dev ino = (case iread_dev junk mp dev ino zero_inode of
     Some (e, ip) \<Rightarrow> if e = 0 then Some ip else None | None \<Rightarrow> None)"

lemma inode_of_iread: "inode_of junk mp dev ino = Some ip \<longleftrightarrow> iread_dev junk mp dev ino zero_inode = Some (0, ip)"
  by (auto simp: inode_of_def split: option.split)

lemma inode_of_ino: "inode_of junk mp dev ino = Some ip \<Longrightarrow> i_ino ip = ino"
  using iread_dev_ino by (simp add: inode_of_iread)

text \<open>
  An object holds the inode as it was read; of an inode whose list of extents is a tree, the list may have been read in
  since. What such an object can look like is the relation \<open>tr\<close>, which the operations here do not depend on.
\<close>

definition loaded :: "(xfs_inode \<Rightarrow> xfs_inode \<Rightarrow> bool) \<Rightarrow> xfs_inode \<Rightarrow> xfs_inode \<Rightarrow> bool" where
  "loaded tr ip0 ip \<longleftrightarrow> ip = ip0 \<or> di_format (i_d ip0) = FMT_BTREE \<and> \<not> if_extents_read (i_df ip0) \<and>
     i_d ip = i_d ip0 \<and> i_ino ip = i_ino ip0 \<and> tr ip0 ip"

definition icache_inv ::
    "(xfs_inode \<Rightarrow> xfs_inode \<Rightarrow> bool) \<Rightarrow> (nat \<Rightarrow> xfs_inode option) \<Rightarrow> int \<Rightarrow> (nat \<Rightarrow> int) \<Rightarrow> cache \<Rightarrow> inodes \<Rightarrow> bool" where
  "icache_inv tr load mx R c p \<longleftrightarrow> icache_ok mx R c p \<and>
     (\<forall>n \<in> nodes c. \<exists>ip0. load (i_ino (in_obj p n)) = Some ip0 \<and> loaded tr ip0 (in_obj p n))"

text \<open>An object whose list has been read in.\<close>

lemma icache_inv_object:
  assumes i: "icache_inv tr load mx R c p" and l: "load (i_ino (in_obj p n)) = Some ip0" "loaded tr ip0 ip"
    "i_ino ip = i_ino (in_obj p n)"
  shows "icache_inv tr load mx R c (set_inode n ip p)"
  using icache_payload [of mx R c p ip n] i l by (auto simp: icache_inv_def)

lemma got_kept:
  assumes "got mx R ino c p miss n c' p'" and "icache_ok mx (R(n := R n + 1)) c' q" and "0 < R m"
  shows "in_obj p' m = in_obj p m" and "miss \<Longrightarrow> m \<noteq> n"
proof -
  have "m \<in> nodes c'" by (rule icache_node [OF assms(2)]) (use assms(1,3) in \<open>auto simp: got_def\<close>)
  then show "in_obj p' m = in_obj p m" using assms(1,3) by (cases "m = n") (auto simp: got_def split: if_splits)
  show "miss \<Longrightarrow> m \<noteq> n" using assms(1,3) by (auto simp: got_def)
qed

context buf_store
begin

lemma iget_ok:
  assumes g: "ino_geom mp" and ok: "icache_inv tr (inode_of junk mp dev) mx R (ic_cache s) (ic_inodes s)"
    and b: "inv (ic_bufs s)" and few: "int (card {n. R n \<noteq> 0}) < mx" and l: "inode_of junk mp dev ino = Some ip0"
  shows "\<exists>n s'. libxfs_iget ops find_chunk junk mp ino 0 s = Some (0, Some n, s') \<and> 0 \<le> R n \<and>
    icache_inv tr (inode_of junk mp dev) mx (R(n := R n + 1)) (ic_cache s') (ic_inodes s') \<and> inv (ic_bufs s') \<and>
    i_ino (in_obj (ic_inodes s') n) = ino \<and> loaded tr ip0 (in_obj (ic_inodes s') n) \<and>
    (\<forall>m. 0 < R m \<longrightarrow> in_obj (ic_inodes s') m = in_obj (ic_inodes s) m)"
proof -
  let ?c = "ic_cache s" and ?p = "ic_inodes s" and ?load = "inode_of junk mp dev"
  have ok1: "icache_ok mx R ?c ?p" and cont: "\<forall>n \<in> nodes ?c. \<exists>ip0. ?load (i_ino (in_obj ?p n)) = Some ip0 \<and> loaded tr ip0 (in_obj ?p n)"
    using ok by (auto simp: icache_inv_def)
  obtain miss n c' p' where G: "cache_node_get libxfs_icache_operations ?c ?p ino = Some (miss, n, c', p')"
    "got mx R ino ?c ?p miss n c' p'"
    using icache_get [OF ok1 few] by blast
  have rn: "0 \<le> R n" and old: "\<forall>m \<in> nodes c'. m \<noteq> n \<longrightarrow> m \<in> nodes ?c \<and> in_obj p' m = in_obj ?p m"
    using G(2) by (simp_all add: got_def)
  show ?thesis
  proof (cases miss)
    case False
    then have H: "p' = ?p" "n \<in> nodes ?c" "i_ino (in_obj ?p n) = ino" "icache_ok mx (R(n := R n + 1)) c' ?p"
      using G(2) by (auto simp: got_def)
    have "icache_inv tr ?load mx (R(n := R n + 1)) c' ?p" using H cont old by (auto simp: icache_inv_def)
    moreover have "loaded tr ip0 (in_obj ?p n)" using cont H(2,3) l by auto
    ultimately show ?thesis using G(1) False H rn b by (simp add: libxfs_iget_def)
  next
    case True
    obtain b' where I: "libxfs_iread ops find_chunk junk mp ino zero_inode 0 (ic_bufs s) = Some (0, ip0, b')" "inv b'"
      using iread_from_dev [OF g b _ iffD1 [OF inode_of_iread l]] by auto
    have ino: "i_ino ip0 = ino" using l by (rule inode_of_ino)
    have H: "in_obj p' n = zero_inode" "icache_ok mx (R(n := R n + 1)) c' (set_inode n ip0 p')"
      using G(2) True ino by (auto simp: got_def)
    have "\<exists>ip1. ?load (i_ino (in_obj (set_inode n ip0 p') m)) = Some ip1 \<and> loaded tr ip1 (in_obj (set_inode n ip0 p') m)"
      if "m \<in> nodes c'" for m
      using that old cont l ino by (cases "m = n") (auto simp: loaded_def)
    then have "icache_inv tr ?load mx (R(n := R n + 1)) c' (set_inode n ip0 p')" using H(2) by (simp add: icache_inv_def)
    moreover have "\<forall>m. 0 < R m \<longrightarrow> in_obj (set_inode n ip0 p') m = in_obj ?p m"
      using got_kept [OF G(2) H(2)] True by auto
    ultimately show ?thesis
      using G(1) True I H(1) ino rn by (simp add: libxfs_iget_def loaded_def)
  qed
qed

text \<open>
  When the inode cannot be read, its node stays in the cache with a reference nobody holds, and the next lookup
  of the number is a hit on it.
\<close>

lemma iget_error_stays:
  assumes g: "ino_geom mp" and ok: "icache_ok mx R (ic_cache s) (ic_inodes s)" and b: "inv (ic_bufs s)"
    and few: "int (card {n. R n \<noteq> 0}) + 1 < mx" and nc: "\<forall>m \<in> nodes (ic_cache s). i_ino (in_obj (ic_inodes s) m) \<noteq> ino"
    and r: "iread_dev junk mp dev ino zero_inode = Some (e, ip)" and e: "e \<noteq> 0"
  shows "\<exists>n s'. libxfs_iget ops find_chunk junk mp ino 0 s = Some (e, None, s') \<and> R n = 0 \<and>
    icache_ok mx (R(n := 1)) (ic_cache s') (ic_inodes s') \<and> inv (ic_bufs s') \<and>
    (\<exists>s''. libxfs_iget ops find_chunk junk mp ino 0 s' = Some (0, Some n, s'') \<and> in_obj (ic_inodes s'') n = ip)"
proof -
  let ?c = "ic_cache s" and ?p = "ic_inodes s"
  have few0: "int (card {n. R n \<noteq> 0}) < mx" using few by linarith
  obtain miss n c' p' where G: "cache_node_get libxfs_icache_operations ?c ?p ino = Some (miss, n, c', p')"
    "got mx R ino ?c ?p miss n c' p'"
    using icache_get [OF ok few0] by blast
  have miss using G(2) nc by (auto simp: got_def)
  obtain b' where I: "libxfs_iread ops find_chunk junk mp ino zero_inode 0 (ic_bufs s) = Some (e, ip, b')" "inv b'"
    using iread_from_dev [OF g b _ r] by auto
  have ino: "i_ino ip = ino" by (rule iread_dev_ino [OF r])
  have H: "in_obj p' n = zero_inode" "icache_ok mx (R(n := 1)) c' (set_inode n ip p')" "R n = 0" "n \<in> nodes c'"
    using G(2) \<open>miss\<close> ino by (auto simp: got_def)
  define s' where "s' = \<lparr>ic_cache = c', ic_inodes = set_inode n ip p', ic_bufs = b'\<rparr>"
  have "refs c' n = 1" using H(2) by (simp add: icache_ok_def)
  then have "cn_count (c_nodes c' n) \<noteq> 0" using H(4) by (simp add: refs_def)
  then have "cache_node_purge libxfs_icache_operations c' q ino n = (False, c', q)" for q
    by (simp add: cache_node_purge_def Let_def)
  then have first: "libxfs_iget ops find_chunk junk mp ino 0 s = Some (e, None, s')"
    using G(1) \<open>miss\<close> I(1) H(1) e by (simp add: libxfs_iget_def s'_def)
  have ok': "icache_ok mx (R(n := 1)) (ic_cache s') (ic_inodes s')" using H(2) by (simp add: s'_def)
  have "finite {m. R m \<noteq> 0}" by (rule finite_subset [OF _ finite_nodes [of ?c]]) (use icache_node [OF ok] in auto)
  moreover have "{m. (R(n := 1)) m \<noteq> 0} = insert n {m. R m \<noteq> 0}" by auto
  ultimately have few': "int (card {m. (R(n := 1)) m \<noteq> 0}) < mx" using few H(3) by simp
  obtain miss2 n2 c2 p2 where G2: "cache_node_get libxfs_icache_operations c' (set_inode n ip p') ino = Some (miss2, n2, c2, p2)"
    "got mx (R(n := 1)) ino c' (set_inode n ip p') miss2 n2 c2 p2"
    using icache_get [OF H(2) few'] by blast
  have hit: "\<not> miss2" using G2(2) H(4) ino by (auto simp: got_def)
  then have n2: "p2 = set_inode n ip p'" "n2 \<in> nodes c'" "i_ino (in_obj (set_inode n ip p') n2) = ino"
    using G2(2) by (auto simp: got_def)
  have "keys_ok keyed_operations c' (set_inode n ip p')" using H(2) by (simp add: icache_ok_def cache_inv_def)
  moreover have "libxfs_icompare (set_inode n ip p') n2 ino" "libxfs_icompare (set_inode n ip p') n ino"
    using n2(3) ino by (simp_all add: libxfs_icompare_def)
  ultimately have "n2 = n" using n2(2) H(4) unfolding keys_ok_def keyed_simps by blast
  then have "libxfs_iget ops find_chunk junk mp ino 0 s' = Some (0, Some n, s'\<lparr>ic_cache := c2, ic_inodes := p2\<rparr>)"
    using G2(1) hit by (simp add: libxfs_iget_def s'_def)
  then show ?thesis using first H(3) ok' I(2) n2(1) by (auto simp: s'_def)
qed

end

end
