(* ===== verification/Icache_Walk.thy ===== *)
theory Icache_Walk
  imports Icache
begin

text \<open>
  The path walk over the inode cache: the contract \<open>inode_store\<close> holds of the cache's operations on every tree
  of directories and files the device holds, and \<open>find_path\<close> then finds what the tree says. Also the
  correctness of finding and reading single inodes, and of looking names up, over the buffer cache.
\<close>

section \<open>A tree on the device\<close>

text \<open>
  \<open>T\<close> gives the inode numbers of the tree, each a directory with its content or something else. Every number is
  that of a readable inode, and the entries of a directory lead to numbers of the tree. The test for directories in
  \<open>find_path\<close> looks at one bit of the mode, which block devices and sockets have too: there are none in the tree.
\<close>

definition disk_tree ::
    "(nat \<Rightarrow> bytes) \<Rightarrow> xfs_mount \<Rightarrow> (int \<Rightarrow> int \<Rightarrow> bytes option) \<Rightarrow> (nat \<Rightarrow> dir_content option option) \<Rightarrow> bool" where
  "disk_tree junk mp dev T \<longleftrightarrow> (\<forall>ino x. T ino = Some x \<longrightarrow> (\<exists>ip. inode_of junk mp dev ino = Some ip \<and>
     (case x of None \<Rightarrow> di_mode (i_d ip) AND S_IFDIR = 0
      | Some c \<Rightarrow> di_mode (i_d ip) AND S_IFDIR \<noteq> 0 \<and> dir_at dev mp ip c \<and>
          (\<forall>nm t. dir_entry mp ip c nm = Some t \<longrightarrow> T t \<noteq> None))))"

definition tree_inode ::
    "(nat \<Rightarrow> bytes) \<Rightarrow> xfs_mount \<Rightarrow> (int \<Rightarrow> int \<Rightarrow> bytes option) \<Rightarrow> (nat \<Rightarrow> dir_content option option) \<Rightarrow>
      nat \<Rightarrow> xfs_inode option" where
  "tree_inode junk mp dev T ino = (if T ino = None then None else inode_of junk mp dev ino)"

definition tree_look ::
    "(nat \<Rightarrow> bytes) \<Rightarrow> xfs_mount \<Rightarrow> (int \<Rightarrow> int \<Rightarrow> bytes option) \<Rightarrow> (nat \<Rightarrow> dir_content option option) \<Rightarrow>
      nat \<Rightarrow> bytes \<Rightarrow> nat option" where
  "tree_look junk mp dev T ino nm = (if disk_tree junk mp dev T then (case (T ino, inode_of junk mp dev ino) of
       (Some (Some c), Some ip) \<Rightarrow> dir_entry mp ip c nm | _ \<Rightarrow> None) else None)"

lemma tree_node:
  assumes "disk_tree junk mp dev T" and "tree_inode junk mp dev T ino = Some ip" and "di_mode (i_d ip) AND S_IFDIR \<noteq> 0"
  obtains c where "T ino = Some (Some c)" "dir_at dev mp ip c" "inode_of junk mp dev ino = Some ip"
proof -
  obtain x where x: "T ino = Some x" "inode_of junk mp dev ino = Some ip"
    using assms(2) by (auto simp: tree_inode_def split: if_splits)
  then show ?thesis
    using assms(1,3) that by (cases x) (fastforce simp: disk_tree_def)+
qed

lemma loaded_dir:
  assumes "loaded tr ip0 ip" and "dir_at dev mp ip0 c"
  shows "ip = ip0"
  using assms by (auto simp: loaded_def dir_at_def block_index_ok_def leaf1_ok_def nodedir_ok_def leaf_dir_ok_def dir_ready_def
      split: dir_content.splits if_splits)

section \<open>The contract of the walk\<close>

definition icache_inode_ops ::
    "bool \<Rightarrow> ('b, 's) buf_ops \<Rightarrow> 's chunk_lookup \<Rightarrow> (nat \<Rightarrow> bytes) \<Rightarrow> 's inode_reader \<Rightarrow> 's inode_reader \<Rightarrow>
      xfs_mount \<Rightarrow> (nat, 's icache) inode_ops" where
  "icache_inode_ops alloc_ok ops find_chunk junk iread l2e mp =
     \<lparr> op_iget = (\<lambda>ino. libxfs_iget ops find_chunk junk mp ino 0), op_inode = (\<lambda>s. in_obj (ic_inodes s)),
       op_iput = libxfs_iput, op_lookup = inode_dir_lookup alloc_ok ops iread l2e mp \<rparr>"

definition walk_inv ::
    "(xfs_inode \<Rightarrow> xfs_inode \<Rightarrow> bool) \<Rightarrow> (nat \<Rightarrow> bytes) \<Rightarrow> xfs_mount \<Rightarrow> (int \<Rightarrow> int \<Rightarrow> bytes option) \<Rightarrow> (nat \<Rightarrow> dir_content option option) \<Rightarrow>
      ('s \<Rightarrow> bool) \<Rightarrow> int \<Rightarrow> (nat \<Rightarrow> int) \<Rightarrow> 's icache \<Rightarrow> bool" where
  "walk_inv tr junk mp dev T binv mx R s \<longleftrightarrow> ino_geom mp \<and> disk_tree junk mp dev T \<and> binv (ic_bufs s) \<and>
     icache_inv tr (inode_of junk mp dev) mx R (ic_cache s) (ic_inodes s)"

text \<open>There is room for one more object as long as not all the cache may hold are referenced.\<close>

definition has_room :: "int \<Rightarrow> (nat \<Rightarrow> int) \<Rightarrow> bool" where
  "has_room mx R \<longleftrightarrow> int (card {n. R n \<noteq> 0}) < mx"

lemma held_object:
  assumes "icache_inv tr load mx R c p" and "0 < R n"
  shows "\<exists>ip0. load (i_ino (in_obj p n)) = Some ip0 \<and> loaded tr ip0 (in_obj p n)"
  using assms icache_node [of mx R c p n] by (auto simp: icache_inv_def)

context buf_pool
begin

lemma icache_store:
  "inode_store (icache_inode_ops alloc_ok ops find_chunk junk iread l2e mp)
     (walk_inv tr junk mp dev T (held {#}) mx) (has_room mx) (tree_inode junk mp dev T) (tree_look junk mp dev T)"
proof (unfold_locales, goal_cases)
  case (1 R s ino)
  then have w: "ino_geom mp" "disk_tree junk mp dev T" "held {#} (ic_bufs s)"
    "icache_inv tr (inode_of junk mp dev) mx R (ic_cache s) (ic_inodes s)" "int (card {n. R n \<noteq> 0}) < mx"
    by (auto simp: walk_inv_def has_room_def)
  obtain ip0 where "inode_of junk mp dev ino = Some ip0" using 1(3) by (auto simp: tree_inode_def split: if_splits)
  from iget_ok [OF w(1,4,3,5) this, of find_chunk] show ?case
    using w(1,2) by (fastforce simp: icache_inode_ops_def walk_inv_def)
next
  case (2 R s n)
  then show ?case
    using icache_put [of mx R "ic_cache s" "ic_inodes s" n]
    by (auto simp: icache_inode_ops_def libxfs_iput_def walk_inv_def icache_inv_def)
next
  case (3 R s n i nm)
  let ?ip = "in_obj (ic_inodes s) n"
  have w: "disk_tree junk mp dev T" "held {#} (ic_bufs s)"
    "icache_inv tr (inode_of junk mp dev) mx R (ic_cache s) (ic_inodes s)"
    using 3(1) by (auto simp: walk_inv_def)
  have i: "tree_inode junk mp dev T (i_ino ?ip) = Some i" using 3(3) by (simp add: icache_inode_ops_def)
  obtain c where c: "T (i_ino ?ip) = Some (Some c)" "dir_at dev mp i c" "inode_of junk mp dev (i_ino ?ip) = Some i"
    by (rule tree_node [OF w(1) i 3(4)])
  have same: "i = ?ip" using held_object [OF w(3) 3(2)] c(2,3) loaded_dir by fastforce
  obtain k b' where l: "held {#} b'" "case dir_entry mp i c nm of
      None \<Rightarrow> xfs_dir_lookup alloc_ok ops iread l2e mp ?ip nm False (ic_bufs s) =
        Some (errno_code ENOENT, k, None, ?ip, b')
    | Some t \<Rightarrow> xfs_dir_lookup alloc_ok ops iread l2e mp ?ip nm False (ic_bufs s) =
        Some (0, t, None, ?ip, b')"
    using dir_lookup_ok [OF c(2) w(2), where nm = nm and alloc_ok = alloc_ok and iread = iread and l2e = l2e and ci' = False] same by auto
  have triv: "set_inode n ?ip (ic_inodes s) = ic_inodes s" by (simp add: set_inode_def)
  have look: "tree_look junk mp dev T (i_ino ?ip) nm = dir_entry mp i c nm" using w(1) c(1,3) by (simp add: tree_look_def)
  have "walk_inv tr junk mp dev T (held {#}) mx R (s\<lparr>ic_inodes := set_inode n ?ip (ic_inodes s), ic_bufs := b'\<rparr>)"
    unfolding triv using 3(1) l(1) by (simp add: walk_inv_def)
  then show ?case
    using l(2) look by (cases "dir_entry mp i c nm") (auto simp: icache_inode_ops_def inode_dir_lookup_def)
next
  case (4 R s n i)
  have "icache_inv tr (inode_of junk mp dev) mx R (ic_cache s) (ic_inodes s)" using 4(1) by (simp add: walk_inv_def)
  from held_object [OF this 4(2)] show ?case
    using 4(3) by (auto simp: icache_inode_ops_def loaded_def tree_inode_def split: if_splits)
next
  case (5 ino nm t)
  then have d: "disk_tree junk mp dev T" and "\<exists>c ip. T ino = Some (Some c) \<and> inode_of junk mp dev ino = Some ip \<and> dir_entry mp ip c nm = Some t"
    by (auto simp: tree_look_def split: if_splits option.splits)
  then have "T t \<noteq> None" by (fastforce simp: disk_tree_def)
  then show ?case using d by (fastforce simp: disk_tree_def tree_inode_def)
qed

end

interpretation iw: inode_store
  "icache_inode_ops alloc_ok (bcache_buf_ops os dev) find_chunk junk iread l2e mp"
  "walk_inv tr junk mp (dev_of os d dev) T (bcache_room os d BR bmx) mx" "has_room mx"
  "tree_inode junk mp (dev_of os d dev) T" "tree_look junk mp (dev_of os d dev) T"
  for alloc_ok os d dev tr find_chunk junk iread l2e mp T BR bmx mx
  by (rule bcp.icache_store)

end
