(* ===== verification/Path_Find.thy ===== *)
theory Path_Find
  imports Icache_Walk
begin

text \<open>
  From a path to an inode, over the two caches: where an inode is on the device, reading it, looking a name up
  in a directory, getting an inode object, and the whole walk of \<open>find_path\<close>. A sample device with a root directory
  and a file shows that the assumptions can hold.
\<close>

section \<open>The place of an inode\<close>

text \<open>
  C6: For every inode number and every consistent geometry, \<open>xfs_imap\<close> gives the place of the inode: number of the
  buffer and offset in it add up to the byte address of group, block and index of the inode, the inode lies inside the
  buffer, and the error tells whether the buffer ends inside the device. Numbers of no inode are refused with
  \<open>EINVAL\<close>. The B-tree of inodes is not consulted.
\<close>

theorem imap_correct:
  assumes "ino_geom mp"
  shows "\<exists>e imap. xfs_imap_at find_chunk mp ino imap0 True s = Some (e, imap, s) \<and>
    (if ino_valid mp ino
     then im_blkno imap * 512 + int (im_boffset imap) = ino_addr mp ino \<and>
       int (im_boffset imap) + int (sb_inodesize (m_sb mp)) \<le> im_len imap * 512 \<and> im_len imap * 512 \<le> 2 ^ 16 \<and>
       0 \<le> im_blkno imap \<and> 0 \<le> im_len imap \<and>
       e = (if im_blkno imap + im_len imap \<le> int (sb_dblocks (m_sb mp)) * 2 ^ m_blkbb_log mp
         then 0 else errno_code EINVAL)
     else e = errno_code EINVAL)"
  using imap_ok [OF assms, of find_chunk ino s] by (simp only: place_ok_def)

section \<open>Reading an inode\<close>

text \<open>
  C5: Reading an inode that has no attribute fork (\<open>di_forkoff\<close> is 0, part of \<open>inode_at\<close>) through the buffer cache
  gives the inode core and the body (inline data or extent records) that its place on the device holds, with the link
  count of version 1 inodes moved to its new field; the cache keeps its invariant and the buffer is given back.
\<close>

theorem iread_correct:
  assumes "ino_geom mp" and "inode_at (dev_of os d dev) mp ino di b" and "junk_ok junk" and "bcache_inv os d R mx s"
  shows "\<exists>ip s'. libxfs_iread (bcache_buf_ops os dev) find_chunk junk mp ino zero_inode 0 s = Some (0, ip, s') \<and>
    bcache_inv os d R mx s' \<and> i_ino ip = ino \<and> i_d ip = convert_v1 di \<and> fork_holds (i_df ip) b \<and> i_size ip = di_size di"
proof -
  obtain ip where ip: "iread_dev junk mp (dev_of os d dev) ino zero_inode = Some (0, ip)" "i_d ip = convert_v1 di"
    "fork_holds (i_df ip) b" "i_size ip = di_size di"
    using iread_dev_ok [OF assms(2,3), of zero_inode] by (auto simp: zero_fork_def)
  show ?thesis
    using bcs.iread_from_dev [OF assms(1,4) _ ip(1), of find_chunk] ip iread_dev_ino [OF ip(1)] by auto
qed

section \<open>Looking up a name\<close>

text \<open>
  C4: Looking up a name in a directory of any of the four kinds, short form, one block, leaf or node, with an index
  sorted by hash, finds the
  entry of exactly that name when there is one, and else returns \<open>ENOENT\<close>; the directory and the invariant of the
  buffer cache are kept.
\<close>

theorem dir_lookup_correct:
  assumes "dir_at (dev_of os d dev) mp dp c" and "bcache_room os d R mx s"
  shows "\<exists>k s'. bcache_room os d R mx s' \<and>
    xfs_dir_lookup alloc_ok (bcache_buf_ops os dev) iread l2e mp dp nm ci s =
    Some (case dir_entry mp dp c nm of
        None \<Rightarrow> (errno_code ENOENT, k, None, dp, s') | Some t \<Rightarrow> (0, t, None, dp, s'))"
  using bcp.dir_lookup_ok [OF assms, where nm = nm] by (fastforce split: option.split)

section \<open>Getting an inode object\<close>

text \<open>
  C3: \<open>libxfs_iget\<close> of an inode the device holds returns an object with it, whether it was cached or not, takes
  exactly one more reference on that object and leaves the inodes of all referenced objects alone; the invariants of
  both caches are kept. For an inode with a tree of extents the object is as it was read, or with a list that was read
  in since and about which the caller knows \<open>tr\<close>, whatever that is.
\<close>

theorem iget_correct:
  assumes "ino_geom mp" and "icache_inv tr (inode_of junk mp (dev_of os d dev)) mx R (ic_cache s) (ic_inodes s)"
    and "bcache_inv os d BR bmx (ic_bufs s)" and "int (card {n. R n \<noteq> 0}) < mx"
    and "inode_of junk mp (dev_of os d dev) ino = Some ip0"
  shows "\<exists>n s'. libxfs_iget (bcache_buf_ops os dev) find_chunk junk mp ino 0 s = Some (0, Some n, s') \<and> 0 \<le> R n \<and>
    icache_inv tr (inode_of junk mp (dev_of os d dev)) mx (R(n := R n + 1)) (ic_cache s') (ic_inodes s') \<and>
    bcache_inv os d BR bmx (ic_bufs s') \<and> i_ino (in_obj (ic_inodes s') n) = ino \<and>
    loaded tr ip0 (in_obj (ic_inodes s') n) \<and> (\<forall>m. 0 < R m \<longrightarrow> in_obj (ic_inodes s') m = in_obj (ic_inodes s) m)"
  by (rule bcs.iget_ok [OF assms(1,2,3,4,5)])

text \<open>
  C31: When an inode that is not cached cannot be read, \<open>libxfs_iget\<close> returns the error, but the node made for it stays
  in the cache with a reference that nobody holds, and the next \<open>libxfs_iget\<close> of the same number reports success
  with the inode as the failed read left it.
\<close>

theorem iget_error_stays_cached:
  assumes "ino_geom mp" and "icache_ok mx R (ic_cache s) (ic_inodes s)" and "bcache_inv os d BR bmx (ic_bufs s)"
    and "int (card {n. R n \<noteq> 0}) + 1 < mx" and "\<forall>m \<in> nodes (ic_cache s). i_ino (in_obj (ic_inodes s) m) \<noteq> ino"
    and "iread_dev junk mp (dev_of os d dev) ino zero_inode = Some (e, ip)" and "e \<noteq> 0"
  shows "\<exists>n s'. libxfs_iget (bcache_buf_ops os dev) find_chunk junk mp ino 0 s = Some (e, None, s') \<and> R n = 0 \<and>
    icache_ok mx (R(n := 1)) (ic_cache s') (ic_inodes s') \<and>
    (\<exists>s''. libxfs_iget (bcache_buf_ops os dev) find_chunk junk mp ino 0 s' = Some (0, Some n, s'') \<and>
      in_obj (ic_inodes s'') n = ip)"
  using bcs.iget_error_stays [OF assms(1,2,3,4,5,6,7)] by blast

section \<open>Walking a path\<close>

text \<open>
  C2: On every tree the device holds, \<open>find_path\<close> returns for every path, empty components and missing ones
  included. It returns the object of the inode the components lead to from the root, with one reference more;
  \<open>-ENOTDIR\<close>, with no reference more, when a component is looked up in something that is no directory; and an error
  when a component is missing, leaving one reference on the directory that lacks it. Objects that are held keep
  their inodes.
\<close>

theorem find_path_correct:
  assumes "walk_inv tr junk mp (dev_of os d dev) T (bcache_room os d BR bmx) mx R s" and "has_room mx R"
    and "T (sb_rootino (m_sb mp)) \<noteq> None"
  shows "\<exists>error res s'. find_path
      (icache_inode_ops alloc_ok (bcache_buf_ops os dev) find_chunk junk iread l2e mp) mp path s =
        Some (error, res, s') \<and>
    (\<forall>m. 0 < R m \<longrightarrow> i_ino (in_obj (ic_inodes s') m) = i_ino (in_obj (ic_inodes s) m)) \<and>
    (case resolve (tree_inode junk mp (dev_of os d dev) T) (tree_look junk mp (dev_of os d dev) T)
        (sb_rootino (m_sb mp)) (components path) of
      Found ino \<Rightarrow> error = 0 \<and> (\<exists>n. res = Some n \<and> 0 \<le> R n \<and>
        walk_inv tr junk mp (dev_of os d dev) T (bcache_room os d BR bmx) mx (R(n := R n + 1)) s' \<and>
        i_ino (in_obj (ic_inodes s') n) = ino)
    | NotDir \<Rightarrow> error = XFS_ERROR ENOTDIR \<and> res = None \<and> walk_inv tr junk mp (dev_of os d dev) T (bcache_room os d BR bmx) mx R s'
    | NoEntry ino \<Rightarrow> error \<noteq> 0 \<and> res = None \<and> (\<exists>n. 0 \<le> R n \<and>
        walk_inv tr junk mp (dev_of os d dev) T (bcache_room os d BR bmx) mx (R(n := R n + 1)) s' \<and>
        i_ino (in_obj (ic_inodes s') n) = ino))"
proof -
  have root: "tree_inode junk mp (dev_of os d dev) T (sb_rootino (m_sb mp)) \<noteq> None"
    using assms(1,3) by (fastforce simp: walk_inv_def disk_tree_def tree_inode_def)
  obtain r where "find_path
      (icache_inode_ops alloc_ok (bcache_buf_ops os dev) find_chunk junk iread l2e mp) mp path s = Some r"
    and w: "iw.walk_result alloc_ok os dev find_chunk junk iread l2e mp tr d T BR bmx mx R s
      (resolve (tree_inode junk mp (dev_of os d dev) T) (tree_look junk mp (dev_of os d dev) T)
        (sb_rootino (m_sb mp)) (components path)) r"
    using iw.find_path_ok [OF assms(1,2) root] by blast
  have "op_inode (icache_inode_ops alloc_ok (bcache_buf_ops os dev) find_chunk junk iread l2e mp) =
      (\<lambda>s. in_obj (ic_inodes s))" by (simp add: icache_inode_ops_def)
  note w [unfolded iw.walk_result_def iw.keeps_def this]
  then show ?thesis
    using \<open>find_path _ _ _ _ = _\<close> by (cases r) (auto split: walk.splits)
qed

section \<open>A sample device\<close>

text \<open>Inode 128 is the root directory with one entry, \<open>c\<close>, for inode 132, an empty file of the same block.\<close>

definition inode_mp :: xfs_mount where
  "inode_mp = sample_mp\<lparr>m_inoalign_mask := 3\<rparr>"

definition tree_sd :: sf_dir where
  "tree_sd = \<lparr> sd_i8 = 0, sd_parent = 128, sd_entries = [\<lparr> se_name = [99], se_offset = 48, se_ftype = 1, se_ino = 132 \<rparr>] \<rparr>"

definition root_core :: xfs_icdinode where
  "root_core = i_d (sample_inode 0x41ED FMT_LOCAL (sf_encode False tree_sd))"

definition file_core :: xfs_icdinode where
  "file_core = i_d (sample_inode 0x81A4 FMT_EXTENTS [])"

definition inode_block :: bytes where
  "inode_block = disk_inode root_core (replicate 4 0) (sf_encode False tree_sd @ replicate 910 0 @
     disk_inode file_core (replicate 4 0) (replicate 7068 0))"

definition inode_os :: "unit dev_ops" where
  "inode_os = sample_os \<lparr> pread64 := (\<lambda>fd off n d. Inr (take (nat n) (inode_block @ replicate (nat n) 0))) \<rparr>"

definition junk7 :: "nat \<Rightarrow> bytes" where "junk7 n = replicate n 7"

lemma inode_mp_simps [simp]:
  "m_sb inode_mp = sample_sb" "m_blkbb_log inode_mp = 3" "m_agino_log inode_mp = 14" "m_inoalign_mask inode_mp = 3"
  "m_inode_cluster_size inode_mp = 8192"
  by (simp_all add: inode_mp_def) (simp_all add: sample_mp_def sample_mount_def xfs_dir_mount_def Let_def xfs_mount_common_def)?

lemma inode_mp_geom: "ino_geom inode_mp"
proof -
  have "geom_ok inode_mp" using sample_geom by (simp add: geom_ok_def inode_mp_def)
  then show ?thesis by (simp add: ino_geom_def Let_def sample_sb_def)
qed

lemma inode_cores:
  "disk_inode_ok inode_mp root_core (replicate 4 0)" "disk_inode_ok inode_mp file_core (replicate 4 0)"
  "body_ok inode_mp root_core (Inline (sf_encode False tree_sd))" "body_ok inode_mp file_core (Extents [])"
  "di_magic root_core = XFS_DINODE_MAGIC" "di_magic file_core = XFS_DINODE_MAGIC"
  "di_version root_core = 2" "di_version file_core = 2" "di_mode root_core = 0x41ED" "di_mode file_core = 0x81A4"
  "di_format root_core = FMT_LOCAL" "length (sf_encode False tree_sd) = 14"
  "length (disk_inode root_core (replicate 4 0) []) = 100" "length (disk_inode file_core (replicate 4 0) []) = 100"
  by (simp_all add: disk_inode_ok_def icdinode_ok_def root_core_def file_core_def sample_inode_def Let_def time_ok_def
      s_fits_def fmt_ok_def xfs_dinode_size_def S_IFDIR_def S_IFREG_def S_IFMT_def flags_ok_def sf_encode_def tree_sd_def
      sf_enc_entries_def sf_enc_entry_def sf_enc_ino_def XFS_DINODE_MAGIC_def disk_inode_def xfs_dinode_to_disk_def)

lemma inode_block_parts:
  "length inode_block = 8192"
  "drop 1024 inode_block = disk_inode file_core (replicate 4 0) (replicate 7068 0)"
  "di_ok inode_block = Some True"
proof -
  let ?r = "disk_inode root_core (replicate 4 0) [] @ sf_encode False tree_sd @ replicate 910 0"
  have b: "inode_block = ?r @ disk_inode file_core (replicate 4 0) [] @ replicate 7068 0"
    "inode_block = ?r @ disk_inode file_core (replicate 4 0) (replicate 7068 0)"
    by (simp_all add: inode_block_def disk_inode_def)
  have r: "length ?r = 1024" using inode_cores(12,13) by simp
  show "length inode_block = 8192" unfolding b(1) using r inode_cores(14) by simp
  show "drop 1024 inode_block = disk_inode file_core (replicate 4 0) (replicate 7068 0)" unfolding b(2) using r by simp
  have "rd_be16 0 inode_block = Some XFS_DINODE_MAGIC"
    by (rule rd_be_at [where pre = "[]"])
      (simp_all add: inode_block_def disk_inode_def xfs_dinode_to_disk_def inode_cores(5), simp add: XFS_DINODE_MAGIC_def)
  moreover have "rd_be 1 4 inode_block = Some 2"
    by (rule rd_be_at [where pre = "be_bytes 2 XFS_DINODE_MAGIC @ be_bytes 2 0x41ED"])
      (simp_all add: inode_block_def disk_inode_def xfs_dinode_to_disk_def inode_cores(5,7,9))
  ultimately show "di_ok inode_block = Some True" by (simp add: di_ok_def XFS_DINODE_GOOD_VERSION_def)
qed

lemma inode_daddr: "XFS_AGB_TO_DADDR inode_mp 0 8 = 64" "to_u64 80 = 80" "to_u64 8000 = 8000"
  by (simp_all add: XFS_AGB_TO_DADDR_def XFS_FSB_TO_BB_def BBSHIFT_def to_u64_def)

lemma inode_places:
  "\<exists>imap. place inode_mp 128 = (0, imap) \<and> im_boffset imap = 0 \<and> im_len imap = 16"
  "\<exists>imap. place inode_mp 132 = (0, imap) \<and> im_boffset imap = 1024 \<and> im_len imap = 16"
  by (simp_all add: place_def xfs_imap_at_def imap0_def xfs_dilocate_def Let_def XFS_INO_TO_AGNO_def XFS_INO_TO_AGINO_def
      XFS_AGINO_TO_AGBNO_def XFS_INO_TO_OFFSET_def XFS_AGINO_TO_INO_def XFS_INO_MASK_def dilocate_cluster_def int_div_def
      NULLFSBLOCK_def sample_sb_def XFS_AGB_TO_FSB_def XFS_FSB_TO_DADDR_def XFS_FSB_TO_AGNO_def XFS_FSB_TO_AGBNO_def
      XFS_FSB_TO_BB_def inode_daddr)

lemma inode_os_ok: "os_ok inode_os d"
  by (auto simp: os_ok_def inode_os_def sample_os_def)

lemma inode_dev: "dev_of inode_os () 0 blk (to_s32 16) = Some inode_block"
  by (simp add: dev_of_def inode_os_def BBTOB_def inode_block_parts(1) BBSHIFT_def)

lemma sample_inodes_at:
  "inode_at (dev_of inode_os () 0) inode_mp 128 root_core (Inline (sf_encode False tree_sd))"
  "inode_at (dev_of inode_os () 0) inode_mp 132 file_core (Extents [])"
proof -
  obtain i1 i2 where p: "place inode_mp 128 = (0, i1)" "im_boffset i1 = 0" "im_len i1 = 16"
    "place inode_mp 132 = (0, i2)" "im_boffset i2 = 1024" "im_len i2 = 16" using inode_places by blast
  have fit: "int (length (sf_encode False tree_sd)) \<le> XFS_LITINO inode_mp 2"
    by (simp add: XFS_LITINO_def xfs_dinode_size_def inode_cores(12))
  show "inode_at (dev_of inode_os () 0) inode_mp 128 root_core (Inline (sf_encode False tree_sd))"
    unfolding inode_at_def using p inode_dev inode_block_parts(3) inode_cores fit
    by (intro exI [of _ i1] exI [of _ inode_block] exI [of _ "replicate 4 0"] exI) (auto simp: inode_block_def)
  show "inode_at (dev_of inode_os () 0) inode_mp 132 file_core (Extents [])"
    unfolding inode_at_def using p inode_dev inode_block_parts(2,3) inode_cores fit
    by (intro exI [of _ i2] exI [of _ inode_block] exI [of _ "replicate 4 0"] exI [of _ "replicate 7068 0"]) auto
qed

lemma junk7_ok: "junk_ok junk7"
  by (simp add: junk_ok_def junk7_def)

text \<open>A short-form directory on the device is one in core.\<close>

lemma sf_dir_of_disk:
  assumes at: "inode_at dev mp ino di (Inline (sf_encode (sf_v5 mp) sd))" and j: "junk_ok junk"
    and sd: "sf_dir_ok sd" and ci: "\<not> xfs_sb_version_hasasciici (m_sb mp)"
  obtains ip where "inode_of junk mp dev ino = Some ip" "i_d ip = convert_v1 di" "dir_at dev mp ip (SfDir sd)"
proof -
  let ?b = "sf_encode (sf_v5 mp) sd"
  obtain ip where ip: "iread_dev junk mp dev ino zero_inode = Some (0, ip)" "i_d ip = convert_v1 di"
    "fork_holds (i_df ip) (Inline ?b)"
    using iread_dev_ok [OF at j, of zero_inode] by (auto simp: zero_fork_def)
  have "body_ok mp di (Inline ?b)" using at by (auto simp: inode_at_def)
  then have f: "di_format (convert_v1 di) = FMT_LOCAL" "di_size (convert_v1 di) = int (length ?b)"
    by (simp_all add: convert_v1_def)
  have "if_data (i_df ip) = ?b @ drop (length ?b) (if_data (i_df ip))"
    using ip(3) append_take_drop_id [of "length ?b" "if_data (i_df ip)"] by simp
  then have "sf_holds mp ip sd" using ip(2,3) f sd by (auto simp: sf_holds_def)
  then have "dir_at dev mp ip (SfDir sd)" using ip(2) f ci by (simp add: dir_at_def)
  then show ?thesis using that ip(1,2) by (simp add: inode_of_iread)
qed

definition sample_tree :: "nat \<Rightarrow> dir_content option option" where
  "sample_tree = [128 \<mapsto> Some (SfDir tree_sd), 132 \<mapsto> None]"

lemma sample_versions: "\<not> sf_v5 inode_mp" "\<not> xfs_sb_version_hasasciici (m_sb inode_mp)" "convert_v1 root_core = root_core"
    "convert_v1 file_core = file_core"
  by (simp_all add: sf_v5_def XFS_SB_VERSION_NUM_def xfs_sb_version_hasasciici_def convert_v1_def inode_cores)

lemma sample_root_inode:
  obtains ip where "inode_of junk7 inode_mp (dev_of inode_os () 0) 128 = Some ip" "i_d ip = root_core"
    "dir_at (dev_of inode_os () 0) inode_mp ip (SfDir tree_sd)"
proof -
  have "sf_dir_ok tree_sd" by (simp add: sf_dir_ok_def tree_sd_def sf_entry_ok_def ino_fits_def)
  moreover have "inode_at (dev_of inode_os () 0) inode_mp 128 root_core (Inline (sf_encode (sf_v5 inode_mp) tree_sd))"
    using sample_inodes_at(1) sample_versions(1) by simp
  ultimately show ?thesis
    using sf_dir_of_disk [OF _ junk7_ok _ sample_versions(2)] that sample_versions(3) by metis
qed

lemma sample_file_inode:
  obtains ip where "inode_of junk7 inode_mp (dev_of inode_os () 0) 132 = Some ip" "i_d ip = file_core"
proof -
  obtain ip where "iread_dev junk7 inode_mp (dev_of inode_os () 0) 132 zero_inode = Some (0, ip)" "i_d ip = file_core"
    using iread_dev_ok [OF sample_inodes_at(2) junk7_ok, of zero_inode] sample_versions(4) by (auto simp: zero_fork_def)
  then show ?thesis using that by (simp add: inode_of_iread)
qed

lemma mode_bits: "(0x41ED :: nat) AND S_IFDIR \<noteq> 0" "(0x81A4 :: nat) AND S_IFDIR = 0"
  by (simp_all add: S_IFDIR_def)

lemma sample_disk_tree: "disk_tree junk7 inode_mp (dev_of inode_os () 0) sample_tree"
proof -
  obtain r where r: "inode_of junk7 inode_mp (dev_of inode_os () 0) 128 = Some r" "i_d r = root_core"
    "dir_at (dev_of inode_os () 0) inode_mp r (SfDir tree_sd)" by (rule sample_root_inode)
  obtain f where f: "inode_of junk7 inode_mp (dev_of inode_os () 0) 132 = Some f" "i_d f = file_core"
    by (rule sample_file_inode)
  have "sample_tree t \<noteq> None" if "dir_entry inode_mp r (SfDir tree_sd) nm = Some t" for nm t
    using that inode_of_ino [OF r(1)] by (auto simp: dir_entry_def tree_sd_def sample_tree_def split: if_splits)
  then show ?thesis
    using r f mode_bits inode_cores(9,10) by (auto simp: disk_tree_def sample_tree_def split: if_splits)
qed

definition icache_init :: "nat \<Rightarrow> 's \<Rightarrow> 's icache" where
  "icache_init hashsize b = \<lparr> ic_cache = cache_init hashsize,
     ic_inodes = \<lparr> in_obj = (\<lambda>n. zero_inode), in_next = 0 \<rparr>, ic_bufs = b \<rparr>"

lemma icache_init_inv:
  assumes "0 < hs" and "int hs * 8 < 2 ^ 31"
  shows "icache_inv tr load (int hs * 8) (\<lambda>n. 0) (ic_cache (icache_init hs b)) (ic_inodes (icache_init hs b))"
proof -
  have z: "cache_wf (cache_init hs)" "nodes (cache_init hs) = {}" using cache_init_wf [OF assms(1)] by auto
  then have "keys_ok keyed_operations (cache_init hs) p" for p by (simp add: keys_ok_def)
  then show ?thesis
    using z assms by (simp add: icache_inv_def icache_ok_def icache_init_def cache_inv_def inodes_ok_def refs_def fun_eq_iff)
      (simp add: cache_init_def HASH_CACHE_RATIO_def)
qed

definition sample_fs :: "unit bcache icache" where
  "sample_fs = icache_init 1024 (bcache_init 1024 ())"

lemma sample_fs_inv:
  "icache_inv tr load (1024 * 8) (\<lambda>n. 0) (ic_cache sample_fs) (ic_inodes sample_fs)"
  "bcache_inv inode_os () (\<lambda>n. 0) (1024 * 8) (ic_bufs sample_fs)"
  "walk_inv tr junk7 inode_mp (dev_of inode_os () 0) sample_tree (bcache_room inode_os () (\<lambda>n. 0) (1024 * 8)) (1024 * 8) (\<lambda>n. 0) sample_fs"
proof -
  show a: "icache_inv tr load (1024 * 8) (\<lambda>n. 0) (ic_cache sample_fs) (ic_inodes sample_fs)" for load
    using icache_init_inv [of 1024] by (simp add: sample_fs_def)
  show b: "bcache_inv inode_os () (\<lambda>n. 0) (1024 * 8) (ic_bufs sample_fs)"
    using sample_bcache [OF inode_os_ok] by (simp add: sample_fs_def icache_init_def)
  show "walk_inv tr junk7 inode_mp (dev_of inode_os () 0) sample_tree (bcache_room inode_os () (\<lambda>n. 0) (1024 * 8)) (1024 * 8) (\<lambda>n. 0) sample_fs"
    using a sample_room [OF inode_os_ok] sample_disk_tree inode_mp_geom by (simp add: walk_inv_def sample_fs_def icache_init_def)
qed

section \<open>The properties at the sample\<close>

definition no_chunks :: "'s chunk_lookup" where "no_chunks agno agino s = None"
definition no_iread :: "'s inode_reader" where "no_iread ip s = Some (5, ip, s)"

theorem imap_correct_witness:
  "\<exists>imap. xfs_imap_at no_chunks inode_mp 150 imap0 True () = Some (0, imap, ()) \<and>
    im_blkno imap * 512 + int (im_boffset imap) = 38400"
proof -
  have v: "ino_valid inode_mp 150" by (simp add: ino_valid_def ino_agno_def ino_agbno_def sample_sb_def)
  have a: "ino_addr inode_mp 150 = 38400"
    by (simp add: ino_addr_def ino_agno_def ino_agbno_def ino_index_def sample_sb_def)
  show ?thesis
    using imap_correct [OF inode_mp_geom, of no_chunks 150 "()"] v by (auto simp: a)
qed

theorem iread_correct_witness:
  "\<exists>ip s'. libxfs_iread (bcache_buf_ops inode_os 0) no_chunks junk7 inode_mp 128 zero_inode 0 (bcache_init 1024 ()) =
    Some (0, ip, s') \<and> i_d ip = root_core"
  using iread_correct [OF inode_mp_geom sample_inodes_at(1) junk7_ok sample_bcache [OF inode_os_ok], of no_chunks]
    sample_versions(3) by auto

theorem iget_correct_witness:
  "\<exists>n s'. libxfs_iget (bcache_buf_ops inode_os 0) no_chunks junk7 inode_mp 128 0 sample_fs = Some (0, Some n, s') \<and>
    i_ino (in_obj (ic_inodes s') n) = 128"
proof -
  obtain r where r: "inode_of junk7 inode_mp (dev_of inode_os () 0) 128 = Some r" by (rule sample_root_inode)
  show ?thesis
    using iget_correct [OF inode_mp_geom sample_fs_inv(1) [where tr = "\<lambda>_ _. True"] sample_fs_inv(2) _ r, of no_chunks] by auto
qed

theorem iget_error_stays_cached_witness:
  "\<exists>n s' s''. libxfs_iget (bcache_buf_ops inode_os 0) no_chunks junk7 inode_mp 20000 0 sample_fs = Some (22, None, s') \<and>
    libxfs_iget (bcache_buf_ops inode_os 0) no_chunks junk7 inode_mp 20000 0 s' = Some (0, Some n, s'') \<and>
    in_obj (ic_inodes s'') n = zero_inode\<lparr>i_ino := 20000\<rparr>"
proof -
  have "\<not> ino_valid inode_mp 20000" by (simp add: ino_valid_def ino_agno_def sample_sb_def)
  then have p: "fst (place inode_mp 20000) = 22"
    using imap_ok [OF inode_mp_geom, of no_chunks 20000 "()"] imap_at_any [OF inode_mp_geom, of no_chunks 20000 "()"]
    by (auto simp: place_ok_def)
  then obtain i where "place inode_mp 20000 = (22, i)" by (metis prod.collapse)
  then have r: "iread_dev junk7 inode_mp (dev_of inode_os () 0) 20000 zero_inode = Some (22, zero_inode\<lparr>i_ino := 20000\<rparr>)"
    by (simp add: iread_dev_def)
  have ok: "icache_ok (1024 * 8) (\<lambda>n. 0) (ic_cache sample_fs) (ic_inodes sample_fs)"
    using sample_fs_inv(1) by (simp add: icache_inv_def)
  have "nodes (ic_cache sample_fs) = {}" using cache_init_wf [of 1024] by (simp add: sample_fs_def icache_init_def)
  then show ?thesis
    using iget_error_stays_cached [OF inode_mp_geom ok sample_fs_inv(2) _ _ r, of no_chunks] by auto
qed

theorem find_path_correct_witness:
  "\<exists>n s'. find_path (icache_inode_ops True (bcache_buf_ops inode_os 0) no_chunks junk7 no_iread no_iread
      inode_mp) inode_mp [47, 99] sample_fs = Some (0, Some n, s') \<and> i_ino (in_obj (ic_inodes s') n) = 132"
proof -
  obtain r where r: "inode_of junk7 inode_mp (dev_of inode_os () 0) 128 = Some r" "i_d r = root_core" by (rule sample_root_inode)
  have c: "components [47, 99] = [[99]]" by (simp add: components.simps PATH_SEP_def)
  have ti: "tree_inode junk7 inode_mp (dev_of inode_os () 0) sample_tree 128 = Some r"
    using r(1) by (simp add: tree_inode_def sample_tree_def)
  have tl: "tree_look junk7 inode_mp (dev_of inode_os () 0) sample_tree 128 [99] = Some 132"
    using r(1) by (simp add: tree_look_def sample_disk_tree) (simp add: sample_tree_def dir_entry_def tree_sd_def)
  have w: "resolve (tree_inode junk7 inode_mp (dev_of inode_os () 0) sample_tree)
      (tree_look junk7 inode_mp (dev_of inode_os () 0) sample_tree) 128 [[99]] = Found 132"
    using r mode_bits(1) inode_cores(9) ti tl by simp
  have "has_room (1024 * 8) (\<lambda>n. 0)" "sample_tree (sb_rootino (m_sb inode_mp)) \<noteq> None"
    by (simp_all add: has_room_def sample_tree_def)
  from find_path_correct [OF sample_fs_inv(3) [where tr = "\<lambda>_ _. True"] this, where path = "[47, 99]" and alloc_ok = True and find_chunk = no_chunks
      and iread = no_iread and l2e = no_iread]
  show ?thesis using w by (auto simp: c)
qed

section \<open>A sample directory block with an index\<close>

text \<open>A block with the entry \<open>a\<close> of inode 129, an unused stretch, one leaf entry for it and the tail.\<close>

definition indexed_block :: bytes where
  "indexed_block = (be_bytes 4 0x58443242 @ replicate 12 0) @ (be_bytes 8 129 @ be_bytes 1 1 @ [97] @ replicate 6 0) @
     (be_bytes 2 0xffff @ be_bytes 2 4048 @ replicate 4044 0) @ (be_bytes 4 97 @ be_bytes 4 2) @ be_bytes 4 1 @ be_bytes 4 0"

definition indexed_os :: "unit dev_ops" where
  "indexed_os = sample_os \<lparr> pread64 := (\<lambda>fd off n d. Inr (take (nat n) (indexed_block @ replicate (nat n) 0))) \<rparr>"

lemma indexed_block_reads:
  "length indexed_block = 4096" "rd_be 4 0 indexed_block = Some 0x58443242" "rd_be 4 4088 indexed_block = Some 1"
  "rd_be 4 4080 indexed_block = Some 97" "rd_be 4 4084 indexed_block = Some 2"
  "rd_be 2 16 indexed_block = Some 0" "rd_be 8 16 indexed_block = Some 129" "rd_be 1 24 indexed_block = Some 1"
  "rd_bytes 25 1 indexed_block = Some [97]" "rd_be 2 32 indexed_block = Some 0xffff"
  "rd_be 2 34 indexed_block = Some 4048" "\<exists>m. rd_be 2 8 indexed_block = Some m"
proof -
  let ?h = "be_bytes 4 0x58443242 @ replicate 12 (0 :: u8)" and ?e = "be_bytes 8 129 @ be_bytes 1 1 @ [97] @ replicate 6 (0 :: u8)"
  let ?f = "be_bytes 2 0xffff @ be_bytes 2 4048 @ replicate 4044 (0 :: u8)"
  have "length [0, 0, 0, 0, 0, 0, 0, 129 :: u8] = 8" "be_val [0, 0, 0, 0, 0, 0, 0, 129] = 129"
    by (simp_all add: be_val_def)
  then have e8: "be_bytes 8 129 = [0, 0, 0, 0, 0, 0, 0, 129]" by (metis be_bytes_be_val)
  show len: "length indexed_block = 4096" by (simp add: indexed_block_def)
  show "\<exists>m. rd_be 2 8 indexed_block = Some m" using len by (simp add: rd_be_def rd_bytes_def)
  show "rd_be 4 0 indexed_block = Some 0x58443242" by (rule rd_be_at [where pre = "[]"]) (simp_all add: indexed_block_def)
  show "rd_be 4 4088 indexed_block = Some 1"
    by (rule rd_be_at [where pre = "?h @ ?e @ ?f @ be_bytes 4 97 @ be_bytes 4 2"]) (simp_all add: indexed_block_def)
  show "rd_be 4 4080 indexed_block = Some 97"
    by (rule rd_be_at [where pre = "?h @ ?e @ ?f"]) (simp_all add: indexed_block_def)
  show "rd_be 4 4084 indexed_block = Some 2"
    by (rule rd_be_at [where pre = "?h @ ?e @ ?f @ be_bytes 4 97"]) (simp_all add: indexed_block_def)
  show "rd_be 2 16 indexed_block = Some 0"
  proof -
    have "rd_bytes 16 2 indexed_block = Some [0, 0]"
      by (rule rd_bytes_at [where pre = ?h]) (simp_all add: indexed_block_def e8)
    then show ?thesis by (simp add: rd_be_def be_val_def)
  qed
  show "rd_be 8 16 indexed_block = Some 129" by (rule rd_be_at [where pre = ?h]) (simp_all add: indexed_block_def)
  show "rd_be 1 24 indexed_block = Some 1"
    by (rule rd_be_at [where pre = "?h @ be_bytes 8 129"]) (simp_all add: indexed_block_def)
  show "rd_bytes 25 1 indexed_block = Some [97]"
    by (rule rd_bytes_at [where pre = "?h @ be_bytes 8 129 @ be_bytes 1 1"]) (simp_all add: indexed_block_def)
  show "rd_be 2 32 indexed_block = Some 0xffff"
    by (rule rd_be_at [where pre = "?h @ ?e"]) (simp_all add: indexed_block_def)
  show "rd_be 2 34 indexed_block = Some 4048"
    by (rule rd_be_at [where pre = "?h @ ?e @ be_bytes 2 0xffff"]) (simp_all add: indexed_block_def)
qed

lemma indexed_leaf: "tail_count sample_mp indexed_block = Some 1" "xfs_dir2_block_leaf_p sample_mp indexed_block = Some 4080"
  using indexed_block_reads(3) by (simp_all add: xfs_dir2_block_leaf_p_def tail_count_def xfs_dir2_block_tail_p_def)

lemma indexed_block_holds: "block_holds sample_mp indexed_block [DEntry [97] 129, DFree 4048]"
proof -
  have sz: "item_size (DEntry [97] 129) = 16" by (simp add: xfs_dir2_data_entsize_def)
  have "items_at indexed_block 16 [DEntry [97] 129, DFree 4048] 4080"
    using indexed_block_reads unfolding items_at.simps sz
    by (simp add: item_at_def data_freetag_def data_inumber_def data_namelen_def data_name_def data_unused_length_def)
  then show ?thesis
    unfolding block_holds_def using indexed_leaf(2)
    by (intro conjI exI [of _ 4080]) (simp_all del: items_at.simps)
qed

lemma indexed_index: "leaf_index sample_mp indexed_block [DEntry [97] 129, DFree 4048] [(97, 2)]"
proof -
  have "hashname sample_mp [97] = 97"
    by (simp add: hashname_def xfs_sb_version_hasasciici_def XFS_SB_VERSION_NUM_def xfs_da_hashname_def rol32_def)
  moreover have "leaf_hashval indexed_block 4080 0 = Some 97" "leaf_address indexed_block 4080 0 = Some 2"
    using indexed_block_reads by (simp_all add: leaf_hashval_def leaf_address_def)
  ultimately show ?thesis using indexed_leaf by (simp add: leaf_index_def)
qed

lemma indexed_dir: "dir_at (dev_of indexed_os () 0) sample_mp sample_dir (BlockDir [DEntry [97] 129, DFree 4048])"
proof -
  have bb: "BBTOB (XFS_FSB_TO_BB sample_mp 1) = 4096" by (simp add: XFS_FSB_TO_BB_def BBTOB_def BBSHIFT_def)
  have "dev_of indexed_os () 0 blk (XFS_FSB_TO_BB sample_mp 1) = Some indexed_block" for blk
    using indexed_block_reads(1) by (simp add: dev_of_def indexed_os_def bb)
  moreover have "da_magic_ok indexed_block = Some True"
    using indexed_block_reads by (auto simp: da_magic_ok_def da_magics32_def)
  moreover have ci: "\<not> xfs_sb_version_hasasciici (m_sb sample_mp)"
    by (simp add: xfs_sb_version_hasasciici_def XFS_SB_VERSION_NUM_def)
  ultimately have "block_index_ok (dev_of indexed_os () 0) sample_mp sample_dir [DEntry [97] 129, DFree 4048]"
    using sample_dir_ready indexed_block_holds indexed_index by (auto simp: block_index_ok_def sample_geom)
  moreover have "fork_exts sample_dir = [\<lparr> bm_off = 0, bm_blk = 100, bm_cnt = 1, bm_state = XFS_EXT_NORM \<rparr>]"
    by (simp add: fork_exts_def sample_dir_def Let_def bmap_of_sample)
  ultimately show ?thesis using ci by (simp add: dir_at_def XFS_FSB_TO_B_def)
qed

theorem dir_lookup_correct_witness:
  "\<exists>s'. xfs_dir_lookup True (bcache_buf_ops indexed_os 0) no_iread no_iread sample_mp sample_dir [97]
      False (bcache_init 1024 ()) = Some (0, 129, None, sample_dir, s')"
proof -
  have o: "os_ok indexed_os ()" by (auto simp: os_ok_def indexed_os_def sample_os_def)
  have "dir_entry sample_mp sample_dir (BlockDir [DEntry [97] 129, DFree 4048]) [97] = Some 129"
    by (simp add: dir_entry_def block_look_def)
  then show ?thesis
    using dir_lookup_correct [OF indexed_dir sample_room [OF o], where nm = "[97]" and alloc_ok = True
        and iread = no_iread and l2e = no_iread and ci = False]
    by auto
qed

end
