(* ===== verification/Dir_Client.thy ===== *)
theory Dir_Client
  imports Bcache_Read
begin

text \<open>
  Callbacks of directory reading that use the caches themselves: the contract \<open>dir_client\<close>, and buffers held while
  a callback runs.
\<close>

section \<open>Callbacks that implement a simpler one\<close>

text \<open>A callback whose state \<open>w\<close> stands for the state \<open>view w\<close> of the callback \<open>g\<close>, while an invariant holds.\<close>

lemma emit_sim:
  assumes step: "\<And>w e. e \<in> set es \<Longrightarrow> P w \<Longrightarrow> \<exists>w'. f w (de_name e) (cookie31 (de_cookie e)) (de_ino e) (de_type e) =
      (fst (g (view w) (de_name e) (cookie31 (de_cookie e)) (de_ino e) (de_type e)), w') \<and> P w' \<and>
      view w' = snd (g (view w) (de_name e) (cookie31 (de_cookie e)) (de_ino e) (de_type e))"
    and "P w"
  shows "\<exists>w'. emit f es w = (fst (emit g es (view w)), w') \<and> P w' \<and> view w' = snd (emit g es (view w))"
  using assms
proof (induction es arbitrary: w)
  case Nil
  then show ?case by auto
next
  case (Cons e es)
  obtain w' where w': "f w (de_name e) (cookie31 (de_cookie e)) (de_ino e) (de_type e) =
      (fst (g (view w) (de_name e) (cookie31 (de_cookie e)) (de_ino e) (de_type e)), w')" "P w'"
    "view w' = snd (g (view w) (de_name e) (cookie31 (de_cookie e)) (de_ino e) (de_type e))"
    using Cons.prems(1) [of e w] Cons.prems(2) by auto
  have "\<exists>w''. emit f es w' = (fst (emit g es (view w')), w'') \<and> P w'' \<and> view w'' = snd (emit g es (view w'))"
    using Cons.IH [OF _ w'(2)] Cons.prems(1) by auto
  then show ?case using w' by (auto simp: split: prod.split)
qed

text \<open>
  What the readers need of a callback, for the entries \<open>E\<close>: it keeps \<open>P\<close> of its own state and the invariant of the
  buffer cache, whatever references are held, and implements the callback \<open>g\<close>.
\<close>

locale dir_client =
  fixes os :: "'o dev_ops" and d :: 'o and mx :: int and f :: "('d \<times> 'o bcache) filldir" and P :: "'d \<Rightarrow> bool"
    and view :: "'d \<Rightarrow> 'a" and g :: "'a filldir" and E :: "dirent set"
  assumes call: "e \<in> E \<Longrightarrow> P t \<Longrightarrow> bcache_inv os d R mx s \<Longrightarrow>
      \<exists>t' s'. f (t, s) (de_name e) (cookie31 (de_cookie e)) (de_ino e) (de_type e) =
        (fst (g (view t) (de_name e) (cookie31 (de_cookie e)) (de_ino e) (de_type e)), t', s') \<and> P t' \<and>
        bcache_inv os d R mx s' \<and> view t' = snd (g (view t) (de_name e) (cookie31 (de_cookie e)) (de_ino e) (de_type e))"
begin

lemma client_emit:
  assumes "set es \<subseteq> E" and "P t" and "bcache_inv os d R mx s"
  obtains t' s' where "emit f es (t, s) = (fst (emit g es (view t)), t', s')" "P t'" "bcache_inv os d R mx s'"
    "view t' = snd (emit g es (view t))"
  using emit_sim [where es = es and f = f and g = g and view = "\<lambda>w. view (fst w)" and w = "(t, s)"
      and P = "\<lambda>w. P (fst w) \<and> bcache_inv os d R mx (snd w)"] call assms by fastforce

lemma client_stream:
  assumes "set es \<subseteq> E" and "P t" and "bcache_inv os d R mx s"
  obtains c t' s' where "stream_from es e f off (t, s) = (0, c, t', s')" "P t'" "bcache_inv os d R mx s'"
    "stream_from es e g off (view t) = (0, c, view t')"
proof -
  have "set (filter (\<lambda>x. off \<le> de_cookie x) es) \<subseteq> E" using assms(1) by auto
  from client_emit [OF this assms(2,3)] obtain t' s' where
    "emit f (filter (\<lambda>x. off \<le> de_cookie x) es) (t, s) = (fst (emit g (filter (\<lambda>x. off \<le> de_cookie x) es) (view t)), t', s')"
    "P t'" "bcache_inv os d R mx s'" "view t' = snd (emit g (filter (\<lambda>x. off \<le> de_cookie x) es) (view t))" .
  then show ?thesis
    using that [of "case fst (emit g (filter (\<lambda>x. off \<le> de_cookie x) es) (view t)) of None \<Rightarrow> e | Some c \<Rightarrow> c" t' s']
    by (cases "emit g (filter (\<lambda>x. off \<le> de_cookie x) es) (view t)") (auto simp: stream_from_def split: option.splits)
qed

end

end
