(* ===== verification/Dir2_Leaf_Read.thy ===== *)
theory Dir2_Leaf_Read
  imports Dir_Client Dir2_Leaf_Dir
begin

text \<open>
  \<open>xfs_dir2_leaf_getdents\<close> delivers the entries of the data blocks in order, block by block: the loop's state
  stands for the items left in the current block and the blocks still to come.
\<close>

section \<open>Positions in a block\<close>

lemma leaf_skip_ok:
  assumes "items_at d p its e" and "n \<le> e"
  obtains p' its' where "leaf_skip d n p = Some p'" "items_at d p' its' e"
    "live_from p' its' = filter (\<lambda>x. n \<le> fst x) (live_from p its)"
  using assms
proof (induction its arbitrary: p thesis)
  case Nil
  have "leaf_skip d n p = Some p" using Nil.prems(2,3) by (subst leaf_skip.simps) simp
  then show ?case using Nil.prems(1) [of p "[]"] Nil.prems(2) by simp
next
  case (Cons it its)
  show ?case
  proof (cases "p < n")
    case True
    have run: "leaf_skip d n p = leaf_skip d n (p + item_size it)"
      using Cons.prems(2) True by (subst leaf_skip.simps) (cases it; auto simp: item_at_def XFS_DIR2_DATA_FREE_TAG_def)
    have "items_at d (p + item_size it) its e" using Cons.prems(2) by simp
    then show ?thesis
      using Cons.IH [of "p + item_size it"] Cons.prems(1,3) True run by (cases it) auto
  next
    case False
    have "filter (\<lambda>x. n \<le> fst x) (live_from p (it # its)) = live_from p (it # its)"
      using live_from_bounds [OF Cons.prems(2)] False by (fastforce simp: filter_id_conv)
    then show ?thesis
      using Cons.prems(1) [of p "it # its"] Cons.prems(2) False by (simp add: leaf_skip.simps)
  qed
qed

lemma leaf_position_ok:
  assumes g: "leaf_geom mp" and b: "b < leafblk mp" and it: "items_at d 16 its (m_dirblksize mp)"
    and c: "c < blk_byte mp (Suc b)"
  obtains ptr its' where "leaf_position mp d (max c (blk_byte mp b)) = Some (its' = [], ptr, blk_byte mp b + int ptr)"
    "items_at d ptr its' (m_dirblksize mp)"
    "live_from ptr its' = filter (\<lambda>x. c \<le> blk_byte mp b + int (fst x)) (live_from 16 its)"
proof (cases "c \<le> blk_byte mp b")
  case True
  have "filter (\<lambda>x. c \<le> blk_byte mp b + int (fst x)) (live_from 16 its) = live_from 16 its"
    using True by (simp add: filter_id_conv)
  moreover have "its \<noteq> []" using it leaf_blksize(4) [OF g] by auto
  moreover have "leaf_position mp d (max c (blk_byte mp b)) = Some (False, 16, blk_byte mp b + 16)"
    using leaf_addr(1) [OF g b, of 0] True by (simp add: leaf_position_def)
  ultimately show ?thesis using that [of its 16] it by simp
next
  case False
  define ofs where "ofs = c - blk_byte mp b"
  have o: "0 < ofs" "ofs < blksize mp" using False c by (auto simp: ofs_def blk_byte_Suc)
  have c: "max c (blk_byte mp b) = blk_byte mp b + ofs" using False by (simp add: ofs_def)
  have le: "nat ofs \<le> m_dirblksize mp" using o leaf_blksize(1) [OF g] by linarith
  obtain p its' where p: "leaf_skip d (nat ofs) 16 = Some p" "items_at d p its' (m_dirblksize mp)"
    "live_from p its' = filter (\<lambda>x. nat ofs \<le> fst x) (live_from 16 its)"
    by (rule leaf_skip_ok [OF it le])
  have pe: "p \<le> m_dirblksize mp" using items_at_le [OF p(2)] .
  have "m_dirblksize mp \<le> p \<longleftrightarrow> its' = []"
    using p(2) pe item_size_pos items_at_le by (cases its') fastforce+
  moreover have "xfs_dir2_db_off_to_byte mp (int b) (int p) = blk_byte mp b + int p"
    by (rule leaf_db_off [OF g]) (use b pe leaf_blksize(1) [OF g] in linarith)+
  moreover have "nat ofs \<le> x \<longleftrightarrow> c \<le> blk_byte mp b + int x" for x using o(1) by (auto simp: ofs_def)
  ultimately show ?thesis
    using that [of its' p] p leaf_addr(1,2) [OF g b, of ofs] o c by (simp add: leaf_position_def)
qed

section \<open>Reading the first block of the table\<close>

lemma da_read_mapped:
  assumes one: "m_dirblkfsbs mp = 1" and f: "fsb_ok mp y"
  shows "xfs_da_read_buf ops iread l2e mp dp bno (XFS_FSB_TO_DADDR mp (int y)) s =
    (case op_readbuf ops (XFS_FSB_TO_DADDR mp (int y)) (XFS_FSB_TO_BB mp 1) s of
       (None, s') \<Rightarrow> None
     | (Some bp, s') \<Rightarrow> do {
         ok \<leftarrow> da_magic_ok (op_b_addr ops s' bp);
         Some (if ok then (0, Some (xfs_da_buf_make ops [bp] s'), dp, s')
           else (errno_code EFSCORRUPTED, None, dp, op_putbuf ops bp s')) })"
proof -
  have "y < 2 ^ 52" using f by (auto simp: fsb_ok_def Let_def)
  then have c: "y \<noteq> HOLESTARTBLOCK" "y \<noteq> DELAYSTARTBLOCK" by (simp_all add: HOLESTARTBLOCK_def DELAYSTARTBLOCK_def)
  have "da_mapping iread l2e mp dp bno (XFS_FSB_TO_DADDR mp (int y)) s =
      Some (0, [\<lparr> bm_off = bno, bm_blk = y, bm_cnt = 1, bm_state = XFS_EXT_NORM \<rparr>], dp, s)"
    using daddr_fsb [OF f] one by (simp add: da_mapping_def Let_def)
  then show ?thesis
    using covers_single [OF c] one
    by (auto simp: xfs_da_read_buf_def xfs_da_do_buf_def Let_def split: prod.split option.split Option.bind_split)
qed

section \<open>Cookies\<close>

definition leaf_cookie :: "xfs_mount \<Rightarrow> 'b leaf_scan \<Rightarrow> int" where
  "leaf_cookie mp ls = (if ls_curoff ls > xfs_dir2_dataptr_to_byte mp XFS_DIR2_MAX_DATAPTR
     then cookie31 XFS_DIR2_MAX_DATAPTR else cookie31 (xfs_dir2_byte_to_dataptr mp (ls_curoff ls)))"


lemma leaf_cookie_at:
  assumes g: "leaf_geom mp" and b: "b < leafblk mp" "blk_byte mp (Suc b) + 8 \<le> 2 ^ 34" and p: "0 \<le> p" "p < blksize mp"
    and c: "ls_curoff ls = blk_byte mp b + p"
  shows "leaf_cookie mp ls = (blk_byte mp b + p) div 8" and "(blk_byte mp b + p) div 8 < leaf_end" and "0 \<le> (blk_byte mp b + p) div 8"
proof -
  have lt: "blk_byte mp b + p < 2 ^ 34 - 8" using b(2) p(2) by (simp add: blk_byte_Suc)
  then show e: "(blk_byte mp b + p) div 8 < leaf_end" by (simp add: leaf_end_def)
  show n: "0 \<le> (blk_byte mp b + p) div 8" using blk_byte_bounds(1) [OF g b(1) p] by simp
  have "(blk_byte mp b + p) div 8 < 2 ^ 31" using e by (simp add: leaf_end_def)
  then show "leaf_cookie mp ls = (blk_byte mp b + p) div 8"
    using lt n by (simp add: leaf_cookie_def c leaf_addr(3) [OF g b(1) p] xfs_dir2_dataptr_to_byte_def XFS_DIR2_MAX_DATAPTR_def
        XFS_DIR2_DATA_ALIGN_LOG_def)
qed

lemma leaf_cookie_end:
  assumes "leaf_geom mp"
  shows "leaf_cookie mp (ls\<lparr>ls_curoff := xfs_dir2_da_to_byte mp (int (leafblk mp))\<rparr>) = leaf_end"
proof -
  have l: "sb_dirblklog (m_sb mp) = 0" using assms by (simp add: leaf_geom_def)
  have "int (leafblk mp) < 2 ^ 32" using leaf_blksize(6) [OF assms] by simp
  then have "xfs_dir2_da_to_db mp (int (leafblk mp)) = int (leafblk mp)" using l by (simp add: xfs_dir2_da_to_db_def)
  then have "xfs_dir2_da_to_byte mp (int (leafblk mp)) = 2 ^ 35"
    using leaf_db_off [OF assms order_refl, of 0] leaf_blksize(2,5) [OF assms] by (simp add: xfs_dir2_da_to_byte_def blk_byte_def)
  then show ?thesis
    by (simp add: leaf_cookie_def xfs_dir2_dataptr_to_byte_def XFS_DIR2_MAX_DATAPTR_def XFS_DIR2_DATA_ALIGN_LOG_def
        cookie31_def leaf_end_def)
qed

section \<open>The next block\<close>

text \<open>The buffer of the scan, which can be put back whatever happened to the cache in between.\<close>

definition held :: "'o dev_ops \<Rightarrow> 'o \<Rightarrow> int \<Rightarrow> nat \<Rightarrow> (nat \<Rightarrow> int) \<Rightarrow> nat dabuf option \<Rightarrow> 'o bcache \<Rightarrow> bool" where
  "held os d mx dev R buf s \<longleftrightarrow> (case buf of None \<Rightarrow> bcache_inv os d R mx s
     | Some bp \<Rightarrow> \<exists>R'. bcache_inv os d R' mx s \<and>
         (\<forall>s2. bcache_inv os d R' mx s2 \<longrightarrow> bcache_inv os d R mx (xfs_da_brelse (bcache_buf_ops os dev) bp s2)))"

lemma held_release:
  "held os d mx dev R buf s \<Longrightarrow>
    bcache_inv os d R mx (case buf of None \<Rightarrow> s | Some bp \<Rightarrow> xfs_da_brelse (bcache_buf_ops os dev) bp s)"
  by (auto simp: held_def split: option.splits)

definition in_block :: "xfs_mount \<Rightarrow> bmap list \<Rightarrow> int \<Rightarrow> 'b leaf_scan \<Rightarrow> nat \<Rightarrow> data_item list \<Rightarrow> (nat \<times> nat) list \<Rightarrow> bool" where
  "in_block mp exts B ls b its todo \<longleftrightarrow> scan_at mp exts B ls todo \<and>
     (\<exists>bp. ls_bp ls = Some bp \<and> items_at (da_data bp) (ls_ptr ls) its (m_dirblksize mp)) \<and>
     ls_curoff ls = blk_byte mp b + int (ls_ptr ls)"

lemma leaf_next_end:
  assumes ok: "leaf_dir_ok (dev_of os d dev) mp dp cont" and sc: "scan_at mp (fork_exts dp) B ls []"
    and h: "held os d mx dev R (ls_bp ls) s" and B: "0 < B" "B \<le> 2 ^ 30"
  obtains ls' s' where "leaf_next (bcache_buf_ops os dev) iread l2e mp (nat (leaf_want mp B)) ls dp s = Some (Some 0, False, ls', dp, s')"
    "ls_bp ls' = None" "bcache_inv os d R mx s'" "leaf_cookie mp ls' = leaf_end"
proof -
  have g: "leaf_geom mp" "dir_ready mp dp" using ok by (auto simp: leaf_dir_ok_def)
  then have one: "m_dirblkfsbs mp = 1" by (simp add: dir_ready_def)
  obtain ls0 s0 where r: "leaf_release (bcache_buf_ops os dev) mp ls s = Some (ls0, s0)" "scan_at mp (fork_exts dp) B ls0 []"
    "ls_bp ls0 = None" "s0 = (case ls_bp ls of None \<Rightarrow> s | Some bp \<Rightarrow> xfs_da_brelse (bcache_buf_ops os dev) bp s)"
    by (rule leaf_release_ok [OF g(1) one sc])
  obtain ls1 where f: "leaf_refill iread l2e mp (nat (leaf_want mp B)) ls0 dp s0 = Some (0, ls1, dp, s0)"
    "scan_at mp (fork_exts dp) B ls1 []" "ls_bp ls1 = None" "ls_map ls1 = [] \<longrightarrow> ls_off ls1 = leafblk mp"
    by (rule leaf_refill_ok [OF g r(2,3) B, where iread = iread and l2e = l2e and s = s0])
  have e: "ls_map ls1 = []" using f(2,3) flat_Nil [of "ls_map ls1"] by (auto simp: scan_at_def)
  let ?ls = "ls1\<lparr>ls_curoff := xfs_dir2_da_to_byte mp (int (ls_off ls1))\<rparr>"
  show ?thesis
  proof (rule that [of ?ls s0])
    show "leaf_next (bcache_buf_ops os dev) iread l2e mp (nat (leaf_want mp B)) ls dp s = Some (Some 0, False, ?ls, dp, s0)"
      using r(1) f(1) e by (simp add: leaf_next_def)
    show "bcache_inv os d R mx s0" using held_release [OF h] r(4) by simp
    show "leaf_cookie mp ?ls = leaf_end" using leaf_cookie_end [OF g(1)] f(4) e by simp
  qed (use f(3) in simp)
qed

lemma leaf_next_block:
  assumes ok: "leaf_dir_ok (dev_of os d dev) mp dp cont" and sc: "scan_at mp (fork_exts dp) B ls ((b, y) # todo)"
    and m: "(b, y) \<in> set (mapped (fork_exts dp) 0 (leafblk mp))" and c: "ls_curoff ls < blk_byte mp (Suc b)"
    and h: "held os d mx dev R (ls_bp ls) s" and room: "int (card {n. R n \<noteq> 0}) + 1 < mx" and B: "0 < B" "B \<le> 2 ^ 30"
  obtains ls' s' its where "leaf_next (bcache_buf_ops os dev) iread l2e mp (nat (leaf_want mp B)) ls dp s = Some (None, its = [], ls', dp, s')"
    "in_block mp (fork_exts dp) B ls' b its todo" "held os d mx dev R (ls_bp ls') s'"
    "live_from (ls_ptr ls') its = filter (\<lambda>x. ls_curoff ls \<le> blk_byte mp b + int (fst x)) (live_from 16 (cont b))"
proof -
  let ?ops = "bcache_buf_ops os dev" and ?exts = "fork_exts dp"
  have g: "leaf_geom mp" "dir_ready mp dp" and blk: "data_block (dev_of os d dev) mp y (cont b)"
    using ok m by (auto simp: leaf_dir_ok_def)
  have one: "m_dirblkfsbs mp = 1" using g by (simp add: dir_ready_def)
  have b: "b < leafblk mp" using m by (simp add: mapped_set)
  obtain ls0 s0 where r: "leaf_release ?ops mp ls s = Some (ls0, s0)" "scan_at mp ?exts B ls0 ((b, y) # todo)"
    "ls_bp ls0 = None" "ls_curoff ls0 = ls_curoff ls"
    "s0 = (case ls_bp ls of None \<Rightarrow> s | Some bp \<Rightarrow> xfs_da_brelse ?ops bp s)"
    by (rule leaf_release_ok [OF g(1) one sc])
  obtain ls1 where f: "leaf_refill iread l2e mp (nat (leaf_want mp B)) ls0 dp s0 = Some (0, ls1, dp, s0)"
    "scan_at mp ?exts B ls1 ((b, y) # todo)" "ls_bp ls1 = None" "ls_curoff ls1 = ls_curoff ls0"
    "ls_map ls1 = [] \<longrightarrow> ls_off ls1 = leafblk mp"
    by (rule leaf_refill_ok [OF g r(2,3) B, where iread = iread and l2e = l2e and s = s0])
  obtain m ms where t: "ls_map ls1 = m # ms"
    using f(2,3,5) by (cases "ls_map ls1") (auto simp: scan_at_def)
  have cnt: "0 < bm_cnt m" using f(2) t by (simp add: scan_at_def)
  then have u: "[0..<bm_cnt m] = 0 # [1..<bm_cnt m]" by (simp add: upt_conv_Cons)
  have hd: "bm_off m = b" "bm_blk m = y" using f(2,3) t by (auto simp: scan_at_def u)
  have i0: "bcache_inv os d R mx s0" using held_release [OF h] r(5) by simp
  obtain x where x: "dev_of os d dev (XFS_FSB_TO_DADDR mp (int y)) (XFS_FSB_TO_BB mp 1) = Some x" "da_magic_ok x = Some True"
    "items_at x 16 (cont b) (m_dirblksize mp)" and y: "fsb_ok mp y" using blk by (auto simp: data_block_def)
  obtain bp s1 where bp: "op_readbuf ?ops (XFS_FSB_TO_DADDR mp (int y)) (XFS_FSB_TO_BB mp 1) s0 = (Some bp, s1)"
    "op_b_addr ?ops s1 bp = x" "bcache_inv os d (R(bp := R bp + 1)) mx s1"
    "\<forall>s2. bcache_inv os d (R(bp := R bp + 1)) mx s2 \<longrightarrow> bcache_inv os d R mx (op_putbuf ?ops bp s2)"
    by (rule bcache_hold [OF i0 room x(1)]) blast
  let ?buf = "xfs_da_buf_make ?ops [bp] s1"
  have rd: "xfs_da_read_buf ?ops iread l2e mp dp b (XFS_FSB_TO_DADDR mp (int y)) s0 = Some (0, Some ?buf, dp, s1)"
    using da_read_mapped [OF one y, where ops = ?ops and iread = iread and l2e = l2e and dp = dp and bno = b and s = s0] bp(1,2) x(2)
    by simp
  define ra0 where "ra0 = (if ls_ra ls1 \<noteq> 0 then ls_ra ls1 - int (m_dirblkfsbs mp) else 0)"
  obtain ra where ra: "leaf_readahead ?ops iread l2e mp (ls_map ls1) (ls_blocks ls1) (leaf_want mp (ls_bufsize ls1) - 1) 0 0 0 ra0 dp s1 =
      Some (ra, dp, s1)"
  proof -
    have c: "counted (ls_map ls1)" "ls_blocks ls1 = int (length (flat (ls_map ls1)))" using f(2) by (auto simp: scan_at_def)
    have "\<exists>ra. leaf_readahead ?ops iread l2e mp (ls_map ls1) (int (length (flat (ls_map ls1)))) (leaf_want mp (ls_bufsize ls1) - 1)
        0 0 0 ra0 dp s1 = Some (ra, dp, s1)" by (rule leaf_readahead_ok [OF one c(1)]) (use t cnt in simp_all)
    then show ?thesis using that c(2) by auto
  qed
  obtain ptr its where p: "leaf_position mp x (max (ls_curoff ls) (blk_byte mp b)) = Some (its = [], ptr, blk_byte mp b + int ptr)"
    "items_at x ptr its (m_dirblksize mp)"
    "live_from ptr its = filter (\<lambda>x. ls_curoff ls \<le> blk_byte mp b + int (fst x)) (live_from 16 (cont b))"
    by (rule leaf_position_ok [OF g(1) b x(3) c])
  have new: "xfs_dir2_db_off_to_byte mp (xfs_dir2_da_to_db mp (int b)) 0 = blk_byte mp b"
    using leaf_db_off [OF g(1), of b 0] leaf_addr(4) [OF g(1) b, of 0] b leaf_blksize(2) [OF g(1)] by simp
  let ?ls = "ls1\<lparr>ls_ra := ra, ls_bp := Some ?buf, ls_ptr := ptr, ls_curoff := blk_byte mp b + int ptr\<rparr>"
  show ?thesis
  proof (rule that [of its ?ls s1])
    show "leaf_next ?ops iread l2e mp (nat (leaf_want mp B)) ls dp s = Some (None, its = [], ?ls, dp, s1)"
      using r(1,4) f(1,4) t cnt hd rd ra p(1) new one bp(2) by (simp add: leaf_next_def ra0_def)
    show "in_block mp ?exts B ?ls b its todo"
      using f(2,3) t p(2) bp(2) u hd by (auto simp: in_block_def scan_at_def Let_def)
    show "held os d mx dev R (ls_bp ?ls) s1" using bp(3,4) by (auto simp: held_def)
  qed (use p(3) in simp)
qed


section \<open>The loop\<close>

text \<open>With a block at hand the loop handles its entry; without one, it goes on in the next block.\<close>

lemma in_block_bounds:
  assumes g: "leaf_geom mp" and b: "b < leafblk mp" and i: "in_block mp exts B ls b (it # its) todo"
  shows "ls_ptr ls + item_size it \<le> m_dirblksize mp" and "ls_ptr ls < m_dirblksize mp" and "ls_curoff ls < XFS_DIR2_LEAF_OFFSET"
    and "int (ls_ptr ls) < blksize mp"
proof -
  obtain bp where bp: "item_at (da_data bp) (ls_ptr ls) it" "items_at (da_data bp) (ls_ptr ls + item_size it) its (m_dirblksize mp)"
    "ls_curoff ls = blk_byte mp b + int (ls_ptr ls)" "ls_bp ls = Some bp" using i unfolding in_block_def items_at.simps by blast
  show "ls_ptr ls + item_size it \<le> m_dirblksize mp" using items_at_le [OF bp(2)] .
  then show lt: "ls_ptr ls < m_dirblksize mp" using item_size_pos [OF bp(1)] by linarith
  then show l: "int (ls_ptr ls) < blksize mp" using leaf_blksize(1) [OF g] by linarith
  show "ls_curoff ls < XFS_DIR2_LEAF_OFFSET"
    using blk_byte_bounds(2) [OF g b _ l] bp(3) by (simp add: XFS_DIR2_LEAF_OFFSET_def XFS_DIR2_SPACE_SIZE_def XFS_DIR2_DATA_ALIGN_LOG_def)
qed

lemma leaf_loop_entry:
  assumes g: "leaf_geom mp" and b: "b < leafblk mp" and i: "in_block mp exts B ls b (it # its) todo"
  shows "leaf_loop ops iread l2e mp f n ls dp t s = (case leaf_entry mp f ls t s of None \<Rightarrow> None
     | Some (Some error, ls, t, s) \<Rightarrow> Some (error, ls, dp, t, s)
     | Some (None, ls, t, s) \<Rightarrow> leaf_loop ops iread l2e mp f n ls dp t s)"
proof -
  have "leaf_step ops iread l2e mp f n ls dp t s = map_option (\<lambda>(stop, ls, t, s). (stop, ls, dp, t, s)) (leaf_entry mp f ls t s)"
    using in_block_bounds(2) [OF g b i] i by (auto simp: leaf_step_def in_block_def)
  then show ?thesis
    using in_block_bounds(3) [OF g b i] by (subst leaf_loop.simps) (auto split: option.split)
qed

lemma leaf_loop_next:
  assumes g: "leaf_geom mp" and b: "b < leafblk mp" and i: "in_block mp exts B ls' b its todo"
    and c: "ls_curoff ls < XFS_DIR2_LEAF_OFFSET" and n: "ls_bp ls = None \<or> m_dirblksize mp \<le> ls_ptr ls"
    and next_run: "leaf_next ops iread l2e mp n ls dp s = Some (None, its = [], ls', dp', s')"
  shows "leaf_loop ops iread l2e mp f n ls dp t s = leaf_loop ops iread l2e mp f n ls' dp' t s'"
proof (cases its)
  case Nil
  then have "leaf_step ops iread l2e mp f n ls dp t s = Some (None, ls', dp', t, s')"
    using next_run n by (simp add: leaf_step_def)
  then show ?thesis using c by (subst leaf_loop.simps) simp
next
  case (Cons it its')
  have "leaf_step ops iread l2e mp f n ls dp t s = map_option (\<lambda>(stop, ls, t, s). (stop, ls, dp', t, s)) (leaf_entry mp f ls' t s')"
    using next_run n Cons by (simp add: leaf_step_def)
  then show ?thesis
    using c leaf_loop_entry [OF g b i [unfolded Cons], of ops iread l2e f n dp' t s']
    by (subst leaf_loop.simps) (auto split: option.split)
qed

text \<open>The loop ends, and what it delivered are the entries \<open>es\<close>.\<close>

definition leaf_ends ::
    "'o dev_ops \<Rightarrow> 'o \<Rightarrow> int \<Rightarrow> nat \<Rightarrow> (nat \<Rightarrow> int) \<Rightarrow> xfs_mount \<Rightarrow> xfs_inode \<Rightarrow> ('d \<Rightarrow> bool) \<Rightarrow> ('d \<Rightarrow> 'a) \<Rightarrow> 'a filldir \<Rightarrow>
      dirent list \<Rightarrow> 'd \<Rightarrow> (int \<times> nat leaf_scan \<times> xfs_inode \<times> 'd \<times> 'o bcache) option \<Rightarrow> bool" where
  "leaf_ends os d mx dev R mp dp P view g es t run \<longleftrightarrow> (\<exists>ls' t' s' r. run = Some (0, ls', dp, t', s') \<and> P t' \<and>
     held os d mx dev R (ls_bp ls') s' \<and> emit g es (view t) = (r, view t') \<and>
     leaf_cookie mp ls' = (case r of None \<Rightarrow> leaf_end | Some c \<Rightarrow> c))"

context dir_client
begin

lemma held_client:
  assumes "e \<in> E" and "P t" and "held os d mx dev R bp s"
  obtains t' s' where "f (t, s) (de_name e) (cookie31 (de_cookie e)) (de_ino e) (de_type e) =
      (fst (g (view t) (de_name e) (cookie31 (de_cookie e)) (de_ino e) (de_type e)), t', s')" "P t'"
    "held os d mx dev R bp s'" "view t' = snd (g (view t) (de_name e) (cookie31 (de_cookie e)) (de_ino e) (de_type e))"
proof -
  obtain R' where R': "bcache_inv os d R' mx s" "\<And>s2. bcache_inv os d R' mx s2 \<Longrightarrow> held os d mx dev R bp s2"
    using assms(3) by (cases bp) (auto simp: held_def)
  show ?thesis using call [OF assms(1,2) R'(1)] R'(2) that by blast
qed

lemma leaf_block_ok:
  assumes g: "leaf_geom mp" and b: "b < leafblk mp" "blk_byte mp (Suc b) + 8 \<le> 2 ^ 34"
    and i: "in_block mp exts B ls b its todo" and t: "P t" "held os d mx dev R (ls_bp ls) s"
    and E: "leaf_dirent mp b ` set (live_from (ls_ptr ls) its) \<subseteq> E"
    and rest: "\<And>ls t s. in_block mp exts B ls b [] todo \<Longrightarrow> P t \<Longrightarrow> held os d mx dev R (ls_bp ls) s \<Longrightarrow>
      leaf_ends os d mx dev R mp dp P view g es t (leaf_loop ops iread l2e mp f n ls dp t s)"
  shows "leaf_ends os d mx dev R mp dp P view g (map (leaf_dirent mp b) (live_from (ls_ptr ls) its) @ es) t
    (leaf_loop ops iread l2e mp f n ls dp t s)"
  using i t E
proof (induction its arbitrary: ls t s)
  case Nil
  then show ?case using rest by simp
next
  case (Cons it its)
  note bnd = in_block_bounds [OF g b(1) Cons.prems(1)]
  obtain bp where bp: "ls_bp ls = Some bp" "item_at (da_data bp) (ls_ptr ls) it"
    "items_at (da_data bp) (ls_ptr ls + item_size it) its (m_dirblksize mp)" "ls_curoff ls = blk_byte mp b + int (ls_ptr ls)"
    using Cons.prems(1) by (auto simp: in_block_def)
  let ?on = "\<lambda>k. ls\<lparr>ls_ptr := ls_ptr ls + item_size it, ls_curoff := ls_curoff ls + int (item_size it), ls_bufsize := k\<rparr>"
  have on: "in_block mp exts B (?on k) b its todo" if "0 \<le> k" "k \<le> ls_bufsize ls" for k
    using Cons.prems(1) bp that by (auto simp: in_block_def scan_at_def)
  have buf: "0 \<le> ls_bufsize ls" using Cons.prems(1) by (simp add: in_block_def scan_at_def)
  show ?case
  proof (cases it)
    case (DFree m)
    have "leaf_entry mp f ls t s = Some (None, ?on (ls_bufsize ls), t, s)"
      using bp DFree by (simp add: leaf_entry_def item_at_def XFS_DIR2_DATA_FREE_TAG_def Let_def)
    then have run: "leaf_loop ops iread l2e mp f n ls dp t s = leaf_loop ops iread l2e mp f n (?on (ls_bufsize ls)) dp t s"
      unfolding leaf_loop_entry [OF g b(1) Cons.prems(1)] by simp
    show ?thesis
      unfolding run using Cons.IH [OF on [OF buf order_refl] Cons.prems(2)] Cons.prems(3,4) DFree by simp
  next
    case (DEntry nm ino)
    let ?e = "leaf_dirent mp b (ls_ptr ls, nm, ino)"
    have e: "?e \<in> E" using Cons.prems(4) DEntry by simp
    obtain t' s' where c: "f (t, s) (de_name ?e) (cookie31 (de_cookie ?e)) (de_ino ?e) (de_type ?e) =
        (fst (g (view t) (de_name ?e) (cookie31 (de_cookie ?e)) (de_ino ?e) (de_type ?e)), t', s')" "P t'"
      "held os d mx dev R (ls_bp ls) s'" "view t' = snd (g (view t) (de_name ?e) (cookie31 (de_cookie ?e)) (de_ino ?e) (de_type ?e))"
      by (rule held_client [OF e Cons.prems(2,3)])
    let ?full = "fst (g (view t) (de_name ?e) (cookie31 (de_cookie ?e)) (de_ino ?e) (de_type ?e))"
    let ?k = "if ls_bufsize ls > int (item_size it) then ls_bufsize ls - int (item_size it) else 0"
    have ptr: "xfs_dir2_byte_to_dataptr mp (ls_curoff ls) = de_cookie ?e"
      using leaf_addr(3) [OF g b(1) _ bnd(4)] bp(4) by (simp add: leaf_dirent_def)
    have ent: "leaf_entry mp f ls t s = Some (if ?full then (Some 0, ls, t', s') else (None, ?on ?k, t', s'))"
      using bp DEntry ptr c(1) by (auto simp: leaf_entry_def item_at_def XFS_DIR2_DATA_FREE_TAG_def leaf_dirent_def Let_def)
    have em: "emit g (?e # xs) (view t) = (if ?full then (Some (cookie31 (de_cookie ?e)), view t') else emit g xs (view t'))" for xs
      using c(4) by (simp split: prod.split)
    have live: "live_from (ls_ptr ls) (it # its) = (ls_ptr ls, nm, ino) # live_from (ls_ptr ls + item_size it) its"
      by (simp add: DEntry)
    show ?thesis
    proof (cases ?full)
      case True
      have ck: "leaf_cookie mp ls = de_cookie ?e" "cookie31 (de_cookie ?e) = de_cookie ?e"
        using leaf_cookie_at [OF g b _ bnd(4) bp(4)] by (auto simp: leaf_dirent_def leaf_end_def)
      have "leaf_loop ops iread l2e mp f n ls dp t s = Some (0, ls, dp, t', s')"
        unfolding leaf_loop_entry [OF g b(1) Cons.prems(1)] ent using True by simp
      then show ?thesis using c(2,3) ck em True by (simp add: live leaf_ends_def)
    next
      case False
      have run: "leaf_loop ops iread l2e mp f n ls dp t s = leaf_loop ops iread l2e mp f n (?on ?k) dp t' s'"
        unfolding leaf_loop_entry [OF g b(1) Cons.prems(1)] ent using False by simp
      have ih: "leaf_ends os d mx dev R mp dp P view g (map (leaf_dirent mp b) (live_from (ls_ptr (?on ?k)) its) @ es) t'
          (leaf_loop ops iread l2e mp f n (?on ?k) dp t' s')"
        by (rule Cons.IH [OF on c(2)]) (use buf c(3) Cons.prems(4) live in auto)
      then show ?thesis unfolding run live using em False by (simp add: leaf_ends_def)
    qed
  qed
qed


text \<open>The blocks one after the other, from a point at or before the first one's end.\<close>

lemma leaf_loop_ok:
  assumes ok: "leaf_dir_ok (dev_of os d dev) mp dp cont" and room: "int (card {n. R n \<noteq> 0}) + 1 < mx" and B: "0 < B" "B \<le> 2 ^ 30"
    and "set todo \<subseteq> set (mapped (fork_exts dp) 0 (leafblk mp))" and "sorted_wrt (\<lambda>u v. fst u < fst v) todo"
    and "scan_at mp (fork_exts dp) B ls todo" and "ls_bp ls = None \<or> m_dirblksize mp \<le> ls_ptr ls"
    and "ls_curoff ls < XFS_DIR2_LEAF_OFFSET" and "\<forall>(b, y) \<in> set todo. ls_curoff ls < blk_byte mp (Suc b)"
    and "P t" and "held os d mx dev R (ls_bp ls) s" and "set (leaf_entries mp cont (ls_curoff ls) todo) \<subseteq> E"
  shows "leaf_ends os d mx dev R mp dp P view g (leaf_entries mp cont (ls_curoff ls) todo) t
    (leaf_loop (bcache_buf_ops os dev) iread l2e mp f (nat (leaf_want mp B)) ls dp t s)"
  using assms(5-)
proof (induction todo arbitrary: ls t s)
  case Nil
  obtain ls' s' where r: "leaf_next (bcache_buf_ops os dev) iread l2e mp (nat (leaf_want mp B)) ls dp s = Some (Some 0, False, ls', dp, s')"
    "ls_bp ls' = None" "bcache_inv os d R mx s'" "leaf_cookie mp ls' = leaf_end"
    by (rule leaf_next_end [OF ok Nil.prems(3) Nil.prems(8) B, where iread = iread and l2e = l2e])
  have "leaf_loop (bcache_buf_ops os dev) iread l2e mp f (nat (leaf_want mp B)) ls dp t s = Some (0, ls', dp, t, s')"
    using r(1) Nil.prems(4,5) by (subst leaf_loop.simps) (simp add: leaf_step_def)
  then show ?case using r Nil.prems(7) by (simp add: leaf_ends_def leaf_entries_def held_def)
next
  case (Cons u todo)
  obtain b y where [simp]: "u = (b, y)" by (cases u)
  have g: "leaf_geom mp" and m: "(b, y) \<in> set (mapped (fork_exts dp) 0 (leafblk mp))"
    using ok Cons.prems(1) by (auto simp: leaf_dir_ok_def)
  have b: "b < leafblk mp" "blk_byte mp (Suc b) + 8 \<le> 2 ^ 34"
    using m ok by (auto simp: mapped_set leaf_dir_ok_def)
  have cur: "ls_curoff ls < blk_byte mp (Suc b)" using Cons.prems(6) by simp
  have later: "Suc b \<le> b'" if "(b', y') \<in> set todo" for b' y' using Cons.prems(2) that by auto
  have sc: "scan_at mp (fork_exts dp) B ls ((b, y) # todo)" using Cons.prems(3) by simp
  obtain ls' s' its where r: "leaf_next (bcache_buf_ops os dev) iread l2e mp (nat (leaf_want mp B)) ls dp s = Some (None, its = [], ls', dp, s')"
    "in_block mp (fork_exts dp) B ls' b its todo" "held os d mx dev R (ls_bp ls') s'"
    "live_from (ls_ptr ls') its = filter (\<lambda>x. ls_curoff ls \<le> blk_byte mp b + int (fst x)) (live_from 16 (cont b))"
    by (rule leaf_next_block [OF ok sc m cur Cons.prems(8) room B, where iread = iread and l2e = l2e])
  have split: "leaf_entries mp cont (ls_curoff ls) (u # todo) =
      map (leaf_dirent mp b) (live_from (ls_ptr ls') its) @ leaf_entries mp cont (blk_byte mp (Suc b)) todo"
  proof -
    have "blk_byte mp (Suc b) \<le> blk_byte mp b'" if "(b', y') \<in> set todo" for b' y' using blk_byte_mono later [OF that] by blast
    then have "leaf_entries mp cont (ls_curoff ls) todo = leaf_entries mp cont (blk_byte mp (Suc b)) todo"
      by (intro leaf_entries_ahead) (use cur in fastforce)+
    then show ?thesis using r(4) by (simp add: leaf_entries_def)
  qed
  have E: "leaf_dirent mp b ` set (live_from (ls_ptr ls') its) \<subseteq> E" "set (leaf_entries mp cont (blk_byte mp (Suc b)) todo) \<subseteq> E"
    using Cons.prems(9) unfolding split by auto
  have "leaf_ends os d mx dev R mp dp P view g (leaf_entries mp cont (blk_byte mp (Suc b)) todo) t
      (leaf_loop (bcache_buf_ops os dev) iread l2e mp f (nat (leaf_want mp B)) ls dp t s)"
    if i: "in_block mp (fork_exts dp) B ls b [] todo" "P t" "held os d mx dev R (ls_bp ls) s" for ls t s
  proof -
    have p: "ls_ptr ls = m_dirblksize mp" "ls_curoff ls = blk_byte mp (Suc b)" "scan_at mp (fork_exts dp) B ls todo"
      using i(1) leaf_blksize(1) [OF g] by (auto simp: in_block_def blk_byte_Suc)
    have "ls_curoff ls < blk_byte mp (Suc b')" if "(b', y') \<in> set todo" for b' y'
      using blk_byte_mono [OF later [OF that], of mp] leaf_blksize(2) [OF g] p(2) by (simp add: blk_byte_Suc)
    then have ahead: "\<forall>(b', y') \<in> set todo. ls_curoff ls < blk_byte mp (Suc b')" by blast
    have "ls_curoff ls < XFS_DIR2_LEAF_OFFSET"
      using p(2) b(2) by (simp add: XFS_DIR2_LEAF_OFFSET_def XFS_DIR2_SPACE_SIZE_def XFS_DIR2_DATA_ALIGN_LOG_def)
    then show ?thesis
      using Cons.IH [OF _ _ p(3) _ _ ahead i(2,3)] Cons.prems(1,2) p(1,2) E(2) by simp
  qed
  then show ?case
    unfolding split leaf_loop_next [OF g b(1) r(2) Cons.prems(5,4) r(1)]
    by (rule leaf_block_ok [OF g b r(2) Cons.prems(7) r(3) E(1)])
qed

end

section \<open>Reading the directory\<close>

context dir_client
begin

text \<open>One call delivers the listing from the offset on and gives back every buffer.\<close>

lemma leaf_getdents_ok:
  assumes ok: "leaf_dir_ok (dev_of os d dev) mp dp cont" and room: "int (card {n. R n \<noteq> 0}) + 1 < mx" and B: "0 < B" "B \<le> 2 ^ 30"
    and off: "0 \<le> off" "off \<le> leaf_end" and t: "P t" and s: "bcache_inv os d R mx s" and E: "set (leaf_listing mp dp cont) \<subseteq> E"
  shows "\<exists>c' t' s'. xfs_dir2_leaf_getdents (bcache_buf_ops os dev) iread l2e mp f B off t (dp, s) = Some (0, c', t', dp, s') \<and>
    bcache_inv os d R mx s' \<and> P t' \<and> stream_from (leaf_listing mp dp cont) leaf_end g off (view t) = (0, c', view t')"
proof -
  let ?exts = "fork_exts dp" and ?ops = "bcache_buf_ops os dev"
  have g: "leaf_geom mp" using ok by (simp add: leaf_dir_ok_def)
  note k = leaf_blksize [OF g]
  define b0 where "b0 = nat (off * 8 div blksize mp)"
  define todo where "todo = mapped ?exts b0 (leafblk mp)"
  have o: "off * 8 < 2 ^ 35" "off < 2 ^ 31" using off(2) by (auto simp: leaf_end_def)
  have b0: "int b0 = off * 8 div blksize mp" using off(1) k(2) by (simp add: b0_def pos_imp_zdiv_nonneg_iff)
  have "off * 8 div blksize mp < int (leafblk mp)"
  proof -
    have "off * 8 < int (leafblk mp) * blksize mp" using o(1) k(5) by simp
    moreover have "(off * 8 div blksize mp) * blksize mp \<le> off * 8"
      using div_mult_mod_eq [of "off * 8" "blksize mp"] pos_mod_sign [of "blksize mp" "off * 8"] k(2) by linarith
    moreover have "int (leafblk mp) * blksize mp \<le> (off * 8 div blksize mp) * blksize mp"
      if "int (leafblk mp) \<le> off * 8 div blksize mp" using that k(2) by (intro mult_right_mono) auto
    ultimately show ?thesis by linarith
  qed
  then have lt: "b0 < leafblk mp" using b0 by linarith
  have at: "blk_byte mp b0 \<le> off * 8" "off * 8 < blk_byte mp (Suc b0)"
  proof -
    have e: "blk_byte mp b0 = (off * 8 div blksize mp) * blksize mp" by (simp only: blk_byte_def b0)
    have "0 \<le> off * 8 mod blksize mp" "off * 8 mod blksize mp < blksize mp" using k(2) by simp_all
    then show "blk_byte mp b0 \<le> off * 8" "off * 8 < blk_byte mp (Suc b0)"
      using div_mult_mod_eq [of "off * 8" "blksize mp"] unfolding blk_byte_Suc e by linarith+
  qed
  have filt: "filter (\<lambda>e. off \<le> de_cookie e) (leaf_listing mp dp cont) = leaf_entries mp cont (off * 8) todo"
  proof -
    have sp: "mapped ?exts 0 (leafblk mp) = mapped ?exts 0 b0 @ todo"
      unfolding todo_def by (rule mapped_split) (use lt in auto)
    have "blk_byte mp (Suc b) \<le> off * 8" if "(b, y) \<in> set (mapped ?exts 0 b0)" for b y
      using blk_byte_mono [of "Suc b" b0 mp] at(1) that by (simp add: mapped_set)
    then have "\<forall>(b, y) \<in> set (mapped ?exts 0 b0). blk_byte mp (Suc b) \<le> off * 8" by blast
    then have "leaf_entries mp cont (off * 8) (mapped ?exts 0 b0) = []"
      by (intro leaf_entries_behind [OF ok]) (auto simp: sp)
    then show ?thesis by (simp add: leaf_listing_def leaf_entries_filter sp leaf_entries_append)
  qed
  let ?ls = "leaf_scan_init mp B off :: nat leaf_scan"
  have byte: "xfs_dir2_dataptr_to_byte mp off = off * 8"
    using off(1) o(2) by (simp add: xfs_dir2_dataptr_to_byte_def XFS_DIR2_DATA_ALIGN_LOG_def)
  have "b0 < 2 ^ 32" using lt k(6) by simp
  then have db: "xfs_dir2_db_to_da mp (xfs_dir2_byte_to_db mp (off * 8)) = int b0"
    using g b0 by (simp add: xfs_dir2_db_to_da_def xfs_dir2_byte_to_db_def leaf_geom_def)
  have ls: "ls_curoff ?ls = off * 8" "ls_bp ?ls = None" "scan_at mp ?exts B ?ls todo"
    using B lt by (simp_all add: leaf_scan_init_def byte db scan_at_def todo_def)
  have "off * 8 < blk_byte mp (Suc b)" if "b0 \<le> b" for b
    using at(2) blk_byte_mono [of "Suc b0" "Suc b" mp] that by simp
  then have ahead: "\<forall>(b, y) \<in> set todo. ls_curoff ?ls < blk_byte mp (Suc b)" by (auto simp: todo_def mapped_set ls)
  have sub: "set todo \<subseteq> set (mapped ?exts 0 (leafblk mp))" by (auto simp: todo_def mapped_set)
  have "leaf_ends os d mx dev R mp dp P view g (leaf_entries mp cont (ls_curoff ?ls) todo) t
      (leaf_loop ?ops iread l2e mp f (nat (leaf_want mp B)) ?ls dp t s)"
  proof (rule leaf_loop_ok [OF ok room B sub _ ls(3) _ _ ahead t])
    show "sorted_wrt (\<lambda>u v. fst u < fst v) todo" by (simp add: todo_def mapped_sorted)
    show "ls_curoff ?ls < XFS_DIR2_LEAF_OFFSET"
      using o(1) by (simp add: ls XFS_DIR2_LEAF_OFFSET_def XFS_DIR2_SPACE_SIZE_def XFS_DIR2_DATA_ALIGN_LOG_def)
    show "set (leaf_entries mp cont (ls_curoff ?ls) todo) \<subseteq> E" using E unfolding ls filt [symmetric] by auto
  qed (use s in \<open>simp_all add: ls held_def\<close>)
  then obtain ls' t' s' r where r: "leaf_loop ?ops iread l2e mp f (nat (leaf_want mp B)) ?ls dp t s = Some (0, ls', dp, t', s')" "P t'"
    "held os d mx dev R (ls_bp ls') s'" "emit g (leaf_entries mp cont (off * 8) todo) (view t) = (r, view t')"
    "leaf_cookie mp ls' = (case r of None \<Rightarrow> leaf_end | Some c \<Rightarrow> c)"
    by (auto simp: leaf_ends_def ls)
  let ?s = "case ls_bp ls' of None \<Rightarrow> s' | Some bp \<Rightarrow> xfs_da_brelse ?ops bp s'"
  have "\<not> XFS_DIR2_MAX_DATAPTR \<le> off" using o(2) by (simp add: XFS_DIR2_MAX_DATAPTR_def)
  then have "xfs_dir2_leaf_getdents ?ops iread l2e mp f B off t (dp, s) = Some (0, leaf_cookie mp ls', t', dp, ?s)"
    using r(1) by (simp add: xfs_dir2_leaf_getdents_def leaf_cookie_def Let_def)
  moreover have "stream_from (leaf_listing mp dp cont) leaf_end g off (view t) = (0, leaf_cookie mp ls', view t')"
    using r(4,5) by (simp add: stream_from_def filt split: option.split)
  ultimately show ?thesis using held_release [OF r(3)] r(2) by blast
qed

end

end
