(* ===== verification/Readdir.thy ===== *)
theory Readdir
  imports Path_Find Dir2_Leaf_Read
begin

text \<open>
  \<open>xfs_readdir\<close> over the buffer cache, for callbacks that use the caches themselves: what the callback sees is the
  list of entries of the abstract directory, from the offset on.
\<close>

section \<open>Reading any directory\<close>

definition xfs_readdir ::
    "('b, 's) buf_ops \<Rightarrow> 's inode_reader \<Rightarrow> 's inode_reader \<Rightarrow> xfs_mount \<Rightarrow> ('d \<times> 's) filldir \<Rightarrow>
      int \<Rightarrow> int \<Rightarrow> 'd \<Rightarrow> xfs_inode \<times> 's \<Rightarrow> (int \<times> int \<times> 'd \<times> xfs_inode \<times> 's) option" where
  "xfs_readdir ops iread l2e mp filldir bufsize offset t w =
    (case w of (dp, s) \<Rightarrow>
      if di_mode (i_d dp) AND S_IFDIR = 0 then Some (XFS_ERROR ENOTDIR, offset, t, dp, s)
      else if di_format (i_d dp) = FMT_LOCAL then
        map_option (\<lambda>(rv, offset, t, s). (rv, offset, t, dp, s)) (xfs_dir2_sf_getdents mp dp filldir offset (t, s))
      else do {
        (rval, v, dp, s) \<leftarrow> xfs_dir2_isblock iread mp dp s;
        if rval \<noteq> 0 then Some (rval, offset, t, dp, s)
        else if v then xfs_dir2_block_getdents ops iread l2e mp filldir offset t (dp, s)
        else xfs_dir2_leaf_getdents ops iread l2e mp filldir bufsize offset t (dp, s) })"

section \<open>The listing of a directory\<close>

definition dir_listing :: "xfs_mount \<Rightarrow> xfs_inode \<Rightarrow> dir_content \<Rightarrow> dirent list" where
  "dir_listing mp dp c = (case c of SfDir sd \<Rightarrow> sf_dirents mp dp sd | BlockDir its \<Rightarrow> block_dirents mp its
     | LeafDir cont \<Rightarrow> leaf_listing mp dp cont)"

text \<open>The cookie behind the last entry.\<close>

definition dir_last :: "xfs_mount \<Rightarrow> dir_content \<Rightarrow> int" where
  "dir_last mp c = (case c of LeafDir cont \<Rightarrow> leaf_end | _ \<Rightarrow> dir_end mp)"

text \<open>Short-form directories are read right in version 4 file systems only.\<close>

definition listing_ok :: "xfs_mount \<Rightarrow> dir_content \<Rightarrow> bool" where
  "listing_ok mp c \<longleftrightarrow> geom_ok mp \<and>
     (case c of SfDir sd \<Rightarrow> \<not> sf_v5 mp \<and> sf_offsets_ok mp (sd_entries sd) | _ \<Rightarrow> True)"

lemma listing_cookies:
  assumes "dir_at dev mp dp c" and "listing_ok mp c"
  shows "cookies_ok (dir_listing mp dp c) (dir_last mp c)"
proof (cases c)
  case (SfDir sd)
  then show ?thesis using assms sf_cookies_ok by (auto simp: listing_ok_def dir_listing_def dir_last_def)
next
  case (BlockDir its)
  then show ?thesis
    using assms block_cookies_ok by (auto simp: dir_at_def block_index_ok_def listing_ok_def dir_listing_def dir_last_def)
next
  case (LeafDir cont)
  then show ?thesis using assms(1) leaf_cookies_ok [OF leaf_dir_at, of dev mp dp cont] by (simp add: dir_listing_def dir_last_def)
qed

text \<open>Behind the last entry there is nothing left to deliver.\<close>

lemma listing_end:
  assumes "dir_at dev mp dp c" and "listing_ok mp c" and "dir_last mp c \<le> off"
  shows "filter (\<lambda>x. off \<le> de_cookie x) (dir_listing mp dp c) = []"
  using listing_cookies [OF assms(1,2)] assms(3) by (fastforce simp: cookies_ok_def list_all_iff filter_empty_conv)

section \<open>Reading any directory\<close>

text \<open>
  One call delivers the entries from the offset on until the callback stops it, and gives back every buffer. The
  offset it returns is that of the stream, or the one it was given when that is behind the last entry.
\<close>

context dir_client
begin

lemma readdir_ok:
  assumes at: "dir_at (dev_of os d dev) mp dp c" and l: "listing_ok mp c" and dir: "di_mode (i_d dp) AND S_IFDIR \<noteq> 0"
    and off: "0 \<le> off" "off \<le> leaf_end" and s: "bcache_inv os d R mx s" and room: "int (card {n. R n \<noteq> 0}) + 1 < mx"
    and B: "0 < B" "B \<le> 2 ^ 30" and t: "P t" and E: "set (dir_listing mp dp c) \<subseteq> E"
  shows "\<exists>c' t' s'. xfs_readdir (bcache_buf_ops os dev) iread l2e mp f B off t (dp, s) = Some (0, c', t', dp, s') \<and>
    bcache_inv os d R mx s' \<and> P t' \<and>
    stream_from (dir_listing mp dp c) (max off (dir_last mp c)) g off (view t) = (0, c', view t')"
proof -
  let ?es = "dir_listing mp dp c"
  have o31: "off < 2 ^ 31" using off(2) by (simp add: leaf_end_def)
  have sim: "\<exists>c' t' s'. stream_from ?es (dir_end mp) f off (t, s) = (0, c', t', s') \<and> P t' \<and> bcache_inv os d R' mx s' \<and>
      stream_from ?es (dir_end mp) g off (view t) = (0, c', view t')" if "bcache_inv os d R' mx s" for R' s
    using client_stream [OF E t that] by metis
  have g: "geom_ok mp" using l by (simp add: listing_ok_def)
  have past: "stream_from ?es off g off (view t) = (0, off, view t)" if "dir_last mp c \<le> off"
    using listing_end [OF at l that] by (simp add: stream_from_def)
  show ?thesis
  proof (cases c)
    case (SfDir sd)
    have f: "di_format (i_d dp) = FMT_LOCAL" and st: "sf_stream_ok (mp, dp, sd)"
      using at l SfDir by (auto simp: dir_at_def listing_ok_def sf_stream_ok_def)
    have es: "?es = sf_dirents mp dp sd" and e: "dir_last mp c = dir_end mp" by (simp_all add: dir_listing_def dir_last_def SfDir)
    show ?thesis
    proof (cases "dir_end mp \<le> off")
      case True
      then show ?thesis using past sf_stream_past [OF st True o31, of f "(t, s)"] dir f s t by (simp add: xfs_readdir_def e)
    next
      case False
      then have o: "off < dir_end mp" "max off (dir_end mp) = dir_end mp" by auto
      show ?thesis
        using sim [OF s] sf_stream_get [OF st off(1) o(1), of f "(t, s)"] dir f unfolding e o(2) by (auto simp: xfs_readdir_def es)
    qed
  next
    case (BlockDir its)
    have ok: "block_dir_ok (dev_of os d dev) mp dp its" and f: "di_format (i_d dp) \<noteq> FMT_LOCAL" and r: "dir_ready mp dp"
      and last: "fork_exts dp \<noteq> []" "XFS_FSB_TO_B mp (int (last_block dp)) = int (m_dirblksize mp)"
      using at BlockDir by (auto simp: dir_at_def block_index_ok_def block_dir_ok_def dir_ready_def)
    have es: "?es = block_dirents mp its" and e: "dir_last mp c = dir_end mp" by (simp_all add: dir_listing_def dir_last_def BlockDir)
    have go: "xfs_readdir (bcache_buf_ops os dev) iread l2e mp f B off t (dp, s) =
        xfs_dir2_block_getdents (bcache_buf_ops os dev) iread l2e mp f off t (dp, s)"
      using isblock_ok [OF r, of iread s] last dir f by (simp add: xfs_readdir_def)
    show ?thesis
    proof (cases "dir_end mp \<le> off")
      case True
      then show ?thesis
        unfolding go block_getdents_past [OF ok True o31] using past s t by (simp add: e)
    next
      case False
      then have o: "off < dir_end mp" "max off (dir_end mp) = dir_end mp" by auto
      have ?thesis if x: "dev_of os d dev blk (XFS_FSB_TO_BB mp 1) = Some x"
        and run: "\<And>(ops :: (nat, 'o bcache) buf_ops) iread l2e (f :: ('d \<times> 'o bcache) filldir) t s b s1.
          op_readbuf ops blk (XFS_FSB_TO_BB mp 1) s = (Some b, s1) \<Longrightarrow> op_b_addr ops s1 b = x \<Longrightarrow>
          xfs_dir2_block_getdents ops iread l2e mp f off t (dp, s) =
            Some (case stream_from (block_dirents mp its) (dir_end mp) f off (t, s1) of
              (rv, c, t, s2) \<Rightarrow> (rv, c, t, dp, op_putbuf ops b s2))" for blk x
      proof (rule bcache_hold [OF s room x])
        fix b s1
        assume b: "op_readbuf (bcache_buf_ops os dev) blk (XFS_FSB_TO_BB mp 1) s = (Some b, s1)"
          "op_b_addr (bcache_buf_ops os dev) s1 b = x" "bcache_inv os d (R(b := R b + 1)) mx s1"
          and put: "\<And>s2. bcache_inv os d (R(b := R b + 1)) mx s2 \<Longrightarrow>
            bcache_inv os d R mx (op_putbuf (bcache_buf_ops os dev) b s2)"
        obtain c' t' s' where st: "stream_from ?es (dir_end mp) f off (t, s1) = (0, c', t', s')" "P t'"
          "bcache_inv os d (R(b := R b + 1)) mx s'" "stream_from ?es (dir_end mp) g off (view t) = (0, c', view t')"
          using sim [OF b(3)] by blast
        show ?thesis
          unfolding go run [OF b(1,2)] e o(2) using st(1) [unfolded es] st(2,4) put [OF st(3)] by simp
      qed
      then show ?thesis by (rule block_getdents_run [OF ok off(1) o(1)])
    qed
  next
    case (LeafDir cont)
    have ok: "leaf_dir_ok (dev_of os d dev) mp dp cont" using leaf_dir_at at LeafDir by blast
    have r: "dir_ready mp dp" using ok by (simp add: leaf_dir_ok_def)
    have "fork_exts dp \<noteq> []" "XFS_FSB_TO_B mp (int (last_block dp)) \<noteq> int (m_dirblksize mp)" "di_format (i_d dp) \<noteq> FMT_LOCAL"
      using at LeafDir r by (auto simp: dir_at_def dir_ready_def)
    then have go: "xfs_readdir (bcache_buf_ops os dev) iread l2e mp f B off t (dp, s) =
        xfs_dir2_leaf_getdents (bcache_buf_ops os dev) iread l2e mp f B off t (dp, s)"
      using isblock_ok [OF r, of iread s] dir by (simp add: xfs_readdir_def)
    have es: "?es = leaf_listing mp dp cont" and e: "max off (dir_last mp c) = leaf_end"
      using off(2) by (simp_all add: dir_listing_def dir_last_def LeafDir)
    show ?thesis unfolding go e es by (rule leaf_getdents_ok [OF ok room B off t s E [unfolded es]])
  qed
qed

end

end
