(* ===== verification/Large_Dir.thy ===== *)
theory Large_Dir
  imports Readdir
begin

text \<open>
  Leaf and node directories over the buffer cache: reading them in pieces, and looking names up in them by the leaf
  block or the tree of hashes. Two sample directories share their data blocks, one with a leaf block and one with a tree.
\<close>

section \<open>Reading in pieces\<close>

lemma stream_from_end: "cookies_ok es e \<Longrightarrow> stream_from es e f e t = (0, e, t)"
proof -
  assume "cookies_ok es e"
  then have "filter (\<lambda>x. e \<le> de_cookie x) es = []" by (fastforce simp: cookies_ok_def list_all_iff filter_empty_conv)
  then show ?thesis by (simp add: stream_from_def)
qed

text \<open>\<open>xfs_readdir\<close> takes this way for a directory that does not end behind its first block.\<close>

definition large_dir :: "xfs_mount \<Rightarrow> xfs_inode \<Rightarrow> bool" where
  "large_dir mp dp \<longleftrightarrow> di_mode (i_d dp) AND S_IFDIR \<noteq> 0 \<and> fork_exts dp \<noteq> [] \<and>
     XFS_FSB_TO_B mp (int (bm_end (last (fork_exts dp)))) \<noteq> int (m_dirblksize mp)"

lemma readdir_large:
  assumes r: "dir_ready mp dp" and l: "large_dir mp dp"
  shows "xfs_readdir ops iread l2e mp f B off t (dp, s) = xfs_dir2_leaf_getdents ops iread l2e mp f B off t (dp, s)"
proof -
  have "di_format (i_d dp) \<noteq> FMT_LOCAL" using r by (auto simp: dir_ready_def)
  then show ?thesis using isblock_ok [OF r, of iread s] l by (simp add: xfs_readdir_def large_dir_def)
qed

interpretation pc: dir_client os d mx "pure_fill g" "\<lambda>_. True" "\<lambda>t. t" g UNIV
  for os d mx g
  by unfold_locales (auto simp: pure_fill_def split: prod.split)

lemma leaf_pure_run:
  assumes "leaf_dir_ok (dev_of os d dev) mp dp cont \<and> large_dir mp dp" and "int (card {n. R n \<noteq> 0}) + 1 < mx"
    and "0 < B" and "B \<le> 2 ^ 30" and "0 \<le> off" and "off \<le> leaf_end" and "bcache_inv os d R mx s"
  shows "\<exists>s'. bcache_inv os d R mx s' \<and> xfs_readdir (bcache_buf_ops os dev) iread l2e mp (pure_fill f) B off t (dp, s) =
    Some (delivers (stream_from (leaf_listing mp dp cont) leaf_end f off t) (dp, s'))"
proof -
  have ok: "leaf_dir_ok (dev_of os d dev) mp dp cont" and r: "dir_ready mp dp" using assms(1) by (auto simp: leaf_dir_ok_def)
  obtain c' t' s' where "xfs_dir2_leaf_getdents (bcache_buf_ops os dev) iread l2e mp (pure_fill f) B off t (dp, s) = Some (0, c', t', dp, s')"
    "bcache_inv os d R mx s'" "stream_from (leaf_listing mp dp cont) leaf_end f off t = (0, c', t')"
    using pc.leaf_getdents_ok [OF ok assms(2-6) TrueI assms(7), of iread l2e f t] by auto
  then show ?thesis unfolding readdir_large [OF r conjunct2 [OF assms(1)]] by (auto simp: delivers_def)
qed

interpretation lds: dir_stream
  "\<lambda>(mp, dp, cont) f. xfs_readdir (bcache_buf_ops os dev) iread l2e mp (pure_fill f) B"
  "\<lambda>(mp, dp, cont) w. leaf_dir_ok (dev_of os d dev) mp dp cont \<and> large_dir mp dp \<and> fst w = dp \<and> bcache_inv os d R mx (snd w) \<and>
     int (card {n. R n \<noteq> 0}) + 1 < mx \<and> 0 < B \<and> B \<le> 2 ^ 30"
  "\<lambda>(mp, dp, cont). leaf_listing mp dp cont" "\<lambda>(mp, dp, cont). leaf_end"
  for os :: "'o dev_ops" and dev iread l2e B d R mx
proof (unfold_locales, goal_cases)
  case (1 x w)
  then show ?case using leaf_cookies_ok by (auto split: prod.splits)
next
  case (2 x w off f s)
  obtain mp dp cont where x: "x = (mp, dp, cont)" by (cases x)
  obtain b where w: "w = (dp, b)" using 2(1) by (cases w) (simp add: x)
  show ?case
    using leaf_pure_run [where os = os and dev = dev and d = d and R = R and mx = mx and s = b and B = B and off = off
        and iread = iread and l2e = l2e and f = f and t = s and mp = mp and dp = dp and cont = cont] 2 by (auto simp: x w)
next
  case (3 x w f s)
  obtain mp dp cont where x: "x = (mp, dp, cont)" by (cases x)
  obtain b where w: "w = (dp, b)" using 3 by (cases w) (simp add: x)
  have st: "stream_from (leaf_listing mp dp cont) leaf_end f leaf_end s = (0, leaf_end, s)"
    by (rule stream_from_end [OF leaf_cookies_ok]) (use 3 in \<open>auto simp: x\<close>)
  have "0 \<le> leaf_end" by (simp add: leaf_end_def)
  then show ?case
    using leaf_pure_run [where os = os and dev = dev and d = d and R = R and mx = mx and s = b and B = B and off = leaf_end
        and iread = iread and l2e = l2e and f = f and t = s and mp = mp and dp = dp and cont = cont] 3 st
    by (auto simp: x w delivers_def)
next
  case (4 x w)
  then show ?case by (simp add: leaf_end_def split: prod.splits)
qed

text \<open>
  C14: Reading a leaf or node directory through the buffer cache in buffers of any positive size, each call resuming at
  the cookie the last one returned, ends and delivers every live entry of every data block exactly
  once, in the order of the directory; holes in the directory are skipped, the cache keeps its
  invariant and every buffer is given back.
\<close>

theorem leaf_getdents_resumes:
  assumes "leaf_dir_ok (dev_of os d dev) mp dp cont" and "large_dir mp dp" and "bcache_inv os d R mx s"
    and "int (card {n. R n \<noteq> 0}) + 1 < mx" and "0 < bufsize" and "bufsize \<le> 2 ^ 30" and "0 < k"
  shows "\<exists>s'. read_chunks (\<lambda>f. xfs_readdir (bcache_buf_ops os dev) iread l2e mp (pure_fill f) bufsize) k
      (length (leaf_listing mp dp cont) + 2) 0 (dp, s) = Some (leaf_listing mp dp cont, dp, s') \<and> bcache_inv os d R mx s'"
  using lds.read_all [where x = "(mp, dp, cont)" and w = "(dp, s)" and os = os and dev = dev and d = d and R = R
      and mx = mx and k = k and iread = iread and l2e = l2e and B = bufsize] assms by auto

section \<open>Lookup\<close>

text \<open>
  C16: In a leaf directory whose leaf block indexes its entries by hash, the lookup by hash finds a name exactly when
  the listing of the directory has it, with the inode number of that entry, however many entries share the
  hash; else it answers \<open>ENOENT\<close>. Leaf and data buffers are given back.
\<close>

theorem leaf_lookup_correct:
  assumes "leaf1_ok (dev_of os d dev) mp dp cont" and "\<not> xfs_sb_version_hasasciici (m_sb mp)"
    and "bcache_room os d R mx s" and "a_cmpresult args = XFS_CMP_DIFFERENT"
  shows "\<exists>s'. bcache_room os d R mx s' \<and>
    xfs_dir2_leaf_lookup alloc_ok (bcache_buf_ops os dev) iread l2e mp dp (hashname mp (a_name args)) args s =
    Some (case dir_find (leaf_listing mp dp cont) (a_name args) of
        None \<Rightarrow> (errno_code ENOENT, args, dp, s')
      | Some ino \<Rightarrow> (errno_code EEXIST, args\<lparr>a_cmpresult := XFS_CMP_EXACT, a_inumber := ino\<rparr>, dp, s'))"
  by (rule bcp.leaf1_lookup_ok [OF assms(3,1,2,4)])

text \<open>
  C15: In a node directory whose hash tree indexes its entries, the lookup descends to the first leaf that can have
  the hash, goes on from leaf to leaf while the hash does, and finds a name exactly when the listing of the
  directory has it, with the inode number of that entry; else it answers \<open>ENOENT\<close>. It ends, and
  the blocks of every level and the data block are given back.
\<close>

theorem node_lookup_correct:
  assumes "nodedir_ok (dev_of os d dev) mp dp cont" and "\<not> xfs_sb_version_hasasciici (m_sb mp)"
    and "bcache_room os d R mx s" and "a_cmpresult args = XFS_CMP_DIFFERENT"
  shows "\<exists>s'. bcache_room os d R mx s' \<and>
    xfs_dir2_node_lookup alloc_ok (bcache_buf_ops os dev) iread l2e mp dp (hashname mp (a_name args)) args s =
    Some (case dir_find (leaf_listing mp dp cont) (a_name args) of
        None \<Rightarrow> (errno_code ENOENT, args, dp, s')
      | Some ino \<Rightarrow> (errno_code EEXIST, args\<lparr>a_cmpresult := XFS_CMP_EXACT, a_inumber := ino\<rparr>, dp, s'))"
  by (rule bcp.node_lookup_ok [OF assms(3,1,2,4)])

section \<open>Sample directories\<close>

text \<open>
  Data blocks at file blocks 0 and 2, with the entries \<open>.\<close> and \<open>a\<close>, and a hole in between. The index is at file block
  8388608, the first one of the leaf part: one leaf block, or a root with two leaves.
\<close>

definition data_head :: "8 word \<Rightarrow> 8 word \<Rightarrow> bytes" where
  "data_head c ino = [0x58, 0x44, 0x32, 0x44, 0, 0, 0, 0, 0, 0, 0, 0, 0, 0, 0, 0, 0, 0, 0, 0, 0, 0, 0, ino, 1, c, 0, 0, 0, 0, 0, 0,
     0xff, 0xff, 0x0f, 0xe0]"

definition index_block :: "nat \<Rightarrow> (nat \<times> nat) list \<Rightarrow> bytes" where
  "index_block magic lf = replicate 8 0 @ be_bytes 2 magic @ [0, 0] @ be_bytes 2 (length lf) @ [0, 0] @
     concat (map (\<lambda>(h, a). be_bytes 4 h @ be_bytes 4 a) lf)"

definition leaf_os_at :: "int \<Rightarrow> bytes" where
  "leaf_os_at off = (if off = 409600 then data_head 46 128 else if off = 417792 then data_head 97 131
     else if off = 421888 then index_block 0xd2f1 [(46, 2), (97, 1026)]
     else if off = 425984 then index_block XFS_DA_NODE_MAGIC [(46, 8388609), (97, 8388610)]
     else if off = 430080 then index_block XFS_DIR2_LEAFN_MAGIC [(46, 2)]
     else index_block XFS_DIR2_LEAFN_MAGIC [(97, 1026)])"

definition leaf_os :: "unit dev_ops" where
  "leaf_os = sample_os \<lparr> pread64 := (\<lambda>fd off n d. Inr (take (nat n) (leaf_os_at off @ replicate (nat n) 0))) \<rparr>"

definition sample_big_dir :: "nat \<Rightarrow> nat \<Rightarrow> xfs_inode" where
  "sample_big_dir y n = (let ip = sample_inode 0x41ED FMT_EXTENTS [] in
     ip \<lparr> i_df := (i_df ip) \<lparr> if_extents_read := True,
       if_extents := [sample_rec 0 100 1, sample_rec 2 102 1, sample_rec 8388608 y n] \<rparr> \<rparr>)"

abbreviation sample_leaf_dir :: xfs_inode where "sample_leaf_dir \<equiv> sample_big_dir 103 1"
abbreviation sample_node_dir :: xfs_inode where "sample_node_dir \<equiv> sample_big_dir 104 3"

definition sample_cont :: "nat \<Rightarrow> data_item list" where
  "sample_cont b = (if b = 0 then [DEntry [46] 128, DFree 4064] else [DEntry [97] 131, DFree 4064])"

lemma leaf_os_ok: "os_ok leaf_os ()"
  by (auto simp: os_ok_def leaf_os_def sample_os_def)

lemma data_head_items:
  "da_magic_ok (data_head c ino @ replicate 4060 0) = Some True"
  "items_at (data_head c ino @ replicate 4060 0) 16 [DEntry [c] (unat ino), DFree 4064] 4096"
proof -
  have n: "length (data_head c ino) = 36" by (simp add: data_head_def)
  have rd: "rd_be n off (data_head c ino @ replicate 4060 0) = rd_be n off (data_head c ino)" if "off + n \<le> 36" for n off
    by (rule rd_be_prefix) (simp add: n that)
  have b: "rd_bytes 25 1 (data_head c ino @ replicate 4060 0) = Some [c]"
    by (rule rd_bytes_at [where pre = "take 25 (data_head c ino)" and post = "drop 26 (data_head c ino) @ replicate 4060 0"])
      (simp_all add: data_head_def)
  have f: "rd_bytes 0 4 (data_head c ino) = Some [0x58, 0x44, 0x32, 0x44]" "rd_bytes 8 2 (data_head c ino) = Some [0, 0]"
    "rd_bytes 16 2 (data_head c ino) = Some [0, 0]" "rd_bytes 16 8 (data_head c ino) = Some [0, 0, 0, 0, 0, 0, 0, ino]"
    "rd_bytes 24 1 (data_head c ino) = Some [1]" "rd_bytes 32 2 (data_head c ino) = Some [0xff, 0xff]"
    "rd_bytes 34 2 (data_head c ino) = Some [0x0f, 0xe0]"
    by (simp_all add: rd_bytes_def chunk_def data_head_def)
  have v: "rd_be 4 0 (data_head c ino) = Some 0x58443244" "rd_be 2 8 (data_head c ino) = Some 0"
    "rd_be 2 16 (data_head c ino) = Some 0" "rd_be 8 16 (data_head c ino) = Some (unat ino)" "rd_be 1 24 (data_head c ino) = Some 1"
    "rd_be 2 32 (data_head c ino) = Some 0xffff" "rd_be 2 34 (data_head c ino) = Some 4064"
    by (simp_all add: rd_be_def f [unfolded One_nat_def] be_val_def)
  show "da_magic_ok (data_head c ino @ replicate 4060 0) = Some True"
    by (simp add: da_magic_ok_def rd v da_magics32_def)
  have sz: "item_size (DEntry [c] (unat ino)) = 16" by (simp add: xfs_dir2_data_entsize_def)
  show "items_at (data_head c ino @ replicate 4060 0) 16 [DEntry [c] (unat ino), DFree 4064] 4096"
    unfolding items_at.simps sz
    using rd b v by (simp add: item_at_def data_freetag_def data_inumber_def data_namelen_def data_name_def data_unused_length_def)
qed

text \<open>Index blocks hold what they were made of.\<close>

lemma index_block_holds:
  assumes "\<forall>(h, a) \<in> set lf. h < 2 ^ 32 \<and> a < 2 ^ 32" and "length lf < 2 ^ 16" and "magic < 2 ^ 16" and "magic \<in> set da_magics16"
  shows "leaf_holds (index_block magic lf @ z) lf" and "da_magic (index_block magic lf @ z) = Some magic"
    and "da_magic_ok (index_block magic lf @ z) = Some True"
proof -
  let ?d = "index_block magic lf @ z" and ?e = "\<lambda>(h, a). be_bytes 4 h @ be_bytes 4 a"
  let ?hd = "replicate 8 0 @ be_bytes 2 magic @ [0, 0] @ be_bytes 2 (length lf) @ [0, 0]"
  have m: "rd_be 2 8 ?d = Some magic"
    by (rule rd_be_at [where pre = "replicate 8 0"]) (use assms(3) in \<open>simp_all add: index_block_def\<close>)
  have "rd_be 2 12 ?d = Some (length lf)"
    by (rule rd_be_at [where pre = "replicate 8 0 @ be_bytes 2 magic @ [0, 0]"]) (use assms(2) in \<open>simp_all add: index_block_def\<close>)
  then have c: "leaf_count ?d = Some (length lf)" by (simp add: leaf_count_def)
  have el: "length (concat (map ?e xs)) = 8 * length xs" for xs by (induction xs) auto
  have "leaf_hashval ?d 16 (int i) = Some (fst (lf ! i)) \<and> leaf_address ?d 16 (int i) = Some (snd (lf ! i))" if i: "i < length lf" for i
  proof -
    obtain h a where ha: "lf ! i = (h, a)" by (cases "lf ! i")
    then have b: "h < 2 ^ 32" "a < 2 ^ 32" using assms(1) nth_mem [OF i] by auto
    have "concat (map ?e lf) = concat (map ?e (take i lf)) @ (be_bytes 4 h @ be_bytes 4 a) @ concat (map ?e (drop (Suc i) lf))"
      by (subst id_take_nth_drop [OF i]) (simp add: ha)
    then have d: "?d = (?hd @ concat (map ?e (take i lf))) @ be_bytes 4 h @ be_bytes 4 a @ concat (map ?e (drop (Suc i) lf)) @ z"
      "?d = (?hd @ concat (map ?e (take i lf)) @ be_bytes 4 h) @ be_bytes 4 a @ concat (map ?e (drop (Suc i) lf)) @ z"
      by (simp_all add: index_block_def)
    have n: "length (take i lf) = i" using i by simp
    have "rd_be 4 (16 + 8 * i) ?d = Some h" by (rule rd_be_at [OF d(1)]) (use b n el in simp_all)
    moreover have "rd_be 4 (20 + 8 * i) ?d = Some a" by (rule rd_be_at [OF d(2)]) (use b n el in simp_all)
    moreover have "nat (16 + 8 * int i) = 16 + 8 * i" "nat (16 + 8 * int i + 4) = 20 + 8 * i" by simp_all
    ultimately show ?thesis by (simp add: leaf_hashval_def leaf_address_def Let_def ha)
  qed
  then show "leaf_holds ?d lf" using c by (simp add: leaf_holds_def)
  show "da_magic ?d = Some magic" using m by (simp add: da_magic_def)
  have zeros: "replicate 8 (0 :: u8) = [0, 0, 0, 0, 0, 0, 0, 0]" by (simp add: numeral_eq_Suc)
  have "rd_bytes 0 4 ?d = Some [0, 0, 0, 0]" by (rule rd_bytes_at [where pre = "[]"]) (simp_all add: index_block_def zeros)
  then have "rd_be 4 0 ?d = Some 0" by (simp add: rd_be_def be_val_def)
  then show "da_magic_ok ?d = Some True" using m assms(4) by (simp add: da_magic_ok_def)
qed

lemma sample_big_exts:
  assumes "y < 2 ^ 52" and "n < 2 ^ 21"
  shows "fork_exts (sample_big_dir y n) = [\<lparr> bm_off = 0, bm_blk = 100, bm_cnt = 1, bm_state = XFS_EXT_NORM \<rparr>,
     \<lparr> bm_off = 2, bm_blk = 102, bm_cnt = 1, bm_state = XFS_EXT_NORM \<rparr>, \<lparr> bm_off = 8388608, bm_blk = y, bm_cnt = n, bm_state = XFS_EXT_NORM \<rparr>]"
  using assms by (simp add: fork_exts_def sample_big_dir_def Let_def bmap_of_sample)

lemma sample_leafblk: "leafblk sample_mp = 8388608" "m_dirleafblk sample_mp = 8388608"
  by (simp_all add: leafblk_def)
    (simp add: sample_mp_def sample_mount_def xfs_dir_mount_def Let_def xfs_mount_common_def sample_sb_def geom_simps)

lemma sample_big_mapped:
  assumes "y < 2 ^ 52" and "n < 2 ^ 21"
  shows "mapped (fork_exts (sample_big_dir y n)) 0 (leafblk sample_mp) = [(0, 100), (2, 102)]"
proof -
  let ?m = "mapped (fork_exts (sample_big_dir y n))"
  have lk: "bmap_lookup (fork_exts (sample_big_dir y n)) x = (if x = 0 then Some 100 else if x = 2 then Some 102 else None)"
    if "x < 8388608" for x
    using that by (auto simp: bmap_lookup_def sample_big_exts [OF assms])
  have "?m 0 (leafblk sample_mp) = ?m 0 3 @ ?m 3 (leafblk sample_mp)" by (rule mapped_split) (simp_all add: leafblk_def)
  moreover have "?m 3 (leafblk sample_mp) = []"
  proof -
    have "(u, v) \<notin> set (?m 3 (leafblk sample_mp))" for u v by (auto simp: mapped_set lk sample_leafblk)
    then show ?thesis by (metis list.set_intros(1) neq_Nil_conv prod.exhaust)
  qed
  moreover have "?m 0 3 = [(0, 100), (2, 102)]" by (simp add: mapped_def List.map_filter_def lk upt_rec)
  ultimately show ?thesis by simp
qed

text \<open>What the device holds at the blocks of the directories.\<close>

lemma leaf_os_block:
  assumes "LIBXFS_BBTOOFF64 a = off" and "x = leaf_os_at off" and "length x \<le> 4096"
  shows "dev_of leaf_os () 0 a (XFS_FSB_TO_BB sample_mp 1) = Some (x @ replicate (4096 - length x) 0)"
proof -
  have "BBTOB (XFS_FSB_TO_BB sample_mp 1) = 4096" by (simp add: XFS_FSB_TO_BB_def BBTOB_def BBSHIFT_def)
  then show ?thesis using assms by (simp add: dev_of_def leaf_os_def)
qed

lemma sample_addrs:
  "LIBXFS_BBTOOFF64 (XFS_FSB_TO_DADDR sample_mp 100) = 409600" "LIBXFS_BBTOOFF64 (XFS_FSB_TO_DADDR sample_mp 102) = 417792"
  "LIBXFS_BBTOOFF64 (XFS_FSB_TO_DADDR sample_mp 103) = 421888" "LIBXFS_BBTOOFF64 (XFS_FSB_TO_DADDR sample_mp 104) = 425984"
  "LIBXFS_BBTOOFF64 (XFS_FSB_TO_DADDR sample_mp 105) = 430080" "LIBXFS_BBTOOFF64 (XFS_FSB_TO_DADDR sample_mp 106) = 434176"
  by (simp_all add: XFS_FSB_TO_DADDR_def XFS_FSB_TO_AGNO_def XFS_FSB_TO_AGBNO_def XFS_AGB_TO_DADDR_def XFS_FSB_TO_BB_def LIBXFS_BBTOOFF64_def)

lemma data_head_length: "length (data_head c ino) = 36"
  by (simp add: data_head_def)

lemma index_block_length: "length (index_block m lf) = 16 + 8 * length lf"
proof -
  have "length (concat (map (\<lambda>(h, a). be_bytes 4 h @ be_bytes 4 a) xs)) = 8 * length xs" for xs by (induction xs) auto
  then show ?thesis by (simp add: index_block_def)
qed

lemma sample_big_dir_ok:
  assumes y: "y = 103 \<and> n = 1 \<or> y = 104 \<and> n = 3"
  shows "leaf_dir_ok (dev_of leaf_os () 0) sample_mp (sample_big_dir y n) sample_cont" "large_dir sample_mp (sample_big_dir y n)"
    "leaf_listing sample_mp (sample_big_dir y n) sample_cont =
      [\<lparr> de_name = [46], de_cookie = 2, de_ino = 128, de_type = DT_UNKNOWN \<rparr>, \<lparr> de_name = [97], de_cookie = 1026, de_ino = 131, de_type = DT_UNKNOWN \<rparr>]"
proof -
  have b: "y < 2 ^ 52" "n < 2 ^ 21" using y by auto
  have "data_block (dev_of leaf_os () 0) sample_mp 100 (sample_cont 0)"
    using data_head_items [of 46 128] leaf_os_block [OF sample_addrs(1), of "data_head 46 128"]
    by (simp add: data_block_def fsb_ok_def sample_cont_def data_head_length leaf_os_at_def del: items_at.simps)
  moreover have "data_block (dev_of leaf_os () 0) sample_mp 102 (sample_cont 2)"
    using data_head_items [of 97 131] leaf_os_block [OF sample_addrs(2), of "data_head 97 131"]
    by (simp add: data_block_def fsb_ok_def sample_cont_def data_head_length leaf_os_at_def del: items_at.simps)
  moreover have "leaf_geom sample_mp" by (simp add: leaf_geom_def sample_geom)
  moreover have "dir_ready sample_mp (sample_big_dir y n)"
  proof -
    have "exts_ok (fork_exts (sample_big_dir y n))"
      unfolding sample_big_exts [OF b] using not_nullstartblock y by (auto simp: exts_ok_def)
    then show ?thesis by (simp add: dir_ready_def) (simp add: sample_big_dir_def Let_def)
  qed
  ultimately show "leaf_dir_ok (dev_of leaf_os () 0) sample_mp (sample_big_dir y n) sample_cont"
    by (simp add: leaf_dir_ok_def sample_big_mapped [OF b] blk_byte_def)
  show "large_dir sample_mp (sample_big_dir y n)"
    unfolding large_dir_def sample_big_exts [OF b]
    using y by (auto simp: sample_big_dir_def Let_def sample_inode_def XFS_FSB_TO_B_def S_IFDIR_def)
  show "leaf_listing sample_mp (sample_big_dir y n) sample_cont =
      [\<lparr> de_name = [46], de_cookie = 2, de_ino = 128, de_type = DT_UNKNOWN \<rparr>, \<lparr> de_name = [97], de_cookie = 1026, de_ino = 131, de_type = DT_UNKNOWN \<rparr>]"
    by (simp add: leaf_listing_def sample_big_mapped [OF b] leaf_entries_def leaf_dirent_def sample_cont_def blk_byte_def)
qed

theorem leaf_getdents_resumes_witness:
  "map_option (map (\<lambda>e. (de_name e, de_cookie e, de_ino e)) \<circ> fst) (read_chunks (\<lambda>f. xfs_readdir (bcache_buf_ops leaf_os 0)
     (\<lambda>ip s. Some (5, ip, s)) (\<lambda>ip s. Some (5, ip, s)) sample_mp (pure_fill f) 1024000) 1 4 0 (sample_leaf_dir, bcache_init 1024 ())) =
   Some [([46], 2, 128), ([97], 1026, 131)]"
proof -
  have y: "(103 :: nat) = 103 \<and> (1 :: nat) = 1 \<or> (103 :: nat) = 104 \<and> (1 :: nat) = 3" by simp
  note ok = sample_big_dir_ok [OF y]
  have l: "length (leaf_listing sample_mp sample_leaf_dir sample_cont) + 2 = 4" unfolding ok(3) by simp
  show ?thesis
    using leaf_getdents_resumes [OF ok(1,2) sample_bcache [OF leaf_os_ok], of 1024000 1
        "\<lambda>ip s. Some (5, ip, s)" "\<lambda>ip s. Some (5, ip, s)", unfolded l]
    unfolding ok(3) by (auto simp del: read_chunks.simps)
qed

section \<open>The lookups at the samples\<close>

lemma sample_index:
  assumes "leaf_listing sample_mp dp sample_cont =
      [\<lparr> de_name = [46], de_cookie = 2, de_ino = 128, de_type = DT_UNKNOWN \<rparr>, \<lparr> de_name = [97], de_cookie = 1026, de_ino = 131, de_type = DT_UNKNOWN \<rparr>]"
  shows "dir_index sample_mp (leaf_listing sample_mp dp sample_cont) [(46, 2), (97, 1026)]"
proof -
  have "hashname sample_mp [46] = 46" "hashname sample_mp [97] = 97"
    by (simp_all add: hashname_def xfs_sb_version_hasasciici_def XFS_SB_VERSION_NUM_def xfs_da_hashname_def rol32_def)
  then show ?thesis by (simp add: assms dir_index_def index_sound_def)
qed

definition lookup_args :: da_args where
  "lookup_args = \<lparr> a_name = [97], a_inumber = 0, a_cmpresult = XFS_CMP_DIFFERENT, a_cilookup = False, a_justcheck = False,
     a_total = 0, a_value = None \<rparr>"

lemma lookup_args_simps [simp]: "a_name lookup_args = [97]" "a_cmpresult lookup_args = XFS_CMP_DIFFERENT"
  by (simp_all add: lookup_args_def)

lemma lookup_hash: "hashname sample_mp (a_name lookup_args) = 97"
  by (simp add: hashname_def xfs_sb_version_hasasciici_def XFS_SB_VERSION_NUM_def xfs_da_hashname_def rol32_def)

lemma sample_exact: "\<not> xfs_sb_version_hasasciici (m_sb sample_mp)"
  by (simp add: xfs_sb_version_hasasciici_def XFS_SB_VERSION_NUM_def)

text \<open>An index block of a sample directory, as a block of the leaf part.\<close>

lemma sample_da_block:
  assumes y: "y = 103 \<and> n = 1 \<or> y = 104 \<and> n = 3" and b: "8388608 \<le> b" "b < 8388608 + n"
    and d: "dev_of leaf_os () 0 (XFS_FSB_TO_DADDR sample_mp (int (y + (b - 8388608)))) (XFS_FSB_TO_BB sample_mp 1) =
      Some (index_block magic lf @ z)"
    and ok: "\<forall>(h, a) \<in> set lf. h < 2 ^ 32 \<and> a < 2 ^ 32" "length lf < 2 ^ 16" "magic < 2 ^ 16" "magic \<in> set da_magics16" "lf \<noteq> []"
  shows "da_block (dev_of leaf_os () 0) sample_mp (sample_big_dir y n) b magic lf (index_block magic lf @ z)"
proof -
  have "y < 2 ^ 52" "n < 2 ^ 21" using y by auto
  then have "bmap_lookup (fork_exts (sample_big_dir y n)) b = Some (y + (b - 8388608))"
    using b by (simp add: bmap_lookup_def sample_big_exts)
  then have "dir_daddr sample_mp (sample_big_dir y n) b = Some (XFS_FSB_TO_DADDR sample_mp (int (y + (b - 8388608))))"
    by (simp add: dir_daddr_def)
  then show ?thesis using d index_block_holds [OF ok(1-4)] ok(5) unfolding da_block_def by blast
qed

lemma sample_magics: "0xd2f1 \<in> set da_magics16" "XFS_DA_NODE_MAGIC \<in> set da_magics16" "XFS_DIR2_LEAFN_MAGIC \<in> set da_magics16"
  "XFS_DA_NODE_MAGIC < 2 ^ 16" "XFS_DIR2_LEAFN_MAGIC < 2 ^ 16"
  by (simp_all add: da_magics16_def XFS_DA_NODE_MAGIC_def XFS_DIR2_LEAFN_MAGIC_def)

theorem leaf_lookup_correct_witness:
  "\<exists>s'. xfs_dir2_leaf_lookup True (bcache_buf_ops leaf_os 0) (\<lambda>ip s. Some (5, ip, s)) (\<lambda>ip s. Some (5, ip, s)) sample_mp sample_leaf_dir
     97 lookup_args (bcache_init 1024 ()) =
   Some (errno_code EEXIST, lookup_args\<lparr>a_cmpresult := XFS_CMP_EXACT, a_inumber := 131\<rparr>, sample_leaf_dir, s')"
proof -
  have y: "(103 :: nat) = 103 \<and> (1 :: nat) = 1 \<or> (103 :: nat) = 104 \<and> (1 :: nat) = 3" by simp
  note ok = sample_big_dir_ok [OF y]
  have "da_block (dev_of leaf_os () 0) sample_mp sample_leaf_dir 8388608 0xd2f1 [(46, 2), (97, 1026)]
      (index_block 0xd2f1 [(46, 2), (97, 1026)] @ replicate 4064 0)"
    by (rule sample_da_block [OF y])
      (use leaf_os_block [OF sample_addrs(3), of "index_block 0xd2f1 [(46, 2), (97, 1026)]"] sample_magics in
        \<open>simp_all add: index_block_length leaf_os_at_def\<close>)
  then have "leaf1_ok (dev_of leaf_os () 0) sample_mp sample_leaf_dir sample_cont"
    using ok(1) sample_index [OF ok(3)] unfolding leaf1_ok_def da_block_def sample_leafblk by auto
  from leaf_lookup_correct [OF this sample_exact sample_room [OF leaf_os_ok] lookup_args_simps(2), where alloc_ok = True
      and iread = "\<lambda>ip s. Some (5, ip, s)" and l2e = "\<lambda>ip s. Some (5, ip, s)"]
  show ?thesis unfolding ok(3) lookup_hash by (auto simp: dir_find_def)
qed

theorem node_lookup_correct_witness:
  "\<exists>s'. xfs_dir2_node_lookup True (bcache_buf_ops leaf_os 0) (\<lambda>ip s. Some (5, ip, s)) (\<lambda>ip s. Some (5, ip, s)) sample_mp sample_node_dir
     97 lookup_args (bcache_init 1024 ()) =
   Some (errno_code EEXIST, lookup_args\<lparr>a_cmpresult := XFS_CMP_EXACT, a_inumber := 131\<rparr>, sample_node_dir, s')"
proof -
  have y: "(104 :: nat) = 103 \<and> (3 :: nat) = 1 \<or> (104 :: nat) = 104 \<and> (3 :: nat) = 3" by simp
  note ok = sample_big_dir_ok [OF y]
  let ?cs = "[(46, DLeaf 8388609 [(46, 2)]), (97, DLeaf 8388610 [(97, 1026)])]" and ?dev = "dev_of leaf_os () 0"
  have root: "da_block ?dev sample_mp sample_node_dir 8388608 XFS_DA_NODE_MAGIC [(46, 8388609), (97, 8388610)]
      (index_block XFS_DA_NODE_MAGIC [(46, 8388609), (97, 8388610)] @ replicate 4064 0)"
    by (rule sample_da_block [OF y])
      (use leaf_os_block [OF sample_addrs(4), of "index_block XFS_DA_NODE_MAGIC [(46, 8388609), (97, 8388610)]"] sample_magics in
        \<open>simp_all add: index_block_length leaf_os_at_def\<close>)
  have l1: "da_block ?dev sample_mp sample_node_dir 8388609 XFS_DIR2_LEAFN_MAGIC [(46, 2)]
      (index_block XFS_DIR2_LEAFN_MAGIC [(46, 2)] @ replicate 4072 0)"
    by (rule sample_da_block [OF y])
      (use leaf_os_block [OF sample_addrs(5), of "index_block XFS_DIR2_LEAFN_MAGIC [(46, 2)]"] sample_magics in
        \<open>simp_all add: index_block_length leaf_os_at_def\<close>)
  have l2: "da_block ?dev sample_mp sample_node_dir 8388610 XFS_DIR2_LEAFN_MAGIC [(97, 1026)]
      (index_block XFS_DIR2_LEAFN_MAGIC [(97, 1026)] @ replicate 4072 0)"
    by (rule sample_da_block [OF y])
      (use leaf_os_block [OF sample_addrs(6), of "index_block XFS_DIR2_LEAFN_MAGIC [(97, 1026)]"] sample_magics in
        \<open>simp_all add: index_block_length leaf_os_at_def\<close>)
  have "da_at ?dev sample_mp sample_node_dir (Suc 0) (DNode 8388608 ?cs)"
    by (rule da_at.node) (use root l1 l2 in \<open>auto simp: last_hash_def intro: da_at.leaf\<close>)
  moreover have "dir_index sample_mp (leaf_listing sample_mp sample_node_dir sample_cont) (tree_entries (DNode 8388608 ?cs))"
    using sample_index [OF ok(3)] by simp
  ultimately have "nodedir_ok ?dev sample_mp sample_node_dir sample_cont"
    unfolding nodedir_ok_def sample_leafblk using ok(1)
    by (intro conjI exI [of _ "Suc 0"] exI [of _ "DNode 8388608 ?cs"]) (simp_all add: XFS_DA_NODE_MAXDEPTH_def)
  from node_lookup_correct [OF this sample_exact sample_room [OF leaf_os_ok] lookup_args_simps(2), where alloc_ok = True
      and iread = "\<lambda>ip s. Some (5, ip, s)" and l2e = "\<lambda>ip s. Some (5, ip, s)"]
  show ?thesis unfolding ok(3) lookup_hash by (auto simp: dir_find_def)
qed

end
