(* ===== verification/Fuse_Ops.thy ===== *)
theory Fuse_Ops
  imports Readdir
begin

text \<open>
  The operations fuse-xfs offers to the FUSE library (fuse/fuse_xfs.c) and \<open>xfs_stat\<close> and the mode tests of
  xfsutil/xfsutil.c. A session is a sequence of requests as the kernel sends them: \<open>read\<close> and \<open>release\<close> name
  handles that \<open>open\<close> returned and that are not released yet. The invariant of the session counts the references
  the handles hold; the replies are what the tree on the device says. \<open>init\<close> and \<open>destroy\<close>, which hand over and
  close the mount, are left out. A session serves one request after another: the threads of the default loop
  of \<open>fuse_main\<close>, and the mutexes they share, are not modelled.
\<close>

section \<open>Attributes\<close>

text \<open>The fields hold the values assigned to them, before any narrowing to the type the platform gives a field.\<close>

record stat =
  st_dev :: nat
  st_mode :: nat
  st_nlink :: nat
  st_ino :: nat
  st_uid :: nat
  st_gid :: nat
  st_rdev :: nat
  st_atimespec :: timestamp
  st_mtimespec :: timestamp
  st_ctimespec :: timestamp
  st_birthtimespec :: timestamp
  st_size :: int
  st_blocks :: nat
  st_blksize :: nat
  st_flags :: nat
  st_gen :: nat

definition xfs_stat :: "xfs_inode \<Rightarrow> int \<times> stat" where
  "xfs_stat ip = (let d = i_d ip in (0, \<lparr> st_dev = 0, st_mode = di_mode d, st_nlink = di_nlink d, st_ino = i_ino ip,
     st_uid = di_uid d, st_gid = di_gid d, st_rdev = 0, st_atimespec = di_atime d, st_mtimespec = di_mtime d,
     st_ctimespec = di_ctime d, st_birthtimespec = di_ctime d, st_size = di_size d, st_blocks = di_nblocks d,
     st_blksize = 4096, st_flags = di_flags d, st_gen = di_gen d \<rparr>))"

definition xfs_is_dir :: "xfs_inode \<Rightarrow> bool" where "xfs_is_dir ip \<longleftrightarrow> S_ISDIR (di_mode (i_d ip))"
definition xfs_is_link :: "xfs_inode \<Rightarrow> bool" where "xfs_is_link ip \<longleftrightarrow> S_ISLNK (di_mode (i_d ip))"
definition xfs_is_regular :: "xfs_inode \<Rightarrow> bool" where "xfs_is_regular ip \<longleftrightarrow> S_ISREG (di_mode (i_d ip))"

section \<open>The operations\<close>

text \<open>The parts of the program the operations stand on, and the mount.\<close>

record ('b, 's) fuse_env =
  fe_alloc :: bool
  fe_ops :: "('b, 's) buf_ops"
  fe_chunk :: "'s chunk_lookup"
  fe_junk :: "nat \<Rightarrow> bytes"
  fe_iread :: "'s inode_reader"
  fe_l2e :: "'s inode_reader"
  fe_mp :: xfs_mount

definition fuse_find :: "('b, 's) fuse_env \<Rightarrow> bytes \<Rightarrow> 's icache \<Rightarrow> (int \<times> nat option \<times> 's icache) option" where
  "fuse_find env path s = find_path (icache_inode_ops (fe_alloc env) (fe_ops env) (fe_chunk env) (fe_junk env)
     (fe_iread env) (fe_l2e env) (fe_mp env)) (fe_mp env) path s"

text \<open>The inode is not given back.\<close>

definition fuse_xfs_fgetattr ::
    "('b, 's) fuse_env \<Rightarrow> bytes \<Rightarrow> 's icache \<Rightarrow> (int \<times> stat option \<times> 's icache) option" where
  "fuse_xfs_fgetattr env path s = do {
     (r, inode, s) \<leftarrow> fuse_find env path s;
     if r \<noteq> 0 then Some (- errno_code ENOENT, None, s)
     else do {
       n \<leftarrow> inode;
       Some (0, Some (snd (xfs_stat (in_obj (ic_inodes s) n))), s) } }"

definition fuse_xfs_getattr ::
    "('b, 's) fuse_env \<Rightarrow> bytes \<Rightarrow> 's icache \<Rightarrow> (int \<times> stat option \<times> 's icache) option" where
  "fuse_xfs_getattr env path s = fuse_xfs_fgetattr env path s"

definition fuse_xfs_readlink ::
    "('b, 's) fuse_env \<Rightarrow> bytes \<Rightarrow> bytes \<Rightarrow> int \<Rightarrow> 's icache \<Rightarrow> (int \<times> bytes \<times> 's icache) option" where
  "fuse_xfs_readlink env path buf len s = do {
     (r, inode, s) \<leftarrow> fuse_find env path s;
     if r \<noteq> 0 then Some (- errno_code ENOENT, buf, s)
     else do {
       n \<leftarrow> inode;
       (r, buf, b) \<leftarrow> xfs_readlink (fe_ops env) (fe_mp env) (in_obj (ic_inodes s) n) buf 0 len (ic_bufs s);
       let s = s\<lparr>ic_bufs := b\<rparr>;
       Some (if r < 0 then (r, buf, s) else (0, buf, libxfs_iput n s)) } }"

text \<open>The handle of an open file is the address of its inode object.\<close>

definition fuse_xfs_open ::
    "('b, 's) fuse_env \<Rightarrow> bytes \<Rightarrow> 's icache \<Rightarrow> (int \<times> nat option \<times> 's icache) option" where
  "fuse_xfs_open env path s = do {
     (r, inode, s) \<leftarrow> fuse_find env path s;
     if r \<noteq> 0 then Some (- errno_code ENOENT, None, s)
     else Some (0, inode, s) }"

definition fuse_xfs_read ::
    "('b, 's) fuse_env \<Rightarrow> nat \<Rightarrow> bytes \<Rightarrow> int \<Rightarrow> int \<Rightarrow> 's icache \<Rightarrow> (int \<times> bytes \<times> 's icache) option" where
  "fuse_xfs_read env fh buf len offset s = do {
     (r, buf, ip, b) \<leftarrow>
       xfs_readfile (fe_ops env) (fe_iread env) (fe_mp env) (in_obj (ic_inodes s) fh) buf offset len (ic_bufs s);
     Some (r, buf, s\<lparr>ic_inodes := set_inode fh ip (ic_inodes s), ic_bufs := b\<rparr>) }"

definition fuse_xfs_release :: "nat \<Rightarrow> 's icache \<Rightarrow> int \<times> 's icache" where
  "fuse_xfs_release fh s = (0, libxfs_iput fh s)"

definition fuse_xfs_opendir ::
    "('b, 's) fuse_env \<Rightarrow> bytes \<Rightarrow> 's icache \<Rightarrow> (int \<times> 's icache) option" where
  "fuse_xfs_opendir env path s = do {
     (r, inode, s) \<leftarrow> fuse_find env path s;
     if r \<noteq> 0 then Some (- errno_code ENOENT, s)
     else do { n \<leftarrow> inode; Some (0, libxfs_iput n s) } }"

text \<open>
  \<open>readdir\<close>. The library's \<open>filler\<close> gets its state, a name, the attributes and an offset; it answers whether its
  buffer is full. The callback looks up the inode of every entry, and skips an entry whose inode it cannot get. Its
  state is the filler's with the inode cache, next to the buffers; \<open>None\<close> when it ended in a fault. Names
  are at most 255 bytes long and end, as strings do, at a zero.
\<close>

type_synonym 'f filler = "'f \<Rightarrow> bytes \<Rightarrow> stat option \<Rightarrow> int \<Rightarrow> bool \<times> 'f"

definition c_string :: "bytes \<Rightarrow> bytes" where "c_string nm = takeWhile (\<lambda>b. b \<noteq> 0) nm"

definition fuse_xfs_filldir ::
    "('b, 's) fuse_env \<Rightarrow> 'f filler \<Rightarrow> (('f \<times> cache \<times> inodes) option \<times> 's) filldir" where
  "fuse_xfs_filldir env filler w nm offset ino flags = (case w of
      (None, s) \<Rightarrow> (True, None, s)
    | (Some (buf, c, p), s) \<Rightarrow>
        (case libxfs_iget (fe_ops env) (fe_chunk env) (fe_junk env) (fe_mp env) ino 0
            \<lparr> ic_cache = c, ic_inodes = p, ic_bufs = s \<rparr> of
           Some (error, inode, fs) \<Rightarrow>
             if error \<noteq> 0 then (False, Some (buf, ic_cache fs, ic_inodes fs), ic_bufs fs)
             else (case inode of
                 None \<Rightarrow> (True, None, s)
               | Some n \<Rightarrow>
                   let (r, st) = xfs_stat (in_obj (ic_inodes fs) n);
                     (full, buf) = filler buf (c_string nm) (if r = 0 then Some st else None) 0;
                     fs = libxfs_iput n fs
                   in (full, Some (buf, ic_cache fs, ic_inodes fs), ic_bufs fs))
         | None \<Rightarrow> (True, None, s)))"

text \<open>The error of \<open>xfs_readdir\<close> is dropped.\<close>

definition fuse_xfs_readdir ::
    "('b, 's) fuse_env \<Rightarrow> 'f filler \<Rightarrow> bytes \<Rightarrow> 'f \<Rightarrow> int \<Rightarrow> 's icache \<Rightarrow> (int \<times> 'f \<times> 's icache) option" where
  "fuse_xfs_readdir env filler path buf offset s = do {
     (r, inode, s) \<leftarrow> fuse_find env path s;
     if r \<noteq> 0 then Some (- errno_code ENOENT, buf, s)
     else do {
       n \<leftarrow> inode;
       (_, _, t, dp, b) \<leftarrow> xfs_readdir (fe_ops env) (fe_iread env) (fe_l2e env) (fe_mp env) (fuse_xfs_filldir env filler)
         1024000 offset (Some (buf, ic_cache s, ic_inodes s)) (in_obj (ic_inodes s) n, ic_bufs s);
       (buf, c, p) \<leftarrow> t;
       Some (0, buf, libxfs_iput n \<lparr> ic_cache = c, ic_inodes = set_inode n dp p, ic_bufs = b \<rparr>) } }"

record statvfs =
  f_bsize :: nat
  f_frsize :: nat
  f_blocks :: nat
  f_bfree :: nat
  f_files :: nat
  f_ffree :: int
  f_favail :: int
  f_namemax :: nat
  f_fsid :: bytes

text \<open>The identifier is a machine word, given here by its bytes in memory; the rest of the structure is zero.\<close>

definition fuse_xfs_statfs :: "xfs_mount \<Rightarrow> int \<times> statvfs" where
  "fuse_xfs_statfs mp = (let sb = m_sb mp; ffree = to_u64 (int (sb_ifree sb) + int (m_maxicount mp) - int (sb_icount sb)) in
     (0, \<lparr> f_bsize = sb_blocksize sb, f_frsize = sb_blocksize sb, f_blocks = sb_dblocks sb, f_bfree = sb_fdblocks sb,
       f_files = m_maxicount mp, f_ffree = ffree, f_favail = ffree, f_namemax = 256, f_fsid = take 8 (sb_uuid sb) \<rparr>))"

text \<open>Operations that do nothing.\<close>

definition fuse_xfs_mknod :: int where "fuse_xfs_mknod = - errno_code ENOSYS"
definition fuse_xfs_mkdir :: int where "fuse_xfs_mkdir = - errno_code ENOSYS"
definition fuse_xfs_unlink :: int where "fuse_xfs_unlink = - errno_code ENOSYS"
definition fuse_xfs_rmdir :: int where "fuse_xfs_rmdir = - errno_code ENOSYS"
definition fuse_xfs_symlink :: int where "fuse_xfs_symlink = - errno_code ENOSYS"
definition fuse_xfs_rename :: int where "fuse_xfs_rename = - errno_code ENOSYS"
definition fuse_xfs_exchange :: int where "fuse_xfs_exchange = - errno_code ENOSYS"
definition fuse_xfs_link :: int where "fuse_xfs_link = - errno_code ENOSYS"
definition fuse_xfs_getxtimes :: int where "fuse_xfs_getxtimes = - errno_code ENOENT"
definition fuse_xfs_create :: int where "fuse_xfs_create = - errno_code ENOSYS"
definition fuse_xfs_write :: int where "fuse_xfs_write = - errno_code ENOSYS"
definition fuse_xfs_flush :: int where "fuse_xfs_flush = 0"
definition fuse_xfs_fsync :: int where "fuse_xfs_fsync = 0"
definition fuse_xfs_setxattr :: int where "fuse_xfs_setxattr = - errno_code ENOTSUP"
definition fuse_xfs_getxattr :: int where "fuse_xfs_getxattr = - errno_code ENOATTR"
definition fuse_xfs_listxattr :: int where "fuse_xfs_listxattr = 0"
definition fuse_xfs_removexattr :: int where "fuse_xfs_removexattr = - errno_code ENOATTR"
definition fuse_xfs_releasedir :: int where "fuse_xfs_releasedir = 0"

section \<open>Sessions\<close>

datatype request =
    GetAttr bytes
  | ReadLink bytes bytes int
  | OpenDir bytes
  | ReadDir bytes int nat
  | Open bytes
  | Read nat bytes int int
  | Release nat

datatype reply = RAttr int "stat option" | RData int bytes | RDir int "(bytes \<times> stat option) list" | ROpen int "nat option" | RCode int

text \<open>A directory is read into a buffer with room for so many entries.\<close>

definition fill_names :: "nat \<Rightarrow> (bytes \<times> stat option) list filler" where
  "fill_names k buf nm st offset = (if length buf < k then (False, buf @ [(nm, st)]) else (True, buf))"

record 's session =
  ss_fs :: "'s icache"
  ss_open :: "nat list"

fun serve :: "('b, 's) fuse_env \<Rightarrow> request \<Rightarrow> 's session \<Rightarrow> (reply \<times> 's session) option" where
  "serve env (GetAttr path) s = map_option (\<lambda>(r, st, fs). (RAttr r st, s\<lparr>ss_fs := fs\<rparr>)) (fuse_xfs_getattr env path (ss_fs s))"
| "serve env (ReadLink path buf len) s =
     map_option (\<lambda>(r, buf, fs). (RData r buf, s\<lparr>ss_fs := fs\<rparr>)) (fuse_xfs_readlink env path buf len (ss_fs s))"
| "serve env (OpenDir path) s = map_option (\<lambda>(r, fs). (RCode r, s\<lparr>ss_fs := fs\<rparr>)) (fuse_xfs_opendir env path (ss_fs s))"
| "serve env (ReadDir path offset k) s =
     map_option (\<lambda>(r, buf, fs). (RDir r buf, s\<lparr>ss_fs := fs\<rparr>)) (fuse_xfs_readdir env (fill_names k) path [] offset (ss_fs s))"
| "serve env (Open path) s = map_option (\<lambda>(r, fh, fs). (ROpen r fh, s\<lparr>ss_fs := fs,
       ss_open := (case fh of Some n \<Rightarrow> n # ss_open s | None \<Rightarrow> ss_open s)\<rparr>)) (fuse_xfs_open env path (ss_fs s))"
| "serve env (Read fh buf len offset) s =
     map_option (\<lambda>(r, buf, fs). (RData r buf, s\<lparr>ss_fs := fs\<rparr>)) (fuse_xfs_read env fh buf len offset (ss_fs s))"
| "serve env (Release fh) s = (case fuse_xfs_release fh (ss_fs s) of (r, fs) \<Rightarrow>
     Some (RCode r, s\<lparr>ss_fs := fs, ss_open := remove1 fh (ss_open s)\<rparr>))"

text \<open>What the kernel sends: handles in use, requests that fit the buffer.\<close>

fun legal :: "('b, 's) fuse_env \<Rightarrow> 's session \<Rightarrow> request \<Rightarrow> bool" where
  "legal env s (Read fh buf len offset) \<longleftrightarrow> fh \<in> set (ss_open s) \<and> req_ok buf offset len"
| "legal env s (Release fh) \<longleftrightarrow> fh \<in> set (ss_open s)"
| "legal env s (ReadLink path buf len) \<longleftrightarrow> req_ok buf 0 len"
| "legal env s (ReadDir path offset k) \<longleftrightarrow> 0 \<le> offset \<and> offset \<le> leaf_end"
| "legal env s _ \<longleftrightarrow> True"

inductive session_run ::
    "('b, 's) fuse_env \<Rightarrow> 's session \<Rightarrow> (request \<times> reply) list \<Rightarrow> 's session \<Rightarrow> bool" for env where
  start: "session_run env s [] s"
| request: "session_run env s tr s1 \<Longrightarrow> legal env s1 rq \<Longrightarrow> serve env rq s1 = Some (rp, s2) \<Longrightarrow>
    session_run env s (tr @ [(rq, rp)]) s2"

inductive_simps session_run_nil [simp]: "session_run env s [] s'"
inductive_cases session_run_snoc: "session_run env s (tr @ [e]) s'"

section \<open>What the replies should be\<close>

definition path_ino ::
    "('b, 's) fuse_env \<Rightarrow> (int \<Rightarrow> int \<Rightarrow> bytes option) \<Rightarrow> (nat \<Rightarrow> dir_content option option) \<Rightarrow> bytes \<Rightarrow> nat option" where
  "path_ino env dev T path = (case resolve (tree_inode (fe_junk env) (fe_mp env) dev T) (tree_look (fe_junk env) (fe_mp env) dev T)
     (sb_rootino (m_sb (fe_mp env))) (components path) of Found ino \<Rightarrow> Some ino | _ \<Rightarrow> None)"

text \<open>
  Bytes of an inode with an extent list, as \<open>readfile_correct\<close> states them: its contents, but in unwritten extents what
  lies on the device.
\<close>

definition extents_read ::
    "(int \<Rightarrow> int \<Rightarrow> bytes option) \<Rightarrow> xfs_mount \<Rightarrow> xfs_inode \<Rightarrow> bytes \<Rightarrow> int \<Rightarrow> int \<Rightarrow> int \<Rightarrow> int \<Rightarrow> bytes \<Rightarrow> bool" where
  "extents_read dev mp ip buf offset len ok r buf' \<longleftrightarrow> (let m = read_size ip offset len in
     if all_readable dev mp ip offset m then r = ok \<and> (\<forall>k < length buf. buf' ! k =
        (if int k < m then (if unwritten_at mp ip (offset + int k) then device_byte dev mp ip (offset + int k)
                            else inode_byte dev mp ip (offset + int k))
         else if int k < len then 0 else buf ! k))
     else r = XFS_ERROR EIO)"

definition read_reply ::
    "(int \<Rightarrow> int \<Rightarrow> bytes option) \<Rightarrow> xfs_mount \<Rightarrow> xfs_inode \<Rightarrow> bytes \<Rightarrow> int \<Rightarrow> int \<Rightarrow> int \<Rightarrow> bytes \<Rightarrow> bool" where
  "read_reply dev mp ip buf offset len r buf' \<longleftrightarrow> length buf' = length buf \<and>
     (if di_mode (i_d ip) AND S_IFREG = 0 then r = XFS_ERROR EINVAL
      else case di_format (i_d ip) of
        FMT_EXTENTS \<Rightarrow> extents_read dev mp ip buf offset len (read_size ip offset len) r buf'
      | FMT_BTREE \<Rightarrow> (\<exists>rs. btree_file dev mp ip rs \<and>
          extents_read dev mp (with_list ip rs) buf offset len (read_size ip offset len) r buf')
      | _ \<Rightarrow> r = XFS_ERROR EIO)"

definition link_reply ::
    "(int \<Rightarrow> int \<Rightarrow> bytes option) \<Rightarrow> xfs_mount \<Rightarrow> xfs_inode \<Rightarrow> bytes \<Rightarrow> int \<Rightarrow> int \<Rightarrow> bytes \<Rightarrow> bool" where
  "link_reply dev mp ip buf len r buf' \<longleftrightarrow> length buf' = length buf \<and>
     (if di_mode (i_d ip) AND S_IFLNK = 0 then r = XFS_ERROR EINVAL
      else case di_format (i_d ip) of
        FMT_EXTENTS \<Rightarrow> extents_read dev mp ip buf 0 len 0 r buf'
      | FMT_LOCAL \<Rightarrow> r = 0 \<and> (\<forall>k < length buf. buf' ! k = (if int k < min len (di_size (i_d ip)) then if_data (i_df ip) ! k
            else if int k < len then 0 else buf ! k))
      | _ \<Rightarrow> r = XFS_ERROR EIO)"

text \<open>The entries of a directory from an offset on, with the attributes of their inodes.\<close>

definition dir_reply ::
    "('b, 's) fuse_env \<Rightarrow> (int \<Rightarrow> int \<Rightarrow> bytes option) \<Rightarrow> dirent \<Rightarrow> bytes \<times> stat option" where
  "dir_reply env dev e = (c_string (de_name e),
     map_option (\<lambda>ip. snd (xfs_stat ip)) (inode_of (fe_junk env) (fe_mp env) dev (de_ino e)))"

fun reply_ok ::
    "('b, 's) fuse_env \<Rightarrow> (int \<Rightarrow> int \<Rightarrow> bytes option) \<Rightarrow> (nat \<Rightarrow> dir_content option option) \<Rightarrow> 's session \<Rightarrow> request \<Rightarrow>
      reply \<Rightarrow> 's session \<Rightarrow> bool" where
  "reply_ok env dev T s (GetAttr path) rp s' \<longleftrightarrow> (case path_ino env dev T path of
       None \<Rightarrow> rp = RAttr (- errno_code ENOENT) None
     | Some ino \<Rightarrow> \<exists>ip. inode_of (fe_junk env) (fe_mp env) dev ino = Some ip \<and> rp = RAttr 0 (Some (snd (xfs_stat ip))))"
| "reply_ok env dev T s (ReadLink path buf len) rp s' \<longleftrightarrow> (case path_ino env dev T path of
       None \<Rightarrow> rp = RData (- errno_code ENOENT) buf
     | Some ino \<Rightarrow> \<exists>ip r buf'. inode_of (fe_junk env) (fe_mp env) dev ino = Some ip \<and> rp = RData r buf' \<and>
         link_reply dev (fe_mp env) ip buf len r buf')"
| "reply_ok env dev T s (OpenDir path) rp s' \<longleftrightarrow>
     rp = RCode (if path_ino env dev T path = None then - errno_code ENOENT else 0)"
| "reply_ok env dev T s (ReadDir path offset k) rp s' \<longleftrightarrow> (case path_ino env dev T path of
       None \<Rightarrow> rp = RDir (- errno_code ENOENT) []
     | Some ino \<Rightarrow> (case T ino of
         Some (Some c) \<Rightarrow> \<exists>ip. inode_of (fe_junk env) (fe_mp env) dev ino = Some ip \<and>
           rp = RDir 0 (take k (map (dir_reply env dev) (filter (\<lambda>e. offset \<le> de_cookie e) (dir_listing (fe_mp env) ip c))))
       | _ \<Rightarrow> rp = RDir 0 []))"
| "reply_ok env dev T s (Open path) rp s' \<longleftrightarrow> (case path_ino env dev T path of
       None \<Rightarrow> rp = ROpen (- errno_code ENOENT) None
     | Some ino \<Rightarrow> \<exists>n. rp = ROpen 0 (Some n) \<and> i_ino (in_obj (ic_inodes (ss_fs s')) n) = ino)"
| "reply_ok env dev T s (Read fh buf len offset) rp s' \<longleftrightarrow>
     (\<exists>ip r buf'. inode_of (fe_junk env) (fe_mp env) dev (i_ino (in_obj (ic_inodes (ss_fs s)) fh)) = Some ip \<and>
        rp = RData r buf' \<and> read_reply dev (fe_mp env) ip buf offset len r buf')"
| "reply_ok env dev T s (Release fh) rp s' \<longleftrightarrow> rp = RCode 0"

text \<open>
  An inode of the tree whose data can be read or refused: files and remote links with extent lists in the inode, files
  whose list is a well-formed tree on the device, local links inside their data fork. The test is the one of
  \<open>xfs_readlink\<close>, which regular files pass as well.
\<close>

definition node_ok :: "('b, 's) fuse_env \<Rightarrow> (int \<Rightarrow> int \<Rightarrow> bytes option) \<Rightarrow> xfs_inode \<Rightarrow> bool" where
  "node_ok env dev ip \<longleftrightarrow> (di_mode (i_d ip) AND S_IFLNK \<noteq> 0 \<longrightarrow> (case di_format (i_d ip) of
     FMT_EXTENTS \<Rightarrow> file_ok (fe_mp env) ip
   | FMT_BTREE \<Rightarrow> fe_iread env = xfs_iread_extents (fe_ops env) (fe_mp env) \<and> (\<exists>rs. btree_file dev (fe_mp env) ip rs)
   | FMT_LOCAL \<Rightarrow> di_size (i_d ip) \<le> int (length (if_data (i_df ip))) \<and> di_size (i_d ip) < 2 ^ 63 | _ \<Rightarrow> True))"

definition fuse_setup ::
    "(nat, 'o bcache) fuse_env \<Rightarrow> 'o dev_ops \<Rightarrow> 'o \<Rightarrow> nat \<Rightarrow> (nat \<Rightarrow> dir_content option option) \<Rightarrow> bool" where
  "fuse_setup env os d dev T \<longleftrightarrow> fe_ops env = bcache_buf_ops os dev \<and> mount_ok (fe_mp env) \<and>
     T (sb_rootino (m_sb (fe_mp env))) \<noteq> None \<and>
     (\<forall>ino c. T ino = Some (Some c) \<longrightarrow> listing_ok (fe_mp env) c \<and>
       (\<forall>ip e. inode_of (fe_junk env) (fe_mp env) (dev_of os d dev) ino = Some ip \<longrightarrow>
         e \<in> set (dir_listing (fe_mp env) ip c) \<longrightarrow> T (de_ino e) \<noteq> None)) \<and>
     (\<forall>ino ip. tree_inode (fe_junk env) (fe_mp env) (dev_of os d dev) T ino = Some ip \<longrightarrow>
       node_ok env (dev_of os d dev) ip)"

text \<open>An object of a file whose tree has been read in: it holds the records of the tree.\<close>

definition tree_list :: "(int \<Rightarrow> int \<Rightarrow> bytes option) \<Rightarrow> xfs_mount \<Rightarrow> xfs_inode \<Rightarrow> xfs_inode \<Rightarrow> bool" where
  "tree_list dev mp ip0 ip \<longleftrightarrow>
     (\<exists>rs. btree_file dev mp ip0 rs \<and> if_extents (i_df ip) = rs \<and> if_extents_read (i_df ip))"

text \<open>The state of the file system, and that of a session: every open handle holds a reference of its own.\<close>

definition fs_inv ::
    "(nat, 'o bcache) fuse_env \<Rightarrow> 'o dev_ops \<Rightarrow> 'o \<Rightarrow> nat \<Rightarrow> (nat \<Rightarrow> dir_content option option) \<Rightarrow> (nat \<Rightarrow> int) \<Rightarrow> int \<Rightarrow>
      int \<Rightarrow> (nat \<Rightarrow> int) \<Rightarrow> 'o bcache icache \<Rightarrow> bool" where
  "fs_inv env os d dev T BR bmx mx R fs \<longleftrightarrow>
     walk_inv (tree_list (dev_of os d dev) (fe_mp env)) (fe_junk env) (fe_mp env) (dev_of os d dev) T
       (bcache_room os d BR bmx) mx R fs"

definition session_inv ::
    "(nat, 'o bcache) fuse_env \<Rightarrow> 'o dev_ops \<Rightarrow> 'o \<Rightarrow> nat \<Rightarrow> (nat \<Rightarrow> dir_content option option) \<Rightarrow> (nat \<Rightarrow> int) \<Rightarrow> int \<Rightarrow>
      int \<Rightarrow> (nat \<Rightarrow> int) \<Rightarrow> 'o bcache session \<Rightarrow> bool" where
  "session_inv env os d dev T BR bmx mx R s \<longleftrightarrow> fs_inv env os d dev T BR bmx mx R (ss_fs s) \<and>
     (\<forall>n. int (count_list (ss_open s) n) \<le> R n) \<and>
     (\<forall>n \<in> set (ss_open s). T (i_ino (in_obj (ic_inodes (ss_fs s)) n)) \<noteq> None)"

section \<open>Reading through an object\<close>

lemma mode_reg_link: "m AND S_IFREG = (m AND S_IFLNK) AND S_IFREG"
  by (simp add: and.assoc S_IFREG_def S_IFLNK_def)

lemma node_object:
  assumes "loaded tr ip0 ip" and "di_format (i_d ip0) \<noteq> FMT_BTREE"
  shows "ip = ip0"
  using assms by (auto simp: loaded_def)

lemma loaded_core: "loaded tr ip0 ip \<Longrightarrow> i_d ip = i_d ip0 \<and> i_ino ip = i_ino ip0"
  by (auto simp: loaded_def)

lemma extents_read_eq:
  "extents_read dev mp ip buf offset len ok r buf' \<longleftrightarrow> (let m = read_size ip offset len in
     if all_readable dev mp ip offset m then r = ok \<and> (\<forall>k < length buf. buf' ! k =
        (if int k < m then read_byte dev mp ip (offset + int k) else if int k < len then 0 else buf ! k))
     else r = XFS_ERROR EIO)"
  by (simp add: extents_read_def read_byte_def)

lemma extents_readfile:
  assumes m: "mount_ok mp" and f: "file_ok mp ip" and rq: "req_ok buf offset len" and b: "bcache_inv os d BR bmx b"
  obtains r buf' b' where "xfs_readfile (bcache_buf_ops os dev) iread mp ip buf offset len b = Some (r, buf', ip, b')"
    "bcache_inv os d BR bmx b'" "length buf' = length buf"
    "extents_read (dev_of os d dev) mp ip buf offset len (read_size ip offset len) r buf'"
proof -
  have g: "geom_ok mp" using m by (simp add: mount_ok_def)
  show ?thesis
    using that bcs.readfile_ok [OF g dev_blocks_ok [OF m bcache_inv_os [OF b]] f rq b, where iread = iread and dev = dev]
    by (auto simp: extents_read_eq Let_def)
qed

text \<open>The bytes an inode gives depend on its core and on its list.\<close>

lemma extents_read_list:
  assumes "i_d ip = i_d ip'" and "if_extents (i_df ip) = if_extents (i_df ip')"
  shows "extents_read dev mp ip buf offset len ok r buf' = extents_read dev mp ip' buf offset len ok r buf'"
proof -
  have "read_size ip = read_size ip'" "all_readable dev mp ip = all_readable dev mp ip'" "read_byte dev mp ip = read_byte dev mp ip'"
    using assms read_byte_list [of ip ip'] by (simp_all add: fun_eq_iff read_size_def all_readable_def)
  then show ?thesis by (simp add: extents_read_eq)
qed

lemma tree_file_read:
  assumes m: "mount_ok mp" and l: "loaded (tree_list (dev_of os d dev) mp) ip0 ip" and f: "btree_file (dev_of os d dev) mp ip0 rs"
    and fmt: "di_format (i_d ip0) = FMT_BTREE" and rq: "req_ok buf offset len" and b: "bcache_inv os d BR bmx b"
  shows "\<exists>r buf' ip' b' rs. xfs_readfile (bcache_buf_ops os dev) (xfs_iread_extents (bcache_buf_ops os dev) mp) mp ip buf offset len b =
      Some (r, buf', ip', b') \<and> bcache_inv os d BR bmx b' \<and> loaded (tree_list (dev_of os d dev) mp) ip0 ip' \<and>
    i_ino ip' = i_ino ip \<and> length buf' = length buf \<and> btree_file (dev_of os d dev) mp ip0 rs \<and>
    extents_read (dev_of os d dev) mp (with_list ip0 rs) buf offset len (read_size ip0 offset len) r buf'"
proof (cases "ip = ip0")
  case True
  obtain r buf' ip' b' where rd: "xfs_readfile (bcache_buf_ops os dev) (xfs_iread_extents (bcache_buf_ops os dev) mp) mp ip0 buf
      offset len b = Some (r, buf', ip', b')" "bcache_inv os d BR bmx b'" "length buf' = length buf" "i_ino ip' = i_ino ip0"
    "if di_size (i_d ip0) \<le> offset then ip' = ip0 else i_d ip' = i_d ip0 \<and> if_extents (i_df ip') = rs \<and> if_extents_read (i_df ip')"
    "let m = read_size ip0 offset len in
       if all_readable (dev_of os d dev) mp (with_list ip0 rs) offset m
       then r = m \<and> (\<forall>k < length buf. buf' ! k =
              (if int k < m then read_byte (dev_of os d dev) mp (with_list ip0 rs) (offset + int k)
               else if int k < len then 0 else buf ! k))
       else r = XFS_ERROR EIO"
    using btree_readfile [OF m f rq b] by blast
  have "loaded (tree_list (dev_of os d dev) mp) ip0 ip'"
    using rd(4,5) f fmt by (auto simp: loaded_def tree_list_def btree_file_def split: if_splits)
  moreover have "read_size (with_list ip0 rs) offset len = read_size ip0 offset len" by (simp add: read_size_def with_list_def)
  then have "extents_read (dev_of os d dev) mp (with_list ip0 rs) buf offset len (read_size ip0 offset len) r buf'"
    using rd(6) by (simp add: extents_read_eq)
  ultimately show ?thesis using rd(1-4) f True by blast
next
  case False
  then obtain rs' where t: "btree_file (dev_of os d dev) mp ip0 rs'" "if_extents (i_df ip) = rs'" "if_extents_read (i_df ip)"
      "i_d ip = i_d ip0"
    using l by (auto simp: loaded_def tree_list_def)
  have "file_ok mp (with_list ip0 rs')" using t(1) by (simp add: btree_file_def)
  then have "file_ok mp ip" using file_ok_list [of ip "with_list ip0 rs'"] t(2-4) by (simp add: with_list_def)
  then obtain r buf' b' where rd: "xfs_readfile (bcache_buf_ops os dev) (xfs_iread_extents (bcache_buf_ops os dev) mp) mp ip buf
      offset len b = Some (r, buf', ip, b')" "bcache_inv os d BR bmx b'" "length buf' = length buf"
    "extents_read (dev_of os d dev) mp ip buf offset len (read_size ip offset len) r buf'"
    by (rule extents_readfile [OF m _ rq b])
  have "extents_read (dev_of os d dev) mp (with_list ip0 rs') buf offset len (read_size ip0 offset len) r buf'"
    using rd(4) extents_read_list [of ip "with_list ip0 rs'"] t(2,4) by (simp add: with_list_def read_size_def)
  then show ?thesis using rd(1-3) t(1) l by blast
qed

lemma fuse_file_read:
  assumes m: "mount_ok (fe_mp env)" and ops: "fe_ops env = bcache_buf_ops os dev"
    and l: "loaded (tree_list (dev_of os d dev) (fe_mp env)) ip0 ip" and n: "node_ok env (dev_of os d dev) ip0"
    and rq: "req_ok buf offset len" and b: "bcache_inv os d BR bmx b"
  shows "\<exists>r buf' ip' b'. xfs_readfile (bcache_buf_ops os dev) (fe_iread env) (fe_mp env) ip buf offset len b = Some (r, buf', ip', b') \<and>
    bcache_inv os d BR bmx b' \<and> loaded (tree_list (dev_of os d dev) (fe_mp env)) ip0 ip' \<and> i_ino ip' = i_ino ip \<and>
    read_reply (dev_of os d dev) (fe_mp env) ip0 buf offset len r buf'"
proof -
  obtain mem0 where m0: "memset0 buf len = Some mem0" "length mem0 = length buf" using memset0_ok [of len buf] rq by (auto simp: req_ok_def)
  note core = loaded_core [OF l]
  show ?thesis
  proof (cases "di_mode (i_d ip) AND S_IFREG = 0")
    case True
    then show ?thesis using m0 b core l by (simp add: xfs_readfile_def read_reply_def)
  next
    case False
    have lnk: "di_mode (i_d ip0) AND S_IFLNK \<noteq> 0"
    proof
      assume "di_mode (i_d ip0) AND S_IFLNK = 0"
      then show False using False core mode_reg_link [of "di_mode (i_d ip0)"] by simp
    qed
    consider "di_format (i_d ip0) = FMT_EXTENTS" | "di_format (i_d ip0) = FMT_BTREE"
      | "di_format (i_d ip0) \<noteq> FMT_EXTENTS" "di_format (i_d ip0) \<noteq> FMT_BTREE" by blast
    then show ?thesis
    proof cases
      case 1
      then have f: "file_ok (fe_mp env) ip0" and ip: "ip = ip0" using n lnk node_object [OF l] by (auto simp: node_ok_def)
      obtain r buf' b' where "xfs_readfile (bcache_buf_ops os dev) (fe_iread env) (fe_mp env) ip0 buf offset len b =
          Some (r, buf', ip0, b')" "bcache_inv os d BR bmx b'" "length buf' = length buf"
        "extents_read (dev_of os d dev) (fe_mp env) ip0 buf offset len (read_size ip0 offset len) r buf'"
        by (rule extents_readfile [OF m f rq b])
      then show ?thesis using False 1 l by (simp add: read_reply_def ip)
    next
      case 2
      then obtain rs where f: "btree_file (dev_of os d dev) (fe_mp env) ip0 rs"
          "fe_iread env = xfs_iread_extents (bcache_buf_ops os dev) (fe_mp env)"
        using n lnk by (auto simp: node_ok_def ops)
      show ?thesis
        using tree_file_read [OF m l f(1) 2 rq b] False core 2 unfolding f(2) by (auto simp: read_reply_def)
    next
      case 3
      then have "ip = ip0" using node_object [OF l] by blast
      then show ?thesis
        using m0 b False 3 l by (cases "di_format (i_d ip)") (auto simp: xfs_readfile_def read_reply_def)
    qed
  qed
qed

lemma fuse_link_read:
  assumes m: "mount_ok (fe_mp env)" and l: "loaded tr ip0 ip" and n: "node_ok env (dev_of os d dev) ip0" and rq: "req_ok buf 0 len"
    and b: "bcache_inv os d BR bmx b"
  shows "\<exists>r buf' b'. xfs_readlink (bcache_buf_ops os dev) (fe_mp env) ip buf 0 len b = Some (r, buf', b') \<and>
    bcache_inv os d BR bmx b' \<and> link_reply (dev_of os d dev) (fe_mp env) ip0 buf len (if r < 0 then r else 0) buf'"
proof -
  obtain mem0 where m0: "memset0 buf len = Some mem0" "length mem0 = length buf"
    "\<forall>k < length buf. mem0 ! k = (if int k < len then 0 else buf ! k)" using memset0_ok [of len buf] rq by (auto simp: req_ok_def)
  have neg: "XFS_ERROR EINVAL < 0" "XFS_ERROR EIO < 0" by (simp_all add: XFS_ERROR_def)
  note core = loaded_core [OF l]
  show ?thesis
  proof (cases "di_mode (i_d ip0) AND S_IFLNK = 0")
    case True
    then show ?thesis using m0 b core neg by (simp add: xfs_readlink_def link_reply_def)
  next
    case lnk: False
    consider "di_format (i_d ip) = FMT_EXTENTS" | "di_format (i_d ip) = FMT_LOCAL"
      | "di_format (i_d ip) \<noteq> FMT_EXTENTS" "di_format (i_d ip) \<noteq> FMT_LOCAL" by blast
    then show ?thesis
    proof cases
      case 1
      then have ip: "ip = ip0" using node_object [OF l] core by simp
      have f: "file_ok (fe_mp env) ip" using n lnk 1 by (simp add: node_ok_def ip)
      obtain e mem' b' where r: "xfs_readfile (bcache_buf_ops os dev) (\<lambda>ip s. None) (fe_mp env) ip buf 0 len b = Some (e, mem', ip, b')"
        "bcache_inv os d BR bmx b'" "length mem' = length buf"
        "extents_read (dev_of os d dev) (fe_mp env) ip buf 0 len (read_size ip 0 len) e mem'"
        by (rule extents_readfile [OF m f rq b])
      have "xfs_readlink (bcache_buf_ops os dev) (fe_mp env) ip buf 0 len b = Some (e, mem', b')"
        using r(1) 1 lnk [folded ip] f by (auto simp: xfs_readfile_def xfs_readlink_def file_ok_def bind_eq_Some_conv)
      moreover have "extents_read (dev_of os d dev) (fe_mp env) ip buf 0 len 0 (if e < 0 then e else 0) mem'"
        using r(4) neg(2) by (auto simp: extents_read_eq read_size_def Let_def split: if_splits)
      ultimately show ?thesis using r(2,3) 1 lnk by (simp add: link_reply_def ip)
    next
      case 2
      then have ip: "ip = ip0" using node_object [OF l] core by simp
      let ?d = "if_data (i_df ip)" and ?size = "di_size (i_d ip)"
      have sz: "?size \<le> int (length ?d)" "?size < 2 ^ 63" using n lnk 2 by (auto simp: node_ok_def ip)
      show ?thesis
      proof (cases "?size \<le> 0")
        case True
        then show ?thesis using m0 b lnk 2 ip
          by (auto simp: xfs_readlink_def xfs_readlink_local_def link_reply_def)
      next
        case False
        have len: "0 < len" "len < 2 ^ 31" "len \<le> int (length buf)" using rq by (auto simp: req_ok_def)
        have u: "to_u64 ?size = ?size" using False sz(2) by (simp add: to_u64_def)
        define k where "k = min len ?size"
        have k: "0 \<le> k" "k < 2 ^ 31" "k \<le> int (length ?d)" "k \<le> int (length mem0)"
          using False sz len m0(2) by (auto simp: k_def)
        obtain mem' where mem': "memcpy mem0 0 ?d 0 k = Some mem'" "length mem' = length mem0"
          "\<forall>i < length mem0. mem' ! i = (if int i < k then ?d ! i else mem0 ! i)"
          using memcpy_Some [of 0 0 k ?d mem0] k by auto
        have "(if to_u64 (?size - 0) < len then to_u64 (?size - 0) else len) = k" using u by (simp add: k_def)
        then have "xfs_readlink_local ip mem0 0 len = Some (k, mem')"
          using False mem'(1) k by (simp add: xfs_readlink_local_def Let_def)
        then have "xfs_readlink (bcache_buf_ops os dev) (fe_mp env) ip buf 0 len b = Some (k, mem', b)"
          using m0(1) lnk [folded ip] 2 by (simp add: xfs_readlink_def)
        moreover have "link_reply (dev_of os d dev) (fe_mp env) ip0 buf len 0 mem'"
          using lnk 2 mem' m0(2,3) ip by (auto simp: link_reply_def k_def)
        ultimately show ?thesis using b k(1) by simp
      qed
    next
      case 3
      then show ?thesis
        using m0 b lnk core neg by (cases "di_format (i_d ip0)") (auto simp: xfs_readlink_def link_reply_def)
    qed
  qed
qed

section \<open>Requests in a session\<close>

lemma stat_of_loaded: "loaded tr ip0 ip \<Longrightarrow> xfs_stat ip = xfs_stat ip0"
  using loaded_core by (simp add: xfs_stat_def)

text \<open>Finding the inode of a path: what the operations share.\<close>

lemma fuse_find_ok:
  assumes su: "fuse_setup env os d dev T" and i: "fs_inv env os d dev T BR bmx mx R fs" and r: "has_room mx R"
  shows "\<exists>e res fs' R'. fuse_find env path fs = Some (e, res, fs') \<and> fs_inv env os d dev T BR bmx mx R' fs' \<and>
    (\<forall>m. 0 < R m \<longrightarrow> i_ino (in_obj (ic_inodes fs') m) = i_ino (in_obj (ic_inodes fs) m)) \<and>
    (case path_ino env (dev_of os d dev) T path of
       Some ino \<Rightarrow> e = 0 \<and> (\<exists>n. res = Some n \<and> 0 \<le> R n \<and> R' = R(n := R n + 1) \<and> i_ino (in_obj (ic_inodes fs') n) = ino \<and>
         T ino \<noteq> None)
     | None \<Rightarrow> e \<noteq> 0 \<and> res = None \<and> (R' = R \<or> (\<exists>n. 0 \<le> R n \<and> R' = R(n := R n + 1))))"
proof -
  let ?fs = "tree_inode (fe_junk env) (fe_mp env) (dev_of os d dev) T"
  let ?root = "sb_rootino (m_sb (fe_mp env))"
  let ?tr = "tree_list (dev_of os d dev) (fe_mp env)"
  have w: "walk_inv ?tr (fe_junk env) (fe_mp env) (dev_of os d dev) T (bcache_room os d BR bmx) mx R fs" using i by (simp add: fs_inv_def)
  have ops: "fe_ops env = bcache_buf_ops os dev" and rt: "T ?root \<noteq> None" using su by (auto simp: fuse_setup_def)
  have root: "?fs ?root \<noteq> None" using w rt by (fastforce simp: walk_inv_def disk_tree_def tree_inode_def)
  have obj: "op_inode (icache_inode_ops a b c e f g h) = (\<lambda>s. in_obj (ic_inodes s))" for a b c e f g h
    by (simp add: icache_inode_ops_def)
  obtain e res fs' where f: "fuse_find env path fs = Some (e, res, fs')"
    and wr: "iw.walk_result (fe_alloc env) os dev (fe_chunk env) (fe_junk env) (fe_iread env) (fe_l2e env) (fe_mp env) ?tr d T BR bmx mx R fs
      (resolve ?fs (tree_look (fe_junk env) (fe_mp env) (dev_of os d dev) T) ?root (components path)) (e, res, fs')"
    using iw.find_path_ok [OF w r root] unfolding fuse_find_def ops by fast
  have ex: "T t \<noteq> None" if "resolve ?fs (tree_look (fe_junk env) (fe_mp env) (dev_of os d dev) T) ?root (components path) = Found t" for t
    using iw.resolve_exists [OF root that] by (auto simp: tree_inode_def split: if_splits)
  note wr' = wr [unfolded iw.walk_result_def iw.keeps_def obj fs_inv_def [symmetric] prod.case]
  show ?thesis
  proof (cases "resolve ?fs (tree_look (fe_junk env) (fe_mp env) (dev_of os d dev) T) ?root (components path)")
    case (Found t)
    then show ?thesis using f wr' ex [OF Found] unfolding path_ino_def by force
  next
    case (NoEntry t)
    then show ?thesis using f wr' unfolding path_ino_def by force
  next
    case NotDir
    then show ?thesis using f wr' unfolding path_ino_def by (force simp: XFS_ERROR_def)
  qed
qed

lemma fuse_put:
  assumes "fs_inv env os d dev T BR bmx mx R fs" and "0 < R n"
  shows "fs_inv env os d dev T BR bmx mx (R(n := R n - 1)) (libxfs_iput n fs)"
    and "in_obj (ic_inodes (libxfs_iput n fs)) = in_obj (ic_inodes fs)"
  using assms icache_put [of mx R "ic_cache fs" "ic_inodes fs" n]
  by (auto simp: fs_inv_def libxfs_iput_def walk_inv_def icache_inv_def)

lemma fuse_bufs:
  assumes "fs_inv env os d dev T BR bmx mx R fs"
  shows "bcache_inv os d BR bmx (ic_bufs fs)"
    and "bcache_inv os d BR bmx b \<Longrightarrow> fs_inv env os d dev T BR bmx mx R (fs\<lparr>ic_bufs := b\<rparr>)"
    and "int (card {n. BR n \<noteq> 0}) + 1 < bmx"
  using assms by (simp_all add: fs_inv_def walk_inv_def bcache_room_iff)

text \<open>A referenced object of the tree holds its inode.\<close>

lemma fuse_object:
  assumes su: "fuse_setup env os d dev T" and i: "fs_inv env os d dev T BR bmx mx R fs" and n: "0 < R n"
    and t: "T (i_ino (in_obj (ic_inodes fs) n)) \<noteq> None"
  obtains ip where "inode_of (fe_junk env) (fe_mp env) (dev_of os d dev) (i_ino (in_obj (ic_inodes fs) n)) = Some ip"
    "loaded (tree_list (dev_of os d dev) (fe_mp env)) ip (in_obj (ic_inodes fs) n)" "node_ok env (dev_of os d dev) ip"
proof -
  have "icache_inv (tree_list (dev_of os d dev) (fe_mp env)) (inode_of (fe_junk env) (fe_mp env) (dev_of os d dev)) mx R
      (ic_cache fs) (ic_inodes fs)"
    using i by (simp add: fs_inv_def walk_inv_def)
  from held_object [OF this n] obtain ip where ip:
    "inode_of (fe_junk env) (fe_mp env) (dev_of os d dev) (i_ino (in_obj (ic_inodes fs) n)) = Some ip"
    "loaded (tree_list (dev_of os d dev) (fe_mp env)) ip (in_obj (ic_inodes fs) n)" by blast
  have "tree_inode (fe_junk env) (fe_mp env) (dev_of os d dev) T (i_ino (in_obj (ic_inodes fs) n)) = Some ip"
    using ip(1) t by (simp add: tree_inode_def)
  then have "node_ok env (dev_of os d dev) ip" using su unfolding fuse_setup_def by blast
  then show ?thesis using that ip by blast
qed

text \<open>What a request leaves: at most one object more is referenced, and handles keep their inodes.\<close>

definition served ::
    "(nat, 'o bcache) fuse_env \<Rightarrow> 'o dev_ops \<Rightarrow> 'o \<Rightarrow> nat \<Rightarrow> (nat \<Rightarrow> dir_content option option) \<Rightarrow> (nat \<Rightarrow> int) \<Rightarrow> int \<Rightarrow>
      int \<Rightarrow> (nat \<Rightarrow> int) \<Rightarrow> 'o bcache session \<Rightarrow> (nat \<Rightarrow> int) \<Rightarrow> 'o bcache session \<Rightarrow> bool" where
  "served env os d dev T BR bmx mx R s R' s' \<longleftrightarrow> session_inv env os d dev T BR bmx mx R' s' \<and>
     (\<exists>n. {m. R' m \<noteq> 0} \<subseteq> insert n {m. R m \<noteq> 0}) \<and>
     (\<forall>n \<in> set (ss_open s). i_ino (in_obj (ic_inodes (ss_fs s')) n) = i_ino (in_obj (ic_inodes (ss_fs s)) n))"

lemma handle_ref:
  assumes "session_inv env os d dev T BR bmx mx R s" and "n \<in> set (ss_open s)"
  shows "0 < R n"
proof -
  have "0 < count_list (ss_open s) n" using assms(2) by (metis count_list_0_iff neq0_conv)
  then show ?thesis using assms(1) by (auto simp: session_inv_def) (metis less_le_trans of_nat_0_less_iff)
qed

lemma fs_refs: "fs_inv env os d dev T BR bmx mx R fs \<Longrightarrow> refs (ic_cache fs) = R"
  by (simp add: fs_inv_def walk_inv_def icache_inv_def icache_ok_def)

lemma session_refs:
  assumes "session_inv env os d dev T BR bmx mx R s"
  shows "refs (ic_cache (ss_fs s)) = R" and "finite {n. R n \<noteq> 0}"
proof -
  have ok: "icache_ok mx R (ic_cache (ss_fs s)) (ic_inodes (ss_fs s))"
    using assms by (simp add: session_inv_def fs_inv_def walk_inv_def icache_inv_def)
  show "refs (ic_cache (ss_fs s)) = R" using ok by (simp add: icache_ok_def)
  show "finite {n. R n \<noteq> 0}"
    by (rule finite_subset [OF _ finite_nodes [of "ic_cache (ss_fs s)"]]) (use icache_node [OF ok] in auto)
qed

text \<open>Requests that leave the handles as they are.\<close>

lemma served_same:
  assumes s: "session_inv env os d dev T BR bmx mx R s" and fs: "fs_inv env os d dev T BR bmx mx R' fs"
    and keep: "\<forall>m. 0 < R m \<longrightarrow> i_ino (in_obj (ic_inodes fs) m) = i_ino (in_obj (ic_inodes (ss_fs s)) m)"
    and R': "R' = R \<or> (\<exists>n. 0 \<le> R n \<and> R' = R(n := R n + 1))"
  shows "served env os d dev T BR bmx mx R s R' (s\<lparr>ss_fs := fs\<rparr>)"
proof -
  have "R m \<le> R' m" for m using R' by auto
  moreover have "int (count_list (ss_open s) m) \<le> R m" for m using s by (simp add: session_inv_def)
  ultimately have "int (count_list (ss_open s) m) \<le> R' m" for m using order_trans by blast
  moreover have "\<exists>n. {m. R' m \<noteq> 0} \<subseteq> insert n {m. R m \<noteq> 0}" using R' by auto
  moreover have "\<forall>n \<in> set (ss_open s). i_ino (in_obj (ic_inodes fs) n) = i_ino (in_obj (ic_inodes (ss_fs s)) n)"
    using keep handle_ref [OF s] by blast
  ultimately show ?thesis using s fs by (simp add: served_def session_inv_def)
qed

lemma same_object: "set_inode n (in_obj p n) p = p"
  by (simp add: set_inode_def)

lemma put_again: "(R :: nat \<Rightarrow> int)(n := R n + 1, n := (R(n := R n + 1)) n - 1) = R"
  by (simp add: fun_eq_iff)

lemma count_list_remove1: "x \<in> set xs \<Longrightarrow> int (count_list (remove1 x xs) n) = int (count_list xs n) - (if n = x then 1 else 0)"
  by (induction xs) auto

lemma fuse_find_cases:
  assumes su: "fuse_setup env os d dev T" and s: "session_inv env os d dev T BR bmx mx R s" and r: "has_room mx R"
  obtains (missing) e fs' R' where "path_ino env (dev_of os d dev) T path = None"
      "fuse_find env path (ss_fs s) = Some (e, None, fs')" "e \<noteq> 0"
      "served env os d dev T BR bmx mx R s R' (s\<lparr>ss_fs := fs'\<rparr>)"
    | (found) ino n fs' ip where "path_ino env (dev_of os d dev) T path = Some ino"
      "fuse_find env path (ss_fs s) = Some (0, Some n, fs')" "0 \<le> R n"
      "fs_inv env os d dev T BR bmx mx (R(n := R n + 1)) fs'" "i_ino (in_obj (ic_inodes fs') n) = ino" "T ino \<noteq> None"
      "inode_of (fe_junk env) (fe_mp env) (dev_of os d dev) ino = Some ip" "loaded (tree_list (dev_of os d dev) (fe_mp env)) ip (in_obj (ic_inodes fs') n)"
      "node_ok env (dev_of os d dev) ip"
      "\<forall>m. 0 < R m \<longrightarrow> i_ino (in_obj (ic_inodes fs') m) = i_ino (in_obj (ic_inodes (ss_fs s)) m)"
proof -
  have i: "fs_inv env os d dev T BR bmx mx R (ss_fs s)" using s by (simp add: session_inv_def)
  obtain e res fs' R' where f: "fuse_find env path (ss_fs s) = Some (e, res, fs')" "fs_inv env os d dev T BR bmx mx R' fs'"
    "\<forall>m. 0 < R m \<longrightarrow> i_ino (in_obj (ic_inodes fs') m) = i_ino (in_obj (ic_inodes (ss_fs s)) m)"
    "case path_ino env (dev_of os d dev) T path of
       Some ino \<Rightarrow> e = 0 \<and> (\<exists>n. res = Some n \<and> 0 \<le> R n \<and> R' = R(n := R n + 1) \<and> i_ino (in_obj (ic_inodes fs') n) = ino \<and>
         T ino \<noteq> None)
     | None \<Rightarrow> e \<noteq> 0 \<and> res = None \<and> (R' = R \<or> (\<exists>n. 0 \<le> R n \<and> R' = R(n := R n + 1)))"
    using fuse_find_ok [OF su i r, of path] by blast
  show ?thesis
  proof (cases "path_ino env (dev_of os d dev) T path")
    case None
    then have m: "e \<noteq> 0" "res = None" "R' = R \<or> (\<exists>n. 0 \<le> R n \<and> R' = R(n := R n + 1))" using f(4) by auto
    show ?thesis
      by (rule missing [OF None _ m(1) served_same [OF s f(2,3) m(3)]]) (simp add: f(1) m(2))
  next
    case (Some ino)
    then obtain n where n: "e = 0" "res = Some n" "0 \<le> R n" "R' = R(n := R n + 1)"
      "i_ino (in_obj (ic_inodes fs') n) = ino" "T ino \<noteq> None" using f(4) by auto
    have p: "0 < R' n" using n(3,4) by simp
    have t: "T (i_ino (in_obj (ic_inodes fs') n)) \<noteq> None" using n(5,6) by simp
    obtain ip where ip: "inode_of (fe_junk env) (fe_mp env) (dev_of os d dev) (i_ino (in_obj (ic_inodes fs') n)) = Some ip"
      "loaded (tree_list (dev_of os d dev) (fe_mp env)) ip (in_obj (ic_inodes fs') n)" "node_ok env (dev_of os d dev) ip"
      by (rule fuse_object [OF su f(2) p t])
    show ?thesis
      by (rule found [OF Some _ n(3) f(2) [unfolded n(4)] n(5,6) ip(1) [unfolded n(5)] ip(2,3) f(3)])
        (simp add: f(1) n(1,2))
  qed
qed

lemma serve_getattr:
  assumes "fuse_setup env os d dev T" and s: "session_inv env os d dev T BR bmx mx R s" and "has_room mx R"
  shows "\<exists>rp s' R'. serve env (GetAttr path) s = Some (rp, s') \<and> served env os d dev T BR bmx mx R s R' s' \<and>
    reply_ok env (dev_of os d dev) T s (GetAttr path) rp s'"
proof (cases rule: fuse_find_cases [OF assms, of path, case_names missing found])
  case (missing e fs' R')
  then show ?thesis by (auto simp: fuse_xfs_getattr_def fuse_xfs_fgetattr_def)
next
  case (found ino n fs' ip)
  have "served env os d dev T BR bmx mx R s (R(n := R n + 1)) (s\<lparr>ss_fs := fs'\<rparr>)"
    using served_same [OF s found(4,10)] found(3) by blast
  then show ?thesis
    using found(1,2,7) stat_of_loaded [OF found(8)] by (auto simp: fuse_xfs_getattr_def fuse_xfs_fgetattr_def)
qed

lemma serve_opendir:
  assumes "fuse_setup env os d dev T" and s: "session_inv env os d dev T BR bmx mx R s" and "has_room mx R"
  shows "\<exists>rp s' R'. serve env (OpenDir path) s = Some (rp, s') \<and> served env os d dev T BR bmx mx R s R' s' \<and>
    reply_ok env (dev_of os d dev) T s (OpenDir path) rp s'"
proof (cases rule: fuse_find_cases [OF assms, of path, case_names missing found])
  case (missing e fs' R')
  then show ?thesis by (auto simp: fuse_xfs_opendir_def)
next
  case (found ino n fs' ip)
  have p: "0 < (R(n := R n + 1)) n" using found(3) by simp
  note put = fuse_put [OF found(4) p, unfolded put_again]
  have "served env os d dev T BR bmx mx R s R (s\<lparr>ss_fs := libxfs_iput n fs'\<rparr>)"
    using served_same [OF s put(1)] found(10) put(2) by simp
  then show ?thesis using found(1,2) by (auto simp: fuse_xfs_opendir_def)
qed

lemma serve_readlink:
  assumes su: "fuse_setup env os d dev T" and s: "session_inv env os d dev T BR bmx mx R s" and r: "has_room mx R"
    and rq: "req_ok buf 0 len"
  shows "\<exists>rp s' R'. serve env (ReadLink path buf len) s = Some (rp, s') \<and> served env os d dev T BR bmx mx R s R' s' \<and>
    reply_ok env (dev_of os d dev) T s (ReadLink path buf len) rp s'"
proof (cases rule: fuse_find_cases [OF su s r, of path, case_names missing found])
  case (missing e fs' R')
  then show ?thesis by (auto simp: fuse_xfs_readlink_def)
next
  case (found ino n fs' ip)
  have m: "mount_ok (fe_mp env)" and ops: "fe_ops env = bcache_buf_ops os dev" using su by (auto simp: fuse_setup_def)
  obtain e buf' b' where rd: "xfs_readlink (bcache_buf_ops os dev) (fe_mp env) (in_obj (ic_inodes fs') n) buf 0 len (ic_bufs fs') =
      Some (e, buf', b')" "bcache_inv os d BR bmx b'"
    "link_reply (dev_of os d dev) (fe_mp env) ip buf len (if e < 0 then e else 0) buf'"
    using fuse_link_read [OF m found(8,9) rq fuse_bufs(1) [OF found(4)]] by blast
  let ?fs = "fs'\<lparr>ic_bufs := b'\<rparr>"
  note i = fuse_bufs(2) [OF found(4) rd(2)]
  show ?thesis
  proof (cases "e < 0")
    case True
    have "served env os d dev T BR bmx mx R s (R(n := R n + 1)) (s\<lparr>ss_fs := ?fs\<rparr>)"
      using served_same [OF s i] found(3,10) by auto
    then show ?thesis using found(1,2,7) rd True by (auto simp: fuse_xfs_readlink_def ops)
  next
    case False
    have p: "0 < (R(n := R n + 1)) n" using found(3) by simp
    note put = fuse_put [OF i p, unfolded put_again]
    have "served env os d dev T BR bmx mx R s R (s\<lparr>ss_fs := libxfs_iput n ?fs\<rparr>)"
      using served_same [OF s put(1)] found(10) put(2) by simp
    then show ?thesis using found(1,2,7) rd False by (auto simp: fuse_xfs_readlink_def ops)
  qed
qed

text \<open>The callback of \<open>readdir\<close>: between calls, the objects referenced stay what they are.\<close>

definition dir_cache_ok ::
    "('b, 's) fuse_env \<Rightarrow> (int \<Rightarrow> int \<Rightarrow> bytes option) \<Rightarrow> int \<Rightarrow> (nat \<Rightarrow> int) \<Rightarrow> inodes \<Rightarrow> ('f \<times> cache \<times> inodes) option \<Rightarrow> bool" where
  "dir_cache_ok env dev mx R p0 t \<longleftrightarrow> (case t of None \<Rightarrow> False | Some (buf, c, p) \<Rightarrow>
     icache_inv (tree_list dev (fe_mp env)) (inode_of (fe_junk env) (fe_mp env) dev) mx R c p \<and> (\<forall>m. 0 < R m \<longrightarrow> in_obj p m = in_obj p0 m))"

lemma filldir_ok:
  assumes ops: "fe_ops env = bcache_buf_ops os dev" and g: "ino_geom (fe_mp env)"
    and t: "dir_cache_ok env (dev_of os d dev) mx R p0 t" and b: "bcache_inv os d BR bmx b" and room: "has_room mx R"
    and ip: "inode_of (fe_junk env) (fe_mp env) (dev_of os d dev) ino = Some ip"
  shows "\<exists>t' b'. fuse_xfs_filldir env filler (t, b) nm ck ino ty =
      (fst (filler (fst (the t)) (c_string nm) (Some (snd (xfs_stat ip))) 0), t', b') \<and>
    dir_cache_ok env (dev_of os d dev) mx R p0 t' \<and> bcache_inv os d BR bmx b' \<and>
    fst (the t') = snd (filler (fst (the t)) (c_string nm) (Some (snd (xfs_stat ip))) 0)"
proof -
  let ?load = "inode_of (fe_junk env) (fe_mp env) (dev_of os d dev)"
  let ?tr = "tree_list (dev_of os d dev) (fe_mp env)"
  obtain buf c p where tt: "t = Some (buf, c, p)" and i: "icache_inv ?tr ?load mx R c p"
    and keep: "\<forall>m. 0 < R m \<longrightarrow> in_obj p m = in_obj p0 m"
    using t by (auto simp: dir_cache_ok_def split: option.splits)
  let ?fs = "\<lparr> ic_cache = c, ic_inodes = p, ic_bufs = b \<rparr>"
  have "icache_inv ?tr ?load mx R (ic_cache ?fs) (ic_inodes ?fs)" "bcache_inv os d BR bmx (ic_bufs ?fs)"
    "int (card {n. R n \<noteq> 0}) < mx" using i b room by (simp_all add: has_room_def)
  from bcs.iget_ok [OF g this(1,2,3) ip, where find_chunk = "fe_chunk env"]
  obtain n fs where get: "libxfs_iget (bcache_buf_ops os dev) (fe_chunk env) (fe_junk env) (fe_mp env) ino 0 ?fs = Some (0, Some n, fs)"
      "0 \<le> R n" "icache_inv ?tr ?load mx (R(n := R n + 1)) (ic_cache fs) (ic_inodes fs)" "bcache_inv os d BR bmx (ic_bufs fs)"
      "loaded ?tr ip (in_obj (ic_inodes fs) n)" "\<forall>m. 0 < R m \<longrightarrow> in_obj (ic_inodes fs) m = in_obj p m"
    by auto
  have q: "0 < (R(n := R n + 1)) n" using get(2) by simp
  have put: "icache_inv ?tr ?load mx R (cache_node_put (ic_cache fs) n) (ic_inodes fs)"
    using get(3) icache_put [of mx "R(n := R n + 1)" "ic_cache fs" "ic_inodes fs" n, unfolded put_again] q
    by (auto simp: icache_inv_def)
  have st: "xfs_stat (in_obj (ic_inodes fs) n) = xfs_stat ip" by (rule stat_of_loaded [OF get(5)])
  show ?thesis
    using get(1,4,6) put keep st
    by (auto simp: fuse_xfs_filldir_def tt ops dir_cache_ok_def libxfs_iput_def Let_def xfs_stat_def split: prod.split)
qed

interpretation fd: dir_client os d bmx "fuse_xfs_filldir env (fill_names k)"
  "\<lambda>t. fe_ops env = bcache_buf_ops os dv \<and> ino_geom (fe_mp env) \<and> has_room imx IR \<and>
    dir_cache_ok env (dev_of os d dv) imx IR objs t"
  "\<lambda>t. fst (the t)"
  "\<lambda>buf nm ck ino ty. fill_names k buf (c_string nm)
    (map_option (\<lambda>ip. snd (xfs_stat ip)) (inode_of (fe_junk env) (fe_mp env) (dev_of os d dv) ino)) 0"
  "{e. inode_of (fe_junk env) (fe_mp env) (dev_of os d dv) (de_ino e) \<noteq> None}"
  for env os d dv bmx k imx IR objs
  using filldir_ok by unfold_locales fastforce

lemma emit_names:
  "snd (emit (\<lambda>buf nm ck ino ty. fill_names k buf (c_string nm) (st ino) 0) es buf) =
    (if k \<le> length buf then buf else take k (buf @ map (\<lambda>e. (c_string (de_name e), st (de_ino e))) es))"
proof (induction es arbitrary: buf)
  case (Cons e es)
  show ?case
  proof (cases "length buf < k")
    case True
    then have "k - length buf = Suc (k - Suc (length buf))" by simp
    then show ?thesis
      using True Cons [of "buf @ [(c_string (de_name e), st (de_ino e))]"] by (auto simp: fill_names_def not_le)
  qed (simp add: fill_names_def)
qed simp

lemma room_more:
  assumes "session_inv env os d dev T BR bmx mx R s" and "has_room (mx - 1) R"
  shows "has_room mx R" and "has_room mx (R(n := R n + 1))"
proof -
  have f: "finite {n. R n \<noteq> 0}" by (rule session_refs(2) [OF assms(1)])
  then have "card {m. (R(n := R n + 1)) m \<noteq> 0} \<le> card (insert n {n. R n \<noteq> 0})" by (intro card_mono) auto
  also have "\<dots> \<le> Suc (card {n. R n \<noteq> 0})" using f by (simp add: card_insert_if)
  finally show "has_room mx R" "has_room mx (R(n := R n + 1))" using assms(2) by (simp_all add: has_room_def)
qed

lemma icache_eta: "\<lparr> ic_cache = ic_cache fs, ic_inodes = ic_inodes fs, ic_bufs = ic_bufs fs \<rparr> = fs"
  by simp

lemma serve_readdir:
  assumes su: "fuse_setup env os d dev T" and s: "session_inv env os d dev T BR bmx mx R s" and r: "has_room (mx - 1) R"
    and rq: "0 \<le> offset" "offset \<le> leaf_end"
  shows "\<exists>rp s' R'. serve env (ReadDir path offset k) s = Some (rp, s') \<and> served env os d dev T BR bmx mx R s R' s' \<and>
    reply_ok env (dev_of os d dev) T s (ReadDir path offset k) rp s'"
proof (cases rule: fuse_find_cases [OF su s room_more(1) [OF s r], of path, case_names missing found])
  case (missing e fs' R')
  then show ?thesis by (auto simp: fuse_xfs_readdir_def)
next
  case (found ino n fs' ip)
  let ?dev = "dev_of os d dev" and ?mp = "fe_mp env" and ?R = "R(n := R n + 1)"
  let ?load = "inode_of (fe_junk env) (fe_mp env) ?dev"
  have ops: "fe_ops env = bcache_buf_ops os dev" using su by (simp add: fuse_setup_def)
  have w: "ino_geom ?mp" "disk_tree (fe_junk env) ?mp ?dev T" "bcache_inv os d BR bmx (ic_bufs fs')"
    "icache_inv (tree_list ?dev ?mp) ?load mx ?R (ic_cache fs') (ic_inodes fs')"
    using found(4) fuse_bufs(1) [OF found(4)] by (auto simp: fs_inv_def walk_inv_def)
  have q: "0 < ?R n" using found(3) by simp
  obtain x where x: "T ino = Some x" using found(6) by blast
  obtain ip' where ip': "?load ino = Some ip'" "case x of None \<Rightarrow> di_mode (i_d ip') AND S_IFDIR = 0
      | Some c \<Rightarrow> di_mode (i_d ip') AND S_IFDIR \<noteq> 0 \<and> dir_at ?dev ?mp ip' c"
    using w(2) x by (fastforce simp: disk_tree_def split: option.splits)
  have "ip' = ip" using found(7) ip'(1) by simp
  then have node: "case x of None \<Rightarrow> di_mode (i_d ip) AND S_IFDIR = 0
      | Some c \<Rightarrow> di_mode (i_d ip) AND S_IFDIR \<noteq> 0 \<and> dir_at ?dev ?mp ip c"
    using ip'(2) by blast
  let ?ip = "in_obj (ic_inodes fs') n"
  show ?thesis
  proof (cases x)
    case None
    then have "di_mode (i_d ?ip) AND S_IFDIR = 0" using node loaded_core [OF found(8)] by simp
    then have "xfs_readdir ops' i l ?mp f 1024000 offset t (?ip, b) = Some (XFS_ERROR ENOTDIR, offset, t, ?ip, b)" for ops' i l f t b
      by (simp add: xfs_readdir_def)
    note run = this
    note put = fuse_put [OF found(4) q, unfolded put_again]
    have "served env os d dev T BR bmx mx R s R (s\<lparr>ss_fs := libxfs_iput n fs'\<rparr>)"
      using served_same [OF s put(1)] found(10) put(2) by simp
    then show ?thesis using found(1,2) x None by (auto simp: fuse_xfs_readdir_def run same_object icache_eta)
  next
    case (Some c)
    have dir: "di_mode (i_d ip) AND S_IFDIR \<noteq> 0" "dir_at ?dev ?mp ip c" using node Some by auto
    have same: "?ip = ip" by (rule loaded_dir [OF found(8) dir(2)])
    have ls: "listing_ok ?mp c" "\<And>e. e \<in> set (dir_listing ?mp ip c) \<Longrightarrow> T (de_ino e) \<noteq> None"
      using su x found(7) unfolding fuse_setup_def Some by blast+
    have inode: "\<exists>i. ?load (de_ino e) = Some i" if "e \<in> set (dir_listing ?mp ip c)" for e
      using w(2) ls(2) [OF that] by (fastforce simp: disk_tree_def)
    let ?st = "\<lambda>ino. map_option (\<lambda>i. snd (xfs_stat i)) (?load ino)"
    let ?g = "\<lambda>buf nm ck ino ty. fill_names k buf (c_string nm) (?st ino) 0"
    let ?P = "dir_cache_ok env ?dev mx ?R (ic_inodes fs')" and ?f = "fuse_xfs_filldir env (fill_names k)"
    let ?t = "Some ([], ic_cache fs', ic_inodes fs')"
    have P: "?P ?t" using w(4) by (simp add: dir_cache_ok_def)
    have room: "int (card {n. BR n \<noteq> 0}) + 1 < bmx" using fuse_bufs(3) [OF found(4)] .
    have sub: "set (dir_listing ?mp ip c) \<subseteq> {e. ?load (de_ino e) \<noteq> None}" using inode by auto
    have pre: "fe_ops env = bcache_buf_ops os dev \<and> ino_geom ?mp \<and> has_room mx ?R \<and> ?P ?t"
      using ops w(1) room_more(2) [OF s r] P by blast
    obtain c' t' b' where rd: "xfs_readdir (bcache_buf_ops os dev) (fe_iread env) (fe_l2e env) ?mp ?f 1024000 offset ?t (ip, ic_bufs fs') =
        Some (0, c', t', ip, b')" "bcache_inv os d BR bmx b'" "?P t'"
      "stream_from (dir_listing ?mp ip c) (max offset (dir_last ?mp c)) ?g offset [] = (0, c', fst (the t'))"
      using fd.readdir_ok [OF dir(2) ls(1) dir(1) rq w(3) room _ _ pre sub, where k = k and iread = "fe_iread env"
          and l2e = "fe_l2e env" and B = 1024000] by auto
    obtain buf ch p where t': "t' = Some (buf, ch, p)" "icache_inv (tree_list ?dev ?mp) ?load mx ?R ch p"
      "\<forall>m. 0 < ?R m \<longrightarrow> in_obj p m = in_obj (ic_inodes fs') m"
      using rd(3) by (auto simp: dir_cache_ok_def split: option.splits)
    have buf: "buf = take k (map (dir_reply env ?dev) (filter (\<lambda>e. offset \<le> de_cookie e) (dir_listing ?mp ip c)))"
      using rd(4) emit_names [of k ?st "filter (\<lambda>e. offset \<le> de_cookie e) (dir_listing ?mp ip c)" "[]"]
      by (auto simp: stream_from_def t'(1) dir_reply_def [abs_def] split: prod.splits option.splits if_splits)
    have obj: "in_obj p n = ip" using t'(3) q same by simp
    let ?fs = "\<lparr> ic_cache = ch, ic_inodes = p, ic_bufs = b' \<rparr>"
    have i2: "fs_inv env os d dev T BR bmx mx ?R ?fs" using w t' rd(2) found(4) by (simp add: fs_inv_def walk_inv_def bcache_room_iff)
    note put = fuse_put [OF i2 q, unfolded put_again]
    have "\<forall>m. 0 < R m \<longrightarrow> i_ino (in_obj (ic_inodes (libxfs_iput n ?fs)) m) = i_ino (in_obj (ic_inodes (ss_fs s)) m)"
      using put(2) t'(3) found(3,10) by auto
    then have "served env os d dev T BR bmx mx R s R (s\<lparr>ss_fs := libxfs_iput n ?fs\<rparr>)"
      using served_same [OF s put(1)] by blast
    moreover have "set_inode n ip p = p" using same_object [of n p] obj by simp
    ultimately show ?thesis
      using found(1,2,7) x Some rd(1) t'(1) buf same by (auto simp: fuse_xfs_readdir_def ops)
  qed
qed

lemma serve_open:
  assumes "fuse_setup env os d dev T" and s: "session_inv env os d dev T BR bmx mx R s" and "has_room mx R"
  shows "\<exists>rp s' R'. serve env (Open path) s = Some (rp, s') \<and> served env os d dev T BR bmx mx R s R' s' \<and>
    reply_ok env (dev_of os d dev) T s (Open path) rp s'"
proof (cases rule: fuse_find_cases [OF assms, of path, case_names missing found])
  case (missing e fs' R')
  then show ?thesis by (auto simp: fuse_xfs_open_def)
next
  case (found ino n fs' ip)
  let ?s = "s\<lparr>ss_fs := fs', ss_open := n # ss_open s\<rparr>"
  have h: "\<forall>m \<in> set (ss_open s). i_ino (in_obj (ic_inodes fs') m) = i_ino (in_obj (ic_inodes (ss_fs s)) m)"
    using found(10) handle_ref [OF s] by blast
  have "int (count_list (n # ss_open s) m) \<le> (R(n := R n + 1)) m" for m
    using s by (auto simp: session_inv_def add.commute)
  then have "session_inv env os d dev T BR bmx mx (R(n := R n + 1)) ?s"
    using s found(4,5,6) h by (auto simp: session_inv_def)
  then have "served env os d dev T BR bmx mx R s (R(n := R n + 1)) ?s" using h by (auto simp: served_def)
  then show ?thesis using found(1,2,5) by (auto simp: fuse_xfs_open_def)
qed

text \<open>A read may leave the list of extents in the object.\<close>

lemma fuse_object_read:
  assumes "fs_inv env os d dev T BR bmx mx R fs"
    and "inode_of (fe_junk env) (fe_mp env) (dev_of os d dev) (i_ino (in_obj (ic_inodes fs) n)) = Some ip0"
    and "loaded (tree_list (dev_of os d dev) (fe_mp env)) ip0 ip" and "i_ino ip = i_ino (in_obj (ic_inodes fs) n)"
    and "bcache_inv os d BR bmx b"
  shows "fs_inv env os d dev T BR bmx mx R (fs\<lparr>ic_inodes := set_inode n ip (ic_inodes fs), ic_bufs := b\<rparr>)"
proof -
  have i: "icache_inv (tree_list (dev_of os d dev) (fe_mp env)) (inode_of (fe_junk env) (fe_mp env) (dev_of os d dev)) mx R
      (ic_cache fs) (ic_inodes fs)"
    using assms(1) by (simp add: fs_inv_def walk_inv_def)
  show ?thesis
    using assms(1,5) icache_inv_object [OF i assms(2-4)] by (simp add: fs_inv_def walk_inv_def bcache_room_iff)
qed

lemma serve_read:
  assumes su: "fuse_setup env os d dev T" and s: "session_inv env os d dev T BR bmx mx R s"
    and h: "fh \<in> set (ss_open s)" and rq: "req_ok buf offset len"
  shows "\<exists>rp s' R'. serve env (Read fh buf len offset) s = Some (rp, s') \<and> served env os d dev T BR bmx mx R s R' s' \<and>
    reply_ok env (dev_of os d dev) T s (Read fh buf len offset) rp s'"
proof -
  let ?fs = "ss_fs s"
  have i: "fs_inv env os d dev T BR bmx mx R ?fs" and t: "T (i_ino (in_obj (ic_inodes ?fs) fh)) \<noteq> None"
    using s h by (auto simp: session_inv_def)
  obtain ip where ip: "inode_of (fe_junk env) (fe_mp env) (dev_of os d dev) (i_ino (in_obj (ic_inodes ?fs) fh)) = Some ip"
    "loaded (tree_list (dev_of os d dev) (fe_mp env)) ip (in_obj (ic_inodes ?fs) fh)" "node_ok env (dev_of os d dev) ip"
    by (rule fuse_object [OF su i handle_ref [OF s h] t])
  have m: "mount_ok (fe_mp env)" and ops: "fe_ops env = bcache_buf_ops os dev" using su by (auto simp: fuse_setup_def)
  obtain r buf' ip' b' where rd: "xfs_readfile (bcache_buf_ops os dev) (fe_iread env) (fe_mp env) (in_obj (ic_inodes ?fs) fh) buf
      offset len (ic_bufs ?fs) = Some (r, buf', ip', b')" "bcache_inv os d BR bmx b'"
    "loaded (tree_list (dev_of os d dev) (fe_mp env)) ip ip'" "i_ino ip' = i_ino (in_obj (ic_inodes ?fs) fh)"
    "read_reply (dev_of os d dev) (fe_mp env) ip buf offset len r buf'"
    using fuse_file_read [OF m ops ip(2,3) rq fuse_bufs(1) [OF i]] by blast
  let ?fs' = "?fs\<lparr>ic_inodes := set_inode fh ip' (ic_inodes ?fs), ic_bufs := b'\<rparr>"
  have "\<forall>m. 0 < R m \<longrightarrow> i_ino (in_obj (ic_inodes ?fs') m) = i_ino (in_obj (ic_inodes ?fs) m)"
    using rd(4) by (simp add: set_inode_def)
  then have "served env os d dev T BR bmx mx R s R (s\<lparr>ss_fs := ?fs'\<rparr>)"
    using served_same [OF s fuse_object_read [OF i ip(1) rd(3,4,2)]] by blast
  moreover have "serve env (Read fh buf len offset) s = Some (RData r buf', s\<lparr>ss_fs := ?fs'\<rparr>)"
    using rd(1) by (simp add: fuse_xfs_read_def ops)
  ultimately show ?thesis using ip(1) rd(5) by auto
qed

lemma serve_release:
  assumes s: "session_inv env os d dev T BR bmx mx R s" and h: "fh \<in> set (ss_open s)"
  shows "\<exists>rp s' R'. serve env (Release fh) s = Some (rp, s') \<and> served env os d dev T BR bmx mx R s R' s' \<and>
    reply_ok env (dev_of os d dev) T s (Release fh) rp s'"
proof -
  let ?s = "s\<lparr>ss_fs := libxfs_iput fh (ss_fs s), ss_open := remove1 fh (ss_open s)\<rparr>"
  have i: "fs_inv env os d dev T BR bmx mx R (ss_fs s)" using s by (simp add: session_inv_def)
  note put = fuse_put [OF i handle_ref [OF s h]]
  have "int (count_list (remove1 fh (ss_open s)) m) \<le> (R(fh := R fh - 1)) m" for m
  proof -
    have "int (count_list (ss_open s) m) \<le> R m" using s by (simp add: session_inv_def)
    then show ?thesis unfolding count_list_remove1 [OF h] by (cases "m = fh") simp_all
  qed
  then have "session_inv env os d dev T BR bmx mx (R(fh := R fh - 1)) ?s"
    using s put set_remove1_subset [of fh "ss_open s"] by (auto simp: session_inv_def)
  moreover have "{m. (R(fh := R fh - 1)) m \<noteq> 0} \<subseteq> insert fh {m. R m \<noteq> 0}" by auto
  ultimately have "served env os d dev T BR bmx mx R s (R(fh := R fh - 1)) ?s"
    using put(2) by (auto simp: served_def)
  then show ?thesis by (auto simp: fuse_xfs_release_def)
qed

text \<open>Every request is served, and with the right reply.\<close>

lemma serve_ok:
  assumes su: "fuse_setup env os d dev T" and s: "session_inv env os d dev T BR bmx mx R s" and r: "has_room (mx - 1) R"
    and rq: "legal env s rq"
  shows "\<exists>rp s' R'. serve env rq s = Some (rp, s') \<and> served env os d dev T BR bmx mx R s R' s' \<and>
    reply_ok env (dev_of os d dev) T s rq rp s'"
proof -
  note room = room_more(1) [OF s r]
  show ?thesis
  proof (cases rq)
    case (GetAttr path)
    then show ?thesis using serve_getattr [OF su s room] by simp
  next
    case (ReadLink path buf len)
    then show ?thesis using serve_readlink [OF su s room] rq by simp
  next
    case (OpenDir path)
    then show ?thesis using serve_opendir [OF su s room] by simp
  next
    case (ReadDir path offset k)
    then show ?thesis using serve_readdir [OF su s r, of offset path k] rq by simp
  next
    case (Open path)
    then show ?thesis using serve_open [OF su s room] by simp
  next
    case (Read fh buf len offset)
    then show ?thesis using serve_read [OF su s] rq by simp
  next
    case (Release fh)
    then show ?thesis using serve_release [OF s] rq by simp
  qed
qed

section \<open>Runs\<close>

definition referenced :: "(nat \<Rightarrow> int) \<Rightarrow> int" where
  "referenced R = int (card {n. R n \<noteq> 0})"

lemma served_referenced:
  assumes "session_inv env os d dev T BR bmx mx R s" and "served env os d dev T BR bmx mx R s R' s'"
  shows "referenced R' \<le> referenced R + 1"
proof -
  have f: "finite {m. R m \<noteq> 0}" by (rule session_refs(2) [OF assms(1)])
  obtain n where "{m. R' m \<noteq> 0} \<subseteq> insert n {m. R m \<noteq> 0}" using assms(2) by (auto simp: served_def)
  then have "card {m. R' m \<noteq> 0} \<le> card (insert n {m. R m \<noteq> 0})" using f by (intro card_mono) auto
  also have "\<dots> \<le> Suc (card {m. R m \<noteq> 0})" using f by (simp add: card_insert_if)
  finally show ?thesis by (simp add: referenced_def)
qed

lemma session_run_inv:
  assumes "session_run env s0 tr s" and su: "fuse_setup env os d dev T" and "session_inv env os d dev T BR bmx mx R0 s0"
    and "referenced R0 + int (length tr) < mx"
  shows "\<exists>R. session_inv env os d dev T BR bmx mx R s \<and> referenced R \<le> referenced R0 + int (length tr)"
  using assms(1,3,4)
proof (induction rule: session_run.induct)
  case (start s)
  then show ?case by auto
next
  case (request s tr s1 rq rp s2)
  from request.IH request.prems obtain R where R: "session_inv env os d dev T BR bmx mx R s1"
    "referenced R \<le> referenced R0 + int (length tr)" by auto
  then have "has_room (mx - 1) R" using request.prems(2) by (simp add: has_room_def referenced_def)
  from serve_ok [OF su R(1) this request.hyps(2)] request.hyps(3)
  obtain R' where R': "served env os d dev T BR bmx mx R s1 R' s2" by auto
  then show ?case
    using served_referenced [OF R(1) R'] R(2) by (intro exI [of _ R']) (simp add: served_def)
qed

text \<open>C8: The bookkeeping of a mounted file system. Whatever sequence of legal requests the kernel sends, the two caches
  stay consistent with the device, every open handle is covered by a reference on its inode object, and every open handle
  is an inode of the tree. The number of referenced objects grows by at most one for each request.\<close>

theorem fuse_session_invariant:
  assumes "session_run env s0 tr s" and "fuse_setup env os d dev T" and "session_inv env os d dev T BR bmx mx R0 s0"
    and "referenced R0 + int (length tr) < mx"
  shows "\<exists>R. session_inv env os d dev T BR bmx mx R s \<and> referenced R \<le> referenced R0 + int (length tr)"
  by (rule session_run_inv [OF assms])

text \<open>C7: The file system answers. In every state a run of legal requests leads to, as long as the inode cache has room,
  the next legal request returns, and returns what the tree on the device says: the attributes, the target, the bytes
  or the handle of the inode the path names, ENOENT for a path that names none; and handles open before the
  request still stand for the same inodes after it. The bytes of files, extent lists that are trees on the
  device included, are their contents except in unwritten extents, where the code delivers what lies on the device,
  and \<open>-EIO\<close> answers a request for a block that cannot be read. Left out are short-form directories of version 5 (what
  reading them delivers is another property), files in trees the code refuses, and reads of the device that come short.\<close>

theorem fuse_replies_correct:
  assumes run: "session_run env s0 tr s" and su: "fuse_setup env os d dev T"
    and inv: "session_inv env os d dev T BR bmx mx R0 s0" and room: "referenced R0 + int (length tr) + 1 < mx" and rq: "legal env s rq"
  shows "\<exists>rp s'. serve env rq s = Some (rp, s') \<and> reply_ok env (dev_of os d dev) T s rq rp s' \<and>
    (\<forall>n \<in> set (ss_open s). i_ino (in_obj (ic_inodes (ss_fs s')) n) = i_ino (in_obj (ic_inodes (ss_fs s)) n))"
proof -
  obtain R where R: "session_inv env os d dev T BR bmx mx R s" "referenced R \<le> referenced R0 + int (length tr)"
    using session_run_inv [OF run su inv] room by auto
  then have "has_room (mx - 1) R" using room by (simp add: has_room_def referenced_def)
  from serve_ok [OF su R(1) this rq] show ?thesis by (auto simp: served_def)
qed

text \<open>C9: What a successful getattr leaves: one reference more on the object of the inode and no handle to give it back
  by, so that the object can never leave the cache. An opendir of the same path gives its reference back.\<close>

theorem fuse_getattr_leaks:
  assumes su: "fuse_setup env os d dev T" and inv: "session_inv env os d dev T BR bmx mx R s" and room: "has_room mx R"
    and p: "path_ino env (dev_of os d dev) T path = Some ino"
  shows "(\<exists>st s' n. serve env (GetAttr path) s = Some (RAttr 0 (Some st), s') \<and> ss_open s' = ss_open s \<and>
      i_ino (in_obj (ic_inodes (ss_fs s')) n) = ino \<and>
      refs (ic_cache (ss_fs s')) = (refs (ic_cache (ss_fs s)))(n := refs (ic_cache (ss_fs s)) n + 1)) \<and>
    (\<exists>s'. serve env (OpenDir path) s = Some (RCode 0, s') \<and> ss_open s' = ss_open s \<and>
      refs (ic_cache (ss_fs s')) = refs (ic_cache (ss_fs s)))"
proof (cases rule: fuse_find_cases [OF su inv room, of path, case_names missing found])
  case (missing e fs' R')
  then show ?thesis using p by simp
next
  case (found t n fs' ip)
  have q: "0 < (R(n := R n + 1)) n" using found(3) by simp
  have "refs (ic_cache fs') = R(n := R n + 1)" by (rule fs_refs [OF found(4)])
  moreover have "refs (ic_cache (libxfs_iput n fs')) = R"
    by (rule fs_refs [OF fuse_put(1) [OF found(4) q, unfolded put_again]])
  moreover have "refs (ic_cache (ss_fs s)) = R" by (rule session_refs(1) [OF inv])
  ultimately show ?thesis
    using found(1,2,5) p by (auto simp: fuse_xfs_getattr_def fuse_xfs_fgetattr_def fuse_xfs_opendir_def)
qed

section \<open>The properties at the sample\<close>

definition sample_env :: "(nat, unit bcache) fuse_env" where
  "sample_env = \<lparr> fe_alloc = True, fe_ops = bcache_buf_ops inode_os 0, fe_chunk = no_chunks, fe_junk = junk7,
     fe_iread = no_iread, fe_l2e = no_iread, fe_mp = inode_mp \<rparr>"

definition sample_session :: "unit bcache session" where
  "sample_session = \<lparr> ss_fs = sample_fs, ss_open = [] \<rparr>"

lemma sample_setup: "fuse_setup sample_env inode_os () 0 sample_tree"
proof -
  have "node_ok sample_env (dev_of inode_os () 0) ip" if t: "tree_inode junk7 inode_mp (dev_of inode_os () 0) sample_tree ino = Some ip" for ino ip
  proof -
    obtain r where r: "inode_of junk7 inode_mp (dev_of inode_os () 0) 128 = Some r" "i_d r = root_core"
      by (rule sample_root_inode)
    obtain f where f: "iread_dev junk7 inode_mp (dev_of inode_os () 0) 132 zero_inode = Some (0, f)" "i_d f = file_core"
      "fork_holds (i_df f) (Extents [])"
      using iread_dev_ok [OF sample_inodes_at(2) junk7_ok, of zero_inode] sample_versions(4) by (auto simp: zero_fork_def)
    have "ip = r \<or> ip = f"
      using t r(1) f(1) by (auto simp: tree_inode_def sample_tree_def inode_of_iread split: if_splits)
    moreover have "node_ok sample_env (dev_of inode_os () 0) r" using r(2) by (simp add: node_ok_def S_IFLNK_def inode_cores)
    moreover have "node_ok sample_env (dev_of inode_os () 0) f"
      using f(2,3) by (simp add: node_ok_def sample_env_def S_IFLNK_def file_ok_def S_IFREG_def inode_cores file_core_def sample_inode_def Let_def)
    ultimately show ?thesis by blast
  qed
  moreover have "mount_ok inode_mp" using inode_mp_geom by (simp add: mount_ok_def ino_geom_def BBSHIFT_def)
  moreover have "listing_ok inode_mp (SfDir tree_sd)"
    using inode_mp_geom sample_versions(1)
    by (simp add: listing_ok_def ino_geom_def sf_offsets_ok_def tree_sd_def inode_mp_def sample_geom)
  moreover have "de_ino e = 128 \<or> de_ino e = 132"
    if "inode_of junk7 inode_mp (dev_of inode_os () 0) 128 = Some ip" "e \<in> set (dir_listing inode_mp ip (SfDir tree_sd))" for ip e
  proof -
    have "i_ino ip = 128" using that(1) by (rule inode_of_ino)
    then show ?thesis using that(2) by (auto simp: dir_listing_def sf_dirents_def tree_sd_def sf_dirent_def)
  qed
  ultimately show ?thesis unfolding fuse_setup_def by (auto simp: sample_env_def sample_tree_def split: if_splits)
qed

lemma sample_session_inv:
  "session_inv sample_env inode_os () 0 sample_tree (\<lambda>n. 0) (1024 * 8) (1024 * 8) (\<lambda>n. 0) sample_session"
  "referenced (\<lambda>n. 0) = 0" "has_room (1024 * 8) (\<lambda>n. 0)" "has_room (1024 * 8 - 1) (\<lambda>n. 0)"
  using sample_fs_inv(3)
  by (simp_all add: session_inv_def fs_inv_def sample_env_def sample_session_def referenced_def has_room_def)

lemma sample_path: "path_ino sample_env (dev_of inode_os () 0) sample_tree [47] = Some 128"
  by (simp add: path_ino_def sample_env_def components.simps PATH_SEP_def)

theorem fuse_session_invariant_witness:
  "\<exists>rp s R. session_run sample_env sample_session [(Open [47], rp)] s \<and>
    session_inv sample_env inode_os () 0 sample_tree (\<lambda>n. 0) (1024 * 8) (1024 * 8) R s \<and> referenced R \<le> 1"
proof -
  obtain rp s where s: "serve sample_env (Open [47]) sample_session = Some (rp, s)"
    using serve_ok [OF sample_setup sample_session_inv(1,4), of "Open [47]"] by auto
  have run: "session_run sample_env sample_session [(Open [47], rp)] s"
    using session_run.request [OF session_run.start _ s] by simp
  show ?thesis
    using fuse_session_invariant [OF run sample_setup sample_session_inv(1)] sample_session_inv(2) run by auto
qed

theorem fuse_replies_correct_witness:
  "\<exists>ds s'. serve sample_env (ReadDir [47] 0 10) sample_session = Some (RDir 0 ds, s') \<and>
    map fst ds = [[46], [46, 46], [99]]"
proof -
  have l: "legal sample_env sample_session (ReadDir [47] 0 10)"
    by (simp add: leaf_end_def)
  have t: "sample_tree 128 = Some (Some (SfDir tree_sd))" by (simp add: sample_tree_def)
  have room: "referenced (\<lambda>n. 0) + int (length ([] :: (request \<times> reply) list)) + 1 < 1024 * 8"
    using sample_session_inv(2) by simp
  obtain ip s' where s': "serve sample_env (ReadDir [47] 0 10) sample_session = Some (RDir 0 (take 10 (map (dir_reply sample_env
      (dev_of inode_os () 0)) (filter (\<lambda>e. 0 \<le> de_cookie e) (dir_listing inode_mp ip (SfDir tree_sd))))), s')"
    "inode_of junk7 inode_mp (dev_of inode_os () 0) 128 = Some ip"
    using fuse_replies_correct [OF session_run.start sample_setup sample_session_inv(1) room l] sample_path t
    by (auto simp: sample_env_def)
  obtain r where r: "inode_of junk7 inode_mp (dev_of inode_os () 0) 128 = Some r"
    "dir_at (dev_of inode_os () 0) inode_mp r (SfDir tree_sd)"
    by (rule sample_root_inode)
  have "listing_ok inode_mp (SfDir tree_sd)" using sample_setup t by (fastforce simp: fuse_setup_def sample_env_def)
  define es where "es = dir_listing inode_mp ip (SfDir tree_sd)"
  have "cookies_ok es (dir_last inode_mp (SfDir tree_sd))"
    using listing_cookies [OF r(2) \<open>listing_ok inode_mp (SfDir tree_sd)\<close>] r(1) s'(2) by (simp add: es_def)
  then have "filter (\<lambda>e. 0 \<le> de_cookie e) es = es" by (auto simp: cookies_ok_def list_all_iff filter_id_conv)
  note s'(1) [folded es_def, unfolded this]
  moreover have "map (fst \<circ> dir_reply sample_env (dev_of inode_os () 0)) es = [[46], [46, 46], [99]]"
    by (simp add: es_def dir_listing_def sf_dirents_def tree_sd_def sf_dirent_def dir_reply_def c_string_def)
  then have "map fst (take 10 (map (dir_reply sample_env (dev_of inode_os () 0)) es)) = [[46], [46, 46], [99]]"
    by (simp add: es_def dir_listing_def sf_dirents_def tree_sd_def)
  ultimately show ?thesis by (intro exI conjI)
qed

theorem fuse_getattr_leaks_witness:
  "\<exists>st s' n. serve sample_env (GetAttr [47]) sample_session = Some (RAttr 0 (Some st), s') \<and>
    refs (ic_cache (ss_fs s')) n = 1"
proof -
  have "refs (ic_cache (ss_fs sample_session)) = (\<lambda>n. 0)" by (rule session_refs(1) [OF sample_session_inv(1)])
  then show ?thesis
    using fuse_getattr_leaks [OF sample_setup sample_session_inv(1,3) sample_path] by fastforce
qed

end
