(* ===== verification/Spec2Isabelle.thy ===== *)
theory Spec2Isabelle
  imports Dir2_Sf_Name Large_Dir Fuse_Ops
begin

text \<open>
  A verification development for fuse-xfs, a user-space reader of XFS file systems. All paths are under
  src/src; src/fusexfs-trunk holds an earlier copy of the same tree.

  \<^bold>\<open>The program.\<close> fuse/fuse_xfs.c answers requests of the FUSE library, cli/ is a small shell. Both stand on
  xfsutil/xfsutil.c, which finds the inode of a path, reads files, symbolic links and directories, and on
  the vendored xfsprogs/libxfs, of which they use the superblock and mount code, the object cache with the
  buffer and inode caches in it, the extent lists of inodes, and the directory code.

  \<^bold>\<open>Theories, in the order of the imports.\<close>
  \<^item> \<open>Prelude\<close>: C integer conversions, checked access to byte buffers, big-endian numbers.
  \<^item> \<open>Superblock\<close> (libxfs/xfs_mount.c, include/xfs_sb.h): the superblock and its conversions. The table
    \<open>xfs_sb_info\<close> and the loop of \<open>xfs_sb_to_disk\<close> are kept as they are, with its choice by size and type
    between copying bytes and swapping 16, 32 or 64 bits; writing and reading back agree.
  \<^item> \<open>Mount\<close> (include/xfs_sb.h, xfs_ag.h, xfs_dir2_leaf.h, libxfs/xfs_dir2.c): the mount structure and the
    address arithmetic, every macro with the C type of its result; when no wrap-around happens.
  \<^item> \<open>Inode\<close> (include/xfs_inode.h, libxfs.h, libxfs/xfs_inode.c): inode, data fork, \<open>xfs_idata_realloc\<close>.
  \<^item> \<open>Dinode\<close>, \<open>Inode_Format\<close> (include/xfs_dinode.h, libxfs/xfs_inode.c): the inode on disk, \<open>disk_inode\<close>, its
    conversions, and \<open>xfs_iformat\<close>, which builds the forks. \<open>body\<close> is what an inode holds, inline bytes or
    extents, and \<open>fork_holds\<close> relates a fork in core to it.
  \<^item> \<open>Bmbt\<close> (libxfs/xfs_bmap_btree.c): packed extent records on 64-bit words; round trips and setters.
  \<^item> \<open>Bmap_Read\<close> (libxfs/xfs_bmap.c, xfs_inode.c): the binary search over extents, \<open>xfs_bmapi\<close> and
    \<open>xfs_bmapi_single\<close> for readers, \<open>xfs_bmap_last_before\<close>, \<open>_last_offset\<close>, \<open>_first_unused\<close>; the result of
    a mapping request tiles the range and agrees with the extents block by block.
  \<^item> \<open>Bmap_Tree\<close> (libxfs/xfs_bmap.c, xfs_inode.c): reading in the extent list of a file whose list is a B-tree,
    over the contract \<open>buf_store\<close>; \<open>leaf_chain\<close> is the list the leaves hold.
  \<^item> \<open>Dir2_Sf\<close>, \<open>Dir2_Sf_Ops\<close>, \<open>Dir2_Sf_Replace\<close>, \<open>Dir2_Sf_Name\<close> (libxfs/xfs_dir2_sf.c): directories inside
    an inode. \<open>sf_dir\<close> is the abstract directory, \<open>sf_holds\<close> relates the packed bytes to it. Lookup is the
    abstract search, creation, conversion and replacement implement the abstract operations; insertion
    and removal do not, and the theorems say by how much they miss.
  \<^item> \<open>File_Read\<close> (xfsutil/xfsutil.c): files and symbolic links. The contract \<open>buf_store\<close> is what they need
    of a buffer cache: a read returns the bytes of the device, and the balance of buffers is kept. \<open>inode_byte\<close> is
    the contents of a file, zero in holes and unwritten extents; the code delivers \<open>read_byte\<close>, which in unwritten
    extents is \<open>device_byte\<close>, what lies there on the device.
  \<^item> \<open>Cache\<close> (libxfs/cache.c): the object cache, on numbered nodes with reference counts. Its contract with
    the objects in it is the locale \<open>cache_client\<close>; the invariant \<open>cache_inv\<close> keeps hash chains, lists of
    unreferenced nodes and counts in agreement, and \<open>R\<close> gives the references held on every node.
  \<^item> \<open>Bufcache\<close> (libxfs/rdwr.c): buffers as objects of the cache, over a device given as parameter. It
    interprets \<open>cache_client\<close> and provides \<open>buf_store\<close>.
  \<^item> \<open>Da_Buf\<close> (libxfs/xfs_da_btree.c): reading directory blocks through the buffer cache.
  \<^item> \<open>Dir2_Data\<close> (include/xfs_dir2_data.h, xfs_dir2_block.h): the layout of directory blocks.
  \<^item> \<open>Dir2_Readdir\<close>, \<open>Dir2_Block\<close> (xfsutil/xfsutil.c): reading directories into a callback, short-form and
    of one block. The contract \<open>dir_stream\<close> says what one call delivers; from it follows that reading in
    pieces of any size, each from the cookie of the last, delivers every entry once and ends. The steps of the
    loop over a block are the relation \<open>block_goes\<close>: from a step that leads back to itself the loop does not return.
  \<^item> \<open>Dir2_Leaf\<close>, \<open>Dir2_Leaf_Scan\<close>, \<open>Dir2_Leaf_Dir\<close>, \<open>Dir2_Leaf_Read\<close> (xfsutil/xfsutil.c): reading directories with
    data blocks of their own, \<open>xfs_dir2_leaf_getdents\<close>: its table of mappings, the read-ahead, positions in a
    block. \<open>leaf_dir_ok\<close> is such a directory on the device, \<open>leaf_listing\<close> its entries with their cookies.
  \<^item> \<open>Dir2_Lookup\<close> (libxfs/xfs_da_btree.c, xfs_dir2_block.c): the hash of names, the search of a one-block
    directory by hash.
  \<^item> \<open>Buf_Pool\<close>: the contract \<open>buf_pool\<close> of a buffer cache of which several buffers are held at a time, counted by a
    multiset; it extends \<open>buf_store\<close>.
  \<^item> \<open>Dir2_Leaf_Lookup\<close> (libxfs/xfs_dir2_leaf.c): lookup by the leaf block; \<open>dir_index\<close> says that the hash entries
    index a listing.
  \<^item> \<open>Dir2_Node\<close>, \<open>Dir2_Node_Tree\<close>, \<open>Dir2_Node_Lookup\<close> (libxfs/xfs_dir2_node.c, xfs_da_btree.c): lookup by the tree of
    hashes. \<open>da_tree\<close> is the tree, \<open>da_at\<close> puts it on the device, \<open>path_at\<close> relates the path of buffers the code
    holds to it; descent and shift to the next leaf are correct for every such path. The loop over
    a leaf does what that of \<open>Dir2_Leaf_Lookup\<close> does (\<open>leafn_loop_like\<close>).
  \<^item> \<open>Dir_Lookup\<close> (libxfs/xfs_dir2.c): \<open>xfs_dir_lookup\<close>, which chooses between the four kinds. \<open>dir_at\<close> says which
    abstract directory an inode is on the device, \<open>dir_entry\<close> what a name leads to in it.
  \<^item> \<open>Inode_Read\<close> (libxfs/xfs_ialloc.c, xfs_inode.c): where the inode of a number lies (\<open>xfs_dilocate\<close>,
    \<open>xfs_imap\<close>), its buffer and \<open>libxfs_iread\<close>. \<open>iread_dev\<close> is what reading an inode gives on a device.
  \<^item> \<open>Bcache_Read\<close>, \<open>Bcache_Tree\<close>: file and directory reading over the buffer cache of \<open>Bufcache\<close>, which is a
    \<open>buf_store\<close> and, with room for six more buffers (\<open>bcache_room\<close>), a \<open>buf_pool\<close>. \<open>btree_file\<close> is a file whose
    tree of extents is well-formed; what happens with a tree that is refused is a property of its own.
  \<^item> \<open>Dir_Client\<close>, \<open>Readdir\<close> (xfsutil/xfsutil.c): callbacks of directory reading that use the caches themselves (the
    contract \<open>dir_client\<close>) and \<open>xfs_readdir\<close> with them, for the four kinds of directories. \<open>Large_Dir\<close> has the
    properties of leaf and node directories, and samples of both.
  \<^item> \<open>Path_Walk\<close> (xfsutil/xfsutil.c): splitting a path and \<open>find_path\<close>, over the contract \<open>inode_store\<close> of an
    inode cache.
  \<^item> \<open>Icache\<close>, \<open>Icache_Walk\<close> (libxfs/rdwr.c): inodes as objects of the cache, a second interpretation of
    \<open>cache_client\<close>; \<open>libxfs_iget\<close> over both caches, and the interpretation of \<open>inode_store\<close> by them for a tree
    of inodes (\<open>disk_tree\<close>) on the device. \<open>Path_Find\<close> has the properties of the two, and a sample device.
  \<^item> \<open>Fuse_Ops\<close> (fuse/fuse_xfs.c, xfsutil/xfsutil.c): the handlers of FUSE requests. \<open>session_run\<close> is the step
    relation of a mounted file system, \<open>session_inv\<close> its invariant, \<open>reply_ok\<close> what the replies promise in terms
    of the tree on the device. The tree has files with extent lists in the inode and in B-trees (\<open>node_ok\<close>).

  \<^bold>\<open>Conventions.\<close> Reading outside a buffer or through NULL, and a call that never returns, give \<open>None\<close>. Errors
  are the integers of the source: \<open>XFS_ERROR\<close> is negative in xfsutil.c and positive in libxfs. Loops are
  structural recursions, functions with a measure, or \<open>partial_function\<close> where they may run for ever; fuel
  occurs only in \<open>read_chunks\<close>, the sequence of calls a reader of a directory makes, with one round per
  entry and two more.

  \<^bold>\<open>Parameters.\<close> The device (\<open>dev_ops\<close>: \<open>pread64\<close>, \<open>pwrite64\<close>), the callback of directory reading and the
  contents of fresh memory. Of the code of libxfs: the search of the inode B-tree for a chunk, used only on
  file systems without inode alignment. The theorems about paths and sessions do not depend on what it does:
  they are about file systems with aligned inodes. The device is taken to satisfy \<open>os_ok\<close>: memory is there when it
  is asked for, and \<open>pread64\<close> returns as many bytes as it is asked for or an error, the same ones each time. The
  second is more than POSIX says, and what the properties mean by a block that can be read: the code compares the result with 0 only,
  so that after a short read the rest of the buffer is what was there before (\<open>readbufr_short\<close>).

  \<^bold>\<open>One after another.\<close> The operations of the caches and the requests of a session run one after another. The mutexes
  of the object cache and the paths that only another thread can cause are left out. fuse/main.c calls \<open>fuse_main\<close> without
  -s, so the program itself serves requests from several threads; nothing here speaks of these.

  \<^bold>\<open>Directories.\<close> Lookup is proved right for exact names (file systems without the ASCII case-insensitive
  feature); the definitions handle the others too. Directory blocks are those of version 4 file systems and have
  the size of a file system block. A tree of hashes has at most five levels, as many as the path of the code
  has room for, and no empty leaf; the assertion at the head of \<open>xfs_da_path_shift\<close>, not compiled in, admits four.
  Extent lists of directories are in core. The short-form directories of a session are of version 4.

  \<^bold>\<open>Bounds.\<close> The inode cache never drops a referenced object, and \<open>find_path\<close> and getattr lose references.
  The theorem about sessions therefore asks for fewer referenced objects than the cache may hold, and
  counts: each request adds at most one. A lookup holds at most one buffer for every level of a tree and one data
  buffer, which is the room \<open>bcache_room\<close> asks for.

  \<^bold>\<open>Not modelled.\<close> The tools of xfsprogs (mkfs, repair, db, copy, growfs, io, quota and others), which this
  repository carries but does not link; allocation, logging and everything that writes through libxfs
  except the short-form directory operations; extended attributes, which the FUSE operations do not read;
  of \<open>libxfs_mount\<close> the log and realtime devices, the per-group counters and the start-up of the library;
  fuse/main.c and cli/, which are option parsing, terminal and host file system access.
\<close>

end
